(* ===== verification/Prelude.thy ===== *)
theory Prelude
  imports Main "HOL-Library.Word"
begin

text \<open>
  What every component of the development shares: Rust's fixed-width integers and their
  checked and saturating arithmetic, the outcome of a fallible operation (a value, an error
  value, or a panic), and generic lemmas on lists and maps.
\<close>

section \<open>Fixed-width integers\<close>

type_synonym u8 = "8 word"
type_synonym u32 = "32 word"
type_synonym u64 = "64 word"

text \<open>Rust's \<open>checked_add\<close>: \<open>None\<close> where the exact sum does not fit.\<close>

definition checked_add :: "'w::len word \<Rightarrow> 'w word \<Rightarrow> 'w word option" where
  "checked_add a b = (if unat a + unat b < 2 ^ LENGTH('w) then Some (a + b) else None)"

definition saturating_add :: "'w::len word \<Rightarrow> 'w word \<Rightarrow> 'w word" where
  "saturating_add a b = (if unat a + unat b < 2 ^ LENGTH('w) then a + b else - 1)"

definition saturating_sub :: "'w::len word \<Rightarrow> 'w word \<Rightarrow> 'w word" where
  "saturating_sub a b = (if b \<le> a then a - b else 0)"

lemma checked_add_SomeD:
  "checked_add a b = Some c \<Longrightarrow> unat c = unat a + unat b \<and> c = a + b"
  by (auto simp: checked_add_def unat_word_ariths split: if_splits)

lemma unat_max_word_eq: "unat (- 1 :: 'w::len word) = 2 ^ LENGTH('w) - 1"
  by (simp add: unsigned_minus_1_eq_mask mask_eq_exp_minus_1)

lemma unat_saturating_add:
  fixes a b :: "'w::len word"
  shows "unat (saturating_add a b) = min (unat a + unat b) (2 ^ LENGTH('w) - 1)"
  by (auto simp: saturating_add_def unat_word_ariths unat_max_word_eq min_def)

lemma unat_saturating_sub: "unat (saturating_sub a b) = unat a - unat b"
  by (auto simp: saturating_sub_def unat_sub word_le_nat_alt)

section \<open>Outcomes\<close>

text \<open>
  A Rust function of type \<open>Result\<close> returns \<open>Ok\<close> or \<open>Err\<close>; a failed \<open>expect\<close>, an index out
  of range or \<open>unreachable!\<close> panics. A panic is a value of the model, so that its absence is
  a theorem.
\<close>

datatype ('e, 'a) outcome = Ok 'a | Err 'e | Panic

fun obind :: "('e, 'a) outcome \<Rightarrow> ('a \<Rightarrow> ('e, 'b) outcome) \<Rightarrow> ('e, 'b) outcome" where
  "obind (Ok a) f = f a"
| "obind (Err e) f = Err e"
| "obind Panic f = Panic"

text \<open>\<open>Option::expect\<close> and \<open>Option::ok_or\<close>.\<close>

definition expect :: "'a option \<Rightarrow> ('e, 'a) outcome" where
  "expect x = (case x of None \<Rightarrow> Panic | Some a \<Rightarrow> Ok a)"

definition ok_or :: "'a option \<Rightarrow> 'e \<Rightarrow> ('e, 'a) outcome" where
  "ok_or x e = (case x of None \<Rightarrow> Err e | Some a \<Rightarrow> Ok a)"

lemma expect_simps [simp]: "expect None = Panic" "expect (Some a) = Ok a"
  by (simp_all add: expect_def)

lemma ok_or_simps [simp]: "ok_or None e = Err e" "ok_or (Some a) e = Ok a"
  by (simp_all add: ok_or_def)

lemma obind_eq_Ok [simp]: "obind m f = Ok b \<longleftrightarrow> (\<exists>a. m = Ok a \<and> f a = Ok b)"
  by (cases m) auto

lemma obind_eq_Err: "obind m f = Err e \<longleftrightarrow> m = Err e \<or> (\<exists>a. m = Ok a \<and> f a = Err e)"
  by (cases m) auto

lemma obind_eq_Panic: "obind m f = Panic \<longleftrightarrow> m = Panic \<or> (\<exists>a. m = Ok a \<and> f a = Panic)"
  by (cases m) auto

lemma obind_assoc: "obind (obind m f) g = obind m (\<lambda>x. obind (f x) g)"
  by (cases m) auto

lemma ok_or_eq_Ok [simp]: "ok_or x e = Ok a \<longleftrightarrow> x = Some a"
  by (cases x) auto

lemma expect_eq_Ok [simp]: "expect x = Ok a \<longleftrightarrow> x = Some a"
  by (cases x) auto

text \<open>
  Refinement of outcomes: both return related values or both the same error. A panic refines
  nothing, so refining a panic-free specification includes not panicking.
\<close>

fun outcome_rel :: "('a \<Rightarrow> 'b \<Rightarrow> bool) \<Rightarrow> ('e, 'a) outcome \<Rightarrow> ('e, 'b) outcome \<Rightarrow> bool" where
  "outcome_rel R (Ok a) (Ok b) = R a b"
| "outcome_rel R (Err e) (Err f) = (e = f)"
| "outcome_rel R _ _ = False"

lemma outcome_rel_Ok_right: "outcome_rel R x (Ok b) \<longleftrightarrow> (\<exists>a. x = Ok a \<and> R a b)"
  by (cases x) auto

lemma outcome_rel_Err_right: "outcome_rel R x (Err e) \<longleftrightarrow> x = Err e"
  by (cases x) auto

lemma outcome_rel_Panic [simp]: "\<not> outcome_rel R Panic y" "\<not> outcome_rel R x Panic"
  by (cases y; simp) (cases x; simp)

lemma outcome_rel_bind:
  assumes "outcome_rel R x y" and "\<And>a b. R a b \<Longrightarrow> outcome_rel S (f a) (g b)"
  shows "outcome_rel S (obind x f) (obind y g)"
  using assms by (cases x; cases y) auto

section \<open>Lists\<close>

text \<open>The first and the last element, when there is one: \<open>slice::first\<close>, \<open>slice::last\<close>.\<close>

definition first_of :: "'a list \<Rightarrow> 'a option" where
  "first_of xs = (case xs of [] \<Rightarrow> None | x # _ \<Rightarrow> Some x)"

definition last_of :: "'a list \<Rightarrow> 'a option" where
  "last_of xs = (if xs = [] then None else Some (last xs))"

lemma first_of_simps [simp]: "first_of [] = None" "first_of (x # xs) = Some x"
  by (simp_all add: first_of_def)

lemma last_of_simps [simp]: "last_of [] = None" "last_of (xs @ [x]) = Some x"
  by (simp_all add: last_of_def)

lemma last_of_Cons [simp]: "xs \<noteq> [] \<Longrightarrow> last_of (x # xs) = last_of xs"
  by (simp add: last_of_def)

lemma last_of_append [simp]: "ys \<noteq> [] \<Longrightarrow> last_of (xs @ ys) = last_of ys"
  by (simp add: last_of_def)

lemma first_of_append [simp]: "xs \<noteq> [] \<Longrightarrow> first_of (xs @ ys) = first_of xs"
  by (cases xs) auto

lemma first_of_rev: "first_of (rev xs) = last_of xs"
  by (cases xs rule: rev_cases) auto

end
