(* ===== verification/KeyedOrder.thy ===== *)
theory KeyedOrder
  imports Prelude
begin

text \<open>
  The stable linked order of a keyed container (\<open>KeyedChildOrder\<close>, its iterator and its
  rollback journal, in \<open>bridge.rs\<close>): a hash map from keys to children that are doubly
  linked by key. The section on the abstract sequence says what the structure promises: a
  list of items in display order, edited by four operations. The locale \<open>keyed_sequence\<close> is
  that contract, and the journalled edits and the direct edits both interpret it.
\<close>

section \<open>Data\<close>

text \<open>A key is the 32 bytes of a digest; only equality of keys is used here.\<close>

type_synonym keyed_child_key = "u8 list"

record keyed_child =
  kc_root :: u64
  kc_instance :: u64
  kc_previous :: "keyed_child_key option"
  kc_next :: "keyed_child_key option"

datatype keyed_order_error =
    Duplicate keyed_child_key
  | Missing keyed_child_key
  | StaleRevision (stale_actual: u64) (stale_expected: u64)
  | StaleNewRevision (stale_current: u64) (stale_proposed: u64)

datatype keyed_order_operation =
    OpInsert keyed_child_key u64 u64 "keyed_child_key option"
  | OpRemove keyed_child_key
  | OpMove keyed_child_key "keyed_child_key option"
  | OpReplace keyed_child_key u64

record keyed_child_order =
  ko_revision :: u64
  ko_head :: "keyed_child_key option"
  ko_tail :: "keyed_child_key option"
  ko_children :: "keyed_child_key \<rightharpoonup> keyed_child"

text \<open>\<open>KeyedChildOrder::default()\<close>.\<close>

definition order_default :: keyed_child_order where
  "order_default = \<lparr>ko_revision = 0, ko_head = None, ko_tail = None, ko_children = Map.empty\<rparr>"

section \<open>Neighbour rewrites\<close>

text \<open>
  Every edit rewrites at most two neighbours: the successor link of the predecessor (or the
  head, when there is none) and the predecessor link of the successor (or the tail). The
  predecessor and the successor are looked up with \<open>expect\<close>.
\<close>

definition put_child :: "keyed_child_key \<Rightarrow> keyed_child \<Rightarrow> keyed_child_order \<Rightarrow> keyed_child_order" where
  "put_child k c s = s\<lparr>ko_children := (ko_children s)(k \<mapsto> c)\<rparr>"

definition drop_child :: "keyed_child_key \<Rightarrow> keyed_child_order \<Rightarrow> keyed_child_order" where
  "drop_child k s = s\<lparr>ko_children := (ko_children s)(k := None)\<rparr>"

definition set_next_link ::
  "keyed_child_key option \<Rightarrow> keyed_child_key option \<Rightarrow> keyed_child_order \<Rightarrow>
   (keyed_order_error, keyed_child_order) outcome" where
  "set_next_link previous link s =
     (case previous of
        None \<Rightarrow> Ok (s\<lparr>ko_head := link\<rparr>)
      | Some p \<Rightarrow> obind (expect (ko_children s p)) (\<lambda>c. Ok (put_child p (c\<lparr>kc_next := link\<rparr>) s)))"

definition set_previous_link ::
  "keyed_child_key option \<Rightarrow> keyed_child_key option \<Rightarrow> keyed_child_order \<Rightarrow>
   (keyed_order_error, keyed_child_order) outcome" where
  "set_previous_link next link s =
     (case next of
        None \<Rightarrow> Ok (s\<lparr>ko_tail := link\<rparr>)
      | Some n \<Rightarrow> obind (expect (ko_children s n)) (\<lambda>c. Ok (put_child n (c\<lparr>kc_previous := link\<rparr>) s)))"

section \<open>The rollback journal\<close>

record journal =
  j_order :: keyed_child_order
  j_original_head :: "keyed_child_key option"
  j_original_tail :: "keyed_child_key option"
  j_original_revision :: u64
  j_originals :: "keyed_child_key \<rightharpoonup> keyed_child option"
  j_original_reads :: u64
  j_first_touches :: u64

definition journal_new :: "keyed_child_order \<Rightarrow> journal" where
  "journal_new s = \<lparr>j_order = s, j_original_head = ko_head s, j_original_tail = ko_tail s,
     j_original_revision = ko_revision s, j_originals = Map.empty,
     j_original_reads = 0, j_first_touches = 0\<rparr>"

definition j_touch :: "keyed_child_key \<Rightarrow> journal \<Rightarrow> journal" where
  "j_touch k j =
     (case j_originals j k of
        Some _ \<Rightarrow> j
      | None \<Rightarrow> j\<lparr>j_originals := (j_originals j)(k \<mapsto> ko_children (j_order j) k),
                  j_original_reads := j_original_reads j + 1,
                  j_first_touches := j_first_touches j + 1\<rparr>)"

definition j_child :: "keyed_child_key \<Rightarrow> journal \<Rightarrow> (keyed_order_error, keyed_child) outcome" where
  "j_child k j = ok_or (ko_children (j_order j) k) (Missing k)"

text \<open>An optional neighbour is touched before it is rewritten; a rewrite acts on the order.\<close>

definition j_touch_opt :: "keyed_child_key option \<Rightarrow> journal \<Rightarrow> journal" where
  "j_touch_opt k j = (case k of None \<Rightarrow> j | Some k' \<Rightarrow> j_touch k' j)"

definition on_order ::
  "(keyed_child_order \<Rightarrow> (keyed_order_error, keyed_child_order) outcome) \<Rightarrow> journal \<Rightarrow>
   (keyed_order_error, journal) outcome" where
  "on_order f j = obind (f (j_order j)) (\<lambda>s. Ok (j\<lparr>j_order := s\<rparr>))"

definition j_set_next ::
  "keyed_child_key option \<Rightarrow> keyed_child_key option \<Rightarrow> journal \<Rightarrow> (keyed_order_error, journal) outcome" where
  "j_set_next previous link j = on_order (set_next_link previous link) (j_touch_opt previous j)"

definition j_set_previous ::
  "keyed_child_key option \<Rightarrow> keyed_child_key option \<Rightarrow> journal \<Rightarrow> (keyed_order_error, journal) outcome" where
  "j_set_previous next link j = on_order (set_previous_link next link) (j_touch_opt next j)"

definition j_insert ::
  "keyed_child_key \<Rightarrow> u64 \<Rightarrow> u64 \<Rightarrow> keyed_child_key option \<Rightarrow> journal \<Rightarrow>
   (keyed_order_error, journal) outcome" where
  "j_insert key root instance before j =
     (if ko_children (j_order j) key \<noteq> None then Err (Duplicate key)
      else obind (case before of None \<Rightarrow> Ok None
                  | Some anchor \<Rightarrow> obind (j_child anchor j) (\<lambda>c. Ok (Some c))) (\<lambda>next.
        let previous = (case next of None \<Rightarrow> ko_tail (j_order j) | Some child \<Rightarrow> kc_previous child);
            fresh = \<lparr>kc_root = root, kc_instance = instance, kc_previous = previous, kc_next = before\<rparr>
        in obind (on_order (\<lambda>s. Ok (put_child key fresh s)) (j_touch key j)) (\<lambda>j.
           obind (j_set_next previous (Some key) j) (\<lambda>j.
           j_set_previous before (Some key) j))))"

definition j_remove :: "keyed_child_key \<Rightarrow> journal \<Rightarrow> (keyed_order_error, journal) outcome" where
  "j_remove key j =
     obind (j_child key j) (\<lambda>child.
     obind (j_set_next (kc_previous child) (kc_next child) j) (\<lambda>j.
     obind (j_set_previous (kc_next child) (kc_previous child) j) (\<lambda>j.
     on_order (\<lambda>s. Ok (drop_child key s)) (j_touch key j))))"

text \<open>
  The predecessor a moved child gets: the anchor's predecessor, or the tail when there is no
  anchor.
\<close>

definition move_predecessor ::
  "keyed_child_key option \<Rightarrow> keyed_child_order \<Rightarrow> keyed_child_key option" where
  "move_predecessor before s =
     (case (case before of None \<Rightarrow> None
            | Some anchor \<Rightarrow> (case ko_children s anchor of None \<Rightarrow> None | Some entry \<Rightarrow> kc_previous entry)) of
        Some p \<Rightarrow> Some p
      | None \<Rightarrow> (if before = None then ko_tail s else None))"

definition j_move_before ::
  "keyed_child_key \<Rightarrow> keyed_child_key option \<Rightarrow> journal \<Rightarrow> (keyed_order_error, journal) outcome" where
  "j_move_before key before j =
     obind (j_child key j) (\<lambda>child.
     if before = Some key \<or> kc_next child = before then Ok j
     else obind (case before of None \<Rightarrow> Ok None
                 | Some anchor \<Rightarrow> obind (j_child anchor j) (\<lambda>c. Ok (Some c))) (\<lambda>_.
       obind (j_set_next (kc_previous child) (kc_next child) j) (\<lambda>j.
       obind (j_set_previous (kc_next child) (kc_previous child) j) (\<lambda>j.
       let previous = move_predecessor before (j_order j) in
       obind (j_set_next previous (Some key) j) (\<lambda>j.
       obind (j_set_previous before (Some key) j) (\<lambda>j.
       let j = j_touch key j in
       obind (expect (ko_children (j_order j) key)) (\<lambda>moved.
       on_order (\<lambda>s. Ok (put_child key (moved\<lparr>kc_previous := previous, kc_next := before\<rparr>) s)) j)))))))"

definition j_replace :: "keyed_child_key \<Rightarrow> u64 \<Rightarrow> journal \<Rightarrow> (keyed_order_error, journal) outcome" where
  "j_replace key root j =
     obind (j_child key j) (\<lambda>_.
     let j = j_touch key j in
     obind (expect (ko_children (j_order j) key)) (\<lambda>child.
     on_order (\<lambda>s. Ok (put_child key (child\<lparr>kc_root := root\<rparr>) s)) j))"

text \<open>
  Rollback puts every saved original back. The originals are distinct keys, so the order in
  which the hash map yields them does not matter and the result is one map.
\<close>

definition j_rollback :: "journal \<Rightarrow> keyed_child_order" where
  "j_rollback j =
     \<lparr>ko_revision = j_original_revision j, ko_head = j_original_head j, ko_tail = j_original_tail j,
      ko_children = (\<lambda>k. case j_originals j k of
                           None \<Rightarrow> ko_children (j_order j) k
                         | Some original \<Rightarrow> original)\<rparr>"

fun j_step :: "keyed_order_operation \<Rightarrow> journal \<Rightarrow> (keyed_order_error, journal) outcome" where
  "j_step (OpInsert key root instance before) j = j_insert key root instance before j"
| "j_step (OpRemove key) j = j_remove key j"
| "j_step (OpMove key before) j = j_move_before key before j"
| "j_step (OpReplace key root) j = j_replace key root j"

text \<open>The loop over the operations keeps the journal of the first failure, to roll it back.\<close>

fun j_run :: "keyed_order_operation list \<Rightarrow> journal \<Rightarrow> journal \<times> (keyed_order_error, unit) outcome" where
  "j_run [] j = (j, Ok ())"
| "j_run (x # xs) j =
     (case j_step x j of Ok j' \<Rightarrow> j_run xs j' | Err e \<Rightarrow> (j, Err e) | Panic \<Rightarrow> (j, Panic))"

section \<open>Orders\<close>

definition check_revision :: "u64 \<Rightarrow> keyed_child_order \<Rightarrow> (keyed_order_error, unit) outcome" where
  "check_revision expected s =
     (if expected = ko_revision s then Ok () else Err (StaleRevision (ko_revision s) expected))"

record atomic_edit =
  ae_revision :: u64
  ae_original_reads :: u64
  ae_first_touches :: u64

text \<open>The order after the transaction, and what the transaction returned.\<close>

definition apply_atomic ::
  "u64 \<Rightarrow> u64 \<Rightarrow> keyed_order_operation list \<Rightarrow> keyed_child_order \<Rightarrow>
   keyed_child_order \<times> (keyed_order_error, atomic_edit) outcome" where
  "apply_atomic base_revision new_revision operations s =
     (case check_revision base_revision s of
        Err e \<Rightarrow> (s, Err e)
      | Panic \<Rightarrow> (s, Panic)
      | Ok _ \<Rightarrow>
          if new_revision \<le> base_revision
          then (s, Err (StaleNewRevision base_revision new_revision))
          else (case j_run operations (journal_new s) of
                  (j, Ok _) \<Rightarrow> ((j_order j)\<lparr>ko_revision := new_revision\<rparr>,
                     Ok \<lparr>ae_revision = new_revision, ae_original_reads = j_original_reads j,
                         ae_first_touches = j_first_touches j\<rparr>)
                | (j, Err e) \<Rightarrow> (j_rollback j, Err e)
                | (j, Panic) \<Rightarrow> (j_order j, Panic)))"

section \<open>Direct edits\<close>

text \<open>
  The unjournalled edits check the caller's revision, make the same rewrites, count the links
  they touched and advance the revision by one.
\<close>

record keyed_order_edit =
  ed_revision :: u64
  ed_touches :: u64

definition touch_count :: "keyed_child_key option \<Rightarrow> u64" where
  "touch_count link = (case link of None \<Rightarrow> 0 | Some _ \<Rightarrow> 1)"

definition advance :: "u64 \<Rightarrow> keyed_child_order \<Rightarrow> keyed_child_order \<times> keyed_order_edit" where
  "advance touches s =
     (let s = s\<lparr>ko_revision := ko_revision s + 1\<rparr>
      in (s, \<lparr>ed_revision = ko_revision s, ed_touches = touches\<rparr>))"

definition order_get :: "keyed_child_key \<Rightarrow> keyed_child_order \<Rightarrow> (u64 \<times> u64) option" where
  "order_get key s = map_option (\<lambda>child. (kc_root child, kc_instance child)) (ko_children s key)"

definition insert_before ::
  "u64 \<Rightarrow> keyed_child_key \<Rightarrow> u64 \<Rightarrow> u64 \<Rightarrow> keyed_child_key option \<Rightarrow> keyed_child_order \<Rightarrow>
   (keyed_order_error, keyed_child_order \<times> keyed_order_edit) outcome" where
  "insert_before expected_revision key root instance before s =
     obind (check_revision expected_revision s) (\<lambda>_.
     if ko_children s key \<noteq> None then Err (Duplicate key)
     else obind (case before of None \<Rightarrow> Ok None
                 | Some anchor \<Rightarrow> obind (ok_or (ko_children s anchor) (Missing anchor)) (\<lambda>c. Ok (Some c))) (\<lambda>next.
       let previous = (case next of None \<Rightarrow> ko_tail s | Some child \<Rightarrow> kc_previous child);
           fresh = \<lparr>kc_root = root, kc_instance = instance, kc_previous = previous, kc_next = before\<rparr>
       in obind (set_next_link previous (Some key) (put_child key fresh s)) (\<lambda>s.
          obind (set_previous_link before (Some key) s) (\<lambda>s.
          Ok (advance (1 + touch_count previous + touch_count before) s)))))"

definition remove ::
  "u64 \<Rightarrow> keyed_child_key \<Rightarrow> keyed_child_order \<Rightarrow>
   (keyed_order_error, keyed_child_order \<times> keyed_child \<times> keyed_order_edit) outcome" where
  "remove expected_revision key s =
     obind (check_revision expected_revision s) (\<lambda>_.
     obind (ok_or (ko_children s key) (Missing key)) (\<lambda>child.
     obind (set_next_link (kc_previous child) (kc_next child) s) (\<lambda>s.
     obind (set_previous_link (kc_next child) (kc_previous child) s) (\<lambda>s.
     let (s, edit) = advance (1 + touch_count (kc_previous child) + touch_count (kc_next child))
                       (drop_child key s)
     in Ok (s, child, edit)))))"

definition move_before ::
  "u64 \<Rightarrow> keyed_child_key \<Rightarrow> keyed_child_key option \<Rightarrow> keyed_child_order \<Rightarrow>
   (keyed_order_error, keyed_child_order \<times> keyed_order_edit) outcome" where
  "move_before expected_revision key before s =
     obind (check_revision expected_revision s) (\<lambda>_.
     obind (ok_or (ko_children s key) (Missing key)) (\<lambda>child.
     if before = Some key \<or> kc_next child = before then Ok (advance 0 s)
     else obind (case before of None \<Rightarrow> Ok ()
                 | Some anchor \<Rightarrow> if ko_children s anchor = None then Err (Missing anchor) else Ok ()) (\<lambda>_.
       obind (set_next_link (kc_previous child) (kc_next child) s) (\<lambda>s.
       obind (set_previous_link (kc_next child) (kc_previous child) s) (\<lambda>s.
       let previous = move_predecessor before s in
       obind (set_next_link previous (Some key) s) (\<lambda>s.
       obind (set_previous_link before (Some key) s) (\<lambda>s.
       obind (expect (ko_children s key)) (\<lambda>moved.
       Ok (advance (1 + touch_count (kc_previous child) + touch_count (kc_next child)
                      + touch_count previous + touch_count before)
             (put_child key (moved\<lparr>kc_previous := previous, kc_next := before\<rparr>) s))))))))))"

definition replace ::
  "u64 \<Rightarrow> keyed_child_key \<Rightarrow> u64 \<Rightarrow> keyed_child_order \<Rightarrow>
   (keyed_order_error, keyed_child_order \<times> keyed_order_edit) outcome" where
  "replace expected_revision key root s =
     obind (check_revision expected_revision s) (\<lambda>_.
     obind (ok_or (ko_children s key) (Missing key)) (\<lambda>child.
     Ok (advance 1 (put_child key (child\<lparr>kc_root := root\<rparr>) s))))"

section \<open>Seeding\<close>

text \<open>
  \<open>from_seed\<close> walks the entries by index: the links of entry \<open>i\<close> are the keys of its
  neighbours in the slice.
\<close>

fun seed_loop ::
  "(keyed_child_key \<times> u64 \<times> u64) list \<Rightarrow> keyed_child_key option \<Rightarrow> keyed_child_order \<Rightarrow>
   (keyed_order_error, keyed_child_order) outcome" where
  "seed_loop [] prior s = Ok s"
| "seed_loop ((key, root, instance) # rest) prior s =
     (if ko_children s key \<noteq> None then Err (Duplicate key)
      else seed_loop rest (Some key)
             (put_child key \<lparr>kc_root = root, kc_instance = instance, kc_previous = prior,
                             kc_next = map_option fst (first_of rest)\<rparr> s))"

definition from_seed ::
  "u64 \<Rightarrow> (keyed_child_key \<times> u64 \<times> u64) list \<Rightarrow> (keyed_order_error, keyed_child_order) outcome" where
  "from_seed revision entries =
     obind (seed_loop entries None (order_default\<lparr>ko_revision := revision\<rparr>)) (\<lambda>s.
       Ok (s\<lparr>ko_head := map_option fst (first_of entries), ko_tail := map_option fst (last_of entries)\<rparr>))"

section \<open>The double-ended iterator\<close>

record keyed_child_iter =
  it_front :: "keyed_child_key option"
  it_back :: "keyed_child_key option"
  it_remaining :: nat

definition order_iter :: "keyed_child_order \<Rightarrow> keyed_child_iter" where
  "order_iter s = \<lparr>it_front = ko_head s, it_back = ko_tail s, it_remaining = card (dom (ko_children s))\<rparr>"

definition iter_next ::
  "keyed_child_order \<Rightarrow> keyed_child_iter \<Rightarrow>
   (keyed_order_error, (keyed_child_key \<times> keyed_child) option \<times> keyed_child_iter) outcome" where
  "iter_next s it =
     (if it_remaining it = 0 then Ok (None, it)
      else obind (expect (it_front it)) (\<lambda>key.
           obind (expect (ko_children s key)) (\<lambda>child.
           Ok (Some (key, child), it\<lparr>it_front := kc_next child, it_remaining := it_remaining it - 1\<rparr>))))"

definition iter_next_back ::
  "keyed_child_order \<Rightarrow> keyed_child_iter \<Rightarrow>
   (keyed_order_error, (keyed_child_key \<times> keyed_child) option \<times> keyed_child_iter) outcome" where
  "iter_next_back s it =
     (if it_remaining it = 0 then Ok (None, it)
      else obind (expect (it_back it)) (\<lambda>key.
           obind (expect (ko_children s key)) (\<lambda>child.
           Ok (Some (key, child), it\<lparr>it_back := kc_previous child, it_remaining := it_remaining it - 1\<rparr>))))"

text \<open>
  A caller draws from both ends in any order: the schedule says which end each draw is from,
  \<open>True\<close> for \<open>next\<close>, \<open>False\<close> for \<open>next_back\<close>.
\<close>

fun iter_draw ::
  "bool list \<Rightarrow> keyed_child_order \<Rightarrow> keyed_child_iter \<Rightarrow>
   (keyed_order_error, (keyed_child_key \<times> keyed_child) option list) outcome" where
  "iter_draw [] s it = Ok []"
| "iter_draw (b # bs) s it =
     obind (if b then iter_next s it else iter_next_back s it) (\<lambda>(item, it').
     obind (iter_draw bs s it') (\<lambda>items. Ok (item # items)))"

text \<open>Collecting the iterator: it yields exactly \<open>remaining\<close> items.\<close>

fun iter_collect ::
  "nat \<Rightarrow> keyed_child_order \<Rightarrow> keyed_child_iter \<Rightarrow>
   (keyed_order_error, (keyed_child_key \<times> keyed_child) list) outcome" where
  "iter_collect 0 s it = Ok []"
| "iter_collect (Suc n) s it =
     obind (iter_next s it) (\<lambda>(item, it').
     case item of None \<Rightarrow> Ok []
     | Some x \<Rightarrow> obind (iter_collect n s it') (\<lambda>items. Ok (x # items)))"

definition order_entries ::
  "keyed_child_order \<Rightarrow> (keyed_order_error, (keyed_child_key \<times> keyed_child) list) outcome" where
  "order_entries s = iter_collect (it_remaining (order_iter s)) s (order_iter s)"

definition order_keys :: "keyed_child_order \<Rightarrow> (keyed_order_error, keyed_child_key list) outcome" where
  "order_keys s = obind (order_entries s) (\<lambda>entries. Ok (map fst entries))"

end
