(* ===== verification/NodeKinds.thy ===== *)
theory NodeKinds
  imports KeyedOrder
begin

text \<open>
  The nodes of the graph and what a node's kind decides on its own (\<open>bridge.rs\<close>, from
  \<open>ProvidedRows\<close> to \<open>Node\<close>): which keys and pointer presses it accepts, the name and the tag
  that identify it among its siblings, its focus identity, the pane its collapse hides, and
  the segment of an element identity. Strings are lists of bytes, as Rust's UTF-8 strings are.
\<close>

section \<open>Presentation data\<close>

text \<open>An \<open>i32\<close> is 32 bits read as two's complement by \<open>sint\<close>.\<close>

type_synonym i32 = "32 word"

datatype paint = Rgb u32 | Adaptive (adaptive_light: u32) (adaptive_dark: u32)

datatype length_spec = LengthAuto | LengthFill | LengthPx u32

datatype overflow = OverflowVisible | OverflowClip | OverflowScroll

datatype scroll_axis = ScrollVertical | ScrollHorizontal | ScrollBoth

datatype image_format = Bmp | Gif | Jpeg | Png | Svg | Tiff | Webp

datatype image_fit = FitContain | FitCover | FitFill | FitNone | FitScaleDown

datatype align = AlignNative | AlignStart | AlignCenter | AlignEnd | AlignBaseline | AlignStretch

datatype justify =
  JustifyNative | JustifyStart | JustifyCenter | JustifyEnd | JustifyBetween | JustifyAround

datatype font_face = FaceDefault | FaceMonospace

datatype text_overflow = TextWrap | TextNoWrap | TextEllipsis

record checkbox_indicator =
  ci_box_bg :: "paint option"
  ci_box_checked_bg :: "paint option"
  ci_box_border :: "paint option"
  ci_mark_color :: "paint option"

record text_run =
  run_len :: nat
  run_fg :: "paint option"
  run_bg :: "paint option"
  run_font_weight :: u32
  run_underline :: bool
  run_monospace :: bool

record style =
  st_gap :: u32
  st_padding :: "u32 \<times> u32 \<times> u32 \<times> u32"
  st_width :: length_spec
  st_height :: length_spec
  st_min_width :: length_spec
  st_min_height :: length_spec
  st_max_width :: length_spec
  st_max_height :: length_spec
  st_grow :: bool
  st_bg :: "paint option"
  st_hover_bg :: "paint option"
  st_active_bg :: "paint option"
  st_disabled_bg :: "paint option"
  st_disabled_fg :: "paint option"
  st_focus_color :: "paint option"
  st_fg :: "paint option"
  st_border_color :: "paint option"
  st_border_width :: "u32 \<times> u32 \<times> u32 \<times> u32"
  st_radius :: u32
  st_font_size :: u32
  st_font_weight :: u32
  st_shadow :: u32
  st_shadow_y :: u32
  st_shadow_color :: "paint option"
  st_shadow_alpha :: u32
  st_font_face :: font_face
  st_text_overflow :: text_overflow
  st_overflow_x :: overflow
  st_overflow_y :: overflow
  st_align :: align
  st_justify :: justify

text \<open>\<open>Style::default()\<close>: zeros, \<open>None\<close>s, \<open>false\<close> and every enum's default variant.\<close>

definition style_default :: style where
  "style_default =
     \<lparr>st_gap = 0, st_padding = (0, 0, 0, 0), st_width = LengthAuto, st_height = LengthAuto,
      st_min_width = LengthAuto, st_min_height = LengthAuto, st_max_width = LengthAuto,
      st_max_height = LengthAuto, st_grow = False, st_bg = None, st_hover_bg = None,
      st_active_bg = None, st_disabled_bg = None, st_disabled_fg = None, st_focus_color = None,
      st_fg = None, st_border_color = None, st_border_width = (0, 0, 0, 0), st_radius = 0,
      st_font_size = 0, st_font_weight = 0, st_shadow = 0, st_shadow_y = 0, st_shadow_color = None,
      st_shadow_alpha = 0, st_font_face = FaceDefault, st_text_overflow = TextWrap,
      st_overflow_x = OverflowVisible, st_overflow_y = OverflowVisible, st_align = AlignNative,
      st_justify = JustifyNative\<rparr>"

datatype canvas_primitive_kind = CanvasEllipse | CanvasLine | CanvasRectangle | CanvasText

datatype canvas_text_align = TextStart | TextCenter | TextEnd

record canvas_primitive =
  cp_kind :: canvas_primitive_kind
  cp_key :: u64
  cp_label :: string
  cp_x :: i32
  cp_y :: i32
  cp_width :: u32
  cp_height :: u32
  cp_x2 :: i32
  cp_y2 :: i32
  cp_fill :: "paint option"
  cp_stroke :: "paint option"
  cp_stroke_width :: u32
  cp_radius :: u32
  cp_text :: string
  cp_text_size :: u32
  cp_align :: canvas_text_align

definition line_height :: "canvas_primitive \<Rightarrow> u32" where
  "line_height p = cp_text_size p + cp_text_size p div 4"

section \<open>Node kinds\<close>

datatype shortcut_scope = ScopeWindow | ScopeFocus

record shortcut =
  sc_keys :: string
  sc_scope :: shortcut_scope

datatype button_role = RoleButton | RoleTab (tab_selected: bool)

datatype split_axis = SplitHorizontal | SplitVertical

datatype split_side = SideStart | SideEnd

datatype placement = PlaceBelow | PlaceAbove | PlaceStart | PlaceEnd

datatype control_key = KeyEnter | KeyEscape | KeySpace

record resize =
  rs_size :: u32
  rs_collapsed :: bool

record grip =
  gr_axis :: split_axis
  gr_side :: split_side
  gr_start :: u32
  gr_size :: u32
  gr_min :: u32
  gr_max :: u32
  gr_collapsible :: bool

record file_type =
  ft_label :: string
  ft_extensions :: "string list"
  ft_mime_types :: "string list"

record provided_rows =
  pr_instance :: u64
  pr_count :: u64
  pr_first :: u64
  pr_notify :: bool

text \<open>
  The variants with their fields in the source's order:
  \<open>Canvas label primitives hover wheel size style\<close>,
  \<open>Button caption label role enabled hover_enter hover_exit style\<close>,
  \<open>Checkbox label checked enabled indicator style\<close>,
  \<open>Textarea label value placeholder enabled read_only style\<close>,
  \<open>Image label bytes format fit grayscale style\<close>, \<open>KeyedColumn label style revision keys\<close>,
  \<open>Popover label placement delay_ms hover_enter hover_exit shortcuts focus_serial style\<close>,
  \<open>Scroll name axis style\<close>, \<open>VirtualList name row_height row_gap style rows\<close>,
  \<open>TextInput label value placeholder enabled style\<close>,
  \<open>Split label axis side size min max collapsible collapsed thickness shortcuts style\<close>,
  \<open>DropTarget label types drop_bg drop_border style\<close>,
  \<open>StyledText value fg font_size font_weight font_face runs chord\<close>.
\<close>

datatype node_kind =
    Boundary u64
  | Canvas string "canvas_primitive list" bool bool bool style
  | Button string string button_role bool bool bool style
  | Checkbox string bool bool checkbox_indicator style
  | Textarea string string string bool bool style
  | Image string "u8 list" image_format image_fit bool style
  | Column string style
  | KeyedColumn string style u64 "keyed_child_key list"
  | Dialog string style
  | Popover string placement u32 bool bool "shortcut list" u64 style
  | Panel string style
  | Row string style
  | Scroll string scroll_axis style
  | VirtualItem u64
  | VirtualList string u32 u32 style "provided_rows option"
  | TextInput string string string bool style
  | Split string split_axis split_side u32 u32 u32 bool bool u32 "shortcut list" style
  | DropTarget string "file_type list" "paint option" "paint option" style
  | StyledText string "paint option" u32 u32 font_face "text_run list" "string option"
  | Text string

section \<open>What a kind decides\<close>

fun accepts_key :: "node_kind \<Rightarrow> control_key \<Rightarrow> bool" where
  "accepts_key (Button _ _ _ True _ _ _) KeyEnter = True"
| "accepts_key (Button _ _ _ True _ _ _) KeySpace = True"
| "accepts_key (Checkbox _ _ True _ _) KeySpace = True"
| "accepts_key (Dialog _ _) KeyEscape = True"
| "accepts_key _ _ = False"

fun focuses_on_pointer :: "node_kind \<Rightarrow> bool" where
  "focuses_on_pointer (TextInput _ _ _ True _) = True"
| "focuses_on_pointer (Textarea _ _ _ True _ _) = True"
| "focuses_on_pointer _ = False"

fun dispatches_click :: "node_kind \<Rightarrow> bool" where
  "dispatches_click (Button _ _ _ True _ _ _) = True"
| "dispatches_click (Checkbox _ _ True _ _) = True"
| "dispatches_click (Dialog _ _) = True"
| "dispatches_click _ = False"

fun accepts_pointer :: "node_kind \<Rightarrow> bool" where
  "accepts_pointer (Button _ _ _ True _ _ _) = True"
| "accepts_pointer (Checkbox _ _ True _ _) = True"
| "accepts_pointer (TextInput _ _ _ True _) = True"
| "accepts_pointer (Textarea _ _ _ True _ _) = True"
| "accepts_pointer _ = False"

fun target_kind :: "node_kind \<Rightarrow> string" where
  "target_kind (Canvas _ _ _ _ _ _) = ''canvas''"
| "target_kind (Button _ _ _ _ _ _ _) = ''button''"
| "target_kind (Checkbox _ _ _ _ _) = ''checkbox''"
| "target_kind (Textarea _ _ _ _ _ _) = ''textarea''"
| "target_kind (Image _ _ _ _ _ _) = ''image''"
| "target_kind (Column _ _) = ''column''"
| "target_kind (KeyedColumn _ _ _ _) = ''column''"
| "target_kind (Dialog _ _) = ''dialog''"
| "target_kind (Panel _ _) = ''panel''"
| "target_kind (Row _ _) = ''row''"
| "target_kind (Scroll _ _ _) = ''scroll''"
| "target_kind (VirtualItem _) = ''virtual_item''"
| "target_kind (VirtualList _ _ _ _ _) = ''virtual_list''"
| "target_kind (TextInput _ _ _ _ _) = ''text_input''"
| "target_kind (Text _) = ''text''"
| "target_kind (StyledText _ _ _ _ _ _ _) = ''text''"
| "target_kind (Boundary _) = ''boundary''"
| "target_kind (Popover label _ _ _ _ _ _ _) = (if label = [] then ''region'' else ''popover'')"
| "target_kind (Split _ _ _ _ _ _ _ _ _ _ _) = ''split''"
| "target_kind (DropTarget _ _ _ _ _) = ''drop_target''"

fun tag :: "node_kind \<Rightarrow> u8" where
  "tag (Canvas _ _ _ _ _ _) = 0"
| "tag (Button _ _ _ _ _ _ _) = 1"
| "tag (Checkbox _ _ _ _ _) = 2"
| "tag (Textarea _ _ _ _ _ _) = 3"
| "tag (Image _ _ _ _ _ _) = 4"
| "tag (Column _ _) = 5"
| "tag (KeyedColumn _ _ _ _) = 5"
| "tag (Dialog _ _) = 6"
| "tag (Panel _ _) = 7"
| "tag (Row _ _) = 8"
| "tag (Scroll _ _ _) = 9"
| "tag (VirtualItem _) = 10"
| "tag (VirtualList _ _ _ _ _) = 11"
| "tag (TextInput _ _ _ _ _) = 12"
| "tag (Text _) = 13"
| "tag (StyledText _ _ _ _ _ _ _) = 14"
| "tag (Boundary _) = 15"
| "tag (Popover _ _ _ _ _ _ _ _) = 17"
| "tag (Split _ _ _ _ _ _ _ _ _ _ _) = 18"
| "tag (DropTarget _ _ _ _ _) = 19"

text \<open>\<open>u64::to_string\<close>: decimal digits, most significant first.\<close>

fun decimal :: "nat \<Rightarrow> string" where
  "decimal n = (if n < 10 then [char_of (48 + n)] else decimal (n div 10) @ [char_of (48 + n mod 10)])"

declare decimal.simps [simp del]

fun own_name :: "node_kind \<Rightarrow> string" where
  "own_name (Canvas label _ _ _ _ _) = label"
| "own_name (Button _ label _ _ _ _ _) = label"
| "own_name (Checkbox label _ _ _ _) = label"
| "own_name (Textarea label _ _ _ _ _) = label"
| "own_name (Image label _ _ _ _ _) = label"
| "own_name (Column label _) = label"
| "own_name (KeyedColumn label _ _ _) = label"
| "own_name (Dialog label _) = label"
| "own_name (Popover label _ _ _ _ _ _ _) = label"
| "own_name (Panel label _) = label"
| "own_name (Row label _) = label"
| "own_name (Split label _ _ _ _ _ _ _ _ _ _) = label"
| "own_name (DropTarget label _ _ _ _) = label"
| "own_name (TextInput label _ _ _ _) = label"
| "own_name (Scroll name _ _) = name"
| "own_name (VirtualList name _ _ _ _) = name"
| "own_name (VirtualItem key) = decimal (unat key)"
| "own_name (Text _) = []"
| "own_name (StyledText _ _ _ _ _ _ _) = []"
| "own_name (Boundary _) = []"

definition sibling_name :: "node_kind \<Rightarrow> string option" where
  "sibling_name kind = (if own_name kind \<noteq> [] then Some (own_name kind) else None)"

fun focus_identity :: "node_kind \<Rightarrow> (u8 \<times> string) option" where
  "focus_identity (Button _ label _ True _ _ _) = Some (0, label)"
| "focus_identity (Checkbox label _ True _ _) = Some (1, label)"
| "focus_identity (Textarea label _ _ True False _) = Some (2, label)"
| "focus_identity (TextInput label _ _ True _) = Some (3, label)"
| "focus_identity (Split label _ _ _ _ _ _ _ _ _ _) = Some (4, label)"
| "focus_identity _ = None"

fun splitter_grip :: "node_kind \<Rightarrow> grip option" where
  "splitter_grip (Split _ axis side extent lo hi collapsible collapsed _ _ _) =
     Some \<lparr>gr_axis = axis, gr_side = side, gr_start = (if collapsed then 0 else extent),
           gr_size = extent, gr_min = lo, gr_max = hi, gr_collapsible = collapsible\<rparr>"
| "splitter_grip _ = None"

fun hidden_pane :: "node_kind \<Rightarrow> nat option" where
  "hidden_pane (Split _ _ side _ _ _ True True _ _ _) =
     Some (case side of SideStart \<Rightarrow> 0 | SideEnd \<Rightarrow> 1)"
| "hidden_pane _ = None"

fun splitter_value :: "node_kind \<Rightarrow> resize option" where
  "splitter_value (Split _ _ _ extent _ _ _ collapsed _ _ _) =
     Some \<lparr>rs_size = extent, rs_collapsed = collapsed\<rparr>"
| "splitter_value _ = None"

fun tracks_hover :: "node_kind \<Rightarrow> bool" where
  "tracks_hover (Button _ _ _ True hover_enter hover_exit _) = (hover_enter \<or> hover_exit)"
| "tracks_hover (Popover _ _ _ _ _ _ _ _) = True"
| "tracks_hover _ = False"

section \<open>Nodes and identity segments\<close>

record node =
  nd_id :: u64
  nd_kind :: node_kind
  nd_children :: "u64 list"

datatype identity_segment =
    SegBoundary u64
  | SegNamed u8 string u32
  | SegPositional u8 nat

type_synonym element_identity = "identity_segment list"

definition segment_of :: "node_kind \<Rightarrow> nat \<Rightarrow> u32 \<Rightarrow> identity_segment" where
  "segment_of kind index occurrence =
     (case kind of
        Boundary instance \<Rightarrow> SegBoundary instance
      | _ \<Rightarrow> (case sibling_name kind of
                Some name \<Rightarrow> SegNamed (tag kind) name occurrence
              | None \<Rightarrow> SegPositional (tag kind) index))"

text \<open>Recognisers for the kinds other components single out.\<close>

fun boundary_instance :: "node_kind \<Rightarrow> u64 option" where
  "boundary_instance (Boundary instance) = Some instance"
| "boundary_instance _ = None"

fun is_dialog :: "node_kind \<Rightarrow> bool" where
  "is_dialog (Dialog _ _) = True"
| "is_dialog _ = False"

fun is_popover :: "node_kind \<Rightarrow> bool" where
  "is_popover (Popover _ _ _ _ _ _ _ _) = True"
| "is_popover _ = False"

fun is_virtual_list :: "node_kind \<Rightarrow> bool" where
  "is_virtual_list (VirtualList _ _ _ _ _) = True"
| "is_virtual_list _ = False"

fun is_scroll :: "node_kind \<Rightarrow> bool" where
  "is_scroll (Scroll _ _ _) = True"
| "is_scroll _ = False"

fun input_label :: "node_kind \<Rightarrow> string option" where
  "input_label (TextInput label _ _ _ _) = Some label"
| "input_label _ = None"

lemma boundary_instance_Some [simp]: "boundary_instance kind = Some i \<longleftrightarrow> kind = Boundary i"
  by (cases kind) auto

lemma segment_of_boundary [simp]: "segment_of (Boundary i) index occurrence = SegBoundary i"
  by (simp add: segment_of_def)

section \<open>Event routes\<close>

text \<open>The bits of an event route above the id of its node.\<close>

definition shortcut_event_bit :: u64 where
  "shortcut_event_bit = push_bit 60 1"

definition hover_enter_event_bit :: u64 where
  "hover_enter_event_bit = push_bit 62 1"

definition hover_exit_event_bit :: u64 where
  "hover_exit_event_bit = push_bit 61 1"

end
