(* ===== verification/Fragment.thy ===== *)
theory Fragment
  imports NodeKinds
begin

text \<open>
  Validation of a staged fragment (\<open>validate_fragment\<close> and \<open>validate_virtual_keys\<close> in
  \<open>bridge.rs\<close>): the ids are indexed, every node's shape is checked together with the ownership
  of its children, and a walk from the root proves that the fragment is one tree. Retained
  roots are opaque leaves. The error values are the error strings of the source with what they
  interpolate.
\<close>

section \<open>Errors and results\<close>

definition max_staged_nodes :: nat where
  "max_staged_nodes = 1048576"

datatype fragment_error =
    NodeIdReserved
  | SubtreeTooLarge
  | DuplicateNodeId u64
  | RootMissing u64
  | MoreThanOneDialog
  | EmptyInputLabel
  | DuplicateInstance u64
  | LeafHasChildren u64
  | BoundaryContent u64
  | PopoverAnchor u64
  | PopoverDelay u64
  | ScrollContent u64
  | SplitPanes u64
  | SplitBounds u64
  | VirtualItemContent u64
  | VirtualRowHeight u64
  | ProvidedExtent u64
  | NonItemChild u64
  | DuplicateItemKey u64 u64
  | MissingChild u64 u64
  | TwoParents u64
  | RootHasParent u64
  | CycleAt u64
  | DuplicateInputLabel string
  | Disconnected

record validated =
  vf_indices :: "u64 \<rightharpoonup> nat"
  vf_input_owners :: "u64 \<rightharpoonup> u64 option"
  vf_postorder :: "u64 list"
  vf_visits :: u64

text \<open>Indexing a slice panics out of range.\<close>

definition node_index :: "node list \<Rightarrow> nat \<Rightarrow> (fragment_error, node) outcome" where
  "node_index nodes i = (if i < length nodes then Ok (nodes ! i) else Panic)"

text \<open>\<open>ValidatedFragment::lookup\<close>: a fresh node by its index, else a mounted one.\<close>

definition lookup ::
  "(u64 \<rightharpoonup> nat) \<Rightarrow> node list \<Rightarrow> (u64 \<rightharpoonup> node) \<Rightarrow> u64 \<Rightarrow> (fragment_error, node option) outcome" where
  "lookup indices nodes mounted nid =
     (case indices nid of
        Some i \<Rightarrow> obind (node_index nodes i) (\<lambda>n. Ok (Some n))
      | None \<Rightarrow> Ok (mounted nid))"

section \<open>Indexing the fresh nodes\<close>

fun index_nodes ::
  "u64 set \<Rightarrow> nat \<Rightarrow> node list \<Rightarrow> (u64 \<rightharpoonup> nat) \<Rightarrow> (fragment_error, u64 \<rightharpoonup> nat) outcome" where
  "index_nodes retained i [] indices = Ok indices"
| "index_nodes retained i (n # ns) indices =
     (if nd_id n = 0 then Err NodeIdReserved
      else if nd_id n \<in> retained \<or> indices (nd_id n) \<noteq> None then Err (DuplicateNodeId (nd_id n))
      else index_nodes retained (Suc i) ns (indices(nd_id n \<mapsto> i)))"

section \<open>The shape of one node\<close>

fun virtual_keys_loop ::
  "(u64 \<Rightarrow> (fragment_error, node option) outcome) \<Rightarrow> u64 \<Rightarrow> u64 list \<Rightarrow> u64 set \<Rightarrow>
   (fragment_error, unit) outcome" where
  "virtual_keys_loop look list_id [] keys = Ok ()"
| "virtual_keys_loop look list_id (child # rest) keys =
     obind (look child) (\<lambda>found.
       case map_option nd_kind found of
         Some (VirtualItem key) \<Rightarrow>
           (if key \<in> keys then Err (DuplicateItemKey list_id key)
            else virtual_keys_loop look list_id rest (insert key keys))
       | _ \<Rightarrow> Err (NonItemChild list_id))"

definition validate_virtual_keys ::
  "node \<Rightarrow> (u64 \<Rightarrow> (fragment_error, node option) outcome) \<Rightarrow> (fragment_error, unit) outcome" where
  "validate_virtual_keys list look = virtual_keys_loop look (nd_id list) (nd_children list) {}"

definition provided_extent_bad :: "provided_rows \<Rightarrow> nat \<Rightarrow> bool" where
  "provided_extent_bad rows children =
     (pr_instance rows = 0 \<or>
      (case checked_add (pr_first rows) (of_nat children) of
         None \<Rightarrow> True
       | Some end \<Rightarrow> pr_count rows < end))"

definition leaf_shape :: "u64 \<Rightarrow> u64 list \<Rightarrow> (fragment_error, unit) outcome" where
  "leaf_shape nid children = (if children \<noteq> [] then Err (LeafHasChildren nid) else Ok ())"

definition check_shape ::
  "node \<Rightarrow> (u64 \<Rightarrow> (fragment_error, node option) outcome) \<Rightarrow> (fragment_error, unit) outcome" where
  "check_shape n look =
     (let nid = nd_id n; children = nd_children n in
      case nd_kind n of
        Text _ \<Rightarrow> leaf_shape nid children
      | StyledText _ _ _ _ _ _ _ \<Rightarrow> leaf_shape nid children
      | Checkbox _ _ _ _ _ \<Rightarrow> leaf_shape nid children
      | Button _ _ _ _ _ _ _ \<Rightarrow> leaf_shape nid children
      | Textarea _ _ _ _ _ _ \<Rightarrow> leaf_shape nid children
      | Image _ _ _ _ _ _ \<Rightarrow> leaf_shape nid children
      | Canvas _ _ _ _ _ _ \<Rightarrow> leaf_shape nid children
      | TextInput _ _ _ _ _ \<Rightarrow> leaf_shape nid children
      | Boundary _ \<Rightarrow> (if length children \<noteq> 1 then Err (BoundaryContent nid) else Ok ())
      | Popover _ _ delay_ms _ _ _ _ _ \<Rightarrow>
          (if children = [] then Err (PopoverAnchor nid)
           else if 60000 < delay_ms then Err (PopoverDelay nid) else Ok ())
      | Scroll _ _ _ \<Rightarrow> (if length children \<noteq> 1 then Err (ScrollContent nid) else Ok ())
      | Split _ _ _ extent lo hi _ _ _ _ _ \<Rightarrow>
          (if length children \<noteq> 2 then Err (SplitPanes nid)
           else if \<not> (lo \<le> extent \<and> extent \<le> hi) then Err (SplitBounds nid) else Ok ())
      | VirtualItem _ \<Rightarrow> (if length children \<noteq> 1 then Err (VirtualItemContent nid) else Ok ())
      | VirtualList _ row_height _ _ rows \<Rightarrow>
          (if \<not> (1 \<le> row_height \<and> row_height \<le> 16384) then Err (VirtualRowHeight nid)
           else if (case rows of Some r \<Rightarrow> provided_extent_bad r (length children) | None \<Rightarrow> False)
                then Err (ProvidedExtent nid)
           else validate_virtual_keys n look)
      | _ \<Rightarrow> Ok ())"

section \<open>The scan over the nodes\<close>

record scan_state =
  sc_dialogs :: nat
  sc_instances :: "u64 set"
  sc_ownership :: "u64 set"
  sc_visits :: u64

definition scan_start :: scan_state where
  "scan_start = \<lparr>sc_dialogs = 0, sc_instances = {}, sc_ownership = {}, sc_visits = 0\<rparr>"

text \<open>At most one dialog, no unnamed input, no repeated component instance.\<close>

definition check_unique :: "node_kind \<Rightarrow> scan_state \<Rightarrow> (fragment_error, scan_state) outcome" where
  "check_unique kind s =
     (case kind of
        Dialog _ _ \<Rightarrow>
          (if sc_dialogs s + 1 > 1 then Err MoreThanOneDialog
           else Ok (s\<lparr>sc_dialogs := sc_dialogs s + 1\<rparr>))
      | TextInput label _ _ _ _ \<Rightarrow> (if label = [] then Err EmptyInputLabel else Ok s)
      | Boundary instance \<Rightarrow>
          (if instance \<in> sc_instances s then Err (DuplicateInstance instance)
           else Ok (s\<lparr>sc_instances := insert instance (sc_instances s)\<rparr>))
      | _ \<Rightarrow> Ok s)"

fun own_children ::
  "(u64 \<rightharpoonup> nat) \<Rightarrow> u64 set \<Rightarrow> u64 \<Rightarrow> u64 list \<Rightarrow> u64 set \<Rightarrow> (fragment_error, u64 set) outcome" where
  "own_children indices retained nid [] ownership = Ok ownership"
| "own_children indices retained nid (child # rest) ownership =
     (if indices child = None \<and> child \<notin> retained then Err (MissingChild nid child)
      else if child \<in> ownership then Err (TwoParents child)
      else own_children indices retained nid rest (insert child ownership))"

fun scan_nodes ::
  "(u64 \<rightharpoonup> nat) \<Rightarrow> u64 set \<Rightarrow> (u64 \<Rightarrow> (fragment_error, node option) outcome) \<Rightarrow> node list \<Rightarrow>
   scan_state \<Rightarrow> (fragment_error, scan_state) outcome" where
  "scan_nodes indices retained look [] s = Ok s"
| "scan_nodes indices retained look (n # ns) s =
     obind (check_unique (nd_kind n) (s\<lparr>sc_visits := sc_visits s + 1\<rparr>)) (\<lambda>s.
     obind (check_shape n look) (\<lambda>_.
     obind (own_children indices retained (nd_id n) (nd_children n) (sc_ownership s)) (\<lambda>ownership.
     scan_nodes indices retained look ns (s\<lparr>sc_ownership := ownership\<rparr>))))"

section \<open>The walk from the root\<close>

record walk_state =
  wk_reached :: "u64 set"
  wk_labels :: "(u64 option \<times> string) set"
  wk_owners :: "u64 \<rightharpoonup> u64 option"
  wk_postorder :: "u64 list"
  wk_visits :: u64

text \<open>
  One work item is a node to enter or to leave, with the component instance that owns it. The
  owner passed to the children is the node's own instance at a boundary.
\<close>

definition enter_owner ::
  "node \<Rightarrow> u64 option \<Rightarrow> walk_state \<Rightarrow> (fragment_error, u64 option \<times> walk_state) outcome" where
  "enter_owner n owner s =
     (case nd_kind n of
        Boundary instance \<Rightarrow> Ok (Some instance, s)
      | TextInput label _ _ _ _ \<Rightarrow>
          (if (owner, label) \<in> wk_labels s then Err (DuplicateInputLabel label)
           else Ok (owner, s\<lparr>wk_labels := insert (owner, label) (wk_labels s),
                            wk_owners := (wk_owners s)(nd_id n \<mapsto> owner)\<rparr>))
      | _ \<Rightarrow> Ok (owner, s))"

text \<open>
  The pending items are a stack with its top at the head of the list. Every entered node is
  new, so the walk ends: either fewer ids are left to reach, or the stack is shorter.
\<close>

function walk ::
  "(u64 \<rightharpoonup> nat) \<Rightarrow> node list \<Rightarrow> u64 set \<Rightarrow> (u64 \<times> bool \<times> u64 option) list \<Rightarrow> walk_state \<Rightarrow>
   (fragment_error, walk_state) outcome" where
  "walk indices nodes retained [] s = Ok s"
| "walk indices nodes retained ((nid, True, owner) # pending) s =
     walk indices nodes retained pending (s\<lparr>wk_postorder := wk_postorder s @ [nid]\<rparr>)"
| "walk indices nodes retained ((nid, False, owner) # pending) s =
     (if nid \<in> wk_reached s then Err (CycleAt nid)
      else if nid \<in> retained
      then walk indices nodes retained pending
             (s\<lparr>wk_reached := insert nid (wk_reached s), wk_visits := wk_visits s + 1\<rparr>)
      else (case obind (expect (indices nid)) (node_index nodes) of
              Err e \<Rightarrow> Err e
            | Panic \<Rightarrow> Panic
            | Ok n \<Rightarrow>
                (case enter_owner n owner (s\<lparr>wk_visits := wk_visits s + 1\<rparr>) of
                   Err e \<Rightarrow> Err e
                 | Panic \<Rightarrow> Panic
                 | Ok (owner', s') \<Rightarrow>
                     walk indices nodes retained
                       (map (\<lambda>child. (child, False, owner')) (nd_children n) @ (nid, True, owner') # pending)
                       (s'\<lparr>wk_reached := insert nid (wk_reached s)\<rparr>))))"
  by pat_completeness auto
termination
proof (relation "measures [\<lambda>(indices, nodes, retained, pending, s). card (UNIV - wk_reached s),
                           \<lambda>(indices, nodes, retained, pending, s). length pending]")
qed (auto simp del: card_Diff_insert intro!: psubset_card_mono)

definition walk_start :: walk_state where
  "walk_start = \<lparr>wk_reached = {}, wk_labels = {}, wk_owners = Map.empty, wk_postorder = [], wk_visits = 0\<rparr>"

section \<open>Validation\<close>

definition validate_fragment ::
  "u64 \<Rightarrow> node list \<Rightarrow> u64 set \<Rightarrow> u64 option \<Rightarrow> (u64 \<rightharpoonup> node) \<Rightarrow> (fragment_error, validated) outcome" where
  "validate_fragment root nodes retained owner mounted =
     (if root = 0 then Err NodeIdReserved
      else if max_staged_nodes < length nodes + card retained then Err SubtreeTooLarge
      else obind (index_nodes retained 0 nodes Map.empty) (\<lambda>indices.
        if indices root = None \<and> root \<notin> retained then Err (RootMissing root)
        else obind (scan_nodes indices retained (lookup indices nodes mounted) nodes scan_start) (\<lambda>s.
          if root \<in> sc_ownership s then Err (RootHasParent root)
          else obind (walk indices nodes retained [(root, False, owner)]
                        (walk_start\<lparr>wk_visits := sc_visits s\<rparr>)) (\<lambda>w.
            if card (wk_reached w) \<noteq> length nodes + card retained then Err Disconnected
            else Ok \<lparr>vf_indices = indices, vf_input_owners = wk_owners w,
                     vf_postorder = wk_postorder w, vf_visits = wk_visits w\<rparr>))))"

definition validate_tree :: "u64 \<Rightarrow> node list \<Rightarrow> (fragment_error, unit) outcome" where
  "validate_tree root nodes = obind (validate_fragment root nodes {} None Map.empty) (\<lambda>_. Ok ())"

end
