(* ===== verification/Registry.thy ===== *)
theory Registry
  imports Fragment
begin

text \<open>
  Identity reconciliation for a render (\<open>ComponentRegistry\<close> in \<open>bridge.rs\<close>): the stack of
  structural scopes, the resolution of a component at a location to its instance, and the
  commit of a transaction's choices against the mounted graph. An operation returns its outcome
  with the state it leaves, on an error too.
\<close>

section \<open>State\<close>

datatype registry_error =
    RenderOverlaps
  | OwnerNotMounted u64
  | ScopePosition
  | ScopeInvalidKind
  | ScopeNesting
  | ScopeOutsideRender
  | OccurrenceOverflow
  | UnkeyedDigest
  | DigestLength
  | InvalidKeyKind
  | ResolvedOutsideRender
  | DuplicateComponentKey
  | InstancesExhausted
  | NotResolved u64
  | MismatchedExit
  | UnfinishedScopes

datatype component_key = Unkeyed u64 | Digest "u8 list"

datatype component_location = Location (loc_scope: element_identity) (loc_key: component_key)

record component_mount =
  cm_instance :: u64
  cm_root :: u64

datatype scope_kind = RenderScope | NativeScope | ComponentScope

record component_scope =
  cs_identity :: element_identity
  cs_occurrences :: "u8 \<times> string \<rightharpoonup> u32"
  cs_kind :: scope_kind

text \<open>The scope stack has its top at the head of the list.\<close>

record registry =
  rg_next_instance :: u64
  rg_live :: "component_location \<rightharpoonup> component_mount"
  rg_instances :: "u64 \<rightharpoonup> component_location"
  rg_pending :: "component_location \<rightharpoonup> component_mount"
  rg_pending_instances :: "u64 set"
  rg_seen :: "component_location set"
  rg_scopes :: "component_scope list"
  rg_rendering :: bool

definition registry_default :: registry where
  "registry_default = \<lparr>rg_next_instance = 1, rg_live = Map.empty, rg_instances = Map.empty,
     rg_pending = Map.empty, rg_pending_instances = {}, rg_seen = {}, rg_scopes = [], rg_rendering = False\<rparr>"

type_synonym 'a registry_result = "(registry_error, 'a) outcome \<times> registry"

definition open_scope :: "element_identity \<Rightarrow> scope_kind \<Rightarrow> registry \<Rightarrow> registry" where
  "open_scope identity kind r =
     r\<lparr>rg_scopes := \<lparr>cs_identity = identity, cs_occurrences = Map.empty, cs_kind = kind\<rparr> # rg_scopes r\<rparr>"

section \<open>The lowering walk\<close>

definition begin_render :: "u64 \<Rightarrow> registry \<Rightarrow> unit registry_result" where
  "begin_render owner r =
     (if rg_rendering r \<or> rg_pending r \<noteq> Map.empty then (Err RenderOverlaps, r)
      else if owner \<noteq> 0 \<and> rg_instances r owner = None then (Err (OwnerNotMounted owner), r)
      else (Ok (), open_scope [SegBoundary owner] RenderScope (r\<lparr>rg_rendering := True\<rparr>)))"

text \<open>
  The position converts to the host's index type, which is as wide, so that conversion cannot
  fail. A named child takes the next occurrence of its tag and label in its parent.
\<close>

definition scope_enter :: "u8 \<Rightarrow> string \<Rightarrow> u64 \<Rightarrow> registry \<Rightarrow> unit registry_result" where
  "scope_enter kind_tag label position r =
     (if 15 \<le> kind_tag then (Err ScopeInvalidKind, r)
      else if max_staged_nodes \<le> length (rg_scopes r) then (Err ScopeNesting, r)
      else case rg_scopes r of
        [] \<Rightarrow> (Err ScopeOutsideRender, r)
      | parent # outer \<Rightarrow>
          (if label = [] then
             (Ok (), open_scope (cs_identity parent @ [SegPositional kind_tag (unat position)]) NativeScope r)
           else
             (let occurrence = (case cs_occurrences parent (kind_tag, label) of None \<Rightarrow> 0 | Some n \<Rightarrow> n) in
              case checked_add occurrence 1 of
                None \<Rightarrow> (Err OccurrenceOverflow, r)
              | Some after \<Rightarrow>
                  (Ok (), open_scope (cs_identity parent @ [SegNamed kind_tag label occurrence]) NativeScope
                     (r\<lparr>rg_scopes := parent\<lparr>cs_occurrences := (cs_occurrences parent)((kind_tag, label) \<mapsto> after)\<rparr> # outer\<rparr>)))))"

definition exit_scope :: "scope_kind \<Rightarrow> registry \<Rightarrow> unit registry_result" where
  "exit_scope kind r =
     (case rg_scopes r of
        [] \<Rightarrow> (Err MismatchedExit, r)
      | inner # outer \<Rightarrow> (if cs_kind inner = kind then (Ok (), r\<lparr>rg_scopes := outer\<rparr>) else (Err MismatchedExit, r)))"

definition scope_exit :: "registry \<Rightarrow> unit registry_result" where
  "scope_exit = exit_scope NativeScope"

definition resolve_key :: "u8 \<Rightarrow> u8 list \<Rightarrow> u64 \<Rightarrow> (registry_error, component_key) outcome" where
  "resolve_key key_kind key_digest next_instance =
     (if key_kind = 0 then (if key_digest = [] then Ok (Unkeyed next_instance) else Err UnkeyedDigest)
      else if key_kind = 1 then (if length key_digest = 32 then Ok (Digest key_digest) else Err DigestLength)
      else Err InvalidKeyKind)"

text \<open>A duplicate is refused once; the location stays seen when the instances run out.\<close>

definition resolve :: "u8 \<Rightarrow> u8 list \<Rightarrow> registry \<Rightarrow> (u64 \<times> u64) registry_result" where
  "resolve key_kind key_digest r =
     (case resolve_key key_kind key_digest (rg_next_instance r) of
        Err e \<Rightarrow> (Err e, r)
      | Panic \<Rightarrow> (Panic, r)
      | Ok key \<Rightarrow>
          (case rg_scopes r of
             [] \<Rightarrow> (Err ResolvedOutsideRender, r)
           | inner # _ \<Rightarrow>
               (let location = Location (cs_identity inner) key in
                if location \<in> rg_seen r then (Err DuplicateComponentKey, r)
                else
                  (let r = r\<lparr>rg_seen := insert location (rg_seen r)\<rparr>;
                       found = (case rg_live r location of
                           Some mount \<Rightarrow> Some (mount, rg_next_instance r)
                         | None \<Rightarrow> (case checked_add (rg_next_instance r) 1 of
                             None \<Rightarrow> None
                           | Some after \<Rightarrow> Some (\<lparr>cm_instance = rg_next_instance r, cm_root = 0\<rparr>, after)))
                   in case found of
                        None \<Rightarrow> (Err InstancesExhausted, r)
                      | Some (mount, after) \<Rightarrow>
                          (Ok (cm_instance mount, cm_root mount),
                           r\<lparr>rg_next_instance := after,
                             rg_pending_instances := insert (cm_instance mount) (rg_pending_instances r),
                             rg_pending := (rg_pending r)(location \<mapsto> mount)\<rparr>)))))"

definition component_enter :: "u64 \<Rightarrow> registry \<Rightarrow> unit registry_result" where
  "component_enter inst r =
     (if rg_scopes r = [] \<or> inst \<notin> rg_pending_instances r then (Err (NotResolved inst), r)
      else if max_staged_nodes \<le> length (rg_scopes r) then (Err ScopeNesting, r)
      else (Ok (), open_scope [SegBoundary inst] ComponentScope r))"

definition component_exit :: "registry \<Rightarrow> unit registry_result" where
  "component_exit = exit_scope ComponentScope"

definition finish_render :: "registry \<Rightarrow> unit registry_result" where
  "finish_render r =
     (if \<not> rg_rendering r then (Ok (), r)
      else case rg_scopes r of
        [only] \<Rightarrow> (if cs_kind only = RenderScope then (Ok (), r\<lparr>rg_scopes := []\<rparr>) else (Err UnfinishedScopes, r))
      | _ \<Rightarrow> (Err UnfinishedScopes, r))"

definition abort :: "registry \<Rightarrow> registry" where
  "abort r = r\<lparr>rg_pending := Map.empty, rg_pending_instances := {}, rg_seen := {}, rg_scopes := [],
     rg_rendering := False\<rparr>"

section \<open>Commit\<close>

text \<open>
  \<open>roots\<close> is the mounted graph's \<open>boundary_root\<close>. \<open>order\<close> is the order in which the pending hash
  map is drained.
\<close>

fun commit_removed :: "(u64 \<rightharpoonup> u64) \<Rightarrow> u64 list \<Rightarrow> registry \<Rightarrow> registry" where
  "commit_removed roots [] r = r"
| "commit_removed roots (inst # rest) r =
     commit_removed roots rest
       (if roots inst = None then
          (case rg_instances r inst of
             None \<Rightarrow> r
           | Some location \<Rightarrow> r\<lparr>rg_instances := (rg_instances r)(inst := None),
                               rg_live := (rg_live r)(location := None)\<rparr>)
        else r)"

fun commit_pending ::
  "(u64 \<rightharpoonup> u64) \<Rightarrow> (component_location \<times> component_mount) list \<Rightarrow> registry \<Rightarrow> registry" where
  "commit_pending roots [] r = r"
| "commit_pending roots ((location, mount) # rest) r =
     commit_pending roots rest
       (case roots (cm_instance mount) of
          None \<Rightarrow> r
        | Some root \<Rightarrow>
            r\<lparr>rg_instances := (rg_instances r)(cm_instance mount \<mapsto> location),
              rg_live := (rg_live r)(location \<mapsto> mount\<lparr>cm_root := root\<rparr>)\<rparr>)"

fun commit_staged :: "(u64 \<rightharpoonup> u64) \<Rightarrow> u64 list \<Rightarrow> registry \<Rightarrow> (registry_error, registry) outcome" where
  "commit_staged roots [] r = Ok r"
| "commit_staged roots (inst # rest) r =
     (case rg_instances r inst of
        None \<Rightarrow> commit_staged roots rest r
      | Some location \<Rightarrow>
          (case rg_live r location of
             None \<Rightarrow> commit_staged roots rest r
           | Some mount \<Rightarrow>
               obind (expect (roots inst)) (\<lambda>root.
                 commit_staged roots rest
                   (r\<lparr>rg_live := (rg_live r)(location \<mapsto> mount\<lparr>cm_root := root\<rparr>)\<rparr>))))"

definition commit ::
  "(u64 \<rightharpoonup> u64) \<Rightarrow> u64 list \<Rightarrow> u64 list \<Rightarrow> (component_location \<times> component_mount) list \<Rightarrow> registry \<Rightarrow>
   (registry_error, registry) outcome" where
  "commit roots removed staged order r =
     (let r = commit_pending roots order ((commit_removed roots removed r)\<lparr>rg_pending := Map.empty\<rparr>)
      in obind (commit_staged roots staged r) (\<lambda>r. Ok (abort r)))"

text \<open>An order in which the pending map can be drained: each of its entries once.\<close>

definition drains :: "(component_location \<times> component_mount) list \<Rightarrow> (component_location \<rightharpoonup> component_mount) \<Rightarrow> bool" where
  "drains order pending \<longleftrightarrow> distinct (map fst order) \<and> map_of order = pending"

end
