(* ===== verification/Staging.thy ===== *)
theory Staging
  imports Registry
begin

text \<open>
  Staging a transaction (\<open>BridgeState\<close> in \<open>bridge.rs\<close>): child builders, node staging, subtree
  retention, keyed edits, and the two commits that turn what is staged into a pending patch. An
  operation returns its outcome with the state it leaves, on an error too.
\<close>

section \<open>Patches\<close>

datatype commit_request = CommitMount u64 | CommitNoChange | CommitReplace u64 u64

datatype keyed_graph_operation =
    GraphInsert keyed_child_key "keyed_child_key option" u64 "node list"
  | GraphRemove keyed_child_key
  | GraphMove keyed_child_key "keyed_child_key option"
  | GraphSet keyed_child_key u64 "node list"

datatype patch =
    PatchMount u64 "node list"
  | PatchNoChange
  | PatchReplace u64 u64 "node list"
  | PatchReplaceRetaining u64 u64 "node list" "u64 list"
  | PatchKeyed u64 u64 u64 "keyed_graph_operation list"

section \<open>State\<close>

datatype staging_error =
    KeyedOverlap
  | KeyedAfterStaging
  | KeyedOutsideEdit
  | KeyedUnfinishedBuilders
  | KeyedRootNotStaged u64
  | KeyedAfterItem
  | TwoPatches
  | KeyedUnfinishedItem
  | ComponentsUnfinished registry_error
  | PreviousPatch
  | BuilderNesting
  | BuilderIdsExhausted
  | MissingBuilder u64
  | BuilderInactive u64
  | StagingTooLarge
  | UnstagedChild u64
  | NodeIdsExhausted
  | SeedContainer u64
  | SeedCount
  | SeedNotColumn
  | SeedDuplicateKey
  | SeedChildUnstaged u64
  | SeedChildNotBoundary
  | RetainInKeyedEdit
  | RetainUnissued u64
  | RetainDuplicate u64
  | CommitUnfinishedBuilders
  | CommitDuringKeyedEdit
  | NoChangeAfterStaging
  | NoChangeAfterRetention
  | MountAfterRetention

record keyed_edit_builder =
  ke_container :: u64
  ke_base_revision :: u64
  ke_new_revision :: u64
  ke_operations :: "keyed_graph_operation list"

text \<open>The child builders are a stack with its top at the head of the list.\<close>

record bridge =
  br_pending :: "patch option"
  br_components :: "registry option"
  br_next_node_id :: u64
  br_staged :: "node list"
  br_retained_roots :: "u64 list"
  br_retained_lookup :: "u64 set option"
  br_builders :: "(u64 \<times> u64 list) list"
  br_next_builder :: u64
  br_keyed_edit :: "keyed_edit_builder option"

definition bridge_new :: bridge where
  "bridge_new = \<lparr>br_pending = None, br_components = None, br_next_node_id = 1, br_staged = [],
     br_retained_roots = [], br_retained_lookup = None, br_builders = [], br_next_builder = 1,
     br_keyed_edit = None\<rparr>"

type_synonym 'a staged = "(staging_error, 'a) outcome \<times> bridge"

section \<open>Keyed edits\<close>

definition begin_keyed_edit :: "u64 \<Rightarrow> u64 \<Rightarrow> u64 \<Rightarrow> bridge \<Rightarrow> unit staged" where
  "begin_keyed_edit container base_revision new_revision b =
     (if br_pending b \<noteq> None \<or> br_keyed_edit b \<noteq> None then (Err KeyedOverlap, b)
      else if br_staged b \<noteq> [] \<or> br_retained_roots b \<noteq> [] \<or> br_builders b \<noteq> [] then (Err KeyedAfterStaging, b)
      else (Ok (), b\<lparr>br_keyed_edit := Some \<lparr>ke_container = container, ke_base_revision = base_revision,
              ke_new_revision = new_revision, ke_operations = []\<rparr>\<rparr>))"

definition keyed_fragment :: "u64 \<Rightarrow> bridge \<Rightarrow> node list staged" where
  "keyed_fragment root b =
     (if br_keyed_edit b = None then (Err KeyedOutsideEdit, b)
      else if br_builders b \<noteq> [] then (Err KeyedUnfinishedBuilders, b)
      else if br_staged b = [] \<or> (\<forall>n \<in> set (br_staged b). nd_id n \<noteq> root) then (Err (KeyedRootNotStaged root), b)
      else (Ok (br_staged b), b\<lparr>br_staged := []\<rparr>))"

definition push_keyed_operation :: "keyed_graph_operation \<Rightarrow> bridge \<Rightarrow> unit staged" where
  "push_keyed_operation operation b =
     (case br_keyed_edit b of
        None \<Rightarrow> (Err KeyedOutsideEdit, b)
      | Some edit \<Rightarrow> (Ok (), b\<lparr>br_keyed_edit := Some (edit\<lparr>ke_operations := ke_operations edit @ [operation]\<rparr>)\<rparr>))"

definition keyed_insert_before ::
  "keyed_child_key \<Rightarrow> keyed_child_key option \<Rightarrow> u64 \<Rightarrow> bridge \<Rightarrow> unit staged" where
  "keyed_insert_before key before root b =
     (case keyed_fragment root b of
        (Ok nodes, b) \<Rightarrow> push_keyed_operation (GraphInsert key before root nodes) b
      | (Err e, b) \<Rightarrow> (Err e, b)
      | (Panic, b) \<Rightarrow> (Panic, b))"

definition keyed_order_only :: "keyed_graph_operation \<Rightarrow> bridge \<Rightarrow> unit staged" where
  "keyed_order_only operation b =
     (if br_staged b \<noteq> [] \<or> br_builders b \<noteq> [] then (Err KeyedAfterItem, b)
      else push_keyed_operation operation b)"

definition keyed_remove :: "keyed_child_key \<Rightarrow> bridge \<Rightarrow> unit staged" where
  "keyed_remove key = keyed_order_only (GraphRemove key)"

definition keyed_move_before :: "keyed_child_key \<Rightarrow> keyed_child_key option \<Rightarrow> bridge \<Rightarrow> unit staged" where
  "keyed_move_before key before = keyed_order_only (GraphMove key before)"

definition keyed_set :: "keyed_child_key \<Rightarrow> u64 \<Rightarrow> bridge \<Rightarrow> unit staged" where
  "keyed_set key root b =
     (case keyed_fragment root b of
        (Ok nodes, b) \<Rightarrow> push_keyed_operation (GraphSet key root nodes) b
      | (Err e, b) \<Rightarrow> (Err e, b)
      | (Panic, b) \<Rightarrow> (Panic, b))"

text \<open>Both commits first ask the component registry, when there is one, to finish its render.\<close>

definition finish_components :: "bridge \<Rightarrow> unit staged" where
  "finish_components b =
     (case br_components b of
        None \<Rightarrow> (Ok (), b)
      | Some r \<Rightarrow> (case finish_render r of
            (Ok u, r) \<Rightarrow> (Ok (), b\<lparr>br_components := Some r\<rparr>)
          | (Err e, r) \<Rightarrow> (Err (ComponentsUnfinished e), b\<lparr>br_components := Some r\<rparr>)
          | (Panic, r) \<Rightarrow> (Panic, b\<lparr>br_components := Some r\<rparr>)))"

definition commit_keyed_edit :: "bridge \<Rightarrow> unit staged" where
  "commit_keyed_edit b =
     (if br_pending b \<noteq> None then (Err TwoPatches, b)
      else if br_staged b \<noteq> [] \<or> br_builders b \<noteq> [] then (Err KeyedUnfinishedItem, b)
      else case finish_components b of
        (Ok _, b) \<Rightarrow>
          (case br_keyed_edit b of
             None \<Rightarrow> (Err KeyedOutsideEdit, b)
           | Some edit \<Rightarrow> (Ok (), b\<lparr>br_keyed_edit := None,
               br_pending := Some (PatchKeyed (ke_container edit) (ke_base_revision edit)
                 (ke_new_revision edit) (ke_operations edit))\<rparr>))
      | (Err e, b) \<Rightarrow> (Err e, b)
      | (Panic, b) \<Rightarrow> (Panic, b))"

section \<open>Child builders and nodes\<close>

definition begin_children :: "bridge \<Rightarrow> u64 staged" where
  "begin_children b =
     (if br_pending b \<noteq> None then (Err PreviousPatch, b)
      else if max_staged_nodes \<le> length (br_builders b) then (Err BuilderNesting, b)
      else case checked_add (br_next_builder b) 1 of
        None \<Rightarrow> (Err BuilderIdsExhausted, b)
      | Some after \<Rightarrow>
          (Ok (br_next_builder b),
           b\<lparr>br_next_builder := after, br_builders := (br_next_builder b, []) # br_builders b\<rparr>))"

definition push_child :: "u64 \<Rightarrow> u64 \<Rightarrow> bridge \<Rightarrow> unit staged" where
  "push_child builder child b =
     (case br_builders b of
        [] \<Rightarrow> (Err (MissingBuilder builder), b)
      | (active, children) # outer \<Rightarrow>
          (if active \<noteq> builder then (Err (BuilderInactive builder), b)
           else (Ok (), b\<lparr>br_builders := (active, children @ [child]) # outer\<rparr>)))"

definition finish_children :: "u64 \<Rightarrow> bridge \<Rightarrow> u64 list staged" where
  "finish_children builder b =
     (case br_builders b of
        [] \<Rightarrow> (Err (MissingBuilder builder), b)
      | (active, children) # outer \<Rightarrow>
          (if active \<noteq> builder then (Err (BuilderInactive builder), b)
           else (Ok children, b\<lparr>br_builders := outer\<rparr>)))"

text \<open>A child is staged when it lies between the first staged id and the next one.\<close>

definition child_known :: "bridge \<Rightarrow> u64 \<Rightarrow> bool" where
  "child_known b child \<longleftrightarrow>
     (case br_staged b of [] \<Rightarrow> False | n # _ \<Rightarrow> nd_id n \<le> child \<and> child < br_next_node_id b) \<or>
     (case br_retained_lookup b of None \<Rightarrow> False | Some roots \<Rightarrow> child \<in> roots)"

definition stage_node :: "node_kind \<Rightarrow> u64 list \<Rightarrow> bridge \<Rightarrow> u64 staged" where
  "stage_node kind children b =
     (if br_pending b \<noteq> None then (Err PreviousPatch, b)
      else if max_staged_nodes \<le> length (br_staged b) + length (br_retained_roots b) then (Err StagingTooLarge, b)
      else case find (\<lambda>child. \<not> child_known b child) children of
        Some child \<Rightarrow> (Err (UnstagedChild child), b)
      | None \<Rightarrow>
          (case checked_add (br_next_node_id b) 1 of
             None \<Rightarrow> (Err NodeIdsExhausted, b)
           | Some after \<Rightarrow>
               (if \<not> after < hover_exit_event_bit then (Err NodeIdsExhausted, b)
                else (Ok (br_next_node_id b),
                  b\<lparr>br_next_node_id := after,
                    br_staged := br_staged b @
                      [\<lparr>nd_id = br_next_node_id b, nd_kind = kind, nd_children = children\<rparr>]\<rparr>))))"

section \<open>Seeding a keyed column\<close>

text \<open>The staged nodes by id; of two nodes with one id the later is found.\<close>

definition staged_index :: "bridge \<Rightarrow> u64 \<rightharpoonup> nat" where
  "staged_index b = map_of (rev (zip (map nd_id (br_staged b)) [0..<length (br_staged b)]))"

fun seed_children ::
  "bridge \<Rightarrow> (keyed_child_key \<times> u64) list \<Rightarrow> keyed_child_key set \<Rightarrow> (staging_error, unit) outcome" where
  "seed_children b [] seen = Ok ()"
| "seed_children b ((key, child) # rest) seen =
     (if key \<in> seen then Err SeedDuplicateKey
      else case staged_index b child of
        None \<Rightarrow> Err (SeedChildUnstaged child)
      | Some i \<Rightarrow>
          (if boundary_instance (nd_kind (br_staged b ! i)) = None then Err SeedChildNotBoundary
           else seed_children b rest (insert key seen)))"

definition seed_keyed_column ::
  "u64 \<Rightarrow> u64 \<Rightarrow> keyed_child_key list \<Rightarrow> bridge \<Rightarrow> unit staged" where
  "seed_keyed_column container revision keys b =
     (case staged_index b container of
        None \<Rightarrow> (Err (SeedContainer container), b)
      | Some position \<Rightarrow>
          (let n = br_staged b ! position in
           if length keys \<noteq> length (nd_children n) then (Err SeedCount, b)
           else case nd_kind n of
             Column label style \<Rightarrow>
               (case seed_children b (zip keys (nd_children n)) {} of
                  Ok _ \<Rightarrow> (Ok (), b\<lparr>br_staged := (br_staged b)[position :=
                              n\<lparr>nd_kind := KeyedColumn label style revision keys\<rparr>]\<rparr>)
                | Err e \<Rightarrow> (Err e, b)
                | Panic \<Rightarrow> (Panic, b))
           | _ \<Rightarrow> (Err SeedNotColumn, b)))"

section \<open>Retention and the ordinary commit\<close>

definition retain_subtree :: "u64 \<Rightarrow> bridge \<Rightarrow> u64 staged" where
  "retain_subtree root b =
     (if br_pending b \<noteq> None then (Err PreviousPatch, b)
      else if br_keyed_edit b \<noteq> None then (Err RetainInKeyedEdit, b)
      else if root = 0 \<or> (case br_staged b of [] \<Rightarrow> br_next_node_id b | n # _ \<Rightarrow> nd_id n) \<le> root
           then (Err (RetainUnissued root), b)
      else if max_staged_nodes \<le> length (br_retained_roots b) + length (br_staged b) then (Err StagingTooLarge, b)
      else (let roots = (case br_retained_lookup b of None \<Rightarrow> {} | Some roots \<Rightarrow> roots) in
            if root \<in> roots then (Err (RetainDuplicate root), b\<lparr>br_retained_lookup := Some roots\<rparr>)
            else (Ok root, b\<lparr>br_retained_lookup := Some (insert root roots),
                             br_retained_roots := br_retained_roots b @ [root]\<rparr>)))"

definition commit_patch :: "commit_request \<Rightarrow> bridge \<Rightarrow> patch staged" where
  "commit_patch request b =
     (case request of
        CommitNoChange \<Rightarrow>
          (if br_staged b \<noteq> [] then (Err NoChangeAfterStaging, b)
           else if br_retained_roots b \<noteq> [] then (Err NoChangeAfterRetention, b)
           else (Ok PatchNoChange, b))
      | CommitMount root \<Rightarrow>
          (if br_retained_roots b \<noteq> [] then (Err MountAfterRetention, b)
           else (Ok (PatchMount root (br_staged b)), b\<lparr>br_staged := []\<rparr>))
      | CommitReplace old_root root \<Rightarrow>
          (if br_retained_roots b = []
           then (Ok (PatchReplace old_root root (br_staged b)), b\<lparr>br_staged := []\<rparr>)
           else (Ok (PatchReplaceRetaining old_root root (br_staged b) (br_retained_roots b)),
                 b\<lparr>br_staged := [], br_retained_lookup := None, br_retained_roots := []\<rparr>)))"

definition bridge_commit :: "commit_request \<Rightarrow> bridge \<Rightarrow> unit staged" where
  "bridge_commit request b =
     (if br_pending b \<noteq> None then (Err TwoPatches, b)
      else if br_builders b \<noteq> [] then (Err CommitUnfinishedBuilders, b)
      else if br_keyed_edit b \<noteq> None then (Err CommitDuringKeyedEdit, b)
      else case finish_components b of
        (Ok _, b) \<Rightarrow>
          (case commit_patch request b of
             (Ok patch, b) \<Rightarrow> (Ok (), b\<lparr>br_pending := Some patch\<rparr>)
           | (Err e, b) \<Rightarrow> (Err e, b)
           | (Panic, b) \<Rightarrow> (Panic, b))
      | (Err e, b) \<Rightarrow> (Err e, b)
      | (Panic, b) \<Rightarrow> (Panic, b))"

text \<open>\<open>take_patch\<close> in \<open>lib.rs\<close>: the host takes the patch a dispatch must have emitted.\<close>

definition take_patch :: "bridge \<Rightarrow> patch staged" where
  "take_patch b = (case br_pending b of None \<Rightarrow> (Panic, b) | Some p \<Rightarrow> (Ok p, b\<lparr>br_pending := None\<rparr>))"

end
