(* ===== verification/FragmentTree.thy ===== *)
theory FragmentTree
  imports Fragment
begin

text \<open>
  What validation decides. A fragment is acceptable when its nodes, with the retained roots as
  leaves, spell one rooted tree of well-shaped nodes; validation accepts exactly those, never
  panics, and its results are the traversals of that tree. The proof relates the work-stack
  walk to the recursive traversal of the tree.
\<close>

section \<open>Trees\<close>

datatype gtree = GNode (gt_id: u64) (gt_subs: "gtree list")

fun gt_preorder :: "gtree \<Rightarrow> u64 list" where
  "gt_preorder (GNode i ts) = i # concat (map gt_preorder ts)"

fun gt_postorder :: "gtree \<Rightarrow> u64 list" where
  "gt_postorder (GNode i ts) = concat (map gt_postorder ts) @ [i]"

lemma set_gt_postorder [simp]: "set (gt_postorder t) = set (gt_preorder t)"
  by (induction t) auto

lemma gt_id_in_preorder [simp]: "gt_id t \<in> set (gt_preorder t)"
  by (cases t) auto

text \<open>
  The tree \<open>t\<close> is spelled by the nodes that \<open>look\<close> finds: a retained root is a leaf, any other
  node has the children its record lists.
\<close>

fun fits :: "(u64 \<rightharpoonup> node) \<Rightarrow> u64 set \<Rightarrow> gtree \<Rightarrow> bool" where
  "fits look retained (GNode i ts) =
     (if i \<in> retained then ts = []
      else (\<exists>n. look i = Some n \<and> nd_children n = map gt_id ts) \<and> (\<forall>t \<in> set ts. fits look retained t))"

section \<open>The recursive walk\<close>

text \<open>The node at an id: what indexing and the slice access compute together.\<close>

definition node_at :: "(u64 \<rightharpoonup> nat) \<Rightarrow> node list \<Rightarrow> u64 \<rightharpoonup> node" where
  "node_at indices nodes i =
     (case indices i of None \<Rightarrow> None | Some j \<Rightarrow> if j < length nodes then Some (nodes ! j) else None)"

lemma node_at_index:
  "obind (expect (indices i)) (node_index nodes) =
     (case node_at indices nodes i of None \<Rightarrow> Panic | Some n \<Rightarrow> Ok n)"
  by (auto simp: node_at_def node_index_def split: option.splits)

fun visit_tree ::
  "(u64 \<rightharpoonup> node) \<Rightarrow> u64 set \<Rightarrow> gtree \<Rightarrow> u64 option \<Rightarrow> walk_state \<Rightarrow> (fragment_error, walk_state) outcome"
and visit_forest ::
  "(u64 \<rightharpoonup> node) \<Rightarrow> u64 set \<Rightarrow> gtree list \<Rightarrow> u64 option \<Rightarrow> walk_state \<Rightarrow> (fragment_error, walk_state) outcome"
where
  "visit_tree look retained (GNode i ts) owner s =
     (if i \<in> wk_reached s then Err (CycleAt i)
      else if i \<in> retained
      then Ok (s\<lparr>wk_reached := insert i (wk_reached s), wk_visits := wk_visits s + 1\<rparr>)
      else (case look i of
              None \<Rightarrow> Panic
            | Some n \<Rightarrow>
                (case enter_owner n owner (s\<lparr>wk_visits := wk_visits s + 1\<rparr>) of
                   Err e \<Rightarrow> Err e
                 | Panic \<Rightarrow> Panic
                 | Ok (owner', s') \<Rightarrow>
                     obind (visit_forest look retained ts owner' (s'\<lparr>wk_reached := insert i (wk_reached s)\<rparr>))
                       (\<lambda>s. Ok (s\<lparr>wk_postorder := wk_postorder s @ [i]\<rparr>)))))"
| "visit_forest look retained [] owner s = Ok s"
| "visit_forest look retained (t # ts) owner s =
     obind (visit_tree look retained t owner s) (visit_forest look retained ts owner)"

text \<open>The work stack walks an entry exactly as the recursion visits its tree.\<close>

lemma walk_visit:
  "fits (node_at indices nodes) retained t \<Longrightarrow>
   walk indices nodes retained ((gt_id t, False, owner) # pending) s =
     obind (visit_tree (node_at indices nodes) retained t owner s) (walk indices nodes retained pending)"
proof (induction t arbitrary: owner pending s)
  case (GNode i ts)
  have forest: "set us \<subseteq> set ts \<Longrightarrow> \<forall>t \<in> set ts. fits (node_at indices nodes) retained t \<Longrightarrow>
      walk indices nodes retained (map (\<lambda>c. (c, False, owner)) (map gt_id us) @ pending) s =
        obind (visit_forest (node_at indices nodes) retained us owner s) (walk indices nodes retained pending)"
    for us owner pending s
  proof (induction us arbitrary: s)
    case Nil
    then show ?case by simp
  next
    case (Cons u us)
    then have "walk indices nodes retained ((gt_id u, False, owner) #
          map (\<lambda>c. (c, False, owner)) (map gt_id us) @ pending) s =
        obind (visit_tree (node_at indices nodes) retained u owner s)
          (walk indices nodes retained (map (\<lambda>c. (c, False, owner)) (map gt_id us) @ pending))"
      using GNode.IH [of u] by simp
    also have "\<dots> = obind (visit_tree (node_at indices nodes) retained u owner s)
        (\<lambda>s. obind (visit_forest (node_at indices nodes) retained us owner s) (walk indices nodes retained pending))"
      using Cons by (cases "visit_tree (node_at indices nodes) retained u owner s") auto
    finally show ?case by (simp add: obind_assoc)
  qed
  show ?case
  proof (cases "i \<in> retained")
    case True
    with GNode.prems show ?thesis by simp
  next
    case False
    with GNode.prems obtain n where n: "node_at indices nodes i = Some n" "nd_children n = map gt_id ts"
      and ts: "\<forall>t \<in> set ts. fits (node_at indices nodes) retained t" by auto
    from n(1) have ix: "obind (expect (indices i)) (node_index nodes) = Ok n"
      by (simp add: node_at_index)
    show ?thesis
    proof (cases "enter_owner n owner (s\<lparr>wk_visits := wk_visits s + 1\<rparr>)")
      case (Ok r)
      obtain owner' s' where r: "r = (owner', s')" by (cases r)
      have leave: "walk indices nodes retained ((i, True, owner') # pending) =
          (\<lambda>s. walk indices nodes retained pending (s\<lparr>wk_postorder := wk_postorder s @ [i]\<rparr>))"
        by (rule ext) simp
      show ?thesis
        using False n ix Ok r leave forest [of ts owner' "(i, True, owner') # pending"] ts
        by (simp add: obind_assoc del: obind_eq_Ok)
    qed (use False n ix in \<open>simp_all del: obind_eq_Ok\<close>)
  qed
qed

text \<open>A walk that returns has met a fitting tree at every entry.\<close>

lemma walk_fits:
  "walk indices nodes retained pending s = Ok w \<Longrightarrow> (i, False, owner) \<in> set pending \<Longrightarrow>
   \<exists>t. gt_id t = i \<and> fits (node_at indices nodes) retained t"
proof (induction indices nodes retained pending s arbitrary: i owner rule: walk.induct)
  case (1 indices nodes retained s)
  then show ?case by simp
next
  case (2 indices nodes retained j owner' pending s)
  then show ?case by auto
next
  case (3 indices nodes retained j owner' pending s)
  show ?case
  proof (cases "j \<in> retained")
    case True
    have "gt_id (GNode j []) = j \<and> fits (node_at indices nodes) retained (GNode j [])"
      using True by simp
    then have leaf: "\<exists>t. gt_id t = j \<and> fits (node_at indices nodes) retained t" by blast
    from 3 True leaf show ?thesis by (auto split: if_splits)
  next
    case False
    from 3(3) False obtain n owner'' s' where n:
      "obind (expect (indices j)) (node_index nodes) = Ok n"
      "enter_owner n owner' (s\<lparr>wk_visits := wk_visits s + 1\<rparr>) = Ok (owner'', s')"
      "j \<notin> wk_reached s"
      "walk indices nodes retained
         (map (\<lambda>child. (child, False, owner'')) (nd_children n) @ (j, True, owner'') # pending)
         (s'\<lparr>wk_reached := insert j (wk_reached s)\<rparr>) = Ok w"
      by (auto split: if_splits outcome.splits prod.splits simp del: obind_eq_Ok)
    note IH = 3(2) [OF n(3) False n(1,2) refl n(4)]
    have "\<forall>c \<in> set (nd_children n). \<exists>t. gt_id t = c \<and> fits (node_at indices nodes) retained t"
      using IH by auto
    then obtain f where f: "\<And>c. c \<in> set (nd_children n) \<Longrightarrow>
        gt_id (f c) = c \<and> fits (node_at indices nodes) retained (f c)" by metis
    let ?t = "GNode j (map f (nd_children n))"
    have "map gt_id (map f (nd_children n)) = nd_children n"
      using f by (simp add: map_idI)
    moreover have "node_at indices nodes j = Some n"
      using n(1) by (simp add: node_at_index split: option.splits del: obind_eq_Ok)
    ultimately have "gt_id ?t = j \<and> fits (node_at indices nodes) retained ?t"
      using False f by auto
    then have "\<exists>t. gt_id t = j \<and> fits (node_at indices nodes) retained t" by blast
    with 3(4) IH show ?thesis by auto
  qed
qed

section \<open>What a visit computes\<close>

text \<open>The text inputs of a tree with their owners, in the order of the visit.\<close>

definition child_owner :: "node \<Rightarrow> u64 option \<Rightarrow> u64 option" where
  "child_owner n owner = (case nd_kind n of Boundary instance \<Rightarrow> Some instance | _ \<Rightarrow> owner)"

definition own_input :: "node \<Rightarrow> u64 option \<Rightarrow> (u64 \<times> u64 option \<times> string) list" where
  "own_input n owner = (case input_label (nd_kind n) of None \<Rightarrow> [] | Some label \<Rightarrow> [(nd_id n, owner, label)])"

fun gt_inputs ::
  "(u64 \<rightharpoonup> node) \<Rightarrow> u64 set \<Rightarrow> u64 option \<Rightarrow> gtree \<Rightarrow> (u64 \<times> u64 option \<times> string) list" where
  "gt_inputs look retained owner (GNode i ts) =
     (if i \<in> retained then []
      else case look i of None \<Rightarrow> []
        | Some n \<Rightarrow> own_input n owner @ concat (map (gt_inputs look retained (child_owner n owner)) ts))"

text \<open>The state after visiting a part with these ids, inputs and postorder.\<close>

definition visited ::
  "u64 set \<Rightarrow> u64 list \<Rightarrow> (u64 \<times> u64 option \<times> string) list \<Rightarrow> u64 list \<Rightarrow> walk_state \<Rightarrow> walk_state" where
  "visited retained ids inputs post s =
     \<lparr>wk_reached = wk_reached s \<union> set ids,
      wk_labels = wk_labels s \<union> snd ` set inputs,
      wk_owners = wk_owners s ++ map_of (rev (map (\<lambda>(i, owner, label). (i, owner)) inputs)),
      wk_postorder = wk_postorder s @ filter (\<lambda>i. i \<notin> retained) post,
      wk_visits = wk_visits s + of_nat (length ids)\<rparr>"

definition visitable :: "u64 list \<Rightarrow> (u64 \<times> u64 option \<times> string) list \<Rightarrow> walk_state \<Rightarrow> bool" where
  "visitable ids inputs s \<longleftrightarrow>
     distinct ids \<and> set ids \<inter> wk_reached s = {} \<and>
     distinct (map snd inputs) \<and> snd ` set inputs \<inter> wk_labels s = {}"

lemma enter_owner_eq:
  "enter_owner n owner s =
     (case input_label (nd_kind n) of
        None \<Rightarrow> Ok (child_owner n owner, s)
      | Some label \<Rightarrow>
          if (owner, label) \<in> wk_labels s then Err (DuplicateInputLabel label)
          else Ok (child_owner n owner, s\<lparr>wk_labels := insert (owner, label) (wk_labels s),
                  wk_owners := (wk_owners s)(nd_id n \<mapsto> owner)\<rparr>))"
  by (cases "nd_kind n") (simp_all add: enter_owner_def child_owner_def)

lemma visited_nil [simp]: "visited retained [] [] [] s = s"
  by (simp add: visited_def)

lemma visited_visited:
  "visited retained ids2 inputs2 post2 (visited retained ids1 inputs1 post1 s) =
     visited retained (ids1 @ ids2) (inputs1 @ inputs2) (post1 @ post2) s"
  by (simp add: visited_def Un_assoc image_Un algebra_simps)

lemma visitable_append:
  "visitable (ids1 @ ids2) (inputs1 @ inputs2) s \<longleftrightarrow>
     visitable ids1 inputs1 s \<and> visitable ids2 inputs2 (visited retained ids1 inputs1 post s)"
  by (auto simp: visitable_def visited_def image_Un)

text \<open>
  The visit of a fitting tree succeeds exactly when its ids and labels are new, and then its
  effect is \<open>visited\<close>. It never panics.
\<close>

definition visit_spec ::
  "u64 set \<Rightarrow> u64 list \<Rightarrow> (u64 \<times> u64 option \<times> string) list \<Rightarrow> u64 list \<Rightarrow> walk_state \<Rightarrow>
   (fragment_error, walk_state) outcome \<Rightarrow> bool" where
  "visit_spec retained ids inputs post s r \<longleftrightarrow>
     (if visitable ids inputs s then r = Ok (visited retained ids inputs post s) else (\<exists>e. r = Err e))"

lemma visit_spec_bind:
  assumes "visit_spec retained ids1 inputs1 post1 s a"
    and "visit_spec retained ids2 inputs2 post2 (visited retained ids1 inputs1 post1 s)
           (f (visited retained ids1 inputs1 post1 s))"
  shows "visit_spec retained (ids1 @ ids2) (inputs1 @ inputs2) (post1 @ post2) s (obind a f)"
  using assms visitable_append [of ids1 ids2 inputs1 inputs2 s retained post1]
  by (auto simp: visit_spec_def visited_visited split: if_splits)

lemma visit_tree_spec:
  "fits look retained t \<Longrightarrow> (\<And>i n. look i = Some n \<Longrightarrow> nd_id n = i) \<Longrightarrow>
   visit_spec retained (gt_preorder t) (gt_inputs look retained owner t) (gt_postorder t) s
     (visit_tree look retained t owner s)"
proof (induction t arbitrary: owner s)
  case (GNode i ts)
  note ids = GNode.prems(2)
  have forest: "set us \<subseteq> set ts \<Longrightarrow> \<forall>t \<in> set ts. fits look retained t \<Longrightarrow>
      visit_spec retained (concat (map gt_preorder us))
        (concat (map (gt_inputs look retained owner) us)) (concat (map gt_postorder us)) s
        (visit_forest look retained us owner s)" for us owner s
  proof (induction us arbitrary: s)
    case Nil
    then show ?case by (simp add: visit_spec_def visitable_def)
  next
    case (Cons u us)
    then show ?case using GNode.IH [of u] ids by (auto intro!: visit_spec_bind)
  qed
  show ?case
  proof (cases "i \<in> retained")
    case True
    with GNode.prems(1) show ?thesis
      by (simp add: visit_spec_def visitable_def visited_def)
  next
    case False
    with GNode.prems(1) obtain n where n: "look i = Some n" "nd_children n = map gt_id ts"
      and ts: "\<forall>t \<in> set ts. fits look retained t" by auto
    let ?owner = "child_owner n owner"
    let ?enter = "visited retained [i] (own_input n owner) [] s"
    have ids_n: "nd_id n = i" using n(1) ids by blast
    have enter: "visit_spec retained [i] (own_input n owner) [] s
        (if i \<in> wk_reached s then Err (CycleAt i)
         else case enter_owner n owner (s\<lparr>wk_visits := wk_visits s + 1\<rparr>) of
                Err e \<Rightarrow> Err e | Panic \<Rightarrow> Panic
              | Ok (owner', s') \<Rightarrow> Ok (s'\<lparr>wk_reached := insert i (wk_reached s)\<rparr>))"
      using ids_n
      by (auto simp: visit_spec_def visitable_def visited_def own_input_def enter_owner_eq split: option.splits)
    have "visit_tree look retained (GNode i ts) owner s =
        obind (obind (if i \<in> wk_reached s then Err (CycleAt i)
         else case enter_owner n owner (s\<lparr>wk_visits := wk_visits s + 1\<rparr>) of
                Err e \<Rightarrow> Err e | Panic \<Rightarrow> Panic
              | Ok (owner', s') \<Rightarrow> Ok (s'\<lparr>wk_reached := insert i (wk_reached s)\<rparr>))
          (visit_forest look retained ts ?owner))
          (\<lambda>s. Ok (s\<lparr>wk_postorder := wk_postorder s @ [i]\<rparr>))"
      using False n by (auto simp: enter_owner_eq split: option.splits)
    moreover have "visit_spec retained (([i] @ concat (map gt_preorder ts)) @ [])
        ((own_input n owner @ concat (map (gt_inputs look retained ?owner) ts)) @ [])
        (([] @ concat (map gt_postorder ts)) @ [i]) s \<dots>"
      by (intro visit_spec_bind enter forest ts)
        (use False in \<open>auto simp: visit_spec_def visitable_def visited_def\<close>)
    ultimately show ?thesis using False n by simp
  qed
qed

end
