(* ===== verification/FragmentAccept.thy ===== *)
theory FragmentAccept
  imports FragmentTree "HOL-Library.Multiset"
begin

text \<open>
  What validation accepts, stated without its traversals: the declarative predicate
  \<open>acceptable\<close> and the theorem that \<open>validate_fragment\<close> decides it without a panic.
\<close>

section \<open>Finding nodes\<close>

text \<open>The fresh node with an id, and the node a child's id names: fresh first, then mounted.\<close>

definition fresh_node :: "node list \<Rightarrow> u64 \<rightharpoonup> node" where
  "fresh_node nodes i = List.find (\<lambda>n. nd_id n = i) nodes"

definition found_node :: "node list \<Rightarrow> (u64 \<rightharpoonup> node) \<Rightarrow> u64 \<rightharpoonup> node" where
  "found_node nodes mounted i = (case fresh_node nodes i of Some n \<Rightarrow> Some n | None \<Rightarrow> mounted i)"

lemma fresh_node_id: "fresh_node nodes i = Some n \<Longrightarrow> nd_id n = i \<and> n \<in> set nodes"
  by (auto simp: fresh_node_def find_Some_iff)

lemma fresh_node_None: "fresh_node nodes i = None \<longleftrightarrow> i \<notin> nd_id ` set nodes"
  by (auto simp: fresh_node_def find_None_iff)

lemma fresh_node_distinct:
  "distinct (map nd_id nodes) \<Longrightarrow> n \<in> set nodes \<Longrightarrow> fresh_node nodes (nd_id n) = Some n"
  by (induction nodes) (auto simp: fresh_node_def)

section \<open>Indexing\<close>

lemma index_nodes_total: "index_nodes retained k ns ix \<noteq> Panic"
  by (induction ns arbitrary: k ix) simp_all

lemma index_nodes_Ok:
  "(\<exists>ix'. index_nodes retained k ns ix = Ok ix') \<longleftrightarrow>
     0 \<notin> nd_id ` set ns \<and> distinct (map nd_id ns) \<and>
     nd_id ` set ns \<inter> retained = {} \<and> nd_id ` set ns \<inter> dom ix = {}"
  by (induction ns arbitrary: k ix) (auto simp del: fun_upd_apply)

lemma index_nodes_value:
  "index_nodes retained k ns ix = Ok ix' \<Longrightarrow>
     ix' = ix ++ map_of (zip (map nd_id ns) [k..<k + length ns])"
proof (induction ns arbitrary: k ix)
  case Nil
  then show ?case by simp
next
  case (Cons n ns i indices)
  from Cons(2) have step: "index_nodes retained (Suc i) ns (indices(nd_id n \<mapsto> i)) = Ok ix'"
    and new: "nd_id n \<notin> retained" "indices (nd_id n) = None" "nd_id n \<noteq> 0"
    by (auto split: if_splits)
  from step have "nd_id n \<notin> nd_id ` set ns"
    using index_nodes_Ok [of retained "Suc i" ns "indices(nd_id n \<mapsto> i)"] by auto
  then have "nd_id n \<notin> dom (map_of (zip (map nd_id ns) [Suc i..<Suc (i + length ns)]))"
    by (subst dom_map_of_zip) (simp_all del: upt_Suc)
  then have upd: "indices(nd_id n \<mapsto> i) ++ map_of (zip (map nd_id ns) [Suc i..<Suc i + length ns]) =
      (indices ++ map_of (zip (map nd_id ns) [Suc i..<Suc i + length ns]))(nd_id n \<mapsto> i)"
    by (intro map_add_upd_left) simp
  have "zip (map nd_id (n # ns)) [i..<i + length (n # ns)] =
      (nd_id n, i) # zip (map nd_id ns) [Suc i..<Suc i + length ns]"
    by (simp add: upt_conv_Cons del: upt_Suc)
  then have "indices ++ map_of (zip (map nd_id (n # ns)) [i..<i + length (n # ns)]) =
      (indices ++ map_of (zip (map nd_id ns) [Suc i..<Suc i + length ns]))(nd_id n \<mapsto> i)"
    by (simp only: map_of.simps fst_conv snd_conv map_add_upd)
  with upd Cons(1) [OF step] show ?case by (simp only:)
qed

lemma node_at_fresh:
  assumes "index_nodes retained 0 nodes Map.empty = Ok ix"
  shows "node_at ix nodes = fresh_node nodes"
proof
  fix i
  have ix: "ix = map_of (zip (map nd_id nodes) [0..<length nodes])"
    using index_nodes_value [OF assms] by simp
  have dist: "distinct (map nd_id nodes)"
    using assms index_nodes_Ok [of retained 0 nodes Map.empty] by auto
  show "node_at ix nodes i = fresh_node nodes i"
  proof (cases "i \<in> nd_id ` set nodes")
    case True
    then obtain j where j: "j < length nodes" "nd_id (nodes ! j) = i"
      by (auto simp: in_set_conv_nth)
    then have "(i, j) \<in> set (zip (map nd_id nodes) [0..<length nodes])"
      by (auto simp: in_set_zip intro!: exI [of _ j])
    with dist have "ix i = Some j" by (simp add: ix map_of_eq_Some_iff map_fst_zip)
    moreover have "fresh_node nodes i = Some (nodes ! j)"
      using fresh_node_distinct [OF dist, of "nodes ! j"] j by simp
    ultimately show ?thesis using j by (simp add: node_at_def)
  next
    case False
    then have "i \<notin> dom ix" unfolding ix by (subst dom_map_of_zip) simp_all
    then have "ix i = None" by blast
    with False show ?thesis by (simp add: node_at_def fresh_node_None [THEN iffD2])
  qed
qed

lemma index_dom:
  "index_nodes retained 0 nodes Map.empty = Ok ix \<Longrightarrow> dom ix = nd_id ` set nodes"
  by (drule index_nodes_value) (simp add: dom_map_of_zip del: upt_Suc)

lemma index_lookup:
  assumes "index_nodes retained 0 nodes Map.empty = Ok ix"
  shows "lookup ix nodes mounted = (\<lambda>i. Ok (found_node nodes mounted i))"
proof
  fix i
  show "lookup ix nodes mounted i = Ok (found_node nodes mounted i)"
  proof (cases "ix i")
    case None
    then have "i \<notin> nd_id ` set nodes" using index_dom [OF assms] by auto
    with None show ?thesis
      by (simp add: lookup_def found_node_def fresh_node_None [THEN iffD2])
  next
    case (Some j)
    then have "i \<in> nd_id ` set nodes" using index_dom [OF assms] by auto
    then obtain n where n: "fresh_node nodes i = Some n"
      using fresh_node_None [of nodes i] by (cases "fresh_node nodes i") auto
    then have "node_at ix nodes i = Some n" using node_at_fresh [OF assms] by simp
    with Some n show ?thesis
      by (auto simp: lookup_def found_node_def node_at_def node_index_def split: if_splits)
  qed
qed

section \<open>Well-shaped nodes\<close>

definition item_key :: "node option \<Rightarrow> u64 option" where
  "item_key found = (case map_option nd_kind found of Some (VirtualItem key) \<Rightarrow> Some key | _ \<Rightarrow> None)"

definition provided_ok :: "provided_rows option \<Rightarrow> nat \<Rightarrow> bool" where
  "provided_ok rows children =
     (case rows of None \<Rightarrow> True
      | Some r \<Rightarrow> pr_instance r \<noteq> 0 \<and>
          unat (pr_first r) + unat (of_nat children :: u64) \<le> unat (pr_count r))"

fun well_shaped :: "(u64 \<rightharpoonup> node) \<Rightarrow> node_kind \<Rightarrow> u64 list \<Rightarrow> bool" where
  "well_shaped look (Text _) cs = (cs = [])"
| "well_shaped look (StyledText _ _ _ _ _ _ _) cs = (cs = [])"
| "well_shaped look (Checkbox _ _ _ _ _) cs = (cs = [])"
| "well_shaped look (Button _ _ _ _ _ _ _) cs = (cs = [])"
| "well_shaped look (Textarea _ _ _ _ _ _) cs = (cs = [])"
| "well_shaped look (Image _ _ _ _ _ _) cs = (cs = [])"
| "well_shaped look (Canvas _ _ _ _ _ _) cs = (cs = [])"
| "well_shaped look (TextInput label _ _ _ _) cs = (cs = [] \<and> label \<noteq> [])"
| "well_shaped look (Boundary _) cs = (length cs = 1)"
| "well_shaped look (Popover _ _ delay_ms _ _ _ _ _) cs = (cs \<noteq> [] \<and> delay_ms \<le> 60000)"
| "well_shaped look (Scroll _ _ _) cs = (length cs = 1)"
| "well_shaped look (Split _ _ _ extent lo hi _ _ _ _ _) cs =
     (length cs = 2 \<and> lo \<le> extent \<and> extent \<le> hi)"
| "well_shaped look (VirtualItem _) cs = (length cs = 1)"
| "well_shaped look (VirtualList _ row_height _ _ rows) cs =
     (1 \<le> row_height \<and> row_height \<le> 16384 \<and> provided_ok rows (length cs) \<and>
      (\<forall>c \<in> set cs. item_key (look c) \<noteq> None) \<and> distinct (map (\<lambda>c. item_key (look c)) cs))"
| "well_shaped look _ cs = True"

lemma provided_extent_ok:
  "(case rows of Some r \<Rightarrow> provided_extent_bad r k | None \<Rightarrow> False) \<longleftrightarrow> \<not> provided_ok rows k"
proof (cases rows)
  case (Some r)
  have bound: "unat (pr_count r) < 18446744073709551616"
    using unsigned_less [of "pr_count r"] by simp
  have "(case checked_add (pr_first r) (of_nat k) of None \<Rightarrow> True | Some bound \<Rightarrow> pr_count r < bound) \<longleftrightarrow>
      \<not> unat (pr_first r) + unat (of_nat k :: u64) \<le> unat (pr_count r)"
    using bound
    by (auto simp: checked_add_def word_less_nat_alt unat_word_ariths)
  with Some show ?thesis by (auto simp: provided_extent_bad_def provided_ok_def)
qed (simp add: provided_ok_def)

lemma virtual_keys_step:
  "virtual_keys_loop (\<lambda>i. Ok (f i)) l (c # cs) keys =
     (case item_key (f c) of
        None \<Rightarrow> Err (NonItemChild l)
      | Some key \<Rightarrow> if key \<in> keys then Err (DuplicateItemKey l key)
                    else virtual_keys_loop (\<lambda>i. Ok (f i)) l cs (insert key keys))"
proof (cases "f c")
  case (Some n)
  then show ?thesis by (cases "nd_kind n") (simp_all add: item_key_def)
qed (simp add: item_key_def)

lemma virtual_keys_loop_spec:
  "virtual_keys_loop (\<lambda>i. Ok (f i)) l cs keys \<noteq> Panic \<and>
   (virtual_keys_loop (\<lambda>i. Ok (f i)) l cs keys = Ok () \<longleftrightarrow>
     (\<forall>c \<in> set cs. item_key (f c) \<noteq> None) \<and> distinct (map (\<lambda>c. item_key (f c)) cs) \<and>
     (\<forall>c \<in> set cs. item_key (f c) \<notin> Some ` keys))"
proof (induction cs arbitrary: keys)
  case Nil
  then show ?case by simp
next
  case (Cons c cs)
  show ?case
  proof (cases "item_key (f c)")
    case None
    then show ?thesis by (simp only: virtual_keys_step) simp
  next
    case (Some key)
    show ?thesis using Cons [of "insert key keys"] Some
      by (simp only: virtual_keys_step) (auto intro: rev_image_eqI)
  qed
qed

lemma check_shape_total: "check_shape n (\<lambda>i. Ok (f i)) \<noteq> Panic"
  using virtual_keys_loop_spec [of f "nd_id n" "nd_children n" "{}"]
  by (cases "nd_kind n") (simp_all add: check_shape_def leaf_shape_def validate_virtual_keys_def Let_def)

definition named :: "node_kind \<Rightarrow> bool" where
  "named kind \<longleftrightarrow> input_label kind \<noteq> Some []"

lemma one_le_word: "(1 :: 'w::len word) \<le> x \<longleftrightarrow> x \<noteq> 0"
  by (simp add: word_le_nat_alt Suc_le_eq unat_gt_0)

lemma check_shape_Ok:
  "named (nd_kind n) \<Longrightarrow>
   check_shape n (\<lambda>i. Ok (f i)) = Ok () \<longleftrightarrow> well_shaped f (nd_kind n) (nd_children n)"
  using virtual_keys_loop_spec [of f "nd_id n" "nd_children n" "{}"]
  by (cases "nd_kind n")
    (auto simp: check_shape_def leaf_shape_def validate_virtual_keys_def Let_def provided_extent_ok named_def not_less one_le_word)

lemma well_shaped_named: "well_shaped f kind cs \<Longrightarrow> named kind"
  by (cases kind) (auto simp: named_def)


section \<open>The scan\<close>

lemma own_children_spec:
  "own_children ix retained p cs own \<noteq> Panic \<and>
   (own_children ix retained p cs own = Ok own' \<longleftrightarrow>
     set cs \<subseteq> dom ix \<union> retained \<and> distinct cs \<and> set cs \<inter> own = {} \<and> own' = own \<union> set cs)"
  by (induction cs arbitrary: own) auto

definition dialogs :: "node list \<Rightarrow> nat" where
  "dialogs nodes = length (filter (\<lambda>n. is_dialog (nd_kind n)) nodes)"

definition instances :: "node list \<Rightarrow> u64 list" where
  "instances nodes = List.map_filter (\<lambda>n. boundary_instance (nd_kind n)) nodes"

lemma unique_simps [simp]:
  "dialogs [] = 0"
  "dialogs (n # ns) = (if is_dialog (nd_kind n) then 1 else 0) + dialogs ns"
  "instances [] = []"
  "instances (n # ns) = (case boundary_instance (nd_kind n) of None \<Rightarrow> [] | Some i \<Rightarrow> [i]) @ instances ns"
  by (auto simp: dialogs_def instances_def map_filter_simps split: option.splits)

text \<open>What the uniqueness checks accept, and the scan's state after them.\<close>

definition unique_ok :: "node_kind \<Rightarrow> scan_state \<Rightarrow> bool" where
  "unique_ok kind s \<longleftrightarrow>
     (is_dialog kind \<longrightarrow> sc_dialogs s = 0) \<and> named kind \<and>
     (\<forall>i. boundary_instance kind = Some i \<longrightarrow> i \<notin> sc_instances s)"

definition unique_state :: "node_kind \<Rightarrow> scan_state \<Rightarrow> scan_state" where
  "unique_state kind s =
     s\<lparr>sc_dialogs := sc_dialogs s + (if is_dialog kind then 1 else 0),
       sc_instances := sc_instances s \<union> set_option (boundary_instance kind)\<rparr>"

lemma check_unique_spec:
  "check_unique kind s \<noteq> Panic \<and>
   (check_unique kind s = Ok s' \<longleftrightarrow> unique_ok kind s \<and> s' = unique_state kind s)"
  by (cases kind) (auto simp: check_unique_def unique_ok_def unique_state_def named_def)

definition scan_ok :: "(u64 \<rightharpoonup> node) \<Rightarrow> u64 set \<Rightarrow> node list \<Rightarrow> scan_state \<Rightarrow> bool" where
  "scan_ok found known ns s \<longleftrightarrow>
     (\<forall>n \<in> set ns. well_shaped found (nd_kind n) (nd_children n)) \<and>
     sc_dialogs s + dialogs ns \<le> max 1 (sc_dialogs s) \<and>
     distinct (instances ns) \<and> set (instances ns) \<inter> sc_instances s = {} \<and>
     set (concat (map nd_children ns)) \<subseteq> known \<and>
     distinct (concat (map nd_children ns)) \<and> set (concat (map nd_children ns)) \<inter> sc_ownership s = {}"

lemma scan_nodes_spec:
  "scan_nodes ix retained (\<lambda>i. Ok (f i)) ns s \<noteq> Panic \<and>
   ((\<exists>s'. scan_nodes ix retained (\<lambda>i. Ok (f i)) ns s = Ok s') \<longleftrightarrow> scan_ok f (dom ix \<union> retained) ns s) \<and>
   (\<forall>s'. scan_nodes ix retained (\<lambda>i. Ok (f i)) ns s = Ok s' \<longrightarrow>
     sc_ownership s' = sc_ownership s \<union> set (concat (map nd_children ns)) \<and>
     sc_visits s' = sc_visits s + of_nat (length ns))"
proof (induction ns arbitrary: s)
  case Nil
  then show ?case by (simp add: scan_ok_def)
next
  case (Cons n ns)
  let ?s = "s\<lparr>sc_visits := sc_visits s + 1\<rparr>"
  let ?own = "sc_ownership s \<union> set (nd_children n)"
  let ?s' = "(unique_state (nd_kind n) ?s)\<lparr>sc_ownership := ?own\<rparr>"
  have own: "sc_ownership (unique_state k t) = sc_ownership t" for k t
    by (simp add: unique_state_def)
  have shape: "check_shape n (\<lambda>i. Ok (f i)) \<noteq> Panic"
      "unique_ok (nd_kind n) ?s \<Longrightarrow> check_shape n (\<lambda>i. Ok (f i)) = Ok () \<longleftrightarrow>
         well_shaped f (nd_kind n) (nd_children n)"
    by (simp_all add: check_shape_total check_shape_Ok unique_ok_def)
  define ok where "ok \<longleftrightarrow> unique_ok (nd_kind n) ?s \<and> well_shaped f (nd_kind n) (nd_children n) \<and>
      set (nd_children n) \<subseteq> dom ix \<union> retained \<and> distinct (nd_children n) \<and>
      set (nd_children n) \<inter> sc_ownership s = {}"
  have step: "scan_nodes ix retained (\<lambda>i. Ok (f i)) (n # ns) s =
      scan_nodes ix retained (\<lambda>i. Ok (f i)) ns ?s'" if ok
    using that shape check_unique_spec [of "nd_kind n" ?s "unique_state (nd_kind n) ?s"]
      own_children_spec [of ix retained "nd_id n" "nd_children n" "sc_ownership s" ?own]
    by (simp add: ok_def own unique_state_def)
  have bad: "\<exists>e. scan_nodes ix retained (\<lambda>i. Ok (f i)) (n # ns) s = Err e" if "\<not> ok"
  proof (cases "scan_nodes ix retained (\<lambda>i. Ok (f i)) (n # ns) s")
    case (Ok s'')
    then have ok
      using shape check_unique_spec [of "nd_kind n" ?s] own_children_spec [of ix retained "nd_id n" "nd_children n"]
      by (auto simp: ok_def own)
    with that show ?thesis by simp
  next
    case Panic
    then have False
      using shape check_unique_spec [of "nd_kind n" ?s]
        own_children_spec [of ix retained "nd_id n" "nd_children n"] Cons
      by (auto simp: obind_eq_Panic)
    then show ?thesis ..
  qed simp
  let ?d = "if is_dialog (nd_kind n) then 1 else 0 :: nat"
  let ?b = "set_option (boundary_instance (nd_kind n))"
  have fields [simp]: "sc_dialogs ?s' = sc_dialogs s + ?d" "sc_instances ?s' = sc_instances s \<union> ?b"
      "sc_ownership ?s' = ?own" "unique_ok (nd_kind n) ?s \<longleftrightarrow> (?d = 0 \<or> sc_dialogs s = 0) \<and>
        named (nd_kind n) \<and> ?b \<inter> sc_instances s = {}"
    by (auto simp: unique_state_def unique_ok_def simp del: boundary_instance_Some split: option.splits)
  have dialog_iff: "(?d = 0 \<or> sc_dialogs s = 0) \<and>
      sc_dialogs s + ?d + dialogs ns \<le> max 1 (sc_dialogs s + ?d) \<longleftrightarrow>
      sc_dialogs s + (?d + dialogs ns) \<le> max 1 (sc_dialogs s)"
    by auto
  have instance_iff: "?b \<inter> sc_instances s = {} \<and> distinct (instances ns) \<and>
      set (instances ns) \<inter> (sc_instances s \<union> ?b) = {} \<longleftrightarrow>
      distinct (instances (n # ns)) \<and> set (instances (n # ns)) \<inter> sc_instances s = {}"
    by (cases "boundary_instance (nd_kind n)") (auto simp del: boundary_instance_Some)
  have child_iff: "distinct (nd_children n) \<and> set (nd_children n) \<inter> sc_ownership s = {} \<and>
      distinct (concat (map nd_children ns)) \<and> set (concat (map nd_children ns)) \<inter> ?own = {} \<longleftrightarrow>
      distinct (concat (map nd_children (n # ns))) \<and>
      set (concat (map nd_children (n # ns))) \<inter> sc_ownership s = {}"
    unfolding list.map concat.simps distinct_append set_append by blast
  have known_iff: "set (concat (map nd_children (n # ns))) \<subseteq> dom ix \<union> retained \<longleftrightarrow>
      set (nd_children n) \<subseteq> dom ix \<union> retained \<and> set (concat (map nd_children ns)) \<subseteq> dom ix \<union> retained"
    unfolding list.map concat.simps set_append by blast
  have shaped_iff: "(\<forall>m \<in> set (n # ns). well_shaped f (nd_kind m) (nd_children m)) \<longleftrightarrow>
      named (nd_kind n) \<and> well_shaped f (nd_kind n) (nd_children n) \<and>
      (\<forall>m \<in> set ns. well_shaped f (nd_kind m) (nd_children m))"
    using well_shaped_named [of f "nd_kind n" "nd_children n"] by auto
  have "scan_ok f (dom ix \<union> retained) (n # ns) s \<longleftrightarrow>
      (\<forall>m \<in> set (n # ns). well_shaped f (nd_kind m) (nd_children m)) \<and>
      sc_dialogs s + (?d + dialogs ns) \<le> max 1 (sc_dialogs s) \<and>
      (distinct (instances (n # ns)) \<and> set (instances (n # ns)) \<inter> sc_instances s = {}) \<and>
      set (concat (map nd_children (n # ns))) \<subseteq> dom ix \<union> retained \<and>
      (distinct (concat (map nd_children (n # ns))) \<and>
       set (concat (map nd_children (n # ns))) \<inter> sc_ownership s = {})"
    by (simp only: scan_ok_def unique_simps(2) conj_assoc)
  then have split: "scan_ok f (dom ix \<union> retained) (n # ns) s \<longleftrightarrow>
      ok \<and> scan_ok f (dom ix \<union> retained) ns ?s'"
    unfolding shaped_iff known_iff dialog_iff [symmetric] instance_iff [symmetric] child_iff [symmetric]
    by (simp only: scan_ok_def ok_def fields conj_ac)
  show ?case
  proof (cases ok)
    case True
    have visits: "sc_visits ?s' = sc_visits s + 1"
      by (simp add: unique_state_def)
    note IH = Cons [of ?s']
    have "sc_ownership s' = sc_ownership s \<union> set (concat (map nd_children (n # ns))) \<and>
        sc_visits s' = sc_visits s + of_nat (length (n # ns))"
      if "scan_nodes ix retained (\<lambda>i. Ok (f i)) ns ?s' = Ok s'" for s'
    proof -
      from IH that have s': "sc_ownership s' = ?own \<union> set (concat (map nd_children ns))"
        "sc_visits s' = sc_visits s + 1 + of_nat (length ns)"
        unfolding fields visits by blast+
      show ?thesis unfolding s' by (simp add: Un_assoc)
    qed
    moreover have "(\<exists>s'. scan_nodes ix retained (\<lambda>i. Ok (f i)) ns ?s' = Ok s') \<longleftrightarrow>
        scan_ok f (dom ix \<union> retained) (n # ns) s"
      using IH split True by blast
    moreover have "scan_nodes ix retained (\<lambda>i. Ok (f i)) ns ?s' \<noteq> Panic"
      using IH by blast
    ultimately show ?thesis
      unfolding step [OF True] by blast
  next
    case False
    then obtain e where e: "scan_nodes ix retained (\<lambda>i. Ok (f i)) (n # ns) s = Err e"
      using bad by blast
    show ?thesis unfolding e using False split by simp
  qed
qed


section \<open>The tree a fragment spells\<close>

fun gt_kids :: "gtree \<Rightarrow> u64 list" where
  "gt_kids (GNode i ts) = map gt_id ts @ concat (map gt_kids ts)"

lemma mset_gt_kids: "mset (gt_preorder t) = add_mset (gt_id t) (mset (gt_kids t))"
proof (induction t)
  case (GNode i ts)
  have "mset (concat (map gt_preorder us)) = mset (map gt_id us) + mset (concat (map gt_kids us))"
    if "set us \<subseteq> set ts" for us
    using that by (induction us) (auto simp: GNode.IH)
  from this [of ts] show ?case by simp
qed

text \<open>
  The children of a fitting tree, counted with multiplicity, are the children lists of the
  nodes at its ids.
\<close>

definition kids_at :: "(u64 \<rightharpoonup> node) \<Rightarrow> u64 set \<Rightarrow> u64 \<Rightarrow> u64 multiset" where
  "kids_at look retained i =
     (if i \<in> retained then {#} else case look i of None \<Rightarrow> {#} | Some n \<Rightarrow> mset (nd_children n))"

lemma gt_kids_at:
  "fits look retained t \<Longrightarrow>
     mset (gt_kids t) = \<Sum>\<^sub># (image_mset (kids_at look retained) (mset (gt_preorder t)))"
proof (induction t)
  case (GNode i ts)
  show ?case
  proof (cases "i \<in> retained")
    case True
    with GNode.prems show ?thesis by (simp add: kids_at_def)
  next
    case False
    with GNode.prems obtain n where n: "look i = Some n" "nd_children n = map gt_id ts"
      and ts: "\<forall>t \<in> set ts. fits look retained t" by auto
    have "mset (concat (map gt_kids us)) =
        \<Sum>\<^sub># (image_mset (kids_at look retained) (mset (concat (map gt_preorder us))))"
      if "set us \<subseteq> set ts" for us
      using that ts by (induction us) (auto simp: GNode.IH)
    moreover have "kids_at look retained i = mset (map gt_id ts)"
      using False n by (simp add: kids_at_def)
    ultimately show ?thesis by simp
  qed
qed

definition spells :: "u64 \<Rightarrow> node list \<Rightarrow> u64 set \<Rightarrow> gtree \<Rightarrow> bool" where
  "spells root nodes retained t \<longleftrightarrow>
     gt_id t = root \<and> fits (fresh_node nodes) retained t \<and> distinct (gt_preorder t) \<and>
     set (gt_preorder t) = nd_id ` set nodes \<union> retained"

lemma spelled_children:
  assumes "spells root nodes retained t" and "distinct (map nd_id nodes)"
    and "nd_id ` set nodes \<inter> retained = {}"
  shows "mset (gt_preorder t) = add_mset root (mset (concat (map nd_children nodes)))"
proof -
  have fin: "finite retained" by simp
  have pre: "mset (gt_preorder t) = mset (map nd_id nodes) + mset_set retained"
  proof (rule multiset_eqI)
    fix x
    show "count (mset (gt_preorder t)) x = count (mset (map nd_id nodes) + mset_set retained) x"
      using assms fin
      by (auto simp: spells_def distinct_count_atmost_1 count_mset_set' set_eq_iff)
  qed
  have fresh: "kids_at (fresh_node nodes) retained (nd_id n) = mset (nd_children n)" if "n \<in> set nodes" for n
    using that assms fresh_node_distinct [OF assms(2) that] by (auto simp: kids_at_def)
  have "\<Sum>\<^sub># (image_mset (kids_at (fresh_node nodes) retained) (mset (map nd_id ns))) =
      mset (concat (map nd_children ns))" if "set ns \<subseteq> set nodes" for ns
    using that fresh by (induction ns) auto
  moreover have "\<Sum>\<^sub># (image_mset (kids_at (fresh_node nodes) retained) (mset_set retained)) = {#}"
    using fin by (induction retained rule: finite_induct) (auto simp: kids_at_def)
  moreover have "mset (gt_kids t) =
      \<Sum>\<^sub># (image_mset (kids_at (fresh_node nodes) retained) (mset (gt_preorder t)))"
    using assms(1) by (intro gt_kids_at) (simp add: spells_def)
  ultimately have "mset (gt_kids t) = mset (concat (map nd_children nodes))"
    unfolding pre by simp
  with assms(1) show ?thesis by (simp add: mset_gt_kids spells_def)
qed

definition acceptable ::
  "u64 \<Rightarrow> node list \<Rightarrow> u64 set \<Rightarrow> u64 option \<Rightarrow> (u64 \<rightharpoonup> node) \<Rightarrow> bool" where
  "acceptable root nodes retained owner mounted \<longleftrightarrow>
     0 \<notin> insert root (nd_id ` set nodes) \<and>
     length nodes + card retained \<le> max_staged_nodes \<and>
     distinct (map nd_id nodes) \<and> nd_id ` set nodes \<inter> retained = {} \<and>
     (\<forall>n \<in> set nodes. well_shaped (found_node nodes mounted) (nd_kind n) (nd_children n)) \<and>
     dialogs nodes \<le> 1 \<and> distinct (instances nodes) \<and>
     (\<exists>t. spells root nodes retained t \<and>
          distinct (map snd (gt_inputs (fresh_node nodes) retained owner t)))"

text \<open>The results of a validation that met the tree \<open>t\<close>.\<close>

definition describes ::
  "node list \<Rightarrow> u64 set \<Rightarrow> u64 option \<Rightarrow> gtree \<Rightarrow> validated \<Rightarrow> bool" where
  "describes nodes retained owner t v \<longleftrightarrow>
     node_at (vf_indices v) nodes = fresh_node nodes \<and>
     vf_input_owners v =
       map_of (rev (map (\<lambda>(i, own, label). (i, own)) (gt_inputs (fresh_node nodes) retained owner t))) \<and>
     vf_postorder v = filter (\<lambda>i. i \<notin> retained) (gt_postorder t) \<and>
     vf_visits v = of_nat (2 * length nodes + card retained)"


section \<open>The decision\<close>

lemma walk_total:
  "\<forall>(i, leaving, owner) \<in> set pending. leaving \<or> i \<in> dom (node_at ix nodes) \<union> retained \<Longrightarrow>
   \<forall>n \<in> set nodes. set (nd_children n) \<subseteq> dom (node_at ix nodes) \<union> retained \<Longrightarrow>
   walk ix nodes retained pending s \<noteq> Panic"
proof (induction ix nodes retained pending s rule: walk.induct)
  case (3 ix nodes retained i owner pending s)
  show ?case
  proof (cases "i \<in> wk_reached s \<or> i \<in> retained")
    case True
    then show ?thesis using 3(1,3,4) by auto
  next
    case False
    with 3(3) obtain n where n: "node_at ix nodes i = Some n" by auto
    then have idx: "obind (expect (ix i)) (node_index nodes) = Ok n" by (simp add: node_at_index)
    from n have "n \<in> set nodes" by (auto simp: node_at_def split: option.splits if_splits)
    with 3(4) have kids: "set (nd_children n) \<subseteq> dom (node_at ix nodes) \<union> retained" by blast
    have items: "\<forall>(c, leaving, own) \<in> set (map (\<lambda>c. (c, False, owner')) (nd_children n) @ (i, True, owner') # pending).
        leaving \<or> c \<in> dom (node_at ix nodes) \<union> retained" for owner'
      using 3(3) kids by (auto simp: subset_iff)
    show ?thesis
    proof (cases "enter_owner n owner (s\<lparr>wk_visits := wk_visits s + 1\<rparr>)")
      case (Ok r)
      obtain owner' s' where r: "r = (owner', s')" by (cases r)
      have "walk ix nodes retained (map (\<lambda>c. (c, False, owner')) (nd_children n) @ (i, True, owner') # pending)
          (s'\<lparr>wk_reached := insert i (wk_reached s)\<rparr>) \<noteq> Panic"
        using False by (intro 3(2) [OF _ _ idx Ok [unfolded r] refl] items 3(4)) simp_all
      then show ?thesis using False idx Ok r by (simp del: obind_eq_Ok)
    qed (use False idx in \<open>auto simp: enter_owner_eq simp del: obind_eq_Ok split: option.splits if_splits\<close>)
  qed
qed auto

lemma fits_known:
  "fits look retained t \<Longrightarrow> gt_id t \<in> K \<Longrightarrow>
   (\<And>i n. look i = Some n \<Longrightarrow> set (nd_children n) \<subseteq> K) \<Longrightarrow> set (gt_preorder t) \<subseteq> K"
proof (induction t)
  case (GNode i ts)
  show ?case
  proof (cases "i \<in> retained")
    case False
    with GNode.prems obtain n where n: "look i = Some n" "nd_children n = map gt_id ts"
      and ts: "\<forall>t \<in> set ts. fits look retained t" by auto
    have "gt_id t \<in> K" if "t \<in> set ts" for t
      using GNode.prems(3) [OF n(1)] n(2) that by auto
    then show ?thesis using GNode ts by auto
  qed (use GNode.prems in simp)
qed

lemma walk_decides:
  assumes "fits (node_at ix nodes) retained t" and "\<And>i n. node_at ix nodes i = Some n \<Longrightarrow> nd_id n = i"
  shows "visit_spec retained (gt_preorder t) (gt_inputs (node_at ix nodes) retained owner t) (gt_postorder t) s
     (walk ix nodes retained [(gt_id t, False, owner)] s)"
proof -
  have "walk ix nodes retained [(gt_id t, False, owner)] s =
      obind (visit_tree (node_at ix nodes) retained t owner s) (walk ix nodes retained [])"
    by (rule walk_visit [OF assms(1)])
  also have "walk ix nodes retained [] = Ok" by (rule ext) simp
  also have "obind x Ok = x" for x :: "(fragment_error, walk_state) outcome" by (cases x) auto
  finally show ?thesis using visit_tree_spec [OF assms] by simp
qed

text \<open>The walk from the root, once the nodes are indexed and scanned.\<close>

definition scanned ::
  "node list \<Rightarrow> u64 set \<Rightarrow> (u64 \<rightharpoonup> node) \<Rightarrow> (u64 \<rightharpoonup> nat) \<Rightarrow> scan_state \<Rightarrow> bool" where
  "scanned nodes retained mounted ix s \<longleftrightarrow>
     index_nodes retained 0 nodes Map.empty = Ok ix \<and>
     scan_nodes ix retained (lookup ix nodes mounted) nodes scan_start = Ok s"

lemma scanned_facts:
  assumes "scanned nodes retained mounted ix s"
  shows "scan_ok (found_node nodes mounted) (nd_id ` set nodes \<union> retained) nodes scan_start"
    and "sc_ownership s = set (concat (map nd_children nodes))"
    and "sc_visits s = of_nat (length nodes)"
    and "node_at ix nodes = fresh_node nodes" and "dom ix = nd_id ` set nodes"
    and "distinct (map nd_id nodes)" and "nd_id ` set nodes \<inter> retained = {}"
    and "\<And>i n. fresh_node nodes i = Some n \<Longrightarrow> set (nd_children n) \<subseteq> nd_id ` set nodes \<union> retained"
proof -
  have ix: "index_nodes retained 0 nodes Map.empty = Ok ix"
    and scan: "scan_nodes ix retained (\<lambda>i. Ok (found_node nodes mounted i)) nodes scan_start = Ok s"
    using assms index_lookup [of retained nodes ix mounted] by (auto simp: scanned_def)
  note spec = scan_nodes_spec [of ix retained "found_node nodes mounted" nodes scan_start]
  show dom: "dom ix = nd_id ` set nodes" by (rule index_dom [OF ix])
  from scan have "\<exists>s'. scan_nodes ix retained (\<lambda>i. Ok (found_node nodes mounted i)) nodes scan_start = Ok s'"
    by blast
  with spec show ok: "scan_ok (found_node nodes mounted) (nd_id ` set nodes \<union> retained) nodes scan_start"
    unfolding dom by blast
  have start: "sc_ownership scan_start = {}" "sc_visits scan_start = 0"
    by (simp_all add: scan_start_def)
  from spec scan have "sc_ownership s = sc_ownership scan_start \<union> set (concat (map nd_children nodes)) \<and>
      sc_visits s = sc_visits scan_start + of_nat (length nodes)"
    by blast
  then show "sc_ownership s = set (concat (map nd_children nodes))" "sc_visits s = of_nat (length nodes)"
    unfolding start by simp_all
  show "node_at ix nodes = fresh_node nodes" by (rule node_at_fresh [OF ix])
  show "distinct (map nd_id nodes)" "nd_id ` set nodes \<inter> retained = {}"
    using ix index_nodes_Ok [of retained 0 nodes Map.empty] by auto
  fix i n assume "fresh_node nodes i = Some n"
  then have "n \<in> set nodes" by (rule fresh_node_id [THEN conjunct2])
  with ok show "set (nd_children n) \<subseteq> nd_id ` set nodes \<union> retained"
    by (auto simp: scan_ok_def)
qed

lemma scanned_walk:
  assumes "scanned nodes retained mounted ix s" and "root \<in> nd_id ` set nodes \<union> retained"
  defines "w0 \<equiv> walk_start\<lparr>wk_visits := sc_visits s\<rparr>"
  shows "walk ix nodes retained [(root, False, owner)] w0 \<noteq> Panic"
    and "walk ix nodes retained [(root, False, owner)] w0 = Ok w \<Longrightarrow>
      card (wk_reached w) = length nodes + card retained \<Longrightarrow>
      \<exists>t. spells root nodes retained t \<and> distinct (map snd (gt_inputs (fresh_node nodes) retained owner t)) \<and>
        w = visited retained (gt_preorder t) (gt_inputs (fresh_node nodes) retained owner t) (gt_postorder t) w0"
    and "spells root nodes retained t \<Longrightarrow>
      distinct (map snd (gt_inputs (fresh_node nodes) retained owner t)) \<Longrightarrow>
      \<exists>w. walk ix nodes retained [(root, False, owner)] w0 = Ok w \<and>
        card (wk_reached w) = length nodes + card retained"
proof -
  note facts = scanned_facts [OF assms(1)]
  have dom: "dom (fresh_node nodes) = nd_id ` set nodes"
    by (simp add: set_eq_iff domIff fresh_node_None)
  have w0: "wk_reached w0 = {}" "wk_labels w0 = {}"
    by (simp_all add: w0_def walk_start_def)
  have ids: "\<And>i n. node_at ix nodes i = Some n \<Longrightarrow> nd_id n = i"
    unfolding facts(4) using fresh_node_id by blast
  have size_eq: "card (nd_id ` set nodes \<union> retained) = length nodes + card retained"
    using facts(7) distinct_card [OF facts(6)] by (subst card_Un_disjoint) auto
  have "\<forall>n \<in> set nodes. set (nd_children n) \<subseteq> nd_id ` set nodes \<union> retained"
    using facts(1) by (auto simp: scan_ok_def)
  then show "walk ix nodes retained [(root, False, owner)] w0 \<noteq> Panic"
    using assms(2) by (intro walk_total) (simp_all add: facts(4) dom)
  show "\<exists>t. spells root nodes retained t \<and> distinct (map snd (gt_inputs (fresh_node nodes) retained owner t)) \<and>
        w = visited retained (gt_preorder t) (gt_inputs (fresh_node nodes) retained owner t) (gt_postorder t) w0"
    if ok: "walk ix nodes retained [(root, False, owner)] w0 = Ok w"
      and all: "card (wk_reached w) = length nodes + card retained"
  proof -
    from walk_fits [OF ok, of root owner] obtain t
      where t: "gt_id t = root" "fits (node_at ix nodes) retained t" by auto
    from walk_decides [OF t(2) ids, of owner w0] ok t(1)
    have vis: "visitable (gt_preorder t) (gt_inputs (node_at ix nodes) retained owner t) w0"
      and w: "w = visited retained (gt_preorder t) (gt_inputs (node_at ix nodes) retained owner t) (gt_postorder t) w0"
      by (auto simp: visit_spec_def split: if_splits)
    have "set (gt_preorder t) \<subseteq> nd_id ` set nodes \<union> retained"
      using fits_known [OF t(2), of "nd_id ` set nodes \<union> retained"] assms(2) t(1) facts(4,8) by auto
    moreover from w have "wk_reached w = set (gt_preorder t)" by (simp add: visited_def w0)
    ultimately have "set (gt_preorder t) = nd_id ` set nodes \<union> retained"
      using all size_eq by (intro card_subset_eq) auto
    then show ?thesis using t vis w by (auto simp: spells_def visitable_def facts(4))
  qed
  show "\<exists>w. walk ix nodes retained [(root, False, owner)] w0 = Ok w \<and>
        card (wk_reached w) = length nodes + card retained"
    if t: "spells root nodes retained t"
      and labels: "distinct (map snd (gt_inputs (fresh_node nodes) retained owner t))"
  proof -
    from t have fit: "fits (node_at ix nodes) retained t" "gt_id t = root"
      by (auto simp: spells_def facts(4))
    have "visitable (gt_preorder t) (gt_inputs (node_at ix nodes) retained owner t) w0"
      using t labels by (simp add: visitable_def spells_def w0 facts(4))
    with walk_decides [OF fit(1) ids, of owner w0] fit(2) obtain w where
      "walk ix nodes retained [(root, False, owner)] w0 = Ok w"
      "w = visited retained (gt_preorder t) (gt_inputs (node_at ix nodes) retained owner t) (gt_postorder t) w0"
      by (auto simp: visit_spec_def)
    then show ?thesis using t size_eq by (auto simp: visited_def w0 spells_def)
  qed
qed

lemma validate_fragment_total: "validate_fragment root nodes retained owner mounted \<noteq> Panic"
proof
  assume panic: "validate_fragment root nodes retained owner mounted = Panic"
  then obtain ix where ix: "index_nodes retained 0 nodes Map.empty = Ok ix"
    using index_nodes_total [of retained 0 nodes Map.empty]
    by (auto simp: validate_fragment_def obind_eq_Panic split: if_splits)
  note look = index_lookup [OF ix, of mounted]
  note dom = index_dom [OF ix]
  have "scan_nodes ix retained (lookup ix nodes mounted) nodes scan_start \<noteq> Panic"
    using scan_nodes_spec [of ix retained "found_node nodes mounted" nodes scan_start] look by simp
  with panic ix obtain s where
    s: "scan_nodes ix retained (lookup ix nodes mounted) nodes scan_start = Ok s"
    and root: "ix root \<noteq> None \<or> root \<in> retained"
    and w: "walk ix nodes retained [(root, False, owner)] (walk_start\<lparr>wk_visits := sc_visits s\<rparr>) = Panic"
    by (auto simp: validate_fragment_def obind_eq_Panic split: if_splits)
  have "scanned nodes retained mounted ix s" using ix s by (simp add: scanned_def)
  with scanned_walk(1) [OF this, of root owner] w root dom show False by auto
qed

lemma scan_ok_start:
  "scan_ok found known nodes scan_start \<longleftrightarrow>
     (\<forall>n \<in> set nodes. well_shaped found (nd_kind n) (nd_children n)) \<and> dialogs nodes \<le> 1 \<and>
     distinct (instances nodes) \<and>
     set (concat (map nd_children nodes)) \<subseteq> known \<and> distinct (concat (map nd_children nodes))"
  by (simp add: scan_ok_def scan_start_def)

lemma validate_fragment_sound:
  assumes "validate_fragment root nodes retained owner mounted = Ok v"
  shows "acceptable root nodes retained owner mounted \<and>
    (\<exists>t. spells root nodes retained t \<and> describes nodes retained owner t v)"
proof -
  from assms obtain ix s w where
    first: "root \<noteq> 0" "length nodes + card retained \<le> max_staged_nodes" and
    ix: "index_nodes retained 0 nodes Map.empty = Ok ix" and
    root: "ix root \<noteq> None \<or> root \<in> retained" and
    s: "scan_nodes ix retained (lookup ix nodes mounted) nodes scan_start = Ok s" and
    w: "walk ix nodes retained [(root, False, owner)] (walk_start\<lparr>wk_visits := sc_visits s\<rparr>) = Ok w" and
    all: "card (wk_reached w) = length nodes + card retained" and
    v: "v = \<lparr>vf_indices = ix, vf_input_owners = wk_owners w, vf_postorder = wk_postorder w, vf_visits = wk_visits w\<rparr>"
    by (auto simp: validate_fragment_def split: if_splits)
  have sc: "scanned nodes retained mounted ix s" using ix s by (simp add: scanned_def)
  note facts = scanned_facts [OF sc]
  have root': "root \<in> nd_id ` set nodes \<union> retained" using root facts(5) by auto
  from scanned_walk(2) [OF sc root' w all] obtain t where t: "spells root nodes retained t"
    and labels: "distinct (map snd (gt_inputs (fresh_node nodes) retained owner t))"
    and wt: "w = visited retained (gt_preorder t) (gt_inputs (fresh_node nodes) retained owner t)
        (gt_postorder t) (walk_start\<lparr>wk_visits := sc_visits s\<rparr>)"
    by blast
  have "0 \<notin> nd_id ` set nodes" using ix index_nodes_Ok [of retained 0 nodes Map.empty] by auto
  then have "acceptable root nodes retained owner mounted"
    using first facts(1,6,7) t labels by (auto simp: acceptable_def scan_ok_start)
  moreover have "card (set (gt_preorder t)) = length nodes + card retained"
    using all wt by (simp add: visited_def walk_start_def)
  then have "length (gt_preorder t) = length nodes + card retained"
    using t distinct_card [of "gt_preorder t"] by (simp add: spells_def)
  then have "describes nodes retained owner t v"
    using facts(3,4) by (simp add: describes_def v wt visited_def walk_start_def)
  ultimately show ?thesis using t by blast
qed

lemma validate_fragment_complete:
  assumes "acceptable root nodes retained owner mounted"
  shows "\<exists>v. validate_fragment root nodes retained owner mounted = Ok v"
proof -
  note acc = assms [unfolded acceptable_def]
  from acc obtain t where t: "spells root nodes retained t"
    and labels: "distinct (map snd (gt_inputs (fresh_node nodes) retained owner t))" by blast
  from acc obtain ix where ix: "index_nodes retained 0 nodes Map.empty = Ok ix"
    using index_nodes_Ok [of retained 0 nodes Map.empty] by auto
  note dom = index_dom [OF ix]
  have kids: "mset (gt_preorder t) = add_mset root (mset (concat (map nd_children nodes)))"
    using spelled_children [OF t] acc by blast
  have "distinct (root # concat (map nd_children nodes))"
    using t kids mset_eq_imp_distinct_iff [of "gt_preorder t" "root # concat (map nd_children nodes)"]
    by (simp add: spells_def)
  then have alone: "distinct (concat (map nd_children nodes))" "root \<notin> set (concat (map nd_children nodes))"
    by simp_all
  have "set_mset (mset (gt_preorder t)) = insert root (set (concat (map nd_children nodes)))"
    unfolding kids by simp
  then have inside: "set (concat (map nd_children nodes)) \<subseteq> nd_id ` set nodes \<union> retained"
    "root \<in> nd_id ` set nodes \<union> retained"
    using t by (auto simp: spells_def)
  have "scan_ok (found_node nodes mounted) (nd_id ` set nodes \<union> retained) nodes scan_start"
    using acc alone(1) inside(1) by (simp add: scan_ok_start)
  then obtain s where s: "scan_nodes ix retained (lookup ix nodes mounted) nodes scan_start = Ok s"
    using scan_nodes_spec [of ix retained "found_node nodes mounted" nodes scan_start] dom
      index_lookup [OF ix, of mounted] by auto
  have sc: "scanned nodes retained mounted ix s" using ix s by (simp add: scanned_def)
  from scanned_walk(3) [OF sc inside(2) t labels] obtain w where
    "walk ix nodes retained [(root, False, owner)] (walk_start\<lparr>wk_visits := sc_visits s\<rparr>) = Ok w"
    "card (wk_reached w) = length nodes + card retained" by blast
  moreover have "root \<notin> sc_ownership s" using alone scanned_facts(2) [OF sc] by simp
  moreover have "ix root \<noteq> None \<or> root \<in> retained" using inside(2) dom by auto
  ultimately show ?thesis using acc ix s by (simp add: validate_fragment_def)
qed

section \<open>Order of staging\<close>

lemma fresh_node_mset:
  assumes "mset nodes = mset nodes'" and "distinct (map nd_id nodes)"
  shows "fresh_node nodes' = fresh_node nodes"
proof
  fix i
  have same: "set nodes' = set nodes" using mset_eq_setD [OF assms(1)] by simp
  have dist: "distinct (map nd_id nodes')"
    using assms mset_eq_imp_distinct_iff [of "map nd_id nodes" "map nd_id nodes'"] by simp
  show "fresh_node nodes' i = fresh_node nodes i"
  proof (cases "fresh_node nodes i")
    case None
    then show ?thesis using fresh_node_None [of nodes i] fresh_node_None [of nodes' i] same by simp
  next
    case (Some n)
    then have "nd_id n = i" "n \<in> set nodes'" using fresh_node_id [OF Some] same by auto
    then show ?thesis using fresh_node_distinct [OF dist, of n] Some by simp
  qed
qed

lemma dialogs_mset: "dialogs nodes = size (filter_mset (\<lambda>n. is_dialog (nd_kind n)) (mset nodes))"
  by (simp add: dialogs_def flip: mset_filter)

lemma instances_mset: "mset (instances nodes) =
    \<Sum>\<^sub># (image_mset (\<lambda>n. mset_set (set_option (boundary_instance (nd_kind n)))) (mset nodes))"
  by (induction nodes) (auto split: option.splits simp del: boundary_instance_Some)

lemma acceptable_mset:
  assumes "mset nodes = mset nodes'" and "acceptable root nodes retained owner mounted"
  shows "acceptable root nodes' retained owner mounted"
proof -
  note acc = assms(2) [unfolded acceptable_def]
  have same: "set nodes' = set nodes" "length nodes' = length nodes"
    using mset_eq_setD [OF assms(1)] mset_eq_length [OF assms(1)] by simp_all
  have fresh: "fresh_node nodes' = fresh_node nodes" using fresh_node_mset [OF assms(1)] acc by blast
  have found: "found_node nodes' mounted = found_node nodes mounted"
    by (rule ext) (simp add: found_node_def fresh)
  have "dialogs nodes' = dialogs nodes"
    using assms(1) by (simp add: dialogs_mset)
  moreover have "distinct (instances nodes') \<longleftrightarrow> distinct (instances nodes)"
    using assms(1) by (intro mset_eq_imp_distinct_iff) (simp add: instances_mset)
  moreover have "distinct (map nd_id nodes') \<longleftrightarrow> distinct (map nd_id nodes)"
    using assms(1) by (intro mset_eq_imp_distinct_iff) simp
  moreover have "spells root nodes' retained t \<longleftrightarrow> spells root nodes retained t" for t
    by (simp only: spells_def same fresh)
  ultimately have "acceptable root nodes' retained owner mounted \<longleftrightarrow> acceptable root nodes retained owner mounted"
    by (simp only: acceptable_def same fresh found)
  with assms(2) show ?thesis by simp
qed

section \<open>Properties\<close>

text \<open>
  Claim C7: validation never panics, and it returns a validated fragment exactly when the
  staged nodes are acceptable: nonzero distinct ids within the size limit, well-shaped nodes,
  at most one dialog, distinct component instances, and one tree from the root through every
  staged node and retained root whose text inputs are named apart within their component.
\<close>

theorem validation_decides_acceptable:
  "validate_fragment root nodes retained owner mounted \<noteq> Panic \<and>
   ((\<exists>v. validate_fragment root nodes retained owner mounted = Ok v) \<longleftrightarrow>
      acceptable root nodes retained owner mounted)"
  using validate_fragment_total validate_fragment_sound validate_fragment_complete by blast

text \<open>
  An accepted fragment spells one tree, and the results describe it: the indices find
  the staged nodes, the postorder lists the fresh nodes children first, the input owners are the
  nearest enclosing component instances, and every node is visited twice, a retained root once.
\<close>

theorem validation_describes_tree:
  assumes "validate_fragment root nodes retained owner mounted = Ok v"
  shows "\<exists>t. spells root nodes retained t \<and> describes nodes retained owner t v"
  using validate_fragment_sound [OF assms] by blast

definition sample_nodes :: "node list" where
  "sample_nodes =
     [\<lparr>nd_id = 3, nd_kind = TextInput ''name'' [] [] True style_default, nd_children = []\<rparr>,
      \<lparr>nd_id = 2, nd_kind = Column [] style_default, nd_children = [3, 9]\<rparr>,
      \<lparr>nd_id = 1, nd_kind = Boundary 7, nd_children = [2]\<rparr>]"

lemma sample_validates:
  "validate_fragment 1 sample_nodes {9} None Map.empty =
     Ok \<lparr>vf_indices = [3 \<mapsto> 0, 2 \<mapsto> 1, 1 \<mapsto> 2], vf_input_owners = [3 \<mapsto> Some 7],
         vf_postorder = [3, 2, 1], vf_visits = 7\<rparr>"
  by (simp add: validate_fragment_def sample_nodes_def max_staged_nodes_def scan_start_def walk_start_def
      check_unique_def check_shape_def leaf_shape_def node_index_def enter_owner_def,
      simp only: numeral_2_eq_2 One_nat_def)

lemma validation_describes_tree_witness:
  "\<exists>t. spells 1 sample_nodes {9} t \<and>
     describes sample_nodes {9} None t
       \<lparr>vf_indices = [3 \<mapsto> 0, 2 \<mapsto> 1, 1 \<mapsto> 2], vf_input_owners = [3 \<mapsto> Some 7],
        vf_postorder = [3, 2, 1], vf_visits = 7\<rparr>"
  by (rule validation_describes_tree [OF sample_validates])

text \<open>
  The order in which the nodes were staged does not matter: two stagings with the same
  nodes are both accepted or both refused.
\<close>

theorem validation_ignores_order:
  assumes "mset nodes = mset nodes'"
  shows "(\<exists>v. validate_fragment root nodes retained owner mounted = Ok v) \<longleftrightarrow>
    (\<exists>v. validate_fragment root nodes' retained owner mounted = Ok v)"
  using acceptable_mset [OF assms] acceptable_mset [OF assms [symmetric]]
    validate_fragment_sound validate_fragment_complete by meson

lemma validation_ignores_order_witness:
  "\<exists>v. validate_fragment 1 (rev sample_nodes) {9} None Map.empty = Ok v"
  using validation_ignores_order [of sample_nodes "rev sample_nodes" 1 "{9}" None Map.empty]
    sample_validates by simp

end
