(* ===== verification/StagingOrder.thy ===== *)
theory StagingOrder
  imports Staging FragmentAccept
begin

text \<open>
  What staging guarantees of a patch: its fresh nodes have new consecutive ids, a node's children
  were staged before it or are retained, and retained roots were issued before any fresh node.
\<close>

section \<open>Ordered fragments\<close>

definition ordered_nodes :: "u64 set \<Rightarrow> node list \<Rightarrow> bool" where
  "ordered_nodes retained ns \<longleftrightarrow>
     (\<forall>k < length ns. set (nd_children (ns ! k)) \<subseteq> retained \<union> set (map nd_id (take k ns)))"

lemma ordered_nodes_Nil [simp]: "ordered_nodes retained []"
  by (simp add: ordered_nodes_def)

lemma ordered_nodes_snoc:
  "ordered_nodes retained (ns @ [n]) \<longleftrightarrow>
     ordered_nodes retained ns \<and> set (nd_children n) \<subseteq> retained \<union> set (map nd_id ns)"
  by (simp add: ordered_nodes_def less_Suc_eq nth_append all_conj_distrib imp_conjR disj_imp)

lemma ordered_nodes_mono: "ordered_nodes retained ns \<Longrightarrow> retained \<subseteq> retained' \<Longrightarrow> ordered_nodes retained' ns"
  by (auto simp: ordered_nodes_def)

lemma ordered_nodes_kind:
  assumes "ordered_nodes retained ns" and "map nd_id ns' = map nd_id ns"
    and "map nd_children ns' = map nd_children ns"
  shows "ordered_nodes retained ns'"
proof -
  have len: "length ns' = length ns" using assms(2) map_eq_imp_length_eq by blast
  have "nd_children (ns' ! k) = nd_children (ns ! k)" if "k < length ns" for k
    using that assms(3) len by (metis nth_map)
  moreover have "map nd_id (take k ns') = map nd_id (take k ns)" for k
    using assms(2) by (metis take_map)
  ultimately show ?thesis using assms(1) len by (simp add: ordered_nodes_def)
qed

text \<open>Consecutive ids ending before the next one.\<close>

definition consecutive :: "nat \<Rightarrow> node list \<Rightarrow> bool" where
  "consecutive next_id ns \<longleftrightarrow>
     length ns < next_id \<and> map (\<lambda>n. unat (nd_id n)) ns = [next_id - length ns..<next_id]"

definition staged_fragment :: "node list \<Rightarrow> u64 list \<Rightarrow> bool" where
  "staged_fragment ns retained \<longleftrightarrow>
     (\<exists>next_id. consecutive next_id ns \<and> (\<forall>r \<in> set retained. r \<noteq> 0 \<and> unat r < next_id - length ns)) \<and>
     distinct retained \<and> ordered_nodes (set retained) ns \<and> length ns + length retained \<le> max_staged_nodes"

fun operation_nodes :: "keyed_graph_operation \<Rightarrow> node list" where
  "operation_nodes (GraphInsert _ _ _ nodes) = nodes"
| "operation_nodes (GraphSet _ _ nodes) = nodes"
| "operation_nodes _ = []"

fun patch_fragments :: "patch \<Rightarrow> (node list \<times> u64 list) list" where
  "patch_fragments (PatchMount _ nodes) = [(nodes, [])]"
| "patch_fragments PatchNoChange = []"
| "patch_fragments (PatchReplace _ _ nodes) = [(nodes, [])]"
| "patch_fragments (PatchReplaceRetaining _ _ nodes retained) = [(nodes, retained)]"
| "patch_fragments (PatchKeyed _ _ _ operations) = map (\<lambda>op. (operation_nodes op, [])) operations"

section \<open>The invariant\<close>

definition lookup_roots :: "bridge \<Rightarrow> u64 set" where
  "lookup_roots b = (case br_retained_lookup b of None \<Rightarrow> {} | Some roots \<Rightarrow> roots)"

definition bridge_ok :: "bridge \<Rightarrow> bool" where
  "bridge_ok b \<longleftrightarrow>
     consecutive (unat (br_next_node_id b)) (br_staged b) \<and>
     unat (br_next_node_id b) < 2 ^ 61 \<and>
     lookup_roots b = set (br_retained_roots b) \<and> distinct (br_retained_roots b) \<and>
     (\<forall>r \<in> set (br_retained_roots b). r \<noteq> 0 \<and> unat r < unat (br_next_node_id b) - length (br_staged b)) \<and>
     ordered_nodes (set (br_retained_roots b)) (br_staged b) \<and>
     length (br_staged b) + length (br_retained_roots b) \<le> max_staged_nodes \<and>
     (\<forall>edit. br_keyed_edit b = Some edit \<longrightarrow> br_retained_roots b = [] \<and>
        (\<forall>op \<in> set (ke_operations edit). staged_fragment (operation_nodes op) [])) \<and>
     (\<forall>p. br_pending b = Some p \<longrightarrow> (\<forall>(nodes, retained) \<in> set (patch_fragments p). staged_fragment nodes retained))"

lemma bridge_ok_new: "bridge_ok bridge_new"
  by (simp add: bridge_ok_def bridge_new_def consecutive_def lookup_roots_def)

lemma bridge_ok_fragment:
  "bridge_ok b \<Longrightarrow> staged_fragment (br_staged b) (br_retained_roots b)"
  by (auto simp: bridge_ok_def staged_fragment_def)

lemma staged_fragment_Nil [simp]: "staged_fragment [] []"
  by (auto simp: staged_fragment_def consecutive_def max_staged_nodes_def intro: exI [of _ 1])

lemma unat_event_bit: "unat hover_exit_event_bit = 2 ^ 61"
  by (simp add: hover_exit_event_bit_def)

text \<open>Builders and the registry have no part in the invariant.\<close>

lemma bridge_ok_frame:
  assumes "bridge_ok b" and "br_next_node_id b' = br_next_node_id b" "br_staged b' = br_staged b"
    "br_retained_roots b' = br_retained_roots b" "br_retained_lookup b' = br_retained_lookup b"
    "br_keyed_edit b' = br_keyed_edit b" "br_pending b' = br_pending b"
  shows "bridge_ok b'"
  using assms by (simp add: bridge_ok_def lookup_roots_def)

lemma begin_keyed_edit_ok: "bridge_ok b \<Longrightarrow> bridge_ok (snd (begin_keyed_edit c r n b))"
  by (auto simp: begin_keyed_edit_def bridge_ok_def lookup_roots_def)

lemma consecutive_ids:
  assumes "consecutive next_id ns" and "n \<in> set ns"
  shows "next_id - length ns \<le> unat (nd_id n)" "unat (nd_id n) < next_id" "nd_id n \<noteq> 0"
proof -
  from assms have "unat (nd_id n) \<in> set [next_id - length ns..<next_id]"
    by (metis consecutive_def image_eqI list.set_map)
  then show "next_id - length ns \<le> unat (nd_id n)" "unat (nd_id n) < next_id" by auto
  with assms(1) show "nd_id n \<noteq> 0" by (auto simp: consecutive_def)
qed

lemma consecutive_distinct: "consecutive next_id ns \<Longrightarrow> distinct (map nd_id ns)"
proof -
  assume "consecutive next_id ns"
  then have "distinct (map unat (map nd_id ns))" by (simp add: consecutive_def comp_def)
  then show ?thesis by (rule distinct_map [THEN iffD1, THEN conjunct1])
qed

text \<open>The ids between the first staged one and the next are the staged ones.\<close>

lemma consecutive_between:
  assumes "consecutive next_id ns" and "ns = n # rest" and "nd_id n \<le> c" and "unat c < next_id"
  shows "c \<in> nd_id ` set ns"
proof -
  have len: "length ns \<le> next_id" using assms(1) by (simp add: consecutive_def)
  have "map (\<lambda>n. unat (nd_id n)) ns ! 0 = [next_id - length ns..<next_id] ! 0"
    using assms(1) by (simp only: consecutive_def)
  moreover have "next_id - length ns < next_id" using assms(1,2) by (simp add: consecutive_def)
  ultimately have "unat (nd_id n) = next_id - length ns" using assms(2) by simp
  then have "unat c \<in> set [next_id - length ns..<next_id]" using assms(3,4) by (simp add: word_le_nat_alt)
  then have "unat c \<in> set (map (\<lambda>n. unat (nd_id n)) ns)" using assms(1) by (simp only: consecutive_def)
  then show ?thesis by (auto simp: word_unat_eq_iff)
qed

lemma consecutive_snoc:
  assumes "consecutive next_id ns" and "unat (nd_id n) = next_id"
  shows "consecutive (Suc next_id) (ns @ [n])"
  using assms by (simp add: consecutive_def Suc_diff_le)

section \<open>Every operation keeps it\<close>

lemma child_known_ok:
  assumes "bridge_ok b" and "child_known b c"
  shows "c \<in> set (br_retained_roots b) \<union> set (map nd_id (br_staged b))"
proof (cases "c \<in> lookup_roots b")
  case True
  with assms(1) show ?thesis by (simp add: bridge_ok_def)
next
  case False
  with assms(2) obtain n rest where n: "br_staged b = n # rest" "nd_id n \<le> c" "c < br_next_node_id b"
    by (auto simp: child_known_def lookup_roots_def split: list.splits option.splits)
  have "c \<in> nd_id ` set (br_staged b)"
    by (rule consecutive_between [OF _ n(1,2)]) (use assms(1) n(3) in \<open>auto simp: bridge_ok_def word_less_nat_alt\<close>)
  then show ?thesis by simp
qed

lemma stage_node_cases:
  "stage_node kind children b = (r, b') \<Longrightarrow>
   b' = b \<and> (\<exists>e. r = Err e) \<or>
   r = Ok (br_next_node_id b) \<and> (\<forall>c \<in> set children. child_known b c) \<and> br_pending b = None \<and>
   length (br_staged b) + length (br_retained_roots b) < max_staged_nodes \<and>
   (\<exists>after. unat after = unat (br_next_node_id b) + 1 \<and> unat after < 2 ^ 61 \<and>
     b' = b\<lparr>br_next_node_id := after,
        br_staged := br_staged b @ [\<lparr>nd_id = br_next_node_id b, nd_kind = kind, nd_children = children\<rparr>]\<rparr>)"
  using unat_event_bit
  by (auto simp: stage_node_def find_None_iff word_less_nat_alt dest!: checked_add_SomeD split: if_splits option.splits)

lemma stage_node_ok: "bridge_ok b \<Longrightarrow> bridge_ok (snd (stage_node kind children b))"
proof -
  assume ok: "bridge_ok b"
  obtain r b' where e: "stage_node kind children b = (r, b')" by fastforce
  from stage_node_cases [OF e] show ?thesis
  proof (elim disjE conjE exE)
    fix after
    assume known: "\<forall>c \<in> set children. child_known b c" and pending: "br_pending b = None"
      and len: "length (br_staged b) + length (br_retained_roots b) < max_staged_nodes"
      and after: "unat after = unat (br_next_node_id b) + 1" "unat after < 2 ^ 61"
      and b': "b' = b\<lparr>br_next_node_id := after,
        br_staged := br_staged b @ [\<lparr>nd_id = br_next_node_id b, nd_kind = kind, nd_children = children\<rparr>]\<rparr>"
    have "set children \<subseteq> set (br_retained_roots b) \<union> set (map nd_id (br_staged b))"
      using known child_known_ok [OF ok] by blast
    moreover have "consecutive (unat after) (br_staged b @ [\<lparr>nd_id = br_next_node_id b, nd_kind = kind, nd_children = children\<rparr>])"
      unfolding after(1) Suc_eq_plus1 [symmetric]
      by (rule consecutive_snoc) (use ok in \<open>simp_all add: bridge_ok_def\<close>)
    ultimately show ?thesis
      using ok pending len after by (auto simp: e b' bridge_ok_def ordered_nodes_snoc lookup_roots_def)
  qed (use ok e in auto)
qed

lemma take_staged_ok:
  assumes "bridge_ok b" and "br_retained_roots b = []"
  shows "bridge_ok (b\<lparr>br_staged := []\<rparr>)"
  using assms by (auto simp: bridge_ok_def lookup_roots_def consecutive_def)

lemma push_operation_ok:
  assumes "bridge_ok b" and "staged_fragment (operation_nodes op) []"
  shows "bridge_ok (snd (push_keyed_operation op b))"
  using assms by (auto simp: push_keyed_operation_def bridge_ok_def lookup_roots_def split: option.splits)

lemma keyed_fragment_cases:
  "bridge_ok b \<Longrightarrow> keyed_fragment root b = (r, b') \<Longrightarrow>
   b' = b \<and> (\<exists>e. r = Err e) \<or>
   r = Ok (br_staged b) \<and> b' = b\<lparr>br_staged := []\<rparr> \<and> br_retained_roots b = [] \<and> staged_fragment (br_staged b) []"
  using bridge_ok_fragment [of b]
  by (auto simp: keyed_fragment_def bridge_ok_def split: if_splits)

lemma keyed_insert_before_ok: "bridge_ok b \<Longrightarrow> bridge_ok (snd (keyed_insert_before key before root b))"
proof -
  assume ok: "bridge_ok b"
  obtain r b' where e: "keyed_fragment root b = (r, b')" by fastforce
  from keyed_fragment_cases [OF ok e] show ?thesis
    using ok e by (auto simp: keyed_insert_before_def intro!: push_operation_ok take_staged_ok)
qed

lemma keyed_set_ok: "bridge_ok b \<Longrightarrow> bridge_ok (snd (keyed_set key root b))"
proof -
  assume ok: "bridge_ok b"
  obtain r b' where e: "keyed_fragment root b = (r, b')" by fastforce
  from keyed_fragment_cases [OF ok e] show ?thesis
    using ok e by (auto simp: keyed_set_def intro!: push_operation_ok take_staged_ok)
qed

lemma keyed_order_ok:
  "bridge_ok b \<Longrightarrow> bridge_ok (snd (keyed_remove key b))"
  "bridge_ok b \<Longrightarrow> bridge_ok (snd (keyed_move_before key before b))"
  by (auto simp: keyed_remove_def keyed_move_before_def keyed_order_only_def intro!: push_operation_ok)

lemma finish_components_frame:
  "finish_components b = (r, b') \<Longrightarrow> \<exists>components. b' = b\<lparr>br_components := components\<rparr>"
  by (cases b) (auto simp: finish_components_def split: option.splits prod.splits outcome.splits)

lemma bridge_ok_components [simp]: "bridge_ok (b\<lparr>br_components := c\<rparr>) \<longleftrightarrow> bridge_ok b"
  by (simp add: bridge_ok_def lookup_roots_def)

lemma commit_keyed_edit_ok: "bridge_ok b \<Longrightarrow> bridge_ok (snd (commit_keyed_edit b))"
proof -
  assume ok: "bridge_ok b"
  obtain r b1 where e: "finish_components b = (r, b1)" by fastforce
  then obtain c where b1: "b1 = b\<lparr>br_components := c\<rparr>" using finish_components_frame by blast
  have "bridge_ok (b\<lparr>br_components := c, br_keyed_edit := None, br_pending := Some (PatchKeyed k base new (ke_operations edit))\<rparr>)"
    if "br_keyed_edit b = Some edit" for edit k base new
    using ok that by (auto simp: bridge_ok_def lookup_roots_def)
  then show ?thesis
    using ok e b1 by (auto simp: commit_keyed_edit_def split: outcome.splits option.splits)
qed

lemma builders_ok:
  "bridge_ok b \<Longrightarrow> bridge_ok (snd (begin_children b))"
  "bridge_ok b \<Longrightarrow> bridge_ok (snd (push_child i c b))"
  "bridge_ok b \<Longrightarrow> bridge_ok (snd (finish_children i b))"
  by (rule bridge_ok_frame [of b];
      auto simp: begin_children_def push_child_def finish_children_def split: option.splits list.splits)+

lemma first_staged:
  assumes "bridge_ok b"
  shows "unat (case br_staged b of [] \<Rightarrow> br_next_node_id b | n # _ \<Rightarrow> nd_id n) =
    unat (br_next_node_id b) - length (br_staged b)"
proof (cases "br_staged b")
  case (Cons n rest)
  have c: "consecutive (unat (br_next_node_id b)) (br_staged b)" using assms by (simp add: bridge_ok_def)
  then have "map (\<lambda>n. unat (nd_id n)) (br_staged b) ! 0 =
      [unat (br_next_node_id b) - length (br_staged b)..<unat (br_next_node_id b)] ! 0"
    by (simp only: consecutive_def)
  moreover have "unat (br_next_node_id b) - length (br_staged b) < unat (br_next_node_id b)"
    using c Cons by (simp add: consecutive_def)
  ultimately show ?thesis using Cons by simp
qed simp

lemma retain_subtree_ok: "bridge_ok b \<Longrightarrow> bridge_ok (snd (retain_subtree root b))"
proof -
  assume ok: "bridge_ok b"
  let ?r = "b\<lparr>br_retained_lookup := Some (insert root (lookup_roots b)),
              br_retained_roots := br_retained_roots b @ [root]\<rparr>"
  have same: "bridge_ok (b\<lparr>br_retained_lookup := Some (lookup_roots b)\<rparr>)"
    using ok by (simp add: bridge_ok_def lookup_roots_def)
  have "bridge_ok ?r"
    if new: "root \<notin> lookup_roots b" and root: "root \<noteq> 0"
      "root < (case br_staged b of [] \<Rightarrow> br_next_node_id b | n # _ \<Rightarrow> nd_id n)"
      and free: "br_pending b = None" "br_keyed_edit b = None"
      and len: "length (br_retained_roots b) + length (br_staged b) < max_staged_nodes"
  proof -
    have "unat root < unat (br_next_node_id b) - length (br_staged b)"
      using root(2) first_staged [OF ok] by (simp add: word_less_nat_alt)
    moreover have "ordered_nodes (set (br_retained_roots b @ [root])) (br_staged b)"
      by (rule ordered_nodes_mono [of "set (br_retained_roots b)"]) (use ok in \<open>auto simp: bridge_ok_def\<close>)
    ultimately show ?thesis
      using ok new root(1) free len by (auto simp: bridge_ok_def lookup_roots_def)
  qed
  then show ?thesis
    using ok same unfolding retain_subtree_def Let_def lookup_roots_def [symmetric]
    by (auto simp: not_le)
qed

lemma commit_patch_ok:
  assumes ok: "bridge_ok b" and free: "br_keyed_edit b = None" and e: "commit_patch request b = (r, b')"
  shows "bridge_ok b' \<and> br_keyed_edit b' = None \<and>
    (\<forall>p. r = Ok p \<longrightarrow> (\<forall>(nodes, retained) \<in> set (patch_fragments p). staged_fragment nodes retained))"
proof -
  have reset: "bridge_ok (b\<lparr>br_staged := [], br_retained_lookup := None, br_retained_roots := []\<rparr>)"
    using ok free by (auto simp: bridge_ok_def lookup_roots_def consecutive_def)
  show ?thesis
    using e ok free reset take_staged_ok [OF ok] bridge_ok_fragment [OF ok]
    by (cases request) (auto simp: commit_patch_def split: if_splits)
qed

lemma bridge_commit_ok: "bridge_ok b \<Longrightarrow> bridge_ok (snd (bridge_commit request b))"
proof -
  assume ok: "bridge_ok b"
  obtain r b1 where e: "finish_components b = (r, b1)" by fastforce
  then obtain c where b1: "b1 = b\<lparr>br_components := c\<rparr>" using finish_components_frame by blast
  obtain r2 b2 where e2: "commit_patch request b1 = (r2, b2)" by fastforce
  have set_pending: "bridge_ok (b2\<lparr>br_pending := Some p\<rparr>)"
    if "bridge_ok b2" "\<forall>(nodes, retained) \<in> set (patch_fragments p). staged_fragment nodes retained" for p
    using that by (auto simp: bridge_ok_def lookup_roots_def)
  show ?thesis
  proof (cases "br_keyed_edit b = None")
    case True
    have "bridge_ok b1" "br_keyed_edit b1 = None" using ok True by (simp_all add: b1)
    from commit_patch_ok [OF this e2] show ?thesis
      using ok e e2 set_pending b1 by (auto simp: bridge_commit_def split: outcome.splits)
  qed (use ok in \<open>simp add: bridge_commit_def\<close>)
qed

lemma seed_ok: "bridge_ok b \<Longrightarrow> bridge_ok (snd (seed_keyed_column container revision keys b))"
proof -
  assume ok: "bridge_ok b"
  have kept: "bridge_ok (b\<lparr>br_staged := (br_staged b)[i := (br_staged b ! i)\<lparr>nd_kind := k\<rparr>]\<rparr>)" for i k
  proof -
    let ?ns = "(br_staged b)[i := (br_staged b ! i)\<lparr>nd_kind := k\<rparr>]"
    have same: "map f ?ns = map f (br_staged b)" if "\<And>n. f (n\<lparr>nd_kind := k\<rparr>) = f n" for f :: "node \<Rightarrow> 'x"
      using that by (cases "i < length (br_staged b)")
        (auto simp: map_update list_update_beyond intro!: list_update_same_conv [THEN iffD2])
    have "consecutive (unat (br_next_node_id b)) ?ns"
      using ok same [of "\<lambda>n. unat (nd_id n)"] by (simp add: bridge_ok_def consecutive_def)
    moreover have "ordered_nodes (set (br_retained_roots b)) ?ns"
      by (rule ordered_nodes_kind [of _ "br_staged b"])
        (use ok same [of nd_id] same [of nd_children] in \<open>simp_all add: bridge_ok_def\<close>)
    ultimately show ?thesis using ok by (simp add: bridge_ok_def lookup_roots_def)
  qed
  then show ?thesis
    using ok by (auto simp: seed_keyed_column_def Let_def split: option.splits node_kind.splits outcome.splits)
qed

lemma take_patch_ok: "bridge_ok b \<Longrightarrow> bridge_ok (snd (take_patch b))"
  by (auto simp: take_patch_def bridge_ok_def lookup_roots_def split: option.splits)

section \<open>Reachable states\<close>

inductive bridge_step :: "bridge \<Rightarrow> bridge \<Rightarrow> bool" where
  "bridge_step b (snd (begin_keyed_edit container base_revision new_revision b))"
| "bridge_step b (snd (keyed_insert_before key before root b))"
| "bridge_step b (snd (keyed_remove key b))"
| "bridge_step b (snd (keyed_move_before key before b))"
| "bridge_step b (snd (keyed_set key root b))"
| "bridge_step b (snd (commit_keyed_edit b))"
| "bridge_step b (snd (begin_children b))"
| "bridge_step b (snd (push_child builder child b))"
| "bridge_step b (snd (finish_children builder b))"
| "bridge_step b (snd (stage_node kind children b))"
| "bridge_step b (snd (seed_keyed_column container revision keys b))"
| "bridge_step b (snd (retain_subtree root b))"
| "bridge_step b (snd (bridge_commit request b))"
| "bridge_step b (snd (take_patch b))"
| "bridge_step b (b\<lparr>br_components := components\<rparr>)"

definition bridge_reachable :: "bridge \<Rightarrow> bool" where
  "bridge_reachable b \<longleftrightarrow> bridge_step\<^sup>*\<^sup>* bridge_new b"

lemma bridge_step_ok: "bridge_step b b' \<Longrightarrow> bridge_ok b \<Longrightarrow> bridge_ok b'"
  by (induction rule: bridge_step.induct)
    (simp_all add: begin_keyed_edit_ok keyed_insert_before_ok keyed_order_ok keyed_set_ok commit_keyed_edit_ok
      builders_ok stage_node_ok seed_ok retain_subtree_ok bridge_commit_ok take_patch_ok)

lemma bridge_reachable_ok: "bridge_reachable b \<Longrightarrow> bridge_ok b"
  unfolding bridge_reachable_def
  by (induction rule: rtranclp_induct) (auto intro: bridge_ok_new bridge_step_ok)

end
