(* ===== verification/Tasks.thy ===== *)
theory Tasks
  imports Prelude
begin

text \<open>
  The registry of accepted tasks (\<open>tasks.rs\<close>): issue, supersede, cancel, run, publish, deliver.
  An operation that races with another thread is written as the atomic accesses the source
  makes, and then as their composition.
\<close>

section \<open>Slots and the registry\<close>

text \<open>The state byte of a slot; the source compares the bytes, so the order matters.\<close>

datatype phase = Queued | Running | Published | Delivered | Superseded | Cancelled

fun phase_byte :: "phase \<Rightarrow> nat" where
  "phase_byte Queued = 0"
| "phase_byte Running = 1"
| "phase_byte Published = 2"
| "phase_byte Delivered = 3"
| "phase_byte Superseded = 4"
| "phase_byte Cancelled = 5"

lemma phase_byte_inj [simp]: "phase_byte a = phase_byte b \<longleftrightarrow> a = b"
  by (cases a; cases b) simp_all

instantiation phase :: linorder
begin

definition less_eq_phase :: "phase \<Rightarrow> phase \<Rightarrow> bool" where
  "less_eq_phase a b \<longleftrightarrow> phase_byte a \<le> phase_byte b"

definition less_phase :: "phase \<Rightarrow> phase \<Rightarrow> bool" where
  "less_phase a b \<longleftrightarrow> phase_byte a < phase_byte b"

instance
  by standard (auto simp: less_eq_phase_def less_phase_def)

end

lemmas phase_order [simp] = less_eq_phase_def less_phase_def

text \<open>
  A slot; its waker is only ever present or absent to this module. \<open>ts_completion\<close> is the raw
  value of the owned completion.
\<close>

record task_slot =
  ts_owner :: u64
  ts_key :: string
  ts_state :: phase
  ts_interrupt :: bool
  ts_completion :: "u64 option"

definition slot_stopped :: "task_slot \<Rightarrow> bool" where
  "slot_stopped t \<longleftrightarrow> Superseded \<le> ts_state t"

text \<open>
  The statics of the module. Slots are shared by reference: a slot is its index in \<open>tk_slots\<close>.
  \<open>tk_current\<close> is the thread-local current task by thread. \<open>tk_released\<close> and \<open>tk_woken\<close> record
  the calls of the release functions and of the wakers, in order.
\<close>

record tasks =
  tk_slots :: "task_slot list"
  tk_live :: "nat list"
  tk_running_now :: "nat list"
  tk_current :: "nat \<rightharpoonup> nat"
  tk_issued :: u64
  tk_completed :: u64
  tk_delivered :: u64
  tk_superseded :: u64
  tk_cancelled :: u64
  tk_interrupted :: u64
  tk_released :: "u64 list"
  tk_woken :: "nat list"

definition tasks_start :: tasks where
  "tasks_start = \<lparr>tk_slots = [], tk_live = [], tk_running_now = [], tk_current = Map.empty,
     tk_issued = 0, tk_completed = 0, tk_delivered = 0, tk_superseded = 0, tk_cancelled = 0,
     tk_interrupted = 0, tk_released = [], tk_woken = []\<rparr>"

definition on_slot :: "nat \<Rightarrow> (task_slot \<Rightarrow> task_slot) \<Rightarrow> tasks \<Rightarrow> tasks" where
  "on_slot i f r = r\<lparr>tk_slots := (tk_slots r)[i := f (tk_slots r ! i)]\<rparr>"

definition slot_state :: "tasks \<Rightarrow> nat \<Rightarrow> phase" where
  "slot_state r i = ts_state (tk_slots r ! i)"

text \<open>\<open>compare_exchange\<close> on the state byte.\<close>

definition exchange :: "nat \<Rightarrow> phase \<Rightarrow> phase \<Rightarrow> tasks \<Rightarrow> bool \<times> tasks" where
  "exchange i expected new r =
     (if slot_state r i = expected then (True, on_slot i (\<lambda>t. t\<lparr>ts_state := new\<rparr>) r) else (False, r))"

text \<open>Dropping an owned completion releases it unless its raw value was taken.\<close>

definition drop_owned :: "u64 option \<Rightarrow> tasks \<Rightarrow> tasks" where
  "drop_owned c r =
     (case c of Some raw \<Rightarrow> if raw \<noteq> 0 then r\<lparr>tk_released := tk_released r @ [raw]\<rparr> else r | None \<Rightarrow> r)"

definition take_completion :: "nat \<Rightarrow> tasks \<Rightarrow> u64 option \<times> tasks" where
  "take_completion i r = (ts_completion (tk_slots r ! i), on_slot i (\<lambda>t. t\<lparr>ts_completion := None\<rparr>) r)"

section \<open>Ending a task\<close>

text \<open>
  The exchange loop of \<open>stop\<close>: it retries until it wins or finds the task over, so it is one
  atomic claim; the counter follows it.
\<close>

definition stop_claim :: "phase \<Rightarrow> nat \<Rightarrow> tasks \<Rightarrow> bool \<times> tasks" where
  "stop_claim why i r =
     (if Delivered \<le> slot_state r i then (False, r)
      else (let r = on_slot i (\<lambda>t. t\<lparr>ts_state := why\<rparr>) r in
            (True, if why = Superseded then r\<lparr>tk_superseded := tk_superseded r + 1\<rparr>
                   else r\<lparr>tk_cancelled := tk_cancelled r + 1\<rparr>)))"

definition release_completion :: "nat \<Rightarrow> tasks \<Rightarrow> tasks" where
  "release_completion i r = (case take_completion i r of (c, r) \<Rightarrow> drop_owned c r)"

definition stop_wake :: "nat \<Rightarrow> tasks \<Rightarrow> tasks" where
  "stop_wake i r =
     (if ts_interrupt (tk_slots r ! i)
      then r\<lparr>tk_interrupted := tk_interrupted r + 1, tk_woken := tk_woken r @ [i]\<rparr> else r)"

definition stop :: "phase \<Rightarrow> nat \<Rightarrow> tasks \<Rightarrow> bool \<times> tasks" where
  "stop why i r =
     (case stop_claim why i r of
        (False, r) \<Rightarrow> (False, r)
      | (True, r) \<Rightarrow> (True, stop_wake i (release_completion i r)))"

fun stop_each :: "phase \<Rightarrow> nat list \<Rightarrow> tasks \<Rightarrow> tasks" where
  "stop_each why [] r = r"
| "stop_each why (i # rest) r = stop_each why rest (snd (stop why i r))"

text \<open>The live tasks a predicate selects leave the list together; then each is stopped.\<close>

definition detach :: "(task_slot \<Rightarrow> bool) \<Rightarrow> tasks \<Rightarrow> nat list \<times> tasks" where
  "detach matches r =
     (filter (\<lambda>i. matches (tk_slots r ! i)) (tk_live r),
      r\<lparr>tk_live := filter (\<lambda>i. \<not> matches (tk_slots r ! i)) (tk_live r)\<rparr>)"

definition stop_where :: "phase \<Rightarrow> (task_slot \<Rightarrow> bool) \<Rightarrow> tasks \<Rightarrow> tasks" where
  "stop_where why matches r = (case detach matches r of (ended, r) \<Rightarrow> stop_each why ended r)"

section \<open>The UI thread's operations\<close>

definition keyed :: "u64 \<Rightarrow> string \<Rightarrow> task_slot \<Rightarrow> bool" where
  "keyed owner key t \<longleftrightarrow> ts_owner t = owner \<and> ts_key t = key"

definition push_slot :: "u64 \<Rightarrow> string \<Rightarrow> tasks \<Rightarrow> nat \<times> tasks" where
  "push_slot owner key r =
     (length (tk_slots r),
      r\<lparr>tk_slots := tk_slots r @ [\<lparr>ts_owner = owner, ts_key = key, ts_state = Queued,
                                  ts_interrupt = False, ts_completion = None\<rparr>],
        tk_issued := tk_issued r + 1, tk_live := tk_live r @ [length (tk_slots r)]\<rparr>)"

definition issue :: "u64 \<Rightarrow> string \<Rightarrow> tasks \<Rightarrow> nat \<times> tasks" where
  "issue owner key r =
     push_slot owner key (if key \<noteq> [] then stop_where Superseded (keyed owner key) r else r)"

definition cancel :: "u64 \<Rightarrow> string \<Rightarrow> tasks \<Rightarrow> tasks" where
  "cancel owner key r = (if key = [] then r else stop_where Cancelled (keyed owner key) r)"

definition owned_by :: "u64 list \<Rightarrow> task_slot \<Rightarrow> bool" where
  "owned_by removed t \<longleftrightarrow> ts_owner t \<noteq> 0 \<and> ts_owner t \<in> set removed"

definition unmount :: "u64 list \<Rightarrow> tasks \<Rightarrow> tasks" where
  "unmount removed r = (if removed = [] then r else stop_where Cancelled (owned_by removed) r)"

definition zero_counters :: "tasks \<Rightarrow> tasks" where
  "zero_counters r = r\<lparr>tk_issued := 0, tk_completed := 0, tk_delivered := 0, tk_superseded := 0,
     tk_cancelled := 0, tk_interrupted := 0\<rparr>"

definition reset :: "tasks \<Rightarrow> tasks" where
  "reset r = (case detach (\<lambda>_. True) r of (ended, r) \<Rightarrow> zero_counters (stop_each Cancelled ended r))"

definition deliver_claim :: "nat \<Rightarrow> tasks \<Rightarrow> bool \<times> tasks" where
  "deliver_claim i r =
     (case exchange i Published Delivered r of
        (False, r) \<Rightarrow> (False, r)
      | (True, r) \<Rightarrow> (True, r\<lparr>tk_delivered := tk_delivered r + 1,
                              tk_live := filter (\<lambda>j. j \<noteq> i) (tk_live r)\<rparr>))"

definition deliver :: "nat \<Rightarrow> tasks \<Rightarrow> u64 option \<times> tasks" where
  "deliver i r = (case deliver_claim i r of (False, r) \<Rightarrow> (None, r) | (True, r) \<Rightarrow> take_completion i r)"

section \<open>The worker's operations\<close>

definition begin_task :: "nat \<Rightarrow> nat \<Rightarrow> tasks \<Rightarrow> bool \<times> tasks" where
  "begin_task thread i r =
     (case exchange i Queued Running r of
        (False, r) \<Rightarrow> (False, r)
      | (True, r) \<Rightarrow> (True, r\<lparr>tk_current := (tk_current r)(thread \<mapsto> i),
                              tk_running_now := tk_running_now r @ [i]\<rparr>))"

text \<open>Storing a completion drops the one the slot held.\<close>

definition finish_store :: "nat \<Rightarrow> nat \<Rightarrow> u64 \<Rightarrow> tasks \<Rightarrow> tasks" where
  "finish_store thread i raw r =
     (let r = r\<lparr>tk_current := (tk_current r)(thread := None)\<rparr>;
          old = ts_completion (tk_slots r ! i) in
      drop_owned old (on_slot i (\<lambda>t. t\<lparr>ts_completion := Some raw\<rparr>) r))"

definition finish_publish :: "nat \<Rightarrow> tasks \<Rightarrow> bool \<times> tasks" where
  "finish_publish i r =
     (case exchange i Running Published r of
        (False, r) \<Rightarrow> (False, r)
      | (True, r) \<Rightarrow> (True, r\<lparr>tk_completed := tk_completed r + 1\<rparr>))"

definition finish_leave :: "nat \<Rightarrow> tasks \<Rightarrow> tasks" where
  "finish_leave i r = r\<lparr>tk_running_now := filter (\<lambda>j. j \<noteq> i) (tk_running_now r)\<rparr>"

definition finish :: "nat \<Rightarrow> nat \<Rightarrow> u64 \<Rightarrow> tasks \<Rightarrow> bool \<times> tasks" where
  "finish thread i raw r =
     (case finish_publish i (finish_store thread i raw r) of
        (published, r) \<Rightarrow> (published, finish_leave i (if published then r else release_completion i r)))"

section \<open>Interruptible waits\<close>

text \<open>\<open>Interrupt::arm\<close> remembers the slot it armed; dropping it disarms that slot.\<close>

definition interrupt_arm :: "nat \<Rightarrow> tasks \<Rightarrow> nat option \<times> tasks" where
  "interrupt_arm thread r =
     (case tk_current r thread of
        None \<Rightarrow> (None, r)
      | Some i \<Rightarrow> (Some i, on_slot i (\<lambda>t. t\<lparr>ts_interrupt := True\<rparr>) r))"

definition interrupt_requested :: "nat option \<Rightarrow> tasks \<Rightarrow> bool" where
  "interrupt_requested armed r =
     (case armed of None \<Rightarrow> False | Some i \<Rightarrow> slot_stopped (tk_slots r ! i))"

definition interrupt_drop :: "nat option \<Rightarrow> tasks \<Rightarrow> tasks" where
  "interrupt_drop armed r =
     (case armed of None \<Rightarrow> r | Some i \<Rightarrow> on_slot i (\<lambda>t. t\<lparr>ts_interrupt := False\<rparr>) r)"

section \<open>Counts\<close>

definition issued_and_settled :: "tasks \<Rightarrow> u64 \<times> u64" where
  "issued_and_settled r = (tk_issued r, tk_delivered r + tk_superseded r + tk_cancelled r)"

definition waiting :: "tasks \<Rightarrow> nat" where
  "waiting r = length (filter (\<lambda>i. slot_stopped (tk_slots r ! i) \<or> ts_interrupt (tk_slots r ! i)) (tk_running_now r))"

end
