(* ===== verification/TaskRaces.thy ===== *)
theory TaskRaces
  imports Tasks "HOL-Library.Multiset"
begin

text \<open>
  The task registry under interleaving: the UI thread runs one operation at a time, each
  worker runs one task at a time, and their atomic accesses interleave freely. The invariants
  here hold in every reachable state, midway through operations included.
\<close>

section \<open>The machine\<close>

text \<open>
  What the UI thread has left to do of its current operation. Where a task is in its worker:
  \<open>Waiting\<close> in the queue, \<open>Working\<close> on a thread, its completion \<open>Stored\<close>, its publication
  \<open>Missed\<close>, \<open>Leaving\<close> the running list, \<open>Over\<close>.
\<close>

datatype ui_action = Claim phase nat | Release nat | Wake nat | Push u64 string | Zero | Hand nat

datatype worker_at = Waiting | Working nat | Stored | Missed | Leaving | Over

datatype ui_operation = Issue u64 string | Cancel u64 string | Unmount "u64 list" | Reset | Deliver nat

record machine =
  mc_tasks :: tasks
  mc_ui :: "ui_action list"
  mc_worker :: "nat \<Rightarrow> worker_at"
  mc_handed :: "u64 list"
  mc_received :: "(nat \<times> u64 option) list"

definition machine_start :: machine where
  "machine_start = \<lparr>mc_tasks = tasks_start, mc_ui = [], mc_worker = (\<lambda>_. Waiting),
     mc_handed = [], mc_received = []\<rparr>"

definition start_ending :: "phase \<Rightarrow> (task_slot \<Rightarrow> bool) \<Rightarrow> ui_action list \<Rightarrow> tasks \<Rightarrow> tasks \<times> ui_action list" where
  "start_ending why matches after r =
     (case detach matches r of (ended, r) \<Rightarrow> (r, map (Claim why) ended @ after))"

fun ui_begin :: "ui_operation \<Rightarrow> tasks \<Rightarrow> tasks \<times> ui_action list" where
  "ui_begin (Issue owner key) r =
     (if key \<noteq> [] then start_ending Superseded (keyed owner key) [Push owner key] r else (r, [Push owner key]))"
| "ui_begin (Cancel owner key) r =
     (if key = [] then (r, []) else start_ending Cancelled (keyed owner key) [] r)"
| "ui_begin (Unmount removed) r =
     (if removed = [] then (r, []) else start_ending Cancelled (owned_by removed) [] r)"
| "ui_begin Reset r = start_ending Cancelled (\<lambda>_. True) [Zero] r"
| "ui_begin (Deliver i) r = (case deliver_claim i r of (ok, r) \<Rightarrow> (r, if ok then [Hand i] else []))"

fun ui_exec :: "ui_action \<Rightarrow> tasks \<Rightarrow> tasks \<times> ui_action list \<times> (nat \<times> u64 option) list" where
  "ui_exec (Claim why i) r = (case stop_claim why i r of (ok, r) \<Rightarrow> (r, if ok then [Release i, Wake i] else [], []))"
| "ui_exec (Release i) r = (release_completion i r, [], [])"
| "ui_exec (Wake i) r = (stop_wake i r, [], [])"
| "ui_exec (Push owner key) r = (snd (push_slot owner key r), [], [])"
| "ui_exec Zero r = (zero_counters r, [], [])"
| "ui_exec (Hand i) r = (case take_completion i r of (c, r) \<Rightarrow> (r, [], [(i, c)]))"

fun ui_allowed :: "ui_operation \<Rightarrow> tasks \<Rightarrow> bool" where
  "ui_allowed (Deliver i) r = (i < length (tk_slots r))"
| "ui_allowed _ r = True"

inductive task_step :: "machine \<Rightarrow> machine \<Rightarrow> bool" where
  ui_starts: "mc_ui m = [] \<Longrightarrow> ui_allowed op (mc_tasks m) \<Longrightarrow> ui_begin op (mc_tasks m) = (r, todo) \<Longrightarrow>
    task_step m (m\<lparr>mc_tasks := r, mc_ui := todo\<rparr>)"
| ui_continues: "mc_ui m = a # rest \<Longrightarrow> ui_exec a (mc_tasks m) = (r, added, got) \<Longrightarrow>
    task_step m (m\<lparr>mc_tasks := r, mc_ui := added @ rest, mc_received := mc_received m @ got\<rparr>)"
| worker_begins: "i < length (tk_slots (mc_tasks m)) \<Longrightarrow> mc_worker m i = Waiting \<Longrightarrow>
    tk_current (mc_tasks m) thread = None \<Longrightarrow> begin_task thread i (mc_tasks m) = (ok, r) \<Longrightarrow>
    task_step m (m\<lparr>mc_tasks := r, mc_worker := (mc_worker m)(i := if ok then Working thread else Over)\<rparr>)"
| worker_arms: "mc_worker m i = Working thread \<Longrightarrow> interrupt_arm thread (mc_tasks m) = (armed, r) \<Longrightarrow>
    task_step m (m\<lparr>mc_tasks := r\<rparr>)"
| worker_disarms: "mc_worker m i = Working thread \<Longrightarrow>
    task_step m (m\<lparr>mc_tasks := interrupt_drop (Some i) (mc_tasks m)\<rparr>)"
| worker_stores: "mc_worker m i = Working thread \<Longrightarrow>
    task_step m (m\<lparr>mc_tasks := finish_store thread i raw (mc_tasks m),
      mc_worker := (mc_worker m)(i := Stored), mc_handed := mc_handed m @ [raw]\<rparr>)"
| worker_publishes: "mc_worker m i = Stored \<Longrightarrow> finish_publish i (mc_tasks m) = (ok, r) \<Longrightarrow>
    task_step m (m\<lparr>mc_tasks := r, mc_worker := (mc_worker m)(i := if ok then Leaving else Missed)\<rparr>)"
| worker_discards: "mc_worker m i = Missed \<Longrightarrow>
    task_step m (m\<lparr>mc_tasks := release_completion i (mc_tasks m), mc_worker := (mc_worker m)(i := Leaving)\<rparr>)"
| worker_leaves: "mc_worker m i = Leaving \<Longrightarrow>
    task_step m (m\<lparr>mc_tasks := finish_leave i (mc_tasks m), mc_worker := (mc_worker m)(i := Over)\<rparr>)"

section \<open>Uninterrupted runs\<close>

text \<open>
  An operation's steps, run with nothing in between, are the operation: the machine interleaves
  the functions of the component and adds nothing to them.
\<close>

fun action_weight :: "ui_action \<Rightarrow> nat" where
  "action_weight (Claim _ _) = 3"
| "action_weight _ = 1"

lemma ui_exec_weight: "ui_exec a r = (r', added, got) \<Longrightarrow> sum_list (map action_weight added) < action_weight a"
  by (cases a) (auto split: prod.splits if_splits)

function ui_run :: "ui_action list \<Rightarrow> tasks \<Rightarrow> tasks \<times> (nat \<times> u64 option) list" where
  "ui_run [] r = (r, [])"
| "ui_run (a # rest) r =
     (case ui_exec a r of (r, added, got) \<Rightarrow> (case ui_run (added @ rest) r of (r, later) \<Rightarrow> (r, got @ later)))"
  by pat_completeness auto
termination
  by (relation "measure (\<lambda>(todo, r). sum_list (map action_weight todo))")
    (auto dest!: sym [THEN ui_exec_weight])

text \<open>The operation as the functions of the component compute it, with what it delivers.\<close>

fun ui_whole :: "ui_operation \<Rightarrow> tasks \<Rightarrow> tasks \<times> (nat \<times> u64 option) list" where
  "ui_whole (Issue owner key) r = (snd (issue owner key r), [])"
| "ui_whole (Cancel owner key) r = (cancel owner key r, [])"
| "ui_whole (Unmount removed) r = (unmount removed r, [])"
| "ui_whole Reset r = (reset r, [])"
| "ui_whole (Deliver i) r =
     (if slot_state r i = Published then (case deliver i r of (c, r) \<Rightarrow> (r, [(i, c)])) else (r, []))"

lemma ui_run_claims:
  "ui_run (map (Claim why) ended @ after) r = ui_run after (stop_each why ended r)"
proof (induction ended arbitrary: r)
  case Nil
  then show ?case by simp
next
  case (Cons i ended)
  then show ?case
    by (cases "stop_claim why i r") (auto simp: stop_def split: bool.splits)
qed

lemma ui_run_ending:
  "start_ending why matches after r = (r', todo) \<Longrightarrow> ui_run todo r' = ui_run after (stop_where why matches r)"
  by (auto simp: start_ending_def stop_where_def ui_run_claims split: prod.splits)

lemma ui_run_whole:
  assumes "ui_begin op r = (r', todo)"
  shows "ui_run todo r' = ui_whole op r"
proof (cases op)
  case Reset
  with assms ui_run_ending [of Cancelled "\<lambda>_. True" "[Zero]" r r' todo] show ?thesis
    by (simp add: reset_def stop_where_def split: prod.splits)
next
  case (Deliver i)
  with assms show ?thesis
    by (auto simp: deliver_def deliver_claim_def exchange_def split: prod.splits if_splits)
qed (use assms ui_run_ending in \<open>auto simp: issue_def cancel_def unmount_def split: if_splits\<close>)


section \<open>What each access changes\<close>

definition owned_raw :: "u64 option \<Rightarrow> u64 list" where
  "owned_raw c = (case c of Some raw \<Rightarrow> if raw \<noteq> 0 then [raw] else [] | None \<Rightarrow> [])"

lemma owned_raw_None [simp]: "owned_raw None = []"
  by (simp add: owned_raw_def)

lemma drop_owned_eq: "drop_owned c r = r\<lparr>tk_released := tk_released r @ owned_raw c\<rparr>"
  by (auto simp: drop_owned_def owned_raw_def split: option.splits)

lemma release_completion_eq:
  "release_completion i r =
     r\<lparr>tk_slots := (tk_slots r)[i := (tk_slots r ! i)\<lparr>ts_completion := None\<rparr>],
       tk_released := tk_released r @ owned_raw (ts_completion (tk_slots r ! i))\<rparr>"
  by (simp add: release_completion_def take_completion_def drop_owned_eq on_slot_def)

lemma finish_store_eq:
  "finish_store thread i raw r =
     r\<lparr>tk_current := (tk_current r)(thread := None),
       tk_slots := (tk_slots r)[i := (tk_slots r ! i)\<lparr>ts_completion := Some raw\<rparr>],
       tk_released := tk_released r @ owned_raw (ts_completion (tk_slots r ! i))\<rparr>"
  by (simp add: finish_store_def drop_owned_eq on_slot_def Let_def)

lemmas access_defs = release_completion_eq finish_store_eq on_slot_def exchange_def stop_claim_def
  stop_wake_def push_slot_def zero_counters_def deliver_claim_def take_completion_def begin_task_def
  finish_publish_def finish_leave_def interrupt_arm_def interrupt_drop_def slot_state_def

text \<open>Slots are never removed, and their owner and key never change.\<close>

definition extends_slots :: "tasks \<Rightarrow> tasks \<Rightarrow> bool" where
  "extends_slots r r' \<longleftrightarrow> length (tk_slots r) \<le> length (tk_slots r') \<and>
     (\<forall>i < length (tk_slots r). ts_owner (tk_slots r' ! i) = ts_owner (tk_slots r ! i) \<and>
        ts_key (tk_slots r' ! i) = ts_key (tk_slots r ! i))"

section \<open>The state of one slot\<close>

definition at_work :: "worker_at \<Rightarrow> bool" where
  "at_work w \<longleftrightarrow> (\<exists>thread. w = Working thread)"

definition on_running_list :: "worker_at \<Rightarrow> bool" where
  "on_running_list w \<longleftrightarrow> w \<noteq> Waiting \<and> w \<noteq> Over"

lemma worker_simps [simp]:
  "at_work (Working t)" "\<not> at_work Waiting" "\<not> at_work Stored" "\<not> at_work Missed"
  "\<not> at_work Leaving" "\<not> at_work Over"
  "on_running_list (Working t)" "\<not> on_running_list Waiting" "on_running_list Stored"
  "on_running_list Missed" "on_running_list Leaving" "\<not> on_running_list Over"
  by (auto simp: at_work_def on_running_list_def)

definition slot_ok :: "task_slot \<Rightarrow> worker_at \<Rightarrow> ui_action list \<Rightarrow> nat \<Rightarrow> bool" where
  "slot_ok t w ui i \<longleftrightarrow>
     (case ts_state t of
        Queued \<Rightarrow> w = Waiting \<and> ts_completion t = None
      | Running \<Rightarrow> at_work w \<and> ts_completion t = None \<or> w = Stored \<and> ts_completion t \<noteq> None
      | Published \<Rightarrow> (w = Leaving \<or> w = Over) \<and> ts_completion t \<noteq> None
      | Delivered \<Rightarrow> (w = Leaving \<or> w = Over) \<and> (ts_completion t \<noteq> None \<longleftrightarrow> Hand i \<in> set ui)
      | _ \<Rightarrow> (ts_completion t \<noteq> None \<longrightarrow> w = Stored \<or> w = Missed \<or> Release i \<in> set ui) \<and>
             (w = Waiting \<or> at_work w \<longrightarrow> ts_completion t = None)) \<and>
     (w = Missed \<longrightarrow> Superseded \<le> ts_state t) \<and>
     (Release i \<in> set ui \<longrightarrow> Superseded \<le> ts_state t) \<and>
     (Hand i \<in> set ui \<longrightarrow> ts_state t = Delivered)"

definition ui_well_formed :: "ui_action list \<Rightarrow> bool" where
  "ui_well_formed ui \<longleftrightarrow>
     (\<forall>a \<in> set (butlast ui). case a of Claim _ _ \<Rightarrow> True | Release _ \<Rightarrow> True | Wake _ \<Rightarrow> True | _ \<Rightarrow> False) \<and>
     (\<forall>why i. Claim why i \<in> set ui \<longrightarrow> Superseded \<le> why)"

definition slots_ok :: "machine \<Rightarrow> bool" where
  "slots_ok m \<longleftrightarrow>
     ui_well_formed (mc_ui m) \<and>
     (\<forall>i < length (tk_slots (mc_tasks m)). slot_ok (tk_slots (mc_tasks m) ! i) (mc_worker m i) (mc_ui m) i) \<and>
     (\<forall>i \<ge> length (tk_slots (mc_tasks m)). mc_worker m i = Waiting \<and> Release i \<notin> set (mc_ui m) \<and> Hand i \<notin> set (mc_ui m))"

lemma slots_ok_start: "slots_ok machine_start"
  by (simp add: slots_ok_def machine_start_def tasks_start_def ui_well_formed_def)

lemma ui_well_formed_Cons:
  "ui_well_formed (a # rest) \<Longrightarrow> ui_well_formed rest \<and>
     (rest = [] \<or> (\<exists>why i. a = Claim why i) \<or> (\<exists>i. a = Release i) \<or> (\<exists>i. a = Wake i)) \<and>
     (\<forall>why i. a = Claim why i \<longrightarrow> Superseded \<le> why)"
  by (cases a; cases "rest = []") (auto simp: ui_well_formed_def)

lemma ui_well_formed_claims:
  "Superseded \<le> why \<Longrightarrow> ui_well_formed [a] \<or> after = [] \<Longrightarrow> after = [a] \<or> after = [] \<Longrightarrow>
   ui_well_formed (map (Claim why) ended @ after)"
  by (auto simp: ui_well_formed_def simp flip: map_butlast)

lemma ui_well_formed_ending:
  "ui_well_formed rest \<Longrightarrow> ui_well_formed (Release i # Wake i # rest)"
  by (auto simp: ui_well_formed_def)


section \<open>Preservation: slots\<close>

lemma slots_ok_frame:
  assumes "slots_ok m" and "tk_slots r = tk_slots (mc_tasks m)"
  shows "slots_ok (m\<lparr>mc_tasks := r\<rparr>)"
  using assms by (simp add: slots_ok_def)

lemma slot_ok_ui:
  "(Release i \<in> set ui' \<longleftrightarrow> Release i \<in> set ui) \<Longrightarrow> (Hand i \<in> set ui' \<longleftrightarrow> Hand i \<in> set ui) \<Longrightarrow>
   slot_ok t w ui' i \<longleftrightarrow> slot_ok t w ui i"
  by (cases "ts_state t") (simp_all add: slot_ok_def)

lemma slot_ok_begin:
  "slot_ok t Waiting ui i \<Longrightarrow>
   slot_ok (t\<lparr>ts_state := if ts_state t = Queued then Running else ts_state t\<rparr>)
     (if ts_state t = Queued then Working thread else Over) ui i"
  by (cases "ts_state t") (auto simp: slot_ok_def)

lemma slot_ok_interrupt [simp]: "slot_ok (t\<lparr>ts_interrupt := b\<rparr>) w ui i \<longleftrightarrow> slot_ok t w ui i"
  by (cases "ts_state t") (simp_all add: slot_ok_def)

lemma slot_ok_store:
  "slot_ok t (Working thread) ui i \<Longrightarrow> slot_ok (t\<lparr>ts_completion := Some raw\<rparr>) Stored ui i"
  by (cases "ts_state t") (auto simp: slot_ok_def)

lemma slot_ok_publish:
  "slot_ok t Stored ui i \<Longrightarrow>
   slot_ok (t\<lparr>ts_state := if ts_state t = Running then Published else ts_state t\<rparr>)
     (if ts_state t = Running then Leaving else Missed) ui i"
  by (cases "ts_state t") (auto simp: slot_ok_def)

lemma slot_ok_discard: "slot_ok t Missed ui i \<Longrightarrow> slot_ok (t\<lparr>ts_completion := None\<rparr>) Leaving ui i"
  by (cases "ts_state t") (auto simp: slot_ok_def)

lemma slot_ok_leave: "slot_ok t Leaving ui i \<Longrightarrow> slot_ok t Over ui i"
  by (cases "ts_state t") (auto simp: slot_ok_def)

lemma slot_ok_release:
  "slot_ok t w (Release i # rest) i \<Longrightarrow> slot_ok (t\<lparr>ts_completion := None\<rparr>) w rest i"
  by (cases "ts_state t") (auto simp: slot_ok_def)

lemma slot_ok_hand: "slot_ok t w [Hand i] i \<Longrightarrow> slot_ok (t\<lparr>ts_completion := None\<rparr>) w [] i"
  by (cases "ts_state t") (auto simp: slot_ok_def)

lemma slot_ok_claim:
  "slot_ok t w (Claim why i # rest) i \<Longrightarrow> \<not> Delivered \<le> ts_state t \<Longrightarrow> Superseded \<le> why \<Longrightarrow>
   slot_ok (t\<lparr>ts_state := why\<rparr>) w (Release i # Wake i # rest) i"
  by (cases "ts_state t"; cases why) (auto simp: slot_ok_def)

lemma slot_ok_deliver:
  "slot_ok t w [] i \<Longrightarrow> ts_state t = Published \<Longrightarrow> slot_ok (t\<lparr>ts_state := Delivered\<rparr>) w [Hand i] i"
  by (auto simp: slot_ok_def)

lemma slot_ok_fresh: "Release i \<notin> set ui \<Longrightarrow> Hand i \<notin> set ui \<Longrightarrow>
    slot_ok \<lparr>ts_owner = owner, ts_key = key, ts_state = Queued, ts_interrupt = False, ts_completion = None\<rparr> Waiting ui i"
  by (simp add: slot_ok_def)

text \<open>Only slot \<open>i\<close> and its worker change, and the UI's actions on other slots stay.\<close>

lemma slots_ok_update:
  assumes ok: "slots_ok m" and i: "i < length (tk_slots (mc_tasks m))"
    and slots: "tk_slots (mc_tasks m') = (tk_slots (mc_tasks m))[i := t]"
    and worker: "\<And>j. j \<noteq> i \<Longrightarrow> mc_worker m' j = mc_worker m j"
    and ui: "ui_well_formed (mc_ui m')"
      "\<And>j. j \<noteq> i \<Longrightarrow> Release j \<in> set (mc_ui m') \<longleftrightarrow> Release j \<in> set (mc_ui m)"
      "\<And>j. j \<noteq> i \<Longrightarrow> Hand j \<in> set (mc_ui m') \<longleftrightarrow> Hand j \<in> set (mc_ui m)"
    and slot: "slot_ok (tk_slots (mc_tasks m) ! i) (mc_worker m i) (mc_ui m) i \<Longrightarrow>
      slot_ok t (mc_worker m' i) (mc_ui m') i"
  shows "slots_ok m'"
proof -
  have other: "slot_ok (tk_slots (mc_tasks m) ! j) (mc_worker m' j) (mc_ui m') j \<longleftrightarrow>
      slot_ok (tk_slots (mc_tasks m) ! j) (mc_worker m j) (mc_ui m) j" if "j \<noteq> i" for j
    unfolding worker [OF that] by (rule slot_ok_ui [OF ui(2,3) [OF that]])
  show ?thesis
    unfolding slots_ok_def slots length_list_update
  proof (intro conjI allI impI)
    fix j assume j: "j < length (tk_slots (mc_tasks m))"
    show "slot_ok ((tk_slots (mc_tasks m))[i := t] ! j) (mc_worker m' j) (mc_ui m') j"
      using ok i j slot other [of j] by (cases "j = i") (auto simp: slots_ok_def)
  next
    fix j assume "length (tk_slots (mc_tasks m)) \<le> j"
    moreover from this i have "j \<noteq> i" by simp
    ultimately show "mc_worker m' j = Waiting" "Release j \<notin> set (mc_ui m')" "Hand j \<notin> set (mc_ui m')"
      using ok worker ui(2,3) by (auto simp: slots_ok_def)
  qed (rule ui(1))
qed

lemma working_slot:
  "slots_ok m \<Longrightarrow> mc_worker m i \<noteq> Waiting \<Longrightarrow> i < length (tk_slots (mc_tasks m))"
  by (auto simp: slots_ok_def not_le [symmetric])

lemma slots_ok_worker:
  assumes "slots_ok m" and "i < length (tk_slots (mc_tasks m))"
    and "slot_ok (tk_slots (mc_tasks m) ! i) (mc_worker m i) (mc_ui m) i \<Longrightarrow> slot_ok t w (mc_ui m) i"
    and "tk_slots r = (tk_slots (mc_tasks m))[i := t]"
  shows "slots_ok (m\<lparr>mc_tasks := r, mc_worker := (mc_worker m)(i := w), mc_handed := handed\<rparr>)"
  by (rule slots_ok_update [OF assms(1,2), where t = t])
    (use assms in \<open>auto simp: slots_ok_def\<close>)

text \<open>An action taken off the UI's list, with what it adds, concerns slot \<open>i\<close> alone.\<close>

lemma slots_ok_ui:
  assumes ok: "slots_ok m" and ui: "mc_ui m = a # rest" "ui_well_formed (added @ rest)"
    and i: "i < length (tk_slots (mc_tasks m))"
    and only: "\<And>j. j \<noteq> i \<Longrightarrow> (Release j \<in> set (a # rest) \<longleftrightarrow> Release j \<in> set (added @ rest)) \<and>
      (Hand j \<in> set (a # rest) \<longleftrightarrow> Hand j \<in> set (added @ rest))"
    and slot: "slot_ok (tk_slots (mc_tasks m) ! i) (mc_worker m i) (a # rest) i \<Longrightarrow>
      slot_ok t (mc_worker m i) (added @ rest) i"
    and r: "tk_slots r = (tk_slots (mc_tasks m))[i := t]"
  shows "slots_ok (m\<lparr>mc_tasks := r, mc_ui := added @ rest, mc_received := got\<rparr>)"
  by (rule slots_ok_update [OF ok i, where t = t]) (use ui only slot r in auto)

lemma slots_ok_ui_frame:
  assumes ok: "slots_ok m" and ui: "ui_well_formed ui"
    and same: "\<And>j. (Release j \<in> set ui \<longleftrightarrow> Release j \<in> set (mc_ui m)) \<and> (Hand j \<in> set ui \<longleftrightarrow> Hand j \<in> set (mc_ui m))"
    and r: "tk_slots r = tk_slots (mc_tasks m)"
  shows "slots_ok (m\<lparr>mc_tasks := r, mc_ui := ui, mc_received := got\<rparr>)"
proof -
  have "slot_ok t w ui j \<longleftrightarrow> slot_ok t w (mc_ui m) j" for t w j
    by (rule slot_ok_ui) (use same [of j] in blast)+
  then show ?thesis using ok ui same r by (simp add: slots_ok_def)
qed

text \<open>A thread's current task is the one its worker is at.\<close>

definition current_ok :: "machine \<Rightarrow> bool" where
  "current_ok m \<longleftrightarrow> (\<forall>thread i. tk_current (mc_tasks m) thread = Some i \<longleftrightarrow> mc_worker m i = Working thread)"

lemma ui_current:
  "ui_exec a r = (r', added, got) \<Longrightarrow> tk_current r' = tk_current r"
  by (cases a) (auto simp: access_defs Let_def split: if_splits prod.splits)

lemma begin_current:
  "ui_begin op r = (r', todo) \<Longrightarrow> tk_current r' = tk_current r"
  by (cases op) (auto simp: start_ending_def detach_def deliver_claim_def exchange_def on_slot_def split: if_splits prod.splits)

lemma current_ok_step: "task_step m m' \<Longrightarrow> current_ok m \<Longrightarrow> current_ok m'"
proof (induction rule: task_step.induct)
  case (ui_starts m op r todo)
  then show ?case using begin_current by (simp add: current_ok_def)
next
  case (ui_continues m a rest r added got)
  then show ?case using ui_current by (simp add: current_ok_def)
next
  case (worker_begins i m thread ok r)
  from worker_begins(3,5) have "mc_worker m j \<noteq> Working thread" for j
    unfolding current_ok_def by (metis option.distinct(1))
  with worker_begins show ?case by (auto simp: current_ok_def access_defs split: if_splits)
next
  case (worker_arms m i thread armed r)
  then show ?case by (auto simp: current_ok_def access_defs split: option.splits)
next
  case (worker_disarms m i thread)
  then show ?case by (auto simp: current_ok_def access_defs split: option.splits)
next
  case (worker_stores m i thread raw)
  then have "mc_worker m j = Working thread \<longleftrightarrow> j = i" for j
    unfolding current_ok_def by (metis option.inject)
  moreover from worker_stores have "mc_worker m i = Working t \<longleftrightarrow> t = thread" for t by auto
  ultimately show ?case using worker_stores(2) by (auto simp: current_ok_def access_defs)
next
  case (worker_publishes m i ok r)
  then show ?case by (auto simp: current_ok_def access_defs split: if_splits)
next
  case (worker_discards m i)
  then show ?case by (auto simp: current_ok_def access_defs)
next
  case (worker_leaves m i)
  then show ?case by (auto simp: current_ok_def access_defs)
qed

lemma arm_current:
  assumes "current_ok m" and "mc_worker m i = Working thread"
    and "interrupt_arm thread (mc_tasks m) = (armed, r)"
  shows "armed = Some i" and "r = on_slot i (\<lambda>t. t\<lparr>ts_interrupt := True\<rparr>) (mc_tasks m)"
proof -
  have "tk_current (mc_tasks m) thread = Some i"
    using assms(1,2) unfolding current_ok_def by blast
  with assms(3) show "armed = Some i" "r = on_slot i (\<lambda>t. t\<lparr>ts_interrupt := True\<rparr>) (mc_tasks m)"
    by (auto simp: interrupt_arm_def)
qed

lemma slots_ok_starts:
  assumes ok: "slots_ok m" and idle: "mc_ui m = []" and allowed: "ui_allowed op (mc_tasks m)"
    and start: "ui_begin op (mc_tasks m) = (r, todo)"
  shows "slots_ok (m\<lparr>mc_tasks := r, mc_ui := todo\<rparr>)"
proof (cases "\<exists>i. op = Deliver i \<and> slot_state (mc_tasks m) i = Published")
  case True
  then obtain i where i: "op = Deliver i" "slot_state (mc_tasks m) i = Published" by blast
  with start have "todo = [Hand i]"
    "tk_slots r = (tk_slots (mc_tasks m))[i := (tk_slots (mc_tasks m) ! i)\<lparr>ts_state := Delivered\<rparr>]"
    by (auto simp: deliver_claim_def exchange_def on_slot_def)
  moreover have "ui_well_formed [Hand i]" by (simp add: ui_well_formed_def)
  ultimately show ?thesis
    using slots_ok_update [OF ok, of i "m\<lparr>mc_tasks := r, mc_ui := todo\<rparr>"] allowed i idle slot_ok_deliver
    by (simp add: slot_state_def)
next
  case False
  have "tk_slots r = tk_slots (mc_tasks m) \<and> ui_well_formed todo \<and>
      (\<forall>j. Release j \<notin> set todo \<and> Hand j \<notin> set todo)"
    using start False
    by (cases op) (auto simp: start_ending_def detach_def deliver_claim_def exchange_def ui_well_formed_def
        split: if_splits prod.splits simp flip: map_butlast)
  then show ?thesis using ok idle slots_ok_ui_frame [OF ok, of todo r "mc_received m"] by simp
qed

lemma slots_ok_continues:
  assumes ok: "slots_ok m" and ui: "mc_ui m = a # rest"
    and claims: "\<And>why i. a = Claim why i \<Longrightarrow> i < length (tk_slots (mc_tasks m))"
    and exec: "ui_exec a (mc_tasks m) = (r, added, got)"
  shows "slots_ok (m\<lparr>mc_tasks := r, mc_ui := added @ rest, mc_received := received\<rparr>)"
proof -
  from ok ui have wf: "ui_well_formed (a # rest)" by (simp add: slots_ok_def)
  note rest = ui_well_formed_Cons [OF wf]
  have in_range: "i < length (tk_slots (mc_tasks m))" if "a = Release i \<or> a = Hand i" for i
    using ok ui that by (auto simp: slots_ok_def not_le [symmetric])
  show ?thesis
  proof (cases a)
    case (Claim why i)
    show ?thesis
    proof (cases "Delivered \<le> slot_state (mc_tasks m) i")
      case True
      with exec Claim have "r = mc_tasks m" "added = []" by (auto simp: stop_claim_def)
      then show ?thesis using slots_ok_ui_frame [OF ok, of rest r received] rest ui Claim by auto
    next
      case False
      with exec Claim have r: "added = [Release i, Wake i]"
        "tk_slots r = (tk_slots (mc_tasks m))[i := (tk_slots (mc_tasks m) ! i)\<lparr>ts_state := why\<rparr>]"
        by (auto simp: stop_claim_def on_slot_def Let_def split: if_splits)
      show ?thesis
        by (rule slots_ok_ui [OF ok ui, where i = i, OF _ _ _ _ r(2)])
          (use Claim claims False rest r(1) slot_ok_claim ui_well_formed_ending in
            \<open>auto simp: slot_state_def simp del: phase_order\<close>)
    qed
  next
    case (Release i)
    with exec show ?thesis using rest in_range slot_ok_release
      by (intro slots_ok_ui [OF ok ui, where i = i]) (auto simp: access_defs)
  next
    case (Wake i)
    with exec show ?thesis using rest ui
      by (intro slots_ok_ui_frame [OF ok]) (auto simp: stop_wake_def split: if_splits)
  next
    case (Push owner key)
    with rest have [simp]: "rest = []" by simp
    from exec Push have [simp]: "added = []" and r: "tk_slots r = tk_slots (mc_tasks m) @
        [\<lparr>ts_owner = owner, ts_key = key, ts_state = Queued, ts_interrupt = False, ts_completion = None\<rparr>]"
      by (auto simp: push_slot_def)
    have "slot_ok t w [Push owner key] i \<longleftrightarrow> slot_ok t w [] i" for t w i
      by (rule slot_ok_ui) simp_all
    moreover have "slot_ok \<lparr>ts_owner = owner, ts_key = key, ts_state = Queued, ts_interrupt = False, ts_completion = None\<rparr>
        Waiting [] i" for i by (rule slot_ok_fresh) simp_all
    ultimately show ?thesis using ok ui Push
      by (auto simp: slots_ok_def r nth_append ui_well_formed_def less_Suc_eq)
  next
    case Zero
    with exec show ?thesis using rest ui
      by (intro slots_ok_ui_frame [OF ok]) (auto simp: zero_counters_def)
  next
    case (Hand i)
    with rest have [simp]: "rest = []" by simp
    from Hand exec show ?thesis using in_range slot_ok_hand rest
      by (intro slots_ok_ui [OF ok ui, where i = i]) (auto simp: access_defs)
  qed
qed

section \<open>Preservation: the ledger\<close>

text \<open>The tasks the UI thread has detached and not yet claimed.\<close>

fun claims :: "ui_action list \<Rightarrow> nat list" where
  "claims [] = []"
| "claims (Claim why i # rest) = i # claims rest"
| "claims (_ # rest) = claims rest"

lemma claims_append [simp]: "claims (xs @ ys) = claims xs @ claims ys"
  by (induction xs rule: claims.induct) simp_all

lemma claims_map [simp]: "claims (map (Claim why) ids) = ids"
  by (induction ids) simp_all

definition outstanding :: "tasks \<Rightarrow> nat set" where
  "outstanding r = {i. i < length (tk_slots r) \<and> slot_state r i < Delivered}"

definition open_tasks :: "machine \<Rightarrow> nat list" where
  "open_tasks m = tk_live (mc_tasks m) @ claims (mc_ui m)"

definition ledger_ok :: "machine \<Rightarrow> bool" where
  "ledger_ok m \<longleftrightarrow>
     distinct (open_tasks m) \<and> set (open_tasks m) = outstanding (mc_tasks m) \<and>
     (Zero \<in> set (mc_ui m) \<longrightarrow> tk_live (mc_tasks m) = []) \<and>
     tk_issued (mc_tasks m) = of_nat (length (open_tasks m)) +
       (tk_delivered (mc_tasks m) + tk_superseded (mc_tasks m) + tk_cancelled (mc_tasks m))"

lemma ledger_ok_start: "ledger_ok machine_start"
  by (simp add: ledger_ok_def machine_start_def tasks_start_def open_tasks_def outstanding_def)

text \<open>The worker's accesses touch neither the live list nor the counters of the ledger.\<close>

lemma ledger_ok_frame:
  assumes "ledger_ok m" and "mc_ui m' = mc_ui m" and "tk_live (mc_tasks m') = tk_live (mc_tasks m)"
    and "outstanding (mc_tasks m') = outstanding (mc_tasks m)"
    and "tk_issued (mc_tasks m') = tk_issued (mc_tasks m)" "tk_delivered (mc_tasks m') = tk_delivered (mc_tasks m)"
      "tk_superseded (mc_tasks m') = tk_superseded (mc_tasks m)" "tk_cancelled (mc_tasks m') = tk_cancelled (mc_tasks m)"
  shows "ledger_ok m'"
  using assms by (simp add: ledger_ok_def open_tasks_def)

lemma outstanding_update:
  assumes "tk_slots r' = (tk_slots r)[i := t]"
    and "i < length (tk_slots r) \<Longrightarrow> ts_state t < Delivered \<longleftrightarrow> slot_state r i < Delivered"
  shows "outstanding r' = outstanding r"
proof (cases "i < length (tk_slots r)")
  case True
  with assms show ?thesis
    by (auto simp: outstanding_def slot_state_def nth_list_update simp del: phase_order)
next
  case False
  with assms(1) have "tk_slots r' = tk_slots r" by (simp add: list_update_beyond)
  then show ?thesis by (simp add: outstanding_def slot_state_def)
qed

lemma outstanding_end:
  assumes "tk_slots r' = (tk_slots r)[i := t]" and "Delivered \<le> ts_state t" and "i < length (tk_slots r)"
  shows "outstanding r' = outstanding r - {i}"
  using assms by (auto simp: outstanding_def slot_state_def nth_list_update simp del: phase_order)

lemma detach_ledger:
  assumes ok: "ledger_ok m" and idle: "mc_ui m = []" and plain: "claims after = []" "Zero \<in> set after \<Longrightarrow> matches = (\<lambda>_. True)"
    and start: "start_ending why matches after (mc_tasks m) = (r, todo)"
  shows "ledger_ok (m\<lparr>mc_tasks := r, mc_ui := todo\<rparr>)"
proof -
  let ?live = "tk_live (mc_tasks m)"
  let ?P = "\<lambda>i. matches (tk_slots (mc_tasks m) ! i)"
  from start have todo: "todo = map (Claim why) (filter ?P ?live) @ after"
    and r: "r = (mc_tasks m)\<lparr>tk_live := filter (\<lambda>i. \<not> ?P i) ?live\<rparr>"
    by (auto simp: start_ending_def detach_def)
  have len: "length (filter (\<lambda>i. \<not> ?P i) ?live) + length (filter ?P ?live) = length ?live"
    using sum_length_filter_compl [of ?P ?live] by simp
  then have "of_nat (length (filter (\<lambda>i. \<not> ?P i) ?live)) + of_nat (length (filter ?P ?live)) = (of_nat (length ?live) :: u64)"
    by (simp flip: of_nat_add)
  moreover have "Zero \<notin> set (map (Claim why) (filter ?P ?live))" by auto
  ultimately show ?thesis using ok idle plain
    by (auto simp: ledger_ok_def open_tasks_def todo r outstanding_def slot_state_def)
qed

lemma ledger_ok_todo:
  assumes "ledger_ok m" and "mc_ui m = []" and "claims todo = []" and "Zero \<notin> set todo"
  shows "ledger_ok (m\<lparr>mc_tasks := mc_tasks m, mc_ui := todo\<rparr>)"
  by (rule ledger_ok_def [THEN iffD2])
    (use assms(1) [unfolded ledger_ok_def open_tasks_def] assms(2-) in \<open>simp add: open_tasks_def\<close>)

lemma ledger_ok_starts:
  assumes ok: "ledger_ok m" and idle: "mc_ui m = []" and allowed: "ui_allowed op (mc_tasks m)"
    and start: "ui_begin op (mc_tasks m) = (r, todo)"
  shows "ledger_ok (m\<lparr>mc_tasks := r, mc_ui := todo\<rparr>)"
proof (cases op)
  case (Deliver i)
  show ?thesis
  proof (cases "slot_state (mc_tasks m) i = Published")
    case True
    with start Deliver have todo: "todo = [Hand i]" and r: "r = (mc_tasks m)\<lparr>
        tk_slots := (tk_slots (mc_tasks m))[i := (tk_slots (mc_tasks m) ! i)\<lparr>ts_state := Delivered\<rparr>],
        tk_delivered := tk_delivered (mc_tasks m) + 1, tk_live := filter (\<lambda>j. j \<noteq> i) (tk_live (mc_tasks m))\<rparr>"
      by (auto simp: deliver_claim_def exchange_def on_slot_def)
    from True Deliver allowed have "i \<in> outstanding (mc_tasks m)" by (simp add: outstanding_def)
    with ok idle have live: "i \<in> set (tk_live (mc_tasks m))" "distinct (tk_live (mc_tasks m))"
      by (auto simp: ledger_ok_def open_tasks_def)
    then have "filter (\<lambda>j. j \<noteq> i) (tk_live (mc_tasks m)) = remove1 i (tk_live (mc_tasks m))"
      by (simp add: distinct_remove1_removeAll removeAll_filter_not_eq eq_commute)
    moreover from live have "Suc (length (remove1 i (tk_live (mc_tasks m)))) = length (tk_live (mc_tasks m))"
      by (simp add: length_remove1) (metis Suc_pred length_pos_if_in_set)
    then have "of_nat (length (tk_live (mc_tasks m))) = (1 + of_nat (length (remove1 i (tk_live (mc_tasks m)))) :: u64)"
      by (metis of_nat_Suc)
    moreover have "outstanding r = outstanding (mc_tasks m) - {i}"
      using allowed Deliver by (intro outstanding_end) (auto simp: r)
    ultimately show ?thesis
      using ok idle live by (simp add: ledger_ok_def open_tasks_def todo r)
  next
    case False
    with start Deliver ok idle show ?thesis
      by (auto simp: deliver_claim_def exchange_def ledger_ok_def open_tasks_def)
  qed
next
  case Reset
  with start have "start_ending Cancelled (\<lambda>_. True) [Zero] (mc_tasks m) = (r, todo)" by simp
  from detach_ledger [OF ok idle _ _ this] show ?thesis by simp
next
  case (Issue owner key)
  show ?thesis
  proof (cases "key = []")
    case True
    with start Issue have "r = mc_tasks m" "todo = [Push owner key]" by simp_all
    then show ?thesis using ledger_ok_todo [OF ok idle] by simp
  next
    case False
    with start Issue have "start_ending Superseded (keyed owner key) [Push owner key] (mc_tasks m) = (r, todo)" by simp
    from detach_ledger [OF ok idle _ _ this] show ?thesis by simp
  qed
next
  case (Cancel owner key)
  show ?thesis
  proof (cases "key = []")
    case True
    with start Cancel have "r = mc_tasks m" "todo = []" by simp_all
    then show ?thesis using ledger_ok_todo [OF ok idle] by simp
  next
    case False
    with start Cancel have "start_ending Cancelled (keyed owner key) [] (mc_tasks m) = (r, todo)" by simp
    from detach_ledger [OF ok idle _ _ this] show ?thesis by simp
  qed
next
  case (Unmount removed)
  show ?thesis
  proof (cases "removed = []")
    case True
    with start Unmount have "r = mc_tasks m" "todo = []" by simp_all
    then show ?thesis using ledger_ok_todo [OF ok idle] by simp
  next
    case False
    with start Unmount have "start_ending Cancelled (owned_by removed) [] (mc_tasks m) = (r, todo)" by simp
    from detach_ledger [OF ok idle _ _ this] show ?thesis by simp
  qed
qed

lemma ledger_ok_done:
  assumes "ledger_ok m" and "mc_ui m = a # rest" and "claims [a] = []"
    and "tk_live r = tk_live (mc_tasks m)" and "outstanding r = outstanding (mc_tasks m)"
    and "tk_issued r = tk_issued (mc_tasks m)" "tk_delivered r = tk_delivered (mc_tasks m)"
      "tk_superseded r = tk_superseded (mc_tasks m)" "tk_cancelled r = tk_cancelled (mc_tasks m)"
  shows "ledger_ok (m\<lparr>mc_tasks := r, mc_ui := rest, mc_received := received\<rparr>)"
proof -
  have "claims (a # rest) = claims rest" using assms(3) by (cases a) simp_all
  then show ?thesis
    using assms(1) unfolding ledger_ok_def open_tasks_def by (simp add: assms(2,4-))
qed

lemma ledger_ok_continues:
  assumes ok: "ledger_ok m" and wf: "ui_well_formed (mc_ui m)" and ui: "mc_ui m = a # rest"
    and exec: "ui_exec a (mc_tasks m) = (r, added, got)"
  shows "ledger_ok (m\<lparr>mc_tasks := r, mc_ui := added @ rest, mc_received := received\<rparr>)"
proof (cases a)
  case (Claim why i)
  with ok ui have i: "i \<in> outstanding (mc_tasks m)" "i \<notin> set (tk_live (mc_tasks m))"
      "i \<notin> set (claims rest)"
    by (auto simp: ledger_ok_def open_tasks_def)
  from wf ui Claim have why: "Superseded \<le> why" by (auto dest: ui_well_formed_Cons)
  have state: "\<not> Delivered \<le> slot_state (mc_tasks m) i"
    using i(1) by (simp add: outstanding_def)
  have r: "added = [Release i, Wake i]"
    "tk_slots r = (tk_slots (mc_tasks m))[i := (tk_slots (mc_tasks m) ! i)\<lparr>ts_state := why\<rparr>]"
    "tk_live r = tk_live (mc_tasks m)" "tk_issued r = tk_issued (mc_tasks m)"
    "tk_delivered r = tk_delivered (mc_tasks m)"
    "tk_superseded r + tk_cancelled r = tk_superseded (mc_tasks m) + tk_cancelled (mc_tasks m) + 1"
    using exec Claim state by (auto simp: stop_claim_def on_slot_def Let_def split: if_splits)
  have "outstanding r = outstanding (mc_tasks m) - {i}"
    using i(1) why by (intro outstanding_end [OF r(2)]) (auto simp: outstanding_def)
  moreover have "tk_delivered r + tk_superseded r + tk_cancelled r =
      tk_delivered (mc_tasks m) + tk_superseded (mc_tasks m) + tk_cancelled (mc_tasks m) + 1"
    using r(5,6) by (simp add: add.assoc)
  ultimately show ?thesis
    using ok ui Claim i r(1,3,4) by (auto simp: ledger_ok_def open_tasks_def algebra_simps)
next
  case (Push owner key)
  with wf ui have [simp]: "rest = []" by (auto dest: ui_well_formed_Cons)
  from exec Push have r: "added = []" "tk_slots r = tk_slots (mc_tasks m) @
      [\<lparr>ts_owner = owner, ts_key = key, ts_state = Queued, ts_interrupt = False, ts_completion = None\<rparr>]"
    "tk_live r = tk_live (mc_tasks m) @ [length (tk_slots (mc_tasks m))]"
    "tk_issued r = tk_issued (mc_tasks m) + 1" "tk_delivered r = tk_delivered (mc_tasks m)"
    "tk_superseded r = tk_superseded (mc_tasks m)" "tk_cancelled r = tk_cancelled (mc_tasks m)"
    by (auto simp: push_slot_def)
  have "outstanding r = insert (length (tk_slots (mc_tasks m))) (outstanding (mc_tasks m))"
    by (auto simp: outstanding_def slot_state_def r nth_append less_Suc_eq)
  moreover have "length (tk_slots (mc_tasks m)) \<notin> outstanding (mc_tasks m)"
    by (simp add: outstanding_def)
  ultimately show ?thesis
    using ok ui Push by (auto simp: ledger_ok_def open_tasks_def r)
next
  case Zero
  with wf ui have [simp]: "rest = []" by (auto dest: ui_well_formed_Cons)
  from exec Zero have r: "r = zero_counters (mc_tasks m)" "added = []" by simp_all
  from ok ui Zero have live: "tk_live (mc_tasks m) = []" by (simp add: ledger_ok_def)
  moreover from ok have "outstanding (mc_tasks m) = set (open_tasks m)" by (simp add: ledger_ok_def)
  ultimately have none: "outstanding (mc_tasks m) = {}" using ui Zero by (simp add: open_tasks_def)
  have "outstanding r = outstanding (mc_tasks m)"
    by (simp add: r zero_counters_def outstanding_def slot_state_def)
  with live none show ?thesis
    by (simp add: ledger_ok_def open_tasks_def r zero_counters_def)
next
  case (Release i)
  with exec have r: "added = []" "r = release_completion i (mc_tasks m)" by auto
  have "outstanding r = outstanding (mc_tasks m)"
    by (rule outstanding_update [where i = i and t = "(tk_slots (mc_tasks m) ! i)\<lparr>ts_completion := None\<rparr>"])
      (auto simp: r release_completion_eq slot_state_def)
  with ok ui Release show ?thesis
    using ledger_ok_done [of m a rest r] by (simp add: r release_completion_eq)
next
  case (Wake i)
  with exec have r: "added = []" "r = stop_wake i (mc_tasks m)" by auto
  have "outstanding r = outstanding (mc_tasks m)"
    by (simp add: r stop_wake_def outstanding_def slot_state_def)
  with ok ui Wake show ?thesis
    using ledger_ok_done [of m a rest r] by (simp add: r stop_wake_def)
next
  case (Hand i)
  with exec have r: "added = []" "r = snd (take_completion i (mc_tasks m))" by (auto split: prod.splits)
  have "outstanding r = outstanding (mc_tasks m)"
    by (rule outstanding_update [where i = i and t = "(tk_slots (mc_tasks m) ! i)\<lparr>ts_completion := None\<rparr>"])
      (auto simp: r take_completion_def on_slot_def slot_state_def)
  with ok ui Hand show ?thesis
    using ledger_ok_done [of m a rest r] by (simp add: r take_completion_def on_slot_def)
qed

section \<open>Preservation: completions\<close>

text \<open>Every raw completion is held by a slot, released, or received, with multiplicity.\<close>

definition owned :: "u64 option \<Rightarrow> u64 multiset" where
  "owned c = mset (owned_raw c)"

definition held :: "task_slot list \<Rightarrow> u64 multiset" where
  "held ts = (\<Sum>t \<leftarrow> ts. owned (ts_completion t))"

lemma held_update:
  "i < length ts \<Longrightarrow> held (ts[i := t]) + owned (ts_completion (ts ! i)) = held ts + owned (ts_completion t)"
proof (induction ts arbitrary: i)
  case (Cons u ts)
  show ?case
  proof (cases i)
    case (Suc k)
    with Cons have "held (ts[k := t]) + owned (ts_completion (ts ! k)) = held ts + owned (ts_completion t)" by simp
    then show ?thesis by (simp add: held_def Suc ac_simps)
  qed (simp add: held_def)
qed simp

lemma owned_None [simp]: "owned None = {#}"
  by (simp add: owned_def)

definition received_raws :: "(nat \<times> u64 option) list \<Rightarrow> u64 multiset" where
  "received_raws got = (\<Sum>(i, c) \<leftarrow> got. owned c)"

definition conserved :: "machine \<Rightarrow> bool" where
  "conserved m \<longleftrightarrow>
     filter_mset (\<lambda>raw. raw \<noteq> 0) (mset (mc_handed m)) =
       held (tk_slots (mc_tasks m)) + mset (tk_released (mc_tasks m)) + received_raws (mc_received m)"

lemma conserved_start: "conserved machine_start"
  by (simp add: conserved_def machine_start_def tasks_start_def held_def received_raws_def)

lemma conserved_frame:
  assumes "conserved m" and "mc_handed m' = mc_handed m" and "mc_received m' = mc_received m"
    and "tk_released (mc_tasks m') = tk_released (mc_tasks m)"
    and "held (tk_slots (mc_tasks m')) = held (tk_slots (mc_tasks m))"
  shows "conserved m'"
  using assms by (simp add: conserved_def)

lemma held_same_completion:
  assumes "ts_completion t = ts_completion (ts ! i)"
  shows "held (ts[i := t]) = held ts"
  using held_update [of i ts t] assms by (cases "i < length ts") (auto simp: list_update_beyond)

lemma held_release:
  assumes "i < length ts"
  shows "held ts = held (ts[i := (ts ! i)\<lparr>ts_completion := None\<rparr>]) + owned (ts_completion (ts ! i))"
  using held_update [OF assms, of "(ts ! i)\<lparr>ts_completion := None\<rparr>"] by simp

lemma held_snoc: "held (ts @ [t]) = held ts + owned (ts_completion t)"
  by (simp add: held_def)

lemma begin_held:
  "ui_begin op r = (r', todo) \<Longrightarrow> tk_released r' = tk_released r \<and> held (tk_slots r') = held (tk_slots r)"
  by (cases op) (auto simp: start_ending_def detach_def deliver_claim_def exchange_def on_slot_def
      held_same_completion split: if_splits prod.splits)

lemma begin_task_held:
  "begin_task thread i r = (ok, r') \<Longrightarrow>
     tk_released r' = tk_released r \<and> held (tk_slots r') = held (tk_slots r)"
  by (auto simp: begin_task_def exchange_def on_slot_def held_same_completion split: if_splits)

lemma finish_publish_held:
  "finish_publish i r = (ok, r') \<Longrightarrow>
     tk_released r' = tk_released r \<and> held (tk_slots r') = held (tk_slots r)"
  by (auto simp: finish_publish_def exchange_def on_slot_def held_same_completion split: if_splits)

lemma exec_conserved:
  assumes ok: "slots_ok m" and ui: "mc_ui m = a # rest" and c: "conserved m"
    and exec: "ui_exec a (mc_tasks m) = (r, added, got)"
  shows "conserved (m\<lparr>mc_tasks := r, mc_ui := todo, mc_received := mc_received m @ got\<rparr>)"
proof -
  have in_range: "i < length (tk_slots (mc_tasks m))" if "a = Release i \<or> a = Hand i" for i
    using ok ui that by (auto simp: slots_ok_def not_le [symmetric])
  show ?thesis
  proof (cases a)
    case (Release i)
    with exec have r: "r = release_completion i (mc_tasks m)" "got = []" by auto
    show ?thesis using c held_release [OF in_range, of i] Release
      by (simp add: conserved_def r release_completion_eq owned_def ac_simps)
  next
    case (Hand i)
    with exec have r: "r = snd (take_completion i (mc_tasks m))"
      "got = [(i, ts_completion (tk_slots (mc_tasks m) ! i))]"
      by (auto simp: take_completion_def)
    show ?thesis using c held_release [OF in_range, of i] Hand
      by (simp add: conserved_def r take_completion_def on_slot_def received_raws_def ac_simps)
  qed (use exec c in \<open>auto simp: conserved_def stop_claim_def on_slot_def Let_def held_same_completion
        stop_wake_def push_slot_def held_snoc zero_counters_def split: if_splits\<close>)
qed

lemma conserved_step:
  assumes "task_step m m'" and "slots_ok m" and "current_ok m" and "conserved m"
  shows "conserved m'"
  using assms
proof (induction rule: task_step.induct)
  case (ui_starts m op r todo)
  show ?case by (rule conserved_frame [OF ui_starts(6)]) (use begin_held [OF ui_starts(3)] in simp_all)
next
  case (ui_continues m a rest r added got)
  show ?case by (rule exec_conserved [OF ui_continues(3,1,5,2)])
next
  case (worker_begins i m thread ok r)
  show ?case
    by (rule conserved_frame [OF worker_begins(7)]) (use begin_task_held [OF worker_begins(4)] in simp_all)
next
  case (worker_arms m i thread armed r)
  note r = arm_current(2) [OF worker_arms(4,1,2)]
  have "tk_released r = tk_released (mc_tasks m)" "held (tk_slots r) = held (tk_slots (mc_tasks m))"
    unfolding r by (simp_all add: on_slot_def held_same_completion)
  then show ?case by (intro conserved_frame [OF worker_arms(5)]) simp_all
next
  case (worker_disarms m i thread)
  show ?case
    by (rule conserved_frame [OF worker_disarms(4)]) (simp_all add: interrupt_drop_def on_slot_def held_same_completion)
next
  case (worker_stores m i thread raw)
  have i: "i < length (tk_slots (mc_tasks m))"
    using working_slot [OF worker_stores(2)] worker_stores(1) by simp
  with worker_stores have "slot_ok (tk_slots (mc_tasks m) ! i) (Working thread) (mc_ui m) i"
    by (auto simp: slots_ok_def)
  then have none: "ts_completion (tk_slots (mc_tasks m) ! i) = None"
    by (cases "ts_state (tk_slots (mc_tasks m) ! i)") (auto simp: slot_ok_def)
  show ?case using worker_stores(4) held_update [OF i, of "(tk_slots (mc_tasks m) ! i)\<lparr>ts_completion := Some raw\<rparr>"] none
    by (auto simp: conserved_def finish_store_eq owned_def owned_raw_def ac_simps)
next
  case (worker_publishes m i ok r)
  show ?case
    by (rule conserved_frame [OF worker_publishes(5)]) (use finish_publish_held [OF worker_publishes(2)] in simp_all)
next
  case (worker_discards m i)
  have i: "i < length (tk_slots (mc_tasks m))"
    using working_slot [OF worker_discards(2)] worker_discards(1) by simp
  show ?case using worker_discards(4) held_release [OF i]
    by (simp add: conserved_def release_completion_eq owned_def ac_simps)
next
  case (worker_leaves m i)
  show ?case
    by (rule conserved_frame [OF worker_leaves(4)]) (simp_all add: finish_leave_def)
qed

end
