(* ===== verification/TaskLifetimes.thy ===== *)
theory TaskLifetimes
  imports TaskRaces
begin

text \<open>
  What holds of the task registry in every reachable state of the interleaved machine, and the
  properties of the registry.
\<close>

section \<open>More invariants\<close>

lemma outstanding_cong: "tk_slots r' = tk_slots r \<Longrightarrow> outstanding r' = outstanding r"
  by (simp add: outstanding_def slot_state_def)

lemma outstanding_same_state:
  assumes "tk_slots r' = (tk_slots r)[i := t]" and "ts_state t = ts_state (tk_slots r ! i)"
  shows "outstanding r' = outstanding r"
  by (rule outstanding_update [OF assms(1)]) (simp add: assms(2) slot_state_def)

lemma outstanding_accesses [simp]:
  "outstanding (on_slot i (\<lambda>t. t\<lparr>ts_interrupt := b\<rparr>) r) = outstanding r"
  "outstanding (interrupt_drop armed r) = outstanding r"
  "outstanding (finish_store thread i raw r) = outstanding r"
  "outstanding (release_completion i r) = outstanding r"
  "outstanding (finish_leave i r) = outstanding r"
proof -
  show same: "outstanding (on_slot i (\<lambda>t. t\<lparr>ts_interrupt := b\<rparr>) r) = outstanding r" for i b r
    by (rule outstanding_same_state [where t = "(tk_slots r ! i)\<lparr>ts_interrupt := b\<rparr>"]) (simp_all add: on_slot_def)
  then show "outstanding (interrupt_drop armed r) = outstanding r"
    by (simp add: interrupt_drop_def split: option.splits)
  show "outstanding (finish_store thread i raw r) = outstanding r"
    by (rule outstanding_same_state [where t = "(tk_slots r ! i)\<lparr>ts_completion := Some raw\<rparr>"])
      (simp_all add: finish_store_eq)
  show "outstanding (release_completion i r) = outstanding r"
    by (rule outstanding_same_state [where t = "(tk_slots r ! i)\<lparr>ts_completion := None\<rparr>"])
      (simp_all add: release_completion_eq)
  show "outstanding (finish_leave i r) = outstanding r"
    by (rule outstanding_cong) (simp add: finish_leave_def)
qed

text \<open>The fields of the ledger, as one value.\<close>

definition ledger_of :: "tasks \<Rightarrow> nat list \<times> u64 \<times> u64 \<times> u64 \<times> u64" where
  "ledger_of r = (tk_live r, tk_issued r, tk_delivered r, tk_superseded r, tk_cancelled r)"

lemma ledger_ok_worker:
  assumes "ledger_ok m" and "mc_ui m' = mc_ui m"
    and "outstanding (mc_tasks m') = outstanding (mc_tasks m)"
    and "ledger_of (mc_tasks m') = ledger_of (mc_tasks m)"
  shows "ledger_ok m'"
  by (rule ledger_ok_frame [OF assms(1,2) _ assms(3)]) (use assms(4) in \<open>simp_all add: ledger_of_def\<close>)

lemma begin_task_ledger:
  "begin_task thread i r = (ok, r') \<Longrightarrow> outstanding r' = outstanding r \<and> ledger_of r' = ledger_of r"
  using outstanding_update [of r' r i "(tk_slots r ! i)\<lparr>ts_state := Running\<rparr>"]
  by (auto simp: begin_task_def exchange_def on_slot_def ledger_of_def split: if_splits)

lemma finish_publish_ledger:
  "finish_publish i r = (ok, r') \<Longrightarrow> outstanding r' = outstanding r \<and> ledger_of r' = ledger_of r"
  using outstanding_update [of r' r i "(tk_slots r ! i)\<lparr>ts_state := Published\<rparr>"]
  by (auto simp: finish_publish_def exchange_def on_slot_def ledger_of_def split: if_splits)

lemma ledger_ok_step:
  assumes "task_step m m'" and "slots_ok m" and "current_ok m" and "ledger_ok m"
  shows "ledger_ok m'"
  using assms
proof (induction rule: task_step.induct)
  case (ui_starts m op r todo)
  show ?case by (rule ledger_ok_starts [OF ui_starts(6,1,2,3)])
next
  case (ui_continues m a rest r added got)
  then show ?case by (intro ledger_ok_continues) (simp_all add: slots_ok_def)
next
  case (worker_begins i m thread ok r)
  show ?case by (rule ledger_ok_worker [OF worker_begins(7)]) (use begin_task_ledger [OF worker_begins(4)] in simp_all)
next
  case (worker_arms m i thread armed r)
  note r = arm_current(2) [OF worker_arms(4,1,2)]
  show ?case by (rule ledger_ok_worker [OF worker_arms(5)]) (simp_all add: r ledger_of_def, simp add: on_slot_def)
next
  case (worker_disarms m i thread)
  show ?case
    by (rule ledger_ok_worker [OF worker_disarms(4)]) (simp_all, simp add: ledger_of_def interrupt_drop_def on_slot_def)
next
  case (worker_stores m i thread raw)
  show ?case by (rule ledger_ok_worker [OF worker_stores(4)]) (simp_all, simp add: ledger_of_def finish_store_eq)
next
  case (worker_publishes m i ok r)
  show ?case
    by (rule ledger_ok_worker [OF worker_publishes(5)]) (use finish_publish_ledger [OF worker_publishes(2)] in simp_all)
next
  case (worker_discards m i)
  show ?case
    by (rule ledger_ok_worker [OF worker_discards(4)]) (simp_all, simp add: ledger_of_def release_completion_eq)
next
  case (worker_leaves m i)
  show ?case by (rule ledger_ok_worker [OF worker_leaves(4)]) (simp_all, simp add: ledger_of_def finish_leave_def)
qed

lemma slots_ok_step:
  assumes "task_step m m'" and "slots_ok m" and "current_ok m" and "ledger_ok m"
  shows "slots_ok m'"
  using assms
proof (induction rule: task_step.induct)
  case (ui_starts m op r todo)
  show ?case by (rule slots_ok_starts [OF ui_starts(4,1,2,3)])
next
  case (ui_continues m a rest r added got)
  have "i < length (tk_slots (mc_tasks m))" if "a = Claim why i" for why i
  proof -
    have "i \<in> set (open_tasks m)" using ui_continues(1) that by (simp add: open_tasks_def)
    then have "i \<in> outstanding (mc_tasks m)" using ui_continues(5) by (simp add: ledger_ok_def)
    then show ?thesis by (simp add: outstanding_def)
  qed
  then show ?case by (intro slots_ok_continues [OF ui_continues(3,1) _ ui_continues(2)])
next
  case (worker_begins i m thread ok r)
  let ?t = "tk_slots (mc_tasks m) ! i"
  have ok: "ok \<longleftrightarrow> ts_state ?t = Queued" and
    r: "tk_slots r = (tk_slots (mc_tasks m))[i := ?t\<lparr>ts_state := if ts_state ?t = Queued then Running else ts_state ?t\<rparr>]"
    using worker_begins(4) by (auto simp: begin_task_def exchange_def on_slot_def slot_state_def split: if_splits)
  have "slots_ok (m\<lparr>mc_tasks := r, mc_worker := (mc_worker m)(i := if ok then Working thread else Over),
      mc_handed := mc_handed m\<rparr>)"
    by (rule slots_ok_worker [OF worker_begins(5,1) _ r])
      (use slot_ok_begin [of ?t "mc_ui m" i thread] worker_begins(2) ok in simp)
  then show ?case by simp
next
  case (worker_arms m i thread armed r)
  note r = arm_current(2) [OF worker_arms(4,1,2)]
  have i: "i < length (tk_slots (mc_tasks m))" using working_slot [OF worker_arms(3)] worker_arms(1) by simp
  have "slots_ok (m\<lparr>mc_tasks := r, mc_worker := (mc_worker m)(i := mc_worker m i), mc_handed := mc_handed m\<rparr>)"
    by (rule slots_ok_worker [OF worker_arms(3) i, where t = "(tk_slots (mc_tasks m) ! i)\<lparr>ts_interrupt := True\<rparr>"])
      (simp_all add: r on_slot_def)
  then show ?case by simp
next
  case (worker_disarms m i thread)
  have i: "i < length (tk_slots (mc_tasks m))" using working_slot [OF worker_disarms(2)] worker_disarms(1) by simp
  have "slots_ok (m\<lparr>mc_tasks := interrupt_drop (Some i) (mc_tasks m),
      mc_worker := (mc_worker m)(i := mc_worker m i), mc_handed := mc_handed m\<rparr>)"
    by (rule slots_ok_worker [OF worker_disarms(2) i, where t = "(tk_slots (mc_tasks m) ! i)\<lparr>ts_interrupt := False\<rparr>"])
      (simp_all add: interrupt_drop_def on_slot_def)
  then show ?case by simp
next
  case (worker_stores m i thread raw)
  have i: "i < length (tk_slots (mc_tasks m))" using working_slot [OF worker_stores(2)] worker_stores(1) by simp
  show ?case
    by (rule slots_ok_worker [OF worker_stores(2) i, where t = "(tk_slots (mc_tasks m) ! i)\<lparr>ts_completion := Some raw\<rparr>"])
      (use worker_stores(1) slot_ok_store in \<open>simp_all add: finish_store_eq\<close>)
next
  case (worker_publishes m i ok r)
  let ?t = "tk_slots (mc_tasks m) ! i"
  have i: "i < length (tk_slots (mc_tasks m))" using working_slot [OF worker_publishes(3)] worker_publishes(1) by simp
  have ok: "ok \<longleftrightarrow> ts_state ?t = Running" and
    r: "tk_slots r = (tk_slots (mc_tasks m))[i := ?t\<lparr>ts_state := if ts_state ?t = Running then Published else ts_state ?t\<rparr>]"
    using worker_publishes(2) by (auto simp: finish_publish_def exchange_def on_slot_def slot_state_def split: if_splits)
  have "slots_ok (m\<lparr>mc_tasks := r, mc_worker := (mc_worker m)(i := if ok then Leaving else Missed),
      mc_handed := mc_handed m\<rparr>)"
    by (rule slots_ok_worker [OF worker_publishes(3) i _ r])
      (use slot_ok_publish [of ?t "mc_ui m" i] worker_publishes(1) ok in simp)
  then show ?case by simp
next
  case (worker_discards m i)
  have i: "i < length (tk_slots (mc_tasks m))" using working_slot [OF worker_discards(2)] worker_discards(1) by simp
  have "slots_ok (m\<lparr>mc_tasks := release_completion i (mc_tasks m),
      mc_worker := (mc_worker m)(i := Leaving), mc_handed := mc_handed m\<rparr>)"
    by (rule slots_ok_worker [OF worker_discards(2) i, where t = "(tk_slots (mc_tasks m) ! i)\<lparr>ts_completion := None\<rparr>"])
      (use worker_discards(1) slot_ok_discard in \<open>simp_all add: release_completion_eq\<close>)
  then show ?case by simp
next
  case (worker_leaves m i)
  have i: "i < length (tk_slots (mc_tasks m))" using working_slot [OF worker_leaves(2)] worker_leaves(1) by simp
  have "slots_ok (m\<lparr>mc_tasks := finish_leave i (mc_tasks m),
      mc_worker := (mc_worker m)(i := Over), mc_handed := mc_handed m\<rparr>)"
    by (rule slots_ok_worker [OF worker_leaves(2) i, where t = "tk_slots (mc_tasks m) ! i"])
      (use worker_leaves(1) slot_ok_leave in \<open>simp_all add: finish_leave_def\<close>)
  then show ?case by simp
qed

section \<open>Keys\<close>

definition task_key :: "tasks \<Rightarrow> nat \<Rightarrow> u64 \<times> string" where
  "task_key r i = (ts_owner (tk_slots r ! i), ts_key (tk_slots r ! i))"

definition keyed_live :: "tasks \<Rightarrow> nat set" where
  "keyed_live r = {i \<in> set (tk_live r). snd (task_key r i) \<noteq> []}"

definition keys_ok :: "machine \<Rightarrow> bool" where
  "keys_ok m \<longleftrightarrow>
     inj_on (task_key (mc_tasks m)) (keyed_live (mc_tasks m)) \<and>
     (\<forall>owner key. Push owner key \<in> set (mc_ui m) \<longrightarrow>
        (owner, key) \<notin> task_key (mc_tasks m) ` keyed_live (mc_tasks m))"

text \<open>An access that leaves every slot's owner and key as they were.\<close>

definition keeps_keys :: "tasks \<Rightarrow> tasks \<Rightarrow> bool" where
  "keeps_keys r r' \<longleftrightarrow> length (tk_slots r') = length (tk_slots r) \<and>
     (\<forall>i < length (tk_slots r). task_key r' i = task_key r i)"

lemma keeps_keys_update:
  assumes "tk_slots r' = (tk_slots r)[i := t]" and "ts_owner t = ts_owner (tk_slots r ! i)"
    and "ts_key t = ts_key (tk_slots r ! i)"
  shows "keeps_keys r r'"
proof -
  have "ts_owner ((tk_slots r)[i := t] ! j) = ts_owner (tk_slots r ! j) \<and>
      ts_key ((tk_slots r)[i := t] ! j) = ts_key (tk_slots r ! j)" if "j < length (tk_slots r)" for j
    using that assms(2,3) by (cases "j = i") auto
  then show ?thesis by (simp add: keeps_keys_def task_key_def assms(1))
qed

lemma keeps_keys_refl: "tk_slots r' = tk_slots r \<Longrightarrow> keeps_keys r r'"
  by (simp add: keeps_keys_def task_key_def)

lemma keys_ok_shrink:
  assumes ok: "keys_ok m" and ledger: "ledger_ok m" and keep: "keeps_keys (mc_tasks m) (mc_tasks m')"
    and live: "set (tk_live (mc_tasks m')) \<subseteq> set (tk_live (mc_tasks m))"
    and ui: "\<And>owner key. Push owner key \<in> set (mc_ui m') \<Longrightarrow>
      Push owner key \<in> set (mc_ui m) \<or>
      (\<forall>i \<in> set (tk_live (mc_tasks m')). task_key (mc_tasks m') i \<noteq> (owner, key)) \<or> key = []"
  shows "keys_ok m'"
proof -
  have "set (tk_live (mc_tasks m)) \<subseteq> outstanding (mc_tasks m)"
    using ledger by (auto simp: ledger_ok_def open_tasks_def)
  then have "set (tk_live (mc_tasks m)) \<subseteq> {i. i < length (tk_slots (mc_tasks m))}"
    by (auto simp: outstanding_def)
  then have same: "task_key (mc_tasks m') i = task_key (mc_tasks m) i" if "i \<in> set (tk_live (mc_tasks m'))" for i
    using keep live that by (auto simp: keeps_keys_def)
  then have sub: "keyed_live (mc_tasks m') \<subseteq> keyed_live (mc_tasks m)"
    using live by (auto simp: keyed_live_def)
  have inj: "inj_on (task_key (mc_tasks m)) (keyed_live (mc_tasks m))" using ok by (simp add: keys_ok_def)
  have eq: "task_key (mc_tasks m') i = task_key (mc_tasks m) i" if "i \<in> keyed_live (mc_tasks m')" for i
    using same that by (simp add: keyed_live_def)
  have "inj_on (task_key (mc_tasks m')) (keyed_live (mc_tasks m'))"
    using inj_on_subset [OF inj sub] eq by (simp add: inj_on_def)
  moreover have "(owner, key) \<notin> task_key (mc_tasks m') ` keyed_live (mc_tasks m')"
    if push: "Push owner key \<in> set (mc_ui m')" for owner key
  proof
    assume "(owner, key) \<in> task_key (mc_tasks m') ` keyed_live (mc_tasks m')"
    then obtain i where i: "i \<in> keyed_live (mc_tasks m')" "task_key (mc_tasks m') i = (owner, key)" by force
    then have key: "key \<noteq> []" "i \<in> set (tk_live (mc_tasks m'))" by (auto simp: keyed_live_def)
    with ui [OF push] i have "Push owner key \<in> set (mc_ui m)" by blast
    moreover have "(owner, key) \<in> task_key (mc_tasks m) ` keyed_live (mc_tasks m)"
      using i sub eq by (metis image_eqI subsetD)
    ultimately show False using ok by (auto simp: keys_ok_def)
  qed
  ultimately show ?thesis by (simp add: keys_ok_def)
qed

lemma begin_keys:
  assumes "ui_begin op r = (r', todo)"
  shows "keeps_keys r r' \<and> set (tk_live r') \<subseteq> set (tk_live r) \<and>
    (\<forall>owner key. Push owner key \<in> set todo \<longrightarrow>
       (\<forall>i \<in> set (tk_live r'). task_key r' i \<noteq> (owner, key)) \<or> key = [])"
proof (cases op)
  case (Deliver i)
  have "keeps_keys r r'"
    using assms Deliver keeps_keys_update [of r' r i "(tk_slots r ! i)\<lparr>ts_state := Delivered\<rparr>"]
    by (auto simp: deliver_claim_def exchange_def on_slot_def keeps_keys_refl split: if_splits)
  with assms Deliver show ?thesis
    by (auto simp: deliver_claim_def exchange_def on_slot_def split: if_splits)
qed (use assms in \<open>auto simp: start_ending_def detach_def keeps_keys_def task_key_def keyed_def split: if_splits\<close>)

lemma exec_keys:
  "ui_exec a r = (r', added, got) \<Longrightarrow> (\<And>owner key. a \<noteq> Push owner key) \<Longrightarrow>
   keeps_keys r r' \<and> tk_live r' = tk_live r \<and> (\<forall>owner key. Push owner key \<notin> set added)"
proof (cases a)
  case (Claim why i)
  assume "ui_exec a r = (r', added, got)"
  with Claim show ?thesis
    using keeps_keys_update [of r' r i "(tk_slots r ! i)\<lparr>ts_state := why\<rparr>"]
    by (auto simp: stop_claim_def on_slot_def Let_def keeps_keys_refl split: if_splits)
next
  case (Release i)
  assume "ui_exec a r = (r', added, got)"
  with Release show ?thesis
    using keeps_keys_update [of r' r i "(tk_slots r ! i)\<lparr>ts_completion := None\<rparr>"]
    by (auto simp: release_completion_eq)
next
  case (Hand i)
  assume "ui_exec a r = (r', added, got)"
  with Hand show ?thesis
    using keeps_keys_update [of r' r i "(tk_slots r ! i)\<lparr>ts_completion := None\<rparr>"]
    by (auto simp: take_completion_def on_slot_def)
qed (auto simp: stop_wake_def zero_counters_def keeps_keys_refl split: if_splits)

lemma keys_ok_push:
  assumes ok: "keys_ok m" and ledger: "ledger_ok m" and ui: "mc_ui m = [Push owner key]"
    and exec: "ui_exec (Push owner key) (mc_tasks m) = (r, added, got)"
  shows "keys_ok (m\<lparr>mc_tasks := r, mc_ui := added, mc_received := received\<rparr>)"
proof -
  let ?n = "length (tk_slots (mc_tasks m))"
  from exec have r: "added = []" "tk_live r = tk_live (mc_tasks m) @ [?n]"
    "tk_slots r = tk_slots (mc_tasks m) @
      [\<lparr>ts_owner = owner, ts_key = key, ts_state = Queued, ts_interrupt = False, ts_completion = None\<rparr>]"
    by (auto simp: push_slot_def)
  have "set (tk_live (mc_tasks m)) \<subseteq> outstanding (mc_tasks m)"
    using ledger by (auto simp: ledger_ok_def open_tasks_def)
  then have range: "i < ?n" if "i \<in> set (tk_live (mc_tasks m))" for i
    using that by (auto simp: outstanding_def)
  have same: "task_key r i = task_key (mc_tasks m) i" if "i < ?n" for i
    using that by (simp add: task_key_def r nth_append)
  have new: "task_key r ?n = (owner, key)" by (simp add: task_key_def r)
  have live: "keyed_live r = keyed_live (mc_tasks m) \<union> (if key = [] then {} else {?n})"
    using range same new by (auto simp: keyed_live_def r)
  have in_range: "i < ?n" if "i \<in> keyed_live (mc_tasks m)" for i
    using that range by (simp add: keyed_live_def)
  have "inj_on (task_key r) (keyed_live (mc_tasks m))"
    using ok same in_range by (simp add: keys_ok_def inj_on_def)
  moreover have "(owner, key) \<notin> task_key r ` keyed_live (mc_tasks m)"
    using ok ui same in_range by (auto simp: keys_ok_def image_iff)
  moreover have "?n \<notin> keyed_live (mc_tasks m)" using in_range by blast
  ultimately show ?thesis by (simp add: keys_ok_def live r(1) new)
qed

lemma worker_keys:
  "begin_task thread i r = (ok, r') \<Longrightarrow> keeps_keys r r' \<and> tk_live r' = tk_live r"
  "finish_publish i r = (ok, r') \<Longrightarrow> keeps_keys r r' \<and> tk_live r' = tk_live r"
  "keeps_keys r (on_slot i (\<lambda>t. t\<lparr>ts_interrupt := b\<rparr>) r) \<and> tk_live (on_slot i f r) = tk_live r"
  "keeps_keys r (finish_store thread i raw r) \<and> tk_live (finish_store thread i raw r) = tk_live r"
  "keeps_keys r (release_completion i r) \<and> tk_live (release_completion i r) = tk_live r"
  "keeps_keys r (finish_leave i r) \<and> tk_live (finish_leave i r) = tk_live r"
proof -
  show "begin_task thread i r = (ok, r') \<Longrightarrow> keeps_keys r r' \<and> tk_live r' = tk_live r"
    using keeps_keys_update [of r' r i "(tk_slots r ! i)\<lparr>ts_state := Running\<rparr>"]
    by (auto simp: begin_task_def exchange_def on_slot_def keeps_keys_refl split: if_splits)
  show "finish_publish i r = (ok, r') \<Longrightarrow> keeps_keys r r' \<and> tk_live r' = tk_live r"
    using keeps_keys_update [of r' r i "(tk_slots r ! i)\<lparr>ts_state := Published\<rparr>"]
    by (auto simp: finish_publish_def exchange_def on_slot_def keeps_keys_refl split: if_splits)
  show "keeps_keys r (on_slot i (\<lambda>t. t\<lparr>ts_interrupt := b\<rparr>) r) \<and> tk_live (on_slot i f r) = tk_live r"
    by (simp add: on_slot_def keeps_keys_update)
  show "keeps_keys r (finish_store thread i raw r) \<and> tk_live (finish_store thread i raw r) = tk_live r"
    by (simp add: finish_store_eq keeps_keys_update)
  show "keeps_keys r (release_completion i r) \<and> tk_live (release_completion i r) = tk_live r"
    by (simp add: release_completion_eq keeps_keys_update)
  show "keeps_keys r (finish_leave i r) \<and> tk_live (finish_leave i r) = tk_live r"
    by (simp add: finish_leave_def keeps_keys_refl)
qed

lemma keys_ok_worker:
  assumes "keys_ok m" and "ledger_ok m" and "mc_ui m' = mc_ui m"
    and "keeps_keys (mc_tasks m) (mc_tasks m') \<and> tk_live (mc_tasks m') = tk_live (mc_tasks m)"
  shows "keys_ok m'"
  by (rule keys_ok_shrink [OF assms(1,2)]) (use assms(3,4) in auto)

lemma keys_ok_step:
  assumes "task_step m m'" and "slots_ok m" and "current_ok m" and "ledger_ok m" and "keys_ok m"
  shows "keys_ok m'"
  using assms
proof (induction rule: task_step.induct)
  case (ui_starts m op r todo)
  note begin_keys [OF ui_starts(3)]
  then show ?case by (intro keys_ok_shrink [OF ui_starts(7,6)]) auto
next
  case (ui_continues m a rest r added got)
  show ?case
  proof (cases "\<exists>owner key. a = Push owner key")
    case True
    then obtain owner key where a: "a = Push owner key" by blast
    with ui_continues(1,3) have "rest = []"
      by (auto simp: slots_ok_def dest: ui_well_formed_Cons)
    with ui_continues a show ?thesis
      by (simp add: keys_ok_push del: ui_exec.simps)
  next
    case False
    with exec_keys [OF ui_continues(2)] have *: "keeps_keys (mc_tasks m) r"
      "tk_live r = tk_live (mc_tasks m)" "\<forall>owner key. Push owner key \<notin> set added" by auto
    show ?thesis
      by (rule keys_ok_shrink [OF ui_continues(6,5)]) (use * ui_continues(1) in auto)
  qed
next
  case (worker_begins i m thread ok r)
  show ?case by (rule keys_ok_worker [OF worker_begins(8,7)]) (use worker_keys(1) [OF worker_begins(4)] in simp_all)
next
  case (worker_arms m i thread armed r)
  note r = arm_current(2) [OF worker_arms(4,1,2)]
  show ?case by (rule keys_ok_worker [OF worker_arms(6,5)]) (use worker_keys(3) in \<open>simp_all add: r\<close>)
next
  case (worker_disarms m i thread)
  show ?case
    by (rule keys_ok_worker [OF worker_disarms(5,4)]) (use worker_keys(3) in \<open>simp_all add: interrupt_drop_def\<close>)
next
  case (worker_stores m i thread raw)
  show ?case by (rule keys_ok_worker [OF worker_stores(5,4)]) (use worker_keys(4) in simp_all)
next
  case (worker_publishes m i ok r)
  show ?case by (rule keys_ok_worker [OF worker_publishes(6,5)]) (use worker_keys(2) [OF worker_publishes(2)] in simp_all)
next
  case (worker_discards m i)
  show ?case by (rule keys_ok_worker [OF worker_discards(5,4)]) (use worker_keys(5) in simp_all)
next
  case (worker_leaves m i)
  show ?case by (rule keys_ok_worker [OF worker_leaves(5,4)]) (use worker_keys(6) in simp_all)
qed

section \<open>Deliveries\<close>

fun hands :: "ui_action list \<Rightarrow> nat list" where
  "hands [] = []"
| "hands (Hand i # rest) = i # hands rest"
| "hands (_ # rest) = hands rest"

lemma hands_append [simp]: "hands (xs @ ys) = hands xs @ hands ys"
  by (induction xs rule: hands.induct) simp_all

lemma set_hands: "i \<in> set (hands ui) \<longleftrightarrow> Hand i \<in> set ui"
  by (induction ui rule: hands.induct) auto

definition delivered_slots :: "tasks \<Rightarrow> nat set" where
  "delivered_slots r = {i. i < length (tk_slots r) \<and> slot_state r i = Delivered}"

definition received_ok :: "machine \<Rightarrow> bool" where
  "received_ok m \<longleftrightarrow>
     distinct (map fst (mc_received m) @ hands (mc_ui m)) \<and>
     set (map fst (mc_received m) @ hands (mc_ui m)) = delivered_slots (mc_tasks m) \<and>
     (\<forall>(i, c) \<in> set (mc_received m). c \<noteq> None)"

lemma delivered_slots_cong: "tk_slots r' = tk_slots r \<Longrightarrow> delivered_slots r' = delivered_slots r"
  by (simp add: delivered_slots_def slot_state_def)

lemma delivered_slots_update:
  assumes "tk_slots r' = (tk_slots r)[i := t]"
    and "ts_state t = Delivered \<longleftrightarrow> ts_state (tk_slots r ! i) = Delivered"
  shows "delivered_slots r' = delivered_slots r"
proof -
  have "ts_state ((tk_slots r)[i := t] ! j) = Delivered \<longleftrightarrow> ts_state (tk_slots r ! j) = Delivered"
    if "j < length (tk_slots r)" for j
    using that assms(2) by (cases "j = i") auto
  then show ?thesis by (auto simp: delivered_slots_def slot_state_def assms(1))
qed

lemma received_ok_frame:
  assumes "received_ok m" and "mc_ui m' = mc_ui m" and "mc_received m' = mc_received m"
    and "delivered_slots (mc_tasks m') = delivered_slots (mc_tasks m)"
  shows "received_ok m'"
  using assms by (simp add: received_ok_def)

lemma accesses_delivered:
  "delivered_slots (on_slot i (\<lambda>t. t\<lparr>ts_interrupt := b\<rparr>) r) = delivered_slots r"
  "delivered_slots (finish_store thread i raw r) = delivered_slots r"
  "delivered_slots (release_completion i r) = delivered_slots r"
  "delivered_slots (finish_leave i r) = delivered_slots r"
  "begin_task thread i r = (ok, r') \<Longrightarrow> delivered_slots r' = delivered_slots r"
  "finish_publish i r = (ok, r') \<Longrightarrow> delivered_slots r' = delivered_slots r"
proof -
  show "delivered_slots (on_slot i (\<lambda>t. t\<lparr>ts_interrupt := b\<rparr>) r) = delivered_slots r"
    by (rule delivered_slots_update [where t = "(tk_slots r ! i)\<lparr>ts_interrupt := b\<rparr>"]) (simp_all add: on_slot_def)
  show "delivered_slots (finish_store thread i raw r) = delivered_slots r"
    by (rule delivered_slots_update [where t = "(tk_slots r ! i)\<lparr>ts_completion := Some raw\<rparr>"])
      (simp_all add: finish_store_eq)
  show "delivered_slots (release_completion i r) = delivered_slots r"
    by (rule delivered_slots_update [where t = "(tk_slots r ! i)\<lparr>ts_completion := None\<rparr>"])
      (simp_all add: release_completion_eq)
  show "delivered_slots (finish_leave i r) = delivered_slots r"
    by (rule delivered_slots_cong) (simp add: finish_leave_def)
  show "begin_task thread i r = (ok, r') \<Longrightarrow> delivered_slots r' = delivered_slots r"
    using delivered_slots_update [of r' r i "(tk_slots r ! i)\<lparr>ts_state := Running\<rparr>"]
    by (auto simp: begin_task_def exchange_def on_slot_def slot_state_def split: if_splits)
  show "finish_publish i r = (ok, r') \<Longrightarrow> delivered_slots r' = delivered_slots r"
    using delivered_slots_update [of r' r i "(tk_slots r ! i)\<lparr>ts_state := Published\<rparr>"]
    by (auto simp: finish_publish_def exchange_def on_slot_def slot_state_def split: if_splits)
qed

lemma hands_claims [simp]: "hands (map (Claim why) ids) = []"
  by (induction ids) simp_all

lemma received_ok_starts:
  assumes ok: "received_ok m" and idle: "mc_ui m = []" and allowed: "ui_allowed op (mc_tasks m)"
    and start: "ui_begin op (mc_tasks m) = (r, todo)"
  shows "received_ok (m\<lparr>mc_tasks := r, mc_ui := todo\<rparr>)"
proof (cases "\<exists>i. op = Deliver i \<and> slot_state (mc_tasks m) i = Published")
  case True
  then obtain i where i: "op = Deliver i" "slot_state (mc_tasks m) i = Published" by blast
  with start have todo: "todo = [Hand i]" and
    r: "tk_slots r = (tk_slots (mc_tasks m))[i := (tk_slots (mc_tasks m) ! i)\<lparr>ts_state := Delivered\<rparr>]"
    by (auto simp: deliver_claim_def exchange_def on_slot_def)
  from allowed i have range: "i < length (tk_slots (mc_tasks m))" by simp
  have "delivered_slots r = insert i (delivered_slots (mc_tasks m))"
    using range by (auto simp: delivered_slots_def slot_state_def r nth_list_update)
  moreover have "i \<notin> delivered_slots (mc_tasks m)" using i by (simp add: delivered_slots_def)
  ultimately show ?thesis using ok idle by (auto simp: received_ok_def todo)
next
  case False
  with start have "tk_slots r = tk_slots (mc_tasks m) \<and> hands todo = []"
    by (cases op) (auto simp: start_ending_def detach_def deliver_claim_def exchange_def split: if_splits)
  then show ?thesis using ok idle delivered_slots_cong [of r "mc_tasks m"] by (simp add: received_ok_def)
qed

lemma received_ok_continues:
  assumes sok: "slots_ok m" and lok: "ledger_ok m" and ok: "received_ok m" and ui: "mc_ui m = a # rest"
    and exec: "ui_exec a (mc_tasks m) = (r, added, got)"
  shows "received_ok (m\<lparr>mc_tasks := r, mc_ui := added @ rest, mc_received := mc_received m @ got\<rparr>)"
proof (cases a)
  case (Hand i)
  have i: "i < length (tk_slots (mc_tasks m))" using sok ui Hand by (auto simp: slots_ok_def not_le [symmetric])
  with sok ui Hand have "slot_ok (tk_slots (mc_tasks m) ! i) (mc_worker m i) (mc_ui m) i" by (simp add: slots_ok_def)
  then have some: "ts_completion (tk_slots (mc_tasks m) ! i) \<noteq> None"
    using ui Hand by (auto simp: slot_ok_def)
  have "delivered_slots r = delivered_slots (mc_tasks m)"
    using exec Hand delivered_slots_update [of r "mc_tasks m" i "(tk_slots (mc_tasks m) ! i)\<lparr>ts_completion := None\<rparr>"]
    by (auto simp: take_completion_def on_slot_def)
  moreover have "added = []" "got = [(i, ts_completion (tk_slots (mc_tasks m) ! i))]"
    using exec Hand by (auto simp: take_completion_def)
  ultimately show ?thesis using ok ui Hand some by (auto simp: received_ok_def)
next
  case (Claim why i)
  have "i \<in> set (open_tasks m)" using ui Claim by (simp add: open_tasks_def)
  then have i: "i \<in> outstanding (mc_tasks m)" using lok by (simp add: ledger_ok_def)
  have why: "Superseded \<le> why" using sok ui Claim by (auto simp: slots_ok_def ui_well_formed_def)
  have "ts_state (tk_slots (mc_tasks m) ! i) \<noteq> Delivered" "why \<noteq> Delivered"
    using i why by (auto simp: outstanding_def slot_state_def)
  then have "delivered_slots r = delivered_slots (mc_tasks m)"
    using exec Claim delivered_slots_update [of r "mc_tasks m" i "(tk_slots (mc_tasks m) ! i)\<lparr>ts_state := why\<rparr>"]
    by (auto simp: stop_claim_def on_slot_def Let_def split: if_splits)
  moreover have "hands added = []" "got = []"
    using exec Claim by (auto simp: stop_claim_def Let_def split: if_splits)
  ultimately show ?thesis using ok ui Claim by (simp add: received_ok_def)
next
  case (Push owner key)
  then have "delivered_slots r = delivered_slots (mc_tasks m)"
    using exec by (auto simp: delivered_slots_def slot_state_def push_slot_def nth_append less_Suc_eq)
  with exec Push ok ui show ?thesis by (simp add: received_ok_def)
next
  case (Release i)
  with exec ok ui show ?thesis by (auto simp: received_ok_def accesses_delivered)
next
  case (Wake i)
  then have "delivered_slots r = delivered_slots (mc_tasks m)"
    using exec by (intro delivered_slots_cong) (auto simp: stop_wake_def)
  with exec Wake ok ui show ?thesis by (simp add: received_ok_def)
next
  case Zero
  then have "delivered_slots r = delivered_slots (mc_tasks m)"
    using exec by (intro delivered_slots_cong) (auto simp: zero_counters_def)
  with exec Zero ok ui show ?thesis by (simp add: received_ok_def)
qed

lemma received_ok_step:
  assumes "task_step m m'" and "slots_ok m" and "current_ok m" and "ledger_ok m" and "received_ok m"
  shows "received_ok m'"
  using assms
proof (induction rule: task_step.induct)
  case (ui_starts m op r todo)
  show ?case by (rule received_ok_starts [OF ui_starts(7,1,2,3)])
next
  case (ui_continues m a rest r added got)
  show ?case by (rule received_ok_continues [OF ui_continues(3,5,6,1,2)])
next
  case (worker_arms m i thread armed r)
  note r = arm_current(2) [OF worker_arms(4,1,2)]
  show ?case by (rule received_ok_frame [OF worker_arms(6)]) (simp_all add: r accesses_delivered)
next
  case (worker_disarms m i thread)
  show ?case
    by (rule received_ok_frame [OF worker_disarms(5)]) (simp_all add: interrupt_drop_def accesses_delivered)
next
  case (worker_begins i m thread ok r)
  show ?case by (rule received_ok_frame [OF worker_begins(8)]) (use accesses_delivered(5) [OF worker_begins(4)] in simp_all)
next
  case (worker_publishes m i ok r)
  show ?case by (rule received_ok_frame [OF worker_publishes(6)]) (use accesses_delivered(6) [OF worker_publishes(2)] in simp_all)
next
  case (worker_stores m i thread raw)
  show ?case by (rule received_ok_frame [OF worker_stores(5)]) (simp_all add: accesses_delivered)
next
  case (worker_discards m i)
  show ?case by (rule received_ok_frame [OF worker_discards(5)]) (simp_all add: accesses_delivered)
next
  case (worker_leaves m i)
  show ?case by (rule received_ok_frame [OF worker_leaves(5)]) (simp_all add: accesses_delivered)
qed

section \<open>Reachable states\<close>

definition task_reachable :: "machine \<Rightarrow> bool" where
  "task_reachable m \<longleftrightarrow> task_step\<^sup>*\<^sup>* machine_start m"

definition sound :: "machine \<Rightarrow> bool" where
  "sound m \<longleftrightarrow> slots_ok m \<and> current_ok m \<and> ledger_ok m \<and> conserved m \<and> keys_ok m \<and> received_ok m"

lemma sound_start: "sound machine_start"
  using slots_ok_start ledger_ok_start conserved_start
  by (simp add: sound_def) (simp add: machine_start_def tasks_start_def current_ok_def keys_ok_def
      keyed_live_def received_ok_def delivered_slots_def)

lemma sound_step: "task_step m m' \<Longrightarrow> sound m \<Longrightarrow> sound m'"
  unfolding sound_def
  using slots_ok_step current_ok_step ledger_ok_step conserved_step keys_ok_step received_ok_step by blast

lemma reachable_sound: "task_reachable m \<Longrightarrow> sound m"
  unfolding task_reachable_def
  by (induction rule: rtranclp_induct) (blast intro: sound_start sound_step)+

text \<open>One step never revives a task that is over.\<close>

lemma over_update:
  assumes "tk_slots r' = (tk_slots r)[i := t]" and "\<not> Delivered \<le> ts_state (tk_slots r ! i) \<or> ts_state t = ts_state (tk_slots r ! i)"
    and "Delivered \<le> slot_state r j"
  shows "slot_state r' j = slot_state r j"
  using assms by (cases "j = i"; cases "i < length (tk_slots r)") (auto simp: slot_state_def list_update_beyond)

lemma over_frame: "tk_slots r' = tk_slots r \<Longrightarrow> slot_state r' j = slot_state r j"
  by (simp add: slot_state_def)

lemma exchange_over:
  assumes "exchange i expected new r = (ok, r')" and "expected < Delivered" and "Delivered \<le> slot_state r j"
  shows "slot_state r' j = slot_state r j"
proof (cases "slot_state r i = expected")
  case True
  with assms(1) have "tk_slots r' = (tk_slots r)[i := (tk_slots r ! i)\<lparr>ts_state := new\<rparr>]"
    by (auto simp: exchange_def on_slot_def)
  then show ?thesis by (rule over_update) (use True assms in \<open>auto simp: slot_state_def\<close>)
qed (use assms in \<open>auto simp: exchange_def\<close>)

lemma over_accesses:
  assumes "Delivered \<le> slot_state r j"
  shows "slot_state (on_slot i (\<lambda>t. t\<lparr>ts_interrupt := b\<rparr>) r) j = slot_state r j"
    and "slot_state (finish_store thread i raw r) j = slot_state r j"
    and "slot_state (release_completion i r) j = slot_state r j"
    and "slot_state (finish_leave i r) j = slot_state r j"
    and "begin_task thread i r = (ok, r') \<Longrightarrow> slot_state r' j = slot_state r j"
    and "finish_publish i r = (ok, r') \<Longrightarrow> slot_state r' j = slot_state r j"
    and "deliver_claim i r = (ok, r') \<Longrightarrow> slot_state r' j = slot_state r j"
    and "stop_claim why i r = (ok, r') \<Longrightarrow> slot_state r' j = slot_state r j"
    and "take_completion i r = (c, r') \<Longrightarrow> slot_state r' j = slot_state r j"
proof -
  note upd = over_update [OF _ _ assms]
  show "slot_state (on_slot i (\<lambda>t. t\<lparr>ts_interrupt := b\<rparr>) r) j = slot_state r j"
    by (rule upd [where i = i and t = "(tk_slots r ! i)\<lparr>ts_interrupt := b\<rparr>"]) (simp_all add: on_slot_def)
  show "slot_state (finish_store thread i raw r) j = slot_state r j"
    by (rule upd [where i = i and t = "(tk_slots r ! i)\<lparr>ts_completion := Some raw\<rparr>"])
      (simp_all add: finish_store_eq)
  show "slot_state (release_completion i r) j = slot_state r j"
    by (rule upd [where i = i and t = "(tk_slots r ! i)\<lparr>ts_completion := None\<rparr>"])
      (simp_all add: release_completion_eq)
  show "slot_state (finish_leave i r) j = slot_state r j" by (rule over_frame) (simp add: finish_leave_def)
  show "slot_state r' j = slot_state r j" if "begin_task thread i r = (ok, r')"
  proof -
    obtain ok' r1 where r1: "exchange i Queued Running r = (ok', r1)" by fastforce
    with that have "tk_slots r' = tk_slots r1"
      by (auto simp: begin_task_def exchange_def on_slot_def split: if_splits)
    then have "slot_state r' j = slot_state r1 j" by (rule over_frame)
    also have "\<dots> = slot_state r j" by (rule exchange_over [OF r1 _ assms]) simp
    finally show ?thesis .
  qed
  show "slot_state r' j = slot_state r j" if "finish_publish i r = (ok, r')"
  proof -
    obtain ok' r1 where r1: "exchange i Running Published r = (ok', r1)" by fastforce
    with that have "tk_slots r' = tk_slots r1"
      by (auto simp: finish_publish_def exchange_def on_slot_def split: if_splits)
    then have "slot_state r' j = slot_state r1 j" by (rule over_frame)
    also have "\<dots> = slot_state r j" by (rule exchange_over [OF r1 _ assms]) simp
    finally show ?thesis .
  qed
  show "slot_state r' j = slot_state r j" if "deliver_claim i r = (ok, r')"
  proof -
    obtain ok' r1 where r1: "exchange i Published Delivered r = (ok', r1)" by fastforce
    with that have "tk_slots r' = tk_slots r1"
      by (auto simp: deliver_claim_def exchange_def on_slot_def split: if_splits)
    then have "slot_state r' j = slot_state r1 j" by (rule over_frame)
    also have "\<dots> = slot_state r j" by (rule exchange_over [OF r1 _ assms]) simp
    finally show ?thesis .
  qed
  show "slot_state r' j = slot_state r j" if "stop_claim why i r = (ok, r')"
  proof (cases "Delivered \<le> slot_state r i")
    case False
    with that have "tk_slots r' = (tk_slots r)[i := (tk_slots r ! i)\<lparr>ts_state := why\<rparr>]"
      by (auto simp: stop_claim_def on_slot_def Let_def split: if_splits)
    then show ?thesis by (rule upd) (use False in \<open>simp add: slot_state_def\<close>)
  qed (use that in \<open>auto simp: stop_claim_def\<close>)
  show "slot_state r' j = slot_state r j" if "take_completion i r = (c, r')"
    by (rule upd [where i = i and t = "(tk_slots r ! i)\<lparr>ts_completion := None\<rparr>"])
      (use that in \<open>auto simp: take_completion_def on_slot_def\<close>)
qed

lemma slots_grow:
  assumes "task_step m m'" and "sound m"
  shows "length (tk_slots (mc_tasks m)) \<le> length (tk_slots (mc_tasks m'))"
  using assms
proof (induction rule: task_step.induct)
  case (ui_starts m op r todo)
  then show ?case using begin_keys [OF ui_starts(3)] by (simp add: keeps_keys_def)
next
  case (ui_continues m a rest r added got)
  then show ?case using exec_keys [OF ui_continues(2)]
    by (cases a) (auto simp: keeps_keys_def push_slot_def)
next
  case (worker_begins i m thread ok r)
  then show ?case using worker_keys(1) [OF worker_begins(4)] by (simp add: keeps_keys_def)
next
  case (worker_arms m i thread armed r)
  have "current_ok m" using worker_arms(3) by (simp add: sound_def)
  note r = arm_current(2) [OF this worker_arms(1,2)]
  show ?case by (simp add: r on_slot_def)
next
  case (worker_publishes m i ok r)
  then show ?case using worker_keys(2) [OF worker_publishes(2)] by (simp add: keeps_keys_def)
qed (simp_all add: interrupt_drop_def on_slot_def finish_store_eq release_completion_eq finish_leave_def)

lemma over_step:
  assumes "task_step m m'" and "sound m" and "j < length (tk_slots (mc_tasks m))"
    and "Delivered \<le> slot_state (mc_tasks m) j"
  shows "slot_state (mc_tasks m') j = slot_state (mc_tasks m) j \<and> j < length (tk_slots (mc_tasks m'))"
proof
  show "slot_state (mc_tasks m') j = slot_state (mc_tasks m) j"
    using assms
  proof (induction rule: task_step.induct)
    case (ui_starts m op r todo)
    show ?case
    proof (cases op)
      case (Deliver i)
      with ui_starts(3) obtain ok where "deliver_claim i (mc_tasks m) = (ok, r)"
        by (auto split: prod.splits)
      with over_accesses(7) [OF ui_starts(6)] show ?thesis by simp
    qed (use ui_starts(3) over_frame [of r "mc_tasks m"] in
      \<open>auto simp: start_ending_def detach_def split: if_splits\<close>)
  next
    case (ui_continues m a rest r added got)
    note acc = over_accesses [OF ui_continues(5)]
    show ?case
    proof (cases a)
      case (Claim why i)
      with ui_continues(2) obtain ok where "stop_claim why i (mc_tasks m) = (ok, r)"
        by (auto split: prod.splits)
      with acc(8) show ?thesis by simp
    next
      case (Release i)
      with ui_continues(2) acc(3) show ?thesis by auto
    next
      case (Hand i)
      with ui_continues(2) obtain c where "take_completion i (mc_tasks m) = (c, r)"
        by (auto split: prod.splits)
      with acc(9) show ?thesis by simp
    next
      case (Push owner key)
      with ui_continues(2,4) show ?thesis by (auto simp: push_slot_def slot_state_def nth_append)
    qed (use ui_continues(2) over_frame [of r "mc_tasks m"] in
      \<open>auto simp: stop_wake_def zero_counters_def split: if_splits\<close>)
  next
    case (worker_begins i m thread ok r)
    show ?case using over_accesses(5) [OF worker_begins(7) worker_begins(4)] by simp
  next
    case (worker_arms m i thread armed r)
    have "current_ok m" using worker_arms(3) by (simp add: sound_def)
    note r = arm_current(2) [OF this worker_arms(1,2)]
    show ?case using over_accesses(1) [OF worker_arms(5)] by (simp add: r)
  next
    case (worker_disarms m i thread)
    show ?case using over_accesses(1) [OF worker_disarms(4)] by (simp add: interrupt_drop_def)
  next
    case (worker_stores m i thread raw)
    show ?case using over_accesses(2) [OF worker_stores(4)] by simp
  next
    case (worker_publishes m i ok r)
    show ?case using over_accesses(6) [OF worker_publishes(5) worker_publishes(2)] by simp
  next
    case (worker_discards m i)
    show ?case using over_accesses(3) [OF worker_discards(4)] by simp
  next
    case (worker_leaves m i)
    show ?case using over_accesses(4) [OF worker_leaves(4)] by simp
  qed
  show "j < length (tk_slots (mc_tasks m'))" using slots_grow [OF assms(1,2)] assms(3) by simp
qed

section \<open>A run\<close>

text \<open>Steps as functions, to run the machine on a concrete input.\<close>

definition do_start :: "ui_operation \<Rightarrow> machine \<Rightarrow> machine" where
  "do_start op m = (case ui_begin op (mc_tasks m) of (r, todo) \<Rightarrow> m\<lparr>mc_tasks := r, mc_ui := todo\<rparr>)"

definition do_next :: "machine \<Rightarrow> machine" where
  "do_next m = (case mc_ui m of [] \<Rightarrow> m | a # rest \<Rightarrow>
     (case ui_exec a (mc_tasks m) of (r, added, got) \<Rightarrow>
        m\<lparr>mc_tasks := r, mc_ui := added @ rest, mc_received := mc_received m @ got\<rparr>))"

definition do_begin :: "nat \<Rightarrow> nat \<Rightarrow> machine \<Rightarrow> machine" where
  "do_begin thread i m = (case begin_task thread i (mc_tasks m) of (ok, r) \<Rightarrow>
     m\<lparr>mc_tasks := r, mc_worker := (mc_worker m)(i := if ok then Working thread else Over)\<rparr>)"

definition do_store :: "nat \<Rightarrow> nat \<Rightarrow> u64 \<Rightarrow> machine \<Rightarrow> machine" where
  "do_store thread i raw m = m\<lparr>mc_tasks := finish_store thread i raw (mc_tasks m),
     mc_worker := (mc_worker m)(i := Stored), mc_handed := mc_handed m @ [raw]\<rparr>"

definition do_publish :: "nat \<Rightarrow> machine \<Rightarrow> machine" where
  "do_publish i m = (case finish_publish i (mc_tasks m) of (ok, r) \<Rightarrow>
     m\<lparr>mc_tasks := r, mc_worker := (mc_worker m)(i := if ok then Leaving else Missed)\<rparr>)"

lemma run_steps:
  "task_reachable m \<Longrightarrow> mc_ui m = [] \<Longrightarrow> ui_allowed op (mc_tasks m) \<Longrightarrow> task_reachable (do_start op m)"
  "task_reachable m \<Longrightarrow> task_reachable (do_next m)"
  "task_reachable m \<Longrightarrow> i < length (tk_slots (mc_tasks m)) \<Longrightarrow> mc_worker m i = Waiting \<Longrightarrow>
     tk_current (mc_tasks m) thread = None \<Longrightarrow> task_reachable (do_begin thread i m)"
  "task_reachable m \<Longrightarrow> mc_worker m i = Working thread \<Longrightarrow> task_reachable (do_store thread i raw m)"
  "task_reachable m \<Longrightarrow> mc_worker m i = Stored \<Longrightarrow> task_reachable (do_publish i m)"
  unfolding task_reachable_def do_start_def do_next_def do_begin_def do_store_def do_publish_def
  by (auto split: prod.splits list.splits elim!: rtranclp.rtrancl_into_rtrancl
      intro: ui_starts ui_continues worker_begins [where ok = True, simplified]
        worker_begins [where ok = False, simplified] worker_stores
        worker_publishes [where ok = True, simplified] worker_publishes [where ok = False, simplified])

text \<open>One task is issued, run and published; then it is delivered.\<close>

definition published_machine :: machine where
  "published_machine =
     do_publish 0 (do_store 0 0 7 (do_begin 0 0 (do_next (do_start (Issue 1 ''k'') machine_start))))"

definition delivered_machine :: machine where
  "delivered_machine = do_next (do_start (Deliver 0) published_machine)"

lemmas run_defs = published_machine_def delivered_machine_def do_start_def do_next_def do_begin_def
  do_store_def do_publish_def machine_start_def tasks_start_def start_ending_def detach_def
  push_slot_def begin_task_def exchange_def slot_state_def on_slot_def finish_store_eq
  finish_publish_def deliver_claim_def take_completion_def keyed_def

lemma published_value: "published_machine =
    \<lparr>mc_tasks =
     \<lparr>tk_slots = [\<lparr>ts_owner = 1, ts_key = ''k'', ts_state = Published, ts_interrupt = False, ts_completion = Some 7\<rparr>],
      tk_live = [0], tk_running_now = [0], tk_current = Map.empty, tk_issued = 1, tk_completed = 1,
      tk_delivered = 0, tk_superseded = 0, tk_cancelled = 0, tk_interrupted = 0, tk_released = [], tk_woken = []\<rparr>,
     mc_ui = [], mc_worker = (\<lambda>_. Waiting)(0 := Leaving), mc_handed = [7], mc_received = []\<rparr>"
  by (simp add: run_defs)

lemma delivered_value: "delivered_machine =
    \<lparr>mc_tasks =
     \<lparr>tk_slots = [\<lparr>ts_owner = 1, ts_key = ''k'', ts_state = Delivered, ts_interrupt = False, ts_completion = None\<rparr>],
      tk_live = [], tk_running_now = [0], tk_current = Map.empty, tk_issued = 1, tk_completed = 1,
      tk_delivered = 1, tk_superseded = 0, tk_cancelled = 0, tk_interrupted = 0, tk_released = [], tk_woken = []\<rparr>,
     mc_ui = [], mc_worker = (\<lambda>_. Waiting)(0 := Leaving), mc_handed = [7], mc_received = [(0, Some 7)]\<rparr>"
  unfolding delivered_machine_def published_value
  by (simp add: do_start_def do_next_def deliver_claim_def exchange_def slot_state_def on_slot_def take_completion_def)

lemma published_reachable: "task_reachable published_machine"
  unfolding published_machine_def
proof (intro run_steps(5,4,3,2,1))
  show "task_reachable machine_start" by (simp add: task_reachable_def)
qed (simp_all add: run_defs)

lemma delivered_reachable: "task_reachable delivered_machine"
  unfolding delivered_machine_def
  by (intro run_steps(2,1) published_reachable) (simp_all add: published_value)

section \<open>Properties\<close>





text \<open>
  Claim C10: a task that is over stays as it ended, whatever the threads do next: what was
  superseded or cancelled is never delivered, and what was delivered is never cancelled.
\<close>

theorem task_ends_once:
  assumes "task_reachable m" and "task_step\<^sup>*\<^sup>* m m'"
    and "i < length (tk_slots (mc_tasks m))" and "Delivered \<le> slot_state (mc_tasks m) i"
  shows "slot_state (mc_tasks m') i = slot_state (mc_tasks m) i"
proof -
  have "sound m' \<and> slot_state (mc_tasks m') i = slot_state (mc_tasks m) i \<and> i < length (tk_slots (mc_tasks m'))"
    using assms(2)
  proof (induction rule: rtranclp_induct)
    case base
    show ?case using reachable_sound [OF assms(1)] assms(3) by simp
  next
    case (step y z)
    then show ?case using over_step [of y z i] assms(4) sound_step by auto
  qed
  then show ?thesis by blast
qed

lemma task_ends_once_witness:
  "slot_state (mc_tasks (do_start Reset delivered_machine)) 0 = Delivered"
proof -
  have "task_step delivered_machine (do_start Reset delivered_machine)"
    unfolding do_start_def case_prod_beta by (rule ui_starts [where op = Reset]) (simp_all add: delivered_value)
  then show ?thesis
    using task_ends_once [OF delivered_reachable r_into_rtranclp, of "do_start Reset delivered_machine" 0]
    by (simp add: delivered_value slot_state_def)
qed

text \<open>
  Claim C11: no completion is leaked or released twice. With multiplicity, every completion a
  worker handed over is held by a slot, was released, or was received by the application; once
  the threads are at rest only published tasks hold one.
\<close>

theorem task_completions_conserved:
  assumes "task_reachable m"
  shows "filter_mset (\<lambda>raw. raw \<noteq> 0) (mset (mc_handed m)) =
      held (tk_slots (mc_tasks m)) + mset (tk_released (mc_tasks m)) + received_raws (mc_received m) \<and>
    (mc_ui m = [] \<and> (\<forall>i. mc_worker m i \<noteq> Stored \<and> mc_worker m i \<noteq> Missed) \<longrightarrow>
      (\<forall>t \<in> set (tk_slots (mc_tasks m)). ts_completion t \<noteq> None \<longleftrightarrow> ts_state t = Published))"
proof (intro conjI impI ballI)
  have s: "conserved m" "slots_ok m" using reachable_sound [OF assms] by (simp_all add: sound_def)
  from s(1) show "filter_mset (\<lambda>raw. raw \<noteq> 0) (mset (mc_handed m)) =
      held (tk_slots (mc_tasks m)) + mset (tk_released (mc_tasks m)) + received_raws (mc_received m)"
    by (simp add: conserved_def)
  fix t assume rest: "mc_ui m = [] \<and> (\<forall>i. mc_worker m i \<noteq> Stored \<and> mc_worker m i \<noteq> Missed)"
    and "t \<in> set (tk_slots (mc_tasks m))"
  then obtain i where "i < length (tk_slots (mc_tasks m))" "t = tk_slots (mc_tasks m) ! i"
    by (auto simp: in_set_conv_nth)
  with s(2) rest have "slot_ok t (mc_worker m i) [] i" by (auto simp: slots_ok_def)
  with rest show "ts_completion t \<noteq> None \<longleftrightarrow> ts_state t = Published"
    by (cases "ts_state t") (auto simp: slot_ok_def)
qed

lemma task_completions_conserved_witness:
  "ts_completion (tk_slots (mc_tasks published_machine) ! 0) \<noteq> None"
  using task_completions_conserved [OF published_reachable] by (simp add: published_value)

text \<open>
  The application receives each delivered task's completion exactly once, never an
  empty one, and with the UI thread between operations every delivered task was received.
\<close>

theorem task_deliveries:
  assumes "task_reachable m"
  shows "distinct (map fst (mc_received m)) \<and>
    (\<forall>(i, c) \<in> set (mc_received m). slot_state (mc_tasks m) i = Delivered \<and> c \<noteq> None) \<and>
    (mc_ui m = [] \<longrightarrow> fst ` set (mc_received m) = delivered_slots (mc_tasks m))"
proof -
  have r: "received_ok m" using reachable_sound [OF assms] by (simp add: sound_def)
  then have "fst ` set (mc_received m) \<subseteq> delivered_slots (mc_tasks m)"
    by (auto simp: received_ok_def)
  then have "\<forall>(i, c) \<in> set (mc_received m). slot_state (mc_tasks m) i = Delivered"
    by (force simp: delivered_slots_def)
  with r show ?thesis by (auto simp: received_ok_def)
qed

lemma task_deliveries_witness:
  "fst ` set (mc_received delivered_machine) = delivered_slots (mc_tasks delivered_machine)"
  using task_deliveries [OF delivered_reachable] by (simp add: delivered_value)

text \<open>
  A component has at most one live task per non-empty key, also while a worker runs
  or publishes another.
\<close>

theorem task_keys_unique:
  assumes "task_reachable m" and "key \<noteq> []"
  shows "length (filter (\<lambda>i. keyed owner key (tk_slots (mc_tasks m) ! i)) (tk_live (mc_tasks m))) \<le> 1"
proof -
  let ?same = "filter (\<lambda>i. keyed owner key (tk_slots (mc_tasks m) ! i)) (tk_live (mc_tasks m))"
  have s: "keys_ok m" "ledger_ok m" using reachable_sound [OF assms(1)] by (simp_all add: sound_def)
  have inj: "inj_on (task_key (mc_tasks m)) (keyed_live (mc_tasks m))" using s(1) by (simp add: keys_ok_def)
  have eq: "i = j" if "i \<in> set ?same" "j \<in> set ?same" for i j
    by (rule inj_onD [OF inj]) (use that assms(2) in \<open>auto simp: keyed_live_def task_key_def keyed_def\<close>)
  have "distinct ?same" using s(2) by (auto simp: ledger_ok_def open_tasks_def)
  moreover have "card (set ?same) \<le> Suc 0"
    using card_le_Suc0_iff_eq [of "set ?same"] eq by blast
  ultimately show ?thesis by (simp only: distinct_card One_nat_def)
qed

lemma task_keys_unique_witness:
  "length (filter (\<lambda>i. keyed 1 ''k'' (tk_slots (mc_tasks published_machine) ! i)) (tk_live (mc_tasks published_machine))) \<le> 1"
  using task_keys_unique [OF published_reachable, of "''k''" 1] by simp

end
