(* ===== verification/Rows.thy ===== *)
theory Rows
  imports Prelude
begin

text \<open>
  The viewport of a virtual list whose rows are produced on demand (\<open>rows.rs\<close>): which rows are
  visible, which are worth building, which scroll requests were applied, and what the list's
  route must hear. Arithmetic is at 64 bits: saturating where the source saturates, wrapping
  elsewhere.
\<close>

section \<open>Viewports\<close>

datatype scroll_align = ScrollStart | ScrollCenter | ScrollEnd

type_synonym rows_range = "u64 \<times> u64"

record rows_event =
  re_refresh :: bool
  re_report :: bool
  re_start :: u64
  re_end :: u64

record viewport =
  vp_rows :: u64
  vp_visible :: rows_range
  vp_applied :: "u64 option"
  vp_reported :: "rows_range option"
  vp_pending :: "(u64 \<times> scroll_align) option"

definition viewport_new :: "u64 \<Rightarrow> viewport" where
  "viewport_new rows = (let rows = max rows 1 in
     \<lparr>vp_rows = rows, vp_visible = (0, rows), vp_applied = None, vp_reported = None, vp_pending = None\<rparr>)"

definition clamp :: "u64 \<Rightarrow> viewport \<Rightarrow> viewport" where
  "clamp count v =
     (let start = min (fst (vp_visible v)) (saturating_sub count (vp_rows v))
      in v\<lparr>vp_visible := (start, min (saturating_add start (vp_rows v)) count)\<rparr>)"

text \<open>The placement a request asks for, and the first row it shows.\<close>

definition request_place :: "u64 \<Rightarrow> u8 \<Rightarrow> viewport \<Rightarrow> scroll_align option" where
  "request_place row align v =
     (if align = 1 then Some ScrollStart
      else if align = 2 then Some ScrollCenter
      else if align = 3 then Some ScrollEnd
      else if row < fst (vp_visible v) then Some ScrollStart
      else if snd (vp_visible v) \<le> row then Some ScrollEnd
      else None)"

definition request_start :: "scroll_align \<Rightarrow> u64 \<Rightarrow> u64 \<Rightarrow> u64 \<Rightarrow> u64" where
  "request_start placed row rows count =
     min (case placed of
            ScrollStart \<Rightarrow> row
          | ScrollCenter \<Rightarrow> saturating_sub row (rows div 2)
          | ScrollEnd \<Rightarrow> saturating_sub (row + 1) rows)
       (saturating_sub count rows)"

definition request :: "u64 \<Rightarrow> u64 \<Rightarrow> u8 \<Rightarrow> u64 \<Rightarrow> viewport \<Rightarrow> viewport" where
  "request count row align serial v =
     (if align = 0 \<or> vp_applied v = Some serial then v
      else (let v = v\<lparr>vp_applied := Some serial\<rparr> in
        if count = 0 then v
        else (let row = min row (count - 1); rows = vp_rows v in
          case request_place row align v of
            None \<Rightarrow> v
          | Some placed \<Rightarrow>
              (let start = request_start placed row rows count
               in v\<lparr>vp_visible := (start, min (saturating_add start rows) count),
                    vp_pending := Some (row, placed)\<rparr>))))"

definition viewport_window :: "u64 \<Rightarrow> viewport \<Rightarrow> rows_range" where
  "viewport_window count v =
     (let start = saturating_sub (fst (vp_visible v)) (vp_rows v);
          upto = min (saturating_add (snd (vp_visible v)) (vp_rows v)) count
      in (min start upto, upto))"

definition needs_refresh :: "u64 \<Rightarrow> rows_range \<Rightarrow> u64 \<Rightarrow> rows_range \<Rightarrow> bool" where
  "needs_refresh rows visible count mounted =
     (let guard = max (rows div 2) 1 in
      0 < fst mounted \<and> fst visible < saturating_add (fst mounted) guard \<or>
      snd mounted < count \<and> snd mounted < saturating_add (snd visible) guard)"

definition viewport_observe ::
  "rows_range \<Rightarrow> u64 \<Rightarrow> rows_range \<Rightarrow> bool \<Rightarrow> viewport \<Rightarrow> rows_event option \<times> viewport" where
  "viewport_observe visible count mounted notify v =
     (if vp_pending v \<noteq> None then (None, v)
      else (let rows = max (snd visible - fst visible) 1;
                v = v\<lparr>vp_rows := rows, vp_visible := visible\<rparr>;
                refresh = needs_refresh rows visible count mounted;
                report = (notify \<and> vp_reported v \<noteq> Some visible);
                v = (if report then v\<lparr>vp_reported := Some visible\<rparr> else v)
            in (if refresh \<or> report
                then Some \<lparr>re_refresh = refresh, re_report = report,
                           re_start = fst visible, re_end = snd visible\<rparr>
                else None, v)))"

section \<open>The lists' viewports\<close>

text \<open>The thread-locals and the turn counter of the module.\<close>

record rows_state =
  rw_viewports :: "u64 \<rightharpoonup> viewport"
  rw_event :: "rows_event option"
  rw_turns :: u64

definition rows_start :: rows_state where
  "rows_start = \<lparr>rw_viewports = Map.empty, rw_event = None, rw_turns = 0\<rparr>"

definition rows_window ::
  "u64 \<Rightarrow> u64 \<Rightarrow> u64 \<Rightarrow> u64 \<times> u8 \<times> u64 \<Rightarrow> rows_state \<Rightarrow> rows_range \<times> rows_state" where
  "rows_window list_id count estimate req s =
     (let v = (case rw_viewports s list_id of Some v \<Rightarrow> v | None \<Rightarrow> viewport_new estimate);
          v = (case req of (row, align, serial) \<Rightarrow> request count row align serial (clamp count v))
      in (viewport_window count v, s\<lparr>rw_viewports := (rw_viewports s)(list_id \<mapsto> v)\<rparr>))"

definition take_pending_scroll :: "u64 \<Rightarrow> rows_state \<Rightarrow> (u64 \<times> scroll_align) option \<times> rows_state" where
  "take_pending_scroll list_id s =
     (case rw_viewports s list_id of
        None \<Rightarrow> (None, s)
      | Some v \<Rightarrow> (vp_pending v, s\<lparr>rw_viewports := (rw_viewports s)(list_id \<mapsto> v\<lparr>vp_pending := None\<rparr>)\<rparr>))"

definition rows_observe ::
  "u64 \<Rightarrow> rows_range \<Rightarrow> u64 \<Rightarrow> rows_range \<Rightarrow> bool \<Rightarrow> rows_state \<Rightarrow> rows_event option \<times> rows_state" where
  "rows_observe list_id visible count mounted notify s =
     (case rw_viewports s list_id of
        None \<Rightarrow> (None, s)
      | Some v \<Rightarrow> (case viewport_observe visible count mounted notify v of
                     (event, v) \<Rightarrow> (event, s\<lparr>rw_viewports := (rw_viewports s)(list_id \<mapsto> v)\<rparr>)))"

fun retire :: "u64 list \<Rightarrow> rows_state \<Rightarrow> rows_state" where
  "retire [] s = s"
| "retire (list_id # rest) s = retire rest (s\<lparr>rw_viewports := (rw_viewports s)(list_id := None)\<rparr>)"

definition rows_clear :: "rows_state \<Rightarrow> rows_state" where
  "rows_clear s = s\<lparr>rw_viewports := Map.empty, rw_event := None\<rparr>"

text \<open>A nested dispatch fails the assertion: a panic.\<close>

definition begin_event :: "rows_event \<Rightarrow> rows_state \<Rightarrow> (unit, rows_state) outcome" where
  "begin_event event s =
     (if rw_event s \<noteq> None then Panic
      else Ok (s\<lparr>rw_event := Some event, rw_turns := rw_turns s + 1\<rparr>))"

definition end_event :: "rows_state \<Rightarrow> rows_state" where
  "end_event s = s\<lparr>rw_event := None\<rparr>"

definition rows_event_now :: "rows_state \<Rightarrow> rows_event" where
  "rows_event_now s =
     (case rw_event s of Some e \<Rightarrow> e
      | None \<Rightarrow> \<lparr>re_refresh = False, re_report = False, re_start = 0, re_end = 0\<rparr>)"

definition note_turn :: "rows_state \<Rightarrow> rows_state" where
  "note_turn s = s\<lparr>rw_turns := rw_turns s + 1\<rparr>"

section \<open>Bounds\<close>

text \<open>A viewport at rest in a list of \<open>count\<close> rows: as many rows as fit, from its first row.\<close>

definition settled :: "u64 \<Rightarrow> viewport \<Rightarrow> bool" where
  "settled count v \<longleftrightarrow>
     1 \<le> unat (vp_rows v) \<and>
     unat (fst (vp_visible v)) \<le> unat count - unat (vp_rows v) \<and>
     unat (snd (vp_visible v)) = min (unat (fst (vp_visible v)) + unat (vp_rows v)) (unat count)"

lemma unat_min: "unat (min a b) = min (unat a) (unat b)"
  by (simp add: min_def word_le_nat_alt)

lemma unat_max: "unat (max a b) = max (unat a) (unat b)"
  by (simp add: max_def word_le_nat_alt)

lemmas row_arith = unat_min unat_max unat_saturating_add unat_saturating_sub

lemma unat_u64_bound: "unat (x :: u64) \<le> 18446744073709551615"
proof -
  have "unat x < 2 ^ LENGTH(64)" by (rule unsigned_less)
  then show ?thesis by simp
qed

text \<open>The end of a placement never saturates: it is capped by the count.\<close>

lemma capped_end:
  "unat (min (saturating_add a b) (c :: u64)) = min (unat a + unat b) (unat c)"
  using unat_u64_bound [of c] by (simp add: row_arith)

lemma clamp_settled: "1 \<le> unat (vp_rows v) \<Longrightarrow> settled count (clamp count v)"
  by (simp add: settled_def clamp_def Let_def capped_end, simp add: row_arith)

lemma clamp_id: "settled count v \<Longrightarrow> clamp count v = v"
proof -
  assume s: "settled count v"
  have "min (fst (vp_visible v)) (saturating_sub count (vp_rows v)) = fst (vp_visible v)"
    using s by (simp add: settled_def min_def word_le_nat_alt unat_saturating_sub)
  moreover have "min (saturating_add (fst (vp_visible v)) (vp_rows v)) count = snd (vp_visible v)"
    using s by (simp add: word_unat_eq_iff settled_def capped_end)
  ultimately show ?thesis by (cases v) (simp add: clamp_def Let_def)
qed

lemma request_settled:
  assumes "settled count v"
  shows "settled count (request count row align serial v)"
proof -
  have "settled count (v\<lparr>vp_applied := a, vp_visible := (start, min (saturating_add start (vp_rows v)) count),
      vp_pending := p\<rparr>)"
    if "unat start \<le> unat count - unat (vp_rows v)" for a p start
    using that assms by (simp add: settled_def capped_end)
  moreover have "unat (request_start placed r (vp_rows v) count) \<le> unat count - unat (vp_rows v)" for placed r
    unfolding request_start_def unat_min unat_saturating_sub [of count] by simp
  ultimately show ?thesis
    using assms by (auto simp: request_def Let_def settled_def split: option.splits)
qed

text \<open>A request with a new serial shows its row, clipped to the list.\<close>

lemma request_start_shows:
  assumes "unat row < unat (count :: u64)" and "1 \<le> unat rows"
  shows "unat (request_start placed row rows count) \<le> unat row"
    and "unat row < min (unat (request_start placed row rows count) + unat rows) (unat count)"
proof -
  have succ: "unat (row + 1) = unat row + 1"
    using assms(1) unat_u64_bound [of count] by (simp add: unat_word_ariths)
  have half: "unat (rows div 2) = unat rows div 2" by (simp add: unat_div)
  have start: "unat (request_start placed row rows count) =
      min (case placed of ScrollStart \<Rightarrow> unat row | ScrollCenter \<Rightarrow> unat row - unat rows div 2
           | ScrollEnd \<Rightarrow> unat row + 1 - unat rows) (unat count - unat rows)"
    unfolding request_start_def unat_min by (cases placed) (simp_all add: unat_saturating_sub succ half)
  show "unat (request_start placed row rows count) \<le> unat row"
    unfolding start using assms by (cases placed) auto
  show "unat row < min (unat (request_start placed row rows count) + unat rows) (unat count)"
    unfolding start using assms by (cases placed) auto
qed

lemma clipped_row:
  assumes "count \<noteq> (0 :: u64)"
  shows "unat (min row (count - 1)) = min (unat row) (unat count - 1)" "unat (min row (count - 1)) < unat count"
proof -
  have "unat (count - 1) = unat count - 1" using assms by (rule unat_minus_one)
  then show "unat (min row (count - 1)) = min (unat row) (unat count - 1)" by (simp add: unat_min)
  moreover have "0 < unat count" using assms by (simp add: unat_gt_0)
  ultimately show "unat (min row (count - 1)) < unat count" by linarith
qed

definition shows_row :: "u64 \<Rightarrow> viewport \<Rightarrow> bool" where
  "shows_row row v \<longleftrightarrow> unat (fst (vp_visible v)) \<le> unat row \<and> unat row < unat (snd (vp_visible v))"

lemma request_shows:
  assumes "settled count v" and "align \<noteq> 0" and "vp_applied v \<noteq> Some serial" and "count \<noteq> 0"
  shows "shows_row (min row (count - 1)) (request count row align serial v)"
proof -
  let ?row = "min row (count - 1)"
  let ?v = "v\<lparr>vp_applied := Some serial\<rparr>"
  have rows: "1 \<le> unat (vp_rows v)" using assms(1) by (simp add: settled_def)
  show ?thesis
  proof (cases "request_place ?row align ?v")
    case None
    then have "request count row align serial v = ?v"
      using assms by (simp add: request_def Let_def)
    moreover have "\<not> ?row < fst (vp_visible v)" "\<not> snd (vp_visible v) \<le> ?row"
      using None by (auto simp: request_place_def split: if_splits)
    ultimately show ?thesis by (simp add: shows_row_def word_less_nat_alt word_le_nat_alt not_less not_le)
  next
    case (Some placed)
    let ?start = "request_start placed ?row (vp_rows v) count"
    have "vp_visible (request count row align serial v) = (?start, min (saturating_add ?start (vp_rows v)) count)"
      using assms Some by (simp add: request_def Let_def)
    with request_start_shows [OF clipped_row(2) [OF assms(4), of row] rows, of placed]
    show ?thesis by (simp add: shows_row_def capped_end)
  qed
qed

lemma request_again: "request count row align serial (request count row align serial v) = request count row align serial v"
proof (cases "align = 0 \<or> vp_applied v = Some serial")
  case False
  then have "vp_applied (request count row align serial v) = Some serial"
    by (auto simp: request_def Let_def split: option.splits)
  then show ?thesis by (simp add: request_def)
qed (auto simp: request_def)

lemma viewport_window_bounds:
  assumes "settled count v"
  defines "w \<equiv> viewport_window count v"
  shows "unat (fst w) \<le> unat (fst (vp_visible v))" and "unat (snd (vp_visible v)) \<le> unat (snd w)"
    and "unat (snd w) \<le> unat count" and "unat (snd w) - unat (fst w) \<le> 3 * unat (vp_rows v)"
proof -
  have upto: "unat (snd w) = min (unat (snd (vp_visible v)) + unat (vp_rows v)) (unat count)"
    unfolding w_def viewport_window_def Let_def snd_conv by (rule capped_end)
  have start: "unat (fst w) = min (unat (fst (vp_visible v)) - unat (vp_rows v)) (unat (snd w))"
    unfolding w_def viewport_window_def Let_def fst_conv snd_conv unat_min unat_saturating_sub by simp
  show "unat (fst w) \<le> unat (fst (vp_visible v))" "unat (snd (vp_visible v)) \<le> unat (snd w)"
    "unat (snd w) \<le> unat count" "unat (snd w) - unat (fst w) \<le> 3 * unat (vp_rows v)"
    using assms(1) unfolding start upto settled_def by auto
qed

text \<open>The stored viewports always show at least one row's worth.\<close>

definition rows_ok :: "rows_state \<Rightarrow> bool" where
  "rows_ok s \<longleftrightarrow> (\<forall>v \<in> ran (rw_viewports s). 1 \<le> unat (vp_rows v))"


lemma rows_ok_viewport:
  "rows_ok s \<Longrightarrow> 1 \<le> unat (vp_rows (case rw_viewports s list_id of Some v \<Rightarrow> v | None \<Rightarrow> viewport_new estimate))"
proof (cases "rw_viewports s list_id")
  case None
  have "1 \<le> unat (max estimate 1)" by (simp add: unat_max)
  with None show ?thesis by (simp add: viewport_new_def Let_def)
qed (auto simp: rows_ok_def ranI)

lemma request_rows [simp]: "vp_rows (request count row align serial v) = vp_rows v"
  by (auto simp: request_def Let_def split: option.splits)

lemma clamp_rows [simp]: "vp_rows (clamp count v) = vp_rows v"
  by (simp add: clamp_def Let_def)

lemma clamp_other [simp]:
  "vp_applied (clamp count v) = vp_applied v" "vp_pending (clamp count v) = vp_pending v"
  "vp_reported (clamp count v) = vp_reported v"
  by (simp_all add: clamp_def Let_def)

section \<open>The operations on the stored viewports\<close>

lemma rows_ok_window: "rows_ok s \<Longrightarrow> rows_ok (snd (rows_window list_id count estimate req s))"
  using rows_ok_viewport [where s = s and list_id = list_id and estimate = estimate]
  by (auto simp: rows_window_def rows_ok_def Let_def ran_def split: prod.splits)

lemma rows_ok_observe: "rows_ok s \<Longrightarrow> rows_ok (snd (rows_observe list_id visible count mounted notify s))"
proof -
  have "1 \<le> unat (max (snd visible - fst visible) 1)" by (simp add: unat_max)
  then show "rows_ok s \<Longrightarrow> rows_ok (snd (rows_observe list_id visible count mounted notify s))"
    by (auto simp: rows_observe_def viewport_observe_def rows_ok_def Let_def ran_def split: option.splits)
qed

lemma rows_ok_take: "rows_ok s \<Longrightarrow> rows_ok (snd (take_pending_scroll list_id s))"
  by (auto simp: take_pending_scroll_def rows_ok_def ran_def split: option.splits)

lemma retire_viewports: "rw_viewports (retire instances s) = rw_viewports s |` (- set instances)"
  by (induction instances s rule: retire.induct) (auto simp: restrict_map_def fun_eq_iff)

lemma rows_ok_retire: "rows_ok s \<Longrightarrow> rows_ok (retire instances s)"
  by (auto simp: rows_ok_def retire_viewports ran_def restrict_map_def split: if_splits)

lemma rows_start_ok: "rows_ok rows_start"
  by (simp add: rows_ok_def rows_start_def)

section \<open>Properties\<close>

text \<open>
  Claim C12: the rows a list mounts lie inside the list, contain every visible row, and are at
  most three viewports long; and a scroll request with a new serial brings its row, clipped to
  the list, into view.
\<close>

theorem rows_window_bounds:
  assumes "rows_ok s" and "rows_window list_id count estimate (row, align, serial) s = (w, s')"
  shows "\<exists>v. rw_viewports s' list_id = Some v \<and> settled count v \<and>
    unat (fst w) \<le> unat (fst (vp_visible v)) \<and> unat (snd (vp_visible v)) \<le> unat (snd w) \<and>
    unat (snd w) \<le> unat count \<and> unat (snd w) - unat (fst w) \<le> 3 * unat (vp_rows v) \<and>
    (align \<noteq> 0 \<and> count \<noteq> 0 \<and> (\<forall>u. rw_viewports s list_id = Some u \<longrightarrow> vp_applied u \<noteq> Some serial) \<longrightarrow>
       shows_row (min row (count - 1)) v)"
proof -
  define u where "u = (case rw_viewports s list_id of Some v \<Rightarrow> v | None \<Rightarrow> viewport_new estimate)"
  let ?v = "request count row align serial (clamp count u)"
  have new: "vp_applied u \<noteq> Some serial"
    if "\<forall>u. rw_viewports s list_id = Some u \<longrightarrow> vp_applied u \<noteq> Some serial"
    using that by (auto simp: u_def viewport_new_def Let_def split: option.splits)
  have clamped: "settled count (clamp count u)"
    unfolding u_def by (rule clamp_settled [OF rows_ok_viewport [OF assms(1)]])
  from assms(2) have w: "w = viewport_window count ?v" "rw_viewports s' list_id = Some ?v"
    by (auto simp: rows_window_def Let_def u_def)
  show ?thesis
    using w viewport_window_bounds [OF request_settled [OF clamped]] request_settled [OF clamped]
      request_shows [OF clamped, of align serial row] new by auto
qed

lemma rows_window_bounds_witness:
  "\<exists>v. rw_viewports (snd (rows_window 5 100 10 (60, 2, 1) rows_start)) 5 = Some v \<and> shows_row 60 v"
proof -
  obtain w s' where e: "rows_window 5 100 10 (60, 2, 1) rows_start = (w, s')" by fastforce
  from rows_window_bounds [OF rows_start_ok e] show ?thesis by (auto simp: e) (auto simp: rows_start_def)
qed

text \<open>
  Asking for the window again with the same request changes nothing, so a request
  held in state across renders moves the list once.
\<close>

theorem rows_window_idempotent:
  assumes "rows_ok s" and "rows_window list_id count estimate req s = (w, s')"
  shows "rows_window list_id count estimate req s' = (w, s')"
proof -
  define u where "u = (case rw_viewports s list_id of Some v \<Rightarrow> v | None \<Rightarrow> viewport_new estimate)"
  obtain row align serial where req: "req = (row, align, serial)" by (cases req)
  let ?v = "request count row align serial (clamp count u)"
  have "settled count ?v"
    unfolding u_def by (intro request_settled clamp_settled rows_ok_viewport assms(1))
  then have "clamp count ?v = ?v" by (rule clamp_id)
  moreover from assms(2) req have "w = viewport_window count ?v" "s' = s\<lparr>rw_viewports := (rw_viewports s)(list_id \<mapsto> ?v)\<rparr>"
    by (auto simp: rows_window_def Let_def u_def)
  ultimately show ?thesis by (simp add: rows_window_def Let_def req request_again)
qed

lemma rows_window_idempotent_witness:
  "rows_window 5 100 10 (60, 2, 1) (snd (rows_window 5 100 10 (60, 2, 1) rows_start)) =
     rows_window 5 100 10 (60, 2, 1) rows_start"
proof -
  obtain w s' where e: "rows_window 5 100 10 (60, 2, 1) rows_start = (w, s')" by fastforce
  from rows_window_idempotent [OF rows_start_ok e] show ?thesis by (simp add: e)
qed

text \<open>
  A frame whose observation asks for no refresh shows rows that the mounted window
  covers, with half a viewport to spare on each side that is not the list's edge; and observing
  the same frame again reports nothing.
\<close>

theorem rows_observe_covers:
  assumes "rw_viewports s list_id = Some v" and "vp_pending v = None"
    and "unat (fst visible) < unat (snd visible)"
    and "rows_observe list_id visible count mounted notify s = (event, s')"
  defines "spare \<equiv> max (unat (snd visible - fst visible) div 2) 1"
  shows "((case event of None \<Rightarrow> False | Some e \<Rightarrow> re_refresh e) \<or>
      (fst mounted = 0 \<or> unat (fst mounted) + spare \<le> unat (fst visible)) \<and>
      (count \<le> snd mounted \<or> unat (snd visible) + spare \<le> unat (snd mounted))) \<and>
    (\<forall>e. fst (rows_observe list_id visible count mounted notify s') = Some e \<longrightarrow> \<not> re_report e)"
proof
  let ?rows = "max (snd visible - fst visible) 1"
  let ?guard = "max (?rows div 2) (1 :: u64)"
  have guard: "unat ?guard = spare"
  proof -
    have "max d 1 div 2 = d div 2" for d :: nat by (cases "d \<le> 1") (auto simp: max_def le_Suc_eq)
    then have "unat ?rows div 2 = unat (snd visible - fst visible) div 2" by (simp add: unat_max)
    then show ?thesis by (simp add: unat_max unat_div spare_def)
  qed
  have event: "event = (if needs_refresh ?rows visible count mounted \<or> (notify \<and> vp_reported v \<noteq> Some visible)
      then Some \<lparr>re_refresh = needs_refresh ?rows visible count mounted,
                 re_report = (notify \<and> vp_reported v \<noteq> Some visible),
                 re_start = fst visible, re_end = snd visible\<rparr> else None)"
    using assms(1,2,4) by (auto simp: rows_observe_def viewport_observe_def Let_def split: if_splits prod.splits)
  have top: "unat x \<le> 18446744073709551615" for x :: u64 by (rule unat_u64_bound)
  have refresh: "needs_refresh ?rows visible count mounted \<longleftrightarrow>
      0 < unat (fst mounted) \<and> unat (fst visible) < min (unat (fst mounted) + spare) 18446744073709551615 \<or>
      unat (snd mounted) < unat count \<and> unat (snd mounted) < min (unat (snd visible) + spare) 18446744073709551615"
    unfolding needs_refresh_def Let_def word_less_nat_alt unat_saturating_add guard by simp
  have "needs_refresh ?rows visible count mounted \<or>
      (fst mounted = 0 \<or> unat (fst mounted) + spare \<le> unat (fst visible)) \<and>
      (count \<le> snd mounted \<or> unat (snd visible) + spare \<le> unat (snd mounted))"
    using assms(3) top [of "snd visible"] top [of count] unat_gt_0 [of "fst mounted"]
    unfolding refresh word_le_nat_alt by linarith
  then show "(case event of None \<Rightarrow> False | Some e \<Rightarrow> re_refresh e) \<or>
      (fst mounted = 0 \<or> unat (fst mounted) + spare \<le> unat (fst visible)) \<and>
      (count \<le> snd mounted \<or> unat (snd visible) + spare \<le> unat (snd mounted))"
    unfolding event by auto
  show "\<forall>e. fst (rows_observe list_id visible count mounted notify s') = Some e \<longrightarrow> \<not> re_report e"
    using assms(1,2,4) by (auto simp: rows_observe_def viewport_observe_def Let_def split: if_splits prod.splits)
qed

lemma sample_maxima: "max (10 :: u64) 1 = 10" "(10 :: u64) div 2 = 5" "max (5 :: u64) 1 = 5"
  by (simp_all add: max_def word_le_nat_alt word_unat_eq_iff unat_div)

lemma rows_observe_covers_witness:
  "fst (rows_observe 5 (40, 50) 100 (30, 60) True
      (rows_start\<lparr>rw_viewports := [5 \<mapsto> viewport_new 10]\<rparr>)) =
     Some \<lparr>re_refresh = False, re_report = True, re_start = 40, re_end = 50\<rparr> \<and>
   unat (30 :: u64) + max (unat ((50 :: u64) - 40) div 2) 1 \<le> unat (40 :: u64)"
proof -
  let ?s = "rows_start\<lparr>rw_viewports := [5 \<mapsto> viewport_new 10]\<rparr>"
  obtain e s' where e: "rows_observe 5 (40, 50) 100 (30, 60) True ?s = (e, s')" by fastforce
  have "e = Some \<lparr>re_refresh = False, re_report = True, re_start = 40, re_end = 50\<rparr>"
    using e by (simp add: rows_observe_def viewport_observe_def viewport_new_def needs_refresh_def
        saturating_add_def Let_def sample_maxima)
  with e rows_observe_covers [of ?s 5 "viewport_new 10" "(40, 50)" 100 "(30, 60)" True e s']
  show ?thesis by (auto simp: rows_start_def viewport_new_def Let_def)
qed

end
