(* ===== verification/RegistryCommit.thy ===== *)
theory RegistryCommit
  imports Registry
begin

text \<open>
  The registry's invariant, what a commit computes, and the identity the registry gives a
  component across renders.
\<close>

section \<open>The invariant\<close>

text \<open>Live locations and registered instances are inverse to each other.\<close>

definition paired :: "registry \<Rightarrow> bool" where
  "paired r \<longleftrightarrow>
     (\<forall>loc m. rg_live r loc = Some m \<longrightarrow> rg_instances r (cm_instance m) = Some loc) \<and>
     (\<forall>i loc. rg_instances r i = Some loc \<longrightarrow> (\<exists>m. rg_live r loc = Some m \<and> cm_instance m = i))"

text \<open>A choice agrees with what is registered: its location's instance, or neither is known.\<close>

definition compatible :: "registry \<Rightarrow> component_location \<Rightarrow> component_mount \<Rightarrow> bool" where
  "compatible r loc m \<longleftrightarrow>
     (\<exists>m0. rg_live r loc = Some m0 \<and> cm_instance m0 = cm_instance m) \<or>
     rg_live r loc = None \<and> rg_instances r (cm_instance m) = None"

definition issued :: "registry \<Rightarrow> u64 \<Rightarrow> bool" where
  "issued r i \<longleftrightarrow> i \<noteq> 0 \<and> i < rg_next_instance r"

definition own_key :: "component_location \<Rightarrow> component_mount \<Rightarrow> bool" where
  "own_key loc m \<longleftrightarrow> (\<forall>n. loc_key loc = Unkeyed n \<longrightarrow> cm_instance m = n)"

definition registry_ok :: "registry \<Rightarrow> bool" where
  "registry_ok r \<longleftrightarrow>
     paired r \<and> rg_next_instance r \<noteq> 0 \<and>
     (\<forall>i \<in> dom (rg_instances r). issued r i) \<and>
     (\<forall>loc m. rg_live r loc = Some m \<longrightarrow> own_key loc m) \<and>
     (\<forall>loc m. rg_pending r loc = Some m \<longrightarrow> compatible r loc m \<and> issued r (cm_instance m) \<and> own_key loc m) \<and>
     (\<forall>loc loc' m m'. rg_pending r loc = Some m \<longrightarrow> rg_pending r loc' = Some m' \<longrightarrow>
        cm_instance m = cm_instance m' \<longrightarrow> loc = loc') \<and>
     rg_pending_instances r = cm_instance ` ran (rg_pending r) \<and>
     dom (rg_pending r) \<subseteq> rg_seen r \<and>
     (\<not> rg_rendering r \<longrightarrow> rg_scopes r = [] \<and> rg_pending r = Map.empty)"

lemma registry_ok_default: "registry_ok registry_default"
  by (simp add: registry_ok_def registry_default_def paired_def)

lemma paired_pending [simp]: "paired (r\<lparr>rg_pending := p\<rparr>) \<longleftrightarrow> paired r"
  by (simp add: paired_def)

lemma paired_live: "paired r \<Longrightarrow> rg_live r loc = Some m \<Longrightarrow> rg_instances r (cm_instance m) = Some loc"
  by (simp add: paired_def)

lemma paired_instance:
  "paired r \<Longrightarrow> rg_instances r i = Some loc \<Longrightarrow> \<exists>m. rg_live r loc = Some m \<and> cm_instance m = i"
  by (simp add: paired_def)

lemma registry_okD:
  assumes "registry_ok r"
  shows "paired r" "rg_next_instance r \<noteq> 0"
    "rg_instances r i = Some loc \<Longrightarrow> issued r i"
    "rg_live r loc = Some m \<Longrightarrow> own_key loc m"
    "rg_pending r loc = Some m \<Longrightarrow> compatible r loc m"
    "rg_pending r loc = Some m \<Longrightarrow> issued r (cm_instance m)"
    "rg_pending r loc = Some m \<Longrightarrow> own_key loc m"
    "rg_pending r loc = Some m \<Longrightarrow> rg_pending r loc' = Some m' \<Longrightarrow> cm_instance m = cm_instance m' \<Longrightarrow> loc = loc'"
    "rg_pending_instances r = cm_instance ` ran (rg_pending r)"
    "dom (rg_pending r) \<subseteq> rg_seen r"
proof -
  note a = assms [unfolded registry_ok_def]
  show "paired r" "rg_next_instance r \<noteq> 0" "rg_pending_instances r = cm_instance ` ran (rg_pending r)"
    "dom (rg_pending r) \<subseteq> rg_seen r" using a by simp_all
  show "rg_instances r i = Some loc \<Longrightarrow> issued r i" using a by (simp add: domI)
  show "rg_live r loc = Some m \<Longrightarrow> own_key loc m" using a by simp
  show "rg_pending r loc = Some m \<Longrightarrow> compatible r loc m" "rg_pending r loc = Some m \<Longrightarrow> issued r (cm_instance m)"
    "rg_pending r loc = Some m \<Longrightarrow> own_key loc m" using a by simp_all
  show "rg_pending r loc = Some m \<Longrightarrow> rg_pending r loc' = Some m' \<Longrightarrow> cm_instance m = cm_instance m' \<Longrightarrow> loc = loc'"
    using a by metis
qed

text \<open>Only the scopes and the rendering flag change.\<close>

lemma registry_ok_scopes:
  assumes "registry_ok r" and "rendering \<or> scopes = [] \<and> rg_pending r = Map.empty"
  shows "registry_ok (r\<lparr>rg_rendering := rendering, rg_scopes := scopes\<rparr>)"
  using assms unfolding registry_ok_def paired_def compatible_def issued_def by auto

lemma registry_ok_open:
  assumes "registry_ok r" and "rg_rendering r"
  shows "registry_ok (r\<lparr>rg_scopes := scopes\<rparr>)"
  using registry_ok_scopes [OF assms(1), of True scopes] assms(2) by (cases r) simp

lemma begin_render_ok: "registry_ok r \<Longrightarrow> registry_ok (snd (begin_render owner r))"
  using registry_ok_scopes [of r True]
  by (auto simp: begin_render_def open_scope_def)

lemma rendering_scopes: "registry_ok r \<Longrightarrow> rg_scopes r \<noteq> [] \<Longrightarrow> rg_rendering r"
  by (auto simp: registry_ok_def)

lemma scope_enter_ok: "registry_ok r \<Longrightarrow> registry_ok (snd (scope_enter t label position r))"
  using registry_ok_open [OF _ rendering_scopes]
  by (auto simp: scope_enter_def open_scope_def Let_def split: list.splits option.splits)

lemma exit_scope_ok: "registry_ok r \<Longrightarrow> registry_ok (snd (exit_scope kind r))"
  using registry_ok_open [OF _ rendering_scopes]
  by (auto simp: exit_scope_def split: list.splits)

lemma component_enter_ok: "registry_ok r \<Longrightarrow> registry_ok (snd (component_enter i r))"
  using registry_ok_open [OF _ rendering_scopes]
  by (auto simp: component_enter_def open_scope_def)

lemma finish_render_ok: "registry_ok r \<Longrightarrow> registry_ok (snd (finish_render r))"
  using registry_ok_open [of r "[]"] by (auto simp: finish_render_def split: list.splits)

lemma abort_ok: "registry_ok r \<Longrightarrow> registry_ok (abort r)"
  unfolding registry_ok_def paired_def compatible_def issued_def abort_def by simp

lemma resolve_key_cases:
  "resolve_key kind digest next_id \<noteq> Panic"
  "resolve_key kind digest next_id = Ok key \<Longrightarrow> key = Unkeyed next_id \<or> (\<exists>d. key = Digest d)"
  by (auto simp: resolve_key_def split: if_splits)

text \<open>A new choice at a location, for an instance no other location has chosen.\<close>

lemma registry_ok_choose:
  assumes ok: "registry_ok r" and rendering: "rg_rendering r" and new: "rg_pending r loc = None"
    and m: "compatible r loc m" "own_key loc m" "cm_instance m \<noteq> 0" "cm_instance m < next_id"
    and next_id: "rg_next_instance r \<le> next_id"
    and other: "\<And>loc' m'. rg_pending r loc' = Some m' \<Longrightarrow> cm_instance m' \<noteq> cm_instance m"
  shows "registry_ok (r\<lparr>rg_seen := insert loc (rg_seen r), rg_next_instance := next_id,
     rg_pending_instances := insert (cm_instance m) (rg_pending_instances r),
     rg_pending := (rg_pending r)(loc \<mapsto> m)\<rparr>)"
proof -
  have issued: "i \<noteq> 0 \<and> i < next_id" if "issued r i" for i
    using that next_id by (auto simp: issued_def)
  have next0: "next_id \<noteq> 0" using m(4) by auto
  have ran: "ran ((rg_pending r)(loc \<mapsto> m)) = insert m (ran (rg_pending r))"
    using new by (rule ran_map_upd)
  have pend: "compatible r l n \<and> (cm_instance n \<noteq> 0 \<and> cm_instance n < next_id) \<and> own_key l n"
    if "((rg_pending r)(loc \<mapsto> m)) l = Some n" for l n
    using that m ok issued by (auto simp: registry_ok_def split: if_splits)
  have inj: "l = l'" if "((rg_pending r)(loc \<mapsto> m)) l = Some n" "((rg_pending r)(loc \<mapsto> m)) l' = Some n'"
    "cm_instance n = cm_instance n'" for l l' n n'
    using that other ok by (auto simp: registry_ok_def split: if_splits)
  have inst: "\<forall>i \<in> dom (rg_instances r). i \<noteq> 0 \<and> i < next_id"
    using ok issued by (auto simp: registry_ok_def)
  let ?r = "r\<lparr>rg_seen := insert loc (rg_seen r), rg_next_instance := next_id,
     rg_pending_instances := insert (cm_instance m) (rg_pending_instances r),
     rg_pending := (rg_pending r)(loc \<mapsto> m)\<rparr>"
  have pend': "compatible ?r l n \<and> issued ?r (cm_instance n) \<and> own_key l n"
    if "rg_pending ?r l = Some n" for l n
    using pend [of l n] that by (simp add: compatible_def issued_def)
  show ?thesis
    unfolding registry_ok_def
  proof (intro conjI allI impI ballI)
    show "paired ?r" using registry_okD(1) [OF ok] by (simp add: paired_def)
    show "rg_next_instance ?r \<noteq> 0" using next0 by simp
    show "issued ?r i" if "i \<in> dom (rg_instances ?r)" for i using inst that by (simp add: issued_def)
    show "own_key l n" if "rg_live ?r l = Some n" for l n using registry_okD(4) [OF ok] that by simp
    show "compatible ?r l n" "issued ?r (cm_instance n)" "own_key l n" if "rg_pending ?r l = Some n" for l n
      using pend' [OF that] by simp_all
    show "l = l'" if "rg_pending ?r l = Some n" "rg_pending ?r l' = Some n'" "cm_instance n = cm_instance n'" for l l' n n'
      using inj [of l n l' n'] that by simp
    show "rg_pending_instances ?r = cm_instance ` ran (rg_pending ?r)"
      using registry_okD(9) [OF ok] by (simp add: ran)
    show "dom (rg_pending ?r) \<subseteq> rg_seen ?r" using registry_okD(10) [OF ok] by auto
    show "rg_scopes ?r = []" "rg_pending ?r = Map.empty" if "\<not> rg_rendering ?r"
      using rendering that by simp_all
  qed
qed

lemma resolve_cases:
  assumes "resolve kind digest r = (Ok (i, root), r')"
  obtains inner outer key where
    "resolve_key kind digest (rg_next_instance r) = Ok key" "rg_scopes r = inner # outer"
    "Location (cs_identity inner) key \<notin> rg_seen r"
    "\<exists>m next_id. cm_instance m = i \<and> cm_root m = root \<and>
      (rg_live r (Location (cs_identity inner) key) = Some m \<and> next_id = rg_next_instance r \<or>
       rg_live r (Location (cs_identity inner) key) = None \<and> m = \<lparr>cm_instance = rg_next_instance r, cm_root = 0\<rparr> \<and>
       checked_add (rg_next_instance r) 1 = Some next_id) \<and>
      r' = r\<lparr>rg_seen := insert (Location (cs_identity inner) key) (rg_seen r), rg_next_instance := next_id,
        rg_pending_instances := insert i (rg_pending_instances r),
        rg_pending := (rg_pending r)(Location (cs_identity inner) key \<mapsto> m)\<rparr>"
  using assms
  by (auto simp: resolve_def Let_def split: outcome.splits list.splits if_splits option.splits)

lemma registry_ok_seen:
  "registry_ok r \<Longrightarrow> registry_ok (r\<lparr>rg_seen := insert loc (rg_seen r)\<rparr>)"
  unfolding registry_ok_def paired_def compatible_def issued_def by auto

lemma resolve_Err:
  "fst (resolve kind digest r) = Err e \<Longrightarrow>
   snd (resolve kind digest r) = r \<or> (\<exists>loc. snd (resolve kind digest r) = r\<lparr>rg_seen := insert loc (rg_seen r)\<rparr>)"
  by (auto simp: resolve_def Let_def split: outcome.splits list.splits if_splits option.splits)

lemma resolve_total: "fst (resolve kind digest r) \<noteq> Panic"
  using resolve_key_cases(1)
  by (auto simp: resolve_def Let_def split: outcome.splits list.splits if_splits option.splits)

lemma resolve_ok:
  assumes ok: "registry_ok r"
  shows "registry_ok (snd (resolve kind digest r))"
proof (cases "fst (resolve kind digest r)")
  case (Ok res)
  obtain i root r' where res: "resolve kind digest r = (Ok (i, root), r')"
    using Ok by (cases "resolve kind digest r"; cases res) auto
  from resolve_cases [OF res] obtain inner outer key m next_id where
    key: "resolve_key kind digest (rg_next_instance r) = Ok key" and scopes: "rg_scopes r = inner # outer" and
    seen: "Location (cs_identity inner) key \<notin> rg_seen r" and m: "cm_instance m = i" "cm_root m = root" and
    found: "rg_live r (Location (cs_identity inner) key) = Some m \<and> next_id = rg_next_instance r \<or>
       rg_live r (Location (cs_identity inner) key) = None \<and> m = \<lparr>cm_instance = rg_next_instance r, cm_root = 0\<rparr> \<and>
       checked_add (rg_next_instance r) 1 = Some next_id" and
    r': "r' = r\<lparr>rg_seen := insert (Location (cs_identity inner) key) (rg_seen r), rg_next_instance := next_id,
        rg_pending_instances := insert i (rg_pending_instances r),
        rg_pending := (rg_pending r)(Location (cs_identity inner) key \<mapsto> m)\<rparr>" by metis
  let ?loc = "Location (cs_identity inner) key"
  have rendering: "rg_rendering r" using rendering_scopes [OF ok] scopes by simp
  have new: "rg_pending r ?loc = None" using ok seen by (auto simp: registry_ok_def)
  have "registry_ok (r\<lparr>rg_seen := insert ?loc (rg_seen r), rg_next_instance := next_id,
     rg_pending_instances := insert (cm_instance m) (rg_pending_instances r),
     rg_pending := (rg_pending r)(?loc \<mapsto> m)\<rparr>)"
  proof (cases "rg_live r ?loc")
    case (Some m0)
    with found have [simp]: "m0 = m" "next_id = rg_next_instance r" by auto
    have inst: "rg_instances r (cm_instance m) = Some ?loc" "own_key ?loc m"
      using ok Some by (auto simp: registry_ok_def paired_def)
    have "issued r (cm_instance m)" using inst ok by (auto simp: registry_ok_def)
    moreover have "cm_instance m' \<noteq> cm_instance m" if "rg_pending r loc' = Some m'" for loc' m'
    proof
      assume same: "cm_instance m' = cm_instance m"
      have "compatible r loc' m'" using ok that by (auto simp: registry_ok_def)
      with same inst(1) obtain m0 where "rg_live r loc' = Some m0" "cm_instance m0 = cm_instance m"
        by (auto simp: compatible_def)
      with inst(1) have "loc' = ?loc"
        using paired_live [OF registry_okD(1) [OF ok], of loc' m0] by simp
      with that new show False by simp
    qed
    ultimately show ?thesis
      using Some inst by (intro registry_ok_choose [OF ok rendering new]) (auto simp: issued_def compatible_def)
  next
    case None
    with found have mm: "m = \<lparr>cm_instance = rg_next_instance r, cm_root = 0\<rparr>"
      and add: "checked_add (rg_next_instance r) 1 = Some next_id" by auto
    have "unat next_id = Suc (unat (rg_next_instance r))" using checked_add_SomeD [OF add, THEN conjunct1] by simp
    then have lt: "rg_next_instance r < next_id" by (simp only: word_less_nat_alt)
    have "rg_instances r (rg_next_instance r) = None"
      using ok by (auto simp: registry_ok_def issued_def)
    moreover have "own_key ?loc m"
      using resolve_key_cases(2) [OF key] by (auto simp: own_key_def mm)
    moreover have "cm_instance m' \<noteq> cm_instance m" if "rg_pending r loc' = Some m'" for loc' m'
      using registry_okD(6) [OF ok that] by (auto simp: issued_def mm)
    moreover have "rg_next_instance r \<noteq> 0" using ok by (simp add: registry_ok_def)
    ultimately show ?thesis
      using None lt by (intro registry_ok_choose [OF ok rendering new]) (auto simp: mm compatible_def)
  qed
  then show ?thesis by (simp add: res r' m(1))
next
  case (Err e)
  then show ?thesis using resolve_Err [OF Err] ok registry_ok_seen by auto
next
  case Panic
  then show ?thesis using resolve_total by blast
qed

section \<open>What a commit computes\<close>

definition gone :: "(u64 \<rightharpoonup> u64) \<Rightarrow> u64 list \<Rightarrow> u64 \<Rightarrow> bool" where
  "gone roots removed i \<longleftrightarrow> i \<in> set removed \<and> roots i = None"

definition same_rest :: "registry \<Rightarrow> registry \<Rightarrow> bool" where
  "same_rest r r' \<longleftrightarrow> rg_next_instance r' = rg_next_instance r \<and> rg_pending r' = rg_pending r \<and>
     rg_pending_instances r' = rg_pending_instances r \<and> rg_seen r' = rg_seen r \<and>
     rg_scopes r' = rg_scopes r \<and> rg_rendering r' = rg_rendering r"

lemma same_rest_refl [simp]: "same_rest r r"
  by (simp add: same_rest_def)

lemma registry_eqI:
  "rg_live r = rg_live r' \<Longrightarrow> rg_instances r = rg_instances r' \<Longrightarrow> same_rest r r' \<Longrightarrow> r = r'"
  by (cases r; cases r') (simp add: same_rest_def)

lemma remove_one_paired:
  assumes "paired r" and "rg_instances r i = Some loc"
  shows "paired (r\<lparr>rg_instances := (rg_instances r)(i := None), rg_live := (rg_live r)(loc := None)\<rparr>)"
proof -
  obtain m where m: "rg_live r loc = Some m" "cm_instance m = i" using paired_instance [OF assms] by blast
  have "l \<noteq> loc \<longrightarrow> cm_instance n \<noteq> i" if "rg_live r l = Some n" for l n
    using paired_live [OF assms(1) that] assms(2) by auto
  moreover have "j = i" if "rg_instances r j = Some loc" for j
    using paired_instance [OF assms(1) that] m by auto
  ultimately show ?thesis
    using paired_live [OF assms(1)] paired_instance [OF assms(1)] unfolding paired_def by auto
qed

lemma commit_removed_spec:
  "paired r \<Longrightarrow>
     paired (commit_removed roots removed r) \<and> same_rest r (commit_removed roots removed r) \<and>
     rg_instances (commit_removed roots removed r) =
       (\<lambda>i. if gone roots removed i then None else rg_instances r i) \<and>
     rg_live (commit_removed roots removed r) =
       (\<lambda>loc. case rg_live r loc of None \<Rightarrow> None
          | Some m \<Rightarrow> if gone roots removed (cm_instance m) then None else Some m)"
proof (induction roots removed r rule: commit_removed.induct)
  case (1 roots r)
  then show ?case by (auto simp: gone_def fun_eq_iff split: option.splits)
next
  case (2 roots i rest r)
  let ?r = "if roots i = None then
      (case rg_instances r i of None \<Rightarrow> r
       | Some loc \<Rightarrow> r\<lparr>rg_instances := (rg_instances r)(i := None), rg_live := (rg_live r)(loc := None)\<rparr>)
    else r"
  have p: "paired ?r" using 2(2) remove_one_paired by (auto split: option.splits)
  have rest: "same_rest r ?r" by (auto simp: same_rest_def split: option.splits)
  have inst: "rg_instances ?r = (\<lambda>j. if roots i = None \<and> j = i then None else rg_instances r j)"
    by (auto simp: fun_eq_iff split: option.splits)
  have live: "rg_live ?r = (\<lambda>loc. case rg_live r loc of None \<Rightarrow> None
      | Some m \<Rightarrow> if roots i = None \<and> cm_instance m = i then None else Some m)"
  proof
    fix loc
    show "rg_live ?r loc = (case rg_live r loc of None \<Rightarrow> None
      | Some m \<Rightarrow> if roots i = None \<and> cm_instance m = i then None else Some m)"
    proof (cases "rg_live r loc")
      case (Some m)
      have "rg_instances r (cm_instance m) = Some loc" using paired_live [OF 2(2) Some] .
      moreover have "l = loc \<Longrightarrow> cm_instance m = i" if "rg_instances r i = Some l" for l
        using paired_instance [OF 2(2) that] Some by auto
      ultimately show ?thesis using Some by (auto split: option.splits)
    qed (auto split: option.splits)
  qed
  from 2(1) [OF p] show ?case
    unfolding commit_removed.simps inst live
    using rest by (auto simp: same_rest_def gone_def fun_eq_iff split: option.splits)
qed

lemma pending_one_paired:
  assumes p: "paired r" and c: "compatible r loc m"
  shows "paired (r\<lparr>rg_instances := (rg_instances r)(cm_instance m \<mapsto> loc), rg_live := (rg_live r)(loc \<mapsto> m\<lparr>cm_root := root\<rparr>)\<rparr>)"
    (is "paired ?r")
proof -
  have l: "l = loc" if "rg_live r l = Some n" "cm_instance n = cm_instance m" for l n
    using c paired_live [OF p that(1)] paired_live [OF p, of loc] that(2)
    by (auto simp: compatible_def)
  have j: "j = cm_instance m" if "rg_instances r j = Some loc" for j
    using c paired_instance [OF p that] by (auto simp: compatible_def)
  have "rg_instances ?r (cm_instance n) = Some k" if "rg_live ?r k = Some n" for k n
  proof (cases "k = loc")
    case False
    with that have live: "rg_live r k = Some n" by simp
    with l False have "cm_instance n \<noteq> cm_instance m" by blast
    then show ?thesis using paired_live [OF p live] by simp
  qed (use that in auto)
  moreover have "\<exists>n. rg_live ?r k = Some n \<and> cm_instance n = i" if "rg_instances ?r i = Some k" for i k
  proof (cases "i = cm_instance m")
    case False
    with that have inst: "rg_instances r i = Some k" by simp
    with j False have "k \<noteq> loc" by blast
    then show ?thesis using paired_instance [OF p inst] by simp
  qed (use that in auto)
  ultimately show ?thesis by (simp add: paired_def)
qed

lemma pending_one_compatible:
  assumes p: "paired r" and c: "compatible r loc m" "compatible r loc' m'"
    and distinct: "loc' \<noteq> loc" "cm_instance m' \<noteq> cm_instance m"
  shows "compatible (r\<lparr>rg_instances := (rg_instances r)(cm_instance m \<mapsto> loc), rg_live := (rg_live r)(loc \<mapsto> m\<lparr>cm_root := root\<rparr>)\<rparr>) loc' m'"
  using c(2) distinct by (simp add: compatible_def)

text \<open>The locations and instances of a list of choices are distinct.\<close>

definition choices_ok :: "registry \<Rightarrow> (component_location \<times> component_mount) list \<Rightarrow> bool" where
  "choices_ok r order \<longleftrightarrow>
     (\<forall>(loc, m) \<in> set order. compatible r loc m) \<and> distinct (map fst order) \<and>
     distinct (map (\<lambda>(loc, m). cm_instance m) order)"

definition chosen_live ::
  "(u64 \<rightharpoonup> u64) \<Rightarrow> (component_location \<rightharpoonup> component_mount) \<Rightarrow> component_location \<rightharpoonup> component_mount" where
  "chosen_live roots pending loc =
     (case pending loc of None \<Rightarrow> None
      | Some m \<Rightarrow> (case roots (cm_instance m) of None \<Rightarrow> None | Some root \<Rightarrow> Some (m\<lparr>cm_root := root\<rparr>)))"

lemma commit_pending_spec:
  "paired r \<Longrightarrow> choices_ok r order \<Longrightarrow>
     paired (commit_pending roots order r) \<and> same_rest r (commit_pending roots order r) \<and>
     rg_live (commit_pending roots order r) = rg_live r ++ chosen_live roots (map_of order) \<and>
     (\<forall>i loc. rg_instances (commit_pending roots order r) i = Some loc \<longleftrightarrow>
        (\<exists>m. (loc, m) \<in> set order \<and> cm_instance m = i \<and> roots i \<noteq> None) \<or>
        rg_instances r i = Some loc \<and> \<not> (\<exists>l m. (l, m) \<in> set order \<and> cm_instance m = i \<and> roots i \<noteq> None))"
proof (induction roots order r rule: commit_pending.induct)
  case (1 roots r)
  have "chosen_live roots Map.empty = Map.empty" by (simp add: chosen_live_def fun_eq_iff)
  with 1 show ?case by simp
next
  case (2 roots loc m rest r)
  let ?r = "case roots (cm_instance m) of None \<Rightarrow> r
    | Some root \<Rightarrow> r\<lparr>rg_instances := (rg_instances r)(cm_instance m \<mapsto> loc), rg_live := (rg_live r)(loc \<mapsto> m\<lparr>cm_root := root\<rparr>)\<rparr>"
  from 2(3) have c: "compatible r loc m" and out: "loc \<notin> fst ` set rest" "cm_instance m \<notin> (\<lambda>(l, m). cm_instance m) ` set rest"
    and rest: "choices_ok r rest"
    by (auto simp: choices_ok_def)
  have p: "paired ?r" using 2(2) pending_one_paired [OF 2(2) c] by (auto split: option.splits)
  have "compatible ?r l n" if "(l, n) \<in> set rest" for l n
  proof -
    have "compatible r l n" "l \<noteq> loc" "cm_instance n \<noteq> cm_instance m"
      using that rest out by (force simp: choices_ok_def)+
    then show ?thesis using pending_one_compatible [OF 2(2) c] by (auto split: option.splits)
  qed
  then have ch: "choices_ok ?r rest" using rest by (auto simp: choices_ok_def)
  note IH = 2(1) [OF p ch]
  have "map_of rest loc = None" using out(1) by (simp add: map_of_eq_None_iff)
  then have "rg_live ?r ++ chosen_live roots (map_of rest) = rg_live r ++ chosen_live roots (map_of ((loc, m) # rest))"
    by (auto simp: fun_eq_iff chosen_live_def map_add_def split: option.splits)
  with IH have live: "rg_live (commit_pending roots rest ?r) = rg_live r ++ chosen_live roots (map_of ((loc, m) # rest))"
    by (simp only:)
  have "same_rest r (commit_pending roots rest ?r)"
    using IH by (auto simp: same_rest_def split: option.splits)
  moreover have "rg_instances (commit_pending roots rest ?r) i = Some l \<longleftrightarrow>
      (\<exists>n. (l, n) \<in> set ((loc, m) # rest) \<and> cm_instance n = i \<and> roots i \<noteq> None) \<or>
      rg_instances r i = Some l \<and> \<not> (\<exists>l n. (l, n) \<in> set ((loc, m) # rest) \<and> cm_instance n = i \<and> roots i \<noteq> None)"
    for i l
  proof (cases "i = cm_instance m")
    case True
    with out(2) have none: "\<not> (\<exists>l n. (l, n) \<in> set rest \<and> cm_instance n = i \<and> roots i \<noteq> None)" by force
    have "rg_instances (commit_pending roots rest ?r) i = Some l \<longleftrightarrow> rg_instances ?r i = Some l"
      using IH none by blast
    also have "\<dots> \<longleftrightarrow> (if roots i = None then rg_instances r i = Some l else l = loc)"
      using True by (auto split: option.splits)
    finally show ?thesis using none True by auto
  next
    case False
    then have "rg_instances ?r i = rg_instances r i" by (simp split: option.splits)
    with IH False show ?thesis by auto
  qed
  ultimately show ?case using IH live unfolding commit_pending.simps by blast
qed

lemma set_root_paired:
  assumes "paired r" and "rg_live r loc = Some m"
  shows "paired (r\<lparr>rg_live := (rg_live r)(loc \<mapsto> m\<lparr>cm_root := root\<rparr>)\<rparr>)"
proof -
  have "(rg_instances r)(cm_instance m \<mapsto> loc) = rg_instances r"
    using paired_live [OF assms] by (simp add: fun_upd_idem)
  then show ?thesis
    using pending_one_paired [OF assms(1), of loc m root] assms(2) by (simp add: compatible_def)
qed

lemma commit_staged_spec:
  assumes "paired r" and "\<forall>i \<in> set staged. roots i \<noteq> None"
  shows "\<exists>r'. commit_staged roots staged r = Ok r' \<and> paired r' \<and> same_rest r r' \<and>
     rg_instances r' = rg_instances r \<and>
     rg_live r' = (\<lambda>loc. map_option (\<lambda>m. if cm_instance m \<in> set staged
        then m\<lparr>cm_root := the (roots (cm_instance m))\<rparr> else m) (rg_live r loc))"
  using assms
proof (induction roots staged r rule: commit_staged.induct)
  case (1 roots r)
  then show ?case by (simp add: option.map_ident)
next
  case (2 roots i rest r)
  show ?case
  proof (cases "rg_instances r i")
    case None
    then have "cm_instance m \<noteq> i" if "rg_live r loc = Some m" for loc m
      using paired_live [OF 2(4) that] by auto
    then have "map_option (\<lambda>m. if cm_instance m \<in> set rest then m\<lparr>cm_root := the (roots (cm_instance m))\<rparr> else m) (rg_live r loc) =
      map_option (\<lambda>m. if cm_instance m \<in> set (i # rest) then m\<lparr>cm_root := the (roots (cm_instance m))\<rparr> else m) (rg_live r loc)" for loc
      by (cases "rg_live r loc") auto
    with 2(1) [OF None 2(4)] 2(5) None show ?thesis by simp
  next
    case (Some loc)
    then obtain m where m: "rg_live r loc = Some m" "cm_instance m = i" using paired_instance [OF 2(4)] by blast
    from 2(5) obtain root where root: "roots i = Some root" by auto
    let ?r = "r\<lparr>rg_live := (rg_live r)(loc \<mapsto> m\<lparr>cm_root := root\<rparr>)\<rparr>"
    have p: "paired ?r" by (rule set_root_paired [OF 2(4) m(1)])
    have root': "expect (roots i) = (Ok root :: (registry_error, u64) outcome)" by (simp add: root)
    from 2(3) [OF Some m(1) p] 2(5) obtain r' where r': "commit_staged roots rest ?r = Ok r'" "paired r'"
      "same_rest ?r r'" "rg_instances r' = rg_instances ?r"
      "rg_live r' = (\<lambda>loc. map_option (\<lambda>m. if cm_instance m \<in> set rest
        then m\<lparr>cm_root := the (roots (cm_instance m))\<rparr> else m) (rg_live ?r loc))" by auto
    have root_m: "roots (cm_instance m) = Some root" using m(2) root by simp
    have "cm_instance n = i \<longleftrightarrow> l = loc" if "rg_live r l = Some n" for l n
      using paired_live [OF 2(4) that] Some m that by auto
    then have "rg_live r' = (\<lambda>loc. map_option (\<lambda>m. if cm_instance m \<in> set (i # rest)
        then m\<lparr>cm_root := the (roots (cm_instance m))\<rparr> else m) (rg_live r loc))"
      unfolding r'(5) using m root root_m by (auto simp: fun_eq_iff map_option_case split: option.splits)
    moreover have "commit_staged roots (i # rest) r = Ok r'"
      using Some m(1) root' r'(1) by (simp del: obind_eq_Ok expect_eq_Ok)
    moreover have "same_rest r r'" using r'(3) by (simp add: same_rest_def)
    ultimately show ?thesis using r'(2,4) by auto
  qed
qed

section \<open>Commit and the invariant\<close>

lemma drains_set: "drains order pending \<Longrightarrow> (loc, m) \<in> set order \<longleftrightarrow> pending loc = Some m"
  by (auto simp: drains_def)

lemma drained_choices:
  assumes ok: "registry_ok r" and order: "drains order (rg_pending r)"
  shows "choices_ok ((commit_removed roots removed r)\<lparr>rg_pending := Map.empty\<rparr>) order"
proof -
  note spec = commit_removed_spec [OF registry_okD(1) [OF ok], of roots removed]
  have live: "rg_live (commit_removed roots removed r) = (\<lambda>loc. case rg_live r loc of None \<Rightarrow> None
          | Some m \<Rightarrow> if gone roots removed (cm_instance m) then None else Some m)"
    and inst: "rg_instances (commit_removed roots removed r) =
       (\<lambda>i. if gone roots removed i then None else rg_instances r i)" using spec by blast+
  have "compatible ((commit_removed roots removed r)\<lparr>rg_pending := Map.empty\<rparr>) loc m" if "(loc, m) \<in> set order" for loc m
  proof -
    have "compatible r loc m" using registry_okD(5) [OF ok] drains_set [OF order] that by blast
    then show ?thesis by (auto simp: compatible_def live inst)
  qed
  moreover have "distinct (map (\<lambda>(loc, m). cm_instance m) order)"
    unfolding distinct_map
  proof (intro conjI inj_onI)
    show "distinct order" using order by (simp add: drains_def distinct_map)
    fix a b assume ab: "a \<in> set order" "b \<in> set order"
      "(\<lambda>(loc, m). cm_instance m) a = (\<lambda>(loc, m). cm_instance m) b"
    obtain l m l' m' where p: "a = (l, m)" "b = (l', m')" by (cases a; cases b)
    with ab have pend: "rg_pending r l = Some m" "rg_pending r l' = Some m'" "cm_instance m = cm_instance m'"
      using drains_set [OF order] by auto
    from registry_okD(8) [OF ok pend] pend p show "a = b" by auto
  qed
  ultimately show ?thesis using order by (auto simp: choices_ok_def drains_def)
qed

definition committed ::
  "(u64 \<rightharpoonup> u64) \<Rightarrow> u64 list \<Rightarrow> u64 list \<Rightarrow> registry \<Rightarrow> component_location \<rightharpoonup> component_mount" where
  "committed roots removed staged r loc =
     map_option (\<lambda>m. if cm_instance m \<in> set staged then m\<lparr>cm_root := the (roots (cm_instance m))\<rparr> else m)
       (case chosen_live roots (rg_pending r) loc of
          Some m \<Rightarrow> Some m
        | None \<Rightarrow> (case rg_live r loc of None \<Rightarrow> None
            | Some m \<Rightarrow> if gone roots removed (cm_instance m) then None else Some m))"

lemma commit_spec:
  assumes ok: "registry_ok r" and order: "drains order (rg_pending r)"
    and staged: "\<forall>i \<in> set staged. roots i \<noteq> None"
  shows "\<exists>r'. commit roots removed staged order r = Ok r' \<and> paired r' \<and>
     rg_live r' = committed roots removed staged r \<and>
     rg_next_instance r' = rg_next_instance r \<and> rg_pending r' = Map.empty \<and> rg_pending_instances r' = {} \<and>
     rg_seen r' = {} \<and> rg_scopes r' = [] \<and> \<not> rg_rendering r'"
proof -
  let ?r1 = "(commit_removed roots removed r)\<lparr>rg_pending := Map.empty\<rparr>"
  let ?r2 = "commit_pending roots order ?r1"
  note spec = commit_removed_spec [OF registry_okD(1) [OF ok], of roots removed]
  have p1: "paired ?r1" using spec by simp
  have live1: "rg_live ?r1 = (\<lambda>loc. case rg_live r loc of None \<Rightarrow> None
          | Some m \<Rightarrow> if gone roots removed (cm_instance m) then None else Some m)" using spec by simp
  note pend = commit_pending_spec [OF p1 drained_choices [OF ok order], of roots]
  have p2: "paired ?r2" and live2: "rg_live ?r2 = rg_live ?r1 ++ chosen_live roots (rg_pending r)"
    and rest2: "same_rest ?r1 ?r2"
    using pend order by (simp_all add: drains_def)
  from commit_staged_spec [OF p2 staged] obtain r3 where r3: "commit_staged roots staged ?r2 = Ok r3" "paired r3"
     "same_rest ?r2 r3" "rg_live r3 = (\<lambda>loc. map_option (\<lambda>m. if cm_instance m \<in> set staged
        then m\<lparr>cm_root := the (roots (cm_instance m))\<rparr> else m) (rg_live ?r2 loc))" by blast
  have "commit roots removed staged order r = Ok (abort r3)"
    using r3(1) by (simp add: commit_def Let_def del: obind_eq_Ok)
  moreover have "paired (abort r3)" using r3(2) by (simp add: paired_def abort_def)
  moreover have "rg_live (abort r3) = committed roots removed staged r"
    by (rule ext) (simp add: abort_def r3(4) live2 live1 committed_def map_add_def)
  moreover have "rg_next_instance (abort r3) = rg_next_instance r"
    using r3(3) rest2 spec by (simp add: abort_def same_rest_def)
  ultimately show ?thesis by (simp add: abort_def)
qed

lemma committed_origin:
  assumes "committed roots removed staged r loc = Some m"
  shows "\<exists>m0. cm_instance m0 = cm_instance m \<and> (rg_pending r loc = Some m0 \<or> rg_live r loc = Some m0)"
  using assms by (auto simp: committed_def chosen_live_def split: option.splits if_splits)

lemma commit_ok:
  assumes ok: "registry_ok r" and order: "drains order (rg_pending r)"
    and staged: "\<forall>i \<in> set staged. roots i \<noteq> None" and c: "commit roots removed staged order r = Ok r'"
  shows "registry_ok r'"
proof -
  from commit_spec [OF assms(1-3), of removed] c have r': "paired r'" "rg_live r' = committed roots removed staged r"
    "rg_next_instance r' = rg_next_instance r" "rg_pending r' = Map.empty" "rg_pending_instances r' = {}"
    "rg_seen r' = {}" "rg_scopes r' = []" by auto
  have m: "issued r (cm_instance m) \<and> own_key loc m" if "rg_live r' loc = Some m" for loc m
  proof -
    from committed_origin that r'(2) obtain m0 where m0: "cm_instance m0 = cm_instance m"
      "rg_pending r loc = Some m0 \<or> rg_live r loc = Some m0" by metis
    then have "issued r (cm_instance m0) \<and> own_key loc m0"
      using registry_okD(3,4,6,7) [OF ok] paired_live [OF registry_okD(1) [OF ok]] by metis
    with m0(1) show ?thesis by (simp add: own_key_def)
  qed
  have "issued r i" if "rg_instances r' i = Some loc" for i loc
    using paired_instance [OF r'(1) that] m by blast
  then show ?thesis
    using r' m registry_okD(2) [OF ok] by (auto simp: registry_ok_def issued_def)
qed

lemma commit_pending_order:
  assumes ok: "registry_ok r" and orders: "drains o1 (rg_pending r)" "drains o2 (rg_pending r)"
  shows "commit_pending roots o1 ((commit_removed roots removed r)\<lparr>rg_pending := Map.empty\<rparr>) =
    commit_pending roots o2 ((commit_removed roots removed r)\<lparr>rg_pending := Map.empty\<rparr>)"
    (is "?a = ?b")
proof (rule registry_eqI)
  let ?r1 = "(commit_removed roots removed r)\<lparr>rg_pending := Map.empty\<rparr>"
  have p1: "paired ?r1"
    using commit_removed_spec [OF registry_okD(1) [OF ok], of roots removed] by simp
  note a = commit_pending_spec [OF p1 drained_choices [OF ok orders(1)], of roots]
  note b = commit_pending_spec [OF p1 drained_choices [OF ok orders(2)], of roots]
  show "rg_live ?a = rg_live ?b" using a b orders by (simp add: drains_def)
  have same: "(l, m) \<in> set o1 \<longleftrightarrow> (l, m) \<in> set o2" for l m
    by (simp add: drains_set [OF orders(1)] drains_set [OF orders(2)])
  show "rg_instances ?a = rg_instances ?b"
  proof
    fix i
    note ai = a [THEN conjunct2, THEN conjunct2, THEN conjunct2, rule_format]
    note bi = b [THEN conjunct2, THEN conjunct2, THEN conjunct2, rule_format]
    have "rg_instances ?a i = Some loc \<longleftrightarrow> rg_instances ?b i = Some loc" for loc
      unfolding ai bi same ..
    then show "rg_instances ?a i = rg_instances ?b i" by (metis not_Some_eq)
  qed
  show "same_rest ?a ?b" using a b by (simp add: same_rest_def)
qed

section \<open>Reachable registries\<close>

inductive registry_step :: "registry \<Rightarrow> registry \<Rightarrow> bool" where
  step_begin: "registry_step r (snd (begin_render owner r))"
| step_scope_enter: "registry_step r (snd (scope_enter kind_tag label position r))"
| step_scope_exit: "registry_step r (snd (scope_exit r))"
| step_resolve: "registry_step r (snd (resolve key_kind digest r))"
| step_component_enter: "registry_step r (snd (component_enter inst r))"
| step_component_exit: "registry_step r (snd (component_exit r))"
| step_finish: "registry_step r (snd (finish_render r))"
| step_abort: "registry_step r (abort r)"
| step_commit: "drains order (rg_pending r) \<Longrightarrow> \<forall>i \<in> set staged. roots i \<noteq> None \<Longrightarrow>
    commit roots removed staged order r = Ok r' \<Longrightarrow> registry_step r r'"

lemma registry_step_ok: "registry_step r r' \<Longrightarrow> registry_ok r \<Longrightarrow> registry_ok r'"
  by (induction rule: registry_step.induct)
    (auto simp: scope_exit_def component_exit_def
      intro: begin_render_ok scope_enter_ok exit_scope_ok resolve_ok component_enter_ok finish_render_ok abort_ok
        commit_ok)

definition registry_reachable :: "registry \<Rightarrow> bool" where
  "registry_reachable r \<longleftrightarrow> registry_step\<^sup>*\<^sup>* registry_default r"

lemma registry_reachable_ok: "registry_reachable r \<Longrightarrow> registry_ok r"
  unfolding registry_reachable_def
  by (induction rule: rtranclp_induct) (auto intro: registry_ok_default registry_step_ok)

lemma commit_next: "commit roots removed staged order r = Ok r' \<Longrightarrow> registry_ok r \<Longrightarrow>
    drains order (rg_pending r) \<Longrightarrow> \<forall>i \<in> set staged. roots i \<noteq> None \<Longrightarrow> rg_next_instance r' = rg_next_instance r"
  using commit_spec [of r order staged roots removed] by auto

text \<open>Instances are never given back: the next one only grows.\<close>

lemma next_grows:
  assumes "registry_step r r'" and "registry_ok r"
  shows "rg_next_instance r \<le> rg_next_instance r'"
  using assms
proof (induction rule: registry_step.induct)
  case (step_resolve r key_kind digest)
  have "rg_next_instance r \<le> after" if "checked_add (rg_next_instance r) 1 = Some after" for after
    using checked_add_SomeD [OF that, THEN conjunct1] by (simp only: word_le_nat_alt)
  then show ?case
    by (auto simp: resolve_def Let_def split: outcome.splits list.splits option.splits)
next
  case (step_commit order r staged roots removed r')
  then show ?case using commit_next by simp
qed (auto simp: begin_render_def scope_enter_def scope_exit_def component_enter_def component_exit_def exit_scope_def
    finish_render_def abort_def open_scope_def Let_def split: list.splits option.splits)

section \<open>A render\<close>

definition sample_location :: "u8 \<Rightarrow> component_location" where
  "sample_location d = Location [SegBoundary 0] (Digest (replicate 32 d))"

definition opened_registry :: registry where
  "opened_registry = snd (begin_render 0 registry_default)"

definition chosen_registry :: registry where
  "chosen_registry = snd (resolve 1 (replicate 32 8) (snd (resolve 1 (replicate 32 7) opened_registry)))"

lemma opened_value: "opened_registry =
    registry_default\<lparr>rg_rendering := True, rg_scopes := [\<lparr>cs_identity = [SegBoundary 0], cs_occurrences = Map.empty, cs_kind = RenderScope\<rparr>]\<rparr>"
  by (simp add: opened_registry_def begin_render_def open_scope_def registry_default_def)

lemma sample_add: "checked_add (1 :: u64) 1 = Some 2" "checked_add (2 :: u64) 1 = Some 3"
  by (simp_all add: checked_add_def)

lemma sample_locations [simp]: "sample_location 7 \<noteq> sample_location 8" "sample_location 8 \<noteq> sample_location 7"
  by (simp_all add: sample_location_def)

lemma chosen_value: "chosen_registry = opened_registry\<lparr>rg_seen := {sample_location 7, sample_location 8},
    rg_next_instance := 3, rg_pending_instances := {1, 2},
    rg_pending := [sample_location 7 \<mapsto> \<lparr>cm_instance = 1, cm_root = 0\<rparr>, sample_location 8 \<mapsto> \<lparr>cm_instance = 2, cm_root = 0\<rparr>]\<rparr>"
  using sample_locations unfolding sample_location_def
  by (simp add: chosen_registry_def resolve_def resolve_key_def opened_value registry_default_def
      sample_add Let_def insert_commute)

lemma opened_reachable: "registry_reachable opened_registry"
  unfolding registry_reachable_def opened_registry_def by (intro r_into_rtranclp step_begin)

lemma chosen_reachable: "registry_reachable chosen_registry"
proof -
  have "registry_step\<^sup>*\<^sup>* opened_registry chosen_registry"
    unfolding chosen_registry_def
    by (rule rtranclp.rtrancl_into_rtrancl, rule r_into_rtranclp, rule step_resolve, rule step_resolve)
  with opened_reachable show ?thesis unfolding registry_reachable_def by (rule rtranclp_trans)
qed

lemma chosen_drains:
  "drains [(sample_location 7, \<lparr>cm_instance = 1, cm_root = 0\<rparr>), (sample_location 8, \<lparr>cm_instance = 2, cm_root = 0\<rparr>)]
     (rg_pending chosen_registry)"
  "drains [(sample_location 8, \<lparr>cm_instance = 2, cm_root = 0\<rparr>), (sample_location 7, \<lparr>cm_instance = 1, cm_root = 0\<rparr>)]
     (rg_pending chosen_registry)"
  by (simp_all add: drains_def chosen_value fun_eq_iff)

section \<open>Properties\<close>

text \<open>
  Claim C13: in every reachable registry, between renders and in the middle of one, the live
  locations and the registered instances are inverse maps, every registered or chosen instance
  was issued, and the choices of a render name distinct instances.
\<close>

theorem registry_consistent:
  assumes "registry_reachable r"
  shows "(\<forall>loc i. (\<exists>m. rg_live r loc = Some m \<and> cm_instance m = i) \<longleftrightarrow> rg_instances r i = Some loc) \<and>
    (\<forall>i \<in> dom (rg_instances r) \<union> rg_pending_instances r. 0 < i \<and> i < rg_next_instance r) \<and>
    (\<forall>loc loc' m m'. rg_pending r loc = Some m \<longrightarrow> rg_pending r loc' = Some m' \<longrightarrow>
       cm_instance m = cm_instance m' \<longrightarrow> loc = loc')"
proof (intro conjI allI ballI impI)
  note ok = registry_reachable_ok [OF assms]
  show "(\<exists>m. rg_live r loc = Some m \<and> cm_instance m = i) \<longleftrightarrow> rg_instances r i = Some loc" for loc i
    using paired_live [OF registry_okD(1) [OF ok]] paired_instance [OF registry_okD(1) [OF ok]] by blast
  fix i assume i: "i \<in> dom (rg_instances r) \<union> rg_pending_instances r"
  have "issued r i"
  proof (cases "i \<in> dom (rg_instances r)")
    case False
    with i obtain m where "m \<in> ran (rg_pending r)" "cm_instance m = i" using registry_okD(9) [OF ok] by auto
    then show ?thesis using registry_okD(6) [OF ok] by (auto simp: ran_def)
  qed (use registry_okD(3) [OF ok] in auto)
  then show "0 < i" "i < rg_next_instance r" by (auto simp: issued_def word_gt_0)
next
  fix loc loc' m m' assume "rg_pending r loc = Some m" "rg_pending r loc' = Some m'" "cm_instance m = cm_instance m'"
  then show "loc = loc'" using registry_okD(8) [OF registry_reachable_ok [OF assms]] by blast
qed

lemma registry_consistent_witness:
  "1 \<in> rg_pending_instances chosen_registry \<and> 0 < (1 :: u64) \<and> 1 < rg_next_instance chosen_registry"
proof -
  have "1 \<in> rg_pending_instances chosen_registry"
    by (simp add: chosen_value)
  then show ?thesis using registry_consistent [OF chosen_reachable] by blast
qed



text \<open>
  The order in which the hash table of choices is drained does not affect what a
  commit leaves, or whether it panics.
\<close>

theorem registry_commit_order:
  assumes "registry_reachable r" and "drains o1 (rg_pending r)" and "drains o2 (rg_pending r)"
  shows "commit roots removed staged o1 r = commit roots removed staged o2 r"
  unfolding commit_def commit_pending_order [OF registry_reachable_ok [OF assms(1)] assms(2,3)] ..

lemma registry_commit_order_witness:
  "commit [1 \<mapsto> 50, 2 \<mapsto> 60] [] [1]
     [(sample_location 7, \<lparr>cm_instance = 1, cm_root = 0\<rparr>), (sample_location 8, \<lparr>cm_instance = 2, cm_root = 0\<rparr>)] chosen_registry =
   commit [1 \<mapsto> 50, 2 \<mapsto> 60] [] [1]
     [(sample_location 8, \<lparr>cm_instance = 2, cm_root = 0\<rparr>), (sample_location 7, \<lparr>cm_instance = 1, cm_root = 0\<rparr>)] chosen_registry"
  by (rule registry_commit_order [OF chosen_reachable chosen_drains])

text \<open>
  A commit follows the graph. When the graph's delta accounts for every live component
  whose root changed, the commit succeeds, the live components are exactly the live or chosen
  ones that are mounted, and each has its mounted root.
\<close>

theorem registry_follows_graph:
  assumes "registry_reachable r" and "drains order (rg_pending r)"
    and "\<forall>i \<in> set staged. roots i \<noteq> None"
    and "\<forall>loc m. rg_live r loc = Some m \<longrightarrow>
      gone roots removed (cm_instance m) \<or> cm_instance m \<in> set staged \<or>
      roots (cm_instance m) = Some (cm_root m)"
  shows "\<exists>r'. commit roots removed staged order r = Ok r' \<and> registry_reachable r' \<and>
    (\<forall>loc m. rg_live r' loc = Some m \<longrightarrow> roots (cm_instance m) = Some (cm_root m)) \<and>
    dom (rg_instances r') = {i \<in> dom (rg_instances r) \<union> rg_pending_instances r. roots i \<noteq> None}"
proof -
  note ok = registry_reachable_ok [OF assms(1)]
  from commit_spec [OF ok assms(2,3), of removed] obtain r' where c: "commit roots removed staged order r = Ok r'"
    and p: "paired r'" and live: "rg_live r' = committed roots removed staged r" by blast
  have reach: "registry_reachable r'"
    using assms(1) step_commit [OF assms(2,3) c] unfolding registry_reachable_def by (rule rtranclp.rtrancl_into_rtrancl)
  have root: "roots (cm_instance m) = Some (cm_root m)" if "rg_live r' loc = Some m" for loc m
  proof (cases "chosen_live roots (rg_pending r) loc")
    case None
    with that live obtain m0 where m0: "rg_live r loc = Some m0" "\<not> gone roots removed (cm_instance m0)"
      "m = (if cm_instance m0 \<in> set staged then m0\<lparr>cm_root := the (roots (cm_instance m0))\<rparr> else m0)"
      by (auto simp: committed_def split: option.splits if_splits)
    then show ?thesis using assms(3) assms(4) [rule_format, OF m0(1)] by (cases "cm_instance m0 \<in> set staged") auto
  next
    case (Some m0)
    with that live have "m = (if cm_instance m0 \<in> set staged then m0\<lparr>cm_root := the (roots (cm_instance m0))\<rparr> else m0)"
      by (simp add: committed_def)
    moreover from Some have "roots (cm_instance m0) = Some (cm_root m0)"
      by (auto simp: chosen_live_def split: option.splits)
    ultimately show ?thesis by (cases "cm_instance m0 \<in> set staged") simp_all
  qed
  have "i \<in> dom (rg_instances r') \<longleftrightarrow> i \<in> {i \<in> dom (rg_instances r) \<union> rg_pending_instances r. roots i \<noteq> None}" for i
  proof
    assume "i \<in> dom (rg_instances r')"
    then obtain loc m where m: "rg_live r' loc = Some m" "cm_instance m = i"
      using paired_instance [OF p] by blast
    from committed_origin [OF m(1) [unfolded live]] obtain m0 where m0: "cm_instance m0 = i"
      "rg_pending r loc = Some m0 \<or> rg_live r loc = Some m0" using m(2) by blast
    then have "i \<in> dom (rg_instances r) \<union> rg_pending_instances r"
      using paired_live [OF registry_okD(1) [OF ok]] registry_okD(9) [OF ok] by (auto simp: ran_def)
    with root [OF m(1)] m(2) show "i \<in> {i \<in> dom (rg_instances r) \<union> rg_pending_instances r. roots i \<noteq> None}" by simp
  next
    assume "i \<in> {i \<in> dom (rg_instances r) \<union> rg_pending_instances r. roots i \<noteq> None}"
    then obtain root' where i: "i \<in> dom (rg_instances r) \<union> rg_pending_instances r" "roots i = Some root'" by auto
    have "\<exists>loc m. committed roots removed staged r loc = Some m \<and> cm_instance m = i"
    proof (cases "i \<in> rg_pending_instances r")
      case True
      then obtain loc m where "rg_pending r loc = Some m" "cm_instance m = i"
        using registry_okD(9) [OF ok] by (auto simp: ran_def)
      with i(2) have "chosen_live roots (rg_pending r) loc = Some (m\<lparr>cm_root := root'\<rparr>)" "cm_instance m = i"
        by (simp_all add: chosen_live_def)
      then show ?thesis by (intro exI [of _ loc]) (simp add: committed_def)
    next
      case False
      with i(1) obtain loc where "rg_instances r i = Some loc" by auto
      then obtain m where m: "rg_live r loc = Some m" "cm_instance m = i"
        using paired_instance [OF registry_okD(1) [OF ok]] by blast
      have "rg_pending r loc = None"
      proof (rule ccontr)
        assume "rg_pending r loc \<noteq> None"
        then obtain q where q: "rg_pending r loc = Some q" by blast
        with registry_okD(5) [OF ok q] m have "cm_instance q = i" by (auto simp: compatible_def)
        with q False registry_okD(9) [OF ok] show False by (auto simp: ran_def)
      qed
      with m i(2) show ?thesis
        by (intro exI [of _ loc]) (simp add: committed_def chosen_live_def gone_def)
    qed
    then show "i \<in> dom (rg_instances r')" using paired_live [OF p] live by auto
  qed
  then have "dom (rg_instances r') = {i \<in> dom (rg_instances r) \<union> rg_pending_instances r. roots i \<noteq> None}" by blast
  with c reach root show ?thesis by blast
qed

lemma registry_follows_graph_witness:
  "\<exists>r'. commit [1 \<mapsto> 50] [] [1]
     [(sample_location 7, \<lparr>cm_instance = 1, cm_root = 0\<rparr>), (sample_location 8, \<lparr>cm_instance = 2, cm_root = 0\<rparr>)] chosen_registry = Ok r' \<and>
     dom (rg_instances r') = {1}"
  using registry_follows_graph [OF chosen_reachable chosen_drains(1), of "[1]" "[1 \<mapsto> 50]" "[]"]
  by (auto simp: chosen_value opened_value registry_default_def)

end
