(* ===== verification/Graph.thy ===== *)
theory Graph
  imports Fragment KeyedOrder "HOL-Library.Monad_Syntax"
begin

text \<open>
  The mounted graph (\<open>MountedGraph\<close> in \<open>bridge.rs\<close>): its state, and the traversals that read it.
  A traversal follows parent or child links until it meets an end, so it need not return, and
  some of its lookups panic, which aborts the process. Its result is an \<open>option\<close>: \<open>None\<close> when it
  does not return a value. That every traversal of a well-formed graph returns is proved in
  \<open>GraphTree\<close>. A caller that takes a prefix of a keyed container's children is modelled on the
  whole list of them.
\<close>

section \<open>State\<close>

datatype parent_location = OrdinaryIndex u64 nat | KeyedAt u64 keyed_child_key u64

fun location_parent :: "parent_location \<Rightarrow> u64" where
  "location_parent (OrdinaryIndex parent index) = parent"
| "location_parent (KeyedAt container key instance) = container"

record mounted_node =
  mn_node :: node
  mn_parent :: "parent_location option"
  mn_size :: u64
  mn_segment :: identity_segment
  mn_keyed :: "keyed_child_order option"

record popover_counters =
  pn_opened :: u64
  pn_closed :: u64
  pn_dismissed :: u64

record popover_state =
  po_open :: "u64 set"
  po_pending :: "u64 set"
  po_focus_within :: "u64 set"
  po_counters :: popover_counters

record keyboard_counters =
  kn_offered :: u64
  kn_matched :: u64
  kn_compared :: u64
  kn_focused :: u64

record keyboard_state =
  kb_regions :: "u64 set"
  kb_window_regions :: "u64 set"
  kb_serials :: "u64 \<rightharpoonup> u64"
  kb_staged_requests :: "u64 list"
  kb_requests :: "u64 list"
  kb_counters :: keyboard_counters

record mounted_graph =
  mg_nodes :: "u64 \<rightharpoonup> mounted_node"
  mg_root :: "u64 option"
  mg_max_node :: u64
  mg_max_instance :: "u64 option"
  mg_boundaries :: "u64 \<rightharpoonup> u64"
  mg_labels :: "u64 option \<times> string \<rightharpoonup> u64"
  mg_owners :: "u64 \<rightharpoonup> u64 option"
  mg_dialog :: "u64 option"
  mg_hovered :: "u64 set"
  mg_popovers :: popover_state
  mg_keyboard :: keyboard_state
  mg_canvas_sizes :: "u64 \<rightharpoonup> u32 \<times> u32"

definition popover_default :: popover_state where
  "popover_default = \<lparr>po_open = {}, po_pending = {}, po_focus_within = {},
     po_counters = \<lparr>pn_opened = 0, pn_closed = 0, pn_dismissed = 0\<rparr>\<rparr>"

definition keyboard_default :: keyboard_state where
  "keyboard_default = \<lparr>kb_regions = {}, kb_window_regions = {}, kb_serials = Map.empty,
     kb_staged_requests = [], kb_requests = [],
     kb_counters = \<lparr>kn_offered = 0, kn_matched = 0, kn_compared = 0, kn_focused = 0\<rparr>\<rparr>"

definition graph_default :: mounted_graph where
  "graph_default = \<lparr>mg_nodes = Map.empty, mg_root = None, mg_max_node = 0, mg_max_instance = None,
     mg_boundaries = Map.empty, mg_labels = Map.empty, mg_owners = Map.empty, mg_dialog = None,
     mg_hovered = {}, mg_popovers = popover_default, mg_keyboard = keyboard_default,
     mg_canvas_sizes = Map.empty\<rparr>"

section \<open>Lookups\<close>

definition mounted :: "mounted_graph \<Rightarrow> u64 \<rightharpoonup> node" where
  "mounted g nid = map_option mn_node (mg_nodes g nid)"

definition mounted_kind :: "mounted_graph \<Rightarrow> u64 \<rightharpoonup> node_kind" where
  "mounted_kind g nid = map_option nd_kind (mounted g nid)"

definition parent_location :: "mounted_graph \<Rightarrow> u64 \<rightharpoonup> parent_location" where
  "parent_location g nid = (case mg_nodes g nid of None \<Rightarrow> None | Some entry \<Rightarrow> mn_parent entry)"

definition parent :: "mounted_graph \<Rightarrow> u64 \<rightharpoonup> u64 \<times> nat" where
  "parent g nid =
     (case parent_location g nid of
        Some (OrdinaryIndex p index) \<Rightarrow> Some (p, index)
      | _ \<Rightarrow> None)"

definition subtree_size :: "mounted_graph \<Rightarrow> u64 \<rightharpoonup> u64" where
  "subtree_size g nid = map_option mn_size (mg_nodes g nid)"

definition cached_segment :: "mounted_graph \<Rightarrow> u64 \<rightharpoonup> identity_segment" where
  "cached_segment g nid = map_option mn_segment (mg_nodes g nid)"

definition boundary_root :: "mounted_graph \<Rightarrow> u64 \<rightharpoonup> u64" where
  "boundary_root g instance = mg_boundaries g instance"

text \<open>The children in order; a broken link of a keyed order panics.\<close>

definition keyed_items :: "keyed_child_order \<Rightarrow> (keyed_child_key \<times> keyed_child) list option" where
  "keyed_items order = (case order_entries order of Ok items \<Rightarrow> Some items | _ \<Rightarrow> None)"

definition children_of :: "mounted_graph \<Rightarrow> u64 \<Rightarrow> u64 list option" where
  "children_of g nid =
     (case mg_nodes g nid of
        None \<Rightarrow> Some []
      | Some entry \<Rightarrow>
          (case mn_keyed entry of
             Some order \<Rightarrow> map_option (map (\<lambda>(key, child). kc_root child)) (keyed_items order)
           | None \<Rightarrow> Some (nd_children (mn_node entry))))"

definition keyed_children :: "mounted_graph \<Rightarrow> u64 \<Rightarrow> (keyed_child_key \<times> u64) list option option" where
  "keyed_children g nid =
     (case mg_nodes g nid of
        None \<Rightarrow> Some None
      | Some entry \<Rightarrow>
          (case mn_keyed entry of
             None \<Rightarrow> Some None
           | Some order \<Rightarrow> map_option (\<lambda>items. Some (map (\<lambda>(key, child). (key, kc_root child)) items))
                             (keyed_items order)))"

text \<open>\<open>Iterator::position\<close>: the index of the first occurrence.\<close>

fun position_of :: "'a \<Rightarrow> 'a list \<Rightarrow> nat option" where
  "position_of x [] = None"
| "position_of x (y # ys) = (if x = y then Some 0 else map_option Suc (position_of x ys))"

section \<open>Walks up\<close>

partial_function (option) component_owner :: "mounted_graph \<Rightarrow> u64 \<Rightarrow> u64 option option" where
  [code]: "component_owner g nid =
     (case mg_nodes g nid of
        None \<Rightarrow> Some None
      | Some entry \<Rightarrow>
          (case boundary_instance (nd_kind (mn_node entry)) of
             Some instance \<Rightarrow> Some (Some instance)
           | None \<Rightarrow>
               (case mn_parent entry of
                  None \<Rightarrow> Some None
                | Some location \<Rightarrow> component_owner g (location_parent location))))"

partial_function (option) virtual_above :: "mounted_graph \<Rightarrow> parent_location option \<Rightarrow> bool option" where
  [code]: "virtual_above g upward =
     (case upward of
        None \<Rightarrow> Some False
      | Some location \<Rightarrow>
          (if (case mounted_kind g (location_parent location) of
                 Some kind \<Rightarrow> is_virtual_list kind | None \<Rightarrow> False)
           then Some True
           else virtual_above g (parent_location g (location_parent location))))"

definition is_virtual_descendant :: "mounted_graph \<Rightarrow> u64 \<Rightarrow> bool option" where
  "is_virtual_descendant g nid = virtual_above g (parent_location g nid)"

text \<open>The segments are pushed from the node up to the root and then reversed.\<close>

partial_function (option) identity_walk ::
  "mounted_graph \<Rightarrow> u64 \<Rightarrow> identity_segment list \<Rightarrow> identity_segment list option" where
  [code]: "identity_walk g nid pushed =
     (case mg_nodes g nid of
        None \<Rightarrow> None
      | Some entry \<Rightarrow>
          (case mn_parent entry of
             None \<Rightarrow> Some (pushed @ [mn_segment entry])
           | Some location \<Rightarrow> identity_walk g (location_parent location) (pushed @ [mn_segment entry])))"

definition identity :: "mounted_graph \<Rightarrow> u64 \<Rightarrow> element_identity option" where
  "identity g nid = map_option rev (identity_walk g nid [])"

partial_function (option) is_descendant_of :: "mounted_graph \<Rightarrow> u64 \<Rightarrow> u64 \<Rightarrow> bool option" where
  [code]: "is_descendant_of g nid ancestor =
     (if nid = ancestor then Some True
      else (case parent_location g nid of
              None \<Rightarrow> Some False
            | Some location \<Rightarrow> is_descendant_of g (location_parent location) ancestor))"

partial_function (option) climb_path :: "mounted_graph \<Rightarrow> u64 \<Rightarrow> u64 list \<Rightarrow> u64 list option" where
  [code]: "climb_path g nid path =
     (case parent_location g nid of
        None \<Rightarrow> Some path
      | Some location \<Rightarrow> climb_path g (location_parent location) (path @ [location_parent location]))"

definition path_from_root :: "mounted_graph \<Rightarrow> u64 \<Rightarrow> u64 list option" where
  "path_from_root g nid = map_option rev (climb_path g nid [nid])"

text \<open>
  \<open>precedes\<close> compares the two paths where they part. The shared prefix is not empty unless the
  paths start at different roots, and then indexing before it panics.
\<close>

fun shared_prefix :: "u64 list \<Rightarrow> u64 list \<Rightarrow> nat" where
  "shared_prefix (x # xs) (y # ys) = (if x = y then Suc (shared_prefix xs ys) else 0)"
| "shared_prefix _ _ = 0"

definition precedes :: "mounted_graph \<Rightarrow> u64 \<Rightarrow> u64 \<Rightarrow> bool option" where
  "precedes g a b =
     do {
       left \<leftarrow> path_from_root g a;
       right \<leftarrow> path_from_root g b;
       let shared = shared_prefix left right;
       if length left \<le> shared then Some True
       else if length right \<le> shared then Some False
       else if shared = 0 then None
       else do {
         siblings \<leftarrow> children_of g (left ! (shared - 1));
         Some (find (\<lambda>child. child = left ! shared \<or> child = right ! shared) siblings = Some (left ! shared))
       }
     }"

partial_function (option) scroll_walk ::
  "mounted_graph \<Rightarrow> parent_location option \<Rightarrow> u64 list \<Rightarrow> u64 list option" where
  [code]: "scroll_walk g upward found =
     (case upward of
        None \<Rightarrow> Some found
      | Some location \<Rightarrow>
          (case mg_nodes g (location_parent location) of
             None \<Rightarrow> Some found
           | Some entry \<Rightarrow>
               (if (case location of OrdinaryIndex _ index \<Rightarrow> 0 < index | KeyedAt _ _ _ \<Rightarrow> False) \<and>
                   is_popover (nd_kind (mn_node entry))
                then Some found
                else scroll_walk g (mn_parent entry)
                       (if is_scroll (nd_kind (mn_node entry)) \<or> is_virtual_list (nd_kind (mn_node entry))
                        then found @ [location_parent location] else found))))"

partial_function (option) child_index_containing :: "mounted_graph \<Rightarrow> u64 \<Rightarrow> u64 \<Rightarrow> nat option option" where
  [code]: "child_index_containing g ancestor nid =
     (case parent_location g nid of
        None \<Rightarrow> Some None
      | Some location \<Rightarrow>
          (if location_parent location = ancestor
           then map_option (position_of nid) (children_of g ancestor)
           else child_index_containing g ancestor (location_parent location)))"

section \<open>Cycle targets\<close>

definition route_bits :: u64 where
  "route_bits = or (push_bit 63 1) (or hover_enter_event_bit (or hover_exit_event_bit shortcut_event_bit))"

text \<open>FNV-1a over the eight bytes of a value, least significant first.\<close>

definition mix_byte :: "u64 \<Rightarrow> u64 \<Rightarrow> u64" where
  "mix_byte byte hash = xor hash byte * 0x100000001b3"

definition mix :: "u64 \<Rightarrow> u64 \<Rightarrow> u64" where
  "mix v hash = fold (\<lambda>i. mix_byte (take_bit 8 (drop_bit (8 * i) v))) [0..<8] hash"

partial_function (option) cycle_hash :: "mounted_graph \<Rightarrow> u64 \<Rightarrow> u64 \<Rightarrow> u64 option option" where
  [code]: "cycle_hash g nid hash =
     (case mg_nodes g nid of
        None \<Rightarrow> Some None
      | Some entry \<Rightarrow>
          (let hash = mix (ucast (tag (nd_kind (mn_node entry)))) hash in
           case mn_parent entry of
             None \<Rightarrow> Some (Some hash)
           | Some (OrdinaryIndex p index) \<Rightarrow> cycle_hash g p (mix (of_nat index) hash)
           | Some (KeyedAt container key instance) \<Rightarrow>
               (case children_of g container of
                  None \<Rightarrow> None
                | Some siblings \<Rightarrow>
                    (case position_of nid siblings of
                       None \<Rightarrow> Some None
                     | Some index \<Rightarrow> cycle_hash g container (mix (of_nat index) hash)))))"

text \<open>Sixteen lowercase hexadecimal digits, most significant first.\<close>

definition hex_digit :: "nat \<Rightarrow> char" where
  "hex_digit d = char_of (if d < 10 then 48 + d else 87 + d)"

definition hex16 :: "u64 \<Rightarrow> string" where
  "hex16 v = map (\<lambda>i. hex_digit (unat v div 16 ^ (15 - i) mod 16)) [0..<16]"

definition cycle_target :: "mounted_graph \<Rightarrow> u64 \<Rightarrow> (string \<times> string) option option" where
  "cycle_target g route =
     (let target = and route (not route_bits) in
      case mounted_kind g target of
        None \<Rightarrow> Some None
      | Some kind \<Rightarrow>
          map_option (map_option (\<lambda>hash. (target_kind kind, hex16 hash)))
            (cycle_hash g target 0xcbf29ce484222325))"

section \<open>Walks down\<close>

text \<open>The pending nodes are a stack with its top at the head of the list.\<close>

partial_function (option) preorder_walk :: "mounted_graph \<Rightarrow> u64 list \<Rightarrow> node list \<Rightarrow> node list option" where
  [code]: "preorder_walk g pending ordered =
     (case pending of
        [] \<Rightarrow> Some ordered
      | nid # rest \<Rightarrow>
          (case mg_nodes g nid of
             None \<Rightarrow> None
           | Some entry \<Rightarrow>
               (case children_of g nid of
                  None \<Rightarrow> None
                | Some children \<Rightarrow> preorder_walk g (children @ rest) (ordered @ [mn_node entry]))))"

definition root_list :: "mounted_graph \<Rightarrow> u64 list" where
  "root_list g = (case mg_root g of None \<Rightarrow> [] | Some root \<Rightarrow> [root])"

definition nodes_preorder :: "mounted_graph \<Rightarrow> node list option" where
  "nodes_preorder g = preorder_walk g (root_list g) []"

text \<open>The children but the one at an index; the children a person can see.\<close>

definition except_index :: "nat \<Rightarrow> 'a list \<Rightarrow> 'a list" where
  "except_index hidden xs = map snd (filter (\<lambda>(index, x). index \<noteq> hidden) (enumerate 0 xs))"

definition presented_children :: "mounted_graph \<Rightarrow> node \<Rightarrow> u64 \<Rightarrow> u64 list option" where
  "presented_children g n nid =
     (if is_popover (nd_kind n) \<and> nid \<notin> po_open (mg_popovers g) then Some (take 1 (nd_children n))
      else case hidden_pane (nd_kind n) of
        Some hidden \<Rightarrow> Some (except_index hidden (nd_children n))
      | None \<Rightarrow> children_of g nid)"

partial_function (option) presented_walk :: "mounted_graph \<Rightarrow> u64 list \<Rightarrow> node list \<Rightarrow> node list option" where
  [code]: "presented_walk g pending ordered =
     (case pending of
        [] \<Rightarrow> Some ordered
      | nid # rest \<Rightarrow>
          (case mg_nodes g nid of
             None \<Rightarrow> None
           | Some entry \<Rightarrow>
               (case presented_children g (mn_node entry) nid of
                  None \<Rightarrow> None
                | Some children \<Rightarrow> presented_walk g (children @ rest) (ordered @ [mn_node entry]))))"

definition presented_preorder :: "mounted_graph \<Rightarrow> node list option" where
  "presented_preorder g = presented_walk g (root_list g) []"

definition focus_order :: "mounted_graph \<Rightarrow> u64 list option" where
  "focus_order g =
     map_option (\<lambda>ns. map nd_id (filter (\<lambda>n. focus_identity (nd_kind n) \<noteq> None) ns)) (nodes_preorder g)"

definition focus_destination :: "mounted_graph \<Rightarrow> nat \<Rightarrow> u64 option option" where
  "focus_destination g was_at =
     map_option (\<lambda>order. if order = [] then None else Some (order ! min was_at (length order - 1)))
       (focus_order g)"

definition find_focus_identity :: "mounted_graph \<Rightarrow> u8 \<times> string \<Rightarrow> u64 option option" where
  "find_focus_identity g name =
     map_option (\<lambda>ns. map_option nd_id (find (\<lambda>n. focus_identity (nd_kind n) = Some name) ns))
       (nodes_preorder g)"

fun find_inside :: "mounted_graph \<Rightarrow> u64 \<Rightarrow> node list \<Rightarrow> u64 option option" where
  "find_inside g ancestor [] = Some None"
| "find_inside g ancestor (n # ns) =
     do {
       inside \<leftarrow> is_descendant_of g (nd_id n) ancestor;
       if inside \<and> focus_identity (nd_kind n) \<noteq> None then Some (Some (nd_id n))
       else find_inside g ancestor ns
     }"

definition first_focusable_in :: "mounted_graph \<Rightarrow> u64 \<Rightarrow> u64 option option" where
  "first_focusable_in g ancestor = do { ns \<leftarrow> nodes_preorder g; find_inside g ancestor ns }"

section \<open>Sibling segments\<close>

text \<open>The occurrences count the earlier siblings of the same tag and name, at 32 bits.\<close>

fun segments_walk ::
  "(u64 \<rightharpoonup> node) \<Rightarrow> nat \<Rightarrow> (u8 \<times> string \<Rightarrow> u32) \<Rightarrow> u64 list \<Rightarrow> (u64 \<times> identity_segment) list" where
  "segments_walk look index seen [] = []"
| "segments_walk look index seen (child # rest) =
     (case look child of
        None \<Rightarrow> segments_walk look (Suc index) seen rest
      | Some n \<Rightarrow>
          (case sibling_name (nd_kind n) of
             None \<Rightarrow> (child, segment_of (nd_kind n) index 0) # segments_walk look (Suc index) seen rest
           | Some name \<Rightarrow>
               (let k = (tag (nd_kind n), name) in
                (child, segment_of (nd_kind n) index (seen k)) #
                segments_walk look (Suc index) (seen(k := seen k + 1)) rest)))"

definition child_segments :: "mounted_graph \<Rightarrow> u64 \<Rightarrow> (u64 \<times> identity_segment) list option" where
  "child_segments g p =
     (case mounted g p of
        None \<Rightarrow> Some []
      | Some n \<Rightarrow> map_option (segments_walk (mounted g) 0 (\<lambda>_. 0)) (children_of g p))"

end
