(* ===== verification/Interaction.thy ===== *)
theory Interaction
  imports Graph
begin

text \<open>
  Pointer, popover, dialog and canvas state of the mounted graph (\<open>MountedGraph\<close> in \<open>bridge.rs\<close>):
  the transitions native input and specifications share. An operation that walks the graph
  returns an \<open>option\<close>, \<open>None\<close> when it does not return.
\<close>

section \<open>Hover\<close>

fun hover_handlers :: "node_kind \<Rightarrow> (bool \<times> bool) option" where
  "hover_handlers (Button _ _ _ True hover_enter hover_exit _) = Some (hover_enter, hover_exit)"
| "hover_handlers (Popover _ _ _ hover_enter hover_exit _ _ _) = Some (hover_enter, hover_exit)"
| "hover_handlers _ = None"

definition hover_route :: "mounted_graph \<Rightarrow> u64 \<Rightarrow> bool \<Rightarrow> u64 option" where
  "hover_route g nid entered =
     (case Option.bind (mounted_kind g nid) hover_handlers of
        None \<Rightarrow> None
      | Some (hover_enter, hover_exit) \<Rightarrow>
          (if (if entered then hover_enter else hover_exit)
           then Some (or nid (if entered then hover_enter_event_bit else hover_exit_event_bit))
           else None))"

partial_function (option) hover_walk :: "mounted_graph \<Rightarrow> u64 \<Rightarrow> u64 list \<Rightarrow> u64 list option" where
  [code]: "hover_walk g nid targets =
     (case parent_location g nid of
        None \<Rightarrow> Some targets
      | Some location \<Rightarrow>
          (if (case mounted_kind g (location_parent location) of Some kind \<Rightarrow> is_popover kind | None \<Rightarrow> False)
           then (if (case location of OrdinaryIndex _ index \<Rightarrow> index = 0 | KeyedAt _ _ _ \<Rightarrow> False)
                 then hover_walk g (location_parent location) (targets @ [location_parent location])
                 else Some targets)
           else hover_walk g (location_parent location) targets))"

definition kind_tracks_hover :: "mounted_graph \<Rightarrow> u64 \<Rightarrow> bool" where
  "kind_tracks_hover g nid \<longleftrightarrow> (case mounted_kind g nid of None \<Rightarrow> False | Some kind \<Rightarrow> tracks_hover kind)"

definition hover_targets :: "mounted_graph \<Rightarrow> u64 \<Rightarrow> u64 list option" where
  "hover_targets g nid = map_option rev (hover_walk g nid (if kind_tracks_hover g nid then [nid] else []))"

section \<open>Popovers\<close>

definition presents :: "mounted_graph \<Rightarrow> u64 \<Rightarrow> bool" where
  "presents g nid \<longleftrightarrow>
     (case mounted g nid of None \<Rightarrow> False | Some n \<Rightarrow> is_popover (nd_kind n) \<and> 1 < length (nd_children n))"

definition on_popovers :: "(popover_state \<Rightarrow> popover_state) \<Rightarrow> mounted_graph \<Rightarrow> mounted_graph" where
  "on_popovers f g = g\<lparr>mg_popovers := f (mg_popovers g)\<rparr>"

definition count_opened :: "popover_state \<Rightarrow> popover_state" where
  "count_opened p = p\<lparr>po_counters := (po_counters p)\<lparr>pn_opened := pn_opened (po_counters p) + 1\<rparr>\<rparr>"

definition count_closed :: "popover_state \<Rightarrow> popover_state" where
  "count_closed p = p\<lparr>po_counters := (po_counters p)\<lparr>pn_closed := pn_closed (po_counters p) + 1\<rparr>\<rparr>"

definition open_popover :: "u64 \<Rightarrow> mounted_graph \<Rightarrow> bool \<times> mounted_graph" where
  "open_popover nid g =
     (let opened = (nid \<notin> po_open (mg_popovers g));
          g = on_popovers (\<lambda>p. p\<lparr>po_pending := po_pending p - {nid}, po_open := insert nid (po_open p)\<rparr>) g
      in (opened, if opened then on_popovers count_opened g else g))"

definition close_popover :: "u64 \<Rightarrow> mounted_graph \<Rightarrow> bool \<times> mounted_graph" where
  "close_popover nid g =
     (let closed = (nid \<in> po_open (mg_popovers g));
          g = on_popovers (\<lambda>p. p\<lparr>po_pending := po_pending p - {nid}, po_open := po_open p - {nid}\<rparr>) g
      in (closed, if closed then on_popovers count_closed g else g))"

fun popover_delay_ms :: "node_kind \<Rightarrow> u32 option" where
  "popover_delay_ms (Popover _ _ delay_ms _ _ _ _ _) = Some delay_ms"
| "popover_delay_ms _ = None"

definition popover_hover_edge :: "u64 \<Rightarrow> bool \<Rightarrow> mounted_graph \<Rightarrow> mounted_graph" where
  "popover_hover_edge nid entered g =
     (if \<not> presents g nid then g
      else if entered then
        (let delay = (case Option.bind (mounted_kind g nid) popover_delay_ms of Some d \<Rightarrow> d | None \<Rightarrow> 0) in
         if delay = 0 then snd (open_popover nid g)
         else if nid \<notin> po_open (mg_popovers g)
         then on_popovers (\<lambda>p. p\<lparr>po_pending := insert nid (po_pending p)\<rparr>) g
         else g)
      else
        (let g = on_popovers (\<lambda>p. p\<lparr>po_pending := po_pending p - {nid}\<rparr>) g in
         if nid \<notin> po_focus_within (mg_popovers g) then snd (close_popover nid g) else g))"

definition hover_transition :: "u64 \<Rightarrow> bool \<Rightarrow> mounted_graph \<Rightarrow> (u64 option \<times> mounted_graph) option" where
  "hover_transition nid entered g =
     do {
       outside \<leftarrow> (case mg_dialog g of
                     None \<Rightarrow> Some False
                   | Some dialog \<Rightarrow> map_option Not (is_descendant_of g nid dialog));
       Some (if outside \<or> \<not> kind_tracks_hover g nid then (None, g)
             else (let changed = (if entered then nid \<notin> mg_hovered g else nid \<in> mg_hovered g);
                       g = g\<lparr>mg_hovered := (if entered then insert nid (mg_hovered g) else mg_hovered g - {nid})\<rparr>;
                       g = (if changed then popover_hover_edge nid entered g else g)
                   in (if changed then hover_route g nid entered else None, g)))
     }"

definition popover_delay :: "mounted_graph \<Rightarrow> u64 \<Rightarrow> u32 option" where
  "popover_delay g nid =
     (if nid \<notin> po_pending (mg_popovers g) then None
      else Option.bind (mounted_kind g nid) popover_delay_ms)"

definition popover_elapse :: "u64 \<Rightarrow> mounted_graph \<Rightarrow> bool \<times> mounted_graph" where
  "popover_elapse nid g =
     (let waiting = (nid \<in> po_pending (mg_popovers g));
          g = on_popovers (\<lambda>p. p\<lparr>po_pending := po_pending p - {nid}\<rparr>) g
      in if waiting \<and> nid \<in> mg_hovered g then open_popover nid g else (False, g))"

definition pending_popovers :: "mounted_graph \<Rightarrow> u64 list" where
  "pending_popovers g = sorted_list_of_set (po_pending (mg_popovers g))"

definition popover_focus :: "u64 \<Rightarrow> bool \<Rightarrow> mounted_graph \<Rightarrow> bool \<times> mounted_graph" where
  "popover_focus nid within g =
     (if \<not> presents g nid then (False, g)
      else if within then
        open_popover nid (on_popovers (\<lambda>p. p\<lparr>po_focus_within := insert nid (po_focus_within p)\<rparr>) g)
      else
        (let g = on_popovers (\<lambda>p. p\<lparr>po_focus_within := po_focus_within p - {nid}\<rparr>) g in
         if nid \<notin> mg_hovered g then close_popover nid g else (False, g)))"

text \<open>
  Focus moved: the popovers containing the focus are found by the ordinary parents, then each
  popover focus left, in id order, and each it entered, innermost first, is updated.
\<close>

partial_function (option) containing_walk :: "mounted_graph \<Rightarrow> u64 option \<Rightarrow> u64 list \<Rightarrow> u64 list option" where
  [code]: "containing_walk g current containing =
     (case current of
        None \<Rightarrow> Some containing
      | Some nid \<Rightarrow>
          containing_walk g (map_option fst (parent g nid))
            (if presents g nid then containing @ [nid] else containing))"

fun leave_popovers :: "u64 list \<Rightarrow> u64 list \<Rightarrow> mounted_graph \<Rightarrow> u64 list \<times> mounted_graph" where
  "leave_popovers [] changed g = (changed, g)"
| "leave_popovers (nid # rest) changed g =
     (case popover_focus nid False g of
        (moved, g) \<Rightarrow> leave_popovers rest (if moved then changed @ [nid] else changed) g)"

fun enter_popovers :: "u64 list \<Rightarrow> u64 list \<Rightarrow> mounted_graph \<Rightarrow> u64 list \<times> mounted_graph" where
  "enter_popovers [] changed g = (changed, g)"
| "enter_popovers (nid # rest) changed g =
     (if nid \<in> po_focus_within (mg_popovers g) then enter_popovers rest changed g
      else (case popover_focus nid True g of
              (moved, g) \<Rightarrow> enter_popovers rest (if moved then changed @ [nid] else changed) g))"

definition popover_focus_moved ::
  "u64 option \<Rightarrow> mounted_graph \<Rightarrow> (u64 list \<times> mounted_graph) option" where
  "popover_focus_moved focused g =
     do {
       containing \<leftarrow> containing_walk g focused [];
       let left = sorted_list_of_set {nid \<in> po_focus_within (mg_popovers g). nid \<notin> set containing};
       Some (case leave_popovers left [] g of (changed, g) \<Rightarrow> enter_popovers containing changed g)
     }"

definition dismiss_popovers :: "mounted_graph \<Rightarrow> u64 list \<times> mounted_graph" where
  "dismiss_popovers g =
     (let closed = sorted_list_of_set (po_open (mg_popovers g)) in
      (closed, on_popovers (\<lambda>p. p\<lparr>po_open := {}, po_pending := {}, po_focus_within := {},
         po_counters := (po_counters p)\<lparr>pn_dismissed := pn_dismissed (po_counters p) + of_nat (length closed)\<rparr>\<rparr>) g))"

definition popover_open :: "mounted_graph \<Rightarrow> u64 \<Rightarrow> bool" where
  "popover_open g nid \<longleftrightarrow> nid \<in> po_open (mg_popovers g)"

section \<open>A modal dialog\<close>

text \<open>
  The blocked nodes are collected from four hash sets; \<open>retire_order\<close> shows that the order, and
  a node collected twice, make no difference.
\<close>

fun blocked_behind :: "mounted_graph \<Rightarrow> u64 \<Rightarrow> u64 list \<Rightarrow> u64 list option" where
  "blocked_behind g dialog [] = Some []"
| "blocked_behind g dialog (nid # rest) =
     do {
       inside \<leftarrow> is_descendant_of g nid dialog;
       blocked \<leftarrow> blocked_behind g dialog rest;
       Some (if inside then blocked else nid # blocked)
     }"

fun retire_each :: "u64 list \<Rightarrow> mounted_graph \<Rightarrow> mounted_graph" where
  "retire_each [] g = g"
| "retire_each (nid # rest) g =
     retire_each rest
       (snd (close_popover nid
         (on_popovers (\<lambda>p. p\<lparr>po_focus_within := po_focus_within p - {nid}\<rparr>)
           (g\<lparr>mg_hovered := mg_hovered g - {nid}\<rparr>))))"

definition interacting :: "mounted_graph \<Rightarrow> u64 set" where
  "interacting g = mg_hovered g \<union> po_open (mg_popovers g) \<union> po_pending (mg_popovers g) \<union>
     po_focus_within (mg_popovers g)"

definition retire_behind_dialog :: "u64 \<Rightarrow> mounted_graph \<Rightarrow> mounted_graph option" where
  "retire_behind_dialog dialog g =
     do {
       blocked \<leftarrow> blocked_behind g dialog (sorted_list_of_set (interacting g));
       Some (retire_each blocked g)
     }"

section \<open>Canvas sizes\<close>

fun asks_size :: "node_kind \<Rightarrow> bool" where
  "asks_size (Canvas _ _ _ _ True _) = True"
| "asks_size _ = False"

definition report_canvas_size :: "u64 \<Rightarrow> u32 \<times> u32 \<Rightarrow> mounted_graph \<Rightarrow> bool \<times> mounted_graph" where
  "report_canvas_size nid extent g =
     (if \<not> (case mounted_kind g nid of None \<Rightarrow> False | Some kind \<Rightarrow> asks_size kind) then (False, g)
      else (mg_canvas_sizes g nid \<noteq> Some extent,
            g\<lparr>mg_canvas_sizes := (mg_canvas_sizes g)(nid \<mapsto> extent)\<rparr>))"

definition reported_canvas_size :: "mounted_graph \<Rightarrow> u64 \<rightharpoonup> u32 \<times> u32" where
  "reported_canvas_size g nid = mg_canvas_sizes g nid"

section \<open>Scrolling ancestors\<close>

definition scroll_ancestors :: "mounted_graph \<Rightarrow> u64 \<Rightarrow> u64 list option" where
  "scroll_ancestors g nid =
     (if presents g nid then Some [] else scroll_walk g (parent_location g nid) [])"

section \<open>Carrying state across a rebuild\<close>

record interaction_carry =
  ca_hovered :: "element_identity set"
  ca_open :: "element_identity set"
  ca_pending :: "element_identity set"
  ca_focus_within :: "element_identity set"
  ca_serials :: "element_identity \<rightharpoonup> u64"
  ca_sizes :: "element_identity \<rightharpoonup> u32 \<times> u32"

definition carry_default :: interaction_carry where
  "carry_default = \<lparr>ca_hovered = {}, ca_open = {}, ca_pending = {}, ca_focus_within = {},
     ca_serials = Map.empty, ca_sizes = Map.empty\<rparr>"

definition carry_is_empty :: "interaction_carry \<Rightarrow> bool" where
  "carry_is_empty carry \<longleftrightarrow> ca_hovered carry = {} \<and> ca_open carry = {} \<and> ca_pending carry = {} \<and>
     ca_focus_within carry = {} \<and> ca_sizes carry = Map.empty"

definition on_keyboard :: "(keyboard_state \<Rightarrow> keyboard_state) \<Rightarrow> mounted_graph \<Rightarrow> mounted_graph" where
  "on_keyboard f g = g\<lparr>mg_keyboard := f (mg_keyboard g)\<rparr>"

text \<open>One retired node: its state leaves the graph for the carry, under its identity.\<close>

definition forget_node :: "u64 \<Rightarrow> mounted_graph \<Rightarrow> mounted_graph" where
  "forget_node nid g =
     on_popovers (\<lambda>p. p\<lparr>po_open := po_open p - {nid}, po_pending := po_pending p - {nid},
                        po_focus_within := po_focus_within p - {nid}\<rparr>)
       (on_keyboard (\<lambda>k. k\<lparr>kb_regions := kb_regions k - {nid},
                            kb_window_regions := kb_window_regions k - {nid},
                            kb_serials := (kb_serials k)(nid := None)\<rparr>)
         (g\<lparr>mg_canvas_sizes := (mg_canvas_sizes g)(nid := None), mg_hovered := mg_hovered g - {nid}\<rparr>))"

definition insert_if :: "bool \<Rightarrow> 'a \<Rightarrow> 'a set \<Rightarrow> 'a set" where
  "insert_if b x A = (if b then insert x A else A)"

definition carry_node :: "u64 \<Rightarrow> mounted_graph \<Rightarrow> interaction_carry \<Rightarrow> interaction_carry option" where
  "carry_node nid g carry =
     (let serial = kb_serials (mg_keyboard g) nid; extent = mg_canvas_sizes g nid;
          hovered = nid \<in> mg_hovered g; p = mg_popovers g;
          shown = nid \<in> po_open p; waiting = nid \<in> po_pending p; focus = nid \<in> po_focus_within p in
      if serial = None \<and> extent = None \<and> \<not> (hovered \<or> shown \<or> waiting \<or> focus) then Some carry
      else map_option
        (\<lambda>path. carry\<lparr>ca_serials := (case serial of None \<Rightarrow> ca_serials carry | Some s \<Rightarrow> (ca_serials carry)(path \<mapsto> s)),
                      ca_sizes := (case extent of None \<Rightarrow> ca_sizes carry | Some s \<Rightarrow> (ca_sizes carry)(path \<mapsto> s)),
                      ca_hovered := insert_if hovered path (ca_hovered carry),
                      ca_open := insert_if shown path (ca_open carry),
                      ca_pending := insert_if waiting path (ca_pending carry),
                      ca_focus_within := insert_if focus path (ca_focus_within carry)\<rparr>)
        (identity g nid))"

fun carry_each ::
  "u64 list \<Rightarrow> interaction_carry \<Rightarrow> mounted_graph \<Rightarrow> (interaction_carry \<times> mounted_graph) option" where
  "carry_each [] carry g = Some (carry, g)"
| "carry_each (nid # rest) carry g =
     do { carry \<leftarrow> carry_node nid g carry; carry_each rest carry (forget_node nid g) }"

definition carry_interaction ::
  "u64 list \<Rightarrow> mounted_graph \<Rightarrow> (interaction_carry \<times> mounted_graph) option" where
  "carry_interaction removed g = carry_each removed carry_default g"

fun popover_serial :: "node_kind \<Rightarrow> u64 option" where
  "popover_serial (Popover _ _ _ _ _ _ focus_serial _) = Some focus_serial"
| "popover_serial _ = None"

text \<open>The staged regions that carry a serial ask for focus when their identity did not have it.\<close>

fun restore_requests ::
  "u64 list \<Rightarrow> interaction_carry \<Rightarrow> mounted_graph \<Rightarrow> mounted_graph option" where
  "restore_requests [] carry g = Some g"
| "restore_requests (region # rest) carry g =
     (case Option.bind (mounted_kind g region) popover_serial of
        None \<Rightarrow> restore_requests rest carry g
      | Some serial \<Rightarrow>
          do {
            path \<leftarrow> identity g region;
            restore_requests rest carry
              (on_keyboard (\<lambda>k. k\<lparr>kb_serials := (kb_serials k)(region \<mapsto> serial),
                 kb_requests := (if ca_serials carry path \<noteq> Some serial
                                 then kb_requests k @ [region] else kb_requests k)\<rparr>) g)
          })"

definition restore_node :: "u64 \<Rightarrow> interaction_carry \<Rightarrow> mounted_graph \<Rightarrow> mounted_graph option" where
  "restore_node nid carry g =
     (case mounted_kind g nid of
        None \<Rightarrow> Some g
      | Some kind \<Rightarrow>
          (if asks_size kind then
             do {
               path \<leftarrow> identity g nid;
               Some (case ca_sizes carry path of
                       None \<Rightarrow> g
                     | Some extent \<Rightarrow> g\<lparr>mg_canvas_sizes := (mg_canvas_sizes g)(nid \<mapsto> extent)\<rparr>)
             }
           else if \<not> tracks_hover kind then Some g
           else
             do {
               path \<leftarrow> identity g nid;
               let shown = presents g nid;
               Some (on_popovers (\<lambda>p. p\<lparr>
                   po_open := insert_if (shown \<and> path \<in> ca_open carry) nid (po_open p),
                   po_pending := insert_if (shown \<and> path \<in> ca_pending carry) nid (po_pending p),
                   po_focus_within := insert_if (shown \<and> path \<in> ca_focus_within carry) nid (po_focus_within p)\<rparr>)
                 (g\<lparr>mg_hovered := insert_if (path \<in> ca_hovered carry) nid (mg_hovered g)\<rparr>))
             }))"

fun restore_each :: "u64 list \<Rightarrow> interaction_carry \<Rightarrow> mounted_graph \<Rightarrow> mounted_graph option" where
  "restore_each [] carry g = Some g"
| "restore_each (nid # rest) carry g =
     do { g \<leftarrow> restore_node nid carry g; restore_each rest carry g }"

definition restore_interaction ::
  "u64 list \<Rightarrow> interaction_carry \<Rightarrow> mounted_graph \<Rightarrow> mounted_graph option" where
  "restore_interaction staged carry g =
     do {
       g \<leftarrow> restore_requests (kb_staged_requests (mg_keyboard g)) carry
              (on_keyboard (\<lambda>k. k\<lparr>kb_staged_requests := []\<rparr>) g);
       if carry_is_empty carry then Some g else restore_each staged carry g
     }"

end
