(* ===== verification/Shortcuts.thy ===== *)
theory Shortcuts
  imports Interaction
begin

text \<open>
  The routing of a keystroke to a declared shortcut, and of a focus request to a control
  (\<open>resolve_shortcut\<close> and \<open>take_focus_request\<close> in \<open>bridge.rs\<close>). The comparison of a chord with
  the keystroke is a parameter, as in the source. The window regions are a hash set: the order
  in which it yields them is a parameter.
\<close>

section \<open>What can be perceived\<close>

partial_function (option) is_presented :: "mounted_graph \<Rightarrow> u64 \<Rightarrow> bool option" where
  [code]: "is_presented g nid =
     (case parent_location g nid of
        None \<Rightarrow> Some True
      | Some location \<Rightarrow>
          (if (case location of
                 OrdinaryIndex p index \<Rightarrow>
                   (case mounted_kind g p of Some kind \<Rightarrow> hidden_pane kind = Some index | None \<Rightarrow> False)
               | KeyedAt _ _ _ \<Rightarrow> False)
           then Some False
           else if (case location of OrdinaryIndex _ index \<Rightarrow> index \<noteq> 0 | KeyedAt _ _ _ \<Rightarrow> True) \<and>
                   (case mounted_kind g (location_parent location) of Some kind \<Rightarrow> is_popover kind | None \<Rightarrow> False) \<and>
                   location_parent location \<notin> po_open (mg_popovers g)
           then Some False
           else is_presented g (location_parent location)))"

definition region_live :: "mounted_graph \<Rightarrow> u64 \<Rightarrow> bool option" where
  "region_live g region =
     do {
       inside \<leftarrow> (case mg_dialog g of None \<Rightarrow> Some True | Some dialog \<Rightarrow> is_descendant_of g region dialog);
       if inside then is_presented g region else Some False
     }"

section \<open>Shortcuts\<close>

record shortcut_match =
  sm_region :: u64
  sm_event :: u64
  sm_index :: u64
  sm_keys :: string

fun edits_text :: "node_kind \<Rightarrow> bool" where
  "edits_text (TextInput _ _ _ True _) = True"
| "edits_text (Textarea _ _ _ True False _) = True"
| "edits_text _ = False"

text \<open>The regions that enclose the focus, innermost first, up to the active dialog.\<close>

partial_function (option) enclosing_walk :: "mounted_graph \<Rightarrow> u64 option \<Rightarrow> u64 list \<Rightarrow> u64 list option" where
  [code]: "enclosing_walk g current enclosing =
     (case current of
        None \<Rightarrow> Some enclosing
      | Some nid \<Rightarrow>
          (let enclosing = (if nid \<in> kb_regions (mg_keyboard g) then enclosing @ [nid] else enclosing) in
           if Some nid = mg_dialog g then Some enclosing
           else enclosing_walk g (map_option location_parent (parent_location g nid)) enclosing))"

fun region_shortcuts :: "node_kind \<Rightarrow> bool \<Rightarrow> shortcut list" where
  "region_shortcuts (Popover _ _ _ _ _ shortcuts _ _) focused = shortcuts"
| "region_shortcuts (Split _ _ _ _ _ _ _ _ _ shortcuts _) focused = (if focused then shortcuts else [])"
| "region_shortcuts _ focused = []"

text \<open>The first declared shortcut that matches, with its index, and the comparisons made.\<close>

fun scan_declared ::
  "(string \<Rightarrow> bool) \<Rightarrow> nat \<Rightarrow> shortcut list \<Rightarrow> u64 \<Rightarrow> (nat \<times> string) option \<times> u64" where
  "scan_declared matches index [] compared = (None, compared)"
| "scan_declared matches index (s # rest) compared =
     (if matches (sc_keys s) then (Some (index, sc_keys s), compared + 1)
      else scan_declared matches (Suc index) rest (compared + 1))"

fun scan_enclosing ::
  "mounted_graph \<Rightarrow> u64 option \<Rightarrow> (string \<Rightarrow> bool) \<Rightarrow> u64 list \<Rightarrow> u64 \<Rightarrow>
   ((u64 \<times> nat \<times> string) option \<times> u64) option" where
  "scan_enclosing g focused matches [] compared = Some (None, compared)"
| "scan_enclosing g focused matches (region # rest) compared =
     do {
       live \<leftarrow> region_live g region;
       if \<not> live then scan_enclosing g focused matches rest compared
       else
         (let declared = (case mounted_kind g region of
                            None \<Rightarrow> [] | Some kind \<Rightarrow> region_shortcuts kind (focused = Some region)) in
          case scan_declared matches 0 declared compared of
            (Some (index, keys), compared) \<Rightarrow> Some (Some (region, index, keys), compared)
          | (None, compared) \<Rightarrow> scan_enclosing g focused matches rest compared)
     }"

fun scan_window_shortcuts ::
  "(string \<Rightarrow> bool) \<Rightarrow> nat \<Rightarrow> shortcut list \<Rightarrow> u64 \<Rightarrow> (nat \<times> string) option \<times> u64" where
  "scan_window_shortcuts matches index [] compared = (None, compared)"
| "scan_window_shortcuts matches index (s # rest) compared =
     (if sc_scope s \<noteq> ScopeWindow then scan_window_shortcuts matches (Suc index) rest compared
      else if matches (sc_keys s) then (Some (index, sc_keys s), compared + 1)
      else scan_window_shortcuts matches (Suc index) rest (compared + 1))"

fun popover_shortcuts :: "node_kind \<Rightarrow> shortcut list" where
  "popover_shortcuts (Popover _ _ _ _ _ shortcuts _ _) = shortcuts"
| "popover_shortcuts _ = []"

fun window_candidates ::
  "mounted_graph \<Rightarrow> u64 list \<Rightarrow> (string \<Rightarrow> bool) \<Rightarrow> u64 list \<Rightarrow> u64 \<Rightarrow>
   ((u64 \<times> nat \<times> string) list \<times> u64) option" where
  "window_candidates g enclosing matches [] compared = Some ([], compared)"
| "window_candidates g enclosing matches (region # rest) compared =
     do {
       skip \<leftarrow> (if region \<in> set enclosing then Some True else map_option Not (region_live g region));
       if skip then window_candidates g enclosing matches rest compared
       else
         (let declared = (case mounted_kind g region of None \<Rightarrow> [] | Some kind \<Rightarrow> popover_shortcuts kind) in
          case scan_window_shortcuts matches 0 declared compared of
            (found, compared) \<Rightarrow>
              do {
                (candidates, compared) \<leftarrow> window_candidates g enclosing matches rest compared;
                Some (case found of None \<Rightarrow> candidates
                                  | Some (index, keys) \<Rightarrow> (region, index, keys) # candidates, compared)
              })
     }"

text \<open>\<open>reduce\<close> with \<open>precedes\<close>: the candidate that is last in document order.\<close>

fun latest :: "mounted_graph \<Rightarrow> ('a \<Rightarrow> u64) \<Rightarrow> 'a \<Rightarrow> 'a list \<Rightarrow> 'a option" where
  "latest g key kept [] = Some kept"
| "latest g key kept (candidate # rest) =
     do {
       before \<leftarrow> precedes g (key kept) (key candidate);
       latest g key (if before then candidate else kept) rest
     }"

definition latest_of :: "mounted_graph \<Rightarrow> ('a \<Rightarrow> u64) \<Rightarrow> 'a list \<Rightarrow> 'a option option" where
  "latest_of g key candidates =
     (case candidates of [] \<Rightarrow> Some None | c # rest \<Rightarrow> map_option Some (latest g key c rest))"

definition on_keyboard_counters :: "(keyboard_counters \<Rightarrow> keyboard_counters) \<Rightarrow> mounted_graph \<Rightarrow> mounted_graph" where
  "on_keyboard_counters f = on_keyboard (\<lambda>k. k\<lparr>kb_counters := f (kb_counters k)\<rparr>)"

definition resolve_shortcut ::
  "u64 list \<Rightarrow> u64 option \<Rightarrow> bool \<Rightarrow> (string \<Rightarrow> bool) \<Rightarrow> mounted_graph \<Rightarrow>
   (shortcut_match option \<times> mounted_graph) option" where
  "resolve_shortcut order focused types_character matches g =
     (let g = on_keyboard_counters (\<lambda>c. c\<lparr>kn_offered := kn_offered c + 1\<rparr>) g;
          focused = (case focused of Some nid \<Rightarrow> if mg_nodes g nid = None then None else Some nid | None \<Rightarrow> None);
          editing = (case Option.bind focused (mounted_kind g) of Some kind \<Rightarrow> edits_text kind | None \<Rightarrow> False)
      in if editing \<and> types_character then Some (None, g)
         else
           do {
             enclosing \<leftarrow> enclosing_walk g focused [];
             (found, compared) \<leftarrow> scan_enclosing g focused matches enclosing 0;
             (found, compared) \<leftarrow>
               (if found \<noteq> None then Some (found, compared)
                else do {
                  (candidates, compared) \<leftarrow> window_candidates g enclosing matches order compared;
                  found \<leftarrow> latest_of g fst candidates;
                  Some (found, compared)
                });
             let g = on_keyboard_counters (\<lambda>c. c\<lparr>kn_compared := kn_compared c + compared\<rparr>) g;
             Some (case found of
               None \<Rightarrow> (None, g)
             | Some (region, index, keys) \<Rightarrow>
                 (Some \<lparr>sm_region = region, sm_event = or region shortcut_event_bit,
                        sm_index = of_nat index, sm_keys = keys\<rparr>,
                  on_keyboard_counters (\<lambda>c. c\<lparr>kn_matched := kn_matched c + 1\<rparr>) g))
           })"

section \<open>Focus requests\<close>

fun live_requests :: "mounted_graph \<Rightarrow> u64 list \<Rightarrow> u64 list option" where
  "live_requests g [] = Some []"
| "live_requests g (region # rest) =
     do {
       live \<leftarrow> (if mg_nodes g region = None then Some False else region_live g region);
       others \<leftarrow> live_requests g rest;
       Some (if live then region # others else others)
     }"

partial_function (option) focus_walk :: "mounted_graph \<Rightarrow> u64 list \<Rightarrow> u64 option option" where
  [code]: "focus_walk g pending =
     (case pending of
        [] \<Rightarrow> Some None
      | nid # rest \<Rightarrow>
          (case mg_nodes g nid of
             None \<Rightarrow> Some None
           | Some entry \<Rightarrow>
               (if focus_identity (nd_kind (mn_node entry)) \<noteq> None then Some (Some nid)
                else (case presented_children g (mn_node entry) nid of
                        None \<Rightarrow> None
                      | Some children \<Rightarrow> focus_walk g (children @ rest)))))"

definition take_focus_request :: "mounted_graph \<Rightarrow> (u64 option \<times> mounted_graph) option" where
  "take_focus_request g =
     (let requests = kb_requests (mg_keyboard g);
          g = on_keyboard (\<lambda>k. k\<lparr>kb_requests := []\<rparr>) g
      in do {
           live \<leftarrow> live_requests g requests;
           latest_region \<leftarrow> latest_of g id live;
           (case latest_region of
              None \<Rightarrow> Some (None, g)
            | Some region \<Rightarrow>
                do {
                  found \<leftarrow> focus_walk g [region];
                  Some (found, if found = None then g
                               else on_keyboard_counters (\<lambda>c. c\<lparr>kn_focused := kn_focused c + 1\<rparr>) g)
                })
         })"

end
