(* ===== verification/KeyedSequence.thy ===== *)
theory KeyedSequence
  imports KeyedOrder
begin

text \<open>
  What the linked keyed order promises, and the proof that it does. The abstract state is a
  list of items (key, root, instance) with distinct keys in display order; the four edits are
  list operations. \<open>represents s xs\<close> says that the linked structure \<open>s\<close> is well formed and
  holds exactly the items \<open>xs\<close>.
\<close>

type_synonym keyed_item = "keyed_child_key \<times> u64 \<times> u64"

section \<open>The abstract sequence\<close>

fun place :: "keyed_item \<Rightarrow> keyed_child_key option \<Rightarrow> keyed_item list \<Rightarrow> keyed_item list" where
  "place x None ys = ys @ [x]"
| "place x (Some a) [] = [x]"
| "place x (Some a) (y # ys) = (if fst y = a then x # y # ys else y # place x (Some a) ys)"

definition anchored :: "keyed_child_key option \<Rightarrow> keyed_item list \<Rightarrow> bool" where
  "anchored before xs = (case before of None \<Rightarrow> True | Some a \<Rightarrow> a \<in> fst ` set xs)"

definition without :: "keyed_child_key \<Rightarrow> keyed_item list \<Rightarrow> keyed_item list" where
  "without k xs = filter (\<lambda>x. fst x \<noteq> k) xs"

definition seq_insert ::
  "keyed_child_key \<Rightarrow> u64 \<Rightarrow> u64 \<Rightarrow> keyed_child_key option \<Rightarrow> keyed_item list \<Rightarrow>
   (keyed_order_error, keyed_item list) outcome" where
  "seq_insert k root instance before xs =
     (if k \<in> fst ` set xs then Err (Duplicate k)
      else if anchored before xs then Ok (place (k, root, instance) before xs)
      else Err (Missing (the before)))"

definition seq_remove ::
  "keyed_child_key \<Rightarrow> keyed_item list \<Rightarrow> (keyed_order_error, keyed_item list) outcome" where
  "seq_remove k xs = (if k \<in> fst ` set xs then Ok (without k xs) else Err (Missing k))"

definition seq_move ::
  "keyed_child_key \<Rightarrow> keyed_child_key option \<Rightarrow> keyed_item list \<Rightarrow>
   (keyed_order_error, keyed_item list) outcome" where
  "seq_move k before xs =
     (case map_of xs k of
        None \<Rightarrow> Err (Missing k)
      | Some content \<Rightarrow>
          if before = Some k then Ok xs
          else if anchored before xs then Ok (place (k, content) before (without k xs))
          else Err (Missing (the before)))"

definition seq_replace ::
  "keyed_child_key \<Rightarrow> u64 \<Rightarrow> keyed_item list \<Rightarrow> (keyed_order_error, keyed_item list) outcome" where
  "seq_replace k root xs =
     (if k \<in> fst ` set xs
      then Ok (map (\<lambda>(k', r, i). if k' = k then (k, root, i) else (k', r, i)) xs)
      else Err (Missing k))"

fun seq_step :: "keyed_order_operation \<Rightarrow> keyed_item list \<Rightarrow> (keyed_order_error, keyed_item list) outcome" where
  "seq_step (OpInsert k root instance before) xs = seq_insert k root instance before xs"
| "seq_step (OpRemove k) xs = seq_remove k xs"
| "seq_step (OpMove k before) xs = seq_move k before xs"
| "seq_step (OpReplace k root) xs = seq_replace k root xs"

fun seq_run :: "keyed_order_operation list \<Rightarrow> keyed_item list \<Rightarrow> (keyed_order_error, keyed_item list) outcome" where
  "seq_run [] xs = Ok xs"
| "seq_run (x # rest) xs = obind (seq_step x xs) (seq_run rest)"

section \<open>Linked segments\<close>

text \<open>
  \<open>segment m p xs n\<close>: the map \<open>m\<close> links the items \<open>xs\<close> one after the other, the first with
  predecessor \<open>p\<close> and the last with successor \<open>n\<close>. Segments join where the end of one names
  the start of the other.
\<close>

definition first_key :: "keyed_item list \<Rightarrow> keyed_child_key option \<Rightarrow> keyed_child_key option" where
  "first_key xs n = (case xs of [] \<Rightarrow> n | x # _ \<Rightarrow> Some (fst x))"

definition last_key :: "keyed_child_key option \<Rightarrow> keyed_item list \<Rightarrow> keyed_child_key option" where
  "last_key p xs = (if xs = [] then p else Some (fst (last xs)))"

lemma first_key_simps [simp]:
  "first_key [] n = n" "first_key (x # xs) n = Some (fst x)"
  "first_key (xs @ ys) n = first_key xs (first_key ys n)"
  by (simp_all add: first_key_def split: list.splits)

lemma last_key_simps [simp]:
  "last_key p [] = p" "last_key p (x # xs) = last_key (Some (fst x)) xs"
  "last_key p (xs @ ys) = last_key (last_key p xs) ys"
  by (simp_all add: last_key_def)

lemma first_key_None_iff [simp]: "first_key xs None = None \<longleftrightarrow> xs = []"
  by (simp add: first_key_def split: list.splits)

lemma last_key_None_iff [simp]: "last_key None xs = None \<longleftrightarrow> xs = []"
  by (simp add: last_key_def)

fun segment ::
  "(keyed_child_key \<rightharpoonup> keyed_child) \<Rightarrow> keyed_child_key option \<Rightarrow> keyed_item list \<Rightarrow>
   keyed_child_key option \<Rightarrow> bool" where
  "segment m p [] n = True"
| "segment m p ((k, r, i) # xs) n =
     (m k = Some \<lparr>kc_root = r, kc_instance = i, kc_previous = p, kc_next = first_key xs n\<rparr> \<and>
      segment m (Some k) xs n)"

lemma segment_append [simp]:
  "segment m p (xs @ ys) n \<longleftrightarrow> segment m p xs (first_key ys n) \<and> segment m (last_key p xs) ys n"
  by (induction m p xs n rule: segment.induct) auto

lemma segment_cong_map:
  "(\<And>k. k \<in> fst ` set xs \<Longrightarrow> m' k = m k) \<Longrightarrow> segment m' p xs n = segment m p xs n"
  by (induction m p xs n rule: segment.induct) auto

lemma segment_frame [simp]:
  "k \<notin> fst ` set xs \<Longrightarrow> segment (m(k := v)) p xs n = segment m p xs n"
  by (rule segment_cong_map) auto

lemma segment_lookup:
  assumes "segment m p (xs @ (k, r, i) # ys) n"
  shows "m k = Some \<lparr>kc_root = r, kc_instance = i, kc_previous = last_key p xs, kc_next = first_key ys n\<rparr>"
  using assms by simp

section \<open>Representation\<close>

definition represents :: "keyed_child_order \<Rightarrow> keyed_item list \<Rightarrow> bool" where
  "represents s xs \<longleftrightarrow>
     distinct (map fst xs) \<and> dom (ko_children s) = fst ` set xs \<and>
     ko_head s = first_key xs None \<and> ko_tail s = last_key None xs \<and>
     segment (ko_children s) None xs None"

lemma represents_default: "represents order_default []"
  by (simp add: represents_def order_default_def)

lemma represents_revision [simp]: "represents (s\<lparr>ko_revision := v\<rparr>) xs = represents s xs"
  by (simp add: represents_def)

lemma represents_dom: "represents s xs \<Longrightarrow> ko_children s k = None \<longleftrightarrow> k \<notin> fst ` set xs"
  by (auto simp: represents_def)

lemma represents_absent: "represents s xs \<Longrightarrow> k \<notin> fst ` set xs \<Longrightarrow> ko_children s k = None"
  by (simp add: represents_dom)

lemma represents_present: "represents s xs \<Longrightarrow> k \<in> fst ` set xs \<Longrightarrow> \<exists>c. ko_children s k = Some c"
  using represents_dom by fastforce

lemma represents_card: "represents s xs \<Longrightarrow> card (dom (ko_children s)) = length xs"
  using distinct_card [of "map fst xs"] by (simp add: represents_def)

text \<open>A key of the sequence splits it, and the split determines the child.\<close>

lemma key_split:
  assumes "k \<in> fst ` set xs"
  obtains us r i vs where "xs = us @ (k, r, i) # vs"
  using assms by (auto dest!: split_list)

lemma represents_child:
  assumes "represents s (us @ (k, r, i) # vs)"
  shows "ko_children s k =
    Some \<lparr>kc_root = r, kc_instance = i, kc_previous = last_key None us, kc_next = first_key vs None\<rparr>"
  using assms by (simp add: represents_def)

text \<open>
  A linked structure with a hole between two segments: what the edits pass through. Both
  outer links of the hole are already the right ones of some pair \<open>(a, b)\<close> of links.
\<close>

definition open_at ::
  "keyed_child_order \<Rightarrow> keyed_item list \<Rightarrow> keyed_item list \<Rightarrow>
   keyed_child_key option \<Rightarrow> keyed_child_key option \<Rightarrow> bool" where
  "open_at s us vs a b \<longleftrightarrow>
     segment (ko_children s) None us a \<and> segment (ko_children s) b vs None \<and>
     ko_head s = first_key us a \<and> ko_tail s = last_key b vs"

lemma set_next_link_open:
  assumes "open_at s us vs a b" and "distinct (map fst (us @ vs))"
  shows "\<exists>s'. set_next_link (last_key None us) a' s = Ok s' \<and> open_at s' us vs a' b \<and>
      ko_revision s' = ko_revision s \<and>
      dom (ko_children s') = dom (ko_children s) \<and>
      (\<forall>k. k \<notin> fst ` set us \<longrightarrow> ko_children s' k = ko_children s k)"
proof (cases us rule: rev_cases)
  case Nil
  with assms show ?thesis by (simp add: set_next_link_def open_at_def)
next
  case (snoc us' x)
  obtain k r i where x: "x = (k, r, i)" by (cases x)
  with snoc assms show ?thesis
    by (auto simp: set_next_link_def open_at_def put_child_def first_key_def split: list.splits)
qed

lemma set_previous_link_open:
  assumes "open_at s us vs a b" and "distinct (map fst (us @ vs))"
  shows "\<exists>s'. set_previous_link (first_key vs None) b' s = Ok s' \<and> open_at s' us vs a b' \<and>
      ko_revision s' = ko_revision s \<and>
      dom (ko_children s') = dom (ko_children s) \<and>
      (\<forall>k. k \<notin> fst ` set vs \<longrightarrow> ko_children s' k = ko_children s k)"
proof (cases vs)
  case Nil
  with assms show ?thesis by (simp add: set_previous_link_def open_at_def)
next
  case (Cons x vs')
  obtain k r i where x: "x = (k, r, i)" by (cases x)
  with Cons assms show ?thesis
    by (auto simp: set_previous_link_def open_at_def put_child_def)
qed

text \<open>Links are right throughout: the linked part of \<open>represents\<close>.\<close>

definition linked :: "keyed_child_order \<Rightarrow> keyed_item list \<Rightarrow> bool" where
  "linked s xs \<longleftrightarrow> ko_head s = first_key xs None \<and> ko_tail s = last_key None xs \<and>
     segment (ko_children s) None xs None"

lemma represents_linked:
  "represents s xs \<longleftrightarrow> distinct (map fst xs) \<and> dom (ko_children s) = fst ` set xs \<and> linked s xs"
  by (auto simp: represents_def linked_def)

lemma linked_append:
  "linked s (us @ vs) \<longleftrightarrow> open_at s us vs (first_key vs None) (last_key None us)"
  by (auto simp: linked_def open_at_def)

lemma linked_around:
  "linked s (us @ (k, r, i) # vs) \<longleftrightarrow> open_at s us vs (Some k) (Some k) \<and>
     ko_children s k = Some \<lparr>kc_root = r, kc_instance = i,
       kc_previous = last_key None us, kc_next = first_key vs None\<rparr>"
  by (auto simp: linked_def open_at_def)

lemma open_at_put [simp]:
  "k \<notin> fst ` set us \<Longrightarrow> k \<notin> fst ` set vs \<Longrightarrow> open_at (put_child k c s) us vs a b = open_at s us vs a b"
  by (simp add: open_at_def put_child_def)

lemma open_at_drop [simp]:
  "k \<notin> fst ` set us \<Longrightarrow> k \<notin> fst ` set vs \<Longrightarrow> open_at (drop_child k s) us vs a b = open_at s us vs a b"
  by (simp add: open_at_def drop_child_def)

lemma children_put_drop [simp]:
  "ko_children (put_child k c s) = (ko_children s)(k \<mapsto> c)"
  "ko_children (drop_child k s) = (ko_children s)(k := None)"
  "ko_revision (put_child k c s) = ko_revision s"
  "ko_revision (drop_child k s) = ko_revision s"
  by (simp_all add: put_child_def drop_child_def)

text \<open>Placing before an anchor splits the sequence at the anchor.\<close>

lemma place_split:
  assumes "anchored before xs" and "distinct (map fst xs)"
  obtains us vs where "xs = us @ vs" "before = first_key vs None" "place x before xs = us @ x # vs"
proof (cases before)
  case None
  then show ?thesis by (intro that [of xs "[]"]) auto
next
  case (Some a)
  with assms(1) have "a \<in> fst ` set xs" by (simp add: anchored_def)
  then obtain us r i vs where xs: "xs = us @ (a, r, i) # vs" by (rule key_split)
  with assms(2) have "a \<notin> fst ` set us" by simp
  then have "place x (Some a) (us @ (a, r, i) # vs) = us @ x # (a, r, i) # vs"
    by (induction us) auto
  with xs Some show ?thesis by (intro that [of us "(a, r, i) # vs"]) auto
qed

lemma place_first_key:
  "a \<notin> fst ` set us \<Longrightarrow> place x (Some a) (us @ (a, c) # vs) = us @ x # (a, c) # vs"
  by (induction us) auto

lemma without_simps [simp]:
  "without k [] = []"
  "without k (x # xs) = (if fst x = k then without k xs else x # without k xs)"
  "without k (xs @ ys) = without k xs @ without k ys"
  by (simp_all add: without_def)

lemma without_absent [simp]: "k \<notin> fst ` set xs \<Longrightarrow> without k xs = xs"
  by (induction xs) auto

lemma without_split:
  "k \<notin> fst ` set us \<Longrightarrow> k \<notin> fst ` set vs \<Longrightarrow> without k (us @ (k, c) # vs) = us @ vs"
  by simp

section \<open>The journalled edits\<close>

lemma j_order_touch [simp]:
  "j_order (j_touch k j) = j_order j" "j_order (j_touch_opt k' j) = j_order j"
  by (simp_all add: j_touch_def j_touch_opt_def split: option.splits)

lemma j_child_order: "j_child k j = ok_or (ko_children (j_order j) k) (Missing k)"
  by (simp add: j_child_def)

lemma on_order_Ok [simp]: "on_order (\<lambda>s. Ok (f s)) j = Ok (j\<lparr>j_order := f (j_order j)\<rparr>)"
  by (simp add: on_order_def)

text \<open>Both outer links of a hole are rewritten, and nothing else of the order changes.\<close>

lemma j_relink:
  assumes "open_at (j_order j) us vs a b" and "distinct (map fst (us @ vs))"
  obtains j1 j2 where "j_set_next (last_key None us) a' j = Ok j1"
    and "j_set_previous (first_key vs None) b' j1 = Ok j2"
    and "open_at (j_order j2) us vs a' b'"
    and "ko_revision (j_order j2) = ko_revision (j_order j)"
    and "dom (ko_children (j_order j2)) = dom (ko_children (j_order j))"
    and "\<And>k. k \<notin> fst ` set us \<Longrightarrow> k \<notin> fst ` set vs \<Longrightarrow>
           ko_children (j_order j2) k = ko_children (j_order j) k"
proof -
  from set_next_link_open [OF assms, of a'] obtain s1 where
    1: "set_next_link (last_key None us) a' (j_order j) = Ok s1" "open_at s1 us vs a' b"
       "ko_revision s1 = ko_revision (j_order j)"
       "dom (ko_children s1) = dom (ko_children (j_order j))"
       "\<forall>k. k \<notin> fst ` set us \<longrightarrow> ko_children s1 k = ko_children (j_order j) k"
    by blast
  from set_previous_link_open [OF 1(2) assms(2), of b'] obtain s2 where
    2: "set_previous_link (first_key vs None) b' s1 = Ok s2" "open_at s2 us vs a' b'"
       "ko_revision s2 = ko_revision s1"
       "dom (ko_children s2) = dom (ko_children s1)"
       "\<forall>k. k \<notin> fst ` set vs \<longrightarrow> ko_children s2 k = ko_children s1 k"
    by blast
  let ?j1 = "(j_touch_opt (last_key None us) j)\<lparr>j_order := s1\<rparr>"
  let ?j2 = "(j_touch_opt (first_key vs None) ?j1)\<lparr>j_order := s2\<rparr>"
  show ?thesis
    by (rule that [of ?j1 ?j2]) (use 1 2 in \<open>auto simp: j_set_next_def j_set_previous_def on_order_def\<close>)
qed

lemma j_insert_refines:
  assumes rep: "represents (j_order j) xs"
  shows "outcome_rel (\<lambda>j ys. represents (j_order j) ys)
           (j_insert k r i before j) (seq_insert k r i before xs)"
proof (cases "k \<in> fst ` set xs \<or> \<not> anchored before xs")
  case True
  with rep show ?thesis
    by (auto simp: seq_insert_def j_insert_def represents_dom j_child_def anchored_def
          represents_absent
        split: option.splits if_splits)
next
  case False
  from rep have dist: "distinct (map fst xs)" by (simp add: represents_def)
  from False dist obtain us vs where xs: "xs = us @ vs" and before: "before = first_key vs None"
    and placed: "place (k, r, i) before xs = us @ (k, r, i) # vs"
    by (meson place_split)
  from False xs have k: "k \<notin> fst ` set us" "k \<notin> fst ` set vs" by auto
  let ?fresh = "\<lparr>kc_root = r, kc_instance = i, kc_previous = last_key None us, kc_next = before\<rparr>"
  let ?j = "(j_touch k j)\<lparr>j_order := put_child k ?fresh (j_order j)\<rparr>"
  have anchor: "\<exists>n. (case before of None \<Rightarrow> Ok None
      | Some anchor \<Rightarrow> obind (j_child anchor j) (\<lambda>c. Ok (Some c))) = Ok n \<and>
    (case n of None \<Rightarrow> ko_tail (j_order j) | Some child \<Rightarrow> kc_previous child) = last_key None us"
  proof (cases vs)
    case Nil
    with rep xs before show ?thesis by (simp add: represents_def)
  next
    case (Cons v vs')
    obtain k' r' i' where "v = (k', r', i')" by (cases v)
    with Cons rep xs before show ?thesis by (simp add: represents_def j_child_def)
  qed
  have opened: "open_at (j_order ?j) us vs (first_key vs None) (last_key None us)"
    using rep k xs by (simp add: represents_linked linked_append)
  have dist': "distinct (map fst (us @ vs))" using dist xs by simp
  obtain j1 j2 where
    "j_set_next (last_key None us) (Some k) ?j = Ok j1"
    "j_set_previous (first_key vs None) (Some k) j1 = Ok j2"
    and j2: "open_at (j_order j2) us vs (Some k) (Some k)"
      "dom (ko_children (j_order j2)) = dom (ko_children (j_order ?j))"
      "ko_children (j_order j2) k = ko_children (j_order ?j) k"
    by (rule j_relink [OF opened dist', of "Some k" "Some k"]) (use k in auto)
  then have "j_insert k r i before j = Ok j2"
    using anchor rep False before by (auto simp: j_insert_def Let_def represents_dom)
  moreover have "represents (j_order j2) (us @ (k, r, i) # vs)"
    using j2 dist xs k rep before by (auto simp: represents_linked linked_around)
  ultimately show ?thesis
    using False placed by (simp add: seq_insert_def)
qed

lemma j_remove_refines:
  assumes rep: "represents (j_order j) xs"
  shows "outcome_rel (\<lambda>j ys. represents (j_order j) ys) (j_remove k j) (seq_remove k xs)"
proof (cases "k \<in> fst ` set xs")
  case False
  with rep show ?thesis by (simp add: seq_remove_def j_remove_def j_child_def represents_absent)
next
  case True
  then obtain us r i vs where xs: "xs = us @ (k, r, i) # vs" by (rule key_split)
  from rep xs have dist: "distinct (map fst (us @ vs))"
    and k: "k \<notin> fst ` set us" "k \<notin> fst ` set vs" by (auto simp: represents_def)
  have child: "ko_children (j_order j) k = Some \<lparr>kc_root = r, kc_instance = i,
      kc_previous = last_key None us, kc_next = first_key vs None\<rparr>"
    using rep xs by (simp add: represents_def)
  have opened: "open_at (j_order j) us vs (Some k) (Some k)"
    using rep xs by (simp add: represents_linked linked_around)
  obtain j1 j2 where
    "j_set_next (last_key None us) (first_key vs None) j = Ok j1"
    "j_set_previous (first_key vs None) (last_key None us) j1 = Ok j2"
    and j2: "open_at (j_order j2) us vs (first_key vs None) (last_key None us)"
      "dom (ko_children (j_order j2)) = dom (ko_children (j_order j))"
    by (rule j_relink [OF opened dist, of "first_key vs None" "last_key None us"]) auto
  moreover from j2 have "represents (drop_child k (j_order j2)) (us @ vs)"
    using rep xs dist k by (auto simp: represents_linked linked_append)
  ultimately show ?thesis
    using True child xs k by (simp add: j_remove_def seq_remove_def j_child_def)
qed

lemma j_replace_refines:
  assumes rep: "represents (j_order j) xs"
  shows "outcome_rel (\<lambda>j ys. represents (j_order j) ys) (j_replace k root j) (seq_replace k root xs)"
proof (cases "k \<in> fst ` set xs")
  case False
  with rep show ?thesis by (simp add: seq_replace_def j_replace_def j_child_def represents_absent)
next
  case True
  then obtain us r i vs where xs: "xs = us @ (k, r, i) # vs" by (rule key_split)
  from rep xs have k: "k \<notin> fst ` set us" "k \<notin> fst ` set vs" by (auto simp: represents_def)
  then have others: "map (\<lambda>(k', r, i). if k' = k then (k, root, i) else (k', r, i)) us = us"
      "map (\<lambda>(k', r, i). if k' = k then (k, root, i) else (k', r, i)) vs = vs"
    by (force intro!: map_idI)+
  have child: "ko_children (j_order j) k = Some \<lparr>kc_root = r, kc_instance = i,
      kc_previous = last_key None us, kc_next = first_key vs None\<rparr>"
    using rep xs by (simp add: represents_def)
  with rep xs k have "represents (put_child k \<lparr>kc_root = root, kc_instance = i,
      kc_previous = last_key None us, kc_next = first_key vs None\<rparr> (j_order j)) (us @ (k, root, i) # vs)"
    by (auto simp: represents_linked linked_around)
  with True child xs others show ?thesis
    by (simp add: j_replace_def seq_replace_def j_child_def Let_def)
qed

lemma move_predecessor_linked:
  assumes "open_at s us vs (first_key vs None) (last_key None us)"
  shows "move_predecessor (first_key vs None) s = last_key None us"
proof (cases vs)
  case Nil
  with assms show ?thesis by (simp add: move_predecessor_def open_at_def)
next
  case (Cons v vs')
  obtain k r i where "v = (k, r, i)" by (cases v)
  with Cons assms show ?thesis
    by (auto simp: move_predecessor_def open_at_def split: option.splits)
qed

lemma j_move_refines:
  assumes rep: "represents (j_order j) xs"
  shows "outcome_rel (\<lambda>j ys. represents (j_order j) ys)
           (j_move_before k before j) (seq_move k before xs)"
proof (cases "k \<in> fst ` set xs")
  case False
  then have "map_of xs k = None" by (simp add: map_of_eq_None_iff)
  with False rep show ?thesis
    by (simp add: seq_move_def j_move_before_def j_child_def represents_absent)
next
  case True
  then obtain us r i vs where xs: "xs = us @ (k, r, i) # vs" by (rule key_split)
  from rep xs have dist: "distinct (map fst (us @ vs))"
    and k: "k \<notin> fst ` set us" "k \<notin> fst ` set vs" by (auto simp: represents_def)
  from k have content: "map_of xs k = Some (r, i)"
    by (simp add: xs map_add_def map_of_eq_None_iff [THEN iffD2])
  have child: "ko_children (j_order j) k = Some \<lparr>kc_root = r, kc_instance = i,
      kc_previous = last_key None us, kc_next = first_key vs None\<rparr>"
    using rep xs by (simp add: represents_def)
  have opened: "open_at (j_order j) us vs (Some k) (Some k)"
    using rep xs by (simp add: represents_linked linked_around)
  consider (self) "before = Some k" | (still) "before \<noteq> Some k" "first_key vs None = before"
    | (missing) "before \<noteq> Some k" "first_key vs None \<noteq> before" "\<not> anchored before xs"
    | (moved) "before \<noteq> Some k" "first_key vs None \<noteq> before" "anchored before xs"
    by blast
  then show ?thesis
  proof cases
    case self
    with rep content child show ?thesis by (simp add: seq_move_def j_move_before_def j_child_def)
  next
    case still
    have "anchored before xs \<and> place (k, r, i) before (us @ vs) = xs"
    proof (cases vs)
      case Nil
      with still xs show ?thesis by (simp add: anchored_def)
    next
      case (Cons v vs')
      with still xs dist show ?thesis by (cases v) (auto simp: anchored_def place_first_key)
    qed
    with still rep content child xs k show ?thesis
      by (simp add: seq_move_def j_move_before_def j_child_def)
  next
    case missing
    with rep content child show ?thesis
      by (auto simp: seq_move_def j_move_before_def j_child_def anchored_def represents_absent
          split: option.splits)
  next
    case moved
    then have "anchored before (us @ vs)" using xs by (auto simp: anchored_def split: option.splits)
    with dist obtain us' vs' where split: "us @ vs = us' @ vs'" and before: "before = first_key vs' None"
      and placed: "place (k, r, i) before (us @ vs) = us' @ (k, r, i) # vs'"
      by (meson place_split)
    have members: "set us \<union> set vs = set us' \<union> set vs'"
      using arg_cong [OF split, of set] by simp
    then have "fst ` set us \<union> fst ` set vs = fst ` set us' \<union> fst ` set vs'"
      by (metis image_Un)
    with k have k': "k \<notin> fst ` set us'" "k \<notin> fst ` set vs'" by auto
    from dist split have dist': "distinct (map fst (us' @ vs'))" by simp
    have anchor: "\<exists>n. (case before of None \<Rightarrow> Ok None
        | Some anchor \<Rightarrow> obind (j_child anchor j) (\<lambda>c. Ok (Some c))) = Ok n"
      using moved(3) rep by (auto simp: anchored_def j_child_def split: option.splits
          dest: represents_present)
    obtain j1 j2 where
      u: "j_set_next (last_key None us) (first_key vs None) j = Ok j1"
        "j_set_previous (first_key vs None) (last_key None us) j1 = Ok j2"
      and j2: "open_at (j_order j2) us vs (first_key vs None) (last_key None us)"
        "dom (ko_children (j_order j2)) = dom (ko_children (j_order j))"
        "ko_children (j_order j2) k = ko_children (j_order j) k"
      by (rule j_relink [OF opened dist, of "first_key vs None" "last_key None us"]) (use k in auto)
    from j2(1) split have j2': "open_at (j_order j2) us' vs' (first_key vs' None) (last_key None us')"
      by (metis linked_append)
    then have pred: "move_predecessor before (j_order j2) = last_key None us'"
      using before by (simp add: move_predecessor_linked)
    obtain j3 j4 where
      v: "j_set_next (last_key None us') (Some k) j2 = Ok j3"
        "j_set_previous (first_key vs' None) (Some k) j3 = Ok j4"
      and j4: "open_at (j_order j4) us' vs' (Some k) (Some k)"
        "dom (ko_children (j_order j4)) = dom (ko_children (j_order j2))"
        "ko_children (j_order j4) k = ko_children (j_order j2) k"
      by (rule j_relink [OF j2' dist', of "Some k" "Some k"]) (use k' in auto)
    let ?moved = "\<lparr>kc_root = r, kc_instance = i, kc_previous = last_key None us', kc_next = before\<rparr>"
    from u v pred child moved anchor j2(3) j4(3) before
    have "j_move_before k before j = Ok ((j_touch k j4)\<lparr>j_order := put_child k ?moved (j_order j4)\<rparr>)"
      by (auto simp: j_move_before_def j_child_def Let_def)
    moreover have "represents (put_child k ?moved (j_order j4)) (us' @ (k, r, i) # vs')"
    proof -
      have "set xs = insert (k, r, i) (set us' \<union> set vs')" using xs members by auto
      then show ?thesis
        using j4 j2 k' dist' rep before by (auto simp: represents_linked linked_around)
    qed
    ultimately show ?thesis
      using moved content placed xs k by (simp add: seq_move_def)
  qed
qed

end
