(* ===== verification/KeyedAtomic.thy ===== *)
theory KeyedAtomic
  imports KeyedSequence
begin

text \<open>
  The keyed sequence as an interface, its two providers, and what a keyed transaction
  guarantees: it has the effect of its operations on the list of items, or no effect at all,
  and it saves a bounded number of children per operation.
\<close>

section \<open>The interface\<close>

text \<open>The four edits an owner of a keyed sequence calls, folded over a list of operations.\<close>

fun edit_step where
  "edit_step ins rem mov rep (OpInsert k root instance before) s = ins k root instance before s"
| "edit_step ins rem mov rep (OpRemove k) s = rem k s"
| "edit_step ins rem mov rep (OpMove k before) s = mov k before s"
| "edit_step ins rem mov rep (OpReplace k root) s = rep k root s"

fun edit_run where
  "edit_run ins rem mov rep [] s = Ok s"
| "edit_run ins rem mov rep (x # xs) s = obind (edit_step ins rem mov rep x s) (edit_run ins rem mov rep xs)"

locale keyed_sequence =
  fixes repr :: "'s \<Rightarrow> keyed_item list \<Rightarrow> bool"
    and ins :: "keyed_child_key \<Rightarrow> u64 \<Rightarrow> u64 \<Rightarrow> keyed_child_key option \<Rightarrow> 's \<Rightarrow> (keyed_order_error, 's) outcome"
    and rem :: "keyed_child_key \<Rightarrow> 's \<Rightarrow> (keyed_order_error, 's) outcome"
    and mov :: "keyed_child_key \<Rightarrow> keyed_child_key option \<Rightarrow> 's \<Rightarrow> (keyed_order_error, 's) outcome"
    and rep :: "keyed_child_key \<Rightarrow> u64 \<Rightarrow> 's \<Rightarrow> (keyed_order_error, 's) outcome"
  assumes ins_refines: "repr s xs \<Longrightarrow> outcome_rel repr (ins k r i before s) (seq_insert k r i before xs)"
    and rem_refines: "repr s xs \<Longrightarrow> outcome_rel repr (rem k s) (seq_remove k xs)"
    and mov_refines: "repr s xs \<Longrightarrow> outcome_rel repr (mov k before s) (seq_move k before xs)"
    and rep_refines: "repr s xs \<Longrightarrow> outcome_rel repr (rep k r s) (seq_replace k r xs)"
    and repr_distinct: "repr s xs \<Longrightarrow> distinct (map fst xs)"
begin

lemma step_refines:
  "repr s xs \<Longrightarrow> outcome_rel repr (edit_step ins rem mov rep x s) (seq_step x xs)"
  by (cases x) (simp_all add: ins_refines rem_refines mov_refines rep_refines)

lemma run_refines:
  "repr s xs \<Longrightarrow> outcome_rel repr (edit_run ins rem mov rep ops s) (seq_run ops xs)"
proof (induction ops arbitrary: s xs)
  case Nil
  then show ?case by simp
next
  case (Cons x ops)
  from Cons.prems have "outcome_rel repr (edit_step ins rem mov rep x s) (seq_step x xs)"
    by (rule step_refines)
  then show ?case by (auto intro: outcome_rel_bind Cons.IH)
qed

lemma run_no_panic: "repr s xs \<Longrightarrow> edit_run ins rem mov rep ops s \<noteq> Panic"
  using run_refines [of s xs ops] by auto

lemma run_distinct:
  "repr s xs \<Longrightarrow> edit_run ins rem mov rep ops s = Ok s' \<Longrightarrow>
   \<exists>ys. seq_run ops xs = Ok ys \<and> repr s' ys \<and> distinct (map fst ys)"
  using run_refines [of s xs ops] by (cases "seq_run ops xs") (auto dest: repr_distinct)

end

section \<open>The journalled provider\<close>

interpretation journalled: keyed_sequence "\<lambda>j. represents (j_order j)" j_insert j_remove j_move_before j_replace
  by unfold_locales
    (simp_all add: j_insert_refines j_remove_refines j_move_refines j_replace_refines,
     simp add: represents_def)

lemma j_step_edit: "j_step x j = edit_step j_insert j_remove j_move_before j_replace x j"
  by (cases x) auto

text \<open>The loop that keeps the failing journal computes the same result as the plain fold.\<close>

lemma j_run_edit:
  "edit_run j_insert j_remove j_move_before j_replace ops j =
     (case j_run ops j of (j', Ok _) \<Rightarrow> Ok j' | (_, Err e) \<Rightarrow> Err e | (_, Panic) \<Rightarrow> Panic)"
  by (induction ops arbitrary: j) (auto simp: j_step_edit split: outcome.splits)

lemma j_run_represents:
  assumes "represents (j_order j) xs"
  shows "case j_run ops j of
      (j', Ok _) \<Rightarrow> (\<exists>ys. seq_run ops xs = Ok ys \<and> represents (j_order j') ys)
    | (j', Err e) \<Rightarrow> seq_run ops xs = Err e
    | (j', Panic) \<Rightarrow> False"
  using journalled.run_refines [OF assms, of ops]
  by (cases "seq_run ops xs") (auto simp: j_run_edit split: prod.splits outcome.splits)

section \<open>Rollback\<close>

text \<open>A journal remembers the order \<open>s\<close> it was opened on.\<close>

definition remembers :: "journal \<Rightarrow> keyed_child_order \<Rightarrow> bool" where
  "remembers j s \<longleftrightarrow>
     j_original_head j = ko_head s \<and> j_original_tail j = ko_tail s \<and>
     j_original_revision j = ko_revision s \<and>
     (\<forall>k. j_originals j k = Some (ko_children s k) \<or>
          j_originals j k = None \<and> ko_children (j_order j) k = ko_children s k)"

lemma remembers_new: "remembers (journal_new s) s"
  by (simp add: remembers_def journal_new_def)

lemma remembers_rollback:
  assumes "remembers j s"
  shows "j_rollback j = s"
proof -
  have "ko_children (j_rollback j) k = ko_children s k" for k
    using assms by (auto simp: remembers_def j_rollback_def dest!: spec [of _ k])
  with assms show ?thesis
    by (intro keyed_child_order.equality ext) (simp_all add: remembers_def j_rollback_def)
qed

lemma j_originals_touch [simp]:
  "j_originals (j_touch k j) k \<noteq> None"
  by (simp add: j_touch_def split: option.splits)

text \<open>Touching a key, and then changing nothing but its child, keeps the memory.\<close>

lemma remembers_touched:
  assumes "remembers j s" and "\<And>k'. k' \<noteq> k \<Longrightarrow> ko_children s' k' = ko_children (j_order j) k'"
  shows "remembers ((j_touch k j)\<lparr>j_order := s'\<rparr>) s"
proof -
  have old: "j_originals j k' = Some (ko_children s k') \<or>
      j_originals j k' = None \<and> ko_children (j_order j) k' = ko_children s k'" for k'
    using assms(1) by (simp add: remembers_def)
  have "j_originals (j_touch k j) k' = Some (ko_children s k') \<or>
      j_originals (j_touch k j) k' = None \<and> ko_children s' k' = ko_children s k'" for k'
    using old [of k'] assms(2) [of k']
    by (cases "k' = k") (auto simp: j_touch_def split: option.splits)
  with assms(1) show ?thesis
    by (auto simp: remembers_def j_touch_def split: option.splits)
qed

lemma remembers_touch [simp]: "remembers j s \<Longrightarrow> remembers (j_touch k j) s"
  using remembers_touched [of j s k "j_order j"] by (auto simp: j_touch_def split: option.splits)

lemma remembers_put:
  "remembers j s \<Longrightarrow> remembers ((j_touch k j)\<lparr>j_order := put_child k c (j_order j)\<rparr>) s"
  by (rule remembers_touched) auto

lemma remembers_drop:
  "remembers j s \<Longrightarrow> remembers ((j_touch k j)\<lparr>j_order := drop_child k (j_order j)\<rparr>) s"
  by (rule remembers_touched) auto

lemma remembers_set_next:
  "j_set_next p l j = Ok j' \<Longrightarrow> remembers j s \<Longrightarrow> remembers j' s"
  by (cases p)
    (auto simp: j_set_next_def on_order_def set_next_link_def j_touch_opt_def remembers_put,
     simp add: remembers_def)

lemma remembers_set_previous:
  "j_set_previous n l j = Ok j' \<Longrightarrow> remembers j s \<Longrightarrow> remembers j' s"
  by (cases n)
    (auto simp: j_set_previous_def on_order_def set_previous_link_def j_touch_opt_def remembers_put,
     simp add: remembers_def)

lemma remembers_step: "remembers j s \<Longrightarrow> j_step x j = Ok j' \<Longrightarrow> remembers j' s"
  by (cases x)
    (auto simp: j_insert_def j_remove_def j_move_before_def j_replace_def Let_def
        remembers_put remembers_drop
      split: if_splits,
     (blast intro: remembers_put remembers_drop remembers_set_next remembers_set_previous)+)

lemma remembers_run: "remembers j s \<Longrightarrow> remembers (fst (j_run ops j)) s"
  by (induction ops arbitrary: j) (auto split: outcome.splits intro: remembers_step)

section \<open>Work of a transaction\<close>

text \<open>
  Both counters count the saved children. \<open>within n j j'\<close>: going from \<open>j\<close> to \<open>j'\<close> keeps the
  counters exact and saves at most \<open>n\<close> more children.
\<close>

definition counted :: "journal \<Rightarrow> bool" where
  "counted j \<longleftrightarrow> finite (dom (j_originals j)) \<and>
     j_first_touches j = of_nat (card (dom (j_originals j))) \<and>
     j_original_reads j = j_first_touches j"

definition within :: "nat \<Rightarrow> journal \<Rightarrow> journal \<Rightarrow> bool" where
  "within n j j' \<longleftrightarrow> (counted j \<longrightarrow> counted j' \<and>
     card (dom (j_originals j')) \<le> card (dom (j_originals j)) + n)"

lemma within_refl: "within n j j"
  by (simp add: within_def)

lemma within_trans: "within m i j \<Longrightarrow> within n j k \<Longrightarrow> within (m + n) i k"
  by (auto simp: within_def)

lemma within_mono: "within m j j' \<Longrightarrow> m \<le> n \<Longrightarrow> within n j j'"
  by (auto simp: within_def)

lemma within_touch: "within (Suc 0) j ((j_touch k j)\<lparr>j_order := s\<rparr>)"
  by (auto simp: within_def counted_def j_touch_def card_insert_if split: option.splits)

lemma within_touch_opt: "within (Suc 0) j ((j_touch_opt k j)\<lparr>j_order := s\<rparr>)"
  using within_touch [where s = s and j = j] by (cases k) (auto simp: j_touch_opt_def within_def counted_def)

lemma within_set_next: "j_set_next p l j = Ok j' \<Longrightarrow> within (Suc 0) j j'"
  by (auto simp: j_set_next_def on_order_def within_touch_opt)

lemma within_set_previous: "j_set_previous n l j = Ok j' \<Longrightarrow> within (Suc 0) j j'"
  by (auto simp: j_set_previous_def on_order_def within_touch_opt)

lemmas within_parts = within_set_next within_set_previous within_touch

lemma within_insert:
  assumes "j_insert k r i before j = Ok j'"
  shows "within 3 j j'"
proof -
  from assms obtain c p j1 where
    "j_set_next p (Some k) ((j_touch k j)\<lparr>j_order := put_child k c (j_order j)\<rparr>) = Ok j1"
    "j_set_previous before (Some k) j1 = Ok j'"
    by (auto simp: j_insert_def Let_def split: if_splits)
  then have "within (Suc 0 + (Suc 0 + Suc 0)) j j'"
    by (blast intro: within_trans within_parts)
  then show ?thesis by (simp add: eval_nat_numeral)
qed

lemma within_remove:
  assumes "j_remove k j = Ok j'"
  shows "within 3 j j'"
proof -
  from assms obtain p n j1 j2 where
    "j_set_next p n j = Ok j1" "j_set_previous n p j1 = Ok j2"
    "j' = (j_touch k j2)\<lparr>j_order := drop_child k (j_order j2)\<rparr>"
    by (auto simp: j_remove_def)
  then have "within (Suc 0 + (Suc 0 + Suc 0)) j j'"
    by (blast intro: within_trans within_parts)
  then show ?thesis by (simp add: eval_nat_numeral)
qed

lemma within_move:
  assumes "j_move_before k before j = Ok j'"
  shows "within 5 j j'"
proof (cases "j' = j")
  case True
  then show ?thesis by (simp add: within_refl)
next
  case False
  with assms obtain p n q c j1 j2 j3 j4 where
    "j_set_next p n j = Ok j1" "j_set_previous n p j1 = Ok j2"
    "j_set_next q (Some k) j2 = Ok j3" "j_set_previous before (Some k) j3 = Ok j4"
    "j' = (j_touch k j4)\<lparr>j_order := put_child k c (j_order j4)\<rparr>"
    by (auto simp: j_move_before_def Let_def split: if_splits)
  then have "within (Suc 0 + (Suc 0 + (Suc 0 + (Suc 0 + Suc 0)))) j j'"
    by (blast intro: within_trans within_parts)
  then show ?thesis by (simp add: eval_nat_numeral)
qed

lemma within_replace:
  assumes "j_replace k r j = Ok j'"
  shows "within (Suc 0) j j'"
  using assms by (auto simp: j_replace_def Let_def intro: within_touch)

lemma within_step: "j_step x j = Ok j' \<Longrightarrow> within 5 j j'"
  by (cases x)
    (auto intro: within_mono [OF within_insert] within_mono [OF within_remove]
      within_mono [OF within_move] within_mono [OF within_replace])

lemma within_run: "within (5 * length ops) j (fst (j_run ops j))"
proof (induction ops arbitrary: j)
  case Nil
  then show ?case by (simp add: within_refl)
next
  case (Cons x ops)
  show ?case
  proof (cases "j_step x j")
    case (Ok j')
    from within_trans [OF within_step [OF Ok] Cons.IH [of j']] Ok show ?thesis by simp
  qed (simp_all add: within_refl)
qed

lemma counted_new: "counted (journal_new s)" "card (dom (j_originals (journal_new s))) = 0"
  by (simp_all add: counted_def journal_new_def)

section \<open>Seeding and iterating\<close>

lemma seed_loop_represents:
  assumes "distinct (map fst (us @ entries))"
    and "segment (ko_children s) None us (first_key entries None)"
    and "dom (ko_children s) = fst ` set us"
  shows "\<exists>s'. seed_loop entries (last_key None us) s = Ok s' \<and> ko_revision s' = ko_revision s \<and>
    segment (ko_children s') None (us @ entries) None \<and>
    dom (ko_children s') = fst ` set (us @ entries)"
  using assms
proof (induction entries arbitrary: us s)
  case Nil
  then show ?case by simp
next
  case (Cons x rest)
  obtain k r i where x: "x = (k, r, i)" by (cases x)
  have first: "map_option fst (first_of rest) = first_key rest None"
    by (simp add: first_key_def split: list.splits)
  let ?s = "put_child k \<lparr>kc_root = r, kc_instance = i, kc_previous = last_key None us,
              kc_next = first_key rest None\<rparr> s"
  from Cons.prems x have k: "k \<notin> fst ` set us" and absent: "ko_children s k = None" by auto
  have "segment (ko_children ?s) None (us @ [x]) (first_key rest None)"
    using Cons.prems x k by simp
  moreover have "dom (ko_children ?s) = fst ` set (us @ [x])"
    using Cons.prems x by simp
  moreover have "distinct (map fst ((us @ [x]) @ rest))"
    using Cons.prems by simp
  ultimately have "\<exists>s'. seed_loop rest (last_key None (us @ [x])) ?s = Ok s' \<and>
      ko_revision s' = ko_revision ?s \<and>
      segment (ko_children s') None ((us @ [x]) @ rest) None \<and>
      dom (ko_children s') = fst ` set ((us @ [x]) @ rest)"
    by (intro Cons.IH)
  with x first absent show ?case by simp
qed

lemma seed_loop_duplicate:
  assumes "\<not> distinct (map fst entries) \<or> fst ` set entries \<inter> dom (ko_children s) \<noteq> {}"
  shows "\<exists>k. seed_loop entries prior s = Err (Duplicate k)"
  using assms
  by (induction entries prior s rule: seed_loop.induct) auto

text \<open>An iterator in the middle of its run: \<open>zs\<close> are the items it has still to yield.\<close>

definition iter_at :: "keyed_child_order \<Rightarrow> keyed_child_iter \<Rightarrow> keyed_item list \<Rightarrow> bool" where
  "iter_at s it zs \<longleftrightarrow> it_remaining it = length zs \<and>
     (\<exists>us vs. represents s (us @ zs @ vs)) \<and>
     (zs \<noteq> [] \<longrightarrow> it_front it = Some (fst (hd zs)) \<and> it_back it = Some (fst (last zs)))"

definition item_of :: "keyed_child_key \<times> keyed_child \<Rightarrow> keyed_item" where
  "item_of x = (fst x, kc_root (snd x), kc_instance (snd x))"

lemma iter_at_start:
  assumes "represents s xs"
  shows "iter_at s (order_iter s) xs"
proof -
  have "\<exists>us vs. represents s (us @ xs @ vs)"
    using assms by (intro exI [of _ "[]"]) simp
  moreover have "xs \<noteq> [] \<longrightarrow> ko_head s = Some (fst (hd xs)) \<and> ko_tail s = Some (fst (last xs))"
    using assms by (cases xs) (auto simp: represents_def last_key_def)
  ultimately show ?thesis
    using assms by (simp add: iter_at_def order_iter_def represents_card)
qed

lemma iter_at_next:
  assumes "iter_at s it (z # zs)"
  shows "\<exists>c it'. iter_next s it = Ok (Some (fst z, c), it') \<and> item_of (fst z, c) = z \<and> iter_at s it' zs"
proof -
  obtain k r i where z: "z = (k, r, i)" by (cases z)
  from assms obtain us vs where rep: "represents s (us @ (z # zs) @ vs)"
    by (auto simp: iter_at_def)
  then have child: "ko_children s k = Some \<lparr>kc_root = r, kc_instance = i,
      kc_previous = last_key None us, kc_next = first_key (zs @ vs) None\<rparr>"
    by (simp add: z represents_def)
  have "\<exists>us vs. represents s (us @ zs @ vs)"
    using rep by (intro exI [of _ "us @ [z]"] exI [of _ vs]) simp
  with assms child z show ?thesis
    by (cases zs) (auto simp: iter_at_def iter_next_def item_of_def)
qed

lemma iter_at_next_back:
  assumes "iter_at s it (zs @ [z])"
  shows "\<exists>c it'. iter_next_back s it = Ok (Some (fst z, c), it') \<and> item_of (fst z, c) = z \<and> iter_at s it' zs"
proof -
  obtain k r i where z: "z = (k, r, i)" by (cases z)
  from assms obtain us vs where rep: "represents s (us @ (zs @ [z]) @ vs)"
    by (auto simp: iter_at_def)
  then have child: "ko_children s k = Some \<lparr>kc_root = r, kc_instance = i,
      kc_previous = last_key None (us @ zs), kc_next = first_key vs None\<rparr>"
    by (simp add: z represents_def)
  have "\<exists>us vs. represents s (us @ zs @ vs)"
    using rep by (intro exI [of _ us] exI [of _ "[z] @ vs"]) simp
  with assms child z show ?thesis
    by (cases zs rule: rev_cases) (auto simp: iter_at_def iter_next_back_def item_of_def hd_append)
qed

lemma iter_at_end:
  assumes "iter_at s it []"
  shows "iter_next s it = Ok (None, it)" "iter_next_back s it = Ok (None, it)"
  using assms by (simp_all add: iter_at_def iter_next_def iter_next_back_def)

text \<open>Drawing from both ends of a list.\<close>

fun list_draw :: "bool list \<Rightarrow> 'a list \<Rightarrow> 'a option list" where
  "list_draw [] zs = []"
| "list_draw (b # bs) zs =
     (if zs = [] then None # list_draw bs []
      else if b then Some (hd zs) # list_draw bs (tl zs)
      else Some (last zs) # list_draw bs (butlast zs))"

lemma iter_draw_at:
  "iter_at s it zs \<Longrightarrow> \<exists>cs. iter_draw bs s it = Ok cs \<and> map (map_option item_of) cs = list_draw bs zs"
proof (induction bs arbitrary: it zs)
  case Nil
  then show ?case by simp
next
  case (Cons b bs)
  show ?case
  proof (cases "zs = []")
    case True
    with Cons show ?thesis by (fastforce simp: iter_at_end)
  next
    case False
    show ?thesis
    proof (cases b)
      case True
      from False Cons.prems have "iter_at s it (hd zs # tl zs)" by simp
      from iter_at_next [OF this] obtain c it' where
        n: "iter_next s it = Ok (Some (fst (hd zs), c), it')" "item_of (fst (hd zs), c) = hd zs"
          "iter_at s it' (tl zs)" by blast
      from Cons.IH [OF n(3)] n True False show ?thesis by auto
    next
      case rear: False
      from False Cons.prems have "iter_at s it (butlast zs @ [last zs])" by simp
      from iter_at_next_back [OF this] obtain c it' where
        n: "iter_next_back s it = Ok (Some (fst (last zs), c), it')" "item_of (fst (last zs), c) = last zs"
          "iter_at s it' (butlast zs)" by blast
      from Cons.IH [OF n(3)] n rear False show ?thesis by auto
    qed
  qed
qed

lemma iter_collect_at:
  "iter_at s it zs \<Longrightarrow> \<exists>cs. iter_collect (length zs) s it = Ok cs \<and> map item_of cs = zs"
proof (induction zs arbitrary: it)
  case Nil
  then show ?case by simp
next
  case (Cons z zs)
  from iter_at_next [OF Cons.prems] obtain c it' where
    n: "iter_next s it = Ok (Some (fst z, c), it')" "item_of (fst z, c) = z" "iter_at s it' zs" by blast
  from Cons.IH [OF n(3)] n show ?case by auto
qed

lemma order_entries_represents:
  assumes "represents s xs"
  shows "\<exists>cs. order_entries s = Ok cs \<and> map item_of cs = xs"
  using iter_collect_at [OF iter_at_start [OF assms]] assms
  by (simp add: order_entries_def order_iter_def represents_card)

lemma order_keys_represents: "represents s xs \<Longrightarrow> order_keys s = Ok (map fst xs)"
proof -
  assume "represents s xs"
  from order_entries_represents [OF this] obtain cs where
    "order_entries s = Ok cs" "xs = map item_of cs" by blast
  then show ?thesis by (simp add: order_keys_def item_of_def)
qed

section \<open>The direct provider\<close>

text \<open>
  A direct edit, called with the order's own revision, and its journalled counterpart have the
  same effect but for the revision, which a transaction sets once at its end.
\<close>

definition direct_insert where
  "direct_insert k r i before s =
     obind (insert_before (ko_revision s) k r i before s) (\<lambda>(s, edit). Ok s)"

definition direct_remove where
  "direct_remove k s = obind (remove (ko_revision s) k s) (\<lambda>(s, child, edit). Ok s)"

definition direct_move where
  "direct_move k before s = obind (move_before (ko_revision s) k before s) (\<lambda>(s, edit). Ok s)"

definition direct_replace where
  "direct_replace k r s = obind (replace (ko_revision s) k r s) (\<lambda>(s, edit). Ok s)"

definition unrevised :: "keyed_child_order \<Rightarrow> keyed_child_order" where
  "unrevised s = s\<lparr>ko_revision := 0\<rparr>"

lemma unrevised_advance [simp]: "unrevised (fst (advance n s)) = unrevised s"
  by (simp add: unrevised_def advance_def Let_def)

lemma advance_pair: "advance n s = (fst (advance n s), snd (advance n s))"
  by simp

lemmas journalled_defs =
  j_insert_def j_remove_def j_move_before_def j_replace_def j_set_next_def j_set_previous_def
  on_order_def j_child_def Let_def obind_assoc

lemmas direct_defs =
  direct_insert_def direct_remove_def direct_move_def direct_replace_def
  insert_before_def remove_def move_before_def replace_def check_revision_def Let_def obind_assoc

lemma same_insert:
  "obind (j_insert k r i before j) (\<lambda>j. Ok (unrevised (j_order j))) =
   obind (direct_insert k r i before (j_order j)) (\<lambda>s. Ok (unrevised s))"
  by (cases before) (simp_all add: journalled_defs direct_defs case_prod_beta)

lemma same_remove:
  "obind (j_remove k j) (\<lambda>j. Ok (unrevised (j_order j))) =
   obind (direct_remove k (j_order j)) (\<lambda>s. Ok (unrevised s))"
  by (simp add: journalled_defs direct_defs case_prod_beta)

lemma same_replace:
  "obind (j_replace k r j) (\<lambda>j. Ok (unrevised (j_order j))) =
   obind (direct_replace k r (j_order j)) (\<lambda>s. Ok (unrevised s))"
  by (cases "ko_children (j_order j) k") (simp_all add: journalled_defs direct_defs case_prod_beta)

lemma same_move:
  "obind (j_move_before k before j) (\<lambda>j. Ok (unrevised (j_order j))) =
   obind (direct_move k before (j_order j)) (\<lambda>s. Ok (unrevised s))"
proof (cases "ko_children (j_order j) k")
  case None
  then show ?thesis by (simp add: journalled_defs direct_defs)
next
  case (Some child)
  show ?thesis
  proof (cases "before = Some k \<or> kc_next child = before")
    case True
    with Some show ?thesis by (auto simp add: journalled_defs direct_defs case_prod_beta)
  next
    case False
    with Some show ?thesis
      by (cases before; cases "ko_children (j_order j) (the before)")
        (auto simp add: journalled_defs direct_defs case_prod_beta)
  qed
qed

lemma represents_unrevised [simp]: "represents (unrevised s) xs = represents s xs"
  by (simp add: unrevised_def)

lemma direct_from_journalled:
  assumes "obind a (\<lambda>j. Ok (unrevised (j_order j))) = obind b (\<lambda>s. Ok (unrevised s))"
    and "outcome_rel (\<lambda>j ys. represents (j_order j) ys) a y"
  shows "outcome_rel represents b y"
  using assms by (cases a; cases b; cases y) (auto, metis represents_unrevised)

interpretation direct: keyed_sequence represents direct_insert direct_remove direct_move direct_replace
proof unfold_locales
  fix s xs k r i before
  assume rep: "represents s xs"
  let ?j = "journal_new s"
  have j: "j_order ?j = s" by (simp add: journal_new_def)
  show "outcome_rel represents (direct_insert k r i before s) (seq_insert k r i before xs)"
    using direct_from_journalled [OF same_insert [of k r i before ?j]] j_insert_refines [of ?j] rep j
    by simp
  show "outcome_rel represents (direct_remove k s) (seq_remove k xs)"
    using direct_from_journalled [OF same_remove [of k ?j]] j_remove_refines [of ?j] rep j by simp
  show "outcome_rel represents (direct_move k before s) (seq_move k before xs)"
    using direct_from_journalled [OF same_move [of k before ?j]] j_move_refines [of ?j] rep j by simp
  show "outcome_rel represents (direct_replace k r s) (seq_replace k r xs)"
    using direct_from_journalled [OF same_replace [of k r ?j]] j_replace_refines [of ?j] rep j by simp
  show "distinct (map fst xs)" using rep by (simp add: represents_def)
qed

section \<open>Properties\<close>

text \<open>Claim C5: a keyed transaction opened at the order's own revision has exactly the effect its
  operations have on the list of items, stamped with the supplied revision; where the list
  operation fails, the transaction reports that error and the order is the one before it. It
  never panics.\<close>

theorem keyed_transaction_refines:
  assumes "represents s xs" and "ko_revision s < new_revision"
  shows "case seq_run ops xs of
      Ok ys \<Rightarrow> \<exists>s' edit. apply_atomic (ko_revision s) new_revision ops s = (s', Ok edit) \<and>
                 represents s' ys \<and> ko_revision s' = new_revision \<and> ae_revision edit = new_revision
    | Err e \<Rightarrow> apply_atomic (ko_revision s) new_revision ops s = (s, Err e)
    | Panic \<Rightarrow> False"
proof -
  obtain j r where run: "j_run ops (journal_new s) = (j, r)" by fastforce
  have undone: "j_rollback j = s"
    using remembers_run [OF remembers_new, of ops s] run by (simp add: remembers_rollback)
  have "represents (j_order (journal_new s)) xs" using assms by (simp add: journal_new_def)
  from j_run_represents [OF this, of ops] run assms(2) undone show ?thesis
    by (cases r) (auto simp: apply_atomic_def check_revision_def)
qed

text \<open>Claim C6: a rejected keyed transaction leaves the order as it was, field for field, whatever
  the order and the operations, well formed or not.\<close>

theorem keyed_transaction_atomic:
  assumes "apply_atomic base_revision new_revision ops s = (s', Err e)"
  shows "s' = s"
  using assms remembers_run [OF remembers_new, of ops s]
  by (auto simp: apply_atomic_def remembers_rollback check_revision_def
      split: outcome.splits if_splits prod.splits)

text \<open>A committed transaction saves at most five children per operation, each of them
  once, however many siblings the order has.\<close>

theorem keyed_transaction_work:
  assumes "apply_atomic base_revision new_revision ops s = (s', Ok edit)"
  shows "unat (ae_first_touches edit) \<le> 5 * length ops \<and>
         ae_original_reads edit = ae_first_touches edit"
proof -
  obtain j r where run: "j_run ops (journal_new s) = (j, r)" by fastforce
  from within_run [of ops "journal_new s"] run
  have j: "counted j" "card (dom (j_originals j)) \<le> 5 * length ops"
    by (auto simp: within_def counted_new)
  then have "unat (j_first_touches j) \<le> 5 * length ops"
    by (simp add: counted_def unat_of_nat)
  with j(1) assms run show ?thesis
    by (auto simp: apply_atomic_def counted_def split: outcome.splits if_splits prod.splits)
qed

text \<open>The iterator yields the items of the order, from the front and from the back in any
  interleaving, each exactly once, and then nothing; it never meets a broken link.\<close>

theorem keyed_iterator_double_ended:
  assumes "represents s xs"
  shows "\<exists>cs. iter_draw schedule s (order_iter s) = Ok cs \<and>
              map (map_option item_of) cs = list_draw schedule xs"
  by (rule iter_draw_at [OF iter_at_start [OF assms]])

lemma from_seed_represents:
  assumes "distinct (map fst entries)"
  shows "\<exists>s. from_seed revision entries = Ok s \<and> represents s entries \<and> ko_revision s = revision"
proof -
  have ends: "map_option fst (first_of entries) = first_key entries None"
    "map_option fst (last_of entries) = last_key None entries"
    by (simp_all add: first_key_def last_key_def first_of_def last_of_def split: list.splits)
  from assms have "\<exists>s'. seed_loop entries (last_key None []) (order_default\<lparr>ko_revision := revision\<rparr>) = Ok s' \<and>
      ko_revision s' = ko_revision (order_default\<lparr>ko_revision := revision\<rparr>) \<and>
      segment (ko_children s') None ([] @ entries) None \<and> dom (ko_children s') = fst ` set ([] @ entries)"
    by (intro seed_loop_represents) (simp_all add: order_default_def)
  with assms ends show ?thesis by (auto simp: from_seed_def represents_def)
qed

text \<open>Seeding from entries with distinct keys gives an order that holds exactly the
  entries at the given revision; a repeated key is refused.\<close>

theorem keyed_seed_represents:
  "if distinct (map fst entries)
   then \<exists>s. from_seed revision entries = Ok s \<and> represents s entries \<and> ko_revision s = revision
   else \<exists>k. from_seed revision entries = Err (Duplicate k)"
proof (cases "distinct (map fst entries)")
  case False
  then obtain k where "seed_loop entries None (order_default\<lparr>ko_revision := revision\<rparr>) = Err (Duplicate k)"
    using seed_loop_duplicate by blast
  with False show ?thesis by (simp add: from_seed_def)
qed (use from_seed_represents in simp)

subsection \<open>Witnesses\<close>

text \<open>Keys as the tests of the source make them: one byte, then zeros.\<close>

definition test_key :: "u8 \<Rightarrow> keyed_child_key" where
  "test_key v = v # replicate 31 0"

lemma test_key_inject [simp]: "test_key a = test_key b \<longleftrightarrow> a = b"
  by (simp add: test_key_def)

definition sample_order :: keyed_child_order where
  "sample_order =
     \<lparr>ko_revision = 3, ko_head = Some (test_key 1), ko_tail = Some (test_key 2),
      ko_children =
        [test_key 1 \<mapsto> \<lparr>kc_root = 10, kc_instance = 100, kc_previous = None, kc_next = Some (test_key 2)\<rparr>,
         test_key 2 \<mapsto> \<lparr>kc_root = 20, kc_instance = 200, kc_previous = Some (test_key 1), kc_next = None\<rparr>]\<rparr>"

definition sample_items :: "keyed_item list" where
  "sample_items = [(test_key 1, 10, 100), (test_key 2, 20, 200)]"

lemma sample_represents: "represents sample_order sample_items"
  by (auto simp: represents_def sample_order_def sample_items_def)

definition sample_ops :: "keyed_order_operation list" where
  "sample_ops = [OpInsert (test_key 3) 30 300 (Some (test_key 2)), OpMove (test_key 2) (Some (test_key 1)),
                 OpReplace (test_key 3) 31, OpRemove (test_key 1)]"

lemma sample_run: "seq_run sample_ops sample_items = Ok [(test_key 2, 20, 200), (test_key 3, 31, 300)]"
  by (simp add: sample_ops_def sample_items_def seq_insert_def seq_move_def seq_replace_def
      seq_remove_def anchored_def)

theorem keyed_transaction_refines_witness:
  "\<exists>s' edit. apply_atomic 3 40 sample_ops sample_order = (s', Ok edit) \<and>
     represents s' [(test_key 2, 20, 200), (test_key 3, 31, 300)] \<and> ko_revision s' = 40"
proof -
  have "ko_revision sample_order = 3" by (simp add: sample_order_def)
  then show ?thesis
    using keyed_transaction_refines [OF sample_represents, of 40 sample_ops] by (auto simp: sample_run)
qed

definition sample_rejected :: "keyed_order_operation list" where
  "sample_rejected = [OpReplace (test_key 1) 11, OpRemove (test_key 9)]"

lemma sample_rejection:
  "snd (apply_atomic 3 40 sample_rejected sample_order) = Err (Missing (test_key 9))"
  by (simp add: apply_atomic_def check_revision_def sample_rejected_def sample_order_def journal_new_def
      j_replace_def j_remove_def j_child_def j_touch_def Let_def)

theorem keyed_transaction_atomic_witness:
  "apply_atomic 3 40 sample_rejected sample_order = (sample_order, Err (Missing (test_key 9)))"
  using keyed_transaction_atomic [of 3 40 sample_rejected sample_order] sample_rejection
  by (metis prod.collapse)

definition sample_edit :: "keyed_order_operation list" where
  "sample_edit = [OpReplace (test_key 1) 11]"

theorem keyed_transaction_work_witness:
  "\<exists>s' edit. apply_atomic 3 40 sample_edit sample_order = (s', Ok edit) \<and>
     unat (ae_first_touches edit) \<le> 5 \<and> ae_original_reads edit = ae_first_touches edit"
proof -
  have "\<exists>s' edit. apply_atomic 3 40 sample_edit sample_order = (s', Ok edit)"
    by (simp add: apply_atomic_def check_revision_def sample_edit_def sample_order_def journal_new_def
        j_replace_def j_child_def j_touch_def Let_def)
  then show ?thesis
    using keyed_transaction_work [of 3 40 sample_edit sample_order] by (fastforce simp: sample_edit_def)
qed

theorem keyed_iterator_double_ended_witness:
  "\<exists>cs. iter_draw [True, False, True] sample_order (order_iter sample_order) = Ok cs \<and>
     map (map_option item_of) cs =
       [Some (test_key 1, 10, 100), Some (test_key 2, 20, 200), None]"
  using keyed_iterator_double_ended [OF sample_represents, of "[True, False, True]"]
  by (simp add: sample_items_def)

end
