(* ===== verification/GraphTree.thy ===== *)
theory GraphTree
  imports Graph FragmentTree KeyedAtomic
begin

text \<open>
  Well-formed graphs and what the traversals compute on them: the mounted nodes spell one tree
  by their child links, every node's parent location is its place in that tree, and then every
  walk up follows the path to the root and every walk down visits a subtree in preorder.
\<close>

section \<open>Well-formed graphs\<close>

text \<open>The entry of a node agrees with its subtrees: their order, and the place each one records.\<close>

definition linked_children :: "mounted_graph \<Rightarrow> u64 \<Rightarrow> mounted_node \<Rightarrow> u64 list \<Rightarrow> bool" where
  "linked_children g i entry cs \<longleftrightarrow>
     (case mn_keyed entry of
        None \<Rightarrow>
          nd_children (mn_node entry) = cs \<and>
          (\<forall>k < length cs. parent_location g (cs ! k) = Some (OrdinaryIndex i k))
      | Some order \<Rightarrow>
          \<not> is_popover (nd_kind (mn_node entry)) \<and> hidden_pane (nd_kind (mn_node entry)) = None \<and>
          (\<exists>items. represents order items \<and> map (fst \<circ> snd) items = cs \<and>
            (\<forall>k < length cs. parent_location g (cs ! k) =
               Some (KeyedAt i (fst (items ! k)) (snd (snd (items ! k)))))))"

fun held :: "mounted_graph \<Rightarrow> gtree \<Rightarrow> bool" where
  "held g (GNode i ts) \<longleftrightarrow>
     (\<exists>entry. mg_nodes g i = Some entry \<and> nd_id (mn_node entry) = i \<and> linked_children g i entry (map gt_id ts)) \<and>
     (\<forall>t \<in> set ts. held g t)"

definition graph_tree :: "mounted_graph \<Rightarrow> gtree \<Rightarrow> bool" where
  "graph_tree g t \<longleftrightarrow>
     mg_root g = Some (gt_id t) \<and> parent_location g (gt_id t) = None \<and> held g t \<and>
     distinct (gt_preorder t) \<and> dom (mg_nodes g) = set (gt_preorder t)"

definition well_formed :: "mounted_graph \<Rightarrow> bool" where
  "well_formed g \<longleftrightarrow> mg_root g = None \<and> mg_nodes g = Map.empty \<or> (\<exists>t. graph_tree g t)"

lemma keyed_items_represents:
  assumes "represents order items"
  shows "\<exists>entries. keyed_items order = Some entries \<and> map (\<lambda>(key, child). kc_root child) entries = map (fst \<circ> snd) items"
proof -
  from order_entries_represents [OF assms] obtain cs where
    cs: "order_entries order = Ok cs" "map item_of cs = items" by blast
  then have "map (fst \<circ> snd) items = map (\<lambda>(key, child). kc_root child) cs"
    by (auto simp: item_of_def)
  with cs(1) show ?thesis by (simp add: keyed_items_def)
qed

lemma linked_children_of:
  assumes "mg_nodes g i = Some entry" and "linked_children g i entry cs"
  shows "children_of g i = Some cs"
proof (cases "mn_keyed entry")
  case (Some order)
  with assms(2) obtain items where "represents order items" "map (fst \<circ> snd) items = cs"
    by (auto simp: linked_children_def)
  with keyed_items_represents Some assms(1) show ?thesis by (fastforce simp: children_of_def)
qed (use assms in \<open>simp add: linked_children_def children_of_def\<close>)

lemma linked_parent:
  assumes "linked_children g i entry cs" and "c \<in> set cs"
  shows "\<exists>location. parent_location g c = Some location \<and> location_parent location = i"
proof -
  obtain k where k: "k < length cs" "c = cs ! k" using assms(2) by (metis in_set_conv_nth)
  show ?thesis using assms(1) k by (cases "mn_keyed entry") (auto simp: linked_children_def)
qed

lemma held_entry: "held g t \<Longrightarrow> \<exists>entry. mg_nodes g (gt_id t) = Some entry \<and> nd_id (mn_node entry) = gt_id t"
  by (cases t) auto

lemma held_children: "held g (GNode i ts) \<Longrightarrow> children_of g i = Some (map gt_id ts)"
  by (auto intro: linked_children_of)

lemma held_mounted: "held g t \<Longrightarrow> set (gt_preorder t) \<subseteq> dom (mg_nodes g)"
  by (induction t) auto

section \<open>Paths\<close>

text \<open>The paths from the root of a tree to each of its nodes, in preorder.\<close>

fun gt_paths :: "gtree \<Rightarrow> u64 list list" where
  "gt_paths (GNode i ts) = [i] # map ((#) i) (concat (map gt_paths ts))"

lemma gt_paths_nonempty: "p \<in> set (gt_paths t) \<Longrightarrow> p \<noteq> []"
  by (cases t) auto

lemma gt_paths_last: "map last (gt_paths t) = gt_preorder t"
proof (induction t)
  case (GNode i ts)
  have "map (last \<circ> (#) i) (gt_paths s) = gt_preorder s" if "s \<in> set ts" for s
  proof -
    have "map (last \<circ> (#) i) (gt_paths s) = map last (gt_paths s)"
      using gt_paths_nonempty by (auto intro!: map_cong)
    then show ?thesis using GNode that by simp
  qed
  then show ?case by (simp add: map_concat comp_def cong: map_cong)
qed

lemma gt_paths_hd: "p \<in> set (gt_paths t) \<Longrightarrow> hd p = gt_id t"
  by (cases t) auto

lemma gt_paths_in: "p \<in> set (gt_paths t) \<Longrightarrow> set p \<subseteq> set (gt_preorder t)"
  by (induction t arbitrary: p) fastforce

lemma gt_path_last: "p \<in> set (gt_paths t) \<Longrightarrow> last p \<in> set (gt_preorder t)"
  unfolding gt_paths_last [symmetric] by simp

lemma gt_path_exists: "i \<in> set (gt_preorder t) \<Longrightarrow> \<exists>p \<in> set (gt_paths t). last p = i"
  unfolding gt_paths_last [symmetric] by auto

section \<open>Climbing\<close>

text \<open>Climbing from a node passes the given parent locations and ends at a node without one.\<close>

inductive climbs :: "mounted_graph \<Rightarrow> u64 \<Rightarrow> parent_location list \<Rightarrow> bool" for g where
  climbs_end: "parent_location g i = None \<Longrightarrow> climbs g i []"
| climbs_step: "parent_location g i = Some location \<Longrightarrow> climbs g (location_parent location) locations \<Longrightarrow>
    climbs g i (location # locations)"

inductive_cases climbs_NilE: "climbs g i []"
inductive_cases climbs_ConsE: "climbs g i (location # locations)"

lemma climbs_deterministic: "climbs g i as \<Longrightarrow> climbs g i bs \<Longrightarrow> as = bs"
proof (induction arbitrary: bs rule: climbs.induct)
  case (climbs_end i)
  from climbs_end(2) show ?case by (rule climbs.cases) (use climbs_end(1) in simp_all)
next
  case (climbs_step i location locations)
  from climbs_step(4) show ?case
    by (rule climbs.cases) (use climbs_step(1) climbs_step.IH in simp_all)
qed

lemma held_climbs:
  "held g t \<Longrightarrow> climbs g (gt_id t) up \<Longrightarrow> p \<in> set (gt_paths t) \<Longrightarrow>
   \<exists>locations. climbs g (last p) (locations @ up) \<and> last p # map location_parent locations = rev p"
proof (induction t arbitrary: up p)
  case (GNode i ts)
  show ?case
  proof (cases "p = [i]")
    case True
    then show ?thesis using GNode.prems(2) by (intro exI [of _ "[]"]) simp
  next
    case False
    then obtain s q where s: "s \<in> set ts" "q \<in> set (gt_paths s)" "p = i # q" using GNode.prems(3) by auto
    from GNode.prems(1) obtain entry where "linked_children g i entry (map gt_id ts)" by auto
    from linked_parent [OF this, of "gt_id s"] s(1) obtain location where
      l: "parent_location g (gt_id s) = Some location" "location_parent location = i" by auto
    have "climbs g (gt_id s) (location # up)"
      using climbs_step [OF l(1)] GNode.prems(2) l(2) by simp
    moreover have "held g s" using GNode.prems(1) s(1) by simp
    ultimately obtain ls where ls: "climbs g (last q) (ls @ location # up)" "last q # map location_parent ls = rev q"
      using GNode.IH [OF s(1)] s(2) by blast
    have "last p = last q" using s gt_paths_nonempty by auto
    then show ?thesis
      using ls l(2) s(3) by (intro exI [of _ "ls @ [location]"]) simp
  qed
qed

lemma tree_climbs:
  assumes "graph_tree g t" and "p \<in> set (gt_paths t)"
  obtains locations where "climbs g (last p) locations" "last p # map location_parent locations = rev p"
  using held_climbs [of g t "[]" p] assms climbs_end [of g "gt_id t"] by (auto simp: graph_tree_def)

lemma well_formed_climbs: "well_formed g \<Longrightarrow> \<exists>locations. climbs g i locations"
proof -
  assume wf: "well_formed g"
  show ?thesis
  proof (cases "mg_nodes g i")
    case None
    then show ?thesis by (intro exI [of _ "[]"] climbs_end) (simp add: parent_location_def)
  next
    case (Some entry)
    with wf obtain t where t: "graph_tree g t" by (auto simp: well_formed_def)
    then have "i \<in> set (gt_preorder t)" using Some by (auto simp: graph_tree_def)
    from gt_path_exists [OF this] tree_climbs [OF t] show ?thesis by metis
  qed
qed

section \<open>Walks up return\<close>

text \<open>
  A walk up stops at a node, or passes to the parent with a new accumulator, or ends at a node
  with no parent. Its value is the fold of its step over the climb.
\<close>

fun climb_value ::
  "(u64 \<Rightarrow> 'a \<Rightarrow> 'b option) \<Rightarrow> (u64 \<Rightarrow> 'a \<Rightarrow> 'b) \<Rightarrow> (u64 \<Rightarrow> parent_location \<Rightarrow> 'a \<Rightarrow> 'a) \<Rightarrow>
   parent_location list \<Rightarrow> u64 \<Rightarrow> 'a \<Rightarrow> 'b" where
  "climb_value stop finish step [] i acc = (case stop i acc of Some r \<Rightarrow> r | None \<Rightarrow> finish i acc)"
| "climb_value stop finish step (location # locations) i acc =
     (case stop i acc of
        Some r \<Rightarrow> r
      | None \<Rightarrow> climb_value stop finish step locations (location_parent location) (step i location acc))"

locale walk_up =
  fixes g :: mounted_graph and loop :: "u64 \<Rightarrow> 'a \<Rightarrow> 'b option"
    and stop :: "u64 \<Rightarrow> 'a \<Rightarrow> 'b option" and finish :: "u64 \<Rightarrow> 'a \<Rightarrow> 'b"
    and step :: "u64 \<Rightarrow> parent_location \<Rightarrow> 'a \<Rightarrow> 'a"
  assumes loop_step: "loop i acc = (case stop i acc of Some r \<Rightarrow> Some r
     | None \<Rightarrow> (case parent_location g i of None \<Rightarrow> Some (finish i acc)
         | Some location \<Rightarrow> loop (location_parent location) (step i location acc)))"
begin

lemma value_of_climb: "climbs g i locations \<Longrightarrow> loop i acc = Some (climb_value stop finish step locations i acc)"
proof (induction arbitrary: acc rule: climbs.induct)
  case (climbs_end i)
  then show ?case by (subst loop_step) (auto split: option.splits)
next
  case (climbs_step i location locations)
  then show ?case by (subst loop_step) (auto split: option.splits)
qed

lemma returns: "well_formed g \<Longrightarrow> \<exists>r. loop i acc = Some r"
  using well_formed_climbs value_of_climb by blast

end

interpretation descent: walk_up g "\<lambda>i _. is_descendant_of g i ancestor"
  "\<lambda>i _. if i = ancestor then Some True else None" "\<lambda>_ _. False" "\<lambda>_ _ acc. acc" for g ancestor
  by unfold_locales (subst is_descendant_of.simps, simp split: option.splits)

interpretation path: walk_up g "climb_path g" "\<lambda>_ _. None" "\<lambda>_ acc. acc"
  "\<lambda>_ location acc. acc @ [location_parent location]" for g
  by unfold_locales (subst climb_path.simps, simp split: option.splits)

interpretation owner: walk_up g "\<lambda>i _. component_owner g i"
  "\<lambda>i _. case mg_nodes g i of None \<Rightarrow> Some None
     | Some entry \<Rightarrow> map_option Some (boundary_instance (nd_kind (mn_node entry)))"
  "\<lambda>_ _. None" "\<lambda>_ _ acc. acc" for g
  by unfold_locales
    (subst component_owner.simps, simp add: parent_location_def del: boundary_instance_Some split: option.split)

section \<open>Walks down\<close>

text \<open>
  A walk down pops a node, records what it visits there, and pushes its children. On a tree that
  the children spell it visits the tree in preorder.
\<close>

fun spread :: "(u64 \<Rightarrow> u64 list option) \<Rightarrow> gtree \<Rightarrow> bool" where
  "spread kids (GNode i ts) \<longleftrightarrow> kids i = Some (map gt_id ts) \<and> (\<forall>t \<in> set ts. spread kids t)"

locale walk_down =
  fixes walk :: "u64 list \<Rightarrow> 'a list \<Rightarrow> 'b option"
    and kids :: "u64 \<Rightarrow> u64 list option" and visit :: "u64 \<Rightarrow> 'a option"
  assumes walk_step: "visit i = Some x \<Longrightarrow> kids i = Some cs \<Longrightarrow> walk (i # rest) acc = walk (cs @ rest) (acc @ [x])"
begin

lemma walk_forest:
  "\<forall>t \<in> set ts. spread kids t \<Longrightarrow> \<forall>i \<in> set (concat (map gt_preorder ts)). visit i \<noteq> None \<Longrightarrow>
   walk (map gt_id ts @ rest) acc = walk rest (acc @ map (the \<circ> visit) (concat (map gt_preorder ts)))"
proof (induction "length (concat (map gt_preorder ts))" arbitrary: ts acc rest rule: less_induct)
  case less
  show ?case
  proof (cases ts)
    case (Cons t us)
    obtain i subs where t: "t = GNode i subs" by (cases t)
    from less.prems Cons t have kids: "kids i = Some (map gt_id subs)" and visit: "visit i \<noteq> None" by auto
    have "walk (map gt_id ts @ rest) acc = walk (map gt_id (subs @ us) @ rest) (acc @ [the (visit i)])"
      using walk_step [of i "the (visit i)" "map gt_id subs"] kids visit Cons t by simp
    also have "\<dots> = walk rest ((acc @ [the (visit i)]) @ map (the \<circ> visit) (concat (map gt_preorder (subs @ us))))"
      by (rule less.hyps) (use less.prems Cons t in auto)
    finally show ?thesis using Cons t by simp
  qed simp
qed

lemma walk_tree:
  assumes "spread kids t" and "\<forall>i \<in> set (gt_preorder t). visit i \<noteq> None"
  shows "walk (gt_id t # rest) acc = walk rest (acc @ map (the \<circ> visit) (gt_preorder t))"
  using walk_forest [of "[t]" rest acc] assms by simp

end

interpretation all_nodes: walk_down "preorder_walk g" "children_of g" "mounted g" for g
  by unfold_locales (subst preorder_walk.simps, auto simp: mounted_def)

lemma held_spread: "held g t \<Longrightarrow> spread (children_of g) t"
  by (induction t) (auto intro: linked_children_of)

lemma preorder_walk_Nil: "preorder_walk g [] ordered = Some ordered"
  by (subst preorder_walk.simps) simp

lemma mounted_id:
  "held g t \<Longrightarrow> i \<in> set (gt_preorder t) \<Longrightarrow> \<exists>n. mounted g i = Some n \<and> nd_id n = i"
  by (induction t) (auto simp: mounted_def)

lemma nodes_preorder_tree:
  assumes "graph_tree g t"
  shows "\<exists>ns. nodes_preorder g = Some ns \<and> map nd_id ns = gt_preorder t"
proof -
  have held: "held g t" using assms by (simp add: graph_tree_def)
  have visit: "\<forall>i \<in> set (gt_preorder t). mounted g i \<noteq> None" using mounted_id [OF held] by fastforce
  have "nodes_preorder g = Some (map (the \<circ> mounted g) (gt_preorder t))"
    using all_nodes.walk_tree [OF held_spread [OF held] visit, of "[]" "[]"] assms
    by (simp add: nodes_preorder_def root_list_def graph_tree_def preorder_walk_Nil)
  moreover have "map nd_id (map (the \<circ> mounted g) (gt_preorder t)) = gt_preorder t"
    unfolding map_map by (rule map_idI) (use mounted_id [OF held] in fastforce)
  ultimately show ?thesis by blast
qed

section \<open>Document order\<close>

text \<open>An element is at or before another where the first occurs with the second after it.\<close>

definition at_or_before :: "'a list \<Rightarrow> 'a \<Rightarrow> 'a \<Rightarrow> bool" where
  "at_or_before xs a b \<longleftrightarrow> (\<exists>us vs. xs = us @ a # vs \<and> b \<in> set (a # vs))"

lemma at_or_before_Cons:
  "at_or_before (x # xs) a b \<longleftrightarrow> x = a \<and> (b = a \<or> b \<in> set xs) \<or> at_or_before xs a b"
proof
  assume "at_or_before (x # xs) a b"
  then obtain us vs where "x # xs = us @ a # vs" "b \<in> set (a # vs)" by (auto simp: at_or_before_def)
  then show "x = a \<and> (b = a \<or> b \<in> set xs) \<or> at_or_before xs a b"
    by (cases us) (auto simp: at_or_before_def)
next
  assume r: "x = a \<and> (b = a \<or> b \<in> set xs) \<or> at_or_before xs a b"
  show "at_or_before (x # xs) a b"
  proof (cases "at_or_before xs a b")
    case True
    then obtain us vs where "xs = us @ a # vs" "b \<in> set (a # vs)" by (auto simp: at_or_before_def)
    then show ?thesis unfolding at_or_before_def by (intro exI [of _ "x # us"] exI [of _ vs]) simp
  qed (use r in \<open>auto simp: at_or_before_def intro: exI [of _ "[]"]\<close>)
qed

lemma at_or_before_Nil [simp]: "\<not> at_or_before [] a b"
  by (simp add: at_or_before_def)

lemma at_or_before_in: "at_or_before xs a b \<Longrightarrow> a \<in> set xs \<and> b \<in> set xs"
  by (auto simp: at_or_before_def)

lemma at_or_before_append:
  "at_or_before (xs @ ys) a b \<longleftrightarrow>
     at_or_before xs a b \<or> a \<in> set xs \<and> b \<in> set ys \<or> at_or_before ys a b"
  by (induction xs) (auto simp: at_or_before_Cons)

text \<open>What \<open>precedes\<close> computes from the two paths.\<close>

definition path_order :: "mounted_graph \<Rightarrow> u64 list \<Rightarrow> u64 list \<Rightarrow> bool option" where
  "path_order g left right =
     (let shared = shared_prefix left right in
      if length left \<le> shared then Some True
      else if length right \<le> shared then Some False
      else if shared = 0 then None
      else Option.bind (children_of g (left ! (shared - 1)))
        (\<lambda>siblings. Some (find (\<lambda>child. child = left ! shared \<or> child = right ! shared) siblings = Some (left ! shared))))"

lemma path_order_deeper:
  "path_order g (i # j # ps) (i # j # qs) = path_order g (j # ps) (j # qs)"
  by (simp add: path_order_def Let_def)

lemma path_order_parting:
  "j \<noteq> k \<Longrightarrow> path_order g (i # j # ps) (i # k # qs) =
     map_option (\<lambda>siblings. find (\<lambda>child. child = j \<or> child = k) siblings = Some j) (children_of g i)"
  by (cases "children_of g i") (simp_all add: path_order_def)

lemma path_order_shorter:
  "path_order g [i] (i # qs) = Some True" "ps \<noteq> [] \<Longrightarrow> path_order g (i # ps) [i] = Some False"
  by (simp_all add: path_order_def)

lemma find_siblings:
  assumes "j \<in> set xs" and "j \<noteq> k" and "distinct xs"
  shows "find (\<lambda>c. c = j \<or> c = k) xs = Some j \<longleftrightarrow> at_or_before xs j k \<or> k \<notin> set xs"
  using assms by (induction xs) (auto simp: at_or_before_Cons dest: at_or_before_in)

lemma distinct_forest_root:
  "distinct (concat (map gt_preorder ts)) \<Longrightarrow> s \<in> set ts \<Longrightarrow> s' \<in> set ts \<Longrightarrow>
   a \<in> set (gt_preorder s) \<Longrightarrow> a \<in> set (gt_preorder s') \<Longrightarrow> s = s'"
  by (induction ts) auto

lemma gt_ids_below: "gt_id ` set ts \<subseteq> set (concat (map gt_preorder ts))"
  by (induction ts) auto

lemma distinct_gt_ids: "distinct (concat (map gt_preorder ts)) \<Longrightarrow> distinct (map gt_id ts)"
proof (induction ts)
  case (Cons t ts)
  have "set (gt_preorder t) \<inter> set (concat (map gt_preorder ts)) = {}" using Cons.prems by simp
  then have "gt_id t \<notin> set (concat (map gt_preorder ts))" using gt_id_in_preorder [of t] by blast
  then have "gt_id t \<notin> gt_id ` set ts" using gt_ids_below by blast
  with Cons show ?case by simp
qed simp

lemma forest_same:
  assumes "distinct (concat (map gt_preorder ts))" and "s \<in> set ts"
    and "a \<in> set (gt_preorder s)" "b \<in> set (gt_preorder s)"
  shows "at_or_before (concat (map gt_preorder ts)) a b \<longleftrightarrow> at_or_before (gt_preorder s) a b"
  using assms
proof (induction ts)
  case (Cons t ts)
  have apart: "set (gt_preorder t) \<inter> set (concat (map gt_preorder ts)) = {}" using Cons.prems(1) by simp
  show ?case
  proof (cases "s = t")
    case True
    then have "a \<notin> set (concat (map gt_preorder ts))" "b \<notin> set (concat (map gt_preorder ts))"
      using Cons.prems(3,4) apart by blast+
    then show ?thesis using True at_or_before_in [of "concat (map gt_preorder ts)" a b]
      by (auto simp: at_or_before_append)
  next
    case False
    then have s: "s \<in> set ts" using Cons.prems(2) by simp
    then have "a \<in> set (concat (map gt_preorder ts))" "b \<in> set (concat (map gt_preorder ts))"
      using Cons.prems(3,4) by auto
    then have "a \<notin> set (gt_preorder t)" using apart by blast
    then show ?thesis using Cons.IH Cons.prems s at_or_before_in [of "gt_preorder t" a b]
      by (auto simp: at_or_before_append)
  qed
qed simp

text \<open>Among the trees of a forest the order of two nodes is the order of their trees.\<close>

lemma forest_order:
  assumes "distinct (concat (map gt_preorder ts))" and "s \<in> set ts" "s' \<in> set ts" "s \<noteq> s'"
    and "a \<in> set (gt_preorder s)" "b \<in> set (gt_preorder s')"
  shows "at_or_before (concat (map gt_preorder ts)) a b \<longleftrightarrow> at_or_before (map gt_id ts) (gt_id s) (gt_id s')"
  using assms
proof (induction ts)
  case (Cons t ts)
  have apart: "set (gt_preorder t) \<inter> set (concat (map gt_preorder ts)) = {}" using Cons.prems(1) by simp
  consider "s = t" "s' \<in> set ts" | "s' = t" "s \<in> set ts" | "s \<in> set ts" "s' \<in> set ts" "s \<noteq> t" "s' \<noteq> t"
    using Cons.prems by auto
  then show ?case
  proof cases
    case 1
    then have "a \<in> set (gt_preorder t)" "b \<in> set (concat (map gt_preorder ts))" using Cons.prems by auto
    with 1 show ?thesis by (simp add: at_or_before_append at_or_before_Cons)
  next
    case 2
    then have b: "b \<in> set (gt_preorder t)" "a \<in> set (concat (map gt_preorder ts))" using Cons.prems by auto
    have "\<not> at_or_before (gt_preorder t @ concat (map gt_preorder ts)) a b"
      using b apart at_or_before_in [of "concat (map gt_preorder ts)" a b] at_or_before_in [of "gt_preorder t" a b]
      unfolding at_or_before_append by blast
    moreover have "\<not> at_or_before (gt_id t # map gt_id ts) (gt_id s) (gt_id t)"
    proof -
      have "gt_id t \<notin> gt_id ` set ts"
        using apart gt_id_in_preorder [of t] gt_ids_below [of ts] by blast
      then show ?thesis using 2 Cons.prems(4) by (auto simp: at_or_before_Cons dest!: at_or_before_in)
    qed
    ultimately show ?thesis using 2 by simp
  next
    case 3
    have out: "a \<notin> set (gt_preorder t)" "b \<notin> set (gt_preorder t)"
      using 3 Cons.prems(5,6) apart by auto
    have "gt_id s \<noteq> gt_id t"
      using 3(1) apart gt_id_in_preorder [of t] gt_ids_below [of ts] by (metis disjoint_iff image_eqI subsetD)
    then show ?thesis
      using Cons.IH Cons.prems 3 out by (simp add: at_or_before_append at_or_before_Cons) (auto dest: at_or_before_in)
  qed
qed simp

lemma path_order_tree:
  "held g t \<Longrightarrow> distinct (gt_preorder t) \<Longrightarrow> p \<in> set (gt_paths t) \<Longrightarrow> q \<in> set (gt_paths t) \<Longrightarrow>
   path_order g p q = Some (at_or_before (gt_preorder t) (last p) (last q))"
proof (induction t arbitrary: p q)
  case (GNode i ts)
  let ?below = "concat (map gt_preorder ts)"
  have root: "i \<notin> set ?below" using GNode.prems(2) by simp
  have kids: "children_of g i = Some (map gt_id ts)" using GNode.prems(1) by (rule held_children)
  show ?case
  proof (cases "p = [i] \<or> q = [i]")
    case True
    then show ?thesis
    proof
      assume p: "p = [i]"
      obtain q' where q: "q = i # q'" using GNode.prems(4) by auto
      have "last q \<in> insert i (set ?below)" using gt_path_last [OF GNode.prems(4)] by simp
      then show ?thesis using p q path_order_shorter(1) by (auto simp: at_or_before_Cons)
    next
      assume q: "q = [i]"
      show ?thesis
      proof (cases "p = [i]")
        case False
        then obtain p' s where p: "p = i # p'" "s \<in> set ts" "p' \<in> set (gt_paths s)" using GNode.prems(3) by auto
        have ne: "p' \<noteq> []" using p(3) gt_paths_nonempty by blast
        have "last p' \<in> set ?below" using p(2) gt_path_last [OF p(3)] by auto
        then have "\<not> at_or_before (i # ?below) (last p) i"
          using root p(1) ne by (auto simp: at_or_before_Cons dest: at_or_before_in)
        then show ?thesis using path_order_shorter(2) [OF ne] p(1) q by simp
      qed (use q path_order_shorter(1) in \<open>simp add: at_or_before_Cons\<close>)
    qed
  next
    case False
    then obtain p' s where p: "p = i # p'" "s \<in> set ts" "p' \<in> set (gt_paths s)" using GNode.prems(3) by auto
    from False obtain q' s' where q: "q = i # q'" "s' \<in> set ts" "q' \<in> set (gt_paths s')" using GNode.prems(4) by auto
    have heads: "p' = gt_id s # tl p'" "q' = gt_id s' # tl q'"
      using p(3) q(3) gt_paths_nonempty gt_paths_hd by (metis list.collapse)+
    have lasts: "last p = last p'" "last q = last q'" using p(1) q(1) heads by (metis last_ConsR list.distinct(1))+
    have ins: "last p' \<in> set (gt_preorder s)" "last q' \<in> set (gt_preorder s')"
      using gt_path_last p(3) q(3) by blast+
    have below: "at_or_before (gt_preorder (GNode i ts)) (last p) (last q) \<longleftrightarrow> at_or_before ?below (last p') (last q')"
      using root ins p(2) lasts by (auto simp: at_or_before_Cons)
    have forest: "distinct ?below" using GNode.prems(2) by simp
    show ?thesis
    proof (cases "s = s'")
      case True
      have "held g s" "distinct (gt_preorder s)"
        using GNode.prems(1) p(2) forest by (auto simp: distinct_concat_iff)
      then have "path_order g p' q' = Some (at_or_before (gt_preorder s) (last p') (last q'))"
        using GNode.IH [OF p(2)] p(3) q(3) True by blast
      moreover have "path_order g p q = path_order g p' q'"
        using path_order_deeper [of g i "gt_id s" "tl p'" "tl q'"] heads p(1) q(1) True by simp
      ultimately show ?thesis using below forest_same [OF forest p(2)] ins True by simp
    next
      case False
      have "gt_id s \<noteq> gt_id s'"
        using distinct_forest_root [OF forest p(2) q(2)] False gt_id_in_preorder by metis
      then have "path_order g p q = Some (at_or_before (map gt_id ts) (gt_id s) (gt_id s'))"
        using path_order_parting [of "gt_id s" "gt_id s'" g i "tl p'" "tl q'"] heads p(1,2) q(1,2) kids
          find_siblings [OF _ _ distinct_gt_ids [OF forest], of "gt_id s" "gt_id s'"] by simp
      then show ?thesis using below forest_order [OF forest p(2) q(2) False ins] by simp
    qed
  qed
qed

lemma path_from_root_tree:
  assumes "graph_tree g t" and "p \<in> set (gt_paths t)"
  shows "path_from_root g (last p) = Some p"
proof -
  from tree_climbs [OF assms] obtain ls where ls: "climbs g (last p) ls" "last p # map location_parent ls = rev p" .
  have "climb_value (\<lambda>_ _. None) (\<lambda>_ acc. acc) (\<lambda>_ location acc. acc @ [location_parent location]) ls i acc =
      acc @ map location_parent ls" for i acc
    by (induction ls arbitrary: i acc) simp_all
  then have "climb_path g (last p) [last p] = Some (rev p)"
    using path.value_of_climb [OF ls(1)] ls(2) by simp
  then show ?thesis by (simp add: path_from_root_def)
qed

lemma precedes_path_order:
  "path_from_root g a = Some p \<Longrightarrow> path_from_root g b = Some q \<Longrightarrow> precedes g a b = path_order g p q"
  by (simp add: precedes_def path_order_def Let_def)

lemma precedes_tree:
  assumes "graph_tree g t" and "a \<in> set (gt_preorder t)" "b \<in> set (gt_preorder t)"
  shows "precedes g a b = Some (at_or_before (gt_preorder t) a b)"
proof -
  obtain p q where p: "p \<in> set (gt_paths t)" "last p = a" and q: "q \<in> set (gt_paths t)" "last q = b"
    using gt_path_exists assms(2,3) by metis
  have "precedes g a b = path_order g p q"
    using precedes_path_order path_from_root_tree [OF assms(1)] p q by blast
  then show ?thesis using path_order_tree [of g t p q] assms(1) p q by (simp add: graph_tree_def)
qed

section \<open>Descent\<close>

lemma climb_descent:
  "climb_value (\<lambda>i _. if i = ancestor then Some True else None) (\<lambda>_ _. False) (\<lambda>_ _ acc. acc) ls i acc \<longleftrightarrow>
     ancestor \<in> set (i # map location_parent ls)"
  by (induction ls arbitrary: i) auto

lemma is_descendant_climb:
  "climbs g i ls \<Longrightarrow> is_descendant_of g i ancestor = Some (ancestor \<in> set (i # map location_parent ls))"
  using descent.value_of_climb [of g i ls ancestor] unfolding climb_descent .

lemma is_descendant_path:
  assumes "graph_tree g t" and "p \<in> set (gt_paths t)"
  shows "is_descendant_of g (last p) ancestor = Some (ancestor \<in> set p)"
proof -
  from tree_climbs [OF assms] obtain ls where ls: "climbs g (last p) ls" "last p # map location_parent ls = rev p" .
  from descent.value_of_climb [OF ls(1)] show ?thesis
    unfolding climb_descent ls(2) by simp
qed

text \<open>The subtree at a node.\<close>

fun gt_at :: "u64 \<Rightarrow> gtree \<Rightarrow> gtree list" where
  "gt_at a (GNode i ts) = (if i = a then [GNode i ts] else concat (map (gt_at a) ts))"

lemma gt_at_absent: "a \<notin> set (gt_preorder t) \<Longrightarrow> gt_at a t = []"
  by (induction t) auto

lemma gt_at_in: "s \<in> set (gt_at a t) \<Longrightarrow> gt_id s = a \<and> set (gt_preorder s) \<subseteq> set (gt_preorder t)"
  by (induction t) (fastforce split: if_splits)

lemma gt_at_path:
  "distinct (gt_preorder t) \<Longrightarrow> p \<in> set (gt_paths t) \<Longrightarrow>
   a \<in> set p \<longleftrightarrow> (\<exists>s \<in> set (gt_at a t). last p \<in> set (gt_preorder s))"
proof (induction t arbitrary: p)
  case (GNode i ts)
  show ?case
  proof (cases "i = a")
    case True
    have "hd p = i" "p \<noteq> []" using GNode.prems(2) gt_paths_hd gt_paths_nonempty by fastforce+
    then have "a \<in> set p" using True by (metis hd_in_set)
    then show ?thesis using True gt_path_last [OF GNode.prems(2)] by simp
  next
    case False
    show ?thesis
    proof (cases "p = [i]")
      case True
      have "s \<in> set (gt_at a t') \<Longrightarrow> t' \<in> set ts \<Longrightarrow> i \<notin> set (gt_preorder s)" for s t'
        using gt_at_in [of s a t'] GNode.prems(1) by auto
      then show ?thesis using True False by auto
    next
      case False
      then obtain q s where q: "s \<in> set ts" "q \<in> set (gt_paths s)" "p = i # q" using GNode.prems(2) by auto
      have lasts: "last p = last q" using q gt_paths_nonempty by auto
      have forest: "distinct (concat (map gt_preorder ts))" using GNode.prems(1) by simp
      have "distinct (gt_preorder s)" using forest q(1) by (auto simp: distinct_concat_iff)
      then have "a \<in> set q \<longleftrightarrow> (\<exists>u \<in> set (gt_at a s). last q \<in> set (gt_preorder u))"
        using GNode.IH q(1,2) by blast
      moreover have "(\<exists>u \<in> set (gt_at a s). last q \<in> set (gt_preorder u)) \<longleftrightarrow>
          (\<exists>u \<in> set (concat (map (gt_at a) ts)). last q \<in> set (gt_preorder u))"
      proof
        assume "\<exists>u \<in> set (concat (map (gt_at a) ts)). last q \<in> set (gt_preorder u)"
        then obtain s' u where u: "s' \<in> set ts" "u \<in> set (gt_at a s')" "last q \<in> set (gt_preorder u)" by auto
        then have "last q \<in> set (gt_preorder s')" using gt_at_in by blast
        then have "s' = s" using distinct_forest_root [OF forest u(1) q(1)] gt_path_last [OF q(2)] by blast
        with u show "\<exists>u \<in> set (gt_at a s). last q \<in> set (gt_preorder u)" by blast
      qed (use q(1) in auto)
      ultimately show ?thesis using q(3) lasts \<open>i \<noteq> a\<close> by simp
    qed
  qed
qed

section \<open>What is presented\<close>

text \<open>Whether a node's place under its parent is presented.\<close>

definition place_presented :: "mounted_graph \<Rightarrow> parent_location \<Rightarrow> bool" where
  "place_presented g location \<longleftrightarrow>
     (case location of
        OrdinaryIndex p index \<Rightarrow>
          (case mounted_kind g p of
             None \<Rightarrow> True
           | Some kind \<Rightarrow>
               hidden_pane kind \<noteq> Some index \<and>
               \<not> (index \<noteq> 0 \<and> is_popover kind \<and> p \<notin> po_open (mg_popovers g)))
      | KeyedAt p _ _ \<Rightarrow>
          (case mounted_kind g p of
             None \<Rightarrow> True | Some kind \<Rightarrow> \<not> (is_popover kind \<and> p \<notin> po_open (mg_popovers g))))"

fun pruned :: "(u64 \<Rightarrow> bool) \<Rightarrow> gtree \<Rightarrow> gtree" where
  "pruned keep (GNode i ts) = GNode i (map (pruned keep) (filter (\<lambda>t. keep (gt_id t)) ts))"

definition node_presented :: "mounted_graph \<Rightarrow> u64 \<Rightarrow> bool" where
  "node_presented g c \<longleftrightarrow> (case parent_location g c of None \<Rightarrow> True | Some location \<Rightarrow> place_presented g location)"

lemma gt_id_pruned [simp]: "gt_id (pruned keep t) = gt_id t"
  by (cases t) simp

lemma filter_by_index:
  "map snd (filter (\<lambda>(k, x). P k) (enumerate m xs)) = map (\<lambda>k. xs ! (k - m)) (filter P [m..<m + length xs])"
  by (induction xs arbitrary: m) (auto simp: upt_conv_Cons Suc_diff_Suc intro!: map_cong simp del: upt_Suc)

lemma filter_nth:
  assumes "\<And>k. k < length xs \<Longrightarrow> Q (xs ! k) \<longleftrightarrow> P k"
  shows "filter Q xs = map (\<lambda>k. xs ! k) (filter P [0..<length xs])"
proof -
  have "filter Q xs = filter Q (map (\<lambda>k. xs ! k) [0..<length xs])" by (simp add: map_nth)
  also have "\<dots> = map (\<lambda>k. xs ! k) (filter (Q \<circ> (\<lambda>k. xs ! k)) [0..<length xs])" by (rule filter_map)
  also have "filter (Q \<circ> (\<lambda>k. xs ! k)) [0..<length xs] = filter P [0..<length xs]"
    using assms by (intro filter_cong) auto
  finally show ?thesis .
qed

lemma presented_children_filter:
  assumes "mg_nodes g i = Some entry" and "linked_children g i entry cs"
  shows "presented_children g (mn_node entry) i = Some (filter (node_presented g) cs)"
proof -
  have kind: "mounted_kind g i = Some (nd_kind (mn_node entry))"
    using assms(1) by (simp add: mounted_kind_def mounted_def)
  have kids: "children_of g i = Some cs" by (rule linked_children_of [OF assms])
  show ?thesis
  proof (cases "mn_keyed entry")
    case (Some order)
    then have "\<forall>k < length cs. node_presented g (cs ! k)"
      using assms(2) kind by (auto simp: linked_children_def node_presented_def place_presented_def)
    then have "filter (node_presented g) cs = cs" by (auto simp: filter_id_conv in_set_conv_nth)
    then show ?thesis
      using Some assms(2) kids by (auto simp: linked_children_def presented_children_def)
  next
    case None
    then have cs: "nd_children (mn_node entry) = cs"
      and place: "\<And>k. k < length cs \<Longrightarrow> parent_location g (cs ! k) = Some (OrdinaryIndex i k)"
      using assms(2) by (auto simp: linked_children_def)
    let ?kind = "nd_kind (mn_node entry)"
    let ?P = "\<lambda>k. hidden_pane ?kind \<noteq> Some k \<and> \<not> (k \<noteq> 0 \<and> is_popover ?kind \<and> i \<notin> po_open (mg_popovers g))"
    have kept: "filter (node_presented g) cs = map (\<lambda>k. cs ! k) (filter ?P [0..<length cs])"
      by (rule filter_nth) (simp add: node_presented_def place place_presented_def kind)
    have pane: "is_popover ?kind \<Longrightarrow> hidden_pane ?kind = None" by (cases ?kind) simp_all
    consider (closed) "is_popover ?kind" "i \<notin> po_open (mg_popovers g)"
      | (pane) hidden where "hidden_pane ?kind = Some hidden" "\<not> (is_popover ?kind \<and> i \<notin> po_open (mg_popovers g))"
      | (all) "hidden_pane ?kind = None" "\<not> (is_popover ?kind \<and> i \<notin> po_open (mg_popovers g))"
      by (cases "hidden_pane ?kind") auto
    then show ?thesis
    proof cases
      case closed
      then have "filter ?P [0..<length cs] = filter (\<lambda>k. k = 0) [0..<length cs]"
        using pane by simp
      also have "\<dots> = (if cs = [] then [] else [0])"
        by (cases cs) (auto simp: upt_conv_Cons filter_empty_conv simp del: upt_Suc)
      finally have "filter (node_presented g) cs = take 1 cs" using kept by (cases cs) simp_all
      then show ?thesis using closed cs by (simp add: presented_children_def)
    next
      case pane
      then have "filter ?P [0..<length cs] = filter (\<lambda>k. k \<noteq> hidden) [0..<length cs]"
        by (intro filter_cong) auto
      moreover have "except_index hidden cs = map (\<lambda>k. cs ! k) (filter (\<lambda>k. k \<noteq> hidden) [0..<length cs])"
        using filter_by_index [of "\<lambda>k. k \<noteq> hidden" 0 cs] by (simp add: except_index_def)
      ultimately show ?thesis using kept pane cs by (auto simp: presented_children_def)
    next
      case all
      then have "filter ?P [0..<length cs] = [0..<length cs]" by (auto simp: filter_id_conv)
      then show ?thesis using kept all kids by (auto simp: presented_children_def map_nth)
    qed
  qed
qed

lemma pruned_presented_spread:
  "held g t \<Longrightarrow>
   spread (\<lambda>i. Option.bind (mg_nodes g i) (\<lambda>entry. presented_children g (mn_node entry) i)) (pruned (node_presented g) t)"
proof (induction t)
  case (GNode i ts)
  then obtain entry where e: "mg_nodes g i = Some entry" "linked_children g i entry (map gt_id ts)" by auto
  have "map gt_id (map (pruned (node_presented g)) (filter (\<lambda>t. node_presented g (gt_id t)) ts)) =
      filter (node_presented g) (map gt_id ts)"
    by (simp add: filter_map comp_def)
  then show ?case using presented_children_filter [OF e] e(1) GNode by auto
qed

interpretation presented_nodes: walk_down "presented_walk g"
  "\<lambda>i. Option.bind (mg_nodes g i) (\<lambda>entry. presented_children g (mn_node entry) i)" "mounted g" for g
  by unfold_locales (subst presented_walk.simps, auto simp: mounted_def)

lemma pruned_in: "set (gt_preorder (pruned keep t)) \<subseteq> set (gt_preorder t)"
  by (induction t) fastforce

text \<open>A node of the pruned tree is one whose path below the root is kept.\<close>

lemma pruned_preorder:
  "gt_preorder (pruned keep t) = map last (filter (\<lambda>p. \<forall>i \<in> set (tl p). keep i) (gt_paths t))"
proof (induction t)
  case (GNode i ts)
  have "concat (map gt_preorder (map (pruned keep) (filter (\<lambda>t. keep (gt_id t)) us))) =
      map last (filter (\<lambda>p. \<forall>j \<in> set p. keep j) (concat (map gt_paths us)))" if "set us \<subseteq> set ts" for us
    using that
  proof (induction us)
    case (Cons u us)
    have "filter (\<lambda>p. \<forall>j \<in> set p. keep j) (gt_paths u) =
        (if keep (gt_id u) then filter (\<lambda>p. \<forall>j \<in> set (tl p). keep j) (gt_paths u) else [])"
    proof -
      have split: "(\<forall>j \<in> set p. keep j) \<longleftrightarrow> keep (gt_id u) \<and> (\<forall>j \<in> set (tl p). keep j)" if "p \<in> set (gt_paths u)" for p
        using gt_paths_nonempty [OF that] gt_paths_hd [OF that] by (cases p) auto
      show ?thesis by (auto simp: split filter_empty_conv cong: filter_cong)
    qed
    then show ?case using Cons GNode.IH [of u] by simp
  qed simp
  from this [of ts] have "concat (map gt_preorder (map (pruned keep) (filter (\<lambda>t. keep (gt_id t)) ts))) =
      map last (filter (\<lambda>p. \<forall>j \<in> set p. keep j) (concat (map gt_paths ts)))" by simp
  moreover have "map last (map ((#) i) ps) = map last ps" if "\<forall>p \<in> set ps. p \<noteq> []" for ps
    using that by (induction ps) auto
  moreover have "\<forall>p \<in> set (filter (\<lambda>p. \<forall>j \<in> set p. keep j) (concat (map gt_paths ts))). p \<noteq> []"
    using gt_paths_nonempty by auto
  ultimately show ?case by (simp add: filter_map comp_def)
qed

lemma presented_walk_Nil: "presented_walk g [] ordered = Some ordered"
  by (subst presented_walk.simps) simp

lemma presented_preorder_tree:
  assumes "graph_tree g t"
  shows "presented_preorder g = Some (map (the \<circ> mounted g) (gt_preorder (pruned (node_presented g) t)))"
proof -
  have held: "held g t" using assms by (simp add: graph_tree_def)
  have visit: "\<forall>i \<in> set (gt_preorder (pruned (node_presented g) t)). mounted g i \<noteq> None"
    using mounted_id [OF held] pruned_in [of "node_presented g" t] by fastforce
  show ?thesis
    using presented_nodes.walk_tree [OF pruned_presented_spread [OF held] visit, of "[]" "[]"] assms
    by (simp add: presented_preorder_def root_list_def graph_tree_def presented_walk_Nil)
qed

end
