(* ===== verification/Popovers.thy ===== *)
theory Popovers
  imports Interaction GraphTree
begin

text \<open>
  What the pointer, focus and dialog transitions keep: which popovers may be open or waiting,
  what a new dialog leaves, and which popovers a focus move reaches.
\<close>

named_theorems interaction_defs

lemmas [interaction_defs] =
  on_popovers_def count_opened_def count_closed_def open_popover_def close_popover_def
  popover_hover_edge_def popover_elapse_def popover_focus_def dismiss_popovers_def
  report_canvas_size_def

section \<open>Frames\<close>

text \<open>The transitions change neither the nodes nor the dialog.\<close>

definition same_nodes :: "mounted_graph \<Rightarrow> mounted_graph \<Rightarrow> bool" where
  "same_nodes g g' \<longleftrightarrow> mg_nodes g' = mg_nodes g \<and> mg_dialog g' = mg_dialog g \<and> mg_root g' = mg_root g"

lemma same_nodes_refl [simp]: "same_nodes g g"
  by (simp add: same_nodes_def)

lemma same_nodes_trans: "same_nodes g h \<Longrightarrow> same_nodes h k \<Longrightarrow> same_nodes g k"
  by (simp add: same_nodes_def)

lemma same_nodes_lookups:
  assumes "same_nodes g g'"
  shows "mounted g' = mounted g" "mounted_kind g' = mounted_kind g" "parent_location g' = parent_location g"
    "presents g' = presents g" "kind_tracks_hover g' = kind_tracks_hover g" "parent g' = parent g"
  using assms by (auto simp: same_nodes_def mounted_def mounted_kind_def parent_location_def presents_def
    kind_tracks_hover_def parent_def fun_eq_iff)

lemma same_nodes_wf:
  assumes "same_nodes g g'"
  shows "linked_children g' = linked_children g" "held g' = held g" "graph_tree g' t = graph_tree g t"
    "well_formed g' = well_formed g"
proof -
  note same = assms [unfolded same_nodes_def] and places = same_nodes_lookups(3) [OF assms]
  show links: "linked_children g' = linked_children g"
    unfolding linked_children_def [abs_def] places ..
  have "held g' t = held g t" for t by (induction t) (simp add: links same)
  then show holds: "held g' = held g" by blast
  show tree: "graph_tree g' t = graph_tree g t" for t by (simp add: graph_tree_def same holds places)
  show "well_formed g' = well_formed g" by (simp add: well_formed_def same tree)
qed

lemma same_nodes_popover:
  "same_nodes g (snd (open_popover nid g))" "same_nodes g (snd (close_popover nid g))"
  "same_nodes g (popover_hover_edge nid entered g)" "same_nodes g (snd (popover_focus nid inside g))"
  "same_nodes g (snd (popover_elapse nid g))" "same_nodes g (snd (dismiss_popovers g))"
  by (simp_all add: interaction_defs same_nodes_def Let_def)

section \<open>Which popovers may be open\<close>

text \<open>
  An open popover has the pointer on its anchor or the focus inside; one that focus is inside is
  open; a waiting one is under the pointer and not open; and all of them have content.
\<close>

definition interaction_ok :: "mounted_graph \<Rightarrow> bool" where
  "interaction_ok g \<longleftrightarrow>
     po_focus_within (mg_popovers g) \<subseteq> po_open (mg_popovers g) \<and>
     po_open (mg_popovers g) \<subseteq> mg_hovered g \<union> po_focus_within (mg_popovers g) \<and>
     po_pending (mg_popovers g) \<subseteq> mg_hovered g \<and>
     po_open (mg_popovers g) \<inter> po_pending (mg_popovers g) = {} \<and>
     po_open (mg_popovers g) \<union> po_pending (mg_popovers g) \<subseteq> Collect (presents g)"

lemma open_popover_sets:
  "po_open (mg_popovers (snd (open_popover nid g))) = insert nid (po_open (mg_popovers g))"
  "po_pending (mg_popovers (snd (open_popover nid g))) = po_pending (mg_popovers g) - {nid}"
  "po_focus_within (mg_popovers (snd (open_popover nid g))) = po_focus_within (mg_popovers g)"
  "mg_hovered (snd (open_popover nid g)) = mg_hovered g"
  "fst (open_popover nid g) \<longleftrightarrow> nid \<notin> po_open (mg_popovers g)"
  by (simp_all add: interaction_defs Let_def)

lemma close_popover_sets:
  "po_open (mg_popovers (snd (close_popover nid g))) = po_open (mg_popovers g) - {nid}"
  "po_pending (mg_popovers (snd (close_popover nid g))) = po_pending (mg_popovers g) - {nid}"
  "po_focus_within (mg_popovers (snd (close_popover nid g))) = po_focus_within (mg_popovers g)"
  "mg_hovered (snd (close_popover nid g)) = mg_hovered g"
  "fst (close_popover nid g) \<longleftrightarrow> nid \<in> po_open (mg_popovers g)"
  by (simp_all add: interaction_defs Let_def)

lemmas popover_sets = open_popover_sets close_popover_sets

lemma presents_frames [simp]:
  "presents (g\<lparr>mg_hovered := H\<rparr>) = presents g" "presents (on_popovers f g) = presents g"
  "presents (snd (open_popover nid g)) = presents g" "presents (snd (close_popover nid g)) = presents g"
  by (rule same_nodes_lookups; simp add: same_nodes_def interaction_defs Let_def)+

lemma on_popovers_simps [simp]:
  "mg_popovers (on_popovers f g) = f (mg_popovers g)" "mg_hovered (on_popovers f g) = mg_hovered g"
  "mg_nodes (on_popovers f g) = mg_nodes g"
  by (simp_all add: on_popovers_def)

lemma hover_edge_ok:
  assumes "interaction_ok g" and "entered \<longleftrightarrow> nid \<notin> mg_hovered g"
  shows "interaction_ok (popover_hover_edge nid entered
    (g\<lparr>mg_hovered := (if entered then insert nid (mg_hovered g) else mg_hovered g - {nid})\<rparr>))"
proof (cases "presents g nid")
  case True
  then show ?thesis
    using assms by (auto simp: interaction_ok_def popover_hover_edge_def Let_def popover_sets)
next
  case False
  then have "nid \<notin> po_open (mg_popovers g)" "nid \<notin> po_pending (mg_popovers g)"
    using assms(1) by (auto simp: interaction_ok_def)
  then show ?thesis
    using assms False by (auto simp: interaction_ok_def popover_hover_edge_def)
qed

lemma hover_transition_ok:
  assumes "interaction_ok g" and "hover_transition nid entered g = Some (route, g')"
  shows "interaction_ok g'"
proof -
  let ?h = "g\<lparr>mg_hovered := (if entered then insert nid (mg_hovered g) else mg_hovered g - {nid})\<rparr>"
  have "g' = g \<or> (entered \<longleftrightarrow> nid \<notin> mg_hovered g) \<and> g' = popover_hover_edge nid entered ?h \<or>
      \<not> (entered \<longleftrightarrow> nid \<notin> mg_hovered g) \<and> g' = ?h"
    using assms(2) by (auto simp: hover_transition_def Let_def bind_eq_Some_conv split: if_splits)
  moreover have "?h = g" if "\<not> (entered \<longleftrightarrow> nid \<notin> mg_hovered g)"
  proof -
    have "(if entered then insert nid (mg_hovered g) else mg_hovered g - {nid}) = mg_hovered g"
      using that by auto
    then show ?thesis by simp
  qed
  ultimately show ?thesis using assms(1) hover_edge_ok [OF assms(1)] by metis
qed

lemma elapse_ok: "interaction_ok g \<Longrightarrow> interaction_ok (snd (popover_elapse nid g))"
  by (auto simp: interaction_ok_def popover_elapse_def Let_def popover_sets)

lemma focus_ok: "interaction_ok g \<Longrightarrow> interaction_ok (snd (popover_focus nid inside g))"
  by (auto simp: interaction_ok_def popover_focus_def Let_def popover_sets)

lemma leave_popovers_ok: "interaction_ok g \<Longrightarrow> interaction_ok (snd (leave_popovers ids changed g))"
  by (induction ids arbitrary: changed g) (simp_all add: split_beta focus_ok)

lemma enter_popovers_ok: "interaction_ok g \<Longrightarrow> interaction_ok (snd (enter_popovers ids changed g))"
  by (induction ids arbitrary: changed g) (simp_all add: split_beta focus_ok)

lemma focus_moved_split:
  assumes "popover_focus_moved focused g = Some (changed, g')"
  obtains containing left where "containing_walk g focused [] = Some containing"
    and "left = sorted_list_of_set {nid \<in> po_focus_within (mg_popovers g). nid \<notin> set containing}"
    and "enter_popovers containing (fst (leave_popovers left [] g)) (snd (leave_popovers left [] g)) = (changed, g')"
  using assms by (auto simp: popover_focus_moved_def Let_def bind_eq_Some_conv split_beta)

lemma focus_moved_ok:
  assumes "interaction_ok g" and "popover_focus_moved focused g = Some (changed, g')"
  shows "interaction_ok g'"
  using assms(2)
proof (rule focus_moved_split)
  fix containing left
  assume "enter_popovers containing (fst (leave_popovers left [] g)) (snd (leave_popovers left [] g)) = (changed, g')"
  then show ?thesis
    using enter_popovers_ok [OF leave_popovers_ok [OF assms(1)], of containing _ left "[]"] by (metis snd_conv)
qed

lemma dismiss_ok: "interaction_ok g \<Longrightarrow> interaction_ok (snd (dismiss_popovers g))"
  by (auto simp: interaction_ok_def dismiss_popovers_def Let_def)

lemma report_size_ok: "interaction_ok g \<Longrightarrow> interaction_ok (snd (report_canvas_size nid extent g))"
proof -
  have "presents (g\<lparr>mg_canvas_sizes := s\<rparr>) = presents g" for s
    by (rule same_nodes_lookups) (simp add: same_nodes_def)
  then show "interaction_ok g \<Longrightarrow> interaction_ok (snd (report_canvas_size nid extent g))"
    by (simp add: interaction_ok_def report_canvas_size_def)
qed

section \<open>Retiring what a dialog blocks\<close>

lemma retire_each_sets:
  "mg_hovered (retire_each ids g) = mg_hovered g - set ids"
  "po_open (mg_popovers (retire_each ids g)) = po_open (mg_popovers g) - set ids"
  "po_pending (mg_popovers (retire_each ids g)) = po_pending (mg_popovers g) - set ids"
  "po_focus_within (mg_popovers (retire_each ids g)) = po_focus_within (mg_popovers g) - set ids"
  by (induction ids arbitrary: g) (auto simp: popover_sets)

lemma retire_each_nodes: "same_nodes g (retire_each ids g)"
proof (induction ids arbitrary: g)
  case (Cons nid ids)
  let ?h = "on_popovers (\<lambda>p. p\<lparr>po_focus_within := po_focus_within p - {nid}\<rparr>) (g\<lparr>mg_hovered := mg_hovered g - {nid}\<rparr>)"
  have "same_nodes g (snd (close_popover nid ?h))" by (simp add: same_nodes_def interaction_defs Let_def)
  then show ?case using same_nodes_trans Cons by simp
qed simp

text \<open>
  Retiring counts each open popover once, so neither the order of the blocked nodes nor a
  repetition matters.
\<close>

lemma retire_each_closed:
  "pn_closed (po_counters (mg_popovers (retire_each ids g))) =
     pn_closed (po_counters (mg_popovers g)) + of_nat (card (po_open (mg_popovers g) \<inter> set ids))"
proof (induction ids arbitrary: g)
  case (Cons nid ids)
  let ?h = "on_popovers (\<lambda>p. p\<lparr>po_focus_within := po_focus_within p - {nid}\<rparr>) (g\<lparr>mg_hovered := mg_hovered g - {nid}\<rparr>)"
  let ?open = "po_open (mg_popovers g)"
  have closed: "pn_closed (po_counters (mg_popovers (snd (close_popover nid ?h)))) =
      pn_closed (po_counters (mg_popovers g)) + (if nid \<in> ?open then 1 else 0)"
    by (simp add: interaction_defs Let_def)
  have "(if nid \<in> ?open then 1 else 0) + card ((?open - {nid}) \<inter> set ids) = card (?open \<inter> set (nid # ids))"
  proof (cases "nid \<in> ?open")
    case True
    have "?open \<inter> set (nid # ids) = insert nid ((?open - {nid}) \<inter> set ids)" using True by auto
    moreover have "card (insert nid ((?open - {nid}) \<inter> set ids)) = Suc (card ((?open - {nid}) \<inter> set ids))"
      by (rule card_insert_disjoint) simp_all
    ultimately show ?thesis using True by (simp only: if_True plus_1_eq_Suc)
  next
    case False
    then have "?open \<inter> set (nid # ids) = (?open - {nid}) \<inter> set ids" by auto
    then show ?thesis using False by (simp only: if_False add_0)
  qed
  then have "of_nat (if nid \<in> ?open then 1 else 0) + of_nat (card ((?open - {nid}) \<inter> set ids)) =
      (of_nat (card (?open \<inter> set (nid # ids))) :: u64)"
    by (simp only: of_nat_add [symmetric])
  then have count: "(if nid \<in> ?open then 1 else 0) + of_nat (card ((?open - {nid}) \<inter> set ids)) =
      (of_nat (card (?open \<inter> set (nid # ids))) :: u64)"
    by (cases "nid \<in> ?open") (simp_all only: if_True if_False semiring_1_class.of_nat_1 semiring_1_class.of_nat_0)
  have shut: "po_open (mg_popovers (snd (close_popover nid ?h))) = ?open - {nid}" by (simp add: popover_sets)
  have "pn_closed (po_counters (mg_popovers (retire_each ids (snd (close_popover nid ?h))))) =
      pn_closed (po_counters (mg_popovers g)) + ((if nid \<in> ?open then 1 else 0) + of_nat (card ((?open - {nid}) \<inter> set ids)))"
    unfolding Cons closed shut by (simp only: add.assoc)
  then show ?case unfolding count by (simp only: retire_each.simps)
qed simp

lemma retire_order:
  assumes "set xs = set ys"
  shows "retire_each xs g = retire_each ys g"
proof -
  have shape: "\<exists>c. retire_each ids g = g\<lparr>mg_hovered := mg_hovered g - set ids,
      mg_popovers := (mg_popovers g)\<lparr>po_open := po_open (mg_popovers g) - set ids,
        po_pending := po_pending (mg_popovers g) - set ids,
        po_focus_within := po_focus_within (mg_popovers g) - set ids,
        po_counters := (po_counters (mg_popovers g))\<lparr>pn_closed := c\<rparr>\<rparr>\<rparr>" for ids
  proof (induction ids arbitrary: g)
    case Nil
    show ?case by (intro exI [of _ "pn_closed (po_counters (mg_popovers g))"]) simp
  next
    case (Cons nid ids)
    let ?h = "snd (close_popover nid (on_popovers (\<lambda>p. p\<lparr>po_focus_within := po_focus_within p - {nid}\<rparr>)
      (g\<lparr>mg_hovered := mg_hovered g - {nid}\<rparr>)))"
    obtain c where "retire_each ids ?h = ?h\<lparr>mg_hovered := mg_hovered ?h - set ids,
      mg_popovers := (mg_popovers ?h)\<lparr>po_open := po_open (mg_popovers ?h) - set ids,
        po_pending := po_pending (mg_popovers ?h) - set ids,
        po_focus_within := po_focus_within (mg_popovers ?h) - set ids,
        po_counters := (po_counters (mg_popovers ?h))\<lparr>pn_closed := c\<rparr>\<rparr>\<rparr>"
      using Cons by blast
    then show ?case
      by (intro exI [of _ c]) (simp add: interaction_defs Let_def Diff_insert2 [symmetric])
  qed
  obtain c d where
    c: "retire_each xs g = g\<lparr>mg_hovered := mg_hovered g - set xs,
      mg_popovers := (mg_popovers g)\<lparr>po_open := po_open (mg_popovers g) - set xs,
        po_pending := po_pending (mg_popovers g) - set xs,
        po_focus_within := po_focus_within (mg_popovers g) - set xs,
        po_counters := (po_counters (mg_popovers g))\<lparr>pn_closed := c\<rparr>\<rparr>\<rparr>" and
    d: "retire_each ys g = g\<lparr>mg_hovered := mg_hovered g - set ys,
      mg_popovers := (mg_popovers g)\<lparr>po_open := po_open (mg_popovers g) - set ys,
        po_pending := po_pending (mg_popovers g) - set ys,
        po_focus_within := po_focus_within (mg_popovers g) - set ys,
        po_counters := (po_counters (mg_popovers g))\<lparr>pn_closed := d\<rparr>\<rparr>\<rparr>"
    using shape by meson
  have "c = d" using retire_each_closed [of xs g] retire_each_closed [of ys g] assms unfolding c d by simp
  then show ?thesis unfolding c d assms by simp
qed

lemma blocked_behind_filter:
  assumes "\<And>i. i \<in> set ids \<Longrightarrow> \<exists>b. is_descendant_of g i dialog = Some b"
  shows "\<exists>blocked. blocked_behind g dialog ids = Some blocked \<and>
    set blocked = {i \<in> set ids. is_descendant_of g i dialog = Some False}"
  using assms
proof (induction ids)
  case (Cons nid ids)
  then obtain blocked where blocked: "blocked_behind g dialog ids = Some blocked"
    "set blocked = {i \<in> set ids. is_descendant_of g i dialog = Some False}" by (meson list.set_intros(2))
  obtain b where b: "is_descendant_of g nid dialog = Some b" using Cons.prems by (meson list.set_intros(1))
  have "blocked_behind g dialog (nid # ids) = Some (if b then blocked else nid # blocked)"
    using blocked(1) b by simp
  moreover have "set (if b then blocked else nid # blocked) =
      {i \<in> set (nid # ids). is_descendant_of g i dialog = Some False}"
    using blocked(2) b by (cases b) force+
  ultimately show ?case by blast
qed simp

lemma finite_u64 [simp]: "finite (A :: u64 set)"
  by (rule finite_subset [OF subset_UNIV]) simp

lemma retire_behind_returns:
  assumes "well_formed g"
  shows "\<exists>ids. retire_behind_dialog dialog g = Some (retire_each ids g) \<and>
    set ids = {i \<in> interacting g. is_descendant_of g i dialog = Some False}"
proof -
  obtain blocked where "blocked_behind g dialog (sorted_list_of_set (interacting g)) = Some blocked"
    "set blocked = {i \<in> set (sorted_list_of_set (interacting g)). is_descendant_of g i dialog = Some False}"
    using blocked_behind_filter [of "sorted_list_of_set (interacting g)" g dialog] descent.returns [OF assms] by blast
  then show ?thesis by (intro exI [of _ blocked]) (simp add: retire_behind_dialog_def)
qed

lemma retire_behind_ok:
  assumes "interaction_ok g" and "retire_behind_dialog dialog g = Some g'"
  shows "interaction_ok g'"
proof -
  from assms(2) obtain ids where g': "g' = retire_each ids g"
    by (auto simp: retire_behind_dialog_def bind_eq_Some_conv)
  have "presents g' = presents g" unfolding g' by (rule same_nodes_lookups [OF retire_each_nodes])
  then show ?thesis using assms(1) unfolding interaction_ok_def g' retire_each_sets by auto
qed

section \<open>Runs of transitions\<close>

inductive interaction_step :: "mounted_graph \<Rightarrow> mounted_graph \<Rightarrow> bool" where
  step_hover: "hover_transition nid entered g = Some (route, g') \<Longrightarrow> interaction_step g g'"
| step_elapse: "interaction_step g (snd (popover_elapse nid g))"
| step_focus: "interaction_step g (snd (popover_focus nid inside g))"
| step_focus_moved: "popover_focus_moved focused g = Some (changed, g') \<Longrightarrow> interaction_step g g'"
| step_dismiss: "interaction_step g (snd (dismiss_popovers g))"
| step_retire: "retire_behind_dialog dialog g = Some g' \<Longrightarrow> interaction_step g g'"
| step_size: "interaction_step g (snd (report_canvas_size nid extent g))"

lemma interaction_step_ok: "interaction_step g g' \<Longrightarrow> interaction_ok g \<Longrightarrow> interaction_ok g'"
  by (induction rule: interaction_step.induct)
    (blast intro: hover_transition_ok elapse_ok focus_ok focus_moved_ok dismiss_ok retire_behind_ok report_size_ok)+

lemma interaction_run_ok: "interaction_step\<^sup>*\<^sup>* g g' \<Longrightarrow> interaction_ok g \<Longrightarrow> interaction_ok g'"
  by (induction rule: rtranclp_induct) (blast intro: interaction_step_ok)+

section \<open>Where focus is\<close>

lemma containing_climb:
  assumes "climbs g nid locations" and "\<forall>location \<in> set locations. \<exists>p k. location = OrdinaryIndex p k"
  shows "containing_walk g (Some nid) acc = Some (acc @ filter (presents g) (nid # map location_parent locations))"
  using assms
proof (induction arbitrary: acc rule: climbs.induct)
  case (climbs_end i)
  then have "parent g i = None" by (simp add: parent_def)
  then show ?case by (subst containing_walk.simps) (subst containing_walk.simps, simp)
next
  case (climbs_step i location locations)
  then obtain p k where "location = OrdinaryIndex p k" by auto
  then have "parent g i = Some (location_parent location, k)"
    using climbs_step.hyps(1) by (simp add: parent_def)
  then show ?case using climbs_step by (subst containing_walk.simps) simp
qed

lemma focus_sets:
  "po_focus_within (mg_popovers (snd (popover_focus nid inside g))) =
     (if \<not> presents g nid then po_focus_within (mg_popovers g)
      else if inside then insert nid (po_focus_within (mg_popovers g))
      else po_focus_within (mg_popovers g) - {nid})"
  by (simp add: popover_focus_def Let_def popover_sets)

lemma presents_focus [simp]: "presents (snd (popover_focus nid inside g)) = presents g"
  by (rule same_nodes_lookups [OF same_nodes_popover(4)])

lemma leave_sets:
  "po_focus_within (mg_popovers (snd (leave_popovers ids changed g))) =
     po_focus_within (mg_popovers g) - {i \<in> set ids. presents g i}"
  "presents (snd (leave_popovers ids changed g)) = presents g"
  by (induction ids arbitrary: changed g) (auto simp: split_beta focus_sets)

lemma enter_sets:
  "po_focus_within (mg_popovers (snd (enter_popovers ids changed g))) =
     po_focus_within (mg_popovers g) \<union> {i \<in> set ids. presents g i}"
  if "po_focus_within (mg_popovers g) \<subseteq> Collect (presents g)"
  using that by (induction ids arbitrary: changed g) (auto simp: split_beta focus_sets)

lemma focus_moved_sets:
  assumes "interaction_ok g" and "popover_focus_moved focused g = Some (changed, g')"
    and "containing_walk g focused [] = Some containing" and "\<forall>i \<in> set containing. presents g i"
  shows "po_focus_within (mg_popovers g') = set containing"
  using assms(2)
proof (rule focus_moved_split)
  fix containing' left
  let ?leave = "leave_popovers left [] g"
  assume walk: "containing_walk g focused [] = Some containing'"
    and left: "left = sorted_list_of_set {nid \<in> po_focus_within (mg_popovers g). nid \<notin> set containing'}"
    and e: "enter_popovers containing' (fst ?leave) (snd ?leave) = (changed, g')"
  have same: "containing' = containing" using walk assms(3) by simp
  have inside: "po_focus_within (mg_popovers g) \<subseteq> Collect (presents g)"
    using assms(1) by (auto simp: interaction_ok_def)
  then have "po_focus_within (mg_popovers (snd ?leave)) = po_focus_within (mg_popovers g) \<inter> set containing"
    unfolding leave_sets left same by auto
  moreover from this have "po_focus_within (mg_popovers g') =
      po_focus_within (mg_popovers (snd ?leave)) \<union> {i \<in> set containing. presents g i}"
    using enter_sets [of "snd ?leave" containing "fst ?leave"] inside e same leave_sets(2) by auto
  ultimately show ?thesis using assms(4) by auto
qed

section \<open>Properties\<close>

text \<open>
  Claim C23: however the pointer, the focus, the clock, Escape and dialogs interleave, an open
  popover has the pointer on its anchor or the focus within it, a waiting one is under the pointer
  and not open, and once the pointer and the focus are nowhere every popover is closed.
\<close>

theorem popover_policy:
  assumes "interaction_ok g" and "interaction_step\<^sup>*\<^sup>* g g'"
  shows "po_open (mg_popovers g') \<subseteq> mg_hovered g' \<union> po_focus_within (mg_popovers g') \<and>
    po_pending (mg_popovers g') \<subseteq> mg_hovered g' - po_open (mg_popovers g') \<and>
    po_focus_within (mg_popovers g') \<subseteq> po_open (mg_popovers g') \<and>
    (mg_hovered g' = {} \<and> po_focus_within (mg_popovers g') = {} \<longrightarrow>
       po_open (mg_popovers g') = {} \<and> po_pending (mg_popovers g') = {})"
  using interaction_run_ok [OF assms(2,1)] by (auto simp: interaction_ok_def)

text \<open>A popover over an anchor and a surface; the surface is a button, or a keyed column of one item.\<close>

definition sample_entry :: "u64 \<Rightarrow> node_kind \<Rightarrow> u64 list \<Rightarrow> parent_location option \<Rightarrow> mounted_node" where
  "sample_entry nid kind children location =
     \<lparr>mn_node = \<lparr>nd_id = nid, nd_kind = kind, nd_children = children\<rparr>, mn_parent = location, mn_size = 1,
      mn_segment = segment_of kind 0 0, mn_keyed = None\<rparr>"

definition sample_popover :: node_kind where
  "sample_popover = Popover ''help'' PlaceBelow 0 False False [] 0 style_default"

definition sample_button :: node_kind where
  "sample_button = Button ''go'' ''go'' RoleButton True False False style_default"

definition button_surface :: mounted_graph where
  "button_surface = graph_default\<lparr>mg_root := Some 1, mg_nodes := Map.empty(
     1 \<mapsto> sample_entry 1 sample_popover [2, 3] None,
     2 \<mapsto> sample_entry 2 (Text ''anchor'') [] (Some (OrdinaryIndex 1 0)),
     3 \<mapsto> sample_entry 3 sample_button [] (Some (OrdinaryIndex 1 1)))\<rparr>"

definition sample_key :: keyed_child_key where
  "sample_key = test_key 0"

definition keyed_surface :: mounted_graph where
  "keyed_surface = graph_default\<lparr>mg_root := Some 1, mg_nodes := Map.empty(
     1 \<mapsto> sample_entry 1 sample_popover [2, 3] None,
     2 \<mapsto> sample_entry 2 (Text ''anchor'') [] (Some (OrdinaryIndex 1 0)),
     3 \<mapsto> (sample_entry 3 (KeyedColumn [] style_default 1 [sample_key]) [4] (Some (OrdinaryIndex 1 1)))
           \<lparr>mn_keyed := Some \<lparr>ko_revision = 1, ko_head = Some sample_key, ko_tail = Some sample_key,
              ko_children = [sample_key \<mapsto> \<lparr>kc_root = 4, kc_instance = 9, kc_previous = None, kc_next = None\<rparr>]\<rparr>\<rparr>,
     4 \<mapsto> sample_entry 4 (Boundary 9) [5] (Some (KeyedAt 3 sample_key 9)),
     5 \<mapsto> sample_entry 5 sample_button [] (Some (OrdinaryIndex 4 0)))\<rparr>"

lemma sample_ok: "interaction_ok button_surface" "interaction_ok keyed_surface"
  by (simp_all add: interaction_ok_def button_surface_def keyed_surface_def graph_default_def popover_default_def)

lemma button_surface_presents: "presents button_surface 1"
  by (simp add: presents_def mounted_def button_surface_def sample_entry_def sample_popover_def)

lemma popover_policy_witness:
  "po_open (mg_popovers (snd (popover_focus 1 True button_surface))) = {1} \<and>
   po_focus_within (mg_popovers (snd (popover_focus 1 True button_surface))) = {1}"
proof -
  have step: "interaction_step\<^sup>*\<^sup>* button_surface (snd (popover_focus 1 True button_surface))"
    by (rule r_into_rtranclp) (rule step_focus)
  have "po_focus_within (mg_popovers (snd (popover_focus 1 True button_surface))) = {1}"
    "1 \<in> po_open (mg_popovers (snd (popover_focus 1 True button_surface)))"
    "mg_hovered (snd (popover_focus 1 True button_surface)) = {}"
    using button_surface_presents by (simp_all add: popover_focus_def popover_sets)
      (simp_all add: button_surface_def graph_default_def popover_default_def)
  then show ?thesis using popover_policy [OF sample_ok(1) step] by blast
qed

text \<open>
  When a dialog becomes active, retiring what is behind it returns, and leaves exactly
  the hover, open, waiting and focus state of the nodes inside the dialog.
\<close>

theorem retire_behind_dialog_exact:
  assumes "well_formed g"
  shows "\<exists>g'. retire_behind_dialog dialog g = Some g' \<and>
    (let inside = {i. is_descendant_of g i dialog = Some True} in
     mg_hovered g' = mg_hovered g \<inter> inside \<and>
     po_open (mg_popovers g') = po_open (mg_popovers g) \<inter> inside \<and>
     po_pending (mg_popovers g') = po_pending (mg_popovers g) \<inter> inside \<and>
     po_focus_within (mg_popovers g') = po_focus_within (mg_popovers g) \<inter> inside) \<and>
    mg_nodes g' = mg_nodes g"
proof -
  from retire_behind_returns [OF assms] obtain ids where
    g': "retire_behind_dialog dialog g = Some (retire_each ids g)" and
    ids: "set ids = {i \<in> interacting g. is_descendant_of g i dialog = Some False}" by blast
  have kept: "A - set ids = A \<inter> {i. is_descendant_of g i dialog = Some True}" if A: "A \<subseteq> interacting g" for A
  proof -
    have "is_descendant_of g i dialog = Some True \<longleftrightarrow> i \<notin> set ids" if "i \<in> A" for i
    proof -
      obtain b where "is_descendant_of g i dialog = Some b" using descent.returns [OF assms] by blast
      then show ?thesis using ids that A by auto
    qed
    then show ?thesis by blast
  qed
  have parts: "mg_hovered g \<subseteq> interacting g" "po_open (mg_popovers g) \<subseteq> interacting g"
    "po_pending (mg_popovers g) \<subseteq> interacting g" "po_focus_within (mg_popovers g) \<subseteq> interacting g"
    by (auto simp: interacting_def)
  show ?thesis
    using retire_each_nodes [of g ids] parts [THEN kept]
    by (intro exI [of _ "retire_each ids g"]) (simp add: g' Let_def retire_each_sets same_nodes_def)
qed

definition hovered_surface :: mounted_graph where
  "hovered_surface = button_surface\<lparr>mg_hovered := {2, 3}\<rparr>"

lemma hovered_surface_tree: "graph_tree hovered_surface (GNode 1 [GNode 2 [], GNode 3 []])"
  by (auto simp: graph_tree_def hovered_surface_def button_surface_def linked_children_def sample_entry_def
    parent_location_def less_Suc_eq split: if_splits)

lemma hovered_surface_descent:
  "is_descendant_of hovered_surface 2 3 = Some False" "is_descendant_of hovered_surface 3 3 = Some True"
proof -
  have up: "parent_location hovered_surface 2 = Some (OrdinaryIndex 1 0)" "parent_location hovered_surface 1 = None"
    by (simp_all add: parent_location_def hovered_surface_def button_surface_def sample_entry_def)
  show "is_descendant_of hovered_surface 2 3 = Some False"
    by (subst is_descendant_of.simps, simp add: up) (subst is_descendant_of.simps, simp add: up)
  show "is_descendant_of hovered_surface 3 3 = Some True" by (subst is_descendant_of.simps) simp
qed

lemma retire_behind_dialog_exact_witness:
  "\<exists>g'. retire_behind_dialog 3 hovered_surface = Some g' \<and> mg_hovered g' = {3}"
proof -
  have "well_formed hovered_surface" using hovered_surface_tree by (auto simp: well_formed_def)
  from retire_behind_dialog_exact [OF this, of 3] obtain g' where
    "retire_behind_dialog 3 hovered_surface = Some g'"
    "mg_hovered g' = mg_hovered hovered_surface \<inter> {i. is_descendant_of hovered_surface i 3 = Some True}"
    by (auto simp: Let_def)
  moreover have "mg_hovered hovered_surface = {2, 3}" by (simp add: hovered_surface_def)
  ultimately show ?thesis using hovered_surface_descent by auto
qed

text \<open>
  After focus moves to a node whose ancestors are all ordinary children, the popovers
  that hold focus are exactly those among the node and its ancestors that present content, and
  each of them is open.
\<close>

theorem popover_focus_follows:
  assumes "interaction_ok g" and "popover_focus_moved (Some nid) g = Some (changed, g')"
    and "climbs g nid locations" and "\<forall>location \<in> set locations. \<exists>p k. location = OrdinaryIndex p k"
  shows "po_focus_within (mg_popovers g') = {i \<in> set (nid # map location_parent locations). presents g i} \<and>
    po_focus_within (mg_popovers g') \<subseteq> po_open (mg_popovers g')"
proof -
  have walk: "containing_walk g (Some nid) [] = Some (filter (presents g) (nid # map location_parent locations))"
    using containing_climb [OF assms(3,4), of "[]"] by (simp only: append_Nil)
  have "po_focus_within (mg_popovers g') = set (filter (presents g) (nid # map location_parent locations))"
    by (rule focus_moved_sets [OF assms(1,2) walk]) (simp only: set_filter mem_Collect_eq Ball_def, blast)
  then have "po_focus_within (mg_popovers g') = {i \<in> set (nid # map location_parent locations). presents g i}"
    by (simp only: set_filter)
  then show ?thesis using focus_moved_ok [OF assms(1,2)] by (simp add: interaction_ok_def)
qed

lemma button_surface_parents:
  "parent_location button_surface 3 = Some (OrdinaryIndex 1 1)" "parent_location button_surface 1 = None"
  by (simp_all add: parent_location_def button_surface_def sample_entry_def)

lemma popover_focus_follows_witness:
  "\<exists>changed g'. popover_focus_moved (Some 3) button_surface = Some (changed, g') \<and> 1 \<in> po_open (mg_popovers g')"
proof -
  have climb: "climbs button_surface 3 [OrdinaryIndex 1 1]"
    by (rule climbs_step) (simp_all add: button_surface_parents climbs_end)
  have ordinary: "\<forall>location \<in> set [OrdinaryIndex 1 1]. \<exists>p k. location = OrdinaryIndex p k" by simp
  have "containing_walk button_surface (Some 3) [] = Some (filter (presents button_surface) [3, 1])"
    using containing_climb [OF climb, of "[]"] by simp
  then obtain changed g' where moved: "popover_focus_moved (Some 3) button_surface = Some (changed, g')"
    by (fastforce simp: popover_focus_moved_def Let_def)
  have "po_focus_within (mg_popovers g') = {i \<in> set [3, 1]. presents button_surface i} \<and>
    po_focus_within (mg_popovers g') \<subseteq> po_open (mg_popovers g')"
    by (rule popover_focus_follows [OF sample_ok(1) moved climb ordinary, unfolded list.map location_parent.simps])
  then have "1 \<in> po_open (mg_popovers g')" using button_surface_presents by (blast intro: list.set_intros)
  then show ?thesis using moved by blast
qed


end
