(* ===== verification/Routing.thy ===== *)
theory Routing
  imports Shortcuts Popovers "HOL-Library.Multiset"
begin

text \<open>
  What the routing of keystrokes and focus requests guarantees: the two ways of asking what can
  be perceived agree, a shortcut is found by one policy whatever order the hash set yields its
  regions in, and neither a shortcut nor a focus request reaches behind a modal dialog.
\<close>

section \<open>Perceivable nodes\<close>

lemma is_presented_step:
  "is_presented g nid =
     (case parent_location g nid of
        None \<Rightarrow> Some True
      | Some location \<Rightarrow>
          (if place_presented g location then is_presented g (location_parent location) else Some False))"
proof (cases "parent_location g nid")
  case (Some location)
  then show ?thesis
    by (cases location; cases "mounted_kind g (location_parent location)")
      (subst is_presented.simps, simp add: place_presented_def)+
qed (subst is_presented.simps, simp)

interpretation presented: walk_up g "\<lambda>i _. is_presented g i"
  "\<lambda>i _. case parent_location g i of None \<Rightarrow> None
     | Some location \<Rightarrow> if place_presented g location then None else Some False"
  "\<lambda>_ _. True" "\<lambda>_ _ acc. acc" for g
  by unfold_locales (subst is_presented_step, simp split: option.split)

lemma is_presented_climb:
  "climbs g i locations \<Longrightarrow> is_presented g i = Some (\<forall>location \<in> set locations. place_presented g location)"
proof (induction rule: climbs.induct)
  case (climbs_end i)
  then show ?case by (subst is_presented_step) simp
next
  case (climbs_step i location locations)
  then show ?case by (subst is_presented_step) simp
qed

lemma climb_presented:
  "climbs g i locations \<Longrightarrow>
     (\<forall>location \<in> set locations. place_presented g location) \<longleftrightarrow>
     (\<forall>j \<in> set (i # map location_parent locations). node_presented g j)"
  by (induction rule: climbs.induct) (auto simp: node_presented_def)

lemma is_presented_path:
  assumes "graph_tree g t" and "p \<in> set (gt_paths t)"
  shows "is_presented g (last p) = Some (\<forall>i \<in> set (tl p). node_presented g i)"
proof -
  from tree_climbs [OF assms] obtain ls where ls: "climbs g (last p) ls" "last p # map location_parent ls = rev p" .
  have "is_presented g (last p) = Some (\<forall>i \<in> set p. node_presented g i)"
    unfolding is_presented_climb [OF ls(1)] climb_presented [OF ls(1)] ls(2) set_rev ..
  moreover have "(\<forall>i \<in> set p. node_presented g i) \<longleftrightarrow> (\<forall>i \<in> set (tl p). node_presented g i)"
  proof -
    have "node_presented g (gt_id t)" using assms(1) by (simp add: graph_tree_def node_presented_def)
    then show ?thesis using gt_paths_nonempty [OF assms(2)] gt_paths_hd [OF assms(2)] by (cases p) auto
  qed
  ultimately show ?thesis by simp
qed

lemma presented_filter:
  assumes "graph_tree g t"
  shows "gt_preorder (pruned (node_presented g) t) = filter (\<lambda>i. is_presented g i = Some True) (gt_preorder t)"
proof -
  have "filter (\<lambda>p. \<forall>i \<in> set (tl p). node_presented g i) (gt_paths t) =
      filter ((\<lambda>i. is_presented g i = Some True) \<circ> last) (gt_paths t)"
    using is_presented_path [OF assms] by (intro filter_cong) auto
  then show ?thesis
    unfolding pruned_preorder by (simp add: filter_map flip: gt_paths_last)
qed

lemma nodes_preorder_value:
  assumes "graph_tree g t"
  shows "nodes_preorder g = Some (map (the \<circ> mounted g) (gt_preorder t))"
proof -
  from nodes_preorder_tree [OF assms] obtain ns where ns: "nodes_preorder g = Some ns" "map nd_id ns = gt_preorder t" by blast
  have held: "held g t" using assms by (simp add: graph_tree_def)
  have visit: "\<forall>i \<in> set (gt_preorder t). mounted g i \<noteq> None" using mounted_id [OF held] by fastforce
  show ?thesis
    using all_nodes.walk_tree [OF held_spread [OF held] visit, of "[]" "[]"] assms
    by (simp add: nodes_preorder_def root_list_def graph_tree_def preorder_walk_Nil)
qed

section \<open>The latest candidate\<close>

lemma at_or_before_total:
  "a \<in> set xs \<Longrightarrow> b \<in> set xs \<Longrightarrow> at_or_before xs a b \<or> at_or_before xs b a"
  by (induction xs) (auto simp: at_or_before_Cons)

lemma at_or_before_trans:
  "distinct xs \<Longrightarrow> at_or_before xs a b \<Longrightarrow> at_or_before xs b c \<Longrightarrow> at_or_before xs a c"
  by (induction xs) (auto simp: at_or_before_Cons dest: at_or_before_in)

lemma at_or_before_antisym:
  "distinct xs \<Longrightarrow> at_or_before xs a b \<Longrightarrow> at_or_before xs b a \<Longrightarrow> a = b"
  by (induction xs) (auto simp: at_or_before_Cons dest: at_or_before_in)

lemma at_or_before_refl: "a \<in> set xs \<Longrightarrow> at_or_before xs a a"
  by (induction xs) (auto simp: at_or_before_Cons)

lemma latest_spec:
  assumes t: "graph_tree g t"
  shows "\<forall>x \<in> set (kept # rest). key x \<in> set (gt_preorder t) \<Longrightarrow>
    \<exists>m \<in> set (kept # rest). latest g key kept rest = Some m \<and>
      (\<forall>x \<in> set (kept # rest). at_or_before (gt_preorder t) (key x) (key m))"
proof (induction rest arbitrary: kept)
  case Nil
  then show ?case using at_or_before_refl by simp
next
  case (Cons c rest)
  have d: "distinct (gt_preorder t)" using t by (simp add: graph_tree_def)
  let ?next = "if at_or_before (gt_preorder t) (key kept) (key c) then c else kept"
  have p: "precedes g (key kept) (key c) = Some (at_or_before (gt_preorder t) (key kept) (key c))"
    by (rule precedes_tree [OF t]) (use Cons.prems in simp_all)
  obtain m where m: "m \<in> set (?next # rest)" "latest g key ?next rest = Some m"
    "\<forall>x \<in> set (?next # rest). at_or_before (gt_preorder t) (key x) (key m)"
    using Cons.IH [of ?next] Cons.prems by (auto split: if_splits)
  have "at_or_before (gt_preorder t) (key kept) (key ?next)" "at_or_before (gt_preorder t) (key c) (key ?next)"
    using at_or_before_total [of "key kept" "gt_preorder t" "key c"] at_or_before_refl Cons.prems by auto
  moreover have "at_or_before (gt_preorder t) (key ?next) (key m)" using m(3) by (blast intro: list.set_intros)
  ultimately have "at_or_before (gt_preorder t) (key kept) (key m)" "at_or_before (gt_preorder t) (key c) (key m)"
    using at_or_before_trans [OF d] by blast+
  then have "\<forall>x \<in> set (kept # c # rest). at_or_before (gt_preorder t) (key x) (key m)"
    using m(3) by (simp only: list.set ball_simps) blast
  moreover have "m \<in> set (kept # c # rest)" using m(1) by (auto split: if_splits)
  moreover have "latest g key kept (c # rest) = Some m" using m(2) p by simp
  ultimately show ?case by blast
qed

lemma latest_of_spec:
  assumes "graph_tree g t" and "\<forall>x \<in> set xs. key x \<in> set (gt_preorder t)"
  shows "if xs = [] then latest_of g key xs = Some None
    else \<exists>m \<in> set xs. latest_of g key xs = Some (Some m) \<and>
      (\<forall>x \<in> set xs. at_or_before (gt_preorder t) (key x) (key m))"
proof (cases xs)
  case (Cons c rest)
  then obtain m where "m \<in> set xs" "latest g key c rest = Some m"
    "\<forall>x \<in> set xs. at_or_before (gt_preorder t) (key x) (key m)"
    using latest_spec [OF assms(1), of c rest key] assms(2) by blast
  moreover have "xs \<noteq> []" using Cons by simp
  ultimately show ?thesis unfolding Cons latest_of_def by (simp only: if_False list.case option.map) blast
qed (simp add: latest_of_def)

lemma latest_of_order:
  assumes t: "graph_tree g t" and xs: "\<forall>x \<in> set xs. key x \<in> set (gt_preorder t)" and "set xs = set ys"
    and inj: "inj_on key (set xs)"
  shows "latest_of g key xs = latest_of g key ys"
proof (cases "xs = []")
  case False
  then have ys: "ys \<noteq> []" using assms(3) by auto
  have d: "distinct (gt_preorder t)" using t by (simp add: graph_tree_def)
  obtain m where m: "m \<in> set xs" "latest_of g key xs = Some (Some m)"
    "\<forall>x \<in> set xs. at_or_before (gt_preorder t) (key x) (key m)"
    using latest_of_spec [OF t xs] False by auto
  obtain n where n: "n \<in> set ys" "latest_of g key ys = Some (Some n)"
    "\<forall>x \<in> set ys. at_or_before (gt_preorder t) (key x) (key n)"
    using latest_of_spec [OF t, of ys key] xs ys assms(3) by auto
  have "key m = key n" using at_or_before_antisym [OF d] m n assms(3) by blast
  then show ?thesis using m n assms(3) inj by (metis inj_onD)
qed (use assms(3) in simp)

section \<open>Window shortcuts\<close>

lemma scan_window_count:
  "scan_window_shortcuts matches index ss compared =
     (fst (scan_window_shortcuts matches index ss 0), compared + snd (scan_window_shortcuts matches index ss 0))"
proof (induction ss arbitrary: index compared)
  case (Cons s ss)
  show ?case using Cons [of "Suc index" "compared + 1"] Cons [of "Suc index" 1] Cons [of "Suc index" compared]
    by (simp add: add.assoc)
qed simp

definition window_hit :: "mounted_graph \<Rightarrow> (string \<Rightarrow> bool) \<Rightarrow> u64 \<Rightarrow> (nat \<times> string) option \<times> u64" where
  "window_hit g matches region =
     scan_window_shortcuts matches 0 (case mounted_kind g region of None \<Rightarrow> [] | Some kind \<Rightarrow> popover_shortcuts kind) 0"

definition window_eligible :: "mounted_graph \<Rightarrow> u64 list \<Rightarrow> u64 \<Rightarrow> bool" where
  "window_eligible g enclosing region \<longleftrightarrow> region \<notin> set enclosing \<and> region_live g region = Some True"

definition window_found :: "mounted_graph \<Rightarrow> (string \<Rightarrow> bool) \<Rightarrow> u64 list \<Rightarrow> u64 list \<Rightarrow> (u64 \<times> nat \<times> string) list" where
  "window_found g matches enclosing order =
     map (\<lambda>region. (region, the (fst (window_hit g matches region))))
       (filter (\<lambda>region. window_eligible g enclosing region \<and> fst (window_hit g matches region) \<noteq> None) order)"

definition window_compared :: "mounted_graph \<Rightarrow> (string \<Rightarrow> bool) \<Rightarrow> u64 list \<Rightarrow> u64 list \<Rightarrow> u64" where
  "window_compared g matches enclosing order =
     sum_list (map (\<lambda>region. snd (window_hit g matches region)) (filter (window_eligible g enclosing) order))"

lemma window_candidates_value:
  assumes "\<And>region. region \<in> set order \<Longrightarrow> \<exists>live. region_live g region = Some live"
  shows "window_candidates g enclosing matches order compared =
    Some (window_found g matches enclosing order, compared + window_compared g matches enclosing order)"
  using assms
proof (induction order arbitrary: compared)
  case Nil
  then show ?case by (simp add: window_found_def window_compared_def)
next
  case (Cons region rest)
  have IH: "window_candidates g enclosing matches rest c =
      Some (window_found g matches enclosing rest, c + window_compared g matches enclosing rest)" for c
    using Cons by (meson list.set_intros(2))
  obtain live where live: "region_live g region = Some live" using Cons.prems by (meson list.set_intros(1))
  show ?case
  proof (cases "window_eligible g enclosing region")
    case True
    then have skip: "(if region \<in> set enclosing then Some True else map_option Not (region_live g region)) = Some False"
      by (simp add: window_eligible_def)
    let ?declared = "case mounted_kind g region of None \<Rightarrow> [] | Some kind \<Rightarrow> popover_shortcuts kind"
    have scan: "scan_window_shortcuts matches 0 ?declared compared =
        (fst (window_hit g matches region), compared + snd (window_hit g matches region))"
      unfolding window_hit_def by (rule scan_window_count)
    show ?thesis
      using True by (cases "fst (window_hit g matches region)")
        (simp_all add: skip scan IH window_found_def window_compared_def add.assoc)
  next
    case False
    then have skip: "(if region \<in> set enclosing then Some True else map_option Not (region_live g region)) = Some True"
      using live by (auto simp: window_eligible_def)
    show ?thesis using False by (simp add: skip IH window_found_def window_compared_def)
  qed
qed

lemma region_live_returns:
  assumes "well_formed g"
  shows "\<exists>live. region_live g region = Some live"
proof -
  obtain b where b: "is_presented g region = Some b" using presented.returns [OF assms] by blast
  show ?thesis
  proof (cases "mg_dialog g")
    case (Some dialog)
    obtain inside where "is_descendant_of g region dialog = Some inside" using descent.returns [OF assms] by blast
    then have "region_live g region = (if inside then is_presented g region else Some False)"
      using Some by (simp add: region_live_def)
    then show ?thesis using b by (cases inside) auto
  qed (simp add: region_live_def b)
qed

lemma window_order:
  assumes "set xs = set ys" and "distinct xs" "distinct ys"
  shows "window_compared g matches enclosing xs = window_compared g matches enclosing ys"
    and "set (window_found g matches enclosing xs) = set (window_found g matches enclosing ys)"
proof -
  have "mset xs = mset ys" using assms set_eq_iff_mset_eq_distinct by blast
  then have "mset (map (\<lambda>region. snd (window_hit g matches region)) (filter (window_eligible g enclosing) xs)) =
      mset (map (\<lambda>region. snd (window_hit g matches region)) (filter (window_eligible g enclosing) ys))"
    by simp
  then show "window_compared g matches enclosing xs = window_compared g matches enclosing ys"
    unfolding window_compared_def by (metis sum_mset_sum_list)
  show "set (window_found g matches enclosing xs) = set (window_found g matches enclosing ys)"
    using assms(1) by (simp add: window_found_def)
qed

lemma window_found_in: "x \<in> set (window_found g matches enclosing order) \<Longrightarrow>
   fst x \<in> set order \<and> window_eligible g enclosing (fst x) \<and> fst (window_hit g matches (fst x)) = Some (snd x)"
  by (auto simp: window_found_def)

lemma window_found_inj: "inj_on fst (set (window_found g matches enclosing order))"
  by (auto simp: window_found_def inj_on_def)

text \<open>A registered region is mounted.\<close>

definition regions_mounted :: "mounted_graph \<Rightarrow> bool" where
  "regions_mounted g \<longleftrightarrow> kb_window_regions (mg_keyboard g) \<union> kb_regions (mg_keyboard g) \<subseteq> dom (mg_nodes g)"

lemma resolve_with_order:
  assumes "well_formed g" and "regions_mounted g"
    and "set xs = kb_window_regions (mg_keyboard g)" "set ys = kb_window_regions (mg_keyboard g)"
    and "distinct xs" "distinct ys"
  shows "resolve_shortcut xs focused types_character matches g = resolve_shortcut ys focused types_character matches g"
proof -
  let ?h = "on_keyboard_counters (\<lambda>c. c\<lparr>kn_offered := kn_offered c + 1\<rparr>) g"
  have nodes: "mg_nodes ?h = mg_nodes g" "mg_root ?h = mg_root g" "mg_dialog ?h = mg_dialog g"
    by (simp_all add: on_keyboard_counters_def on_keyboard_def)
  have eq: "set xs = set ys" using assms(3,4) by simp
  have same: "same_nodes g ?h" using nodes by (simp add: same_nodes_def)
  have wf: "well_formed ?h" using assms(1) same_nodes_wf(4) [OF same] by simp
  have step: "Option.bind (window_candidates ?h enclosing matches xs compared)
       (\<lambda>(candidates, compared). Option.bind (latest_of ?h fst candidates) (\<lambda>found. Some (found, compared))) =
     Option.bind (window_candidates ?h enclosing matches ys compared)
       (\<lambda>(candidates, compared). Option.bind (latest_of ?h fst candidates) (\<lambda>found. Some (found, compared)))"
    for enclosing compared
  proof -
    have counted: "window_candidates ?h enclosing matches order compared =
        Some (window_found ?h matches enclosing order, compared + window_compared ?h matches enclosing order)" for order
      by (rule window_candidates_value) (rule region_live_returns [OF wf])
    have "latest_of ?h fst (window_found ?h matches enclosing xs) = latest_of ?h fst (window_found ?h matches enclosing ys)"
    proof (cases "mg_nodes g = Map.empty")
      case True
      then have "xs = []" "ys = []" using assms(2-4) by (auto simp: regions_mounted_def)
      then show ?thesis by simp
    next
      case False
      then obtain t where t: "graph_tree ?h t" using wf by (auto simp: well_formed_def nodes)
      have inside: "\<forall>x \<in> set (window_found ?h matches enclosing xs). fst x \<in> set (gt_preorder t)"
      proof
        fix x assume "x \<in> set (window_found ?h matches enclosing xs)"
        then have "fst x \<in> set xs" using window_found_in by blast
        then have "fst x \<in> dom (mg_nodes ?h)" using assms(2,3) by (auto simp: regions_mounted_def nodes)
        then show "fst x \<in> set (gt_preorder t)" using t by (simp add: graph_tree_def)
      qed
      show ?thesis
        by (rule latest_of_order [OF t inside window_order(2) [OF eq assms(5,6)] window_found_inj])
    qed
    then show ?thesis
      using window_order(1) [OF eq assms(5,6), of ?h matches enclosing] by (simp add: counted)
  qed
  show ?thesis unfolding resolve_shortcut_def Let_def step ..
qed

section \<open>What a match means\<close>







section \<open>Counting leaves routing alone\<close>

lemma climbs_frame:
  assumes "same_nodes g g'" and "climbs g i locations"
  shows "climbs g' i locations"
  using assms(2) by (induction rule: climbs.induct)
    (auto intro: climbs.intros simp: same_nodes_lookups(3) [OF assms(1)])

lemma descent_frame:
  assumes "same_nodes g g'" and "well_formed g"
  shows "is_descendant_of g' i a = is_descendant_of g i a"
proof -
  obtain ls where "climbs g i ls" using well_formed_climbs [OF assms(2)] by blast
  then show ?thesis
    using is_descendant_climb [of g i ls a] is_descendant_climb [OF climbs_frame [OF assms(1)], of i ls a] by simp
qed

lemma presented_frame:
  assumes "same_nodes g g'" and "mg_popovers g' = mg_popovers g" and "well_formed g"
  shows "is_presented g' i = is_presented g i"
proof -
  have "place_presented g' = place_presented g"
    unfolding place_presented_def [abs_def] same_nodes_lookups(2) [OF assms(1)] assms(2) ..
  moreover obtain ls where "climbs g i ls" using well_formed_climbs [OF assms(3)] by blast
  ultimately show ?thesis
    using is_presented_climb [of g i ls] is_presented_climb [OF climbs_frame [OF assms(1)], of i ls] by simp
qed


lemma region_liveD:
  "region_live g i = Some True \<Longrightarrow>
     is_presented g i = Some True \<and> (\<forall>dialog. mg_dialog g = Some dialog \<longrightarrow> is_descendant_of g i dialog = Some True)"
  by (auto simp: region_live_def bind_eq_Some_conv split: option.splits if_splits)

lemma same_nodes_keyboard [simp]:
  "same_nodes g (on_keyboard f g)" "same_nodes g (on_keyboard_counters c g)"
  "mg_popovers (on_keyboard f g) = mg_popovers g" "mg_popovers (on_keyboard_counters c g) = mg_popovers g"
  by (simp_all add: same_nodes_def on_keyboard_def on_keyboard_counters_def)


section \<open>Focus requests\<close>

definition focusable :: "mounted_graph \<Rightarrow> u64 \<Rightarrow> bool" where
  "focusable g i \<longleftrightarrow> (case mounted_kind g i of None \<Rightarrow> False | Some kind \<Rightarrow> focus_identity kind \<noteq> None)"

abbreviation shown_kids :: "mounted_graph \<Rightarrow> u64 \<Rightarrow> u64 list option" where
  "shown_kids g i \<equiv> Option.bind (mg_nodes g i) (\<lambda>entry. presented_children g (mn_node entry) i)"

lemma focus_walk_forest:
  "\<forall>t \<in> set ts. spread (shown_kids g) t \<Longrightarrow>
   focus_walk g (map gt_id ts @ rest) =
     (case find (focusable g) (concat (map gt_preorder ts)) of Some i \<Rightarrow> Some (Some i) | None \<Rightarrow> focus_walk g rest)"
proof (induction "length (concat (map gt_preorder ts))" arbitrary: ts rest rule: less_induct)
  case less
  show ?case
  proof (cases ts)
    case (Cons t us)
    obtain i subs where t: "t = GNode i subs" by (cases t)
    from less.prems Cons t obtain entry where entry: "mg_nodes g i = Some entry"
      and kids: "presented_children g (mn_node entry) i = Some (map gt_id subs)" by (auto simp: bind_eq_Some_conv)
    have focus: "focusable g i \<longleftrightarrow> focus_identity (nd_kind (mn_node entry)) \<noteq> None"
      by (simp add: focusable_def mounted_kind_def mounted_def entry)
    show ?thesis
    proof (cases "focusable g i")
      case True
      then show ?thesis using Cons t entry focus by (subst focus_walk.simps) simp
    next
      case False
      then have "focus_walk g (map gt_id ts @ rest) = focus_walk g (map gt_id (subs @ us) @ rest)"
        using Cons t entry focus kids by (subst focus_walk.simps) simp
      also have "\<dots> = (case find (focusable g) (concat (map gt_preorder (subs @ us))) of
          Some i \<Rightarrow> Some (Some i) | None \<Rightarrow> focus_walk g rest)"
        by (rule less.hyps) (use less.prems Cons t in auto)
      finally show ?thesis using Cons t False by simp
    qed
  qed simp
qed

lemma focus_walk_tree:
  assumes "held g s"
  shows "focus_walk g [gt_id s] = Some (find (focusable g) (gt_preorder (pruned (node_presented g) s)))"
proof -
  have "focus_walk g [] = Some None" by (subst focus_walk.simps) simp
  then show ?thesis
    using focus_walk_forest [of "[pruned (node_presented g) s]" g "[]"] pruned_presented_spread [OF assms]
    by (simp split: option.split)
qed

lemma gt_at_exists: "a \<in> set (gt_preorder t) \<Longrightarrow> \<exists>s. s \<in> set (gt_at a t)"
  by (induction t) (fastforce split: if_splits)

lemma held_at: "held g t \<Longrightarrow> s \<in> set (gt_at a t) \<Longrightarrow> held g s"
  by (induction t) (auto split: if_splits)

lemma gt_at_paths:
  "s \<in> set (gt_at a t) \<Longrightarrow> q \<in> set (gt_paths s) \<Longrightarrow> \<exists>p. p @ q \<in> set (gt_paths t) \<and> p @ [a] \<in> set (gt_paths t)"
proof (induction t)
  case (GNode i ts)
  show ?case
  proof (cases "i = a")
    case True
    then show ?thesis using GNode.prems by (intro exI [of _ "[]"]) simp
  next
    case False
    then obtain u where u: "u \<in> set ts" "s \<in> set (gt_at a u)" using GNode.prems(1) by auto
    from GNode.IH [OF u GNode.prems(2)] obtain p where
      "p @ q \<in> set (gt_paths u)" "p @ [a] \<in> set (gt_paths u)" by blast
    then show ?thesis using u(1) by (intro exI [of _ "i # p"]) auto
  qed
qed

lemma pruned_at:
  assumes t: "graph_tree g t" and s: "s \<in> set (gt_at a t)" and a: "is_presented g a = Some True"
    and c: "c \<in> set (gt_preorder (pruned (node_presented g) s))"
  shows "is_presented g c = Some True" and "\<And>d. is_descendant_of g a d = Some True \<Longrightarrow> is_descendant_of g c d = Some True"
    and "is_descendant_of g c a = Some True"
proof -
  obtain q where q: "q \<in> set (gt_paths s)" "last q = c" "\<forall>i \<in> set (tl q). node_presented g i"
    using c by (auto simp: pruned_preorder)
  from gt_at_paths [OF s q(1)] obtain p where p: "p @ q \<in> set (gt_paths t)" "p @ [a] \<in> set (gt_paths t)" by blast
  have qa: "q = a # tl q" using gt_paths_hd [OF q(1)] gt_paths_nonempty [OF q(1)] gt_at_in [OF s] by (cases q) auto
  have lasts: "last (p @ q) = c" "last (p @ [a]) = a" using q(2) qa by (metis last_append list.discI, simp)
  have "\<forall>i \<in> set (tl (p @ [a])). node_presented g i"
    using is_presented_path [OF t p(2)] a lasts(2) by simp
  moreover have "set (tl (p @ q)) \<subseteq> set (tl (p @ [a])) \<union> set (tl q)"
    using qa by (cases p) (auto, metis list.sel(3) set_ConsD)
  ultimately show "is_presented g c = Some True"
    using is_presented_path [OF t p(1)] q(3) lasts(1) by auto
  have sub: "set (p @ [a]) \<subseteq> set (p @ q)" using qa by (metis Un_mono list.set_intros(1) set_append empty_subsetI insert_subset list.simps(15) list.set(1) order_refl)
  show "is_descendant_of g c d = Some True" if "is_descendant_of g a d = Some True" for d
    using is_descendant_path [OF t p(2)] is_descendant_path [OF t p(1)] that lasts sub by auto
  show "is_descendant_of g c a = Some True"
    using is_descendant_path [OF t p(1)] lasts sub by auto
qed

lemma live_requests_in:
  "live_requests g requests = Some live \<Longrightarrow> r \<in> set live \<Longrightarrow> r \<in> set requests \<and> mg_nodes g r \<noteq> None \<and> region_live g r = Some True"
  by (induction requests arbitrary: live) (auto simp: bind_eq_Some_conv split: if_splits)

lemma live_requests_returns:
  assumes "well_formed g"
  shows "\<exists>live. live_requests g requests = Some live"
proof (induction requests)
  case (Cons r rest)
  then obtain others where "live_requests g rest = Some others" by blast
  moreover obtain live where "(if mg_nodes g r = None then Some False else region_live g r) = Some live"
    using region_live_returns [OF assms] by (cases "mg_nodes g r = None") auto
  ultimately show ?case by simp
qed simp

lemma take_focus_request_spec:
  assumes wf: "well_formed g"
  shows "\<exists>found g'. take_focus_request g = Some (found, g') \<and> kb_requests (mg_keyboard g') = [] \<and>
    (\<forall>c. found = Some c \<longrightarrow> focusable g c \<and> is_presented g c = Some True \<and>
       (\<exists>region \<in> set (kb_requests (mg_keyboard g)). is_descendant_of g c region = Some True) \<and>
       (\<forall>dialog. mg_dialog g = Some dialog \<longrightarrow> is_descendant_of g c dialog = Some True))"
proof -
  let ?requests = "kb_requests (mg_keyboard g)"
  let ?h = "on_keyboard (\<lambda>k. k\<lparr>kb_requests := []\<rparr>) g"
  let ?counted = "on_keyboard_counters (\<lambda>c. c\<lparr>kn_focused := kn_focused c + 1\<rparr>) ?h"
  have same: "same_nodes g ?h" "mg_popovers ?h = mg_popovers g" by simp_all
  have wfh: "well_formed ?h" using same_nodes_wf(4) [OF same(1)] wf by simp
  have empty: "kb_requests (mg_keyboard ?h) = []" "kb_requests (mg_keyboard ?counted) = []"
    by (simp_all add: on_keyboard_def on_keyboard_counters_def)
  obtain live where live: "live_requests ?h ?requests = Some live" using live_requests_returns [OF wfh] by blast
  note inside = live_requests_in [OF live]
  have take: "take_focus_request g = Option.bind (latest_of ?h id live) (\<lambda>latest_region.
      case latest_region of None \<Rightarrow> Some (None, ?h)
      | Some region \<Rightarrow> Option.bind (focus_walk ?h [region]) (\<lambda>found. Some (found, if found = None then ?h else ?counted)))"
    by (simp add: take_focus_request_def live Let_def)
  show ?thesis
  proof (cases "live = []")
    case True
    then show ?thesis using empty by (simp add: take latest_of_def)
  next
    case False
    obtain r rest where "live = r # rest" using False by (cases live) auto
    then have r: "r \<in> set live" by simp
    have "mg_nodes ?h \<noteq> Map.empty" using inside [OF r] by metis
    then obtain t where t: "graph_tree ?h t" using wfh by (auto simp: well_formed_def)
    have ids: "\<forall>r \<in> set live. id r \<in> set (gt_preorder t)"
      using inside t by (auto simp: graph_tree_def domIff)
    from latest_of_spec [OF t ids] False obtain region where
      region: "region \<in> set live" "latest_of ?h id live = Some (Some region)" by auto
    obtain s where s: "s \<in> set (gt_at region t)" using gt_at_exists ids region(1) by fastforce
    have "gt_id s = region" using gt_at_in [OF s] by simp
    moreover have "held ?h s" using held_at [OF _ s] t by (simp add: graph_tree_def)
    ultimately have walk: "focus_walk ?h [region] = Some (find (focusable ?h) (gt_preorder (pruned (node_presented ?h) s)))"
      using focus_walk_tree by blast
    let ?found = "find (focusable ?h) (gt_preorder (pruned (node_presented ?h) s))"
    have result: "take_focus_request g = Some (?found, if ?found = None then ?h else ?counted)"
      by (simp add: take region(2) walk)
    have good: "focusable g c \<and> is_presented g c = Some True \<and>
       (\<exists>region \<in> set ?requests. is_descendant_of g c region = Some True) \<and>
       (\<forall>dialog. mg_dialog g = Some dialog \<longrightarrow> is_descendant_of g c dialog = Some True)" if "?found = Some c" for c
    proof -
      have c: "c \<in> set (gt_preorder (pruned (node_presented ?h) s))" "focusable ?h c"
        using that by (auto simp: find_Some_iff)
      have r: "region \<in> set ?requests" "region_live ?h region = Some True" using inside [OF region(1)] by simp_all
      note live = region_liveD [OF r(2)]
      note at = pruned_at [OF t s _ c(1)]
      have "mounted_kind ?h = mounted_kind g" by (rule same_nodes_lookups(2) [OF same(1)])
      then have "focusable g c" using c(2) by (simp add: focusable_def)
      moreover have "is_presented g c = Some True"
        using at(1) live presented_frame [OF same wf] by simp
      moreover have "is_descendant_of g c region = Some True" using at(3) live descent_frame [OF same(1) wf] by simp
      moreover have "is_descendant_of g c dialog = Some True" if "mg_dialog g = Some dialog" for dialog
        using at(2) live that descent_frame [OF same(1) wf] same(1) by (simp add: same_nodes_def)
      ultimately show ?thesis using r(1) by blast
    qed
    show ?thesis using result empty good by auto
  qed
qed

section \<open>Properties\<close>

text \<open>
  Claim C25: \<open>precedes\<close> is document order: of two mounted nodes it says whether the first is at or
  before the second in the preorder of the graph, and it always returns.
\<close>

theorem precedes_document_order:
  assumes "well_formed g" and "mounted g a \<noteq> None" and "mounted g b \<noteq> None"
  shows "\<exists>ns. nodes_preorder g = Some ns \<and> precedes g a b = Some (at_or_before (map nd_id ns) a b)"
proof -
  from assms(1,2) obtain t where t: "graph_tree g t" by (auto simp: well_formed_def mounted_def)
  then have "a \<in> set (gt_preorder t)" "b \<in> set (gt_preorder t)"
    using assms(2,3) by (auto simp: graph_tree_def mounted_def)
  then show ?thesis using nodes_preorder_tree [OF t] precedes_tree [OF t] by force
qed

lemma hovered_surface_wf: "well_formed hovered_surface"
  using hovered_surface_tree by (auto simp: well_formed_def)

lemma hovered_surface_mounted: "mounted hovered_surface 2 \<noteq> None" "mounted hovered_surface 3 \<noteq> None"
  by (simp_all add: mounted_def hovered_surface_def button_surface_def)

lemma precedes_document_order_witness:
  "\<exists>ns. nodes_preorder hovered_surface = Some ns \<and> precedes hovered_surface 3 2 = Some (at_or_before (map nd_id ns) 3 2)"
  by (rule precedes_document_order [OF hovered_surface_wf hovered_surface_mounted(2,1)])

text \<open>
  Claim C26: the two ways of asking what a person can perceive agree: walking down past closed
  popovers and hidden panes yields, in order, exactly the nodes that the walk up calls presented.
\<close>

theorem presented_preorder_agrees:
  assumes "well_formed g"
  shows "\<exists>ns. nodes_preorder g = Some ns \<and>
    presented_preorder g = Some (filter (\<lambda>n. is_presented g (nd_id n) = Some True) ns)"
proof (cases "mg_root g")
  case None
  then show ?thesis
    by (simp add: nodes_preorder_def presented_preorder_def root_list_def preorder_walk_Nil presented_walk_Nil)
next
  case (Some root)
  then obtain t where t: "graph_tree g t" using assms by (auto simp: well_formed_def graph_tree_def)
  have held: "held g t" using t by (simp add: graph_tree_def)
  have "filter (\<lambda>n. is_presented g (nd_id n) = Some True) (map (the \<circ> mounted g) (gt_preorder t)) =
      map (the \<circ> mounted g) (filter (\<lambda>i. is_presented g i = Some True) (gt_preorder t))"
    unfolding filter_map by (intro arg_cong [of _ _ "map _"] filter_cong refl) (use mounted_id [OF held] in fastforce)
  then show ?thesis
    using nodes_preorder_value [OF t] presented_preorder_tree [OF t] presented_filter [OF t] by simp
qed

lemma presented_preorder_agrees_witness:
  "\<exists>ns. nodes_preorder hovered_surface = Some ns \<and>
    presented_preorder hovered_surface = Some (filter (\<lambda>n. is_presented hovered_surface (nd_id n) = Some True) ns)"
  by (rule presented_preorder_agrees [OF hovered_surface_wf])

text \<open>
  The shortcut a keystroke reaches, and what the counters count, do not depend on the
  order in which the hash set of window regions is iterated.
\<close>

theorem resolve_shortcut_order:
  assumes "well_formed g" and "regions_mounted g"
    and "set xs = kb_window_regions (mg_keyboard g)" "set ys = kb_window_regions (mg_keyboard g)"
    and "distinct xs" "distinct ys"
  shows "resolve_shortcut xs focused types_character matches g = resolve_shortcut ys focused types_character matches g"
  using resolve_with_order [OF assms] .

text \<open>Two sibling regions that declare the same window shortcut.\<close>

definition region_kind :: node_kind where
  "region_kind = Popover [] PlaceBelow 0 False False [\<lparr>sc_keys = ''ctrl-s'', sc_scope = ScopeWindow\<rparr>] 1 style_default"

definition two_regions :: mounted_graph where
  "two_regions = graph_default\<lparr>mg_root := Some 1,
     mg_nodes := Map.empty(
       1 \<mapsto> sample_entry 1 (Row [] style_default) [2, 3] None,
       2 \<mapsto> sample_entry 2 region_kind [4] (Some (OrdinaryIndex 1 0)),
       3 \<mapsto> sample_entry 3 region_kind [5] (Some (OrdinaryIndex 1 1)),
       4 \<mapsto> sample_entry 4 sample_button [] (Some (OrdinaryIndex 2 0)),
       5 \<mapsto> sample_entry 5 sample_button [] (Some (OrdinaryIndex 3 0))),
     mg_keyboard := keyboard_default\<lparr>kb_regions := {2, 3}, kb_window_regions := {2, 3}, kb_requests := [2, 3]\<rparr>\<rparr>"

lemma two_regions_tree: "graph_tree two_regions (GNode 1 [GNode 2 [GNode 4 []], GNode 3 [GNode 5 []]])"
  by (auto simp: graph_tree_def two_regions_def linked_children_def sample_entry_def parent_location_def
    less_Suc_eq split: if_splits)

lemma two_regions_wf: "well_formed two_regions" "regions_mounted two_regions"
  using two_regions_tree by (auto simp: well_formed_def regions_mounted_def two_regions_def)

lemma resolve_shortcut_order_witness:
  "resolve_shortcut [2, 3] None False (\<lambda>keys. keys = ''ctrl-s'') two_regions =
   resolve_shortcut [3, 2] None False (\<lambda>keys. keys = ''ctrl-s'') two_regions"
  by (rule resolve_shortcut_order [OF two_regions_wf]) (simp_all add: two_regions_def insert_commute)





text \<open>
  Claim C28: taking the focus requests always returns and leaves none; the control focus moves to
  can take focus, can be perceived, lies inside a region that asked, and lies inside the modal
  dialog when there is one.
\<close>

theorem focus_request_lands_live:
  assumes "well_formed g"
  shows "\<exists>found g'. take_focus_request g = Some (found, g') \<and> kb_requests (mg_keyboard g') = [] \<and>
    (\<forall>c. found = Some c \<longrightarrow> focusable g c \<and> is_presented g c = Some True \<and>
       (\<exists>region \<in> set (kb_requests (mg_keyboard g)). is_descendant_of g c region = Some True) \<and>
       (\<forall>dialog. mg_dialog g = Some dialog \<longrightarrow> is_descendant_of g c dialog = Some True))"
  using take_focus_request_spec [OF assms] .

lemma focus_request_lands_live_witness:
  "\<exists>found g'. take_focus_request two_regions = Some (found, g') \<and> kb_requests (mg_keyboard g') = []"
  using focus_request_lands_live [OF two_regions_wf(1)] by blast

end
