(* ===== verification/GraphApply.thy ===== *)
theory GraphApply
  imports Interaction Staging
begin

text \<open>
  Applying a patch to the mounted graph (\<open>MountedGraph::apply\<close>, \<open>apply_inner\<close>,
  \<open>apply_keyed_inner\<close> and \<open>insert_nodes\<close> in \<open>bridge.rs\<close>). Every check is made before the graph
  changes, except that a keyed transaction edits the order of its container under a journal and
  rolls it back. An application returns its outcome with the graph it leaves; \<open>Panic\<close> is a failed
  \<open>expect\<close> or a loop that does not end. A panicking or diverging helper returns \<open>None\<close>. The
  nanosecond timings of the facts are not modelled.
\<close>

section \<open>Errors and results\<close>

datatype apply_error =
    MountedTwice
  | TargetMissing u64
  | TargetDetached
  | RetainedTwice u64
  | RetainedNotMounted u64
  | RetainedNotBoundary u64
  | RetainsTarget
  | RetainedOutside
  | FragmentRefused fragment_error
  | NodeIdReused
  | SecondDialog
  | InputLabelTaken string
  | InstanceMounted u64
  | InstanceRetired u64
  | RetainedMoved u64
  | InstanceMoved u64
  | ContainerMissing u64
  | ContainerNotKeyed
  | OrderRejected keyed_order_error
  | ItemNotBoundary
  | SetChangesInstance
  | KeyedIdReused
  | KeyedInstanceTwice u64

datatype keyed_native_edit =
    NativeInsert keyed_child_key "keyed_child_key option" u64
  | NativeRemove keyed_child_key u64
  | NativeMove keyed_child_key "keyed_child_key option"
  | NativeSet keyed_child_key u64 u64

record apply_facts =
  af_kind :: string
  af_staged :: u64
  af_removed :: u64
  af_live :: u64
  af_scanned :: u64
  af_retained_nodes :: u64
  af_validation_visits :: u64
  af_keyed_graph_visits :: u64
  af_keyed_original_reads :: u64
  af_keyed_first_touches :: u64

record graph_apply =
  ga_facts :: apply_facts
  ga_root :: "u64 option"
  ga_staged_ids :: "u64 list"
  ga_removed_ids :: "u64 list"
  ga_retired_root :: bool
  ga_parent :: "(u64 \<times> nat) option"
  ga_retained_roots :: "u64 list"
  ga_removed_instances :: "u64 list"
  ga_staged_instances :: "u64 list"
  ga_keyed_edits :: "keyed_native_edit list"

text \<open>\<open>Result::map_err\<close>.\<close>

fun map_err :: "('e \<Rightarrow> 'f) \<Rightarrow> ('e, 'a) outcome \<Rightarrow> ('f, 'a) outcome" where
  "map_err f (Ok a) = Ok a"
| "map_err f (Err e) = Err (f e)"
| "map_err f Panic = Panic"

definition live_count :: "mounted_graph \<Rightarrow> u64" where
  "live_count g = of_nat (card (dom (mg_nodes g)))"

definition staged_instances_of :: "node list \<Rightarrow> u64 list" where
  "staged_instances_of nodes = List.map_filter (\<lambda>n. boundary_instance (nd_kind n)) nodes"

section \<open>The retired region\<close>

text \<open>The frontier of retained roots, the nodes below it, and the visits.\<close>

fun check_retained ::
  "mounted_graph \<Rightarrow> u64 option \<Rightarrow> u64 list \<Rightarrow> u64 set \<times> u64 \<times> u64 \<Rightarrow>
   (apply_error, u64 set \<times> u64 \<times> u64) outcome" where
  "check_retained g old_root [] found = Ok found"
| "check_retained g old_root (nid # rest) (frontier, retained_nodes, visits) =
     (if nid \<in> frontier then Err (RetainedTwice nid)
      else case mg_nodes g nid of
        None \<Rightarrow> Err (RetainedNotMounted nid)
      | Some entry \<Rightarrow>
          (if boundary_instance (nd_kind (mn_node entry)) = None then Err (RetainedNotBoundary nid)
           else if Some nid = old_root then Err RetainsTarget
           else check_retained g old_root rest
                  (insert nid frontier, retained_nodes + mn_size entry, visits + 1)))"

text \<open>The walk over the retired nodes stops at the frontier.\<close>

partial_function (option) retire_walk ::
  "mounted_graph \<Rightarrow> u64 set \<Rightarrow> u64 list \<Rightarrow> u64 set \<Rightarrow> u64 list \<Rightarrow> (u64 set \<times> u64 list) option" where
  [code]: "retire_walk g frontier pending found removed =
     (case pending of
        [] \<Rightarrow> Some (found, removed)
      | nid # rest \<Rightarrow>
          (if nid \<in> frontier then retire_walk g frontier rest (insert nid found) removed
           else case children_of g nid of
             None \<Rightarrow> None
           | Some children \<Rightarrow> retire_walk g frontier (children @ rest) found (removed @ [nid])))"

section \<open>Checks on the fresh nodes\<close>

definition survives :: "u64 set \<Rightarrow> u64 option \<Rightarrow> bool" where
  "survives removed holder \<longleftrightarrow> (case holder of None \<Rightarrow> False | Some nid \<Rightarrow> nid \<notin> removed)"

definition instance_spent :: "mounted_graph \<Rightarrow> u64 \<Rightarrow> bool" where
  "instance_spent g i \<longleftrightarrow> (case mg_max_instance g of None \<Rightarrow> False | Some m \<Rightarrow> i \<le> m)"

fun check_fresh ::
  "mounted_graph \<Rightarrow> u64 set \<Rightarrow> (u64 \<rightharpoonup> u64 option) \<Rightarrow> node list \<Rightarrow> (apply_error, unit) outcome" where
  "check_fresh g removed owners [] = Ok ()"
| "check_fresh g removed owners (n # rest) =
     (if nd_id n \<le> mg_max_node g then Err NodeIdReused
      else
        obind (case nd_kind n of
            Dialog _ _ \<Rightarrow> (if survives removed (mg_dialog g) then Err SecondDialog else Ok ())
          | TextInput label _ _ _ _ \<Rightarrow>
              obind (expect (owners (nd_id n))) (\<lambda>owner.
                if survives removed (mg_labels g (owner, label)) then Err (InputLabelTaken label) else Ok ())
          | Boundary i \<Rightarrow>
              (case mg_boundaries g i of
                 Some nid \<Rightarrow> if nid \<notin> removed then Err (InstanceMounted i) else Ok ()
               | None \<Rightarrow> if instance_spent g i then Err (InstanceRetired i) else Ok ())
          | _ \<Rightarrow> Ok ())
          (\<lambda>_. check_fresh g removed owners rest))"

text \<open>The node of a fresh id, and the node a child's id names; a failed index panics.\<close>

definition fresh_at :: "validated \<Rightarrow> node list \<Rightarrow> u64 \<rightharpoonup> node" where
  "fresh_at v nodes nid =
     (case obind (expect (vf_indices v nid)) (node_index nodes) of Ok n \<Rightarrow> Some n | _ \<Rightarrow> None)"

definition found_at :: "validated \<Rightarrow> node list \<Rightarrow> mounted_graph \<Rightarrow> u64 \<rightharpoonup> node" where
  "found_at v nodes g nid = (case lookup (vf_indices v) nodes (mounted g) nid of Ok found \<Rightarrow> found | _ \<Rightarrow> None)"

section \<open>Structural scope\<close>

text \<open>The elder siblings that share the root's tag and name.\<close>

fun count_namesakes :: "mounted_graph \<Rightarrow> node_kind \<Rightarrow> u64 list \<Rightarrow> nat \<Rightarrow> nat option" where
  "count_namesakes g kind [] count = Some count"
| "count_namesakes g kind (sibling # rest) count =
     (case mounted g sibling of
        None \<Rightarrow> None
      | Some other \<Rightarrow>
          count_namesakes g kind rest
            (if tag (nd_kind other) = tag kind \<and> sibling_name (nd_kind other) = sibling_name kind
             then count + 1 else count))"

definition root_segment_of ::
  "mounted_graph \<Rightarrow> (u64 \<times> nat) option \<Rightarrow> node_kind \<Rightarrow> identity_segment option" where
  "root_segment_of g slot kind =
     (case slot of
        None \<Rightarrow> Some (segment_of kind 0 0)
      | Some (parent_id, position) \<Rightarrow>
          do {
            occurrence \<leftarrow> (if sibling_name kind = None then Some 0
                          else do {
                            siblings \<leftarrow> children_of g parent_id;
                            count_namesakes g kind (take position siblings) 0
                          });
            Some (segment_of kind position (of_nat occurrence))
          })"

text \<open>The children of a fresh node with their sibling keys.\<close>

fun scope_children ::
  "(u64 \<rightharpoonup> node) \<Rightarrow> nat \<Rightarrow> (u8 \<times> string \<Rightarrow> u32) \<Rightarrow> u64 list \<Rightarrow>
   (u64 \<times> identity_segment \<times> bool) list option" where
  "scope_children found position seen [] = Some []"
| "scope_children found position seen (child # rest) =
     do {
       n \<leftarrow> found child;
       let name = sibling_name (nd_kind n);
       let k = (tag (nd_kind n), case name of None \<Rightarrow> [] | Some s \<Rightarrow> s);
       others \<leftarrow> scope_children found (Suc position) (if name = None then seen else seen(k := seen k + 1)) rest;
       Some ((child, segment_of (nd_kind n) position (if name = None then 0 else seen k), False) # others)
     }"

definition scope_kept :: "mounted_graph \<Rightarrow> node_kind \<Rightarrow> element_identity \<Rightarrow> apply_error option option" where
  "scope_kept g kind trail =
     (case boundary_instance kind of
        None \<Rightarrow> Some None
      | Some i \<Rightarrow>
          (case mg_boundaries g i of
             None \<Rightarrow> Some None
           | Some old \<Rightarrow> map_option (\<lambda>here. if here \<noteq> trail then Some (InstanceMoved i) else None) (identity g old)))"

text \<open>
  The walk over the new region keeps the identity of the node it is at. An exiting item pops it.
  The result is the error found, if there is one.
\<close>

partial_function (option) scope_walk ::
  "mounted_graph \<Rightarrow> (u64 \<rightharpoonup> node) \<Rightarrow> (u64 \<rightharpoonup> node) \<Rightarrow> u64 set \<Rightarrow>
   (u64 \<times> identity_segment \<times> bool) list \<Rightarrow> element_identity \<Rightarrow> apply_error option option" where
  [code]: "scope_walk g fresh found frontier pending trail =
     (case pending of
        [] \<Rightarrow> Some None
      | (nid, segment, exiting) # rest \<Rightarrow>
          (if exiting then scope_walk g fresh found frontier rest (butlast trail)
           else if nid \<in> frontier then
             (case identity g nid of
                None \<Rightarrow> None
              | Some here \<Rightarrow>
                  (if here \<noteq> trail @ [segment] then Some (Some (RetainedMoved nid))
                   else scope_walk g fresh found frontier rest trail))
           else
             (case fresh nid of
                None \<Rightarrow> None
              | Some n \<Rightarrow>
                  (case scope_kept g (nd_kind n) (trail @ [segment]) of
                     None \<Rightarrow> None
                   | Some (Some e) \<Rightarrow> Some (Some e)
                   | Some None \<Rightarrow>
                       (case scope_children found 0 (\<lambda>_. 0) (nd_children n) of
                          None \<Rightarrow> None
                        | Some children \<Rightarrow>
                            scope_walk g fresh found frontier (children @ (nid, segment, True) # rest)
                              (trail @ [segment]))))))"

section \<open>Retiring and inserting nodes\<close>

text \<open>\<open>get_mut\<close> with \<open>expect\<close>.\<close>

definition on_entry :: "u64 \<Rightarrow> (mounted_node \<Rightarrow> mounted_node) \<Rightarrow> mounted_graph \<Rightarrow> mounted_graph option" where
  "on_entry nid f g =
     (case mg_nodes g nid of
        None \<Rightarrow> None
      | Some entry \<Rightarrow> Some (g\<lparr>mg_nodes := (mg_nodes g)(nid \<mapsto> f entry)\<rparr>))"

definition unregister :: "u64 \<Rightarrow> node_kind \<Rightarrow> mounted_graph \<Rightarrow> mounted_graph" where
  "unregister nid kind g =
     (case kind of
        Boundary i \<Rightarrow> g\<lparr>mg_boundaries := (mg_boundaries g)(i := None)\<rparr>
      | TextInput label _ _ _ _ \<Rightarrow>
          (let owner = (case mg_owners g nid of Some owner \<Rightarrow> owner | None \<Rightarrow> None) in
           g\<lparr>mg_owners := (mg_owners g)(nid := None), mg_labels := (mg_labels g)((owner, label) := None)\<rparr>)
      | Dialog _ _ \<Rightarrow> g\<lparr>mg_dialog := None\<rparr>
      | _ \<Rightarrow> g)"

fun retire_nodes :: "u64 list \<Rightarrow> u64 list \<Rightarrow> mounted_graph \<Rightarrow> (u64 list \<times> mounted_graph) option" where
  "retire_nodes [] instances g = Some (instances, g)"
| "retire_nodes (nid # rest) instances g =
     do {
       entry \<leftarrow> mg_nodes g nid;
       let kind = nd_kind (mn_node entry);
       retire_nodes rest (case boundary_instance kind of Some i \<Rightarrow> instances @ [i] | None \<Rightarrow> instances)
         (unregister nid kind (g\<lparr>mg_nodes := (mg_nodes g)(nid := None)\<rparr>))
     }"

definition newest_instance :: "u64 \<Rightarrow> u64 option \<Rightarrow> u64 option" where
  "newest_instance i newest = Some (case newest of None \<Rightarrow> i | Some m \<Rightarrow> max m i)"

definition register_kind ::
  "(u64 \<rightharpoonup> u64 option) \<Rightarrow> u64 \<Rightarrow> node_kind \<Rightarrow> mounted_graph \<Rightarrow> mounted_graph option" where
  "register_kind owners nid kind g =
     (case kind of
        Boundary i \<Rightarrow>
          Some (g\<lparr>mg_boundaries := (mg_boundaries g)(i \<mapsto> nid), mg_max_instance := newest_instance i (mg_max_instance g)\<rparr>)
      | TextInput label _ _ _ _ \<Rightarrow>
          map_option (\<lambda>owner. g\<lparr>mg_owners := (mg_owners g)(nid \<mapsto> owner),
                                 mg_labels := (mg_labels g)((owner, label) \<mapsto> nid)\<rparr>) (owners nid)
      | Dialog _ _ \<Rightarrow> Some (g\<lparr>mg_dialog := Some nid\<rparr>)
      | Popover _ _ _ _ _ shortcuts focus_serial _ \<Rightarrow>
          Some (on_keyboard (\<lambda>k. k\<lparr>
            kb_regions := insert_if (shortcuts \<noteq> []) nid (kb_regions k),
            kb_window_regions := insert_if (list_ex (\<lambda>s. sc_scope s = ScopeWindow) shortcuts) nid (kb_window_regions k),
            kb_staged_requests := (if focus_serial \<noteq> 0 then kb_staged_requests k @ [nid] else kb_staged_requests k)\<rparr>) g)
      | Split _ _ _ _ _ _ _ _ _ shortcuts _ \<Rightarrow>
          Some (on_keyboard (\<lambda>k. k\<lparr>kb_regions := insert_if (shortcuts \<noteq> []) nid (kb_regions k)\<rparr>) g)
      | _ \<Rightarrow> Some g)"

definition unlinked :: "node \<Rightarrow> mounted_node" where
  "unlinked n = \<lparr>mn_node = n, mn_parent = None, mn_size = 1, mn_segment = segment_of (nd_kind n) 0 0, mn_keyed = None\<rparr>"

fun register_nodes :: "(u64 \<rightharpoonup> u64 option) \<Rightarrow> node list \<Rightarrow> mounted_graph \<Rightarrow> mounted_graph option" where
  "register_nodes owners [] g = Some g"
| "register_nodes owners (n # rest) g =
     do {
       g \<leftarrow> register_kind owners (nd_id n) (nd_kind n) (g\<lparr>mg_max_node := max (mg_max_node g) (nd_id n)\<rparr>);
       register_nodes owners rest (g\<lparr>mg_nodes := (mg_nodes g)(nd_id n \<mapsto> unlinked n)\<rparr>)
     }"

text \<open>
  The inserted keyed columns are seeded from their keys. They are found by iterating a hash map;
  the ids are distinct and a seed reads no other order, so they are taken in staging order here.
\<close>

fun seed_entries ::
  "mounted_graph \<Rightarrow> (keyed_child_key \<times> u64) list \<Rightarrow> (keyed_child_key \<times> u64 \<times> u64) list option" where
  "seed_entries g [] = Some []"
| "seed_entries g ((key, root) # rest) =
     do {
       kind \<leftarrow> mounted_kind g root;
       i \<leftarrow> boundary_instance kind;
       entries \<leftarrow> seed_entries g rest;
       Some ((key, root, i) # entries)
     }"

fun keyed_seed :: "node_kind \<Rightarrow> (u64 \<times> keyed_child_key list) option" where
  "keyed_seed (KeyedColumn _ _ revision keys) = Some (revision, keys)"
| "keyed_seed _ = None"

fun seed_columns :: "u64 list \<Rightarrow> mounted_graph \<Rightarrow> mounted_graph option" where
  "seed_columns [] g = Some g"
| "seed_columns (nid # rest) g =
     do {
       entry \<leftarrow> mg_nodes g nid;
       case (keyed_seed (nd_kind (mn_node entry)), mn_keyed entry) of
         (Some (revision, keys), None) \<Rightarrow>
           do {
             entries \<leftarrow> seed_entries g (zip keys (nd_children (mn_node entry)));
             order \<leftarrow> (case from_seed revision entries of Ok order \<Rightarrow> Some order | _ \<Rightarrow> None);
             g \<leftarrow> on_entry nid (\<lambda>entry. entry\<lparr>mn_keyed := Some order\<rparr>) g;
             seed_columns rest g
           }
       | _ \<Rightarrow> seed_columns rest g
     }"

text \<open>In postorder, every inserted node sums its children's sizes and becomes their parent.\<close>

fun child_sizes :: "mounted_graph \<Rightarrow> u64 list \<Rightarrow> u64 option" where
  "child_sizes g [] = Some 0"
| "child_sizes g (child # rest) =
     do { entry \<leftarrow> mg_nodes g child; others \<leftarrow> child_sizes g rest; Some (mn_size entry + others) }"

definition child_place :: "mounted_graph \<Rightarrow> u64 \<Rightarrow> nat \<Rightarrow> parent_location option" where
  "child_place g nid position =
     do {
       entry \<leftarrow> mg_nodes g nid;
       case mn_keyed entry of
         None \<Rightarrow> Some (OrdinaryIndex nid position)
       | Some order \<Rightarrow>
           do {
             items \<leftarrow> keyed_items order;
             if position < length items
             then Some (KeyedAt nid (fst (items ! position)) (kc_instance (snd (items ! position))))
             else None
           }
     }"

fun link_children :: "u64 \<Rightarrow> nat \<Rightarrow> u64 list \<Rightarrow> mounted_graph \<Rightarrow> mounted_graph option" where
  "link_children nid position [] g = Some g"
| "link_children nid position (child # rest) g =
     do {
       location \<leftarrow> child_place g nid position;
       g \<leftarrow> on_entry child (\<lambda>entry. entry\<lparr>mn_parent := Some location\<rparr>) g;
       link_children nid (Suc position) rest g
     }"

fun set_segments :: "(u64 \<times> identity_segment) list \<Rightarrow> mounted_graph \<Rightarrow> mounted_graph option" where
  "set_segments [] g = Some g"
| "set_segments ((nid, segment) # rest) g =
     do { g \<leftarrow> on_entry nid (\<lambda>entry. entry\<lparr>mn_segment := segment\<rparr>) g; set_segments rest g }"

definition refresh_child_segments :: "u64 \<Rightarrow> mounted_graph \<Rightarrow> mounted_graph option" where
  "refresh_child_segments nid g = do { segments \<leftarrow> child_segments g nid; set_segments segments g }"

definition link_node :: "u64 \<Rightarrow> mounted_graph \<Rightarrow> mounted_graph option" where
  "link_node nid g =
     do {
       entry \<leftarrow> mg_nodes g nid;
       let children = nd_children (mn_node entry);
       below \<leftarrow> child_sizes g children;
       g \<leftarrow> on_entry nid (\<lambda>entry. entry\<lparr>mn_size := 1 + below\<rparr>) g;
       g \<leftarrow> link_children nid 0 children g;
       refresh_child_segments nid g
     }"

fun link_nodes :: "u64 list \<Rightarrow> mounted_graph \<Rightarrow> mounted_graph option" where
  "link_nodes [] g = Some g"
| "link_nodes (nid # rest) g = do { g \<leftarrow> link_node nid g; link_nodes rest g }"

definition insert_nodes :: "node list \<Rightarrow> validated \<Rightarrow> mounted_graph \<Rightarrow> mounted_graph option" where
  "insert_nodes nodes v g =
     do {
       g \<leftarrow> register_nodes (vf_input_owners v) nodes g;
       g \<leftarrow> seed_columns (map nd_id nodes) g;
       link_nodes (vf_postorder v) g
     }"

section \<open>The path to the root\<close>

text \<open>The subtree sizes from a node up to the root change by one difference.\<close>

partial_function (option) resize_walk ::
  "u64 \<Rightarrow> u64 \<Rightarrow> u64 option \<Rightarrow> mounted_graph \<Rightarrow> mounted_graph option" where
  [code]: "resize_walk old_size new_size ancestor g =
     (case ancestor of
        None \<Rightarrow> Some g
      | Some nid \<Rightarrow>
          (case mg_nodes g nid of
             None \<Rightarrow> None
           | Some entry \<Rightarrow>
               resize_walk old_size new_size (map_option location_parent (mn_parent entry))
                 (g\<lparr>mg_nodes := (mg_nodes g)(nid \<mapsto> entry\<lparr>mn_size := mn_size entry - old_size + new_size\<rparr>)\<rparr>)))"

text \<open>A dialog that was not active before retires what is behind it.\<close>

definition modal_policy :: "u64 option \<Rightarrow> mounted_graph \<Rightarrow> mounted_graph option" where
  "modal_policy previous g =
     (case mg_dialog g of
        None \<Rightarrow> Some g
      | Some dialog \<Rightarrow> if mg_dialog g = previous then Some g else retire_behind_dialog dialog g)"

section \<open>Mounting and replacing\<close>

text \<open>The region that is retired, and its place under a parent that stays.\<close>

record retired_region =
  rr_location :: "parent_location option"
  rr_parent :: "(u64 \<times> nat) option"
  rr_frontier :: "u64 set"
  rr_retained_nodes :: u64
  rr_visits :: u64
  rr_removed :: "u64 list"

definition location_position :: "parent_location \<Rightarrow> u64 \<times> nat" where
  "location_position location =
     (case location of OrdinaryIndex p index \<Rightarrow> (p, index) | KeyedAt container key i \<Rightarrow> (container, 0))"

definition plan_region ::
  "u64 option \<Rightarrow> u64 list \<Rightarrow> mounted_graph \<Rightarrow> (apply_error, retired_region) outcome" where
  "plan_region old_root retained_roots g =
     (if old_root = None \<and> mg_root g \<noteq> None then Err MountedTwice
      else if (case old_root of None \<Rightarrow> False | Some nid \<Rightarrow> mg_nodes g nid = None)
      then Err (TargetMissing (the old_root))
      else
        let location = Option.bind old_root (parent_location g);
            slot = map_option location_position location
        in
        if old_root \<noteq> None \<and> slot = None \<and> old_root \<noteq> mg_root g then Err TargetDetached
        else
          obind (check_retained g old_root retained_roots ({}, 0, 0)) (\<lambda>(frontier, retained_nodes, visits).
          obind (expect (retire_walk g frontier (case old_root of None \<Rightarrow> [] | Some nid \<Rightarrow> [nid]) {} []))
            (\<lambda>(reached, removed).
          if reached \<noteq> frontier then Err RetainedOutside
          else Ok \<lparr>rr_location = location, rr_parent = slot, rr_frontier = frontier,
                   rr_retained_nodes = retained_nodes, rr_visits = visits + of_nat (length removed),
                   rr_removed = removed\<rparr>)))"

definition place_owner :: "mounted_graph \<Rightarrow> (u64 \<times> nat) option \<Rightarrow> u64 option option" where
  "place_owner g slot = (case slot of None \<Rightarrow> Some None | Some (p, position) \<Rightarrow> component_owner g p)"

definition place_identity :: "mounted_graph \<Rightarrow> (u64 \<times> nat) option \<Rightarrow> element_identity option" where
  "place_identity g slot = (case slot of None \<Rightarrow> Some [] | Some (p, position) \<Rightarrow> identity g p)"

text \<open>The checks of the fragment in its place; the result is its validation and its root's key.\<close>

definition plan_fragment ::
  "u64 \<Rightarrow> node list \<Rightarrow> retired_region \<Rightarrow> mounted_graph \<Rightarrow> (apply_error, validated \<times> identity_segment) outcome" where
  "plan_fragment root nodes region g =
     obind (expect (place_owner g (rr_parent region))) (\<lambda>owner.
     obind (map_err FragmentRefused (validate_fragment root nodes (rr_frontier region) owner (mounted g))) (\<lambda>v.
     obind (check_fresh g (set (rr_removed region)) (vf_input_owners v) nodes) (\<lambda>_.
     obind (expect (place_identity g (rr_parent region))) (\<lambda>outer.
     obind (expect (found_at v nodes g root)) (\<lambda>root_node.
     obind (expect (root_segment_of g (rr_parent region) (nd_kind root_node))) (\<lambda>segment.
     obind (expect (scope_walk g (fresh_at v nodes) (found_at v nodes g) (rr_frontier region)
                      [(root, segment, False)] outer)) (\<lambda>moved.
     if moved = None then Ok (v, segment) else Err (the moved))))))))"

text \<open>The parent of the replaced root takes the new one as its child.\<close>

definition adopt :: "u64 \<Rightarrow> parent_location \<Rightarrow> mounted_graph \<Rightarrow> mounted_graph option" where
  "adopt root location g =
     (case location of
        KeyedAt container key i \<Rightarrow>
          do {
            entry \<leftarrow> mg_nodes g container;
            order \<leftarrow> mn_keyed entry;
            child \<leftarrow> ko_children order key;
            on_entry container (\<lambda>entry. entry\<lparr>mn_keyed := Some (put_child key (child\<lparr>kc_root := root\<rparr>) order)\<rparr>) g
          }
      | OrdinaryIndex slot index \<Rightarrow>
          do {
            entry \<leftarrow> mg_nodes g slot;
            if index < length (nd_children (mn_node entry))
            then on_entry slot (\<lambda>entry. entry\<lparr>mn_node := (mn_node entry)\<lparr>nd_children := (nd_children (mn_node entry))[index := root]\<rparr>\<rparr>) g
            else None
          })"

text \<open>The new root takes the old one's place, and its ancestors' sizes follow.\<close>

definition attach_root ::
  "u64 \<Rightarrow> parent_location option \<Rightarrow> identity_segment \<Rightarrow> bool \<Rightarrow> u64 \<Rightarrow> mounted_graph \<Rightarrow> mounted_graph option" where
  "attach_root root slot segment unchanged old_size g =
     do {
       g \<leftarrow> on_entry root (\<lambda>entry. entry\<lparr>mn_parent := slot, mn_segment := segment\<rparr>) g;
       new_size \<leftarrow> subtree_size g root;
       case slot of
         None \<Rightarrow> Some (g\<lparr>mg_root := Some root\<rparr>)
       | Some location \<Rightarrow>
           do {
             g \<leftarrow> adopt root location g;
             g \<leftarrow> (if unchanged then Some g else refresh_child_segments (location_parent location) g);
             resize_walk old_size new_size (Some (location_parent location)) g
           }
     }"

definition commit_ordinary ::
  "u64 option \<Rightarrow> u64 \<Rightarrow> node list \<Rightarrow> u64 list \<Rightarrow> retired_region \<Rightarrow> validated \<Rightarrow> identity_segment \<Rightarrow>
   mounted_graph \<Rightarrow> (graph_apply \<times> mounted_graph) option" where
  "commit_ordinary old_root root nodes retained_roots region v segment g =
     (let previous_dialog = mg_dialog g;
          unchanged = (Option.bind old_root (cached_segment g) = Some segment);
          old_size = (case Option.bind old_root (subtree_size g) of None \<Rightarrow> 0 | Some s \<Rightarrow> s);
          staged_ids = map nd_id nodes;
          retired_root = (old_root = mg_root g \<and> old_root \<noteq> None \<and> rr_frontier region = {})
      in do {
        (carried, g) \<leftarrow> carry_interaction (rr_removed region) g;
        (removed_instances, g) \<leftarrow> retire_nodes (rr_removed region) [] g;
        g \<leftarrow> insert_nodes nodes v g;
        g \<leftarrow> attach_root root (rr_location region) segment unchanged old_size g;
        g \<leftarrow> restore_interaction staged_ids carried g;
        g \<leftarrow> modal_policy previous_dialog g;
        Some (\<lparr>ga_facts = \<lparr>af_kind = (if old_root \<noteq> None then ''replace'' else ''mount''),
                  af_staged = of_nat (length staged_ids), af_removed = of_nat (length (rr_removed region)),
                  af_live = live_count g, af_scanned = (if rr_parent region \<noteq> None then 1 else 0),
                  af_retained_nodes = rr_retained_nodes region, af_validation_visits = rr_visits region + vf_visits v,
                  af_keyed_graph_visits = 0, af_keyed_original_reads = 0, af_keyed_first_touches = 0\<rparr>,
                ga_root = Some root, ga_staged_ids = staged_ids, ga_removed_ids = rr_removed region,
                ga_retired_root = retired_root, ga_parent = rr_parent region,
                ga_retained_roots = retained_roots, ga_removed_instances = removed_instances,
                ga_staged_instances = staged_instances_of nodes, ga_keyed_edits = []\<rparr>, g)
      })"

definition apply_ordinary ::
  "u64 option \<Rightarrow> u64 \<Rightarrow> node list \<Rightarrow> u64 list \<Rightarrow> mounted_graph \<Rightarrow>
   (apply_error, graph_apply) outcome \<times> mounted_graph" where
  "apply_ordinary old_root root nodes retained_roots g =
     (case obind (plan_region old_root retained_roots g) (\<lambda>region.
           obind (plan_fragment root nodes region g) (\<lambda>(v, segment). Ok (region, v, segment))) of
        Err e \<Rightarrow> (Err e, g)
      | Panic \<Rightarrow> (Panic, g)
      | Ok (region, v, segment) \<Rightarrow>
          (case commit_ordinary old_root root nodes retained_roots region v segment g of
             None \<Rightarrow> (Panic, g)
           | Some (result, g') \<Rightarrow> (Ok result, g')))"

end
