(* ===== verification/KeyedApply.thy ===== *)
theory KeyedApply
  imports GraphApply
begin

text \<open>
  Applying a keyed transaction to a container of the mounted graph (\<open>apply_keyed_inner\<close> and
  \<open>validate_keyed_staged_fragment\<close> in \<open>bridge.rs\<close>), and \<open>apply\<close>, which dispatches on the patch.
  The order of the container is taken out of the graph and edited under a journal; the closure
  that prepares the transaction works on the graph without it. The order in which the hash map
  of saved originals yields its keys is the parameter \<open>drain\<close>.
\<close>

section \<open>Preparing the operations\<close>

record fragment_plan =
  fp_key :: keyed_child_key
  fp_root :: u64
  fp_nodes :: "node list"
  fp_validated :: validated

record keyed_progress =
  kp_journal :: journal
  kp_fragments :: "fragment_plan list"
  kp_edits :: "keyed_native_edit list"
  kp_ids :: "u64 set"
  kp_instances :: "u64 set"
  kp_visits :: u64

record keyed_graph_apply =
  kg_revision :: u64
  kg_staged :: u64
  kg_removed :: u64
  kg_graph_visits :: u64
  kg_original_reads :: u64
  kg_first_touches :: u64
  kg_staged_ids :: "u64 list"
  kg_removed_ids :: "u64 list"
  kg_staged_instances :: "u64 list"
  kg_removed_instances :: "u64 list"
  kg_native_edits :: "keyed_native_edit list"

fun validate_keyed_staged ::
  "mounted_graph \<Rightarrow> u64 option \<Rightarrow> node list \<Rightarrow> u64 set \<times> u64 set \<Rightarrow>
   (apply_error, u64 set \<times> u64 set) outcome" where
  "validate_keyed_staged g replacing [] staged = Ok staged"
| "validate_keyed_staged g replacing (n # rest) (ids, instances) =
     (if nd_id n \<le> mg_max_node g \<or> nd_id n \<in> ids then Err KeyedIdReused
      else case boundary_instance (nd_kind n) of
        None \<Rightarrow> validate_keyed_staged g replacing rest (insert (nd_id n) ids, instances)
      | Some i \<Rightarrow>
          (if i \<in> instances then Err (KeyedInstanceTwice i)
           else if Some i \<noteq> replacing \<and> instance_spent g i then Err (InstanceRetired i)
           else validate_keyed_staged g replacing rest (insert (nd_id n) ids, insert i instances)))"

text \<open>
  The fragment of an insertion or a replacement. The instance a replacement must preserve is
  given; an insertion learns the instance of its root.
\<close>

definition keyed_fragment ::
  "mounted_graph \<Rightarrow> u64 option \<Rightarrow> u64 option \<Rightarrow> u64 \<Rightarrow> node list \<Rightarrow> keyed_progress \<Rightarrow>
   (apply_error, validated \<times> u64 \<times> keyed_progress) outcome" where
  "keyed_fragment g owner replacing root nodes s =
     obind (map_err FragmentRefused (validate_fragment root nodes {} owner (mounted g))) (\<lambda>v.
     obind (map_err FragmentRefused (lookup (vf_indices v) nodes (mounted g) root)) (\<lambda>found.
     obind (ok_or (Option.bind (map_option nd_kind found) boundary_instance) ItemNotBoundary) (\<lambda>i.
     if replacing \<noteq> None \<and> replacing \<noteq> Some i then Err SetChangesInstance
     else
       obind (validate_keyed_staged g replacing nodes (kp_ids s, kp_instances s)) (\<lambda>(ids, instances).
       Ok (v, i, s\<lparr>kp_ids := ids, kp_instances := instances, kp_visits := kp_visits s + vf_visits v\<rparr>)))))"

definition record_edit ::
  "keyed_native_edit \<Rightarrow> fragment_plan list \<Rightarrow> keyed_progress \<Rightarrow> journal \<Rightarrow> (apply_error, keyed_progress) outcome" where
  "record_edit edit fragments s j =
     Ok (s\<lparr>kp_journal := j, kp_edits := kp_edits s @ [edit], kp_fragments := kp_fragments s @ fragments\<rparr>)"

fun keyed_step ::
  "mounted_graph \<Rightarrow> u64 option \<Rightarrow> keyed_graph_operation \<Rightarrow> keyed_progress \<Rightarrow>
   (apply_error, keyed_progress) outcome" where
  "keyed_step g owner (GraphInsert key before root nodes) s =
     obind (keyed_fragment g owner None root nodes s) (\<lambda>(v, i, s).
     obind (map_err OrderRejected (j_insert key root i before (kp_journal s)))
       (record_edit (NativeInsert key before root)
          [\<lparr>fp_key = key, fp_root = root, fp_nodes = nodes, fp_validated = v\<rparr>] s))"
| "keyed_step g owner (GraphRemove key) s =
     obind (map_err OrderRejected (j_child key (kp_journal s))) (\<lambda>child.
     obind (map_err OrderRejected (j_remove key (kp_journal s)))
       (record_edit (NativeRemove key (kc_root child)) [] s))"
| "keyed_step g owner (GraphMove key before) s =
     obind (map_err OrderRejected (j_move_before key before (kp_journal s)))
       (record_edit (NativeMove key before) [] s)"
| "keyed_step g owner (GraphSet key root nodes) s =
     obind (map_err OrderRejected (j_child key (kp_journal s))) (\<lambda>child.
     obind (keyed_fragment g owner (Some (kc_instance child)) root nodes s) (\<lambda>(v, i, s).
     obind (map_err OrderRejected (j_replace key root (kp_journal s)))
       (record_edit (NativeSet key (kc_root child) root)
          [\<lparr>fp_key = key, fp_root = root, fp_nodes = nodes, fp_validated = v\<rparr>] s)))"

text \<open>The loop keeps the progress of the first failure, whose journal is rolled back.\<close>

fun keyed_steps ::
  "mounted_graph \<Rightarrow> u64 option \<Rightarrow> keyed_graph_operation list \<Rightarrow> keyed_progress \<Rightarrow>
   keyed_progress \<times> (apply_error, unit) outcome" where
  "keyed_steps g owner [] s = (s, Ok ())"
| "keyed_steps g owner (x # rest) s =
     (case keyed_step g owner x s of
        Ok s' \<Rightarrow> keyed_steps g owner rest s'
      | Err e \<Rightarrow> (s, Err e)
      | Panic \<Rightarrow> (s, Panic))"

section \<open>What the transaction retires and mounts\<close>

definition dropped_root :: "journal \<Rightarrow> keyed_child_key \<Rightarrow> u64 option" where
  "dropped_root j key =
     (case j_originals j key of
        Some (Some original) \<Rightarrow>
          (case ko_children (j_order j) key of
             None \<Rightarrow> Some (kc_root original)
           | Some child \<Rightarrow> if kc_root child \<noteq> kc_root original then Some (kc_root original) else None)
      | _ \<Rightarrow> None)"

definition removed_roots ::
  "(keyed_child_key set \<Rightarrow> keyed_child_key list) \<Rightarrow> journal \<Rightarrow> u64 list" where
  "removed_roots drain j = List.map_filter (dropped_root j) (drain (dom (j_originals j)))"

partial_function (option) below_walk :: "mounted_graph \<Rightarrow> u64 list \<Rightarrow> u64 list \<Rightarrow> u64 list option" where
  [code]: "below_walk g pending removed =
     (case pending of
        [] \<Rightarrow> Some removed
      | nid # rest \<Rightarrow>
          (case children_of g nid of
             None \<Rightarrow> None
           | Some children \<Rightarrow> below_walk g (rev children @ rest) (removed @ [nid])))"

fun retired_below :: "mounted_graph \<Rightarrow> u64 list \<Rightarrow> u64 list \<Rightarrow> u64 list option" where
  "retired_below g [] removed = Some removed"
| "retired_below g (root # rest) removed =
     do { removed \<leftarrow> below_walk g [root] removed; retired_below g rest removed }"

definition is_final :: "keyed_child_order \<Rightarrow> fragment_plan \<Rightarrow> bool" where
  "is_final order fragment \<longleftrightarrow> map_option kc_root (ko_children order (fp_key fragment)) = Some (fp_root fragment)"

fun check_final_nodes ::
  "mounted_graph \<Rightarrow> u64 set \<Rightarrow> (u64 \<rightharpoonup> u64 option) \<Rightarrow> node list \<Rightarrow> (u64 option \<times> string) set \<times> bool \<Rightarrow>
   (apply_error, (u64 option \<times> string) set \<times> bool) outcome" where
  "check_final_nodes g removed owners [] seen = Ok seen"
| "check_final_nodes g removed owners (n # rest) (labels, staged_dialog) =
     (case nd_kind n of
        Dialog _ _ \<Rightarrow>
          (if staged_dialog \<or> survives removed (mg_dialog g) then Err SecondDialog
           else check_final_nodes g removed owners rest (labels, True))
      | TextInput label _ _ _ _ \<Rightarrow>
          obind (expect (owners (nd_id n))) (\<lambda>owner.
            if (owner, label) \<in> labels \<or> survives removed (mg_labels g (owner, label))
            then Err (InputLabelTaken label)
            else check_final_nodes g removed owners rest (insert (owner, label) labels, staged_dialog))
      | Boundary i \<Rightarrow>
          (if survives removed (mg_boundaries g i) then Err (InstanceMounted i)
           else check_final_nodes g removed owners rest (labels, staged_dialog))
      | _ \<Rightarrow> check_final_nodes g removed owners rest (labels, staged_dialog))"

fun check_final ::
  "mounted_graph \<Rightarrow> u64 set \<Rightarrow> fragment_plan list \<Rightarrow> (u64 option \<times> string) set \<times> bool \<Rightarrow>
   (apply_error, unit) outcome" where
  "check_final g removed [] seen = Ok ()"
| "check_final g removed (fragment # rest) seen =
     obind (check_final_nodes g removed (vf_input_owners (fp_validated fragment)) (fp_nodes fragment) seen)
       (check_final g removed rest)"

text \<open>The transaction as a whole: the final fragments and the retired nodes, or the error.\<close>

definition prepare_keyed ::
  "(keyed_child_key set \<Rightarrow> keyed_child_key list) \<Rightarrow> u64 option \<Rightarrow> keyed_graph_operation list \<Rightarrow>
   mounted_graph \<Rightarrow> keyed_child_order \<Rightarrow>
   keyed_progress \<times> (apply_error, fragment_plan list \<times> u64 list) outcome" where
  "prepare_keyed drain owner operations g order =
     (case keyed_steps g owner operations
             \<lparr>kp_journal = journal_new order, kp_fragments = [], kp_edits = [], kp_ids = {},
              kp_instances = {}, kp_visits = 0\<rparr> of
        (s, Err e) \<Rightarrow> (s, Err e)
      | (s, Panic) \<Rightarrow> (s, Panic)
      | (s, Ok _) \<Rightarrow>
          (s, obind (expect (retired_below g (removed_roots drain (kp_journal s)) [])) (\<lambda>removed.
              let fragments = filter (is_final (j_order (kp_journal s))) (kp_fragments s) in
              obind (check_final g (set removed) fragments ({}, False)) (\<lambda>_.
              Ok (fragments, removed)))))"

section \<open>Committing\<close>

fun mount_fragments ::
  "u64 \<Rightarrow> keyed_child_order \<Rightarrow> fragment_plan list \<Rightarrow> mounted_graph \<Rightarrow> mounted_graph option" where
  "mount_fragments container order [] g = Some g"
| "mount_fragments container order (fragment # rest) g =
     do {
       g \<leftarrow> insert_nodes (fp_nodes fragment) (fp_validated fragment) g;
       child \<leftarrow> ko_children order (fp_key fragment);
       g \<leftarrow> on_entry (fp_root fragment) (\<lambda>entry. entry\<lparr>
              mn_parent := Some (KeyedAt container (fp_key fragment) (kc_instance child)),
              mn_segment := SegBoundary (kc_instance child)\<rparr>) g;
       mount_fragments container order rest g
     }"

definition commit_keyed ::
  "u64 \<Rightarrow> u64 \<Rightarrow> keyed_progress \<Rightarrow> fragment_plan list \<Rightarrow> u64 list \<Rightarrow> mounted_graph \<Rightarrow>
   (keyed_graph_apply \<times> mounted_graph) option" where
  "commit_keyed container new_revision s fragments removed g =
     (let previous_dialog = mg_dialog g;
          order = (j_order (kp_journal s))\<lparr>ko_revision := new_revision\<rparr>;
          nodes = concat (map fp_nodes fragments);
          staged = of_nat (length nodes)
      in do {
        old_size \<leftarrow> subtree_size g container;
        (carried, g) \<leftarrow> carry_interaction removed g;
        (removed_instances, g) \<leftarrow> retire_nodes removed [] g;
        g \<leftarrow> mount_fragments container order fragments g;
        let keyed_size = old_size - of_nat (length removed) + staged;
        g \<leftarrow> (if keyed_size = old_size then Some g
             else do {
               g \<leftarrow> on_entry container (\<lambda>entry. entry\<lparr>mn_size := keyed_size\<rparr>) g;
               resize_walk old_size keyed_size (map_option location_parent (parent_location g container)) g
             });
        g \<leftarrow> on_entry container (\<lambda>entry. entry\<lparr>mn_keyed := Some order\<rparr>) g;
        g \<leftarrow> restore_interaction (map nd_id nodes) carried g;
        g \<leftarrow> modal_policy previous_dialog g;
        Some (\<lparr>kg_revision = new_revision, kg_staged = staged, kg_removed = of_nat (length removed),
               kg_graph_visits = kp_visits s + of_nat (length removed),
               kg_original_reads = j_original_reads (kp_journal s),
               kg_first_touches = j_first_touches (kp_journal s),
               kg_staged_ids = map nd_id nodes, kg_removed_ids = removed,
               kg_staged_instances = staged_instances_of nodes,
               kg_removed_instances = removed_instances, kg_native_edits = kp_edits s\<rparr>, g)
      })"

definition put_order :: "u64 \<Rightarrow> mounted_node \<Rightarrow> keyed_child_order option \<Rightarrow> mounted_graph \<Rightarrow> mounted_graph" where
  "put_order container entry order g = g\<lparr>mg_nodes := (mg_nodes g)(container \<mapsto> entry\<lparr>mn_keyed := order\<rparr>)\<rparr>"

definition apply_keyed ::
  "(keyed_child_key set \<Rightarrow> keyed_child_key list) \<Rightarrow> u64 \<Rightarrow> u64 \<Rightarrow> u64 \<Rightarrow> keyed_graph_operation list \<Rightarrow>
   mounted_graph \<Rightarrow> (apply_error, keyed_graph_apply) outcome \<times> mounted_graph" where
  "apply_keyed drain container base_revision new_revision operations g =
     (case mg_nodes g container of
        None \<Rightarrow> (Err (ContainerMissing container), g)
      | Some entry \<Rightarrow>
          if mn_keyed entry = None \<and> nd_children (mn_node entry) \<noteq> [] then (Err ContainerNotKeyed, g)
          else
            let order = (case mn_keyed entry of None \<Rightarrow> order_default | Some order \<Rightarrow> order);
                taken = put_order container entry None g;
                restored = (\<lambda>order. put_order container entry
                              (if mn_keyed entry \<noteq> None then Some order else None) taken)
            in
            (case check_revision base_revision order of
               Err e \<Rightarrow> (Err (OrderRejected e), restored order)
             | Panic \<Rightarrow> (Panic, taken)
             | Ok _ \<Rightarrow>
                 if new_revision \<le> base_revision
                 then (Err (OrderRejected (StaleNewRevision base_revision new_revision)), restored order)
                 else
                   (case component_owner taken container of
                      None \<Rightarrow> (Panic, taken)
                    | Some owner \<Rightarrow>
                        (case prepare_keyed drain owner operations taken order of
                           (s, Err e) \<Rightarrow> (Err e, restored (j_rollback (kp_journal s)))
                         | (s, Panic) \<Rightarrow> (Panic, taken)
                         | (s, Ok (fragments, removed)) \<Rightarrow>
                             (case commit_keyed container new_revision s fragments removed taken of
                                None \<Rightarrow> (Panic, taken)
                              | Some (result, g') \<Rightarrow> (Ok result, g'))))))"

section \<open>Applying a patch\<close>

definition keyed_result :: "u64 \<Rightarrow> keyed_graph_apply \<Rightarrow> mounted_graph \<Rightarrow> graph_apply" where
  "keyed_result container keyed g =
     \<lparr>ga_facts = \<lparr>af_kind = ''keyed'', af_staged = kg_staged keyed, af_removed = kg_removed keyed,
        af_live = live_count g, af_scanned = 0, af_retained_nodes = 0,
        af_validation_visits = kg_graph_visits keyed, af_keyed_graph_visits = kg_graph_visits keyed,
        af_keyed_original_reads = kg_original_reads keyed, af_keyed_first_touches = kg_first_touches keyed\<rparr>,
      ga_root = Some container, ga_staged_ids = kg_staged_ids keyed, ga_removed_ids = kg_removed_ids keyed,
      ga_retired_root = False, ga_parent = None, ga_retained_roots = [],
      ga_removed_instances = kg_removed_instances keyed, ga_staged_instances = kg_staged_instances keyed,
      ga_keyed_edits = kg_native_edits keyed\<rparr>"

definition no_change_result :: "mounted_graph \<Rightarrow> graph_apply" where
  "no_change_result g =
     \<lparr>ga_facts = \<lparr>af_kind = ''no_change'', af_staged = 0, af_removed = 0, af_live = live_count g,
        af_scanned = 0, af_retained_nodes = 0, af_validation_visits = 0, af_keyed_graph_visits = 0,
        af_keyed_original_reads = 0, af_keyed_first_touches = 0\<rparr>,
      ga_root = None, ga_staged_ids = [], ga_removed_ids = [], ga_retired_root = False, ga_parent = None,
      ga_retained_roots = [], ga_removed_instances = [], ga_staged_instances = [], ga_keyed_edits = []\<rparr>"

fun apply_patch ::
  "(keyed_child_key set \<Rightarrow> keyed_child_key list) \<Rightarrow> patch \<Rightarrow> mounted_graph \<Rightarrow>
   (apply_error, graph_apply) outcome \<times> mounted_graph" where
  "apply_patch drain (PatchKeyed container base_revision new_revision operations) g =
     (case apply_keyed drain container base_revision new_revision operations g of
        (Ok keyed, g') \<Rightarrow> (Ok (keyed_result container keyed g'), g')
      | (Err e, g') \<Rightarrow> (Err e, g')
      | (Panic, g') \<Rightarrow> (Panic, g'))"
| "apply_patch drain PatchNoChange g = (Ok (no_change_result g), g)"
| "apply_patch drain (PatchMount root nodes) g = apply_ordinary None root nodes [] g"
| "apply_patch drain (PatchReplace old_root root nodes) g = apply_ordinary (Some old_root) root nodes [] g"
| "apply_patch drain (PatchReplaceRetaining old_root root nodes retained_roots) g =
     apply_ordinary (Some old_root) root nodes retained_roots g"

end
