(* ===== verification/ApplyAtomic.thy ===== *)
theory ApplyAtomic
  imports KeyedApply KeyedAtomic Popovers
begin

text \<open>
  Error paths of patch application. The checks of a mount or a replacement come before any change
  of the graph; a keyed transaction edits the order of its container under a journal and rolls it
  back. Either way a refused patch leaves the graph as it was.
\<close>

section \<open>The journal of a keyed transaction\<close>

lemma map_err_Ok [simp]: "map_err f m = Ok a \<longleftrightarrow> m = Ok a"
  by (cases m) auto

lemma keyed_fragment_journal:
  "keyed_fragment g owner replacing root nodes s = Ok (v, i, s') \<Longrightarrow> kp_journal s' = kp_journal s"
  by (auto simp: keyed_fragment_def split: if_splits)

lemma keyed_step_journal:
  assumes "keyed_step g owner x s = Ok s'"
  shows "\<exists>y. j_step y (kp_journal s) = Ok (kp_journal s')"
proof (cases x)
  case (GraphInsert key before root nodes)
  with assms obtain v i s1 j where "keyed_fragment g owner None root nodes s = Ok (v, i, s1)"
    "j_insert key root i before (kp_journal s1) = Ok j" "kp_journal s' = j"
    by (auto simp: record_edit_def)
  then show ?thesis
    using keyed_fragment_journal by (intro exI [of _ "OpInsert key root i before"]) fastforce
next
  case (GraphSet key root nodes)
  with assms obtain r v i s1 j where "keyed_fragment g owner r root nodes s = Ok (v, i, s1)"
    "j_replace key root (kp_journal s1) = Ok j" "kp_journal s' = j"
    by (auto simp: record_edit_def)
  then show ?thesis
    using keyed_fragment_journal by (intro exI [of _ "OpReplace key root"]) fastforce
next
  case (GraphRemove key)
  with assms show ?thesis by (intro exI [of _ "OpRemove key"]) (auto simp: record_edit_def)
next
  case (GraphMove key before)
  with assms show ?thesis by (intro exI [of _ "OpMove key before"]) (auto simp: record_edit_def)
qed

lemma keyed_steps_remember:
  "remembers (kp_journal s) order \<Longrightarrow> remembers (kp_journal (fst (keyed_steps g owner xs s))) order"
proof (induction xs arbitrary: s)
  case (Cons x xs)
  show ?case
  proof (cases "keyed_step g owner x s")
    case (Ok s')
    with keyed_step_journal [OF Ok] Cons show ?thesis by (auto intro: remembers_step)
  qed (use Cons in simp_all)
qed simp

lemma prepare_keyed_rollback:
  "j_rollback (kp_journal (fst (prepare_keyed drain owner xs g order))) = order"
proof -
  let ?s = "\<lparr>kp_journal = journal_new order, kp_fragments = [], kp_edits = [], kp_ids = {},
              kp_instances = {}, kp_visits = 0\<rparr>"
  have "j_rollback (kp_journal (fst (keyed_steps g owner xs ?s))) = order"
    by (rule remembers_rollback [OF keyed_steps_remember]) (simp add: remembers_new)
  then show ?thesis by (auto simp: prepare_keyed_def split: prod.splits outcome.splits)
qed

lemma put_order_back:
  assumes "mg_nodes g container = Some entry"
  shows "put_order container entry (mn_keyed entry) (put_order container entry order g) = g"
proof -
  have "(mg_nodes g)(container \<mapsto> entry) = mg_nodes g" using assms by (simp add: fun_upd_idem)
  then show ?thesis by (simp add: put_order_def)
qed

lemma apply_keyed_failure:
  assumes "apply_keyed drain container base_revision new_revision xs g = (Err e, g')"
  shows "g' = g"
proof (cases "mg_nodes g container")
  case (Some entry)
  let ?order = "case mn_keyed entry of None \<Rightarrow> order_default | Some order \<Rightarrow> order"
  have same: "(if mn_keyed entry \<noteq> None then Some ?order else None) = mn_keyed entry"
    by (cases "mn_keyed entry") simp_all
  note restore = put_order_back [OF Some]
  have roll: "j_rollback (kp_journal s) = ?order"
    if "prepare_keyed drain owner xs taken ?order = (s, r)" for s r owner taken
    using prepare_keyed_rollback [of drain owner xs taken ?order] that by simp
  show ?thesis
    using assms Some restore roll same unfolding apply_keyed_def
    by (auto simp: Let_def split: if_splits outcome.splits option.splits prod.splits)
qed (use assms in \<open>simp add: apply_keyed_def\<close>)

section \<open>A refused patch changes nothing\<close>

text \<open>
  Claim C1: whatever patch is applied to whatever graph, when it is refused with an error the
  graph is exactly the graph before, the order of a keyed container included, at whichever
  operation of the transaction the error came.
\<close>

theorem apply_failure_leaves_graph:
  assumes "apply_patch drain patch g = (Err e, g')"
  shows "g' = g"
proof (cases patch)
  case (PatchKeyed container base_revision new_revision xs)
  with assms show ?thesis
    by (auto split: prod.splits outcome.splits intro: apply_keyed_failure)
qed (use assms in \<open>auto simp: apply_ordinary_def split: outcome.splits option.splits\<close>)

lemma apply_failure_leaves_graph_witness:
  "apply_patch (\<lambda>_. []) (PatchKeyed 3 1 2 [GraphRemove sample_key, GraphRemove sample_key]) keyed_surface
     = (Err (OrderRejected (Missing sample_key)), keyed_surface)"
proof -
  let ?p = "PatchKeyed 3 1 2 [GraphRemove sample_key, GraphRemove sample_key]"
  have "fst (apply_patch (\<lambda>_. []) ?p keyed_surface) = Err (OrderRejected (Missing sample_key))"
    by (simp add: word_le_nat_alt apply_keyed_def keyed_surface_def sample_entry_def put_order_def check_revision_def
        prepare_keyed_def component_owner.simps sample_popover_def j_child_def j_remove_def journal_new_def
        record_edit_def j_set_next_def j_set_previous_def on_order_def set_next_link_def set_previous_link_def
        j_touch_opt_def j_touch_def drop_child_def order_default_def Let_def)
  then show ?thesis
    using apply_failure_leaves_graph [of "\<lambda>_. []" ?p keyed_surface "OrderRejected (Missing sample_key)"]
    by (cases "apply_patch (\<lambda>_. []) ?p keyed_surface") simp
qed

end
