(* ===== verification/TreeSurgery.thy ===== *)
theory TreeSurgery
  imports GraphTree
begin

text \<open>
  Cutting subtrees out of a tree and plugging others in, and what that does to a graph that
  holds the tree. A hole is a leaf whose id is in a given set.
\<close>

section \<open>Holes\<close>

fun carve :: "u64 set \<Rightarrow> gtree \<Rightarrow> gtree" where
  "carve H (GNode i ts) = (if i \<in> H then GNode i [] else GNode i (map (carve H) ts))"

fun plug :: "(u64 \<Rightarrow> gtree) \<Rightarrow> u64 set \<Rightarrow> gtree \<Rightarrow> gtree" where
  "plug m H (GNode i ts) = (if i \<in> H then m i else GNode i (map (plug m H) ts))"

fun holey :: "u64 set \<Rightarrow> gtree \<Rightarrow> bool" where
  "holey H (GNode i ts) \<longleftrightarrow> (if i \<in> H then ts = [] else (\<forall>t \<in> set ts. holey H t))"

lemma gt_id_carve [simp]: "gt_id (carve H t) = gt_id t"
  by (cases t) auto

lemma holey_carve [simp]: "holey H (carve H t)"
  by (induction t) auto

lemma carve_subset: "set (gt_preorder (carve H t)) \<subseteq> set (gt_preorder t)"
  by (induction t) auto

lemma carve_distinct: "distinct (gt_preorder t) \<Longrightarrow> distinct (gt_preorder (carve H t))"
proof (induction t)
  case (GNode i ts)
  have inside: "set (concat (map (gt_preorder \<circ> carve H) us)) \<subseteq> set (concat (map gt_preorder us))" for us
    using carve_subset by fastforce
  have "distinct (concat (map (gt_preorder \<circ> carve H) us))"
    if "set us \<subseteq> set ts" "distinct (concat (map gt_preorder us))" for us
    using that
  proof (induction us)
    case (Cons u us)
    then have "distinct (gt_preorder (carve H u))" using GNode.IH by auto
    moreover have "distinct (concat (map (gt_preorder \<circ> carve H) us))" using Cons by (simp add: comp_def)
    moreover have "set (gt_preorder (carve H u)) \<inter> set (concat (map (gt_preorder \<circ> carve H) us)) = {}"
      using Cons.prems(2) inside [of us] carve_subset [of H u] by auto
    ultimately show ?case by (simp add: comp_def)
  qed simp
  from this [of ts] have "distinct (concat (map (gt_preorder \<circ> carve H) ts))" using GNode.prems by simp
  moreover have "i \<notin> set (concat (map (gt_preorder \<circ> carve H) ts))" using GNode.prems inside [of ts] by auto
  ultimately show ?case by (simp add: comp_def)
qed

definition piece :: "(u64 \<Rightarrow> gtree) \<Rightarrow> u64 set \<Rightarrow> u64 \<Rightarrow> u64 list" where
  "piece m H i = (if i \<in> H then gt_preorder (m i) else [i])"

lemma plug_preorder: "holey H t \<Longrightarrow> gt_preorder (plug m H t) = concat (map (piece m H) (gt_preorder t))"
proof (induction t)
  case (GNode i ts)
  have "concat (map (gt_preorder \<circ> plug m H) us) = concat (map (piece m H) (concat (map gt_preorder us)))"
    if "set us \<subseteq> set ts" "\<forall>t \<in> set us. holey H t" for us
    using that GNode.IH by (induction us) auto
  from this [of ts] show ?case using GNode.prems by (auto simp: piece_def [of _ _ i] comp_def)
qed

lemma distinct_pieces:
  "distinct xs \<Longrightarrow> \<forall>x \<in> set xs. distinct (f x) \<Longrightarrow>
   \<forall>x \<in> set xs. \<forall>y \<in> set xs. x \<noteq> y \<longrightarrow> set (f x) \<inter> set (f y) = {} \<Longrightarrow> distinct (concat (map f xs))"
  by (induction xs) fastforce+

lemma distinct_pieces_disjoint:
  "distinct (concat (map f xs)) \<Longrightarrow> distinct xs \<Longrightarrow> x \<in> set xs \<Longrightarrow> y \<in> set xs \<Longrightarrow> x \<noteq> y \<Longrightarrow>
   set (f x) \<inter> set (f y) = {}"
  by (induction xs) auto

text \<open>The subtree at a node, and cutting subtrees out to plug them back in.\<close>

definition sub :: "gtree \<Rightarrow> u64 \<Rightarrow> gtree" where
  "sub t i = hd (gt_at i t)"

lemma gt_at_singleton:
  "distinct (gt_preorder t) \<Longrightarrow> i \<in> set (gt_preorder t) \<Longrightarrow> \<exists>s. gt_at i t = [s] \<and> gt_id s = i"
proof (induction t)
  case (GNode j ts)
  show ?case
  proof (cases "j = i")
    case False
    then obtain u where u: "u \<in> set ts" "i \<in> set (gt_preorder u)" using GNode.prems(2) by auto
    from u(1) obtain us vs where ts: "ts = us @ u # vs" by (meson split_list)
    have d: "distinct (gt_preorder u)" using GNode.prems(1) ts by simp
    have away: "gt_at i w = []" if "w \<in> set us \<union> set vs" for w
      using GNode.prems(1) ts u(2) that by (intro gt_at_absent) auto
    have "concat (map (gt_at i) us) = []" "concat (map (gt_at i) vs) = []" using away by auto
    then have "gt_at i (GNode j ts) = gt_at i u" using ts False by (simp del: concat_eq_Nil_conv)
    then show ?thesis using GNode.IH [OF u(1) d u(2)] by simp
  qed simp
qed

lemma gt_at_sub:
  "distinct (gt_preorder t) \<Longrightarrow> i \<in> set (gt_preorder t) \<Longrightarrow> gt_at i t = [sub t i]"
  using gt_at_singleton by (fastforce simp: sub_def)

lemma sub_id: "distinct (gt_preorder t) \<Longrightarrow> i \<in> set (gt_preorder t) \<Longrightarrow> gt_id (sub t i) = i"
  using gt_at_singleton by (fastforce simp: sub_def)

lemma sub_child:
  assumes "distinct (gt_preorder (GNode j ts))" and "u \<in> set ts" and "i \<in> set (gt_preorder u)"
  shows "sub (GNode j ts) i = sub u i"
proof -
  from assms(2) obtain us vs where ts: "ts = us @ u # vs" by (meson split_list)
  have away: "gt_at i w = []" if "w \<in> set us \<union> set vs" for w
    using assms ts that by (intro gt_at_absent) auto
  have "concat (map (gt_at i) us) = []" "concat (map (gt_at i) vs) = []" using away by auto
  moreover have "j \<noteq> i" using assms by auto
  ultimately show ?thesis using ts by (simp add: sub_def del: concat_eq_Nil_conv)
qed

lemma sub_distinct: "distinct (gt_preorder t) \<Longrightarrow> i \<in> set (gt_preorder t) \<Longrightarrow> distinct (gt_preorder (sub t i))"
proof (induction t)
  case (GNode j ts)
  show ?case
  proof (cases "j = i")
    case False
    then obtain u where u: "u \<in> set ts" "i \<in> set (gt_preorder u)" using GNode.prems(2) by auto
    then have "distinct (gt_preorder u)" using GNode.prems(1) by (auto simp: distinct_concat_iff)
    with u GNode.IH show ?thesis using sub_child [OF GNode.prems(1) u] by simp
  qed (use GNode.prems in \<open>simp add: sub_def\<close>)
qed

lemma sub_held: "held g t \<Longrightarrow> distinct (gt_preorder t) \<Longrightarrow> i \<in> set (gt_preorder t) \<Longrightarrow> held g (sub t i)"
proof (induction t)
  case (GNode j ts)
  show ?case
  proof (cases "j = i")
    case False
    then obtain u where u: "u \<in> set ts" "i \<in> set (gt_preorder u)" using GNode.prems(3) by auto
    then have "distinct (gt_preorder u)" using GNode.prems(2) by (auto simp: distinct_concat_iff)
    with u GNode.IH GNode.prems(1) show ?thesis using sub_child [OF GNode.prems(2) u] by simp
  qed (use GNode.prems(1) in \<open>simp add: sub_def\<close>)
qed

lemma plug_carve: "distinct (gt_preorder t) \<Longrightarrow> plug (sub t) H (carve H t) = t"
proof (induction t)
  case (GNode j ts)
  show ?case
  proof (cases "j \<in> H")
    case False
    have "plug (sub (GNode j ts)) H (carve H u) = u" if u: "u \<in> set ts" for u
    proof -
      have d: "distinct (gt_preorder u)" using GNode.prems u by (auto simp: distinct_concat_iff)
      have "plug (sub (GNode j ts)) H w = plug (sub u) H w" if "set (gt_preorder w) \<subseteq> set (gt_preorder u)" for w
        using that by (induction w) (auto simp: sub_child [OF GNode.prems u])
      from this [OF carve_subset] show ?thesis using GNode.IH [OF u d] by simp
    qed
    then show ?thesis using False by (simp add: map_idI comp_def)
  qed (simp add: sub_def)
qed

lemma preorder_pieces:
  "distinct (gt_preorder t) \<Longrightarrow> gt_preorder t = concat (map (piece (sub t) H) (gt_preorder (carve H t)))"
  using plug_carve [of t H] plug_preorder [of H "carve H t" "sub t"] by simp

section \<open>Holding a tree with holes\<close>

text \<open>\<open>roots\<close> names the root that is plugged into a hole.\<close>

fun held_around :: "mounted_graph \<Rightarrow> (u64 \<Rightarrow> u64) \<Rightarrow> u64 set \<Rightarrow> gtree \<Rightarrow> bool" where
  "held_around g roots H (GNode i ts) \<longleftrightarrow>
     i \<in> H \<or>
     (\<exists>entry. mg_nodes g i = Some entry \<and> nd_id (mn_node entry) = i \<and>
        linked_children g i entry (map (roots \<circ> gt_id) ts)) \<and>
     (\<forall>t \<in> set ts. held_around g roots H t)"

lemma held_plug:
  "holey H t \<Longrightarrow> held g (plug m H t) \<longleftrightarrow>
     held_around g (\<lambda>i. if i \<in> H then gt_id (m i) else i) H t \<and> (\<forall>i \<in> H \<inter> set (gt_preorder t). held g (m i))"
proof (induction t)
  case (GNode i ts)
  show ?case
  proof (cases "i \<in> H")
    case False
    have ids: "map (gt_id \<circ> plug m H) ts = map ((\<lambda>i. if i \<in> H then gt_id (m i) else i) \<circ> gt_id) ts"
    proof (rule map_cong [OF refl])
      show "(gt_id \<circ> plug m H) t = ((\<lambda>i. if i \<in> H then gt_id (m i) else i) \<circ> gt_id) t" for t
        by (cases t) simp
    qed
    show ?thesis using False GNode by (auto simp: ids)
  qed (use GNode.prems in simp)
qed

text \<open>What a graph holds depends on the entries of the ids and the places of the children.\<close>

definition keeps :: "mounted_graph \<Rightarrow> mounted_graph \<Rightarrow> u64 \<Rightarrow> bool" where
  "keeps g g' i \<longleftrightarrow>
     map_option (\<lambda>entry. (mn_node entry, mn_keyed entry)) (mg_nodes g' i) =
     map_option (\<lambda>entry. (mn_node entry, mn_keyed entry)) (mg_nodes g i)"

lemma keeps_entry:
  "keeps g g' i \<Longrightarrow> mg_nodes g i = Some entry \<Longrightarrow>
   \<exists>entry'. mg_nodes g' i = Some entry' \<and> mn_node entry' = mn_node entry \<and> mn_keyed entry' = mn_keyed entry"
  by (auto simp: keeps_def)

lemma linked_keeps:
  assumes "linked_children g i entry cs" and "mn_node entry' = mn_node entry" and "mn_keyed entry' = mn_keyed entry"
    and "\<forall>c \<in> set cs. parent_location g' c = parent_location g c"
  shows "linked_children g' i entry' cs"
  using assms by (cases "mn_keyed entry") (auto simp: linked_children_def)

lemma held_keeps:
  "held g t \<Longrightarrow> \<forall>i \<in> set (gt_preorder t). keeps g g' i \<Longrightarrow>
   \<forall>i \<in> set (gt_preorder t) - {gt_id t}. parent_location g' i = parent_location g i \<Longrightarrow>
   distinct (gt_preorder t) \<Longrightarrow> held g' t"
proof (induction t)
  case (GNode i ts)
  from GNode.prems(1) obtain entry where entry: "mg_nodes g i = Some entry" "nd_id (mn_node entry) = i"
    "linked_children g i entry (map gt_id ts)" by auto
  have "keeps g g' i" using GNode.prems(2) by simp
  then obtain entry' where entry': "mg_nodes g' i = Some entry'" "mn_node entry' = mn_node entry"
    "mn_keyed entry' = mn_keyed entry" using keeps_entry entry(1) by blast
  have inside: "c \<in> set (gt_preorder (GNode i ts)) - {i}" if "t \<in> set ts" "c \<in> set (gt_preorder t)" for t c
    using that GNode.prems(4) by auto
  have "linked_children g' i entry' (map gt_id ts)"
    by (rule linked_keeps [OF entry(3) entry'(2,3)]) (use GNode.prems(3) inside in fastforce)
  moreover have "held g' t" if t: "t \<in> set ts" for t
  proof (rule GNode.IH [OF t])
    show "held g t" using GNode.prems(1) t by simp
    show "\<forall>i \<in> set (gt_preorder t). keeps g g' i" using GNode.prems(2) t by auto
    show "\<forall>i \<in> set (gt_preorder t) - {gt_id t}. parent_location g' i = parent_location g i"
      using GNode.prems(3) inside [OF t] by auto
    show "distinct (gt_preorder t)" using GNode.prems(4) t by (auto simp: distinct_concat_iff)
  qed
  ultimately show ?case using entry entry' by auto
qed

end
