(* ===== verification/ApplyLinks.thy ===== *)
theory ApplyLinks
  imports KeyedApply TreeSurgery
begin

text \<open>
  What the parts of an application do to the nodes of the graph: the retired region is the part
  of the old subtree above the frontier, and inserting a validated fragment links exactly the
  tree it spells.
\<close>

section \<open>The retired region\<close>

lemma retire_forest:
  "\<forall>t \<in> set ts. spread (children_of g) t \<Longrightarrow>
   retire_walk g F (map gt_id ts @ rest) found removed =
     retire_walk g F rest (found \<union> F \<inter> set (concat (map (gt_preorder \<circ> carve F) ts)))
       (removed @ filter (\<lambda>i. i \<notin> F) (concat (map (gt_preorder \<circ> carve F) ts)))"
proof (induction "length (concat (map gt_preorder ts))" arbitrary: ts found removed rest rule: less_induct)
  case less
  show ?case
  proof (cases ts)
    case (Cons t us)
    obtain i subs where t: "t = GNode i subs" by (cases t)
    show ?thesis
    proof (cases "i \<in> F")
      case True
      have "retire_walk g F (map gt_id ts @ rest) found removed =
          retire_walk g F (map gt_id us @ rest) (insert i found) removed"
        using Cons t True by (subst retire_walk.simps) simp
      also have "\<dots> = retire_walk g F rest
          (insert i found \<union> F \<inter> set (concat (map (gt_preorder \<circ> carve F) us)))
          (removed @ filter (\<lambda>i. i \<notin> F) (concat (map (gt_preorder \<circ> carve F) us)))"
        by (rule less.hyps) (use less.prems Cons t in auto)
      finally show ?thesis using Cons t True by (simp add: Un_assoc [symmetric] insert_commute)
    next
      case False
      have kids: "children_of g i = Some (map gt_id subs)" using less.prems Cons t by auto
      have "retire_walk g F (map gt_id ts @ rest) found removed =
          retire_walk g F (map gt_id (subs @ us) @ rest) found (removed @ [i])"
        using Cons t False kids by (subst retire_walk.simps) simp
      also have "\<dots> = retire_walk g F rest
          (found \<union> F \<inter> set (concat (map (gt_preorder \<circ> carve F) (subs @ us))))
          ((removed @ [i]) @ filter (\<lambda>i. i \<notin> F) (concat (map (gt_preorder \<circ> carve F) (subs @ us))))"
        by (rule less.hyps) (use less.prems Cons t in auto)
      finally show ?thesis using Cons t False by (simp add: comp_def)
    qed
  qed simp
qed

lemma retire_walk_tree:
  assumes "spread (children_of g) s"
  shows "retire_walk g F [gt_id s] {} [] =
    Some (F \<inter> set (gt_preorder (carve F s)), filter (\<lambda>i. i \<notin> F) (gt_preorder (carve F s)))"
  using retire_forest [of "[s]" g F "[]" "{}" "[]"] assms by (simp add: retire_walk.simps)

section \<open>Relinking\<close>

text \<open>A step that rewrites sizes, segments and parents only.\<close>

definition relinked :: "mounted_graph \<Rightarrow> mounted_graph \<Rightarrow> bool" where
  "relinked g g' \<longleftrightarrow> (\<exists>m. g' = g\<lparr>mg_nodes := m\<rparr>) \<and> (\<forall>i. keeps g g' i)"

lemma relinked_refl [simp]: "relinked g g"
proof -
  have "g = g\<lparr>mg_nodes := mg_nodes g\<rparr>" by simp
  then show ?thesis unfolding relinked_def keeps_def by blast
qed

lemma relinked_keeps: "relinked g g' \<Longrightarrow> keeps g g' i"
  by (simp add: relinked_def)

lemma relinked_trans:
  assumes "relinked g h" and "relinked h k"
  shows "relinked g k"
proof -
  obtain m m' where "h = g\<lparr>mg_nodes := m\<rparr>" "k = h\<lparr>mg_nodes := m'\<rparr>"
    using assms by (auto simp: relinked_def)
  then have "k = g\<lparr>mg_nodes := m'\<rparr>" by simp
  moreover have "keeps g k i" for i
    using relinked_keeps [OF assms(1), of i] relinked_keeps [OF assms(2), of i] by (simp add: keeps_def)
  ultimately show ?thesis by (auto simp: relinked_def)
qed

lemma relinked_fields:
  assumes "relinked g g'"
  shows "mg_root g' = mg_root g" "mg_max_node g' = mg_max_node g" "mg_max_instance g' = mg_max_instance g"
    "mg_boundaries g' = mg_boundaries g" "mg_labels g' = mg_labels g" "mg_owners g' = mg_owners g"
    "mg_dialog g' = mg_dialog g" "mg_hovered g' = mg_hovered g" "mg_popovers g' = mg_popovers g"
    "mg_keyboard g' = mg_keyboard g" "mg_canvas_sizes g' = mg_canvas_sizes g"
  using assms by (auto simp: relinked_def)

lemma keeps_domain: "keeps g g' i \<Longrightarrow> mg_nodes g' i = None \<longleftrightarrow> mg_nodes g i = None"
  by (auto simp: keeps_def)

lemma relinked_mounted: "relinked g g' \<Longrightarrow> mg_nodes g' i = None \<longleftrightarrow> mg_nodes g i = None"
  by (rule keeps_domain [OF relinked_keeps])

lemma keeps_node: "keeps g g' i \<Longrightarrow> mounted g' i = mounted g i"
  by (cases "mg_nodes g i"; cases "mg_nodes g' i") (auto simp: keeps_def mounted_def)

lemma relinked_node: "relinked g g' \<Longrightarrow> mounted g' i = mounted g i"
  by (rule keeps_node [OF relinked_keeps])

lemma keeps_children: "keeps g g' i \<Longrightarrow> children_of g' i = children_of g i"
  by (cases "mg_nodes g i"; cases "mg_nodes g' i") (simp_all add: keeps_def children_of_def split: option.split)

lemma relinked_children: "relinked g g' \<Longrightarrow> children_of g' i = children_of g i"
  by (rule keeps_children [OF relinked_keeps])

lemma keeps_place: "keeps g g' i \<Longrightarrow> child_place g' i k = child_place g i k"
  by (cases "mg_nodes g i"; cases "mg_nodes g' i") (simp_all add: keeps_def child_place_def)

lemma relinked_place: "relinked g g' \<Longrightarrow> child_place g' i k = child_place g i k"
  by (rule keeps_place [OF relinked_keeps])

text \<open>One entry is rewritten.\<close>

lemma on_entry_eq: "mg_nodes g i = Some entry \<Longrightarrow> on_entry i f g = Some (g\<lparr>mg_nodes := (mg_nodes g)(i \<mapsto> f entry)\<rparr>)"
  by (simp add: on_entry_def)

lemma on_entry_relinked:
  assumes "mg_nodes g i \<noteq> None" and "\<And>e. mn_node (f e) = mn_node e \<and> mn_keyed (f e) = mn_keyed e"
  shows "\<exists>g'. on_entry i f g = Some g' \<and> relinked g g' \<and>
    (\<forall>j. parent_location g' j = (if j = i then mn_parent (f (the (mg_nodes g i))) else parent_location g j))"
  using assms by (auto simp: on_entry_def relinked_def keeps_def parent_location_def)

text \<open>A rewrite that leaves the parents alone.\<close>

definition resized :: "mounted_graph \<Rightarrow> mounted_graph \<Rightarrow> bool" where
  "resized g g' \<longleftrightarrow> relinked g g' \<and> parent_location g' = parent_location g"

lemma resized_refl [simp]: "resized g g"
  by (simp add: resized_def)

lemma resized_trans: "resized g h \<Longrightarrow> resized h k \<Longrightarrow> resized g k"
  using relinked_trans by (auto simp: resized_def)

lemma on_entry_resized:
  assumes "mg_nodes g i \<noteq> None"
    and "\<And>e. mn_node (f e) = mn_node e \<and> mn_keyed (f e) = mn_keyed e \<and> mn_parent (f e) = mn_parent e"
  shows "\<exists>g'. on_entry i f g = Some g' \<and> resized g g'"
proof -
  have f: "mn_node (f e) = mn_node e \<and> mn_keyed (f e) = mn_keyed e" for e using assms(2) by blast
  from on_entry_relinked [OF assms(1) f] obtain g' where g': "on_entry i f g = Some g'" "relinked g g'"
    "\<forall>j. parent_location g' j = (if j = i then mn_parent (f (the (mg_nodes g i))) else parent_location g j)" by blast
  then have "parent_location g' = parent_location g"
    using assms by (auto simp: parent_location_def fun_eq_iff)
  with g' show ?thesis by (auto simp: resized_def)
qed

lemma set_segments_resized:
  "\<forall>(i, s) \<in> set segs. mg_nodes g i \<noteq> None \<Longrightarrow> \<exists>g'. set_segments segs g = Some g' \<and> resized g g'"
proof (induction segs arbitrary: g)
  case (Cons x segs)
  obtain i s where x: "x = (i, s)" by (cases x)
  obtain h where h: "on_entry i (\<lambda>entry. entry\<lparr>mn_segment := s\<rparr>) g = Some h" "resized g h"
    using on_entry_resized [of g i "\<lambda>entry. entry\<lparr>mn_segment := s\<rparr>"] Cons.prems x by auto
  have "\<forall>(i, s) \<in> set segs. mg_nodes h i \<noteq> None"
    using Cons.prems h(2) relinked_mounted [of g h] by (auto simp: resized_def)
  from Cons.IH [OF this] obtain g' where "set_segments segs h = Some g'" "resized h g'" by blast
  with h x show ?case using resized_trans by auto
qed simp

lemma segments_walk_mounted:
  "x \<in> set (segments_walk look index seen cs) \<Longrightarrow> look (fst x) \<noteq> None"
proof (induction cs arbitrary: index seen)
  case (Cons c cs)
  show ?case
  proof (cases "look c")
    case (Some n)
    with Cons show ?thesis by (cases "sibling_name (nd_kind n)") (auto simp: Let_def)
  qed (use Cons in auto)
qed simp

lemma refresh_resized:
  assumes "mg_nodes g i = None \<or> children_of g i \<noteq> None"
  shows "\<exists>g'. refresh_child_segments i g = Some g' \<and> resized g g'"
proof (cases "mg_nodes g i")
  case (Some entry)
  with assms obtain cs where "child_segments g i = Some (segments_walk (mounted g) 0 (\<lambda>_. 0) cs)"
    by (auto simp: child_segments_def mounted_def)
  moreover have "\<forall>(c, s) \<in> set (segments_walk (mounted g) 0 (\<lambda>_. 0) cs). mg_nodes g c \<noteq> None"
    using segments_walk_mounted [of _ "mounted g"] by (fastforce simp: mounted_def)
  ultimately show ?thesis using set_segments_resized by (auto simp: refresh_child_segments_def)
qed (simp add: refresh_child_segments_def child_segments_def mounted_def)

section \<open>Linking the inserted nodes\<close>

lemma link_children_places:
  "set cs \<subseteq> dom (mg_nodes g) \<Longrightarrow> distinct cs \<Longrightarrow> \<forall>k < length cs. child_place g i (p + k) \<noteq> None \<Longrightarrow>
   \<exists>g'. link_children i p cs g = Some g' \<and> relinked g g' \<and>
     (\<forall>k < length cs. parent_location g' (cs ! k) = child_place g i (p + k)) \<and>
     (\<forall>c. c \<notin> set cs \<longrightarrow> parent_location g' c = parent_location g c)"
proof (induction cs arbitrary: p g)
  case (Cons c cs)
  obtain location where l: "child_place g i p = Some location" using Cons.prems(3) by fastforce
  have c: "mg_nodes g c \<noteq> None" using Cons.prems(1) by auto
  from on_entry_relinked [OF c, of "\<lambda>entry. entry\<lparr>mn_parent := Some location\<rparr>"]
  obtain h where h: "on_entry c (\<lambda>entry. entry\<lparr>mn_parent := Some location\<rparr>) g = Some h" "relinked g h"
    "\<forall>j. parent_location h j = (if j = c then Some location else parent_location g j)" by auto
  have "set cs \<subseteq> dom (mg_nodes h)"
  proof
    fix x assume "x \<in> set cs"
    then have "mg_nodes g x \<noteq> None" using Cons.prems(1) by auto
    then show "x \<in> dom (mg_nodes h)" using relinked_mounted [OF h(2), of x] by auto
  qed
  moreover have "\<forall>k < length cs. child_place h i (Suc p + k) \<noteq> None"
    using Cons.prems(3) relinked_place [OF h(2)] by fastforce
  ultimately obtain g' where g': "link_children i (Suc p) cs h = Some g'" "relinked h g'"
    "\<forall>k < length cs. parent_location g' (cs ! k) = child_place h i (Suc p + k)"
    "\<forall>x. x \<notin> set cs \<longrightarrow> parent_location g' x = parent_location h x"
    using Cons.IH [of h "Suc p"] Cons.prems(2) by auto
  have "parent_location g' ((c # cs) ! k) = child_place g i (p + k)" if "k < length (c # cs)" for k
    using that g'(3,4) h(3) l relinked_place [OF h(2)] Cons.prems(2) by (cases k) auto
  moreover have "parent_location g' x = parent_location g x" if "x \<notin> set (c # cs)" for x
    using that g'(4) h(3) by simp
  ultimately show ?case using l h(1) g'(1) relinked_trans [OF h(2) g'(2)] by simp
qed simp

definition linkable :: "mounted_graph \<Rightarrow> u64 \<Rightarrow> bool" where
  "linkable g i \<longleftrightarrow>
     (\<exists>n. mounted g i = Some n \<and> set (nd_children n) \<subseteq> dom (mg_nodes g) \<and> children_of g i \<noteq> None \<and>
       (\<forall>k < length (nd_children n). child_place g i k \<noteq> None))"

definition kids_of :: "mounted_graph \<Rightarrow> u64 \<Rightarrow> u64 list" where
  "kids_of g i = (case mounted g i of None \<Rightarrow> [] | Some n \<Rightarrow> nd_children n)"

lemma relinked_dom: "relinked g g' \<Longrightarrow> dom (mg_nodes g') = dom (mg_nodes g)"
  by (rule set_eqI) (simp add: domIff relinked_mounted)

lemma relinked_linkable: "relinked g g' \<Longrightarrow> linkable g' i = linkable g i"
  by (simp add: linkable_def relinked_node relinked_dom relinked_children relinked_place)

lemma relinked_kids: "relinked g g' \<Longrightarrow> kids_of g' i = kids_of g i"
  by (simp add: kids_of_def relinked_node)

lemma child_sizes_total: "set cs \<subseteq> dom (mg_nodes g) \<Longrightarrow> child_sizes g cs \<noteq> None"
  by (induction cs) auto

lemma link_node_places:
  assumes "linkable g i" and "distinct (kids_of g i)"
  shows "\<exists>g'. link_node i g = Some g' \<and> relinked g g' \<and>
    (\<forall>k < length (kids_of g i). parent_location g' (kids_of g i ! k) = child_place g i k) \<and>
    (\<forall>c. c \<notin> set (kids_of g i) \<longrightarrow> parent_location g' c = parent_location g c)"
proof -
  from assms(1) obtain n entry where n: "mounted g i = Some n" "mg_nodes g i = Some entry" "n = mn_node entry"
    "set (nd_children n) \<subseteq> dom (mg_nodes g)" "children_of g i \<noteq> None"
    "\<forall>k < length (nd_children n). child_place g i k \<noteq> None"
    by (auto simp: linkable_def mounted_def)
  obtain below where below: "child_sizes g (nd_children n) = Some below"
    using child_sizes_total n(4) by blast
  obtain h1 where h1: "on_entry i (\<lambda>entry. entry\<lparr>mn_size := 1 + below\<rparr>) g = Some h1" "resized g h1"
    using on_entry_resized [of g i "\<lambda>entry. entry\<lparr>mn_size := 1 + below\<rparr>"] n(2) by auto
  have re1: "relinked g h1" using h1(2) by (simp add: resized_def)
  have kids: "kids_of g i = nd_children n" using n(1) by (simp add: kids_of_def)
  have "set (nd_children n) \<subseteq> dom (mg_nodes h1)" using n(4) relinked_dom [OF re1] by simp
  moreover have "\<forall>k < length (nd_children n). child_place h1 i (0 + k) \<noteq> None"
    using n(6) relinked_place [OF re1] by simp
  ultimately obtain h2 where h2: "link_children i 0 (nd_children n) h1 = Some h2" "relinked h1 h2"
    "\<forall>k < length (nd_children n). parent_location h2 (nd_children n ! k) = child_place h1 i (0 + k)"
    "\<forall>c. c \<notin> set (nd_children n) \<longrightarrow> parent_location h2 c = parent_location h1 c"
    using link_children_places [of "nd_children n" h1 i 0] assms(2) kids by auto
  have re2: "relinked g h2" by (rule relinked_trans [OF re1 h2(2)])
  obtain h3 where h3: "refresh_child_segments i h2 = Some h3" "resized h2 h3"
    using refresh_resized [of h2 i] n(5) relinked_children [OF re2] by auto
  have "link_node i g = Some h3"
    unfolding link_node_def using n(2,3) below h1(1) h2(1) h3(1) by simp
  moreover have "relinked g h3" using relinked_trans [OF re2] h3(2) by (simp add: resized_def)
  moreover have "parent_location h3 = parent_location h2" "parent_location h1 = parent_location g"
    using h1(2) h3(2) by (simp_all add: resized_def)
  ultimately show ?thesis using h2(3,4) kids relinked_place [OF re1] by auto
qed

lemma link_nodes_places:
  "\<forall>i \<in> set ids. linkable g i \<Longrightarrow> distinct (concat (map (kids_of g) ids)) \<Longrightarrow>
   \<exists>g'. link_nodes ids g = Some g' \<and> relinked g g' \<and>
     (\<forall>i \<in> set ids. \<forall>k < length (kids_of g i). parent_location g' (kids_of g i ! k) = child_place g i k) \<and>
     (\<forall>c. c \<notin> set (concat (map (kids_of g) ids)) \<longrightarrow> parent_location g' c = parent_location g c)"
proof (induction ids arbitrary: g)
  case (Cons i ids)
  obtain h where h: "link_node i g = Some h" "relinked g h"
    "\<forall>k < length (kids_of g i). parent_location h (kids_of g i ! k) = child_place g i k"
    "\<forall>c. c \<notin> set (kids_of g i) \<longrightarrow> parent_location h c = parent_location g c"
    using link_node_places [of g i] Cons.prems by auto
  note same = relinked_linkable [OF h(2)] relinked_kids [OF h(2)] relinked_place [OF h(2)]
  obtain g' where g': "link_nodes ids h = Some g'" "relinked h g'"
    "\<forall>i \<in> set ids. \<forall>k < length (kids_of g i). parent_location g' (kids_of g i ! k) = child_place g i k"
    "\<forall>c. c \<notin> set (concat (map (kids_of g) ids)) \<longrightarrow> parent_location g' c = parent_location h c"
    using Cons.IH [of h] Cons.prems by (auto simp: same cong: map_cong)
  have apart: "c \<notin> set (concat (map (kids_of g) ids))" if "c \<in> set (kids_of g i)" for c
    using Cons.prems(2) that by auto
  have "parent_location g' (kids_of g i ! k) = child_place g i k" if "k < length (kids_of g i)" for k
    using that apart [of "kids_of g i ! k"] h(3) g'(4) by simp
  moreover have "parent_location g' c = parent_location g c" if "c \<notin> set (concat (map (kids_of g) (i # ids)))" for c
    using that h(4) g'(4) by simp
  ultimately show ?case using h(1) g'(1,3) relinked_trans [OF h(2) g'(2)] by auto
qed simp

end
