(* ===== verification/ApplyIndex.thy ===== *)
theory ApplyIndex
  imports ApplyLinks FragmentAccept
begin

text \<open>
  The indexes of the graph: component instances, text inputs by owner and label, and the modal
  dialog each name exactly the mounted nodes of that kind. Retiring and registering nodes keep
  them exact.
\<close>

section \<open>Exact indexes\<close>

definition kind_at :: "mounted_graph \<Rightarrow> u64 \<Rightarrow> (node_kind \<Rightarrow> bool) \<Rightarrow> bool" where
  "kind_at g nid P \<longleftrightarrow> (\<exists>kind. mounted_kind g nid = Some kind \<and> P kind)"

definition indexed :: "mounted_graph \<Rightarrow> bool" where
  "indexed g \<longleftrightarrow>
     (\<forall>i nid. mg_boundaries g i = Some nid \<longleftrightarrow> mounted_kind g nid = Some (Boundary i)) \<and>
     (\<forall>nid. mg_dialog g = Some nid \<longleftrightarrow> kind_at g nid is_dialog) \<and>
     (\<forall>nid. mg_owners g nid \<noteq> None \<longleftrightarrow> kind_at g nid (\<lambda>kind. input_label kind \<noteq> None)) \<and>
     (\<forall>owner label nid. mg_labels g (owner, label) = Some nid \<longleftrightarrow>
        mg_owners g nid = Some owner \<and> kind_at g nid (\<lambda>kind. input_label kind = Some label))"

lemma indexedD:
  assumes "indexed g"
  shows "mg_boundaries g i = Some nid \<longleftrightarrow> mounted_kind g nid = Some (Boundary i)"
    "mg_dialog g = Some nid \<longleftrightarrow> kind_at g nid is_dialog"
    "mg_owners g nid \<noteq> None \<longleftrightarrow> kind_at g nid (\<lambda>kind. input_label kind \<noteq> None)"
    "mg_labels g (owner, label) = Some nid \<longleftrightarrow>
       mg_owners g nid = Some owner \<and> kind_at g nid (\<lambda>kind. input_label kind = Some label)"
  using assms by (simp_all add: indexed_def)

text \<open>Ids and instances are issued in increasing order.\<close>

definition bounded :: "mounted_graph \<Rightarrow> bool" where
  "bounded g \<longleftrightarrow> (\<forall>nid \<in> dom (mg_nodes g). nid \<le> mg_max_node g) \<and>
     (\<forall>i \<in> dom (mg_boundaries g). instance_spent g i)"

lemma indexed_kinds:
  assumes "indexed g" and "\<And>i. mounted_kind g' i = mounted_kind g i"
    and "mg_boundaries g' = mg_boundaries g" "mg_labels g' = mg_labels g" "mg_owners g' = mg_owners g"
    "mg_dialog g' = mg_dialog g"
  shows "indexed g'"
  using assms by (simp add: indexed_def kind_at_def)

lemma unregister_fields:
  "mg_nodes (unregister nid kind g) = mg_nodes g" "mg_root (unregister nid kind g) = mg_root g"
  "mg_max_node (unregister nid kind g) = mg_max_node g"
  "mg_max_instance (unregister nid kind g) = mg_max_instance g"
  "mg_keyboard (unregister nid kind g) = mg_keyboard g"
  "mg_boundaries (unregister nid kind g) =
     (case boundary_instance kind of None \<Rightarrow> mg_boundaries g | Some i \<Rightarrow> (mg_boundaries g)(i := None))"
  "mg_dialog (unregister nid kind g) = (if is_dialog kind then None else mg_dialog g)"
  "mg_owners (unregister nid kind g) =
     (if input_label kind = None then mg_owners g else (mg_owners g)(nid := None))"
  "mg_labels (unregister nid kind g) =
     (case input_label kind of None \<Rightarrow> mg_labels g
      | Some label \<Rightarrow> (mg_labels g)((case mg_owners g nid of Some owner \<Rightarrow> owner | None \<Rightarrow> None, label) := None))"
  by (cases kind; simp add: unregister_def Let_def)+

definition retired :: "u64 \<Rightarrow> mounted_node \<Rightarrow> mounted_graph \<Rightarrow> mounted_graph" where
  "retired nid entry g = unregister nid (nd_kind (mn_node entry)) (g\<lparr>mg_nodes := (mg_nodes g)(nid := None)\<rparr>)"

lemma retired_nodes [simp]: "mg_nodes (retired nid entry g) = (mg_nodes g)(nid := None)"
  by (simp add: retired_def unregister_fields)

lemma retired_kind: "mounted_kind (retired nid entry g) j = (if j = nid then None else mounted_kind g j)"
  by (simp add: mounted_kind_def mounted_def)

lemma retired_indexed:
  assumes ix: "indexed g" and entry: "mg_nodes g nid = Some entry"
  shows "indexed (retired nid entry g)"
proof -
  define kind where "kind = nd_kind (mn_node entry)"
  have here: "mounted_kind g nid = Some kind"
    using entry by (simp add: mounted_kind_def mounted_def kind_def)
  have fields: "mg_boundaries (retired nid entry g) =
      (case boundary_instance kind of None \<Rightarrow> mg_boundaries g | Some i \<Rightarrow> (mg_boundaries g)(i := None))"
    "mg_dialog (retired nid entry g) = (if is_dialog kind then None else mg_dialog g)"
    "mg_owners (retired nid entry g) =
       (if input_label kind = None then mg_owners g else (mg_owners g)(nid := None))"
    "mg_labels (retired nid entry g) =
       (case input_label kind of None \<Rightarrow> mg_labels g
        | Some label \<Rightarrow> (mg_labels g)((case mg_owners g nid of Some owner \<Rightarrow> owner | None \<Rightarrow> None, label) := None))"
    by (simp_all add: retired_def unregister_fields kind_def split: option.split)
  have "mg_boundaries (retired nid entry g) i = Some j \<longleftrightarrow> mounted_kind (retired nid entry g) j = Some (Boundary i)" for i j
    using indexedD(1) [OF ix, of i j] indexedD(1) [OF ix, of i nid] here
    by (cases "boundary_instance kind") (auto simp: fields retired_kind)
  moreover have "mg_dialog (retired nid entry g) = Some j \<longleftrightarrow> kind_at (retired nid entry g) j is_dialog" for j
    using indexedD(2) [OF ix, of j] indexedD(2) [OF ix, of nid] here by (auto simp: fields retired_kind kind_at_def)
  moreover have "mg_owners (retired nid entry g) j \<noteq> None \<longleftrightarrow>
      kind_at (retired nid entry g) j (\<lambda>kind. input_label kind \<noteq> None)" for j
    using ix here by (auto simp: fields retired_kind indexed_def kind_at_def)
  moreover have "mg_labels (retired nid entry g) (owner, label) = Some j \<longleftrightarrow>
      mg_owners (retired nid entry g) j = Some owner \<and>
      kind_at (retired nid entry g) j (\<lambda>kind. input_label kind = Some label)" for owner label j
  proof (cases "input_label kind")
    case None
    then show ?thesis using ix here by (auto simp: fields retired_kind indexed_def kind_at_def)
  next
    case (Some l)
    then have "mg_owners g nid \<noteq> None" using ix here by (auto simp: indexed_def kind_at_def)
    then obtain own where own: "mg_owners g nid = Some own" by blast
    have mine: "mg_labels g (own, l) = Some nid" using ix here own Some by (simp add: indexed_def kind_at_def)
    have labels: "mg_labels g (owner, label) = Some j \<longleftrightarrow>
        mg_owners g j = Some owner \<and> kind_at g j (\<lambda>kind. input_label kind = Some label)" for owner label j
      using ix by (simp add: indexed_def)
    show ?thesis
      using mine own labels [of owner label j] labels [of owner label nid] here Some
      by (auto simp: fields retired_kind kind_at_def)
  qed
  ultimately show ?thesis by (simp add: indexed_def)
qed

lemma retired_bounded: "bounded g \<Longrightarrow> bounded (retired nid entry g)"
  by (auto simp: bounded_def retired_def unregister_fields instance_spent_def split: option.splits if_splits)

lemma retire_nodes_spec:
  "distinct ids \<Longrightarrow> set ids \<subseteq> dom (mg_nodes g) \<Longrightarrow>
   \<exists>out g'. retire_nodes ids acc g = Some (out, g') \<and>
     mg_nodes g' = mg_nodes g |` (- set ids) \<and> mg_root g' = mg_root g \<and> mg_max_node g' = mg_max_node g \<and>
     (\<forall>i. i \<notin> set ids \<longrightarrow> mg_owners g' i = mg_owners g i) \<and>
     (indexed g \<longrightarrow> indexed g') \<and> (bounded g \<longrightarrow> bounded g')"
proof (induction ids arbitrary: acc g)
  case Nil
  have "mg_nodes g |` UNIV = mg_nodes g" by (simp add: restrict_map_def)
  then show ?case by simp
next
  case (Cons nid ids)
  then obtain entry where entry: "mg_nodes g nid = Some entry" by auto
  have inside: "set ids \<subseteq> dom (mg_nodes (retired nid entry g))" using Cons.prems by auto
  have step: "retire_nodes (nid # ids) acc g =
      retire_nodes ids (case boundary_instance (nd_kind (mn_node entry)) of Some i \<Rightarrow> acc @ [i] | None \<Rightarrow> acc)
        (retired nid entry g)"
    using entry by (simp add: retired_def Let_def)
  have same: "mg_root (retired nid entry g) = mg_root g" "mg_max_node (retired nid entry g) = mg_max_node g"
    "i \<noteq> nid \<Longrightarrow> mg_owners (retired nid entry g) i = mg_owners g i" for i
    by (simp_all add: retired_def unregister_fields)
  have nodes: "(mg_nodes g)(nid := None) |` (- set ids) = mg_nodes g |` (- set (nid # ids))"
    by (auto simp: restrict_map_def fun_eq_iff)
  obtain out g' where out: "retire_nodes (nid # ids) acc g = Some (out, g')"
    and g': "mg_nodes g' = mg_nodes (retired nid entry g) |` (- set ids)"
      "mg_root g' = mg_root (retired nid entry g)" "mg_max_node g' = mg_max_node (retired nid entry g)"
      "\<forall>i. i \<notin> set ids \<longrightarrow> mg_owners g' i = mg_owners (retired nid entry g) i"
      "indexed (retired nid entry g) \<longrightarrow> indexed g'" "bounded (retired nid entry g) \<longrightarrow> bounded g'"
    using Cons.IH [OF _ inside, of "case boundary_instance (nd_kind (mn_node entry)) of Some i \<Rightarrow> acc @ [i] | None \<Rightarrow> acc"]
      Cons.prems(1) unfolding step distinct.simps by blast
  have "mg_nodes g' = mg_nodes g |` (- set (nid # ids))"
    unfolding g'(1) retired_nodes by (rule nodes)
  then show ?case
    using out g'(2-6) same retired_indexed [OF _ entry] retired_bounded [of g nid entry] by auto
qed

section \<open>Registering fresh nodes\<close>

definition input_names :: "(u64 \<rightharpoonup> u64 option) \<Rightarrow> node list \<Rightarrow> (u64 option \<times> string) list" where
  "input_names owners nodes =
     concat (map (\<lambda>n. case input_label (nd_kind n) of None \<Rightarrow> [] | Some label \<Rightarrow> [(the (owners (nd_id n)), label)]) nodes)"

text \<open>No mounted node holds what the fresh nodes claim.\<close>

definition unclaimed :: "(u64 \<rightharpoonup> u64 option) \<Rightarrow> node list \<Rightarrow> mounted_graph \<Rightarrow> bool" where
  "unclaimed owners nodes g \<longleftrightarrow>
     distinct (map nd_id nodes) \<and> nd_id ` set nodes \<inter> dom (mg_nodes g) = {} \<and>
     (\<forall>n \<in> set nodes. input_label (nd_kind n) \<noteq> None \<longrightarrow> owners (nd_id n) \<noteq> None) \<and>
     distinct (instances nodes) \<and> set (instances nodes) \<inter> dom (mg_boundaries g) = {} \<and>
     dialogs nodes \<le> 1 \<and> (0 < dialogs nodes \<longrightarrow> mg_dialog g = None) \<and>
     distinct (input_names owners nodes) \<and> set (input_names owners nodes) \<inter> dom (mg_labels g) = {}"

definition registered :: "(u64 \<rightharpoonup> u64 option) \<Rightarrow> node \<Rightarrow> mounted_graph \<Rightarrow> mounted_graph option" where
  "registered owners n g =
     map_option (\<lambda>g. g\<lparr>mg_nodes := (mg_nodes g)(nd_id n \<mapsto> unlinked n)\<rparr>)
       (register_kind owners (nd_id n) (nd_kind n) (g\<lparr>mg_max_node := max (mg_max_node g) (nd_id n)\<rparr>))"

lemma register_nodes_Cons:
  "register_nodes owners (n # rest) g = Option.bind (registered owners n g) (register_nodes owners rest)"
  by (cases "register_kind owners (nd_id n) (nd_kind n) (g\<lparr>mg_max_node := max (mg_max_node g) (nd_id n)\<rparr>)")
    (simp_all add: registered_def)

lemma registered_fields:
  assumes "registered owners n g = Some g'"
  shows "mg_nodes g' = (mg_nodes g)(nd_id n \<mapsto> unlinked n)" "mg_root g' = mg_root g"
    "mg_max_node g' = max (mg_max_node g) (nd_id n)"
    "mg_max_instance g' = (case boundary_instance (nd_kind n) of None \<Rightarrow> mg_max_instance g
       | Some i \<Rightarrow> newest_instance i (mg_max_instance g))"
    "mg_boundaries g' = (case boundary_instance (nd_kind n) of None \<Rightarrow> mg_boundaries g
       | Some i \<Rightarrow> (mg_boundaries g)(i \<mapsto> nd_id n))"
    "mg_dialog g' = (if is_dialog (nd_kind n) then Some (nd_id n) else mg_dialog g)"
    "mg_owners g' = (if input_label (nd_kind n) = None then mg_owners g
       else (mg_owners g)(nd_id n := owners (nd_id n)))"
    "mg_labels g' = (case input_label (nd_kind n) of None \<Rightarrow> mg_labels g
       | Some label \<Rightarrow> (mg_labels g)((the (owners (nd_id n)), label) \<mapsto> nd_id n))"
  using assms by (cases "nd_kind n"; auto simp: registered_def register_kind_def on_keyboard_def)+

lemma registered_total:
  "input_label (nd_kind n) \<noteq> None \<longrightarrow> owners (nd_id n) \<noteq> None \<Longrightarrow> \<exists>g'. registered owners n g = Some g'"
  by (cases "nd_kind n") (auto simp: registered_def register_kind_def)

lemma unclaimed_Cons:
  assumes "unclaimed owners (n # rest) g" and "registered owners n g = Some g'"
  shows "unclaimed owners rest g'"
proof -
  note f = registered_fields [OF assms(2)]
  show ?thesis
    using assms(1) unfolding unclaimed_def f
    by (cases "nd_kind n") (auto simp: input_names_def)
qed

lemma registered_indexed:
  assumes ix: "indexed g" and free: "unclaimed owners (n # rest) g" and reg: "registered owners n g = Some g'"
  shows "indexed g'"
proof -
  note f = registered_fields [OF reg]
  have new: "mg_nodes g (nd_id n) = None" using free by (auto simp: unclaimed_def)
  have kinds: "mounted_kind g' j = (if j = nd_id n then Some (nd_kind n) else mounted_kind g j)" for j
    by (simp add: mounted_kind_def mounted_def f(1) unlinked_def)
  have absent: "mounted_kind g (nd_id n) = None" using new by (simp add: mounted_kind_def mounted_def)
  have b: "mg_boundaries g' i = Some j \<longleftrightarrow> mounted_kind g' j = Some (Boundary i)" for i j
  proof (cases "boundary_instance (nd_kind n)")
    case (Some k)
    then have "mg_boundaries g k = None" using free by (auto simp: unclaimed_def)
    moreover have all: "mg_boundaries g i = Some j \<longleftrightarrow> mounted_kind g j = Some (Boundary i)" for i j
      using ix by (simp add: indexed_def)
    ultimately have "mounted_kind g j \<noteq> Some (Boundary k)" for j by (metis option.distinct(1))
    then show ?thesis using Some all absent by (auto simp: f(5) kinds)
  qed (use ix absent in \<open>auto simp: f(5) kinds indexed_def\<close>)
  have d: "mg_dialog g' = Some j \<longleftrightarrow> kind_at g' j is_dialog" for j
  proof (cases "is_dialog (nd_kind n)")
    case True
    then have "mg_dialog g = None" using free by (auto simp: unclaimed_def)
    then have "\<not> kind_at g j is_dialog" for j using ix by (auto simp: indexed_def)
    then show ?thesis using True by (auto simp: f(6) kinds kind_at_def)
  qed (use ix absent in \<open>auto simp: f(6) kinds indexed_def kind_at_def\<close>)
  have o: "mg_owners g' j \<noteq> None \<longleftrightarrow> kind_at g' j (\<lambda>kind. input_label kind \<noteq> None)" for j
    using ix absent free by (auto simp: f(7) kinds indexed_def kind_at_def unclaimed_def)
  have l: "mg_labels g' (owner, label) = Some j \<longleftrightarrow>
      mg_owners g' j = Some owner \<and> kind_at g' j (\<lambda>kind. input_label kind = Some label)" for owner label j
  proof (cases "input_label (nd_kind n)")
    case None
    then show ?thesis using ix absent by (auto simp: f(7,8) kinds indexed_def kind_at_def)
  next
    case (Some mine)
    then obtain own where own: "owners (nd_id n) = Some own" using free by (auto simp: unclaimed_def)
    then have "mg_labels g (own, mine) = None" using free Some by (auto simp: unclaimed_def input_names_def)
    then have "\<not> (mg_owners g j = Some own \<and> kind_at g j (\<lambda>kind. input_label kind = Some mine))" for j
      using indexedD(4) [OF ix, of own mine j] by simp
    then show ?thesis
      using Some own ix absent by (auto simp: f(7,8) kinds indexed_def kind_at_def)
  qed
  show ?thesis unfolding indexed_def using b d o l by blast
qed

lemma spent_newest: "instance_spent g i \<Longrightarrow> mg_max_instance g' = newest_instance k (mg_max_instance g) \<Longrightarrow> instance_spent g' i"
  by (auto simp: instance_spent_def newest_instance_def max_def split: option.splits)

lemma registered_bounded:
  assumes "bounded g" and reg: "registered owners n g = Some g'"
  shows "bounded g'"
proof -
  note f = registered_fields [OF reg]
  have "nid \<le> mg_max_node g'" if "nid \<in> dom (mg_nodes g')" for nid
  proof (cases "nid = nd_id n")
    case False
    then have "nid \<le> mg_max_node g" using that assms(1) by (auto simp: f(1) bounded_def)
    then show ?thesis by (simp add: f(3) max.coboundedI1)
  qed (simp add: f(3))
  moreover have "instance_spent g' i" if "i \<in> dom (mg_boundaries g')" for i
  proof (cases "boundary_instance (nd_kind n)")
    case (Some k)
    then show ?thesis
      using that assms(1) f(4) spent_newest [of g i g' k]
      by (auto simp: f(5) bounded_def instance_spent_def newest_instance_def max_def split: if_splits option.splits)
  qed (use that assms(1) f(4) in \<open>auto simp: f(5) bounded_def instance_spent_def\<close>)
  ultimately show ?thesis by (simp add: bounded_def)
qed

lemma register_nodes_spec:
  "unclaimed owners nodes g \<Longrightarrow>
   \<exists>g'. register_nodes owners nodes g = Some g' \<and>
     (\<forall>i. mg_nodes g' i = (case fresh_node nodes i of Some n \<Rightarrow> Some (unlinked n) | None \<Rightarrow> mg_nodes g i)) \<and>
     mg_root g' = mg_root g \<and> mg_max_node g \<le> mg_max_node g' \<and>
     (indexed g \<longrightarrow> indexed g') \<and> (bounded g \<longrightarrow> bounded g')"
proof (induction nodes arbitrary: g)
  case (Cons n nodes)
  have "input_label (nd_kind n) \<noteq> None \<longrightarrow> owners (nd_id n) \<noteq> None"
    using Cons.prems by (simp add: unclaimed_def)
  then obtain h where h: "registered owners n g = Some h" using registered_total by blast
  note f = registered_fields [OF h]
  obtain g' where g': "register_nodes owners nodes h = Some g'"
    "\<forall>i. mg_nodes g' i = (case fresh_node nodes i of Some n \<Rightarrow> Some (unlinked n) | None \<Rightarrow> mg_nodes h i)"
    "mg_root g' = mg_root h" "mg_max_node h \<le> mg_max_node g'"
    "indexed h \<longrightarrow> indexed g'" "bounded h \<longrightarrow> bounded g'"
    using Cons.IH [OF unclaimed_Cons [OF Cons.prems h]] by blast
  have "fresh_node nodes (nd_id n) = None"
    using Cons.prems by (simp add: fresh_node_None unclaimed_def)
  then have "mg_nodes g' i = (case fresh_node (n # nodes) i of Some n \<Rightarrow> Some (unlinked n) | None \<Rightarrow> mg_nodes g i)" for i
    using g'(2) f(1) by (cases "nd_id n = i") (simp_all add: fresh_node_def split: option.splits)
  moreover have "mg_max_node g \<le> mg_max_node g'" using g'(4) f(3) by simp
  ultimately show ?case
    using g' h f(2) registered_indexed [OF _ Cons.prems h] registered_bounded [OF _ h]
    unfolding register_nodes_Cons by auto
qed (simp add: fresh_node_def)

end
