(* ===== verification/ApplyInsert.thy ===== *)
theory ApplyInsert
  imports ApplyIndex KeyedAtomic
begin

text \<open>
  Inserting a validated fragment: the fresh nodes are registered, the keyed columns seeded, and
  the links set, so that the graph holds the tree that the fragment spells.
\<close>

section \<open>Seeding keyed columns\<close>

text \<open>
  The seed of a staged keyed column: as many distinct keys as children, each child a boundary.
  The bridge stages columns so; validation does not check it, and seeding panics otherwise.
\<close>

definition seedable :: "(u64 \<rightharpoonup> node) \<Rightarrow> node \<Rightarrow> bool" where
  "seedable found n \<longleftrightarrow>
     (case keyed_seed (nd_kind n) of
        None \<Rightarrow> True
      | Some (revision, keys) \<Rightarrow>
          length keys = length (nd_children n) \<and> distinct keys \<and>
          (\<forall>c \<in> set (nd_children n). \<exists>m i. found c = Some m \<and> nd_kind m = Boundary i))"

definition seeded :: "node \<Rightarrow> keyed_child_order option \<Rightarrow> bool" where
  "seeded n seed \<longleftrightarrow>
     (case keyed_seed (nd_kind n) of
        None \<Rightarrow> seed = None
      | Some (revision, keys) \<Rightarrow>
          (\<exists>order items. seed = Some order \<and> represents order items \<and> map (fst \<circ> snd) items = nd_children n))"

lemma seed_entries_spec:
  "length keys = length cs \<Longrightarrow> \<forall>c \<in> set cs. \<exists>m i. mounted g c = Some m \<and> nd_kind m = Boundary i \<Longrightarrow>
   \<exists>entries. seed_entries g (zip keys cs) = Some entries \<and> map fst entries = keys \<and> map (fst \<circ> snd) entries = cs"
proof (induction cs arbitrary: keys)
  case (Cons c cs)
  from Cons.prems(1) obtain k ks where keys: "keys = k # ks" by (cases keys) auto
  obtain m i where "mounted g c = Some m" "nd_kind m = Boundary i" using Cons.prems(2) by auto
  moreover obtain entries where "seed_entries g (zip ks cs) = Some entries" "map fst entries = ks"
    "map (fst \<circ> snd) entries = cs" using Cons.IH [of ks] Cons.prems keys by auto
  ultimately show ?case using keys by (simp add: mounted_kind_def comp_def)
qed simp

lemma seed_column_step:
  assumes "mg_nodes g nid = Some entry" and "mn_keyed entry = None" and "seedable (mounted g) (mn_node entry)"
  shows "\<exists>seed. seeded (mn_node entry) seed \<and>
    seed_columns (nid # rest) g = seed_columns rest (g\<lparr>mg_nodes := (mg_nodes g)(nid \<mapsto> entry\<lparr>mn_keyed := seed\<rparr>)\<rparr>)"
proof (cases "keyed_seed (nd_kind (mn_node entry))")
  case None
  have "(mg_nodes g)(nid \<mapsto> entry\<lparr>mn_keyed := None\<rparr>) = mg_nodes g"
    using assms(1,2) by (auto simp: fun_eq_iff)
  with None assms show ?thesis by (intro exI [of _ None]) (simp add: seeded_def)
next
  case (Some seed)
  obtain revision keys where seed: "seed = (revision, keys)" by (cases seed)
  from Some seed assms(3) have keys: "length keys = length (nd_children (mn_node entry))" "distinct keys"
    and kids: "\<forall>c \<in> set (nd_children (mn_node entry)). \<exists>m i. mounted g c = Some m \<and> nd_kind m = Boundary i"
    by (simp_all add: seedable_def)
  from seed_entries_spec [OF keys(1) kids] obtain entries where entries:
    "seed_entries g (zip keys (nd_children (mn_node entry))) = Some entries" "map fst entries = keys"
    "map (fst \<circ> snd) entries = nd_children (mn_node entry)" by blast
  from from_seed_represents [of entries revision] keys(2) entries(2) obtain order where
    order: "from_seed revision entries = Ok order" "represents order entries" by auto
  have "seeded (mn_node entry) (Some order)"
    using Some seed order(2) entries(3) by (auto simp: seeded_def)
  moreover have "seed_columns (nid # rest) g =
      seed_columns rest (g\<lparr>mg_nodes := (mg_nodes g)(nid \<mapsto> entry\<lparr>mn_keyed := Some order\<rparr>)\<rparr>)"
    using assms(1,2) Some seed entries(1) order(1) by (simp add: on_entry_def)
  ultimately show ?thesis by blast
qed

lemma seed_columns_spec:
  "distinct ids \<Longrightarrow>
   \<forall>i \<in> set ids. \<exists>entry. mg_nodes g i = Some entry \<and> mn_keyed entry = None \<and> seedable (mounted g) (mn_node entry) \<Longrightarrow>
   \<exists>m. seed_columns ids g = Some (g\<lparr>mg_nodes := m\<rparr>) \<and> (\<forall>i. i \<notin> set ids \<longrightarrow> m i = mg_nodes g i) \<and>
     (\<forall>i \<in> set ids. \<exists>entry seed. mg_nodes g i = Some entry \<and> m i = Some (entry\<lparr>mn_keyed := seed\<rparr>) \<and>
        seeded (mn_node entry) seed)"
proof (induction ids arbitrary: g)
  case Nil
  show ?case by (intro exI [of _ "mg_nodes g"]) simp
next
  case (Cons i ids)
  obtain entry where entry: "mg_nodes g i = Some entry" "mn_keyed entry = None" "seedable (mounted g) (mn_node entry)"
    using Cons.prems(2) by auto
  from seed_column_step [OF this] obtain seed where seed: "seeded (mn_node entry) seed"
    "seed_columns (i # ids) g = seed_columns ids (g\<lparr>mg_nodes := (mg_nodes g)(i \<mapsto> entry\<lparr>mn_keyed := seed\<rparr>)\<rparr>)" by blast
  let ?h = "g\<lparr>mg_nodes := (mg_nodes g)(i \<mapsto> entry\<lparr>mn_keyed := seed\<rparr>)\<rparr>"
  have look: "mounted ?h = mounted g" using entry(1) by (auto simp: mounted_def fun_eq_iff)
  have "\<forall>j \<in> set ids. \<exists>entry. mg_nodes ?h j = Some entry \<and> mn_keyed entry = None \<and> seedable (mounted ?h) (mn_node entry)"
    using Cons.prems unfolding look by auto
  from Cons.IH [OF _ this] obtain m where m: "seed_columns ids ?h = Some (?h\<lparr>mg_nodes := m\<rparr>)"
    "\<forall>j. j \<notin> set ids \<longrightarrow> m j = mg_nodes ?h j"
    "\<forall>j \<in> set ids. \<exists>entry seed. mg_nodes ?h j = Some entry \<and> m j = Some (entry\<lparr>mn_keyed := seed\<rparr>) \<and>
        seeded (mn_node entry) seed" using Cons.prems(1) by auto
  have "m i = Some (entry\<lparr>mn_keyed := seed\<rparr>)" using m(2) Cons.prems(1) by simp
  moreover have "\<exists>entry seed. mg_nodes g j = Some entry \<and> m j = Some (entry\<lparr>mn_keyed := seed\<rparr>) \<and>
      seeded (mn_node entry) seed" if "j \<in> set ids" for j
  proof -
    have "j \<noteq> i" using that Cons.prems(1) by auto
    then show ?thesis using bspec [OF m(3) that] by simp
  qed
  moreover have "m j = mg_nodes g j" if "j \<notin> set (i # ids)" for j using that m(2) by simp
  ultimately show ?case
    using seed m(1) entry(1) by (intro exI [of _ m]) auto
qed

text \<open>A seeded node has a place for each of its children.\<close>

lemma seeded_order:
  assumes "seeded n (mn_keyed entry)" and "mn_node entry = n" and "mg_nodes g i = Some entry"
  shows "children_of g i = Some (nd_children n)" and "\<forall>k < length (nd_children n). child_place g i k \<noteq> None"
    and "\<forall>k < length (nd_children n). parent_location g' (nd_children n ! k) = child_place g i k \<Longrightarrow>
         linked_children g' i entry (nd_children n)"
proof -
  have all: "children_of g i = Some (nd_children n) \<and> (\<forall>k < length (nd_children n). child_place g i k \<noteq> None) \<and>
    ((\<forall>k < length (nd_children n). parent_location g' (nd_children n ! k) = child_place g i k) \<longrightarrow>
         linked_children g' i entry (nd_children n))"
  proof (cases "mn_keyed entry")
    case None
    then show ?thesis using assms by (simp add: children_of_def child_place_def linked_children_def)
  next
    case (Some order)
    with assms(1) obtain revision keys where kind: "keyed_seed (nd_kind n) = Some (revision, keys)"
      by (auto simp: seeded_def split: option.splits prod.splits)
    with Some assms(1) obtain items where items: "represents order items" "map (fst \<circ> snd) items = nd_children n"
      by (auto simp: seeded_def)
    from order_entries_represents [OF items(1)] obtain cs where
      cs: "order_entries order = Ok cs" "map item_of cs = items" by blast
    have len: "length items = length (nd_children n)" "length cs = length (nd_children n)"
      using items(2) cs(2) by (metis length_map)+
    have nth: "fst (cs ! k) = fst (items ! k)" "kc_root (snd (cs ! k)) = fst (snd (items ! k))"
        "kc_instance (snd (cs ! k)) = snd (snd (items ! k))"
      if "k < length (nd_children n)" for k
      using cs(2) len(2) that by (metis fst_conv snd_conv item_of_def nth_map)+
    have plain: "\<not> is_popover (nd_kind n) \<and> hidden_pane (nd_kind n) = None"
      using kind by (cases "nd_kind n") auto
    have items_of: "keyed_items order = Some cs" using cs(1) by (simp add: keyed_items_def)
    have "map (\<lambda>(key, child). kc_root child) cs = nd_children n"
      using cs(2) items(2) by (auto simp: item_of_def comp_def case_prod_unfold)
    then have "children_of g i = Some (nd_children n)"
      using Some assms(2,3) items_of by (simp add: children_of_def)
    moreover have place: "child_place g i k = Some (KeyedAt i (fst (items ! k)) (snd (snd (items ! k))))"
      if "k < length (nd_children n)" for k
      using that nth [OF that] Some assms(3) items_of len by (simp add: child_place_def)
    moreover have "linked_children g' i entry (nd_children n)"
      if "\<forall>k < length (nd_children n). parent_location g' (nd_children n ! k) = child_place g i k"
    proof -
      have "\<forall>k < length (nd_children n). parent_location g' (nd_children n ! k) =
          Some (KeyedAt i (fst (items ! k)) (snd (snd (items ! k))))"
        using that place by simp
      with Some assms(2) plain items show ?thesis unfolding linked_children_def by auto
    qed
    ultimately show ?thesis by simp
  qed
  then show "children_of g i = Some (nd_children n)" "\<forall>k < length (nd_children n). child_place g i k \<noteq> None"
    "\<forall>k < length (nd_children n). parent_location g' (nd_children n ! k) = child_place g i k \<Longrightarrow>
         linked_children g' i entry (nd_children n)" by blast+
qed

section \<open>Inserting a fragment\<close>

text \<open>What the nodes are before their children are linked.\<close>

definition staged_in :: "node list \<Rightarrow> mounted_graph \<Rightarrow> mounted_graph \<Rightarrow> bool" where
  "staged_in nodes g h \<longleftrightarrow>
     (\<forall>n \<in> set nodes. \<exists>seed. mg_nodes h (nd_id n) = Some (unlinked n\<lparr>mn_keyed := seed\<rparr>) \<and> seeded n seed) \<and>
     (\<forall>i. i \<notin> nd_id ` set nodes \<longrightarrow> mg_nodes h i = mg_nodes g i)"

lemma insert_staged:
  assumes free: "unclaimed owners nodes g"
    and seeds: "\<forall>n \<in> set nodes. seedable (found_node nodes (mounted g)) n"
  shows "\<exists>h. Option.bind (register_nodes owners nodes g) (seed_columns (map nd_id nodes)) = Some h \<and>
    staged_in nodes g h \<and> mg_root h = mg_root g \<and> mg_max_node g \<le> mg_max_node h \<and>
    (indexed g \<longrightarrow> indexed h) \<and> (bounded g \<longrightarrow> bounded h)"
proof -
  obtain g1 where g1: "register_nodes owners nodes g = Some g1"
    "\<forall>i. mg_nodes g1 i = (case fresh_node nodes i of Some n \<Rightarrow> Some (unlinked n) | None \<Rightarrow> mg_nodes g i)"
    "mg_root g1 = mg_root g" "mg_max_node g \<le> mg_max_node g1" "indexed g \<longrightarrow> indexed g1" "bounded g \<longrightarrow> bounded g1"
    using register_nodes_spec [OF free] by blast
  have dist: "distinct (map nd_id nodes)" using free by (simp add: unclaimed_def)
  note fresh = fresh_node_distinct [OF dist]
  have look: "mounted g1 = found_node nodes (mounted g)"
    using g1(2) by (auto simp: mounted_def found_node_def unlinked_def fun_eq_iff split: option.splits)
  have "\<forall>i \<in> set (map nd_id nodes). \<exists>entry. mg_nodes g1 i = Some entry \<and> mn_keyed entry = None \<and>
      seedable (mounted g1) (mn_node entry)"
    using g1(2) fresh seeds unfolding look by (auto simp: unlinked_def)
  from seed_columns_spec [OF dist this] obtain m where m:
    "seed_columns (map nd_id nodes) g1 = Some (g1\<lparr>mg_nodes := m\<rparr>)"
    "\<forall>i. i \<notin> set (map nd_id nodes) \<longrightarrow> m i = mg_nodes g1 i"
    "\<forall>i \<in> set (map nd_id nodes). \<exists>entry seed. mg_nodes g1 i = Some entry \<and> m i = Some (entry\<lparr>mn_keyed := seed\<rparr>) \<and>
        seeded (mn_node entry) seed" by blast
  let ?h = "g1\<lparr>mg_nodes := m\<rparr>"
  have "staged_in nodes g ?h"
    using m(2,3) g1(2) fresh unfolding staged_in_def
    by (auto simp: unlinked_def fresh_node_None [THEN iffD2])
  moreover have kinds: "mounted_kind ?h i = mounted_kind g1 i" for i
  proof (cases "i \<in> set (map nd_id nodes)")
    case True
    from bspec [OF m(3) True] show ?thesis by (auto simp: mounted_kind_def mounted_def)
  next
    case False
    with m(2) show ?thesis by (simp add: mounted_kind_def mounted_def)
  qed
  then have "indexed g1 \<longrightarrow> indexed ?h" using indexed_kinds [of g1 ?h] by simp
  moreover have "dom m = dom (mg_nodes g1)"
  proof (rule set_eqI)
    fix i
    show "i \<in> dom m \<longleftrightarrow> i \<in> dom (mg_nodes g1)"
    proof (cases "i \<in> set (map nd_id nodes)")
      case True
      from bspec [OF m(3) True] show ?thesis by auto
    qed (use m(2) in \<open>simp add: domIff\<close>)
  qed
  then have "bounded g1 \<longrightarrow> bounded ?h" by (simp add: bounded_def instance_spent_def)
  ultimately show ?thesis using g1 m(1) by auto
qed

text \<open>
  Inserting the fragment spelled by the tree \<open>t\<close>: the graph then holds \<open>t\<close> around its retained
  roots, and nothing else has moved.
\<close>

lemma held_around_fits:
  "fits look H t \<Longrightarrow>
   (\<And>i n. i \<in> set (gt_preorder t) \<Longrightarrow> i \<notin> H \<Longrightarrow> look i = Some n \<Longrightarrow>
      \<exists>entry. mg_nodes g i = Some entry \<and> nd_id (mn_node entry) = i \<and> linked_children g i entry (nd_children n)) \<Longrightarrow>
   held_around g id H t"
proof (induction t)
  case (GNode i ts)
  show ?case
  proof (cases "i \<in> H")
    case False
    with GNode.prems(1) obtain n where n: "look i = Some n" "nd_children n = map gt_id ts" by auto
    have "held_around g (\<lambda>i. i) H t" if t: "t \<in> set ts" for t
    proof (rule GNode.IH [OF t, unfolded id_def])
      show "fits look H t" using GNode.prems(1) False t by simp
      show "\<exists>entry. mg_nodes g j = Some entry \<and> nd_id (mn_node entry) = j \<and> linked_children g j entry (nd_children n)"
        if "j \<in> set (gt_preorder t)" "j \<notin> H" "look j = Some n" for j n
        using GNode.prems(2) that t by auto
    qed
    moreover have "\<exists>entry. mg_nodes g i = Some entry \<and> nd_id (mn_node entry) = i \<and>
        linked_children g i entry (nd_children n)" using GNode.prems(2) [of i n] False n(1) by simp
    ultimately show ?thesis using n(2) by (simp add: comp_def id_def)
  qed simp
qed

lemma fits_holey: "fits look H t \<Longrightarrow> holey H t"
  by (induction t) auto

lemma spelled_facts:
  assumes "spells root nodes F t" and "distinct (map nd_id nodes)" and "nd_id ` set nodes \<inter> F = {}"
  shows "distinct (root # concat (map nd_children nodes))"
    and "insert root (set (concat (map nd_children nodes))) = nd_id ` set nodes \<union> F"
proof -
  have kids: "mset (gt_preorder t) = mset (root # concat (map nd_children nodes))"
    using spelled_children [OF assms] by simp
  show "distinct (root # concat (map nd_children nodes))"
    using assms(1) mset_eq_imp_distinct_iff [OF kids] by (simp add: spells_def)
  show "insert root (set (concat (map nd_children nodes))) = nd_id ` set nodes \<union> F"
    using mset_eq_setD [OF kids] assms(1) by (simp add: spells_def)
qed

lemma insert_nodes_holds:
  assumes free: "unclaimed (vf_input_owners v) nodes g"
    and seeds: "\<forall>n \<in> set nodes. seedable (found_node nodes (mounted g)) n"
    and t: "spells root nodes F t" and F: "F \<subseteq> dom (mg_nodes g)"
    and post: "set (vf_postorder v) = nd_id ` set nodes" "distinct (vf_postorder v)"
  shows "\<exists>g'. insert_nodes nodes v g = Some g' \<and> held_around g' id F t \<and>
    dom (mg_nodes g') = dom (mg_nodes g) \<union> nd_id ` set nodes \<and>
    (\<forall>i. i \<notin> nd_id ` set nodes \<longrightarrow> keeps g g' i) \<and>
    (\<forall>i. i \<notin> nd_id ` set nodes \<union> F \<longrightarrow> parent_location g' i = parent_location g i) \<and>
    (\<forall>n \<in> set nodes. mounted g' (nd_id n) = Some n) \<and>
    mg_root g' = mg_root g \<and> mg_max_node g \<le> mg_max_node g' \<and>
    (indexed g \<longrightarrow> indexed g') \<and> (bounded g \<longrightarrow> bounded g')"
proof -
  have dist: "distinct (map nd_id nodes)" and apart: "nd_id ` set nodes \<inter> dom (mg_nodes g) = {}"
    using free by (simp_all add: unclaimed_def)
  have "nd_id ` set nodes \<inter> F = {}" using apart F by blast
  note alone = spelled_facts [OF t dist this]
  obtain h where h: "Option.bind (register_nodes (vf_input_owners v) nodes g) (seed_columns (map nd_id nodes)) = Some h"
    "staged_in nodes g h" "mg_root h = mg_root g" "mg_max_node g \<le> mg_max_node h"
    "indexed g \<longrightarrow> indexed h" "bounded g \<longrightarrow> bounded h"
    using insert_staged [OF free seeds] by blast
  have entry: "\<exists>e. mg_nodes h (nd_id n) = Some e \<and> mn_node e = n \<and> seeded n (mn_keyed e)" if "n \<in> set nodes" for n
  proof -
    from h(2) that obtain seed where "mg_nodes h (nd_id n) = Some (unlinked n\<lparr>mn_keyed := seed\<rparr>)" "seeded n seed"
      unfolding staged_in_def by blast
    then show ?thesis by (simp add: unlinked_def)
  qed
  have others: "mg_nodes h i = mg_nodes g i" if "i \<notin> nd_id ` set nodes" for i
    using h(2) that unfolding staged_in_def by blast
  have domh: "dom (mg_nodes h) = dom (mg_nodes g) \<union> nd_id ` set nodes"
  proof (rule set_eqI)
    show "i \<in> dom (mg_nodes h) \<longleftrightarrow> i \<in> dom (mg_nodes g) \<union> nd_id ` set nodes" for i
      using entry others [of i] by (cases "i \<in> nd_id ` set nodes") (auto simp: domIff)
  qed
  have inside: "set (nd_children n) \<subseteq> dom (mg_nodes h)" if "n \<in> set nodes" for n
    using alone(2) that F domh by auto
  have kids: "kids_of h (nd_id n) = nd_children n" if "n \<in> set nodes" for n
    using entry [OF that] by (auto simp: kids_of_def mounted_def)
  have linkable: "linkable h (nd_id n)" if n: "n \<in> set nodes" for n
  proof -
    from entry [OF n] obtain e where e: "mg_nodes h (nd_id n) = Some e" "mn_node e = n" "seeded n (mn_keyed e)" by blast
    from seeded_order(1,2) [OF e(3,2,1)] inside [OF n] e show ?thesis
      unfolding linkable_def by (intro exI [of _ n]) (simp add: mounted_def)
  qed
  have "mset (vf_postorder v) = mset (map nd_id nodes)"
    using post dist set_eq_iff_mset_eq_distinct [of "vf_postorder v" "map nd_id nodes"] by simp
  then have "mset (concat (map (kids_of h) (vf_postorder v))) = mset (concat (map (kids_of h) (map nd_id nodes)))"
    by (metis (no_types, lifting) mset_concat mset_map multiset.map_comp sum_mset_sum_list)
  also have "map (kids_of h) (map nd_id nodes) = map nd_children nodes" using kids by simp
  finally have mkids: "mset (concat (map (kids_of h) (vf_postorder v))) = mset (concat (map nd_children nodes))" .
  have "distinct (concat (map (kids_of h) (vf_postorder v)))"
    using alone(1) mset_eq_imp_distinct_iff [OF mkids] by simp
  moreover have "\<forall>i \<in> set (vf_postorder v). linkable h i" using linkable post(1) by auto
  ultimately obtain g' where g': "link_nodes (vf_postorder v) h = Some g'" "relinked h g'"
    "\<forall>i \<in> set (vf_postorder v). \<forall>k < length (kids_of h i). parent_location g' (kids_of h i ! k) = child_place h i k"
    "\<forall>c. c \<notin> set (concat (map (kids_of h) (vf_postorder v))) \<longrightarrow> parent_location g' c = parent_location h c"
    using link_nodes_places by blast
  have result: "insert_nodes nodes v g = Some g'"
    using h(1) g'(1) by (auto simp: insert_nodes_def bind_eq_Some_conv)
  have here: "\<exists>e. mg_nodes g' (nd_id n) = Some e \<and> mn_node e = n \<and> linked_children g' (nd_id n) e (nd_children n)"
    if n: "n \<in> set nodes" for n
  proof -
    from entry [OF n] obtain e where e: "mg_nodes h (nd_id n) = Some e" "mn_node e = n" "seeded n (mn_keyed e)" by blast
    from keeps_entry [OF relinked_keeps [OF g'(2)] e(1)] obtain e' where
      e': "mg_nodes g' (nd_id n) = Some e'" "mn_node e' = n" "mn_keyed e' = mn_keyed e" using e(2) by auto
    have places: "\<forall>k < length (nd_children n). parent_location g' (nd_children n ! k) = child_place h (nd_id n) k"
    proof -
      have "nd_id n \<in> set (vf_postorder v)" using n post(1) by simp
      from bspec [OF g'(3) this] show ?thesis unfolding kids [OF n] .
    qed
    have "linked_children g' (nd_id n) e (nd_children n)"
      by (rule seeded_order(3) [OF e(3,2,1) places])
    then have "linked_children g' (nd_id n) e' (nd_children n)"
      by (rule linked_keeps) (simp_all add: e' e(2))
    with e' show ?thesis by auto
  qed
  have "held_around g' id F t"
  proof (rule held_around_fits)
    show "fits (fresh_node nodes) F t" using t by (simp add: spells_def)
    fix i n assume "fresh_node nodes i = Some n"
    then have "n \<in> set nodes" "nd_id n = i" using fresh_node_id by blast+
    with here show "\<exists>entry. mg_nodes g' i = Some entry \<and> nd_id (mn_node entry) = i \<and>
        linked_children g' i entry (nd_children n)" by blast
  qed
  moreover have "keeps g g' i" if "i \<notin> nd_id ` set nodes" for i
    using relinked_keeps [OF g'(2), of i] others [OF that] by (simp add: keeps_def)
  moreover have "parent_location g' i = parent_location g i" if i: "i \<notin> nd_id ` set nodes \<union> F" for i
  proof -
    have "i \<notin> set (concat (map nd_children nodes))" using alone(2) i by blast
    then have "i \<notin> set (concat (map (kids_of h) (vf_postorder v)))" using mset_eq_setD [OF mkids] by simp
    with g'(4) others [of i] i show ?thesis by (simp add: parent_location_def)
  qed
  moreover have "\<forall>n \<in> set nodes. mounted g' (nd_id n) = Some n" using here by (auto simp: mounted_def)
  moreover have "indexed g'" if "indexed h"
    by (rule indexed_kinds [OF that]) (simp_all add: mounted_kind_def relinked_node [OF g'(2)] relinked_fields [OF g'(2)])
  moreover have "bounded g'" if "bounded h"
    using that by (simp add: bounded_def relinked_dom [OF g'(2)] relinked_fields [OF g'(2)] instance_spent_def)
  ultimately show ?thesis
    using result h relinked_dom [OF g'(2)] relinked_fields(1,2) [OF g'(2)] domh by simp
qed

end
