(* ===== verification/ApplyFrames.thy ===== *)
theory ApplyFrames
  imports ApplyInsert Popovers
begin

text \<open>
  The parts of an application that do not touch the tree: carrying interaction state across it,
  the sizes on the path to the root, and the modal policy. Each returns on a well-formed graph.
\<close>

section \<open>Interaction state\<close>

text \<open>Everything but the interaction state is the same.\<close>

definition same_core :: "mounted_graph \<Rightarrow> mounted_graph \<Rightarrow> bool" where
  "same_core g g' \<longleftrightarrow>
     mg_nodes g' = mg_nodes g \<and> mg_root g' = mg_root g \<and> mg_max_node g' = mg_max_node g \<and>
     mg_max_instance g' = mg_max_instance g \<and> mg_boundaries g' = mg_boundaries g \<and>
     mg_labels g' = mg_labels g \<and> mg_owners g' = mg_owners g \<and> mg_dialog g' = mg_dialog g"

lemma same_core_refl [simp]: "same_core g g"
  by (simp add: same_core_def)

lemma same_core_trans: "same_core g h \<Longrightarrow> same_core h k \<Longrightarrow> same_core g k"
  by (simp add: same_core_def)

lemma same_core_nodes: "same_core g g' \<Longrightarrow> same_nodes g g'"
  by (simp add: same_core_def same_nodes_def)

lemma same_core_indexed:
  assumes "same_core g g'"
  shows "indexed g' = indexed g"
proof -
  have kinds: "mounted_kind g' = mounted_kind g" by (rule same_nodes_lookups(2) [OF same_core_nodes [OF assms]])
  from assms have "mg_boundaries g' = mg_boundaries g" "mg_labels g' = mg_labels g" "mg_owners g' = mg_owners g"
    "mg_dialog g' = mg_dialog g" by (simp_all add: same_core_def)
  then show ?thesis unfolding indexed_def kind_at_def kinds by simp
qed

lemma same_core_bounded: "same_core g g' \<Longrightarrow> bounded g' = bounded g"
  by (simp add: same_core_def bounded_def instance_spent_def)

lemma same_core_wf: "same_core g g' \<Longrightarrow> well_formed g' = well_formed g"
  using same_nodes_wf(4) same_core_nodes by blast

lemma same_core_popovers [simp]: "same_core g (on_popovers f g)"
  by (simp add: same_core_def on_popovers_def)

lemma same_core_keyboard [simp]: "same_core g (on_keyboard f g)"
  by (simp add: same_core_def on_keyboard_def)

text \<open>A mounted node of a well-formed graph climbs through mounted nodes to the root.\<close>

lemma mounted_climbs:
  assumes "well_formed g" and "mg_nodes g i \<noteq> None"
  shows "\<exists>locations. climbs g i locations \<and> (\<forall>l \<in> set locations. mg_nodes g (location_parent l) \<noteq> None)"
proof -
  from assms obtain t where t: "graph_tree g t" by (auto simp: well_formed_def)
  then have "i \<in> set (gt_preorder t)" using assms(2) by (auto simp: graph_tree_def)
  then obtain p where p: "p \<in> set (gt_paths t)" "last p = i" using gt_path_exists by blast
  from tree_climbs [OF t p(1)] obtain locations where
    l: "climbs g (last p) locations" "last p # map location_parent locations = rev p" by blast
  have "set (map location_parent locations) \<subseteq> set p" using l(2) by (metis set_rev set_subset_Cons)
  then have "set (map location_parent locations) \<subseteq> dom (mg_nodes g)"
    using gt_paths_in [OF p(1)] t by (auto simp: graph_tree_def)
  with l(1) p(2) show ?thesis by (intro exI [of _ locations]) auto
qed

lemma identity_climb:
  "climbs g i locations \<Longrightarrow> mg_nodes g i \<noteq> None \<Longrightarrow> \<forall>l \<in> set locations. mg_nodes g (location_parent l) \<noteq> None \<Longrightarrow>
   \<exists>r. identity_walk g i acc = Some r"
proof (induction arbitrary: acc rule: climbs.induct)
  case (climbs_end i)
  then show ?case by (subst identity_walk.simps) (auto simp: parent_location_def)
next
  case (climbs_step i location locations)
  then show ?case by (subst identity_walk.simps) (auto simp: parent_location_def)
qed

lemma identity_total:
  assumes "well_formed g" and "mg_nodes g i \<noteq> None"
  shows "\<exists>r. identity g i = Some r"
  using mounted_climbs [OF assms] identity_climb [OF _ assms(2)] by (auto simp: identity_def)

lemma forget_core [simp]: "same_core g (forget_node nid g)"
  by (simp add: same_core_def forget_node_def on_popovers_def on_keyboard_def)

lemma carry_each_total:
  "well_formed g \<Longrightarrow> set ids \<subseteq> dom (mg_nodes g) \<Longrightarrow>
   \<exists>carried g'. carry_each ids carry g = Some (carried, g') \<and> same_core g g'"
proof (induction ids arbitrary: carry g)
  case (Cons i ids)
  have "mg_nodes g i \<noteq> None" using Cons.prems(2) by auto
  then obtain path where "identity g i = Some path" using identity_total Cons.prems(1) by blast
  then obtain c where c: "carry_node i g carry = Some c"
    by (cases "carry_node i g carry") (auto simp: carry_node_def Let_def split: if_splits)
  have core: "same_core g (forget_node i g)" by simp
  have "well_formed (forget_node i g)" using Cons.prems(1) same_core_wf [OF core] by simp
  moreover have "set ids \<subseteq> dom (mg_nodes (forget_node i g))"
    using Cons.prems(2) core by (simp add: same_core_def)
  ultimately obtain carried g' where "carry_each ids c (forget_node i g) = Some (carried, g')"
    "same_core (forget_node i g) g'" using Cons.IH by blast
  with c same_core_trans [OF core] show ?case by auto
qed simp

lemma restore_requests_total:
  "well_formed g \<Longrightarrow> \<exists>g'. restore_requests regions carry g = Some g' \<and> same_core g g'"
proof (induction regions arbitrary: g)
  case (Cons region regions)
  show ?case
  proof (cases "Option.bind (mounted_kind g region) popover_serial")
    case (Some serial)
    then have "mg_nodes g region \<noteq> None" by (cases "mg_nodes g region") (simp_all add: mounted_kind_def mounted_def)
    then obtain path where path: "identity g region = Some path" using identity_total Cons.prems by blast
    let ?h = "on_keyboard (\<lambda>k. k\<lparr>kb_serials := (kb_serials k)(region \<mapsto> serial),
       kb_requests := (if ca_serials carry path \<noteq> Some serial then kb_requests k @ [region] else kb_requests k)\<rparr>) g"
    have core: "same_core g ?h" by (rule same_core_keyboard)
    then obtain g' where "restore_requests regions carry ?h = Some g'" "same_core ?h g'"
      using Cons.IH [of ?h] Cons.prems same_core_wf [OF core] by blast
    with Some path same_core_trans [OF core] show ?thesis by auto
  qed (use Cons in auto)
qed simp

lemma restore_node_total:
  assumes "well_formed g"
  shows "\<exists>g'. restore_node nid carry g = Some g' \<and> same_core g g'"
proof (cases "mounted_kind g nid")
  case (Some kind)
  then have "mg_nodes g nid \<noteq> None" by (auto simp: mounted_kind_def mounted_def)
  then obtain path where "identity g nid = Some path" using identity_total assms by blast
  with Some show ?thesis
    by (auto simp: restore_node_def Let_def same_core_def on_popovers_def split: option.splits)
qed (simp add: restore_node_def)

lemma restore_each_total:
  "well_formed g \<Longrightarrow> \<exists>g'. restore_each ids carry g = Some g' \<and> same_core g g'"
proof (induction ids arbitrary: g)
  case (Cons i ids)
  obtain h where h: "restore_node i carry g = Some h" "same_core g h"
    using restore_node_total [OF Cons.prems] by blast
  then obtain g' where "restore_each ids carry h = Some g'" "same_core h g'"
    using Cons.IH [of h] Cons.prems same_core_wf [OF h(2)] by blast
  with h same_core_trans [OF h(2)] show ?case by auto
qed simp

lemma restore_total:
  assumes "well_formed g"
  shows "\<exists>g'. restore_interaction ids carry g = Some g' \<and> same_core g g'"
proof -
  let ?h = "on_keyboard (\<lambda>k. k\<lparr>kb_staged_requests := []\<rparr>) g"
  have core: "same_core g ?h" by (rule same_core_keyboard)
  then obtain h where h: "restore_requests (kb_staged_requests (mg_keyboard g)) carry ?h = Some h" "same_core ?h h"
    using restore_requests_total [of ?h] assms same_core_wf [OF core] by blast
  have gh: "same_core g h" by (rule same_core_trans [OF core h(2)])
  obtain g' where g': "restore_each ids carry h = Some g'" "same_core h g'"
    using restore_each_total [of h] assms same_core_wf [OF gh] by blast
  show ?thesis using h(1) g' gh same_core_trans [OF gh] by (auto simp: restore_interaction_def)
qed

lemma modal_total:
  assumes "well_formed g"
  shows "\<exists>g'. modal_policy previous g = Some g' \<and> same_core g g'"
proof -
  have each: "same_core g (retire_each ids g)" for ids g
  proof (induction ids arbitrary: g)
    case (Cons i ids)
    have "same_core g (snd (close_popover i (on_popovers (\<lambda>p. p\<lparr>po_focus_within := po_focus_within p - {i}\<rparr>)
        (g\<lparr>mg_hovered := mg_hovered g - {i}\<rparr>))))"
      by (simp add: same_core_def close_popover_def on_popovers_def count_closed_def Let_def)
    with Cons show ?case using same_core_trans by (auto intro: same_core_trans)
  qed simp
  show ?thesis
  proof (cases "mg_dialog g")
    case (Some dialog)
    with retire_behind_returns [OF assms, of dialog] each show ?thesis by (auto simp: modal_policy_def)
  qed (simp add: modal_policy_def)
qed

section \<open>Sizes\<close>

lemma climbs_same: "parent_location g' = parent_location g \<Longrightarrow> climbs g i ls \<Longrightarrow> climbs g' i ls"
  by (rotate_tac 1, induction rule: climbs.induct) (auto intro: climbs.intros)

lemma resize_climb:
  "climbs g i ls \<Longrightarrow> mg_nodes g i \<noteq> None \<Longrightarrow> \<forall>l \<in> set ls. mg_nodes g (location_parent l) \<noteq> None \<Longrightarrow>
   \<exists>g'. resize_walk a b (Some i) g = Some g' \<and> resized g g'"
proof (induction ls arbitrary: g i)
  case Nil
  then obtain entry where entry: "mg_nodes g i = Some entry" by auto
  from Nil(1) have top: "parent_location g i = None" by (auto elim: climbs_NilE)
  obtain h where h: "on_entry i (\<lambda>entry. entry\<lparr>mn_size := mn_size entry - a + b\<rparr>) g = Some h" "resized g h"
    using on_entry_resized [of g i "\<lambda>entry. entry\<lparr>mn_size := mn_size entry - a + b\<rparr>"] entry by auto
  have "resize_walk a b (Some i) g = resize_walk a b None h"
    using entry top h(1) by (subst resize_walk.simps) (simp add: on_entry_def parent_location_def)
  then show ?case using h(2) by (auto simp: resize_walk.simps)
next
  case (Cons l ls)
  then obtain entry where entry: "mg_nodes g i = Some entry" by auto
  from Cons.prems(1) have up: "parent_location g i = Some l" "climbs g (location_parent l) ls"
    by (auto elim: climbs_ConsE)
  obtain h where h: "on_entry i (\<lambda>entry. entry\<lparr>mn_size := mn_size entry - a + b\<rparr>) g = Some h" "resized g h"
    using on_entry_resized [of g i "\<lambda>entry. entry\<lparr>mn_size := mn_size entry - a + b\<rparr>"] entry by auto
  have re: "relinked g h" "parent_location h = parent_location g" using h(2) by (simp_all add: resized_def)
  have step: "resize_walk a b (Some i) g = resize_walk a b (Some (location_parent l)) h"
    using entry up(1) h(1) by (subst resize_walk.simps) (simp add: on_entry_def parent_location_def)
  have "mg_nodes h (location_parent l) \<noteq> None" "\<forall>l \<in> set ls. mg_nodes h (location_parent l) \<noteq> None"
    using Cons.prems(3) relinked_mounted [OF re(1)] by auto
  then obtain g' where "resize_walk a b (Some (location_parent l)) h = Some g'" "resized h g'"
    using Cons.IH [OF climbs_same [OF re(2) up(2)]] by blast
  with step resized_trans [OF h(2)] show ?case by auto
qed

lemma resize_total:
  assumes "well_formed g" and "mg_nodes g i \<noteq> None"
  shows "\<exists>g'. resize_walk a b (Some i) g = Some g' \<and> resized g g'"
  using mounted_climbs [OF assms] resize_climb [OF _ assms(2)] by blast

text \<open>Rewriting sizes and segments keeps the tree.\<close>

lemma resized_tree:
  assumes "resized g g'" and "graph_tree g t"
  shows "graph_tree g' t"
proof -
  have re: "relinked g g'" "parent_location g' = parent_location g" using assms(1) by (simp_all add: resized_def)
  have t: "held g t" "distinct (gt_preorder t)" using assms(2) by (simp_all add: graph_tree_def)
  have "held g' t"
    by (rule held_keeps [OF t(1) _ _ t(2)]) (simp_all add: relinked_keeps [OF re(1)] re(2))
  with assms(2) re(2) show ?thesis
    by (simp add: graph_tree_def relinked_dom [OF re(1)] relinked_fields [OF re(1)])
qed

lemma relinked_indexed: "relinked g g' \<Longrightarrow> indexed g \<Longrightarrow> indexed g'"
  by (rule indexed_kinds) (simp_all add: mounted_kind_def relinked_node relinked_fields)

lemma relinked_bounded: "relinked g g' \<Longrightarrow> bounded g \<Longrightarrow> bounded g'"
  by (simp add: bounded_def relinked_dom relinked_fields instance_spent_def)

end
