(* ===== verification/ApplyPlan.thy ===== *)
theory ApplyPlan
  imports ApplyFrames ApplyAtomic
begin

text \<open>
  The checks of an ordinary application on a consistent graph: they never panic, and when they
  pass, the retired region is the old subtree above its retained roots and nothing mounted holds
  what the fresh nodes claim.
\<close>

definition graph_ok :: "mounted_graph \<Rightarrow> bool" where
  "graph_ok g \<longleftrightarrow> well_formed g \<and> indexed g \<and> bounded g"

section \<open>The frontier and the fresh nodes\<close>

lemma check_retained_spec:
  "check_retained g old rs (F, a, b) \<noteq> Panic \<and>
   (check_retained g old rs (F, a, b) = Ok (F', a', b') \<longrightarrow>
      F' = F \<union> set rs \<and> set rs \<subseteq> dom (mg_nodes g) \<and> (\<forall>r \<in> set rs. Some r \<noteq> old))"
proof (induction rs arbitrary: F a b)
  case (Cons r rs)
  show ?case
  proof (cases "mg_nodes g r")
    case (Some entry)
    with Cons [of "insert r F" "a + mn_size entry" "b + 1"] show ?thesis by auto
  qed simp
qed auto

lemma check_fresh_spec:
  "\<forall>n \<in> set nodes. input_label (nd_kind n) \<noteq> None \<longrightarrow> owners (nd_id n) \<noteq> None \<Longrightarrow>
   check_fresh g R owners nodes \<noteq> Panic \<and>
   (check_fresh g R owners nodes = Ok () \<longrightarrow>
     (\<forall>n \<in> set nodes. mg_max_node g < nd_id n \<and>
        (is_dialog (nd_kind n) \<longrightarrow> \<not> survives R (mg_dialog g)) \<and>
        (\<forall>label. input_label (nd_kind n) = Some label \<longrightarrow> \<not> survives R (mg_labels g (the (owners (nd_id n)), label))) \<and>
        (\<forall>i. boundary_instance (nd_kind n) = Some i \<longrightarrow> \<not> survives R (mg_boundaries g i))))"
proof (induction nodes)
  case (Cons n nodes)
  show ?case
  proof (cases "nd_id n \<le> mg_max_node g")
    case False
    then have "mg_max_node g < nd_id n" by simp
    with False Cons show ?thesis
      by (cases "nd_kind n") (auto simp: survives_def obind_eq_Panic split: option.splits if_splits)
  qed simp
qed simp

lemma inputs_found:
  "fits look F t \<Longrightarrow> (\<And>i n. look i = Some n \<Longrightarrow> nd_id n = i) \<Longrightarrow> i \<in> set (gt_preorder t) \<Longrightarrow> i \<notin> F \<Longrightarrow>
   look i = Some n \<Longrightarrow> input_label (nd_kind n) = Some label \<Longrightarrow>
   \<exists>own. (i, own, label) \<in> set (gt_inputs look F owner t)"
proof (induction t arbitrary: owner)
  case (GNode j ts)
  have jF: "j \<notin> F" using GNode.prems(1,3,4) by (cases "j \<in> F") auto
  with GNode.prems(1) obtain m where m: "look j = Some m" by auto
  show ?case
  proof (cases "i = j")
    case True
    with GNode.prems m jF show ?thesis by (auto simp: own_input_def)
  next
    case False
    with GNode.prems(3) obtain u where u: "u \<in> set ts" "i \<in> set (gt_preorder u)" by auto
    have "fits look F u" using GNode.prems(1) jF u(1) by simp
    from GNode.IH [OF u(1) this GNode.prems(2) u(2) GNode.prems(4-6), of "child_owner m owner"]
    obtain own where "(i, own, label) \<in> set (gt_inputs look F (child_owner m owner) u)" by blast
    with u(1) jF m show ?thesis by auto
  qed
qed

lemma input_ids:
  "(\<And>i n. look i = Some n \<Longrightarrow> nd_id n = i) \<Longrightarrow> distinct (gt_preorder t) \<Longrightarrow>
   distinct (map fst (gt_inputs look F owner t)) \<and> fst ` set (gt_inputs look F owner t) \<subseteq> set (gt_preorder t)"
proof (induction t arbitrary: owner)
  case (GNode i ts)
  show ?case
  proof (cases "i \<in> F \<or> look i = None")
    case False
    then obtain n where n: "i \<notin> F" "look i = Some n" by auto
    let ?o = "child_owner n owner"
    have own: "map fst (own_input n owner) = [] \<or> map fst (own_input n owner) = [i]"
      using GNode.prems(1) [OF n(2)] by (auto simp: own_input_def split: option.splits)
    have forest: "distinct (map fst (concat (map (gt_inputs look F ?o) us))) \<and>
        fst ` set (concat (map (gt_inputs look F ?o) us)) \<subseteq> set (concat (map gt_preorder us))"
      if "set us \<subseteq> set ts" "distinct (concat (map gt_preorder us))" for us
      using that
    proof (induction us)
      case (Cons u us)
      have "distinct (gt_preorder u)" using Cons.prems(2) by simp
      then have u: "distinct (map fst (gt_inputs look F ?o u))"
          "fst ` set (gt_inputs look F ?o u) \<subseteq> set (gt_preorder u)"
        using GNode.IH [of u ?o] Cons.prems(1) GNode.prems(1) by auto
      have us: "distinct (map fst (concat (map (gt_inputs look F ?o) us)))"
          "fst ` set (concat (map (gt_inputs look F ?o) us)) \<subseteq> set (concat (map gt_preorder us))"
        using Cons.IH Cons.prems by auto
      have "set (gt_preorder u) \<inter> set (concat (map gt_preorder us)) = {}" using Cons.prems(2) by simp
      then have "fst ` set (gt_inputs look F ?o u) \<inter> fst ` set (concat (map (gt_inputs look F ?o) us)) = {}"
        using u(2) us(2) by blast
      then have "distinct (map fst (gt_inputs look F ?o u @ concat (map (gt_inputs look F ?o) us)))"
        using u(1) us(1) by simp
      moreover have "fst ` set (gt_inputs look F ?o u @ concat (map (gt_inputs look F ?o) us)) \<subseteq>
          set (gt_preorder u @ concat (map gt_preorder us))"
        using u(2) us(2) by (simp only: set_append image_Un) blast
      ultimately show ?case by (simp only: list.map concat.simps)
    qed simp
    from forest [of ts] GNode.prems(2) have "distinct (map fst (concat (map (gt_inputs look F ?o) ts)))"
      "fst ` set (concat (map (gt_inputs look F ?o) ts)) \<subseteq> set (concat (map gt_preorder ts))" by simp_all
    moreover have "i \<notin> set (concat (map gt_preorder ts))" using GNode.prems(2) by simp
    moreover have fst_rest: "set (map fst xs) = fst ` set xs" for xs :: "(u64 \<times> u64 option \<times> string) list" by simp
    ultimately have "i \<notin> set (map fst (concat (map (gt_inputs look F ?o) ts)))" by (simp only: fst_rest) blast
    then have "distinct (map fst (own_input n owner @ concat (map (gt_inputs look F ?o) ts)))"
      "fst ` set (own_input n owner @ concat (map (gt_inputs look F ?o) ts)) \<subseteq> insert i (set (concat (map gt_preorder ts)))"
      using own \<open>distinct (map fst (concat (map (gt_inputs look F ?o) ts)))\<close>
        \<open>fst ` set (concat (map (gt_inputs look F ?o) ts)) \<subseteq> set (concat (map gt_preorder ts))\<close>
      by (auto simp del: set_concat set_map)
    then show ?thesis using n by (simp del: map_append map_concat)
  qed auto
qed

lemma mset_gt_postorder: "mset (gt_postorder t) = mset (gt_preorder t)"
proof (induction t)
  case (GNode i ts)
  then have "mset (concat (map gt_postorder us)) = mset (concat (map gt_preorder us))" if "set us \<subseteq> set ts" for us
    using that by (induction us) auto
  from this [of ts] show ?case by simp
qed

lemma fits_unique: "fits look F s \<Longrightarrow> fits look F t \<Longrightarrow> gt_id s = gt_id t \<Longrightarrow> s = t"
proof (induction s arbitrary: t)
  case (GNode i ss)
  obtain ts where t: "t = GNode i ts" using GNode.prems(3) by (cases t) auto
  show ?case
  proof (cases "i \<in> F")
    case False
    then have ids: "map gt_id ss = map gt_id ts" and "\<forall>s \<in> set ss. fits look F s" "\<forall>t \<in> set ts. fits look F t"
      using GNode.prems t by auto
    then have "ss ! k = ts ! k" if "k < length ss" for k
    proof -
      have len: "length ss = length ts" using ids by (metis length_map)
      have "gt_id (ss ! k) = gt_id (ts ! k)" using ids that len by (metis nth_map)
      then show ?thesis
        using GNode.IH [of "ss ! k" "ts ! k"] that len \<open>\<forall>s \<in> set ss. fits look F s\<close> \<open>\<forall>t \<in> set ts. fits look F t\<close> by simp
    qed
    moreover have "length ss = length ts" using ids by (metis length_map)
    ultimately show ?thesis using t by (simp add: list_eq_iff_nth_eq)
  qed (use GNode.prems t in simp)
qed

text \<open>What validation gives the insertion.\<close>

lemma validated_fragment:
  assumes "validate_fragment root nodes F owner look = Ok v"
  shows "\<exists>t. spells root nodes F t \<and> node_at (vf_indices v) nodes = fresh_node nodes"
    and "lookup (vf_indices v) nodes = (\<lambda>look i. Ok (found_node nodes look i))"
    and "distinct (map nd_id nodes)" "nd_id ` set nodes \<inter> F = {}"
    and "set (vf_postorder v) = nd_id ` set nodes" "distinct (vf_postorder v)"
    and "\<forall>n \<in> set nodes. input_label (nd_kind n) \<noteq> None \<longrightarrow> vf_input_owners v (nd_id n) \<noteq> None"
    and "distinct (input_names (vf_input_owners v) nodes)"
    and "distinct (instances nodes)" "dialogs nodes \<le> 1"
proof -
  from validate_fragment_sound [OF assms] obtain t where acc: "acceptable root nodes F owner look"
    and t: "spells root nodes F t" and d: "describes nodes F owner t v" by blast
  show "\<exists>t. spells root nodes F t \<and> node_at (vf_indices v) nodes = fresh_node nodes"
    using t d by (auto simp: describes_def)
  show dist: "distinct (map nd_id nodes)" and apart: "nd_id ` set nodes \<inter> F = {}"
    and "distinct (instances nodes)" "dialogs nodes \<le> 1" using acc by (simp_all add: acceptable_def)
  obtain ix where ix: "index_nodes F 0 nodes Map.empty = Ok ix" "vf_indices v = ix"
    using assms by (auto simp: validate_fragment_def split: if_splits)
  show "lookup (vf_indices v) nodes = (\<lambda>look i. Ok (found_node nodes look i))"
    unfolding ix(2) using index_lookup [OF ix(1)] by (intro ext) metis
  have pre: "set (gt_preorder t) = nd_id ` set nodes \<union> F" "distinct (gt_preorder t)" "fits (fresh_node nodes) F t"
    using t by (simp_all add: spells_def)
  have post: "vf_postorder v = filter (\<lambda>i. i \<notin> F) (gt_postorder t)" using d by (simp add: describes_def)
  show "set (vf_postorder v) = nd_id ` set nodes" using post pre(1) apart by auto
  show "distinct (vf_postorder v)"
    using post pre(2) mset_eq_imp_distinct_iff [OF mset_gt_postorder] by simp
  let ?inputs = "gt_inputs (fresh_node nodes) F owner t"
  have fresh: "\<And>i n. fresh_node nodes i = Some n \<Longrightarrow> nd_id n = i" using fresh_node_id by blast
  have ids: "distinct (map fst ?inputs)" using input_ids [of "fresh_node nodes" t F owner] fresh pre(2) by blast
  have "distinct (map fst (rev (map (\<lambda>(i, own, label). (i, own)) ?inputs)))"
    using ids by (simp add: rev_map [symmetric] comp_def case_prod_unfold)
  moreover have "vf_input_owners v = map_of (rev (map (\<lambda>(i, own, label). (i, own)) ?inputs))"
    using d by (simp add: describes_def)
  ultimately have owner_of: "vf_input_owners v i = Some own" if "(i, own, label) \<in> set ?inputs" for i own label
    using that by (force simp: map_of_eq_Some_iff)
  have input: "\<exists>own. (nd_id n, own, label) \<in> set ?inputs \<and> vf_input_owners v (nd_id n) = Some own"
    if "n \<in> set nodes" "input_label (nd_kind n) = Some label" for n label
  proof -
    have "nd_id n \<notin> F" "nd_id n \<in> set (gt_preorder t)" using that(1) apart pre(1) by auto
    moreover have "fresh_node nodes (nd_id n) = Some n" by (rule fresh_node_distinct [OF dist that(1)])
    ultimately have "\<exists>own. (nd_id n, own, label) \<in> set ?inputs"
      using inputs_found [OF pre(3)] fresh that(2) by blast
    with owner_of show ?thesis by blast
  qed
  then show "\<forall>n \<in> set nodes. input_label (nd_kind n) \<noteq> None \<longrightarrow> vf_input_owners v (nd_id n) \<noteq> None" by fastforce
  have names: "distinct (map snd (gt_inputs (fresh_node nodes) F owner t))"
    if "spells root nodes F t'" "distinct (map snd (gt_inputs (fresh_node nodes) F owner t'))" for t'
  proof -
    have "t' = t"
      using that(1) t fits_unique [of "fresh_node nodes" F t' t] by (auto simp: spells_def)
    with that(2) show ?thesis by simp
  qed
  then have apart_names: "distinct (map snd ?inputs)" using acc by (auto simp: acceptable_def)
  show "distinct (input_names (vf_input_owners v) nodes)"
    unfolding input_names_def
  proof (rule distinct_pieces)
    show "distinct nodes" using dist by (simp add: distinct_map)
    let ?f = "\<lambda>n. case input_label (nd_kind n) of None \<Rightarrow> [] | Some label \<Rightarrow> [(the (vf_input_owners v (nd_id n)), label)]"
    show "\<forall>n \<in> set nodes. distinct (?f n)" by (auto split: option.split)
    show "\<forall>n \<in> set nodes. \<forall>m \<in> set nodes. n \<noteq> m \<longrightarrow> set (?f n) \<inter> set (?f m) = {}"
    proof (intro ballI impI)
      fix n m assume n: "n \<in> set nodes" and m: "m \<in> set nodes" and ne: "n \<noteq> m"
      show "set (?f n) \<inter> set (?f m) = {}"
      proof (rule ccontr)
        assume "set (?f n) \<inter> set (?f m) \<noteq> {}"
        then obtain label where l: "input_label (nd_kind n) = Some label" "input_label (nd_kind m) = Some label"
          "the (vf_input_owners v (nd_id n)) = the (vf_input_owners v (nd_id m))"
          by (cases "input_label (nd_kind n)"; cases "input_label (nd_kind m)") auto
        from input [OF n l(1)] input [OF m l(2)] l(3) obtain own where
          "(nd_id n, own, label) \<in> set ?inputs" "(nd_id m, own, label) \<in> set ?inputs" by auto
        moreover have "inj_on snd (set ?inputs)" using apart_names by (simp add: distinct_map)
        ultimately have "(nd_id n, own, label) = (nd_id m, own, label)"
          using inj_onD [of snd "set ?inputs" "(nd_id n, own, label)" "(nd_id m, own, label)"] by simp
        then have "nd_id n = nd_id m" by simp
        with n m ne dist show False by (auto simp: distinct_map inj_on_def)
      qed
    qed
  qed
qed

end
