(* ===== verification/ApplyScope.thy ===== *)
theory ApplyScope
  imports ApplyPlan
begin

text \<open>
  The walk that compares structural scopes returns, and with it every check of an ordinary
  application on a consistent graph.
\<close>

section \<open>The scope walk\<close>

lemma scope_children_total:
  "\<forall>c \<in> set cs. found c \<noteq> None \<Longrightarrow>
   \<exists>kids. scope_children found position seen cs = Some kids \<and> map fst kids = cs \<and> (\<forall>x \<in> set kids. \<not> snd (snd x))"
proof (induction cs arbitrary: position seen)
  case (Cons c cs)
  then obtain n where n: "found c = Some n" by auto
  let ?name = "sibling_name (nd_kind n)"
  let ?k = "(tag (nd_kind n), case ?name of None \<Rightarrow> [] | Some s \<Rightarrow> s)"
  obtain kids where "scope_children found (Suc position) (if ?name = None then seen else seen(?k := seen ?k + 1)) cs = Some kids"
    "map fst kids = cs" "\<forall>x \<in> set kids. \<not> snd (snd x)" using Cons.IH Cons.prems by fastforce
  with n show ?case by (simp add: Let_def)
qed simp

lemma scope_kept_total:
  assumes "well_formed g" and "indexed g"
  shows "\<exists>r. scope_kept g kind trail = Some r"
proof -
  have "\<exists>here. identity g old = Some here" if "mg_boundaries g i = Some old" for i old
  proof (rule identity_total [OF assms(1)])
    from that indexedD(1) [OF assms(2)] have "mounted_kind g old = Some (Boundary i)" by simp
    then show "mg_nodes g old \<noteq> None" by (auto simp: mounted_kind_def mounted_def)
  qed
  then show ?thesis by (fastforce simp: scope_kept_def split: option.splits)
qed

definition scope_passes ::
  "(apply_error option option) \<Rightarrow> (apply_error option option) \<Rightarrow> bool" where
  "scope_passes r r' \<longleftrightarrow> (\<exists>e. r = Some (Some e)) \<or> r = r'"

lemma scope_forest:
  assumes step: "\<And>t seg rest trail. t \<in> set ts \<Longrightarrow>
      scope_passes (scope_walk g fresh found F ((gt_id t, seg, False) # rest) trail) (scope_walk g fresh found F rest trail)"
  shows "map fst kids = map gt_id ts \<Longrightarrow> \<forall>x \<in> set kids. \<not> snd (snd x) \<Longrightarrow>
    scope_passes (scope_walk g fresh found F (kids @ rest) trail) (scope_walk g fresh found F rest trail)"
  using step
proof (induction ts arbitrary: kids)
  case (Cons t ts)
  then obtain seg kids' where kids: "kids = (gt_id t, seg, False) # kids'" by (cases kids) auto
  have "scope_passes (scope_walk g fresh found F (kids @ rest) trail) (scope_walk g fresh found F (kids' @ rest) trail)"
    using Cons.prems(3) kids by simp
  moreover have "scope_passes (scope_walk g fresh found F (kids' @ rest) trail) (scope_walk g fresh found F rest trail)"
    using Cons.IH [of kids'] Cons.prems kids by simp
  ultimately show ?case by (auto simp: scope_passes_def)
qed (simp add: scope_passes_def)

lemma scope_tree:
  assumes "well_formed g" and "indexed g" and "F \<subseteq> dom (mg_nodes g)"
  shows "fits fresh F t \<Longrightarrow> (\<And>i n c. fresh i = Some n \<Longrightarrow> c \<in> set (nd_children n) \<Longrightarrow> found c \<noteq> None) \<Longrightarrow>
    scope_passes (scope_walk g fresh found F ((gt_id t, seg, False) # rest) trail) (scope_walk g fresh found F rest trail)"
proof (induction t arbitrary: seg rest trail)
  case (GNode i ts)
  show ?case
  proof (cases "i \<in> F")
    case True
    then have "mg_nodes g i \<noteq> None" using assms(3) by auto
    then obtain here where "identity g i = Some here" using identity_total [OF assms(1)] by blast
    with True show ?thesis by (subst scope_walk.simps) (simp add: scope_passes_def)
  next
    case False
    with GNode.prems(1) obtain n where n: "fresh i = Some n" "nd_children n = map gt_id ts"
      and ts: "\<forall>t \<in> set ts. fits fresh F t" by auto
    obtain r where r: "scope_kept g (nd_kind n) (trail @ [seg]) = Some r" using scope_kept_total assms(1,2) by blast
    show ?thesis
    proof (cases r)
      case (Some e)
      with False n(1) r show ?thesis by (subst scope_walk.simps) (simp add: scope_passes_def)
    next
      case None
      obtain kids where kids: "scope_children found 0 (\<lambda>_. 0) (nd_children n) = Some kids"
        "map fst kids = nd_children n" "\<forall>x \<in> set kids. \<not> snd (snd x)"
        using scope_children_total [of "nd_children n" found 0 "\<lambda>_. 0"] GNode.prems(2) [OF n(1)] by blast
      have walk: "scope_walk g fresh found F ((i, seg, False) # rest) trail =
          scope_walk g fresh found F (kids @ (i, seg, True) # rest) (trail @ [seg])"
        using False n(1) r None kids(1) by (subst scope_walk.simps) simp
      have leave: "scope_walk g fresh found F ((i, seg, True) # rest) (trail @ [seg]) =
          scope_walk g fresh found F rest trail"
        by (subst scope_walk.simps) simp
      have "scope_passes (scope_walk g fresh found F (kids @ (i, seg, True) # rest) (trail @ [seg]))
          (scope_walk g fresh found F ((i, seg, True) # rest) (trail @ [seg]))"
      proof (rule scope_forest [of ts])
        show "scope_passes (scope_walk g fresh found F ((gt_id t, s, False) # rest) trail)
            (scope_walk g fresh found F rest trail)" if "t \<in> set ts" for t s rest trail
          using GNode.IH [OF that] GNode.prems(2) ts that by blast
      qed (use kids n(2) in auto)
      then show ?thesis using walk leave by simp
    qed
  qed
qed

section \<open>The plan\<close>

lemma unclaimed_after:
  assumes v: "validate_fragment root nodes F owner look = Ok v"
    and fresh: "check_fresh g R (vf_input_owners v) nodes = Ok ()"
    and ok: "indexed g" "bounded g"
    and g2: "mg_nodes g2 = mg_nodes g |` (- R)" "indexed g2" "\<forall>i. i \<notin> R \<longrightarrow> mg_owners g2 i = mg_owners g i"
  shows "unclaimed (vf_input_owners v) nodes g2"
proof -
  note valid = validated_fragment [OF v]
  from check_fresh_spec [OF valid(7), of g R] fresh have checks: "\<forall>n \<in> set nodes. mg_max_node g < nd_id n \<and>
      (is_dialog (nd_kind n) \<longrightarrow> \<not> survives R (mg_dialog g)) \<and>
      (\<forall>label. input_label (nd_kind n) = Some label \<longrightarrow> \<not> survives R (mg_labels g (the (vf_input_owners v (nd_id n)), label))) \<and>
      (\<forall>i. boundary_instance (nd_kind n) = Some i \<longrightarrow> \<not> survives R (mg_boundaries g i))" by blast
  have kinds: "mounted_kind g2 i = (if i \<in> R then None else mounted_kind g i)" for i
    by (simp add: mounted_kind_def mounted_def g2(1))
  have "nd_id n \<notin> dom (mg_nodes g2)" if "n \<in> set nodes" for n
  proof
    assume "nd_id n \<in> dom (mg_nodes g2)"
    then have "nd_id n \<in> dom (mg_nodes g)" by (auto simp: g2(1) restrict_map_def split: if_splits)
    then have "nd_id n \<le> mg_max_node g" using ok(2) by (simp add: bounded_def)
    moreover have "mg_max_node g < nd_id n" using checks that by blast
    ultimately show False by simp
  qed
  then have ids: "nd_id ` set nodes \<inter> dom (mg_nodes g2) = {}" by blast
  have "i \<notin> dom (mg_boundaries g2)" if i: "i \<in> set (instances nodes)" for i
  proof
    assume "i \<in> dom (mg_boundaries g2)"
    then obtain nid where "mg_boundaries g2 i = Some nid" by blast
    then have "mounted_kind g nid = Some (Boundary i)" "nid \<notin> R"
      using indexedD(1) [OF g2(2), of i nid] kinds [of nid] by (auto split: if_splits)
    then have "survives R (mg_boundaries g i)" using indexedD(1) [OF ok(1), of i nid] by (simp add: survives_def)
    moreover obtain n where "n \<in> set nodes" "boundary_instance (nd_kind n) = Some i"
      using i by (auto simp: instances_def map_filter_def)
    ultimately show False using checks by blast
  qed
  then have inst: "set (instances nodes) \<inter> dom (mg_boundaries g2) = {}" by blast
  have dialog: "mg_dialog g2 = None" if many: "0 < dialogs nodes"
  proof (rule ccontr)
    assume "mg_dialog g2 \<noteq> None"
    then obtain d where "mg_dialog g2 = Some d" by blast
    then have "kind_at g d is_dialog" "d \<notin> R"
      using indexedD(2) [OF g2(2), of d] kinds [of d] by (auto simp: kind_at_def split: if_splits)
    then have "survives R (mg_dialog g)" using indexedD(2) [OF ok(1), of d] by (simp add: survives_def)
    moreover obtain n where "n \<in> set nodes" "is_dialog (nd_kind n)"
      using many by (fastforce simp: dialogs_def filter_empty_conv)
    ultimately show False using checks by blast
  qed
  have "x \<notin> dom (mg_labels g2)" if x: "x \<in> set (input_names (vf_input_owners v) nodes)" for x
  proof
    assume "x \<in> dom (mg_labels g2)"
    moreover obtain own label where xx: "x = (own, label)" by (cases x)
    ultimately obtain nid where "mg_labels g2 (own, label) = Some nid" by blast
    then have "mg_owners g2 nid = Some own" "kind_at g2 nid (\<lambda>kind. input_label kind = Some label)"
      using indexedD(4) [OF g2(2), of own label nid] by simp_all
    then have "nid \<notin> R" "mg_owners g nid = Some own" "kind_at g nid (\<lambda>kind. input_label kind = Some label)"
      using kinds [of nid] g2(3) by (auto simp: kind_at_def split: if_splits)
    then have "survives R (mg_labels g (own, label))"
      using indexedD(4) [OF ok(1), of own label nid] by (simp add: survives_def)
    moreover obtain n where "n \<in> set nodes" "input_label (nd_kind n) = Some label" "own = the (vf_input_owners v (nd_id n))"
      using x xx by (auto simp: input_names_def split: option.splits)
    ultimately show False using checks by blast
  qed
  then have "set (input_names (vf_input_owners v) nodes) \<inter> dom (mg_labels g2) = {}" by blast
  with ids inst dialog valid show ?thesis by (simp add: unclaimed_def)
qed

text \<open>What the plan records about the target and the retired region.\<close>

definition region_planned :: "u64 option \<Rightarrow> mounted_graph \<Rightarrow> retired_region \<Rightarrow> bool" where
  "region_planned old g region \<longleftrightarrow>
     (case old of
        None \<Rightarrow> mg_root g = None \<and> rr_frontier region = {} \<and> rr_removed region = [] \<and> rr_location region = None
      | Some target \<Rightarrow>
          mg_nodes g target \<noteq> None \<and> target \<notin> rr_frontier region \<and>
          retire_walk g (rr_frontier region) [target] {} [] = Some (rr_frontier region, rr_removed region) \<and>
          rr_location region = parent_location g target \<and>
          (parent_location g target = None \<longrightarrow> mg_root g = Some target)) \<and>
     rr_parent region = map_option location_position (rr_location region) \<and>
     rr_frontier region \<subseteq> dom (mg_nodes g)"

lemma region_facts:
  assumes "plan_region old retained g = Ok region"
  shows "region_planned old g region"
proof -
  have early: "\<not> (old = None \<and> mg_root g \<noteq> None)" "\<not> (case old of None \<Rightarrow> False | Some nid \<Rightarrow> mg_nodes g nid = None)"
    using assms by (auto simp: plan_region_def split: if_splits)
  from assms early obtain F a b R where
    at: "\<not> (old \<noteq> None \<and> Option.bind old (parent_location g) = None \<and> old \<noteq> mg_root g)" and
    F: "check_retained g old retained ({}, 0, 0) = Ok (F, a, b)" and
    R: "retire_walk g F (case old of None \<Rightarrow> [] | Some nid \<Rightarrow> [nid]) {} [] = Some (F, R)" and
    region: "rr_location region = Option.bind old (parent_location g)" "rr_frontier region = F" "rr_removed region = R"
      "rr_parent region = map_option location_position (Option.bind old (parent_location g))"
    unfolding plan_region_def Let_def by (auto split: if_splits)
  have spec: "F = set retained \<and> set retained \<subseteq> dom (mg_nodes g) \<and> (\<forall>r \<in> set retained. Some r \<noteq> old)"
    using check_retained_spec [of g old retained "{}" 0 0 F a b] F by simp
  show ?thesis
  proof (cases old)
    case None
    have "F = {} \<and> R = []" using R None by (simp add: retire_walk.simps)
    with None early(1) region show ?thesis by (simp add: region_planned_def)
  next
    case (Some target)
    with spec early(2) at R region show ?thesis by (auto simp: region_planned_def)
  qed
qed

lemma fragment_facts:
  assumes "plan_fragment root nodes region g = Ok (v, own)"
  shows "\<exists>owner. validate_fragment root nodes (rr_frontier region) owner (mounted g) = Ok v"
    and "check_fresh g (set (rr_removed region)) (vf_input_owners v) nodes = Ok ()"
  using assms by (auto simp: plan_fragment_def split: if_splits)

lemma count_namesakes_total: "set cs \<subseteq> dom (mg_nodes g) \<Longrightarrow> count_namesakes g kind cs k \<noteq> None"
proof (induction cs arbitrary: k)
  case (Cons c cs)
  then obtain n where "mounted g c = Some n" by (auto simp: mounted_def)
  then show ?case using Cons by simp
qed simp

lemma tree_children:
  assumes "graph_tree g t" and "i \<in> set (gt_preorder t)"
  shows "\<exists>cs. children_of g i = Some cs \<and> set cs \<subseteq> dom (mg_nodes g)"
proof -
  have t: "held g t" "distinct (gt_preorder t)" "dom (mg_nodes g) = set (gt_preorder t)"
    using assms(1) by (simp_all add: graph_tree_def)
  have s: "held g (sub t i)" "gt_id (sub t i) = i" using sub_held [OF t(1,2) assms(2)] sub_id [OF t(2) assms(2)] by simp_all
  obtain ts where ts: "sub t i = GNode i ts" using s(2) by (cases "sub t i") auto
  have "children_of g i = Some (map gt_id ts)" using held_children s(1) ts by simp
  moreover have "gt_id u \<in> dom (mg_nodes g)" if "u \<in> set ts" for u
  proof -
    have "gt_id u \<in> set (gt_preorder (GNode i ts))" using that gt_id_in_preorder [of u] by force
    then show ?thesis using held_mounted [OF s(1)] unfolding ts by (rule rev_subsetD)
  qed
  then have "set (map gt_id ts) \<subseteq> dom (mg_nodes g)" by auto
  ultimately show ?thesis by blast
qed

lemma located_parent:
  assumes t: "graph_tree g t" and "i \<in> set (gt_preorder t)" and "parent_location g i = Some l"
  shows "location_parent l \<in> set (gt_preorder t)"
proof -
  have "mg_nodes g i \<noteq> None" using t assms(2) by (auto simp: graph_tree_def)
  moreover have "well_formed g" using t by (auto simp: well_formed_def)
  ultimately obtain ls where ls: "climbs g i ls" "\<forall>l \<in> set ls. mg_nodes g (location_parent l) \<noteq> None"
    using mounted_climbs by blast
  from ls(1) have "l \<in> set ls" using assms(3) by (cases rule: climbs.cases) auto
  then show ?thesis using ls(2) t by (auto simp: graph_tree_def)
qed

lemma region_total:
  assumes wf: "well_formed g"
  shows "plan_region old retained g \<noteq> Panic"
proof
  assume panic: "plan_region old retained g = Panic"
  have early: "\<not> (case old of None \<Rightarrow> False | Some nid \<Rightarrow> mg_nodes g nid = None)"
    using panic unfolding plan_region_def by (simp only: split: if_splits) auto
  have "check_retained g old retained ({}, 0, 0) \<noteq> Panic"
    using check_retained_spec [of g old retained "{}" 0 0] by blast
  moreover have walk: "\<exists>r. retire_walk g F (case old of None \<Rightarrow> [] | Some nid \<Rightarrow> [nid]) {} [] = Some r" for F
  proof (cases old)
    case (Some target)
    with early obtain t where t: "graph_tree g t" using wf by (auto simp: well_formed_def)
    then have target: "target \<in> set (gt_preorder t)" using early Some by (auto simp: graph_tree_def)
    have h: "held g t" "distinct (gt_preorder t)" using t by (simp_all add: graph_tree_def)
    have "spread (children_of g) (sub t target)" by (rule held_spread [OF sub_held [OF h target]])
    from retire_walk_tree [OF this, of F] sub_id [OF h(2) target] Some show ?thesis by simp
  qed (simp add: retire_walk.simps)
  ultimately show False
  proof (cases "check_retained g old retained ({}, 0, 0)")
    case (Ok r)
    obtain F a b where r: "r = (F, a, b)" by (cases r)
    obtain reached removed where "retire_walk g F (case old of None \<Rightarrow> [] | Some nid \<Rightarrow> [nid]) {} [] = Some (reached, removed)"
      using walk by fastforce
    with panic Ok r show False by (simp add: plan_region_def Let_def split: if_splits)
  qed (use panic in \<open>simp_all add: plan_region_def Let_def split: if_splits\<close>)
qed

lemma region_parent:
  assumes wf: "well_formed g" and region: "region_planned old g region" and slot: "rr_parent region = Some (p, position)"
  shows "mg_nodes g p \<noteq> None" and "\<exists>cs. children_of g p = Some cs \<and> set cs \<subseteq> dom (mg_nodes g)"
proof -
  have "\<exists>target l. mg_nodes g target \<noteq> None \<and> parent_location g target = Some l \<and> location_position l = (p, position)"
  proof (cases old)
    case (Some target)
    with region slot have "mg_nodes g target \<noteq> None" "map_option location_position (parent_location g target) = Some (p, position)"
      by (simp_all add: region_planned_def)
    then show ?thesis by auto
  qed (use region slot in \<open>auto simp: region_planned_def\<close>)
  then obtain target l where l: "mg_nodes g target \<noteq> None" "parent_location g target = Some l"
    "location_position l = (p, position)" by blast
  from wf l(1) obtain t where t: "graph_tree g t" by (auto simp: well_formed_def)
  then have "target \<in> set (gt_preorder t)" using l(1) by (auto simp: graph_tree_def)
  from located_parent [OF t this l(2)] have "location_parent l \<in> set (gt_preorder t)" .
  moreover have "p = location_parent l" using l(3) by (cases l) (simp_all add: location_position_def)
  ultimately show "mg_nodes g p \<noteq> None" "\<exists>cs. children_of g p = Some cs \<and> set cs \<subseteq> dom (mg_nodes g)"
    using tree_children [OF t] t by (auto simp: graph_tree_def)
qed

lemma place_total:
  assumes wf: "well_formed g" and region: "region_planned old g region"
  shows "\<exists>r. place_owner g (rr_parent region) = Some r" "\<exists>r. place_identity g (rr_parent region) = Some r"
    "\<exists>s. root_segment_of g (rr_parent region) kind = Some s"
proof -
  have all: "(\<exists>r. place_owner g (rr_parent region) = Some r) \<and> (\<exists>r. place_identity g (rr_parent region) = Some r) \<and>
    (\<exists>s. root_segment_of g (rr_parent region) kind = Some s)"
  proof (cases "rr_parent region")
    case (Some x)
    obtain p position where x: "x = (p, position)" by (cases x)
    note at = region_parent [OF wf region, of p position]
    obtain cs where cs: "children_of g p = Some cs" "set cs \<subseteq> dom (mg_nodes g)" using at(2) Some x by blast
    have "set (take position cs) \<subseteq> dom (mg_nodes g)" using cs(2) set_take_subset by fastforce
    then obtain k where "count_namesakes g kind (take position cs) 0 = Some k" using count_namesakes_total by blast
    with cs(1) show ?thesis
      using Some x at(1) identity_total [OF wf] owner.returns [OF wf]
      by (auto simp: place_owner_def place_identity_def root_segment_of_def)
  qed (simp add: place_owner_def place_identity_def root_segment_of_def)
  then show "\<exists>r. place_owner g (rr_parent region) = Some r" "\<exists>r. place_identity g (rr_parent region) = Some r"
    "\<exists>s. root_segment_of g (rr_parent region) kind = Some s" by blast+
qed

lemma validated_found:
  assumes v: "validate_fragment root nodes F own (mounted g) = Ok v" and inside: "F \<subseteq> dom (mg_nodes g)"
    and i: "i \<in> insert root (set (concat (map nd_children nodes)))"
  shows "\<exists>n. found_at v nodes g i = Some n"
proof -
  obtain t where t: "spells root nodes F t" using validated_fragment(1) [OF v] by blast
  have "i \<in> nd_id ` set nodes \<union> F" using i unfolding spelled_facts(2) [OF t validated_fragment(3,4) [OF v]] .
  then have "\<exists>n. found_node nodes (mounted g) i = Some n"
    using inside fresh_node_None [of nodes i]
    by (cases "fresh_node nodes i") (auto simp: found_node_def mounted_def)
  then show ?thesis by (simp add: found_at_def validated_fragment(2) [OF v])
qed

lemma scope_total:
  assumes wf: "well_formed g" and ix: "indexed g" and inside: "F \<subseteq> dom (mg_nodes g)"
    and v: "validate_fragment root nodes F own (mounted g) = Ok v"
  shows "\<exists>r. scope_walk g (fresh_at v nodes) (found_at v nodes g) F [(root, s, False)] trail = Some r"
proof -
  obtain t where t: "spells root nodes F t" "node_at (vf_indices v) nodes = fresh_node nodes"
    using validated_fragment(1) [OF v] by blast
  have at: "fresh_at v nodes = fresh_node nodes"
  proof
    fix i
    have "fresh_at v nodes i = node_at (vf_indices v) nodes i"
      by (simp add: fresh_at_def node_at_index split: option.split)
    then show "fresh_at v nodes i = fresh_node nodes i" using t(2) by simp
  qed
  have "scope_passes (scope_walk g (fresh_at v nodes) (found_at v nodes g) F ((gt_id t, s, False) # []) trail)
      (scope_walk g (fresh_at v nodes) (found_at v nodes g) F [] trail)"
  proof (rule scope_tree [OF wf ix inside])
    show "fits (fresh_at v nodes) F t" using t(1) at by (simp add: spells_def)
    fix i n c assume n: "fresh_at v nodes i = Some n" "c \<in> set (nd_children n)"
    then have "n \<in> set nodes" using at fresh_node_id by simp
    with n(2) have "c \<in> insert root (set (concat (map nd_children nodes)))" by auto
    then show "found_at v nodes g c \<noteq> None" using validated_found [OF v inside] by blast
  qed
  then show ?thesis using t(1) by (auto simp: scope_passes_def spells_def scope_walk.simps)
qed

lemma fragment_total:
  assumes wf: "well_formed g" and ix: "indexed g" and region: "region_planned old g region"
  shows "plan_fragment root nodes region g \<noteq> Panic"
proof
  assume panic: "plan_fragment root nodes region g = Panic"
  have inside: "rr_frontier region \<subseteq> dom (mg_nodes g)" using region by (simp add: region_planned_def)
  note place = place_total [OF wf region]
  obtain owner outer where o: "place_owner g (rr_parent region) = Some owner" "place_identity g (rr_parent region) = Some outer"
    using place(1,2) by blast
  show False
  proof (cases "validate_fragment root nodes (rr_frontier region) owner (mounted g)")
    case (Ok v)
    obtain n where n: "found_at v nodes g root = Some n" using validated_found [OF Ok inside] by blast
    obtain s where s: "root_segment_of g (rr_parent region) (nd_kind n) = Some s" using place(3) by blast
    obtain r where r: "scope_walk g (fresh_at v nodes) (found_at v nodes g) (rr_frontier region) [(root, s, False)] outer = Some r"
      using scope_total [OF wf ix inside Ok] by blast
    have "check_fresh g (set (rr_removed region)) (vf_input_owners v) nodes \<noteq> Panic"
      using check_fresh_spec [OF validated_fragment(7) [OF Ok]] by blast
    with panic o Ok n s r show False
      by (cases "check_fresh g (set (rr_removed region)) (vf_input_owners v) nodes")
        (auto simp: plan_fragment_def split: if_splits)
  qed (use panic o validate_fragment_total [of root nodes "rr_frontier region" owner "mounted g"] in
      \<open>auto simp: plan_fragment_def\<close>)
qed

end
