(* ===== verification/ApplyTree.thy ===== *)
theory ApplyTree
  imports ApplyScope
begin

text \<open>
  Committing a checked patch on a consistent graph: the new subtree takes the place of the old
  one, the retained subtrees are held by their new parents, and the graph stays consistent.
\<close>

section \<open>Adopting the new root\<close>

lemma held_around_map:
  assumes "held_around g f H t"
    and "\<And>i entry cs. i \<in> set (gt_preorder t) \<Longrightarrow> i \<notin> H \<Longrightarrow> mg_nodes g i = Some entry \<Longrightarrow>
      nd_id (mn_node entry) = i \<Longrightarrow> set cs \<subseteq> set (gt_preorder t) \<Longrightarrow> linked_children g i entry (map f cs) \<Longrightarrow>
      \<exists>entry'. mg_nodes g' i = Some entry' \<and> nd_id (mn_node entry') = i \<and> linked_children g' i entry' (map f' cs)"
  shows "held_around g' f' H t"
  using assms
proof (induction t)
  case (GNode i ts)
  show ?case
  proof (cases "i \<in> H")
    case False
    with GNode.prems(1) obtain entry where entry: "mg_nodes g i = Some entry" "nd_id (mn_node entry) = i"
      "linked_children g i entry (map f (map gt_id ts))" by (auto simp: comp_def)
    have "set (map gt_id ts) \<subseteq> set (gt_preorder (GNode i ts))" using gt_id_in_preorder by force
    from GNode.prems(2) [OF _ False entry(1,2) this entry(3)] obtain entry' where
      "mg_nodes g' i = Some entry'" "nd_id (mn_node entry') = i" "linked_children g' i entry' (map f' (map gt_id ts))"
      by auto
    moreover have "held_around g' f' H t" if t: "t \<in> set ts" for t
    proof (rule GNode.IH [OF t])
      show "held_around g f H t" using GNode.prems(1) False t by simp
      fix j entry cs
      assume "j \<in> set (gt_preorder t)" "j \<notin> H" "mg_nodes g j = Some entry" "nd_id (mn_node entry) = j"
        "set cs \<subseteq> set (gt_preorder t)" "linked_children g j entry (map f cs)"
      with t show "\<exists>entry'. mg_nodes g' j = Some entry' \<and> nd_id (mn_node entry') = j \<and> linked_children g' j entry' (map f' cs)"
        by (intro GNode.prems(2)) auto
    qed
    ultimately show ?thesis by (auto simp: comp_def)
  qed simp
qed

lemma held_around_carve: "held g t \<Longrightarrow> held_around g id H (carve H t)"
  by (induction t) (auto simp: comp_def)

lemma distinct_roots: "distinct (concat (map gt_preorder ts)) \<Longrightarrow> distinct (map gt_id ts)"
proof (induction ts)
  case (Cons t ts)
  have "gt_id t \<notin> set (map gt_id ts)"
  proof
    assume "gt_id t \<in> set (map gt_id ts)"
    then obtain u where "u \<in> set ts" "gt_id t = gt_id u" by auto
    then have "gt_id t \<in> set (concat (map gt_preorder ts))" using gt_id_in_preorder [of u] by force
    moreover have "gt_id t \<in> set (gt_preorder t)" by simp
    moreover have "set (gt_preorder t) \<inter> set (concat (map gt_preorder ts)) = {}" using Cons.prems by simp
    ultimately show False by blast
  qed
  with Cons show ?case by simp
qed simp

lemma parent_entry:
  "held g t \<Longrightarrow> distinct (gt_preorder t) \<Longrightarrow> target \<in> set (gt_preorder t) \<Longrightarrow> target \<noteq> gt_id t \<Longrightarrow>
   \<exists>p entry cs. mg_nodes g p = Some entry \<and> linked_children g p entry cs \<and> target \<in> set cs \<and> distinct cs \<and>
     p \<in> set (gt_preorder (carve {target} t)) - {target} \<and> set cs \<subseteq> set (gt_preorder (carve {target} t))"
proof (induction t)
  case (GNode i ts)
  then obtain u where u: "u \<in> set ts" "target \<in> set (gt_preorder u)" by auto
  have i: "i \<noteq> target" using GNode.prems(4) by simp
  show ?case
  proof (cases "target = gt_id u")
    case True
    obtain entry where entry: "mg_nodes g i = Some entry" "linked_children g i entry (map gt_id ts)"
      using GNode.prems(1) by auto
    have "distinct (map gt_id ts)" by (rule distinct_roots) (use GNode.prems(2) in simp)
    moreover have "gt_id w \<in> set (gt_preorder (carve {target} w))" for w
      using gt_id_in_preorder [of "carve {target} w"] by simp
    ultimately show ?thesis
      using entry u True i by (intro exI [of _ i] exI [of _ entry] exI [of _ "map gt_id ts"]) auto
  next
    case False
    have "held g u" "distinct (gt_preorder u)" using GNode.prems(1,2) u(1) by (auto simp: distinct_concat_iff)
    from GNode.IH [OF u(1) this u(2) False] obtain p entry cs where
      "mg_nodes g p = Some entry" "linked_children g p entry cs" "target \<in> set cs" "distinct cs"
      "p \<in> set (gt_preorder (carve {target} u)) - {target}" "set cs \<subseteq> set (gt_preorder (carve {target} u))" by blast
    then show ?thesis using i u(1) by (intro exI [of _ p] exI [of _ entry] exI [of _ cs]) auto
  qed
qed

lemma represents_reroot:
  assumes "represents order (us @ (key, r, i) # vs)" and "ko_children order key = Some child"
  shows "represents (put_child key (child\<lparr>kc_root := root\<rparr>) order) (us @ (key, root, i) # vs)"
proof -
  have child: "child = \<lparr>kc_root = r, kc_instance = i, kc_previous = last_key None us, kc_next = first_key vs None\<rparr>"
    using represents_child [OF assms(1)] assms(2) by simp
  have "key \<notin> fst ` set us" "key \<notin> fst ` set vs" using assms(1) by (auto simp: represents_def)
  with assms(1) show ?thesis by (auto simp: child represents_linked linked_around)
qed

lemma map_replace:
  "distinct cs \<Longrightarrow> k < length cs \<Longrightarrow> map (\<lambda>c. if c = cs ! k then x else c) cs = cs[k := x]"
  by (rule nth_equalityI) (auto simp: nth_list_update nth_eq_iff_index_eq)

text \<open>The parent's entry in the graph \<open>h\<close> into which the new root has been inserted.\<close>

lemma adopt_links:
  assumes linked: "linked_children g p entry cs" and cs: "distinct cs" "k < length cs"
    and location: "parent_location g (cs ! k) = Some l"
    and entry': "mg_nodes h p = Some entry'" "mn_node entry' = mn_node entry" "mn_keyed entry' = mn_keyed entry"
    and root: "parent_location h root = Some l"
    and others: "\<forall>c \<in> set cs - {cs ! k}. parent_location h c = parent_location g c"
  shows "\<exists>new. adopt root l h = Some (h\<lparr>mg_nodes := (mg_nodes h)(p \<mapsto> new)\<rparr>) \<and>
    mn_parent new = mn_parent entry' \<and> nd_id (mn_node new) = nd_id (mn_node entry) \<and>
    nd_kind (mn_node new) = nd_kind (mn_node entry) \<and>
    (\<forall>h'. (\<forall>c. parent_location h' c = parent_location h c) \<longrightarrow> linked_children h' p new (cs[k := root]))"
proof -
  have places: "parent_location h (cs[k := root] ! j) = parent_location g (cs ! j)" if "j < length cs" for j
    using that root location others cs by (cases "j = k") (auto simp: nth_eq_iff_index_eq)
  show ?thesis
  proof (cases "mn_keyed entry")
    case None
    then have "nd_children (mn_node entry) = cs" and at: "\<forall>j < length cs. parent_location g (cs ! j) = Some (OrdinaryIndex p j)"
      using linked by (simp_all add: linked_children_def)
    moreover have "l = OrdinaryIndex p k" using at cs(2) location by simp
    ultimately show ?thesis
      using None entry' cs(2) places
      by (intro exI [of _ "entry'\<lparr>mn_node := (mn_node entry')\<lparr>nd_children := cs[k := root]\<rparr>\<rparr>"])
        (simp add: adopt_def on_entry_def linked_children_def)
  next
    case (Some order)
    then obtain items where items: "represents order items" "map (fst \<circ> snd) items = cs"
      and at: "\<forall>j < length cs. parent_location g (cs ! j) = Some (KeyedAt p (fst (items ! j)) (snd (snd (items ! j))))"
      and plain: "\<not> is_popover (nd_kind (mn_node entry))" "hidden_pane (nd_kind (mn_node entry)) = None"
      using linked by (auto simp: linked_children_def)
    have len: "length items = length cs" using items(2) by (metis length_map)
    obtain key r i where item: "items ! k = (key, r, i)" by (cases "items ! k")
    have split: "items = take k items @ (key, r, i) # drop (Suc k) items"
      using id_take_nth_drop [of k items] item cs(2) len by simp
    have l: "l = KeyedAt p key i" using at cs(2) location item by simp
    obtain child where child: "ko_children order key = Some child"
      using items(1) represents_child [of order "take k items" key r i "drop (Suc k) items"] split by auto
    have upd: "items[k := (key, root, i)] = take k items @ (key, root, i) # drop (Suc k) items"
      using cs(2) len by (simp add: upd_conv_take_nth_drop)
    have rep: "represents (put_child key (child\<lparr>kc_root := root\<rparr>) order) (items[k := (key, root, i)])"
      unfolding upd by (rule represents_reroot [where r = r, OF _ child]) (use items(1) split in simp)
    have ids: "map (fst \<circ> snd) (items[k := (key, root, i)]) = cs[k := root]"
      using items(2) by (simp add: map_update)
    let ?new = "entry'\<lparr>mn_keyed := Some (put_child key (child\<lparr>kc_root := root\<rparr>) order)\<rparr>"
    have "linked_children h' p ?new (cs[k := root])" if same: "\<forall>c. parent_location h' c = parent_location h c" for h'
    proof -
      have "parent_location h' (cs[k := root] ! j) =
          Some (KeyedAt p (fst (items[k := (key, root, i)] ! j)) (snd (snd (items[k := (key, root, i)] ! j))))"
        if "j < length (cs[k := root])" for j
        using that same places [of j] at item len by (cases "j = k") auto
      with rep ids plain entry'(2) show ?thesis unfolding linked_children_def by auto
    qed
    moreover have "adopt root l h = Some (h\<lparr>mg_nodes := (mg_nodes h)(p \<mapsto> ?new)\<rparr>)"
      using l entry'(1,3) Some child by (simp add: adopt_def on_entry_def)
    ultimately show ?thesis using entry'(2) by (intro exI [of _ ?new]) auto
  qed
qed

lemma adopt_holds:
  assumes t: "graph_tree g t" and target: "target \<in> set (gt_preorder t)" and l: "parent_location g target = Some l"
    and stay: "\<forall>i \<in> set (gt_preorder (carve {target} t)) - {target}. keeps g h i \<and> parent_location h i = parent_location g i"
    and root: "parent_location h root = Some l"
  shows "\<exists>new. adopt root l h = Some (h\<lparr>mg_nodes := (mg_nodes h)(location_parent l \<mapsto> new)\<rparr>) \<and>
    location_parent l \<in> set (gt_preorder (carve {target} t)) - {target} \<and>
    parent_location (h\<lparr>mg_nodes := (mg_nodes h)(location_parent l \<mapsto> new)\<rparr>) = parent_location h \<and>
    mounted_kind (h\<lparr>mg_nodes := (mg_nodes h)(location_parent l \<mapsto> new)\<rparr>) = mounted_kind h \<and>
    held_around (h\<lparr>mg_nodes := (mg_nodes h)(location_parent l \<mapsto> new)\<rparr>)
      (\<lambda>i. if i = target then root else i) {target} (carve {target} t)"
proof -
  have h: "held g t" "distinct (gt_preorder t)" "parent_location g (gt_id t) = None"
    using t by (simp_all add: graph_tree_def)
  have "target \<noteq> gt_id t" using l h(3) by auto
  from parent_entry [OF h(1,2) target this] obtain p entry cs where
    p: "mg_nodes g p = Some entry" "linked_children g p entry cs" "target \<in> set cs" "distinct cs"
      "p \<in> set (gt_preorder (carve {target} t)) - {target}" "set cs \<subseteq> set (gt_preorder (carve {target} t))" by blast
  have lp: "location_parent l = p" using linked_parent [OF p(2,3)] l by auto
  obtain k where k: "k < length cs" "cs ! k = target" using p(3) by (metis in_set_conv_nth)
  have "keeps g h p" using stay p(5) by blast
  from keeps_entry [OF this p(1)] obtain entry' where
    entry': "mg_nodes h p = Some entry'" "mn_node entry' = mn_node entry" "mn_keyed entry' = mn_keyed entry" by blast
  have others: "\<forall>c \<in> set cs - {cs ! k}. parent_location h c = parent_location g c"
    using stay p(6) k(2) by blast
  from adopt_links [OF p(2,4) k(1) _ entry' root others] l k(2) obtain new where
    new: "adopt root l h = Some (h\<lparr>mg_nodes := (mg_nodes h)(p \<mapsto> new)\<rparr>)" "mn_parent new = mn_parent entry'"
      "nd_id (mn_node new) = nd_id (mn_node entry)" "nd_kind (mn_node new) = nd_kind (mn_node entry)"
      "\<And>h'. (\<forall>c. parent_location h' c = parent_location h c) \<Longrightarrow> linked_children h' p new (cs[k := root])" by auto
  let ?h = "h\<lparr>mg_nodes := (mg_nodes h)(p \<mapsto> new)\<rparr>"
  have up: "parent_location ?h = parent_location h"
    using new(2) entry'(1) by (auto simp: parent_location_def fun_eq_iff)
  have kinds: "mounted_kind ?h = mounted_kind h"
    using new(4) entry'(1,2) by (auto simp: mounted_kind_def mounted_def fun_eq_iff)
  have kids: "children_of g p = Some cs" by (rule linked_children_of [OF p(1,2)])
  have "held_around ?h (\<lambda>i. if i = target then root else i) {target} (carve {target} t)"
  proof (rule held_around_map [OF held_around_carve [OF h(1)]])
    fix i e ds
    assume i: "i \<in> set (gt_preorder (carve {target} t))" "i \<notin> {target}" and e: "mg_nodes g i = Some e"
      "nd_id (mn_node e) = i" and ds: "set ds \<subseteq> set (gt_preorder (carve {target} t))"
      and linked: "linked_children g i e (map id ds)"
    show "\<exists>e'. mg_nodes ?h i = Some e' \<and> nd_id (mn_node e') = i \<and>
        linked_children ?h i e' (map (\<lambda>i. if i = target then root else i) ds)"
    proof (cases "i = p")
      case True
      have "children_of g p = Some ds" using linked_children_of [OF e(1) linked] True by simp
      then have "ds = cs" using kids by simp
      moreover have "map (\<lambda>i. if i = target then root else i) cs = cs[k := root]"
        using map_replace [OF p(4) k(1), of root] k(2) by simp
      moreover have "linked_children ?h p new (cs[k := root])" by (rule new(5)) (simp add: up)
      ultimately show ?thesis using True new(3) e p(1) by auto
    next
      case False
      have "target \<notin> set ds"
      proof
        assume "target \<in> set ds"
        from linked_parent [OF linked, of target] this l have "location_parent l = i" by auto
        with False lp show False by simp
      qed
      then have same: "map (\<lambda>i. if i = target then root else i) ds = map id ds" by (intro map_cong) auto
      have "keeps g h i" using stay i by blast
      from keeps_entry [OF this e(1)] obtain e' where
        e': "mg_nodes h i = Some e'" "mn_node e' = mn_node e" "mn_keyed e' = mn_keyed e" by blast
      have "linked_children ?h i e' (map id ds)"
        by (rule linked_keeps [OF linked e'(2,3)]) (use stay ds \<open>target \<notin> set ds\<close> up in auto)
      with e' e(2) False show ?thesis unfolding same by auto
    qed
  qed
  with new(1) up kinds p(5) lp show ?thesis by auto
qed

end
