(* ===== verification/ApplyKeeps.thy ===== *)
theory ApplyKeeps
  imports ApplyTree
begin

text \<open>
  An ordinary application on a consistent graph returns and leaves a consistent graph.
\<close>

section \<open>The parts of the old tree\<close>

lemma plug_parts:
  assumes holey: "holey H t" and dist: "distinct (gt_preorder t)"
    and own: "\<forall>i \<in> H \<inter> set (gt_preorder t). distinct (gt_preorder (m i)) \<and>
      set (gt_preorder (m i)) \<inter> (set (gt_preorder t) - H) = {}"
    and apart: "\<forall>i \<in> H. \<forall>j \<in> H. i \<noteq> j \<longrightarrow> set (gt_preorder (m i)) \<inter> set (gt_preorder (m j)) = {}"
  shows "distinct (gt_preorder (plug m H t))"
    and "set (gt_preorder (plug m H t)) =
      (set (gt_preorder t) - H) \<union> (\<Union>i \<in> H \<inter> set (gt_preorder t). set (gt_preorder (m i)))"
proof -
  note pre = plug_preorder [OF holey, of m]
  show "distinct (gt_preorder (plug m H t))"
    unfolding pre by (rule distinct_pieces [OF dist]) (use own apart in \<open>auto simp: piece_def\<close>)
  show "set (gt_preorder (plug m H t)) =
      (set (gt_preorder t) - H) \<union> (\<Union>i \<in> H \<inter> set (gt_preorder t). set (gt_preorder (m i)))"
    unfolding pre by (auto simp: piece_def split: if_splits)
qed

lemma carve_parts:
  assumes dist: "distinct (gt_preorder t)" and H: "H \<subseteq> set (gt_preorder (carve H t))"
  shows "set (gt_preorder t) = (set (gt_preorder (carve H t)) - H) \<union> (\<Union>i \<in> H. set (gt_preorder (sub t i)))"
    and "(set (gt_preorder (carve H t)) - H) \<inter> (\<Union>i \<in> H. set (gt_preorder (sub t i))) = {}"
    and "\<forall>i \<in> H. \<forall>j \<in> H. i \<noteq> j \<longrightarrow> set (gt_preorder (sub t i)) \<inter> set (gt_preorder (sub t j)) = {}"
proof -
  note pre = preorder_pieces [OF dist, of H]
  have d: "distinct (concat (map (piece (sub t) H) (gt_preorder (carve H t))))" using dist pre by simp
  note apart = distinct_pieces_disjoint [OF d carve_distinct [OF dist]]
  have "set (gt_preorder t) = (\<Union>i \<in> set (gt_preorder (carve H t)). set (piece (sub t) H i))"
    by (subst pre) simp
  then show "set (gt_preorder t) = (set (gt_preorder (carve H t)) - H) \<union> (\<Union>i \<in> H. set (gt_preorder (sub t i)))"
    using H by (auto simp: piece_def split: if_splits)
  show "(set (gt_preorder (carve H t)) - H) \<inter> (\<Union>i \<in> H. set (gt_preorder (sub t i))) = {}"
  proof (rule ccontr)
    assume "(set (gt_preorder (carve H t)) - H) \<inter> (\<Union>i \<in> H. set (gt_preorder (sub t i))) \<noteq> {}"
    then obtain j i where "j \<in> set (gt_preorder (carve H t))" "j \<notin> H" "i \<in> H" "j \<in> set (gt_preorder (sub t i))" by blast
    then show False using apart [of j i] H by (auto simp: piece_def)
  qed
  show "\<forall>i \<in> H. \<forall>j \<in> H. i \<noteq> j \<longrightarrow> set (gt_preorder (sub t i)) \<inter> set (gt_preorder (sub t j)) = {}"
  proof (intro ballI impI)
    fix i j assume "i \<in> H" "j \<in> H" "i \<noteq> j"
    then show "set (gt_preorder (sub t i)) \<inter> set (gt_preorder (sub t j)) = {}"
      using apart [of i j] H by (auto simp: piece_def)
  qed
qed

lemma carve_target: "i \<in> set (gt_preorder t) \<Longrightarrow> i \<in> set (gt_preorder (carve {i} t))"
  by (induction t) auto

section \<open>The new subtree\<close>

text \<open>
  The graph after the fragment \<open>f\<close> has been inserted holds the new subtree: the fragment with the
  retained subtrees of the old one plugged in.
\<close>

lemma new_subtree:
  assumes f: "spells root nodes F f" and ids: "nd_id ` set nodes \<inter> F = {}"
    and around: "held_around h id F f"
    and old: "\<forall>r \<in> F. held g (m r) \<and> gt_id (m r) = r \<and> distinct (gt_preorder (m r)) \<and>
      set (gt_preorder (m r)) \<inter> nd_id ` set nodes = {}"
    and apart: "\<forall>i \<in> F. \<forall>j \<in> F. i \<noteq> j \<longrightarrow> set (gt_preorder (m i)) \<inter> set (gt_preorder (m j)) = {}"
    and keeps: "\<forall>i. i \<in> (\<Union>r \<in> F. set (gt_preorder (m r))) \<longrightarrow> keeps g h i"
    and places: "\<forall>i. i \<in> (\<Union>r \<in> F. set (gt_preorder (m r))) - F \<longrightarrow> parent_location h i = parent_location g i"
  shows "held h (plug m F f)" and "gt_id (plug m F f) = root" and "distinct (gt_preorder (plug m F f))"
    and "set (gt_preorder (plug m F f)) = nd_id ` set nodes \<union> (\<Union>r \<in> F. set (gt_preorder (m r)))"
proof -
  have fits: "fits (fresh_node nodes) F f" and pre: "set (gt_preorder f) = nd_id ` set nodes \<union> F"
    and dist: "distinct (gt_preorder f)" and root: "gt_id f = root" using f by (simp_all add: spells_def)
  note holey = fits_holey [OF fits]
  have self: "(\<lambda>i. if i \<in> F then gt_id (m i) else i) = id" using old by (auto simp: fun_eq_iff)
  have "held h (m r)" if r: "r \<in> F" for r
  proof (rule held_keeps)
    show "held g (m r)" "distinct (gt_preorder (m r))" using old r by blast+
    show "\<forall>i \<in> set (gt_preorder (m r)). keeps g h i" using keeps r by blast
    have "i \<notin> F" if "i \<in> set (gt_preorder (m r)) - {r}" for i
    proof
      assume i: "i \<in> F"
      then have "i \<in> set (gt_preorder (m i))" using old gt_id_in_preorder [of "m i"] by simp
      then show False using apart r i that by blast
    qed
    then show "\<forall>i \<in> set (gt_preorder (m r)) - {gt_id (m r)}. parent_location h i = parent_location g i"
      using places old r by fastforce
  qed
  then show "held h (plug m F f)" using held_plug [OF holey, of h m] around self by auto
  show "gt_id (plug m F f) = root" using root old by (cases f) auto
  have F: "F \<inter> set (gt_preorder f) = F" using pre by blast
  have minus: "set (gt_preorder f) - F = nd_id ` set nodes" using pre ids by blast
  note parts = plug_parts [OF holey dist, of m]
  show "distinct (gt_preorder (plug m F f))" by (rule parts(1)) (use old apart minus in auto)
  have "set (gt_preorder (plug m F f)) =
      (set (gt_preorder f) - F) \<union> (\<Union>i \<in> F \<inter> set (gt_preorder f). set (gt_preorder (m i)))"
    by (rule parts(2)) (use old apart minus in auto)
  then show "set (gt_preorder (plug m F f)) = nd_id ` set nodes \<union> (\<Union>r \<in> F. set (gt_preorder (m r)))"
    unfolding F minus .
qed

lemma seedable_cong:
  "seedable found n \<Longrightarrow> (\<And>c. c \<in> set (nd_children n) \<Longrightarrow> found' c = found c) \<Longrightarrow> seedable found' n"
  by (auto simp: seedable_def split: option.splits)

section \<open>Attaching\<close>

text \<open>
  Attaching the root of the new subtree, given the graph \<open>g\<close> before the application and the graph
  \<open>h\<close> in which the new subtree \<open>new\<close> is held.
\<close>

lemma attach_place:
  assumes "held h new" and "distinct (gt_preorder new)" and "gt_id new = root"
  shows "\<exists>h'. on_entry root (\<lambda>entry. entry\<lparr>mn_parent := slot, mn_segment := s\<rparr>) h = Some h' \<and>
    relinked h h' \<and> held h' new \<and>
    (\<forall>i. parent_location h' i = (if i = root then slot else parent_location h i)) \<and>
    (\<exists>size. subtree_size h' root = Some size)"
proof -
  obtain entry where entry: "mg_nodes h root = Some entry" using held_entry [OF assms(1)] assms(3) by auto
  then have "mg_nodes h root \<noteq> None" by simp
  from on_entry_relinked [OF this, of "\<lambda>entry. entry\<lparr>mn_parent := slot, mn_segment := s\<rparr>"] obtain h' where
    h': "on_entry root (\<lambda>entry. entry\<lparr>mn_parent := slot, mn_segment := s\<rparr>) h = Some h'" "relinked h h'"
      "\<forall>i. parent_location h' i = (if i = root then slot else parent_location h i)" by auto
  have "held h' new"
    by (rule held_keeps [OF assms(1) _ _ assms(2)]) (use h'(3) assms(3) relinked_keeps [OF h'(2)] in auto)
  moreover have "mg_nodes h' root \<noteq> None" using relinked_mounted [OF h'(2)] entry by simp
  ultimately show ?thesis using h' by (auto simp: subtree_size_def)
qed

lemma attach_top:
  assumes new: "held h new" "distinct (gt_preorder new)" "gt_id new = root" "dom (mg_nodes h) = set (gt_preorder new)"
    and ok: "indexed h" "bounded h"
  shows "\<exists>h'. attach_root root None s unchanged old_size h = Some h' \<and> graph_ok h' \<and> graph_tree h' new \<and>
    (\<forall>i. keeps h h' i) \<and> mg_max_node h' = mg_max_node h"
proof -
  from attach_place [OF new(1-3), where slot = None and s = s] obtain h1 where
    h1: "on_entry root (\<lambda>entry. entry\<lparr>mn_parent := None, mn_segment := s\<rparr>) h = Some h1" "relinked h h1" "held h1 new"
      "\<forall>i. parent_location h1 i = (if i = root then None else parent_location h i)"
      "\<exists>size. subtree_size h1 root = Some size" by blast
  let ?h = "h1\<lparr>mg_root := Some root\<rparr>"
  have same: "parent_location ?h = parent_location h1" by (simp add: parent_location_def fun_eq_iff)
  have "held ?h new"
    by (rule held_keeps [OF h1(3) _ _ new(2)]) (simp_all add: keeps_def same)
  then have "graph_tree ?h new"
    using h1(4) new relinked_dom [OF h1(2)] by (simp add: graph_tree_def same)
  moreover have "indexed ?h"
    by (rule indexed_kinds [OF relinked_indexed [OF h1(2) ok(1)]]) (simp_all add: mounted_kind_def mounted_def)
  moreover have "bounded ?h" using relinked_bounded [OF h1(2) ok(2)] by (simp add: bounded_def instance_spent_def)
  moreover have "keeps h ?h i" for i using relinked_keeps [OF h1(2), of i] by (simp add: keeps_def)
  moreover have "mg_max_node ?h = mg_max_node h" using relinked_fields(2) [OF h1(2)] by simp
  ultimately show ?thesis using h1(1,5) by (auto simp: attach_root_def graph_ok_def well_formed_def)
qed

lemma attach_inside:
  assumes t: "graph_tree g t" and target: "target \<in> set (gt_preorder t)" and l: "parent_location g target = Some l"
    and new: "held h new" "distinct (gt_preorder new)" "gt_id new = root"
    and apart: "set (gt_preorder new) \<inter> (set (gt_preorder (carve {target} t)) - {target}) = {}"
    and all: "dom (mg_nodes h) = (set (gt_preorder (carve {target} t)) - {target}) \<union> set (gt_preorder new)"
    and stay: "\<forall>i \<in> set (gt_preorder (carve {target} t)) - {target}. keeps g h i \<and> parent_location h i = parent_location g i"
    and top: "mg_root h = mg_root g"
    and ok: "indexed h" "bounded h"
  shows "\<exists>h'. attach_root root (Some l) s unchanged old_size h = Some h' \<and> graph_ok h' \<and>
    graph_tree h' (plug (\<lambda>_. new) {target} (carve {target} t)) \<and>
    (\<forall>i. i \<notin> set (gt_preorder (carve {target} t)) - {target} \<longrightarrow> keeps h h' i) \<and>
    mounted_kind h' = mounted_kind h \<and> mg_max_node h' = mg_max_node h"
proof -
  let ?C = "carve {target} t" and ?roots = "\<lambda>i. if i = target then root else i"
  have dist: "distinct (gt_preorder t)" "parent_location g (gt_id t) = None" "mg_root g = Some (gt_id t)"
    using t by (simp_all add: graph_tree_def)
  have target': "target \<noteq> gt_id t" using l dist(2) by auto
  have root_in: "root \<in> set (gt_preorder new)" using new(3) gt_id_in_preorder [of new] by simp
  from attach_place [OF new, where slot = "Some l" and s = s] obtain h1 size where
    h1: "on_entry root (\<lambda>entry. entry\<lparr>mn_parent := Some l, mn_segment := s\<rparr>) h = Some h1" "relinked h h1" "held h1 new"
      "\<forall>i. parent_location h1 i = (if i = root then Some l else parent_location h i)"
      "subtree_size h1 root = Some size" by blast
  have stay1: "\<forall>i \<in> set (gt_preorder ?C) - {target}. keeps g h1 i \<and> parent_location h1 i = parent_location g i"
    using stay h1(4) apart root_in relinked_keeps [OF h1(2)] by (auto simp: keeps_def)
  have "parent_location h1 root = Some l" using h1(4) by simp
  from adopt_holds [OF t target l stay1 this] obtain entry where
    entry: "adopt root l h1 = Some (h1\<lparr>mg_nodes := (mg_nodes h1)(location_parent l \<mapsto> entry)\<rparr>)"
      "location_parent l \<in> set (gt_preorder ?C) - {target}"
      "parent_location (h1\<lparr>mg_nodes := (mg_nodes h1)(location_parent l \<mapsto> entry)\<rparr>) = parent_location h1"
      "mounted_kind (h1\<lparr>mg_nodes := (mg_nodes h1)(location_parent l \<mapsto> entry)\<rparr>) = mounted_kind h1"
      "held_around (h1\<lparr>mg_nodes := (mg_nodes h1)(location_parent l \<mapsto> entry)\<rparr>) ?roots {target} ?C" by blast
  define h2 where "h2 = h1\<lparr>mg_nodes := (mg_nodes h1)(location_parent l \<mapsto> entry)\<rparr>"
  have new2: "held h2 new"
    by (rule held_keeps [OF h1(3) _ _ new(2)]) (use apart entry(2,3) in \<open>auto simp: h2_def keeps_def\<close>)
  let ?t = "plug (\<lambda>_. new) {target} ?C"
  have roots: "(\<lambda>i. if i \<in> {target} then gt_id new else i) = ?roots" using new(3) by auto
  have "held h2 ?t" using held_plug [of "{target}" ?C h2 "\<lambda>_. new"] new2 entry(5) roots by (simp add: h2_def)
  moreover have parts: "distinct (gt_preorder ?t)" "set (gt_preorder ?t) = dom (mg_nodes h)"
  proof -
    have "target \<in> set (gt_preorder ?C)" by (rule carve_target [OF target])
    then have one: "{target} \<inter> set (gt_preorder ?C) = {target}" by blast
    note parts = plug_parts [of "{target}" ?C "\<lambda>_. new", OF holey_carve carve_distinct [OF dist(1)]]
    show "distinct (gt_preorder ?t)" by (rule parts(1)) (use new(2) apart in auto)
    have "set (gt_preorder ?t) = (set (gt_preorder ?C) - {target}) \<union>
        (\<Union>i \<in> {target} \<inter> set (gt_preorder ?C). set (gt_preorder new))"
      by (rule parts(2)) (use new(2) apart in auto)
    then show "set (gt_preorder ?t) = dom (mg_nodes h)" unfolding one all by simp
  qed
  moreover have dom2: "dom (mg_nodes h2) = dom (mg_nodes h)"
  proof -
    have "location_parent l \<in> dom (mg_nodes h1)" using entry(2) all relinked_dom [OF h1(2)] by blast
    then show ?thesis using relinked_dom [OF h1(2)] by (simp add: h2_def insert_absorb)
  qed
  moreover have top_id: "gt_id ?t = gt_id t" using target' by (cases t) auto
  moreover have "mg_root h2 = Some (gt_id t)" using top dist(3) relinked_fields(1) [OF h1(2)] by (simp add: h2_def)
  moreover have "parent_location h2 (gt_id t) = None"
  proof -
    have "gt_id t \<in> set (gt_preorder ?C) - {target}" using target' gt_id_in_preorder [of ?C] by simp
    then show ?thesis using stay1 dist(2) entry(3) by (simp add: h2_def)
  qed
  ultimately have tree2: "graph_tree h2 ?t" by (simp add: graph_tree_def)
  have ok2: "indexed h2" "bounded h2"
  proof -
    show "indexed h2"
      by (rule indexed_kinds [OF relinked_indexed [OF h1(2) ok(1)]]) (use entry(4) in \<open>simp_all add: h2_def\<close>)
    show "bounded h2"
      using relinked_bounded [OF h1(2) ok(2)] dom2 relinked_dom [OF h1(2)]
      by (simp add: bounded_def instance_spent_def h2_def)
  qed
  have p2: "location_parent l \<in> set (gt_preorder ?t)" using entry(2) parts(2) all by blast
  obtain h3 where h3: "(if unchanged then Some h2 else refresh_child_segments (location_parent l) h2) = Some h3" "resized h2 h3"
    using refresh_resized [of h2 "location_parent l"] tree_children [OF tree2 p2] by (cases unchanged) auto
  have tree3: "graph_tree h3 ?t" by (rule resized_tree [OF h3(2) tree2])
  then have "well_formed h3" by (auto simp: well_formed_def)
  moreover have "mg_nodes h3 (location_parent l) \<noteq> None" using tree3 p2 by (auto simp: graph_tree_def)
  ultimately obtain h4 where h4: "resize_walk old_size size (Some (location_parent l)) h3 = Some h4" "resized h3 h4"
    using resize_total by blast
  have tree4: "graph_tree h4 ?t" by (rule resized_tree [OF h4(2) tree3])
  have re: "relinked h2 h4" using relinked_trans h3(2) h4(2) by (auto simp: resized_def)
  have "attach_root root (Some l) s unchanged old_size h = Some h4"
  proof -
    have "adopt root l h1 = Some h2" using entry(1) by (simp add: h2_def)
    then show ?thesis using h1(1,5) h3(1) h4(1) by (cases unchanged) (simp_all add: attach_root_def)
  qed
  moreover have "keeps h h4 i" if "i \<notin> set (gt_preorder ?C) - {target}" for i
  proof -
    have "i \<noteq> location_parent l" using that entry(2) by auto
    then have "keeps h1 h2 i" by (simp add: keeps_def h2_def)
    then show ?thesis
      using relinked_keeps [OF h1(2), of i] relinked_keeps [OF re, of i] by (simp add: keeps_def)
  qed
  moreover have "mounted_kind h4 = mounted_kind h"
  proof
    fix i
    have "mounted_kind h4 i = mounted_kind h2 i" "mounted_kind h1 i = mounted_kind h i"
      using relinked_node [OF re, of i] relinked_node [OF h1(2), of i] by (simp_all add: mounted_kind_def)
    then show "mounted_kind h4 i = mounted_kind h i" using entry(4) by (simp add: h2_def)
  qed
  moreover have "mg_max_node h4 = mg_max_node h"
    using relinked_fields(2) [OF re] relinked_fields(2) [OF h1(2)] by (simp add: h2_def)
  ultimately show ?thesis
    using tree4 relinked_indexed [OF re ok2(1)] relinked_bounded [OF re ok2(2)]
    by (auto simp: graph_ok_def well_formed_def)
qed

section \<open>Committing\<close>

text \<open>The tree in which the subtree at the target is replaced, the retained subtrees moved.\<close>

definition tree_replaced :: "gtree \<Rightarrow> u64 \<Rightarrow> u64 set \<Rightarrow> gtree \<Rightarrow> gtree" where
  "tree_replaced t target F f = plug (\<lambda>_. plug (sub (sub t target)) F f) {target} (carve {target} t)"

lemma region_tree:
  assumes t: "graph_tree g t" and region: "region_planned (Some target) g region"
  shows "target \<in> set (gt_preorder t)"
    and "rr_frontier region \<subseteq> set (gt_preorder (carve (rr_frontier region) (sub t target)))"
    and "rr_removed region = filter (\<lambda>i. i \<notin> rr_frontier region) (gt_preorder (carve (rr_frontier region) (sub t target)))"
proof -
  have h: "held g t" "distinct (gt_preorder t)" using t by (simp_all add: graph_tree_def)
  show target: "target \<in> set (gt_preorder t)" using t region by (auto simp: graph_tree_def region_planned_def)
  have "retire_walk g (rr_frontier region) [target] {} [] = Some (rr_frontier region, rr_removed region)"
    using region by (simp add: region_planned_def)
  moreover have "spread (children_of g) (sub t target)" by (rule held_spread [OF sub_held [OF h target]])
  note retire_walk_tree [OF this, of "rr_frontier region"]
  ultimately have eq: "rr_frontier region \<inter> set (gt_preorder (carve (rr_frontier region) (sub t target))) = rr_frontier region"
    "rr_removed region = filter (\<lambda>i. i \<notin> rr_frontier region) (gt_preorder (carve (rr_frontier region) (sub t target)))"
    by (simp_all add: sub_id [OF h(2) target])
  from eq(1) show "rr_frontier region \<subseteq> set (gt_preorder (carve (rr_frontier region) (sub t target)))" by blast
  show "rr_removed region = filter (\<lambda>i. i \<notin> rr_frontier region) (gt_preorder (carve (rr_frontier region) (sub t target)))"
    by (rule eq(2))
qed

text \<open>Retiring the region and inserting the fragment.\<close>

lemma exchange_nodes:
  assumes ok: "graph_ok g" and region: "region_planned old g region" and frag: "plan_fragment root nodes region g = Ok (v, key)"
    and seeds: "\<forall>n \<in> set nodes. seedable (found_node nodes (mounted g)) n"
    and removed: "distinct (rr_removed region)" "set (rr_removed region) \<subseteq> dom (mg_nodes g)"
      "set (rr_removed region) \<inter> rr_frontier region = {}"
  shows "\<exists>carried ins g1 g2 h f. carry_interaction (rr_removed region) g = Some (carried, g1) \<and>
    retire_nodes (rr_removed region) [] g1 = Some (ins, g2) \<and> insert_nodes nodes v g2 = Some h \<and>
    spells root nodes (rr_frontier region) f \<and> held_around h id (rr_frontier region) f \<and>
    dom (mg_nodes h) = (dom (mg_nodes g) - set (rr_removed region)) \<union> nd_id ` set nodes \<and>
    nd_id ` set nodes \<inter> dom (mg_nodes g) = {} \<and>
    (\<forall>i. i \<notin> nd_id ` set nodes \<union> set (rr_removed region) \<longrightarrow> keeps g h i) \<and>
    (\<forall>i. i \<notin> nd_id ` set nodes \<union> set (rr_removed region) \<union> rr_frontier region \<longrightarrow> parent_location h i = parent_location g i) \<and>
    (\<forall>n \<in> set nodes. mounted h (nd_id n) = Some n) \<and> mg_root h = mg_root g \<and> mg_max_node g \<le> mg_max_node h \<and>
    indexed h \<and> bounded h"
proof -
  let ?R = "rr_removed region" and ?F = "rr_frontier region"
  have wf: "well_formed g" and ix: "indexed g" "bounded g" using ok by (simp_all add: graph_ok_def)
  obtain carried g1 where g1: "carry_interaction ?R g = Some (carried, g1)" "same_core g g1"
    using carry_each_total [OF wf removed(2), of carry_default] by (auto simp: carry_interaction_def)
  have core: "mg_nodes g1 = mg_nodes g" "mg_root g1 = mg_root g" "mg_max_node g1 = mg_max_node g" "mg_owners g1 = mg_owners g"
    using g1(2) by (simp_all add: same_core_def)
  have ix1: "indexed g1" "bounded g1"
    using ix same_core_indexed [OF g1(2)] same_core_bounded [OF g1(2)] by simp_all
  obtain ins g2 where g2: "retire_nodes ?R [] g1 = Some (ins, g2)"
    "mg_nodes g2 = mg_nodes g1 |` (- set ?R)" "mg_root g2 = mg_root g1" "mg_max_node g2 = mg_max_node g1"
    "\<forall>i. i \<notin> set ?R \<longrightarrow> mg_owners g2 i = mg_owners g1 i" "indexed g2" "bounded g2"
    using retire_nodes_spec [of ?R g1 "[]"] removed(1,2) core(1) ix1 by auto
  from fragment_facts [OF frag] obtain owner where
    v: "validate_fragment root nodes ?F owner (mounted g) = Ok v" and
    fresh: "check_fresh g (set ?R) (vf_input_owners v) nodes = Ok ()" by blast
  note valid = validated_fragment [OF v]
  have free: "unclaimed (vf_input_owners v) nodes g2"
    using unclaimed_after [OF v fresh ix, of g2] g2 core by simp
  obtain f where f: "spells root nodes ?F f" using valid(1) by blast
  have F: "?F \<subseteq> dom (mg_nodes g)" using region by (simp add: region_planned_def)
  then have F2: "?F \<subseteq> dom (mg_nodes g2)" using removed(3) g2(2) core(1) by (auto simp: restrict_map_def)
  have kids: "c \<in> nd_id ` set nodes \<union> ?F" if "n \<in> set nodes" "c \<in> set (nd_children n)" for n c
    using spelled_facts(2) [OF f valid(3,4)] that by auto
  have "seedable (found_node nodes (mounted g2)) n" if n: "n \<in> set nodes" for n
  proof (rule seedable_cong)
    show "seedable (found_node nodes (mounted g)) n" using seeds n by blast
    fix c assume "c \<in> set (nd_children n)"
    then have "c \<in> nd_id ` set nodes \<or> c \<notin> set ?R" using kids [OF n] removed(3) by blast
    then show "found_node nodes (mounted g2) c = found_node nodes (mounted g) c"
      using g2(2) core(1) fresh_node_None [of nodes c]
      by (auto simp: found_node_def mounted_def split: option.split)
  qed
  then have seeds2: "\<forall>n \<in> set nodes. seedable (found_node nodes (mounted g2)) n" by blast
  from insert_nodes_holds [OF free seeds2 f F2 valid(5,6)] obtain h where
    h: "insert_nodes nodes v g2 = Some h" "held_around h id ?F f"
      "dom (mg_nodes h) = dom (mg_nodes g2) \<union> nd_id ` set nodes"
      "\<forall>i. i \<notin> nd_id ` set nodes \<longrightarrow> keeps g2 h i"
      "\<forall>i. i \<notin> nd_id ` set nodes \<union> ?F \<longrightarrow> parent_location h i = parent_location g2 i"
      "\<forall>n \<in> set nodes. mounted h (nd_id n) = Some n" "mg_root h = mg_root g2" "mg_max_node g2 \<le> mg_max_node h"
      "indexed h" "bounded h" using g2(6,7) by blast
  have dom2: "dom (mg_nodes g2) = dom (mg_nodes g) - set ?R" using g2(2) core(1) by auto
  have "keeps g h i" if "i \<notin> nd_id ` set nodes \<union> set ?R" for i
    using that h(4) g2(2) core(1) by (simp add: keeps_def)
  moreover have "parent_location h i = parent_location g i" if "i \<notin> nd_id ` set nodes \<union> set ?R \<union> ?F" for i
    using that h(5) g2(2) core(1) by (simp add: parent_location_def)
  moreover have "nd_id n \<notin> dom (mg_nodes g)" if n: "n \<in> set nodes" for n
  proof
    assume "nd_id n \<in> dom (mg_nodes g)"
    then have "nd_id n \<le> mg_max_node g" using ix(2) by (simp add: bounded_def)
    moreover have "mg_max_node g < nd_id n" using check_fresh_spec [OF valid(7), of g "set ?R"] fresh n by blast
    ultimately show False by simp
  qed
  then have "nd_id ` set nodes \<inter> dom (mg_nodes g) = {}" by blast
  ultimately show ?thesis
    using g1(1) g2(1,3,4) h f core dom2 by auto
qed

text \<open>What a completed commit leaves.\<close>

definition exchanged :: "mounted_graph \<Rightarrow> node list \<Rightarrow> u64 list \<Rightarrow> mounted_graph \<Rightarrow> bool" where
  "exchanged g nodes removed g' \<longleftrightarrow>
     dom (mg_nodes g') = (dom (mg_nodes g) - set removed) \<union> nd_id ` set nodes \<and>
     set removed \<subseteq> dom (mg_nodes g) \<and> nd_id ` set nodes \<inter> dom (mg_nodes g) = {} \<and>
     (\<forall>n \<in> set nodes. mounted g' (nd_id n) = Some n) \<and>
     (\<forall>i. i \<notin> nd_id ` set nodes \<union> set removed \<longrightarrow> mounted_kind g' i = mounted_kind g i)"

lemma commit_after_attach:
  assumes "carry_interaction (rr_removed region) g = Some (carried, g1)"
    and "retire_nodes (rr_removed region) [] g1 = Some (ins, g2)" and "insert_nodes nodes v g2 = Some h"
    and "\<And>unchanged old_size. attach_root root (rr_location region) key unchanged old_size h = Some (h' unchanged old_size)"
    and "\<And>unchanged old_size. graph_ok (h' unchanged old_size)"
  shows "\<exists>result g' unchanged old_size. commit_ordinary old root nodes retained region v key g = Some (result, g') \<and>
    graph_ok g' \<and> same_core (h' unchanged old_size) g' \<and>
    ga_removed_ids result = rr_removed region \<and> ga_staged_ids result = map nd_id nodes"
proof -
  let ?u = "Option.bind old (cached_segment g) = Some key"
  let ?s = "case Option.bind old (subtree_size g) of None \<Rightarrow> 0 | Some s \<Rightarrow> s"
  have wf: "well_formed (h' ?u ?s)" using assms(5) by (simp add: graph_ok_def)
  obtain h2 where h2: "restore_interaction (map nd_id nodes) carried (h' ?u ?s) = Some h2" "same_core (h' ?u ?s) h2"
    using restore_total [OF wf] by blast
  have wf2: "well_formed h2" using wf same_core_wf [OF h2(2)] by simp
  obtain h3 where h3: "modal_policy (mg_dialog g) h2 = Some h3" "same_core h2 h3"
    using modal_total [OF wf2] by blast
  have core: "same_core (h' ?u ?s) h3" by (rule same_core_trans [OF h2(2) h3(2)])
  have ok: "graph_ok h3"
    using assms(5) [of ?u ?s] same_core_wf [OF core] same_core_indexed [OF core] same_core_bounded [OF core]
    by (simp add: graph_ok_def)
  have "\<exists>result. commit_ordinary old root nodes retained region v key g = Some (result, h3) \<and>
      ga_removed_ids result = rr_removed region \<and> ga_staged_ids result = map nd_id nodes"
    unfolding commit_ordinary_def Let_def
    using assms(1-4) h2(1) h3(1) by simp
  with ok core show ?thesis by blast
qed

lemma kinds_dom:
  assumes "mounted_kind g = mounted_kind h"
  shows "dom (mg_nodes g) = dom (mg_nodes h)"
proof (rule set_eqI)
  fix i
  have "mounted_kind g i = None \<longleftrightarrow> mounted_kind h i = None" using assms by simp
  then have "mg_nodes g i = None \<longleftrightarrow> mg_nodes h i = None" by (simp add: mounted_kind_def mounted_def)
  then show "i \<in> dom (mg_nodes g) \<longleftrightarrow> i \<in> dom (mg_nodes h)" by (simp add: domIff)
qed

lemma kinds_kept:
  assumes "\<forall>i. keeps g h i"
  shows "mounted_kind h = mounted_kind g"
proof
  fix i
  have "mounted h i = mounted g i" using keeps_node assms by blast
  then show "mounted_kind h i = mounted_kind g i" by (simp add: mounted_kind_def)
qed

lemma commit_finish:
  assumes parts: "carry_interaction (rr_removed region) g = Some (carried, g1)"
      "retire_nodes (rr_removed region) [] g1 = Some (ins, g2)" "insert_nodes nodes v g2 = Some h"
    and dom: "dom (mg_nodes h) = (dom (mg_nodes g) - set (rr_removed region)) \<union> nd_id ` set nodes"
      "set (rr_removed region) \<subseteq> dom (mg_nodes g)" "nd_id ` set nodes \<inter> dom (mg_nodes g) = {}"
    and h: "\<forall>n \<in> set nodes. mounted h (nd_id n) = Some n" "mg_max_node g \<le> mg_max_node h"
      "\<forall>i. i \<notin> nd_id ` set nodes \<union> set (rr_removed region) \<longrightarrow> keeps g h i"
    and attach: "\<forall>unchanged old_size. \<exists>h'. attach_root root (rr_location region) key unchanged old_size h = Some h' \<and>
      graph_ok h' \<and> graph_tree h' t \<and> (\<forall>i \<in> nd_id ` set nodes. keeps h h' i) \<and>
      mounted_kind h' = mounted_kind h \<and> mg_max_node h' = mg_max_node h"
  shows "\<exists>result g'. commit_ordinary old root nodes retained region v key g = Some (result, g') \<and> graph_ok g' \<and>
    ga_removed_ids result = rr_removed region \<and> ga_staged_ids result = map nd_id nodes \<and>
    exchanged g nodes (rr_removed region) g' \<and> mg_max_node g \<le> mg_max_node g' \<and> graph_tree g' t"
proof -
  from attach obtain h' where h': "\<And>u s. attach_root root (rr_location region) key u s h = Some (h' u s)"
    "\<And>u s. graph_ok (h' u s)" "\<And>u s. graph_tree (h' u s) t" "\<And>u s i. i \<in> nd_id ` set nodes \<Longrightarrow> keeps h (h' u s) i"
    "\<And>u s. mounted_kind (h' u s) = mounted_kind h" "\<And>u s. mg_max_node (h' u s) = mg_max_node h" by metis
  from commit_after_attach [OF parts h'(1,2), of old retained] obtain result g' u s where
    g': "commit_ordinary old root nodes retained region v key g = Some (result, g')" "graph_ok g'" "same_core (h' u s) g'"
      "ga_removed_ids result = rr_removed region" "ga_staged_ids result = map nd_id nodes" by blast
  note same = same_core_nodes [OF g'(3)]
  have tree: "graph_tree g' t" using same_nodes_wf(3) [OF same] h'(3) by simp
  have core: "mg_nodes g' = mg_nodes (h' u s)" "mg_max_node g' = mg_max_node (h' u s)"
    using g'(3) by (simp_all add: same_core_def)
  have at: "mounted g' i = mounted (h' u s) i" for i using core(1) by (simp add: mounted_def)
  have kinds: "mounted_kind g' = mounted_kind h"
  proof
    show "mounted_kind g' i = mounted_kind h i" for i
      using at fun_cong [OF h'(5) [of u s], of i] by (simp add: mounted_kind_def)
  qed
  have "mounted g' (nd_id n) = Some n" if n: "n \<in> set nodes" for n
    using at keeps_node [OF h'(4) [of "nd_id n" u s]] h(1) n by simp
  moreover have "mounted_kind g' i = mounted_kind g i" if "i \<notin> nd_id ` set nodes \<union> set (rr_removed region)" for i
  proof -
    have "mounted h i = mounted g i" using keeps_node h(3) that by blast
    then show ?thesis using kinds by (simp add: mounted_kind_def)
  qed
  ultimately have "exchanged g nodes (rr_removed region) g'"
    using kinds_dom [OF kinds] dom by (simp add: exchanged_def)
  then show ?thesis using g' tree core(2) h'(6) h(2) by auto
qed

lemma unparented:
  assumes "graph_tree g t" and "target \<in> set (gt_preorder t)" and "parent_location g target = None"
  shows "target = gt_id t"
proof (rule ccontr)
  assume "target \<noteq> gt_id t"
  with parent_entry [of g t target] assms(1,2) obtain p entry cs where
    "linked_children g p entry cs" "target \<in> set cs" by (auto simp: graph_tree_def)
  with assms(3) show False
    by (auto simp: linked_children_def in_set_conv_nth split: option.splits)
qed

lemma commit_keeps_mount:
  assumes ok: "graph_ok g" and region: "region_planned None g region" and frag: "plan_fragment root nodes region g = Ok (v, key)"
    and seeds: "\<forall>n \<in> set nodes. seedable (found_node nodes (mounted g)) n"
  shows "\<exists>result g' f. commit_ordinary None root nodes retained region v key g = Some (result, g') \<and> graph_ok g' \<and>
    ga_removed_ids result = rr_removed region \<and> ga_staged_ids result = map nd_id nodes \<and>
    exchanged g nodes (rr_removed region) g' \<and> mg_max_node g \<le> mg_max_node g' \<and>
    spells root nodes (rr_frontier region) f \<and> graph_tree g' f"
proof -
  have wf: "well_formed g" using ok by (simp add: graph_ok_def)
  have R: "rr_removed region = []" and F: "rr_frontier region = {}" and root: "mg_root g = None" and l: "rr_location region = None"
    using region by (simp_all add: region_planned_def)
  have empty: "dom (mg_nodes g) = {}" using wf root by (auto simp: well_formed_def graph_tree_def)
  from exchange_nodes [OF ok region frag seeds] R F obtain carried ins g1 g2 h f where
    parts: "carry_interaction (rr_removed region) g = Some (carried, g1)"
      "retire_nodes (rr_removed region) [] g1 = Some (ins, g2)" "insert_nodes nodes v g2 = Some h" and
    f: "spells root nodes {} f" and around: "held_around h id {} f" and
    h: "dom (mg_nodes h) = nd_id ` set nodes" "\<forall>n \<in> set nodes. mounted h (nd_id n) = Some n"
      "mg_max_node g \<le> mg_max_node h" "indexed h" "bounded h" and
    keep: "\<forall>i. i \<notin> nd_id ` set nodes \<longrightarrow> keeps g h i"
    using empty by auto
  have plug: "plug sub' {} f = f" for sub' by (induction f) (simp add: map_idI)
  note new = new_subtree [of root nodes "{}" f h g "\<lambda>_. f", OF f _ around, unfolded plug]
  have held: "held h f" "distinct (gt_preorder f)" "gt_id f = root" "dom (mg_nodes h) = set (gt_preorder f)"
    using new h(1) by simp_all
  have "\<forall>unchanged old_size. \<exists>h'. attach_root root (rr_location region) key unchanged old_size h = Some h' \<and>
      graph_ok h' \<and> graph_tree h' f \<and> (\<forall>i \<in> nd_id ` set nodes. keeps h h' i) \<and>
      mounted_kind h' = mounted_kind h \<and> mg_max_node h' = mg_max_node h"
    unfolding l using attach_top [OF held h(4,5)] kinds_kept by blast
  note commit_finish [OF parts _ _ _ h(2,3) _ this, of None retained]
  then show ?thesis using R F empty h(1) keep f by auto
qed

text \<open>The parts of the nodes of the old graph: outside, removed, and below the frontier.\<close>

lemma region_parts:
  assumes t: "graph_tree g t" and region: "region_planned (Some target) g region"
  defines "A \<equiv> set (gt_preorder (carve {target} t)) - {target}" and "s \<equiv> sub t target"
    and "K \<equiv> \<Union>r \<in> rr_frontier region. set (gt_preorder (sub (sub t target) r))"
  shows "dom (mg_nodes g) = A \<union> set (rr_removed region) \<union> K"
    and "A \<inter> set (rr_removed region) = {}" and "A \<inter> K = {}" and "set (rr_removed region) \<inter> K = {}"
    and "distinct (rr_removed region)" and "rr_frontier region \<subseteq> K"
    and "\<forall>r \<in> rr_frontier region. held g (sub s r) \<and> gt_id (sub s r) = r \<and> distinct (gt_preorder (sub s r))"
    and "\<forall>i \<in> rr_frontier region. \<forall>j \<in> rr_frontier region.
      i \<noteq> j \<longrightarrow> set (gt_preorder (sub s i)) \<inter> set (gt_preorder (sub s j)) = {}"
proof -
  let ?F = "rr_frontier region" and ?R = "rr_removed region"
  have h: "held g t" "distinct (gt_preorder t)" "dom (mg_nodes g) = set (gt_preorder t)"
    using t by (simp_all add: graph_tree_def)
  note tree = region_tree [OF t region]
  note target = tree(1)
  have s: "held g s" "distinct (gt_preorder s)"
    using sub_held [OF h(1,2) target] sub_distinct [OF h(2) target] by (simp_all add: s_def)
  have F: "?F \<subseteq> set (gt_preorder (carve ?F s))" using tree(2) by (simp add: s_def)
  have R: "?R = filter (\<lambda>i. i \<notin> ?F) (gt_preorder (carve ?F s))" using tree(3) by (simp add: s_def)
  have setR: "set ?R = set (gt_preorder (carve ?F s)) - ?F" unfolding R by auto
  have one: "{target} \<subseteq> set (gt_preorder (carve {target} t))" using carve_target [OF target] by simp
  note outer = carve_parts [OF h(2) one]
  note inner = carve_parts [OF s(2) F]
  have K: "K = (\<Union>r \<in> ?F. set (gt_preorder (sub s r)))" by (simp add: K_def s_def)
  have below: "set (gt_preorder s) = set ?R \<union> K" using inner(1) by (simp add: setR K)
  have all: "set (gt_preorder t) = A \<union> set (gt_preorder s)" using outer(1) by (simp add: A_def s_def)
  have apart: "A \<inter> set (gt_preorder s) = {}" using outer(2) by (simp add: A_def s_def)
  show "dom (mg_nodes g) = A \<union> set ?R \<union> K" using h(3) all below by blast
  show "A \<inter> set ?R = {}" "A \<inter> K = {}" using apart below by blast+
  show "set ?R \<inter> K = {}" using inner(2) by (simp add: setR K)
  show "distinct ?R" unfolding R using carve_distinct [OF s(2)] by simp
  have inside: "r \<in> set (gt_preorder s)" if "r \<in> ?F" for r using that F carve_subset by blast
  show each: "\<forall>r \<in> ?F. held g (sub s r) \<and> gt_id (sub s r) = r \<and> distinct (gt_preorder (sub s r))"
    using inside sub_held [OF s] sub_id [OF s(2)] sub_distinct [OF s(2)] by blast
  show "?F \<subseteq> K"
  proof
    fix r assume "r \<in> ?F"
    moreover from this have "r \<in> set (gt_preorder (sub s r))" using each gt_id_in_preorder [of "sub s r"] by simp
    ultimately show "r \<in> K" by (auto simp: K)
  qed
  show "\<forall>i \<in> ?F. \<forall>j \<in> ?F. i \<noteq> j \<longrightarrow> set (gt_preorder (sub s i)) \<inter> set (gt_preorder (sub s j)) = {}"
    using inner(3) .
qed

lemma split_disjoint: "N \<inter> (A \<union> R \<union> K) = {} \<Longrightarrow> N \<inter> A = {} \<and> N \<inter> K = {}"
  by blast

lemma exchange_sets: "A \<inter> R = {} \<Longrightarrow> R \<inter> K = {} \<Longrightarrow> (A \<union> R \<union> K - R) \<union> N = A \<union> (N \<union> K)"
  by blast

lemma commit_keeps_replace:
  assumes ok: "graph_ok g" and region: "region_planned (Some target) g region" and frag: "plan_fragment root nodes region g = Ok (v, key)"
    and seeds: "\<forall>n \<in> set nodes. seedable (found_node nodes (mounted g)) n" and t: "graph_tree g t"
  shows "\<exists>result g' f. commit_ordinary (Some target) root nodes retained region v key g = Some (result, g') \<and> graph_ok g' \<and>
    ga_removed_ids result = rr_removed region \<and> ga_staged_ids result = map nd_id nodes \<and>
    exchanged g nodes (rr_removed region) g' \<and> mg_max_node g \<le> mg_max_node g' \<and>
    spells root nodes (rr_frontier region) f \<and> graph_tree g' (tree_replaced t target (rr_frontier region) f)"
proof -
  let ?F = "rr_frontier region" and ?R = "rr_removed region" and ?m = "sub (sub t target)"
  define A where "A = set (gt_preorder (carve {target} t)) - {target}"
  define K where "K = (\<Union>r \<in> ?F. set (gt_preorder (?m r)))"
  define N where "N = nd_id ` set nodes"
  note target = region_tree(1) [OF t region]
  note parts = region_parts [OF t region, folded A_def K_def]
  have RF: "set ?R \<inter> ?F = {}" using parts(4,6) by blast
  have Rdom: "set ?R \<subseteq> dom (mg_nodes g)" using parts(1) by blast
  from exchange_nodes [OF ok region frag seeds parts(5) Rdom RF, folded N_def] obtain carried ins g1 g2 h f where
    steps: "carry_interaction ?R g = Some (carried, g1)"
      "retire_nodes ?R [] g1 = Some (ins, g2)" "insert_nodes nodes v g2 = Some h" and
    f: "spells root nodes ?F f" and around: "held_around h id ?F f" and
    dom: "dom (mg_nodes h) = (dom (mg_nodes g) - set ?R) \<union> N" "N \<inter> dom (mg_nodes g) = {}" and
    keep: "\<forall>i. i \<notin> N \<union> set ?R \<longrightarrow> keeps g h i"
      "\<forall>i. i \<notin> N \<union> set ?R \<union> ?F \<longrightarrow> parent_location h i = parent_location g i" and
    h: "\<forall>n \<in> set nodes. mounted h (nd_id n) = Some n" "mg_root h = mg_root g" "mg_max_node g \<le> mg_max_node h"
      "indexed h" "bounded h" by blast
  have NK: "N \<inter> K = {}" and NA: "N \<inter> A = {}"
    using split_disjoint [OF dom(2) [unfolded parts(1)]] by simp_all
  let ?new = "plug ?m ?F f"
  have new: "held h ?new" "gt_id ?new = root" "distinct (gt_preorder ?new)" "set (gt_preorder ?new) = N \<union> K"
  proof -
    have a: "N \<inter> ?F = {}" using NK parts(6) by blast
    have b: "\<forall>r \<in> ?F. held g (?m r) \<and> gt_id (?m r) = r \<and> distinct (gt_preorder (?m r)) \<and> set (gt_preorder (?m r)) \<inter> N = {}"
      using parts(7) NK by (auto simp: K_def)
    have out: "i \<notin> N \<union> set ?R" if "i \<in> K" for i using that NK parts(4) by (simp only: disjoint_iff Un_iff) blast
    have c: "\<forall>i. i \<in> K \<longrightarrow> keeps g h i" using keep(1) out by simp
    have d: "\<forall>i. i \<in> K - ?F \<longrightarrow> parent_location h i = parent_location g i" using keep(2) out by simp
    show "held h ?new" "gt_id ?new = root" "distinct (gt_preorder ?new)" "set (gt_preorder ?new) = N \<union> K"
      by (rule new_subtree [OF f a [unfolded N_def] around b [unfolded N_def] parts(8) c [unfolded K_def] d [unfolded K_def],
        folded N_def K_def])+
  qed
  have apart: "set (gt_preorder ?new) \<inter> A = {}" unfolding new(4) using NA parts(3) by blast
  have all: "dom (mg_nodes h) = A \<union> set (gt_preorder ?new)"
    unfolding dom(1) new(4) parts(1) by (rule exchange_sets [OF parts(2,4)])
  have stay: "\<forall>i \<in> A. keeps g h i \<and> parent_location h i = parent_location g i"
  proof
    fix i assume i: "i \<in> A"
    then have "i \<notin> N \<union> set ?R \<union> ?F" using NA parts(2,3,6) by (simp only: disjoint_iff Un_iff subset_iff) blast
    then show "keeps g h i \<and> parent_location h i = parent_location g i" using keep by simp
  qed
  have l: "rr_location region = parent_location g target" using region by (simp add: region_planned_def)
  have N_out: "i \<notin> A" if "i \<in> N" for i using NA that by blast
  have "\<forall>unchanged old_size. \<exists>h'. attach_root root (rr_location region) key unchanged old_size h = Some h' \<and>
      graph_ok h' \<and> graph_tree h' (tree_replaced t target ?F f) \<and> (\<forall>i \<in> N. keeps h h' i) \<and>
      mounted_kind h' = mounted_kind h \<and> mg_max_node h' = mg_max_node h"
  proof (cases "parent_location g target")
    case None
    then have top: "gt_id t = target" using unparented [OF t target] by simp
    then have carve: "carve {target} t = GNode target []" by (cases t) auto
    then have "tree_replaced t target ?F f = ?new" by (simp add: tree_replaced_def)
    moreover have "dom (mg_nodes h) = set (gt_preorder ?new)" using all carve by (simp add: A_def)
    ultimately show ?thesis
      unfolding l None using attach_top [OF new(1,3,2) _ h(4,5)] kinds_kept by metis
  next
    case (Some at)
    note inside = attach_inside [OF t target Some new(1,3,2) apart [unfolded A_def] all [unfolded A_def] stay [unfolded A_def] h(2,4,5),
        folded A_def]
    show ?thesis unfolding l Some tree_replaced_def using inside N_out by metis
  qed
  note commit_finish [OF steps dom(1) [unfolded N_def] Rdom dom(2) [unfolded N_def] h(1,3) keep(1) [unfolded N_def] this [unfolded N_def], of "Some target" retained]
  then show ?thesis using f by blast
qed

end
