(* ===== verification/ApplyCorrect.thy ===== *)
theory ApplyCorrect
  imports ApplyKeeps
begin

text \<open>
  What mounting and replacing do to a consistent graph: they never panic, a success replaces
  exactly the subtree at the target by the tree the staged nodes spell, and the graph stays
  consistent.
\<close>

section \<open>Ordinary patches\<close>

text \<open>The target, the root, the nodes and the retained roots of a mount or a replacement.\<close>

fun ordinary_parts :: "patch \<Rightarrow> (u64 option \<times> u64 \<times> node list \<times> u64 list) option" where
  "ordinary_parts (PatchMount root nodes) = Some (None, root, nodes, [])"
| "ordinary_parts (PatchReplace old_root root nodes) = Some (Some old_root, root, nodes, [])"
| "ordinary_parts (PatchReplaceRetaining old_root root nodes retained_roots) =
     Some (Some old_root, root, nodes, retained_roots)"
| "ordinary_parts _ = None"

text \<open>Every staged keyed column has its seed.\<close>

definition all_seedable :: "node list \<Rightarrow> mounted_graph \<Rightarrow> bool" where
  "all_seedable nodes g \<longleftrightarrow> (\<forall>n \<in> set nodes. seedable (found_node nodes (mounted g)) n)"

lemma apply_ordinary_parts:
  "ordinary_parts p = Some (old, root, nodes, retained) \<Longrightarrow>
   apply_patch drain p g = apply_ordinary old root nodes retained g \<and> (old = None \<longrightarrow> retained = [])"
  by (cases p) auto

lemma region_frontier:
  assumes "plan_region old retained g = Ok region"
  shows "rr_frontier region = set retained"
proof -
  from assms obtain F a b where "check_retained g old retained ({}, 0, 0) = Ok (F, a, b)" "rr_frontier region = F"
    unfolding plan_region_def Let_def by (auto split: if_splits)
  then show ?thesis using check_retained_spec [of g old retained "{}" 0 0 F a b] by simp
qed

definition replaces_in :: "mounted_graph \<Rightarrow> u64 option \<Rightarrow> u64 set \<Rightarrow> gtree \<Rightarrow> mounted_graph \<Rightarrow> bool" where
  "replaces_in g old F f g' \<longleftrightarrow>
     (case old of
        None \<Rightarrow> mg_nodes g = Map.empty \<and> graph_tree g' f
      | Some target \<Rightarrow> \<exists>t. graph_tree g t \<and> target \<in> set (gt_preorder t) \<and> graph_tree g' (tree_replaced t target F f))"

lemma apply_ordinary_outcome:
  assumes ok: "graph_ok g" and seeds: "all_seedable nodes g"
  shows "(\<exists>e. apply_ordinary old root nodes retained g = (Err e, g)) \<or>
    (\<exists>result g' f. apply_ordinary old root nodes retained g = (Ok result, g') \<and> graph_ok g' \<and>
       exchanged g nodes (ga_removed_ids result) g' \<and> ga_staged_ids result = map nd_id nodes \<and>
       mg_max_node g \<le> mg_max_node g' \<and> (\<forall>n \<in> set nodes. mg_max_node g < nd_id n) \<and>
       spells root nodes (set retained) f \<and> replaces_in g old (set retained) f g')"
proof -
  have wf: "well_formed g" and ix: "indexed g" using ok by (simp_all add: graph_ok_def)
  have seeds': "\<forall>n \<in> set nodes. seedable (found_node nodes (mounted g)) n" using seeds by (simp add: all_seedable_def)
  show ?thesis
  proof (cases "plan_region old retained g")
    case Panic
    with region_total [OF wf] show ?thesis by blast
  next
    case (Ok region)
    note region = region_facts [OF Ok] and F = region_frontier [OF Ok]
    show ?thesis
    proof (cases "plan_fragment root nodes region g")
      case Panic
      with fragment_total [OF wf ix region] show ?thesis by blast
    next
      case (Err e)
      with Ok show ?thesis by (simp add: apply_ordinary_def)
    next
      case planned: (Ok plan)
      obtain v key where plan: "plan = (v, key)" by (cases plan)
      note frag = planned [unfolded plan]
      obtain own where v: "validate_fragment root nodes (rr_frontier region) own (mounted g) = Ok v"
        using fragment_facts(1) [OF frag] by blast
      have newer: "\<forall>n \<in> set nodes. mg_max_node g < nd_id n"
        using check_fresh_spec [OF validated_fragment(7) [OF v], of g "set (rr_removed region)"]
          fragment_facts(2) [OF frag] by blast
      have "\<exists>result g' f. commit_ordinary old root nodes retained region v key g = Some (result, g') \<and> graph_ok g' \<and>
        ga_removed_ids result = rr_removed region \<and> ga_staged_ids result = map nd_id nodes \<and>
        exchanged g nodes (rr_removed region) g' \<and> mg_max_node g \<le> mg_max_node g' \<and>
        spells root nodes (rr_frontier region) f \<and> replaces_in g old (rr_frontier region) f g'"
      proof (cases old)
        case None
        have "mg_root g = None" using region None by (simp add: region_planned_def)
        then have "mg_nodes g = Map.empty" using wf by (auto simp: well_formed_def graph_tree_def)
        moreover note commit_keeps_mount [OF ok region [unfolded None] frag seeds', of retained]
        ultimately show ?thesis unfolding replaces_in_def None by auto
      next
        case (Some target)
        have "mg_nodes g target \<noteq> None" using region Some by (simp add: region_planned_def)
        then obtain t where t: "graph_tree g t" using wf by (auto simp: well_formed_def)
        note commit_keeps_replace [OF ok region [unfolded Some] frag seeds' t, of retained]
        then show ?thesis unfolding replaces_in_def Some using t region_tree(1) [OF t region [unfolded Some]] by auto
      qed
      then show ?thesis using Ok planned newer F by (auto simp: apply_ordinary_def plan)
    qed
  qed (simp add: apply_ordinary_def)
qed

section \<open>The first mount\<close>

lemma graph_default_ok: "graph_ok graph_default"
  by (simp add: graph_ok_def well_formed_def indexed_def bounded_def graph_default_def kind_at_def mounted_kind_def
      mounted_def instance_spent_def)

lemma scope_kept_unbounded: "mg_boundaries g = Map.empty \<Longrightarrow> scope_kept g kind here = Some None"
  by (simp add: scope_kept_def split: option.split)

lemma scope_unbounded:
  assumes "scope_walk g fresh found F pending trail = Some r" and "F = {}" and "mg_boundaries g = Map.empty"
  shows "r = None"
proof -
  let ?P = "\<lambda>g fresh found F pending trail r. F = {} \<longrightarrow> mg_boundaries g = Map.empty \<longrightarrow> r = None"
  have "?P g fresh found F pending trail r"
    by (rule scope_walk.raw_induct [of ?P, OF _ assms(1)])
      (auto simp: scope_kept_unbounded split: list.splits prod.splits if_splits option.splits)
  with assms(2,3) show ?thesis by blast
qed

lemma check_fresh_default:
  "0 \<notin> nd_id ` set nodes \<Longrightarrow> (\<And>n. n \<in> set nodes \<Longrightarrow> input_label (nd_kind n) \<noteq> None \<Longrightarrow> owners (nd_id n) \<noteq> None) \<Longrightarrow>
   check_fresh graph_default {} owners nodes = Ok ()"
proof (induction nodes)
  case (Cons n nodes)
  then have "mg_max_node graph_default < nd_id n" by (simp add: graph_default_def word_gt_0)
  with Cons show ?case
    by (cases "nd_kind n") (auto simp: graph_default_def survives_def instance_spent_def)
qed simp

lemma first_mount:
  assumes seeds: "all_seedable nodes graph_default"
  shows "(\<exists>result g. apply_patch drain (PatchMount root nodes) graph_default = (Ok result, g)) \<longleftrightarrow>
    acceptable root nodes {} None Map.empty"
proof -
  let ?g = graph_default
  have mounted: "mounted ?g = Map.empty" by (simp add: mounted_def graph_default_def fun_eq_iff)
  have region: "plan_region None [] ?g = Ok \<lparr>rr_location = None, rr_parent = None, rr_frontier = {},
      rr_retained_nodes = 0, rr_visits = 0, rr_removed = []\<rparr>"
    by (simp add: plan_region_def graph_default_def retire_walk.simps)
  let ?region = "\<lparr>rr_location = None, rr_parent = None, rr_frontier = {},
      rr_retained_nodes = 0, rr_visits = 0, rr_removed = []\<rparr>"
  have outcome: "(\<exists>result g. apply_patch drain (PatchMount root nodes) ?g = (Ok result, g)) \<longleftrightarrow>
      (\<exists>plan. plan_fragment root nodes ?region ?g = Ok plan)"
  proof
    assume "\<exists>result g. apply_patch drain (PatchMount root nodes) ?g = (Ok result, g)"
    then show "\<exists>plan. plan_fragment root nodes ?region ?g = Ok plan"
      by (auto simp: apply_ordinary_def region split: outcome.splits)
  next
    assume "\<exists>plan. plan_fragment root nodes ?region ?g = Ok plan"
    then obtain v key where "plan_fragment root nodes ?region ?g = Ok (v, key)" by auto
    with apply_ordinary_outcome [OF graph_default_ok seeds, of None root "[]"] region
    show "\<exists>result g. apply_patch drain (PatchMount root nodes) ?g = (Ok result, g)"
      by (auto simp: apply_ordinary_def split: option.splits)
  qed
  have "(\<exists>plan. plan_fragment root nodes ?region ?g = Ok plan) \<longleftrightarrow>
      (\<exists>v. validate_fragment root nodes {} None (mounted ?g) = Ok v)"
  proof
    assume "\<exists>plan. plan_fragment root nodes ?region ?g = Ok plan"
    then obtain v key where "plan_fragment root nodes ?region ?g = Ok (v, key)" by auto
    then show "\<exists>v. validate_fragment root nodes {} None (mounted ?g) = Ok v"
      by (auto simp: plan_fragment_def place_owner_def)
  next
    assume "\<exists>v. validate_fragment root nodes {} None (mounted ?g) = Ok v"
    then obtain v where v: "validate_fragment root nodes {} None (mounted ?g) = Ok v" ..
    have "0 \<notin> nd_id ` set nodes" using validate_fragment_sound [OF v] by (simp add: acceptable_def)
    then have fresh: "check_fresh ?g {} (vf_input_owners v) nodes = Ok ()"
      using validated_fragment(7) [OF v] by (intro check_fresh_default) auto
    obtain n where n: "found_at v nodes ?g root = Some n" using validated_found [OF v] by auto
    have segment: "root_segment_of ?g None (nd_kind n) = Some (segment_of (nd_kind n) 0 0)"
      by (simp add: root_segment_of_def)
    obtain r where r: "scope_walk ?g (fresh_at v nodes) (found_at v nodes ?g) {} [(root, segment_of (nd_kind n) 0 0, False)] [] = Some r"
      using scope_total [OF _ _ _ v] graph_default_ok by (auto simp: graph_ok_def)
    have "mg_boundaries ?g = Map.empty" by (simp add: graph_default_def)
    with r scope_unbounded [OF r] have "r = None" by blast
    with v fresh n segment r show "\<exists>plan. plan_fragment root nodes ?region ?g = Ok plan"
      by (simp add: plan_fragment_def place_owner_def place_identity_def)
  qed
  with outcome show ?thesis
    unfolding mounted using validate_fragment_sound validate_fragment_complete by meson
qed

section \<open>An example\<close>

definition fresh_column :: "node list" where
  "fresh_column =
     [\<lparr>nd_id = 6, nd_kind = Text ''new'', nd_children = []\<rparr>,
      \<lparr>nd_id = 5, nd_kind = Column [] style_default, nd_children = [2, 6]\<rparr>]"

definition retained_surface :: mounted_graph where
  "retained_surface = graph_default\<lparr>mg_root := Some 1, mg_max_node := 3, mg_max_instance := Some 7,
     mg_boundaries := [7 \<mapsto> 2], mg_nodes := Map.empty(
       1 \<mapsto> sample_entry 1 (Column [] style_default) [2] None,
       2 \<mapsto> sample_entry 2 (Boundary 7) [3] (Some (OrdinaryIndex 1 0)),
       3 \<mapsto> sample_entry 3 (Text ''kept'') [] (Some (OrdinaryIndex 2 0)))\<rparr>"

lemma retained_surface_ok: "graph_ok retained_surface"
proof -
  have "graph_tree retained_surface (GNode 1 [GNode 2 [GNode 3 []]])"
    by (auto simp: graph_tree_def retained_surface_def sample_entry_def parent_location_def linked_children_def
        graph_default_def)
  then have "well_formed retained_surface" by (auto simp: well_formed_def)
  moreover have "indexed retained_surface"
    by (auto simp: indexed_def retained_surface_def sample_entry_def graph_default_def kind_at_def mounted_kind_def
        mounted_def split: if_splits)
  moreover have "bounded retained_surface"
    by (auto simp: bounded_def retained_surface_def graph_default_def instance_spent_def word_le_nat_alt split: if_splits)
  ultimately show ?thesis by (simp add: graph_ok_def)
qed

lemma fresh_column_seeds: "all_seedable fresh_column g"
  by (simp add: all_seedable_def fresh_column_def seedable_def)

lemma retained_surface_region:
  "plan_region (Some 1) [2] retained_surface = Ok \<lparr>rr_location = None, rr_parent = None, rr_frontier = {2},
     rr_retained_nodes = 1, rr_visits = 2, rr_removed = [1]\<rparr>"
  by (simp add: plan_region_def retained_surface_def graph_default_def sample_entry_def parent_location_def
      retire_walk.simps children_of_def)

lemma retained_surface_fragment:
  "\<exists>plan. plan_fragment 5 fresh_column \<lparr>rr_location = None, rr_parent = None, rr_frontier = {2},
     rr_retained_nodes = 1, rr_visits = 2, rr_removed = [1]\<rparr> retained_surface = Ok plan"
proof -
  have "\<exists>v. validate_fragment 5 fresh_column {2} None (mounted retained_surface) = Ok v \<and> vf_indices v = [6 \<mapsto> 0, 5 \<mapsto> 1]"
    by (simp add: validate_fragment_def fresh_column_def max_staged_nodes_def scan_start_def walk_start_def
      check_unique_def check_shape_def leaf_shape_def node_index_def enter_owner_def)
  then obtain v where v: "validate_fragment 5 fresh_column {2} None (mounted retained_surface) = Ok v"
     "vf_indices v = [6 \<mapsto> 0, 5 \<mapsto> 1]" by blast
  have found: "fresh_at v fresh_column 5 = Some \<lparr>nd_id = 5, nd_kind = Column [] style_default, nd_children = [2, 6]\<rparr>"
      "fresh_at v fresh_column 6 = Some \<lparr>nd_id = 6, nd_kind = Text ''new'', nd_children = []\<rparr>"
      "found_at v fresh_column retained_surface 5 = Some \<lparr>nd_id = 5, nd_kind = Column [] style_default, nd_children = [2, 6]\<rparr>"
      "found_at v fresh_column retained_surface 6 = Some \<lparr>nd_id = 6, nd_kind = Text ''new'', nd_children = []\<rparr>"
      "found_at v fresh_column retained_surface 2 = Some \<lparr>nd_id = 2, nd_kind = Boundary 7, nd_children = [3]\<rparr>"
    by (simp_all add: fresh_at_def found_at_def lookup_def v(2) node_index_def fresh_column_def retained_surface_def
        mounted_def sample_entry_def)
  have "identity retained_surface 2 = Some [segment_of (Column [] style_default) 0 0, SegBoundary 7]"
    by (simp add: identity_def identity_walk.simps retained_surface_def sample_entry_def)
  then have "scope_walk retained_surface (fresh_at v fresh_column) (found_at v fresh_column retained_surface) {2}
      [(5, segment_of (Column [] style_default) 0 0, False)] [] = Some None"
    by (simp add: scope_walk.simps found scope_kept_def Let_def)
  moreover have "check_fresh retained_surface {1} (vf_input_owners v) fresh_column = Ok ()"
    by (simp add: fresh_column_def retained_surface_def word_le_nat_alt)
  ultimately show ?thesis
    by (simp add: plan_fragment_def v(1) found place_owner_def place_identity_def root_segment_of_def)
qed

lemma retained_surface_replaced:
  "\<exists>result g'. apply_ordinary (Some 1) 5 fresh_column [2] retained_surface = (Ok result, g')"
proof -
  from retained_surface_fragment obtain v key where
    "plan_fragment 5 fresh_column \<lparr>rr_location = None, rr_parent = None, rr_frontier = {2},
       rr_retained_nodes = 1, rr_visits = 2, rr_removed = [1]\<rparr> retained_surface = Ok (v, key)" by auto
  with retained_surface_region apply_ordinary_outcome [OF retained_surface_ok fresh_column_seeds, of "Some 1" 5 "[2]"]
  show ?thesis by (auto simp: apply_ordinary_def split: option.splits)
qed

section \<open>Properties\<close>



text \<open>
  Claim C3: a mount or a replacement that succeeds on a consistent graph makes the mounted tree
  the old tree with the subtree at the target replaced by the tree that the staged nodes spell,
  every retained subtree of the old one moved into its place there.
\<close>

theorem replacement_refines_tree:
  assumes "graph_ok g" and "ordinary_parts p = Some (old, root, nodes, retained)" and "all_seedable nodes g"
    and "apply_patch drain p g = (Ok result, g')"
  shows "\<exists>f. spells root nodes (set retained) f \<and> replaces_in g old (set retained) f g'"
proof -
  have "apply_ordinary old root nodes retained g = (Ok result, g')" using apply_ordinary_parts [OF assms(2)] assms(4) by simp
  then show ?thesis using apply_ordinary_outcome [OF assms(1,3), of old root retained] by auto
qed

lemma replacement_refines_tree_witness:
  "\<exists>result g' f. apply_patch (\<lambda>_. []) (PatchReplaceRetaining 1 5 fresh_column [2]) retained_surface = (Ok result, g') \<and>
     spells 5 fresh_column {2} f \<and> replaces_in retained_surface (Some 1) {2} f g'"
proof -
  obtain result g' where ok: "apply_patch (\<lambda>_. []) (PatchReplaceRetaining 1 5 fresh_column [2]) retained_surface = (Ok result, g')"
    using retained_surface_replaced by auto
  with replacement_refines_tree [where p = "PatchReplaceRetaining 1 5 fresh_column [2]",
      OF retained_surface_ok _ fresh_column_seeds ok] show ?thesis by auto
qed

text \<open>
  Claim C4: a successful mount or replacement unmounts exactly the removed ids it reports and
  mounts exactly the staged nodes, whose ids are all above every id mounted before, so no id is
  ever used twice; every other node keeps its kind.
\<close>

theorem replacement_never_reuses_ids:
  assumes "graph_ok g" and "ordinary_parts p = Some (old, root, nodes, retained)" and "all_seedable nodes g"
    and "apply_patch drain p g = (Ok result, g')"
  shows "exchanged g nodes (ga_removed_ids result) g' \<and> ga_staged_ids result = map nd_id nodes \<and>
    (\<forall>n \<in> set nodes. mg_max_node g < nd_id n) \<and> mg_max_node g \<le> mg_max_node g' \<and>
    (\<forall>i \<in> dom (mg_nodes g'). i \<le> mg_max_node g')"
proof -
  have "apply_ordinary old root nodes retained g = (Ok result, g')" using apply_ordinary_parts [OF assms(2)] assms(4) by simp
  then show ?thesis using apply_ordinary_outcome [OF assms(1,3), of old root retained]
    by (auto simp: graph_ok_def bounded_def)
qed

lemma replacement_never_reuses_ids_witness:
  "\<exists>result g'. apply_patch (\<lambda>_. []) (PatchReplaceRetaining 1 5 fresh_column [2]) retained_surface = (Ok result, g') \<and>
     exchanged retained_surface fresh_column (ga_removed_ids result) g' \<and> ga_staged_ids result = [6, 5]"
proof -
  obtain result g' where ok: "apply_patch (\<lambda>_. []) (PatchReplaceRetaining 1 5 fresh_column [2]) retained_surface = (Ok result, g')"
    using retained_surface_replaced by auto
  with replacement_never_reuses_ids [where p = "PatchReplaceRetaining 1 5 fresh_column [2]",
      OF retained_surface_ok _ fresh_column_seeds ok] show ?thesis by (auto simp: fresh_column_def)
qed

text \<open>
  The first mount of an application succeeds exactly when its nodes are acceptable on
  their own; structural scope and the indexes refuse nothing there.
\<close>

theorem first_mount_decided:
  assumes "all_seedable nodes graph_default"
  shows "(\<exists>result g. apply_patch drain (PatchMount root nodes) graph_default = (Ok result, g)) \<longleftrightarrow>
    acceptable root nodes {} None Map.empty"
  by (rule first_mount [OF assms])

lemma first_mount_decided_witness:
  "\<exists>result g. apply_patch (\<lambda>_. []) (PatchMount 6 [\<lparr>nd_id = 6, nd_kind = Text ''new'', nd_children = []\<rparr>]) graph_default =
     (Ok result, g)"
proof -
  let ?nodes = "[\<lparr>nd_id = 6, nd_kind = Text ''new'', nd_children = []\<rparr>]"
  have "\<exists>v. validate_fragment 6 ?nodes {} None Map.empty = Ok v"
    by (simp add: validate_fragment_def max_staged_nodes_def scan_start_def walk_start_def
      check_unique_def check_shape_def leaf_shape_def node_index_def enter_owner_def)
  then have "acceptable 6 ?nodes {} None Map.empty" using validate_fragment_sound by blast
  moreover have "all_seedable ?nodes graph_default" by (simp add: all_seedable_def seedable_def)
  ultimately show ?thesis using first_mount_decided [of ?nodes "\<lambda>_. []" 6] by simp
qed

end
