(* ===== verification/SpecRead.thy ===== *)
theory SpecRead
  imports Prelude "HOL-Library.Monad_Syntax"
begin

text \<open>
  The reader of specifications (\<open>Parser\<close> and \<open>SExpr\<close> in \<open>spec.rs\<close>): the bytes of the source,
  read by recursive descent into atoms, strings and lists that remember their line, under a
  limit on the nesting depth and one on the number of expressions. A string is the list of its
  UTF-8 bytes, as \<open>char\<close>s. The reader of an expression and the loop over a list call each other;
  they are one partial function on a job, which says what is left to read.
\<close>

section \<open>Expressions and errors\<close>

datatype sexpr = Atom string nat | Str string nat | Lst "sexpr list" nat

fun sx_line :: "sexpr \<Rightarrow> nat" where
  "sx_line (Atom v l) = l"
| "sx_line (Str v l) = l"
| "sx_line (Lst v l) = l"

fun sx_atom :: "sexpr \<Rightarrow> string option" where
  "sx_atom (Atom v l) = Some v"
| "sx_atom _ = None"

fun sx_string :: "sexpr \<Rightarrow> string option" where
  "sx_string (Str v l) = Some v"
| "sx_string _ = None"

fun sx_list :: "sexpr \<Rightarrow> sexpr list option" where
  "sx_list (Lst v l) = Some v"
| "sx_list _ = None"

record parse_error =
  pe_line :: nat
  pe_message :: string

definition max_source_bytes :: nat where "max_source_bytes = 1024 * 1024"
definition max_nesting_depth :: nat where "max_nesting_depth = 128"
definition max_expressions :: nat where "max_expressions = 100000"

section \<open>Bytes\<close>

definition is_space :: "char \<Rightarrow> bool" where
  "is_space c \<longleftrightarrow> c \<in> {CHR '' '', CHR 0x09, CHR 0x0A, CHR 0x0C, CHR 0x0D}"

abbreviation newline :: char where "newline \<equiv> CHR 0x0A"
abbreviation quote :: char where "quote \<equiv> CHR 0x22"
abbreviation backslash :: char where "backslash \<equiv> CHR 0x5C"

text \<open>The width that the first byte of a multi-byte character announces.\<close>

definition utf8_width :: "char \<Rightarrow> nat option" where
  "utf8_width c =
     (let b = of_char c :: nat in
      if 0xC2 \<le> b \<and> b \<le> 0xDF then Some 2
      else if 0xE0 \<le> b \<and> b \<le> 0xEF then Some 3
      else if 0xF0 \<le> b \<and> b \<le> 0xF4 then Some 4
      else None)"

text \<open>\<open>str::from_utf8\<close>: the well-formed byte sequences of the Unicode standard.\<close>

definition continues :: "nat \<Rightarrow> bool" where
  "continues b \<longleftrightarrow> 0x80 \<le> b \<and> b \<le> 0xBF"

fun well_formed_utf8 :: "nat list \<Rightarrow> bool" where
  "well_formed_utf8 [] = True"
| "well_formed_utf8 (a # rest) =
     (if a < 0x80 then well_formed_utf8 rest
      else if 0xC2 \<le> a \<and> a \<le> 0xDF then
        (case rest of b # rest \<Rightarrow> continues b \<and> well_formed_utf8 rest | _ \<Rightarrow> False)
      else if 0xE0 \<le> a \<and> a \<le> 0xEF then
        (case rest of
           b # c # rest \<Rightarrow>
             (if a = 0xE0 then 0xA0 \<le> b \<and> b \<le> 0xBF else if a = 0xED then 0x80 \<le> b \<and> b \<le> 0x9F else continues b) \<and>
             continues c \<and> well_formed_utf8 rest
         | _ \<Rightarrow> False)
      else if 0xF0 \<le> a \<and> a \<le> 0xF4 then
        (case rest of
           b # c # d # rest \<Rightarrow>
             (if a = 0xF0 then 0x90 \<le> b \<and> b \<le> 0xBF else if a = 0xF4 then 0x80 \<le> b \<and> b \<le> 0x8F else continues b) \<and>
             continues c \<and> continues d \<and> well_formed_utf8 rest
         | _ \<Rightarrow> False)
      else False)"

definition from_utf8 :: "string \<Rightarrow> bool" where
  "from_utf8 s = well_formed_utf8 (map of_char s)"

section \<open>The reader's state\<close>

record reader =
  rd_bytes :: string
  rd_index :: nat
  rd_line :: nat
  rd_expressions :: nat

definition reader_new :: "string \<Rightarrow> reader" where
  "reader_new source = \<lparr>rd_bytes = source, rd_index = 0, rd_line = 1, rd_expressions = 0\<rparr>"

definition peek :: "reader \<Rightarrow> char option" where
  "peek p = (if rd_index p < length (rd_bytes p) then Some (rd_bytes p ! rd_index p) else None)"

definition reader_error :: "reader \<Rightarrow> string \<Rightarrow> parse_error" where
  "reader_error p message = \<lparr>pe_line = rd_line p, pe_message = message\<rparr>"

text \<open>Past the byte just seen; a line break counts where the code counts it.\<close>

definition past :: "reader \<Rightarrow> reader" where
  "past p = p\<lparr>rd_index := rd_index p + 1\<rparr>"

definition past_counting :: "char \<Rightarrow> reader \<Rightarrow> reader" where
  "past_counting c p = (if c = newline then past (p\<lparr>rd_line := rd_line p + 1\<rparr>) else past p)"

definition left :: "reader \<Rightarrow> nat" where
  "left p = length (rd_bytes p) - rd_index p"

lemma peek_left: "peek p = Some c \<Longrightarrow> 0 < left p"
  by (auto simp: peek_def left_def split: if_splits)

lemma peek_None: "peek p = None \<longleftrightarrow> left p = 0"
  by (auto simp: peek_def left_def)

lemma left_past [simp]: "left (past p) = left p - 1" "left (past_counting c p) = left p - 1"
  by (simp_all add: past_def past_counting_def left_def)

section \<open>Space and comments\<close>

function skip_spaces :: "reader \<Rightarrow> reader" where
  "skip_spaces p =
     (case peek p of
        None \<Rightarrow> p
      | Some c \<Rightarrow> if \<not> is_space c then p else skip_spaces (past_counting c p))"
  by pat_completeness auto
termination by (relation "measure left") (auto dest: peek_left)

function skip_comment :: "reader \<Rightarrow> reader" where
  "skip_comment p =
     (case peek p of
        None \<Rightarrow> p
      | Some c \<Rightarrow> if c = newline then past_counting c p else skip_comment (past p))"
  by pat_completeness auto
termination by (relation "measure left") (auto dest: peek_left)

declare skip_spaces.simps [simp del] skip_comment.simps [simp del]

lemma left_skip_spaces: "left (skip_spaces p) \<le> left p"
proof (induction p rule: skip_spaces.induct)
  case (1 p)
  then show ?case by (subst skip_spaces.simps) (force split: option.split)
qed

lemma left_skip_comment: "left (skip_comment p) \<le> left p"
proof (induction p rule: skip_comment.induct)
  case (1 p)
  then show ?case by (subst skip_comment.simps) (force split: option.split)
qed

lemma left_skip_comment_less: "peek p = Some c \<Longrightarrow> left (skip_comment p) < left p"
  using left_skip_comment [of "past p"] peek_left [of p c]
  by (subst skip_comment.simps) (auto split: option.split)

function skip_space_and_comments :: "reader \<Rightarrow> reader" where
  "skip_space_and_comments p =
     (let p = skip_spaces p in
      if peek p \<noteq> Some (CHR '';'') then p else skip_space_and_comments (skip_comment p))"
  by pat_completeness auto
termination
proof (relation "measure left")
  fix p x
  assume "x = skip_spaces p" "\<not> peek x \<noteq> Some (CHR '';'')"
  then show "(skip_comment x, p) \<in> measure left"
    using left_skip_comment_less [of x "CHR '';''"] left_skip_spaces [of p] by simp
qed simp

declare skip_space_and_comments.simps [simp del]

section \<open>Strings and atoms\<close>

definition escaped_char :: "char \<Rightarrow> char option" where
  "escaped_char c =
     (if c = CHR ''n'' then Some newline
      else if c = CHR ''r'' then Some (CHR 0x0D)
      else if c = CHR ''t'' then Some (CHR 0x09)
      else if c = quote then Some quote
      else if c = backslash then Some backslash
      else None)"

function read_string :: "reader \<Rightarrow> string \<Rightarrow> (parse_error, string \<times> reader) outcome" where
  "read_string p acc =
     (case peek p of
        None \<Rightarrow> Err (reader_error p ''unterminated string'')
      | Some c \<Rightarrow>
          (let q = past p in
           if c = quote then Ok (acc, q)
           else if c = backslash then
             (case peek q of
                None \<Rightarrow> Err (reader_error q ''unterminated escape'')
              | Some e \<Rightarrow>
                  (case escaped_char e of
                     None \<Rightarrow> Err (reader_error (past q) ''unsupported string escape'')
                   | Some v \<Rightarrow> read_string (past q) (acc @ [v])))
           else if (of_char c :: nat) < 128 then read_string (past_counting c p) (acc @ [c])
           else
             (case utf8_width c of
                None \<Rightarrow> Err (reader_error q ''invalid UTF-8'')
              | Some width \<Rightarrow>
                  (let start = rd_index p; slice = take width (drop start (rd_bytes p)) in
                   if start + width > length (rd_bytes p) then Err (reader_error q ''invalid UTF-8'')
                   else if \<not> from_utf8 slice then Err (reader_error q ''invalid UTF-8'')
                   else read_string (q\<lparr>rd_index := start + width\<rparr>) (acc @ slice)))))"
  by pat_completeness auto
termination
proof (relation "measure (left \<circ> fst)")
qed (auto dest!: peek_left simp: left_def past_def past_counting_def utf8_width_def Let_def split: if_splits)

declare read_string.simps [simp del]

definition ends_atom :: "char \<Rightarrow> bool" where
  "ends_atom c \<longleftrightarrow> is_space c \<or> c \<in> {CHR ''('', CHR '')'', CHR '';''}"

function atom_end :: "reader \<Rightarrow> reader" where
  "atom_end p =
     (case peek p of
        None \<Rightarrow> p
      | Some c \<Rightarrow> if ends_atom c then p else atom_end (past p))"
  by pat_completeness auto
termination by (relation "measure left") (auto dest: peek_left)

declare atom_end.simps [simp del]

definition read_atom :: "reader \<Rightarrow> nat \<Rightarrow> (parse_error, sexpr \<times> reader) outcome" where
  "read_atom p line =
     (let q = atom_end p;
          value = take (rd_index q - rd_index p) (drop (rd_index p) (rd_bytes q))
      in if from_utf8 value then Ok (Atom value line, q) else Err (reader_error q ''invalid UTF-8 atom''))"

section \<open>Expressions\<close>

text \<open>A job is an expression at a depth, or the rest of a list with the items read so far.\<close>

datatype job = Expression nat | Items nat "sexpr list" nat

partial_function (option) read_job :: "job \<Rightarrow> reader \<Rightarrow> (parse_error, sexpr \<times> reader) outcome option" where
  [code]: "read_job job p =
     (case job of
        Expression depth \<Rightarrow>
          (if depth > max_nesting_depth then Some (Err (reader_error p ''spec exceeds the 128-level nesting limit''))
           else
             let p = p\<lparr>rd_expressions := rd_expressions p + 1\<rparr> in
             if rd_expressions p > max_expressions
             then Some (Err (reader_error p ''spec exceeds the 100000-expression limit''))
             else
               let p = skip_space_and_comments p; line = rd_line p in
               case peek p of
                 None \<Rightarrow> Some (Err (reader_error p ''expected expression''))
               | Some c \<Rightarrow>
                   (if c = CHR ''('' then read_job (Items depth [] line) (past p)
                    else if c = quote then
                      Some (obind (read_string (past p) []) (\<lambda>(value, p). Ok (Str value line, p)))
                    else if c = CHR '')'' then Some (Err (reader_error p (''unexpected '' @ [CHR 0x27, CHR '')'', CHR 0x27])))
                    else Some (read_atom p line)))
      | Items depth items line \<Rightarrow>
          let p = skip_space_and_comments p in
          case peek p of
            None \<Rightarrow> Some (Err (reader_error p ''unterminated list''))
          | Some c \<Rightarrow>
              (if c = CHR '')'' then Some (Ok (Lst items line, past p))
               else
                 do {
                   r \<leftarrow> read_job (Expression (depth + 1)) p;
                   case r of
                     Err e \<Rightarrow> Some (Err e)
                   | Panic \<Rightarrow> Some Panic
                   | Ok (item, p) \<Rightarrow> read_job (Items depth (items @ [item]) line) p
                 }))"

definition read_expression :: "reader \<Rightarrow> (parse_error, sexpr \<times> reader) outcome option" where
  "read_expression p = read_job (Expression 0) p"

text \<open>Reading a whole source: within the size limit, exactly one expression.\<close>

definition read_source :: "string \<Rightarrow> (parse_error, sexpr) outcome option" where
  "read_source source =
     (if length source > max_source_bytes
      then Some (Err \<lparr>pe_line = 1, pe_message = ''spec exceeds the 1048576-byte source limit''\<rparr>)
      else
        map_option (\<lambda>r. obind r (\<lambda>(root, p).
          let p = skip_space_and_comments p in
          if peek p \<noteq> None then Err (reader_error p ''expected exactly one top-level form'') else Ok root))
          (read_expression (reader_new source)))"

end
