(* ===== verification/SpecTerms.thy ===== *)
theory SpecTerms
  imports SpecRead NodeKinds
begin

text \<open>
  What a specification says (\<open>spec.rs\<close>): its grants, its benchmark policy, and its steps, each a
  command with the line it stands on; the vocabulary name of every command, the runner it may
  run on, and the check of a specification against a runner. A pixel distance is an \<open>int\<close> in the
  range of \<open>i32\<close>; \<open>usize\<close> is 64 bits.
\<close>

section \<open>Locators\<close>

datatype locator =
    LocWithin locator locator
  | LocText string
  | LocTextPrefix string
  | LocButtonName string
  | LocButtonPrefix string
  | LocCheckboxName string
  | LocCheckboxPrefix string
  | LocColumnName string
  | LocDialogName string
  | LocTooltipName string
  | LocShortcut string
  | LocChord string
  | LocPanelName string
  | LocRowName string
  | LocScrollName string
  | LocVirtualListName string
  | LocTextareaName string
  | LocImageName string
  | LocCanvasName string
  | LocCanvasItemName string
  | LocCanvasItemPrefix string
  | LocTextInputName string
  | LocSeparatorName string
  | LocTabName string
  | LocDropTargetName string

text \<open>The final target role, without the scope it is looked for in.\<close>

fun loc_target :: "locator \<Rightarrow> locator" where
  "loc_target (LocWithin ancestor target) = loc_target target"
| "loc_target l = l"

section \<open>Grants\<close>

record appearance_settings =
  as_dark :: bool
  as_reduced_motion :: bool

datatype recent_seed =
    SeedPath string
  | SeedEach string "string option"
  | SeedCopied string

datatype spec_grant =
    GrantDirectory string
  | GrantDirectoryCanceled
  | GrantDirectoryCopy string
  | GrantFile string
  | GrantFileCanceled
  | GrantFileRecording
  | GrantAppData string
  | GrantAssets string
  | GrantClipboard bool
  | GrantAudioNull
  | GrantHttpOrigin string
  | GrantTcp string
  | GrantServer string u32
  | GrantProcess string
  | GrantDevice string
  | GrantSystemMonitor string
  | GrantTheme appearance_settings
  | GrantRecents "recent_seed list"

fun grant_name :: "spec_grant \<Rightarrow> string" where
  "grant_name (GrantDirectory _) = ''directory''"
| "grant_name GrantDirectoryCanceled = ''directory''"
| "grant_name (GrantDirectoryCopy _) = ''directory''"
| "grant_name (GrantFile _) = ''file''"
| "grant_name GrantFileCanceled = ''file''"
| "grant_name GrantFileRecording = ''file''"
| "grant_name (GrantAppData _) = ''app-data''"
| "grant_name (GrantAssets _) = ''assets''"
| "grant_name (GrantClipboard _) = ''clipboard''"
| "grant_name GrantAudioNull = ''audio''"
| "grant_name (GrantHttpOrigin _) = ''http-origin''"
| "grant_name (GrantTcp _) = ''tcp''"
| "grant_name (GrantServer _ _) = ''server''"
| "grant_name (GrantProcess _) = ''process''"
| "grant_name (GrantDevice _) = ''device''"
| "grant_name (GrantSystemMonitor _) = ''system-monitor''"
| "grant_name (GrantTheme _) = ''theme''"
| "grant_name (GrantRecents _) = ''recents''"

fun grant_path_of :: "spec_grant \<Rightarrow> string option" where
  "grant_path_of (GrantDirectory path) = Some path"
| "grant_path_of (GrantDirectoryCopy path) = Some path"
| "grant_path_of (GrantFile path) = Some path"
| "grant_path_of (GrantAppData path) = Some path"
| "grant_path_of (GrantAssets path) = Some path"
| "grant_path_of (GrantServer path port) = Some path"
| "grant_path_of _ = None"

section \<open>The benchmark policy\<close>

record benchmark =
  bm_warmups :: u32
  bm_samples :: u32
  bm_iterations :: u32
  bm_scale :: u64
  bm_initial_size :: u64
  bm_change_size :: u64

section \<open>Commands\<close>

datatype scroll_motion = ScrollBy int | ScrollTo locator

datatype region =
    RegionWindow
  | RegionLocator locator
  | RegionRect u32 u32 u32 u32

record screenshot =
  sh_name :: string
  sh_region :: region
  sh_pad :: u32

record rows_expectation =
  re_count :: "u64 option"
  re_first :: "u64 option"
  re_mounted :: "u64 option"

record bounds_expectation =
  be_min_width :: "u32 option"
  be_max_width :: "u32 option"
  be_min_height :: "u32 option"
  be_max_height :: "u32 option"

definition bounds_empty :: "bounds_expectation \<Rightarrow> bool" where
  "bounds_empty b \<longleftrightarrow>
     be_min_width b = None \<and> be_max_width b = None \<and> be_min_height b = None \<and> be_max_height b = None"

record patch_expectation =
  pe_kind :: string
  pe_staged :: u64
  pe_removed :: u64

text \<open>The nine bounds of native work, in the order the command lists them.\<close>

record native_work =
  nw_button_renders_max :: "u64 option"
  nw_boundary_renders_max :: "u64 option"
  nw_boundary_elements_max :: "u64 option"
  nw_cached_prepaint_subtrees_min :: "u64 option"
  nw_cached_paint_subtrees_min :: "u64 option"
  nw_replayed_scene_operations_min :: "u64 option"
  nw_fresh_hitboxes_max :: "u64 option"
  nw_fresh_mouse_listeners_max :: "u64 option"
  nw_element_states_moved_min :: "u64 option"

datatype (plugins only: size) command =
    CmdClick locator
  | CmdHoverEnter locator
  | CmdHoverExit locator
  | CmdExpectBackground locator u32
  | CmdExpectPopoverCounters "u64 list"
  | CmdExpectKeyboardCounters "u64 list"
  | CmdMarkNativeWork
  | CmdExpectNativeWork native_work
  | CmdDrag locator int int int int
  | CmdPointerMove locator int int
  | CmdPointerOver locator
  | CmdPointerLeave locator
  | CmdWheel locator int int int int
  | CmdReplaceText locator string
  | CmdFocus locator
  | CmdPressKey control_key
  | CmdAwaitTask
  | CmdAwaitCount locator u64
  | CmdClipboardText string
  | CmdSystemTheme appearance_settings
  | CmdExpectTheme bool
  | CmdAwaitTicks u32
  | CmdAwaitTaskWaits u64
  | CmdExpectSubscriptions u64
  | CmdExpectTcpStreams u64
  | CmdExpectProcesses u64
  | CmdExpectClipboardCounters "u64 option list"
  | CmdExpectSqliteCounters "u64 list"
  | CmdExpectHttpCounters "u64 list"
  | CmdExpectTcpCounters "u64 list"
  | CmdExpectDeviceConnections u64
  | CmdExpectDeviceTransactions u64
  | CmdExpectSystemSamplers u64
  | CmdExpectSystemSamples u64
  | CmdExpectAudioCounters "u64 list"
  | CmdExpectFilePicks u64
  | CmdExpectFileLists u64
  | CmdExpectFileOpens u64
  | CmdExpectFileReads u64
  | CmdExpectFileSelectionCounters "u64 list"
  | CmdExpectFileLifecycleCounters "u64 list"
  | CmdExpectFileAccess "u64 list"
  | CmdRevokeFileGrants
  | CmdReplaceFile string string
  | CmdRemoveFile string
  | CmdDrop locator "string list"
  | CmdDragFiles locator "string list"
  | CmdExpectDropCounters "u64 list"
  | CmdExpectRecentCounters "u64 list"
  | CmdExpectWatchCounters "u64 option list"
  | CmdExpectTaskCounters "u64 option list"
  | CmdExpectDocumentCounters "u64 list"
  | CmdExpectImageOwnerCounters "u64 list"
  | CmdExpectAssetCounters "u64 list"
  | CmdExpectHashCounters "u64 list"
  | CmdExpectGrants "string list"
  | CmdExpectGrantCounters "u64 list"
  | CmdExpectAppAccess bool
  | CmdExpectComponentWork "u64 option list"
  | CmdSubmit locator
  | CmdExpectVisible locator
  | CmdExpectFocused locator
  | CmdExpectSelected locator bool
  | CmdExpectNotVisible locator
  | CmdExpectCount locator u64
  | CmdExpectCanvasPrimitives locator u64
  | CmdExpectCanvasSize locator u32 u32
  | CmdExpectValue locator string
  | CmdExpectValueBytes locator u64
  | CmdExpectImageBytes locator u64
  | CmdExpectRows locator rows_expectation
  | CmdExpectBefore locator locator
  | CmdExpectPatch patch_expectation
  | CmdMarkMetrics
  | CmdSettle u32 u32
  | CmdExpectOnScreen locator
  | CmdExpectRenderedCount locator u64
  | CmdExpectBounds locator bounds_expectation
  | CmdScreenshot screenshot
  | CmdExpectInk locator
  | CmdType string
  | CmdKey string
  | CmdResize u32 u32
  | CmdScroll locator scroll_motion

section \<open>Vocabulary\<close>

definition command_kind :: "command \<Rightarrow> string" where
  "command_kind c =
     (case c of
        CmdClick _ \<Rightarrow> ''click''
      | CmdHoverEnter _ \<Rightarrow> ''hover-enter''
      | CmdHoverExit _ \<Rightarrow> ''hover-exit''
      | CmdExpectBackground _ _ \<Rightarrow> ''expect-background''
      | CmdExpectPopoverCounters _ \<Rightarrow> ''expect-popover-counters''
      | CmdExpectKeyboardCounters _ \<Rightarrow> ''expect-keyboard-counters''
      | CmdMarkNativeWork \<Rightarrow> ''mark-native-work''
      | CmdExpectNativeWork _ \<Rightarrow> ''expect-native-work''
      | CmdDrag _ _ _ _ _ \<Rightarrow> ''drag''
      | CmdPointerMove _ _ _ \<Rightarrow> ''pointer-move''
      | CmdPointerOver _ \<Rightarrow> ''pointer-move''
      | CmdPointerLeave _ \<Rightarrow> ''pointer-leave''
      | CmdWheel _ _ _ _ _ \<Rightarrow> ''wheel''
      | CmdReplaceText _ _ \<Rightarrow> ''replace-text''
      | CmdFocus _ \<Rightarrow> ''focus''
      | CmdPressKey _ \<Rightarrow> ''press-key''
      | CmdAwaitTask \<Rightarrow> ''await-task''
      | CmdAwaitCount _ _ \<Rightarrow> ''await-count''
      | CmdClipboardText _ \<Rightarrow> ''clipboard-text''
      | CmdSystemTheme _ \<Rightarrow> ''system-theme''
      | CmdExpectTheme _ \<Rightarrow> ''expect-theme''
      | CmdAwaitTicks _ \<Rightarrow> ''await-ticks''
      | CmdAwaitTaskWaits _ \<Rightarrow> ''await-task-waits''
      | CmdExpectSubscriptions _ \<Rightarrow> ''expect-subscriptions''
      | CmdExpectTcpStreams _ \<Rightarrow> ''expect-tcp-streams''
      | CmdExpectProcesses _ \<Rightarrow> ''expect-processes''
      | CmdExpectClipboardCounters _ \<Rightarrow> ''expect-clipboard-counters''
      | CmdExpectSqliteCounters _ \<Rightarrow> ''expect-sqlite-counters''
      | CmdExpectHttpCounters _ \<Rightarrow> ''expect-http-counters''
      | CmdExpectTcpCounters _ \<Rightarrow> ''expect-tcp-counters''
      | CmdExpectDeviceConnections _ \<Rightarrow> ''expect-device-connections''
      | CmdExpectDeviceTransactions _ \<Rightarrow> ''expect-device-transactions''
      | CmdExpectSystemSamplers _ \<Rightarrow> ''expect-system-samplers''
      | CmdExpectSystemSamples _ \<Rightarrow> ''expect-system-samples''
      | CmdExpectAudioCounters _ \<Rightarrow> ''expect-audio-counters''
      | CmdExpectFilePicks _ \<Rightarrow> ''expect-file-picks''
      | CmdExpectFileLists _ \<Rightarrow> ''expect-file-lists''
      | CmdExpectFileOpens _ \<Rightarrow> ''expect-file-opens''
      | CmdExpectFileReads _ \<Rightarrow> ''expect-file-reads''
      | CmdExpectFileSelectionCounters _ \<Rightarrow> ''expect-file-selection-counters''
      | CmdExpectFileLifecycleCounters _ \<Rightarrow> ''expect-file-lifecycle-counters''
      | CmdExpectFileAccess _ \<Rightarrow> ''expect-file-access''
      | CmdRevokeFileGrants \<Rightarrow> ''revoke-file-grants''
      | CmdReplaceFile _ _ \<Rightarrow> ''replace-file''
      | CmdRemoveFile _ \<Rightarrow> ''remove-file''
      | CmdDrop _ _ \<Rightarrow> ''drop''
      | CmdDragFiles _ _ \<Rightarrow> ''drag-files''
      | CmdExpectDropCounters _ \<Rightarrow> ''expect-drop-counters''
      | CmdExpectRecentCounters _ \<Rightarrow> ''expect-recent-counters''
      | CmdExpectWatchCounters _ \<Rightarrow> ''expect-watch-counters''
      | CmdExpectTaskCounters _ \<Rightarrow> ''expect-task-counters''
      | CmdExpectDocumentCounters _ \<Rightarrow> ''expect-document-counters''
      | CmdExpectImageOwnerCounters _ \<Rightarrow> ''expect-image-owner-counters''
      | CmdExpectAssetCounters _ \<Rightarrow> ''expect-asset-counters''
      | CmdExpectHashCounters _ \<Rightarrow> ''expect-hash-counters''
      | CmdExpectGrants _ \<Rightarrow> ''expect-grants''
      | CmdExpectGrantCounters _ \<Rightarrow> ''expect-grant-counters''
      | CmdExpectAppAccess _ \<Rightarrow> ''expect-app-access''
      | CmdExpectComponentWork _ \<Rightarrow> ''expect-component-work''
      | CmdSubmit _ \<Rightarrow> ''submit''
      | CmdExpectVisible _ \<Rightarrow> ''expect-visible''
      | CmdExpectFocused _ \<Rightarrow> ''expect-focused''
      | CmdExpectSelected _ True \<Rightarrow> ''expect-selected''
      | CmdExpectSelected _ False \<Rightarrow> ''expect-not-selected''
      | CmdExpectNotVisible _ \<Rightarrow> ''expect-not-visible''
      | CmdExpectCount _ _ \<Rightarrow> ''expect-count''
      | CmdExpectCanvasPrimitives _ _ \<Rightarrow> ''expect-canvas-primitives''
      | CmdExpectCanvasSize _ _ _ \<Rightarrow> ''expect-canvas-size''
      | CmdExpectValue _ _ \<Rightarrow> ''expect-value''
      | CmdExpectValueBytes _ _ \<Rightarrow> ''expect-value-bytes''
      | CmdExpectImageBytes _ _ \<Rightarrow> ''expect-image-bytes''
      | CmdExpectRows _ _ \<Rightarrow> ''expect-rows''
      | CmdExpectBefore _ _ \<Rightarrow> ''expect-before''
      | CmdExpectPatch _ \<Rightarrow> ''expect-patch''
      | CmdMarkMetrics \<Rightarrow> ''mark-metrics''
      | CmdSettle _ _ \<Rightarrow> ''settle''
      | CmdExpectOnScreen _ \<Rightarrow> ''expect-on-screen''
      | CmdExpectRenderedCount _ _ \<Rightarrow> ''expect-rendered-count''
      | CmdExpectBounds _ _ \<Rightarrow> ''expect-bounds''
      | CmdScreenshot _ \<Rightarrow> ''screenshot''
      | CmdExpectInk _ \<Rightarrow> ''expect-ink''
      | CmdType _ \<Rightarrow> ''type''
      | CmdKey _ \<Rightarrow> ''key''
      | CmdResize _ _ \<Rightarrow> ''resize''
      | CmdScroll _ _ \<Rightarrow> ''scroll'')"

text \<open>Where a command may run.\<close>

datatype capability = CapSemantic | CapWindow | CapBoth

datatype runner = RunnerSemantic | RunnerWindow

fun permits :: "capability \<Rightarrow> runner \<Rightarrow> bool" where
  "permits CapBoth _ = True"
| "permits CapSemantic RunnerSemantic = True"
| "permits CapWindow RunnerWindow = True"
| "permits _ _ = False"

fun capability_label :: "capability \<Rightarrow> string" where
  "capability_label CapSemantic = ''semantic-only''"
| "capability_label CapWindow = ''window-only''"
| "capability_label CapBoth = ''both''"

fun capability_remedy :: "capability \<Rightarrow> string" where
  "capability_remedy CapSemantic = ''run this specification with --host-run-spec''"
| "capability_remedy CapWindow = ''run this specification with --host-run-window-spec''"
| "capability_remedy CapBoth = []"

definition capability_of :: "command \<Rightarrow> capability" where
  "capability_of c =
     (case c of
        CmdExpectPatch _ \<Rightarrow> CapSemantic
      | CmdMarkMetrics \<Rightarrow> CapSemantic
      | CmdSettle _ _ \<Rightarrow> CapWindow
      | CmdExpectAppAccess _ \<Rightarrow> CapWindow
      | CmdMarkNativeWork \<Rightarrow> CapWindow
      | CmdExpectNativeWork _ \<Rightarrow> CapWindow
      | CmdExpectOnScreen _ \<Rightarrow> CapWindow
      | CmdExpectRenderedCount _ _ \<Rightarrow> CapWindow
      | CmdExpectBounds _ _ \<Rightarrow> CapWindow
      | CmdScreenshot _ \<Rightarrow> CapWindow
      | CmdExpectInk _ \<Rightarrow> CapWindow
      | CmdType _ \<Rightarrow> CapWindow
      | CmdResize _ _ \<Rightarrow> CapWindow
      | CmdDragFiles _ _ \<Rightarrow> CapWindow
      | CmdScroll _ _ \<Rightarrow> CapWindow
      | CmdClick _ \<Rightarrow> CapBoth
      | CmdHoverEnter _ \<Rightarrow> CapBoth
      | CmdHoverExit _ \<Rightarrow> CapBoth
      | CmdPointerMove _ _ _ \<Rightarrow> CapBoth
      | CmdPointerOver _ \<Rightarrow> CapBoth
      | CmdPointerLeave _ \<Rightarrow> CapBoth
      | CmdWheel _ _ _ _ _ \<Rightarrow> CapBoth
      | CmdDrag _ _ _ _ _ \<Rightarrow> CapBoth
      | CmdDrop _ _ \<Rightarrow> CapBoth
      | CmdFocus _ \<Rightarrow> CapBoth
      | CmdPressKey _ \<Rightarrow> CapBoth
      | CmdKey _ \<Rightarrow> CapBoth
      | CmdAwaitTask \<Rightarrow> CapBoth
      | CmdClipboardText _ \<Rightarrow> CapBoth
      | CmdSystemTheme _ \<Rightarrow> CapBoth
      | CmdExpectTheme _ \<Rightarrow> CapBoth
      | CmdAwaitTicks _ \<Rightarrow> CapBoth
      | CmdAwaitCount _ _ \<Rightarrow> CapBoth
      | CmdExpectVisible _ \<Rightarrow> CapBoth
      | CmdExpectFocused _ \<Rightarrow> CapBoth
      | CmdExpectNotVisible _ \<Rightarrow> CapBoth
      | CmdExpectCount _ _ \<Rightarrow> CapBoth
      | CmdExpectCanvasPrimitives _ _ \<Rightarrow> CapBoth
      | CmdExpectCanvasSize _ _ _ \<Rightarrow> CapBoth
      | CmdExpectValue _ _ \<Rightarrow> CapBoth
      | CmdExpectSelected _ _ \<Rightarrow> CapBoth
      | CmdExpectValueBytes _ _ \<Rightarrow> CapBoth
      | CmdExpectImageBytes _ _ \<Rightarrow> CapBoth
      | CmdExpectRows _ _ \<Rightarrow> CapBoth
      | CmdExpectComponentWork _ \<Rightarrow> CapBoth
      | CmdExpectBefore _ _ \<Rightarrow> CapBoth
      | CmdExpectBackground _ _ \<Rightarrow> CapBoth
      | CmdExpectPopoverCounters _ \<Rightarrow> CapBoth
      | CmdExpectKeyboardCounters _ \<Rightarrow> CapBoth
      | CmdRevokeFileGrants \<Rightarrow> CapBoth
      | CmdReplaceFile _ _ \<Rightarrow> CapBoth
      | CmdRemoveFile _ \<Rightarrow> CapBoth
      | CmdExpectDropCounters _ \<Rightarrow> CapBoth
      | CmdExpectRecentCounters _ \<Rightarrow> CapBoth
      | CmdExpectWatchCounters _ \<Rightarrow> CapBoth
      | CmdExpectSubscriptions _ \<Rightarrow> CapBoth
      | CmdExpectTcpStreams _ \<Rightarrow> CapBoth
      | CmdExpectProcesses _ \<Rightarrow> CapBoth
      | CmdExpectClipboardCounters _ \<Rightarrow> CapBoth
      | CmdExpectSqliteCounters _ \<Rightarrow> CapBoth
      | CmdExpectHttpCounters _ \<Rightarrow> CapBoth
      | CmdExpectTcpCounters _ \<Rightarrow> CapBoth
      | CmdExpectDeviceConnections _ \<Rightarrow> CapBoth
      | CmdExpectDeviceTransactions _ \<Rightarrow> CapBoth
      | CmdExpectSystemSamplers _ \<Rightarrow> CapBoth
      | CmdExpectSystemSamples _ \<Rightarrow> CapBoth
      | CmdExpectAudioCounters _ \<Rightarrow> CapBoth
      | CmdExpectFilePicks _ \<Rightarrow> CapBoth
      | CmdExpectFileLists _ \<Rightarrow> CapBoth
      | CmdExpectFileOpens _ \<Rightarrow> CapBoth
      | CmdExpectFileReads _ \<Rightarrow> CapBoth
      | CmdExpectFileSelectionCounters _ \<Rightarrow> CapBoth
      | CmdExpectFileLifecycleCounters _ \<Rightarrow> CapBoth
      | CmdExpectFileAccess _ \<Rightarrow> CapBoth
      | CmdExpectDocumentCounters _ \<Rightarrow> CapBoth
      | CmdExpectImageOwnerCounters _ \<Rightarrow> CapBoth
      | CmdExpectAssetCounters _ \<Rightarrow> CapBoth
      | CmdExpectHashCounters _ \<Rightarrow> CapBoth
      | CmdExpectGrants _ \<Rightarrow> CapBoth
      | CmdExpectGrantCounters _ \<Rightarrow> CapBoth
      | CmdReplaceText _ _ \<Rightarrow> CapSemantic
      | CmdSubmit _ \<Rightarrow> CapSemantic
      | CmdAwaitTaskWaits _ \<Rightarrow> CapSemantic
      | CmdExpectTaskCounters _ \<Rightarrow> CapSemantic)"

definition is_operation :: "command \<Rightarrow> bool" where
  "is_operation c =
     (case c of
        CmdClick _ \<Rightarrow> True
      | CmdHoverEnter _ \<Rightarrow> True
      | CmdHoverExit _ \<Rightarrow> True
      | CmdDrag _ _ _ _ _ \<Rightarrow> True
      | CmdPointerMove _ _ _ \<Rightarrow> True
      | CmdPointerOver _ \<Rightarrow> True
      | CmdPointerLeave _ \<Rightarrow> True
      | CmdWheel _ _ _ _ _ \<Rightarrow> True
      | CmdReplaceText _ _ \<Rightarrow> True
      | CmdFocus _ \<Rightarrow> True
      | CmdPressKey _ \<Rightarrow> True
      | CmdKey _ \<Rightarrow> True
      | CmdAwaitTask \<Rightarrow> True
      | CmdAwaitCount _ _ \<Rightarrow> True
      | CmdClipboardText _ \<Rightarrow> True
      | CmdSystemTheme _ \<Rightarrow> True
      | CmdAwaitTicks _ \<Rightarrow> True
      | CmdSubmit _ \<Rightarrow> True
      | CmdRevokeFileGrants \<Rightarrow> True
      | CmdReplaceFile _ _ \<Rightarrow> True
      | CmdRemoveFile _ \<Rightarrow> True
      | CmdDrop _ _ \<Rightarrow> True
      | CmdDragFiles _ _ \<Rightarrow> True
      | CmdScroll _ _ \<Rightarrow> True
      | _ \<Rightarrow> False)"

section \<open>Specifications\<close>

record step =
  st_line :: nat
  st_command :: command

record spec =
  sp_name :: string
  sp_benchmark :: "benchmark option"
  sp_grants :: "spec_grant list"
  sp_steps :: "step list"

text \<open>The first step that the runner cannot run is reported.\<close>

fun check_steps :: "step list \<Rightarrow> runner \<Rightarrow> (string, unit) outcome" where
  "check_steps [] r = Ok ()"
| "check_steps (s # rest) r =
     (let capability = capability_of (st_command s) in
      if \<not> permits capability r
      then Err (''line '' @ decimal (st_line s) @ '': step `'' @ command_kind (st_command s) @ ''` is '' @
                capability_label capability @ ''; '' @ capability_remedy capability)
      else check_steps rest r)"

definition check_runner :: "spec \<Rightarrow> runner \<Rightarrow> (string, unit) outcome" where
  "check_runner s r =
     (if r = RunnerWindow \<and> GrantFileRecording \<in> set (sp_grants s)
      then Err ''(file recording) is semantic-only; the window runner records no capture''
      else if r = RunnerWindow \<and> sp_benchmark s \<noteq> None
      then Err ''benchmark clauses are semantic-only; the window runner runs one lifecycle''
      else check_steps (sp_steps s) r)"

end
