(* ===== verification/SpecGrammar.thy ===== *)
theory SpecGrammar
  imports SpecTerms
begin

text \<open>
  Decoding an expression into a specification (\<open>parse_spec\<close> and what it calls in \<open>spec.rs\<close>).
  A step is decoded by the first arm of the table that has its name and accepts its number of
  values, as the code's match does. The spelling of key chords is GPUI's, reached through
  \<open>keyboard.rs\<close>: the rules for it are a parameter.
\<close>

section \<open>Helpers\<close>

record chord_rules =
  cr_canonical :: "string \<Rightarrow> (string, string) outcome"
  cr_displayed :: "string \<Rightarrow> (string, string) outcome"

type_synonym 'a parsed = "(parse_error, 'a) outcome"

definition node_error :: "sexpr \<Rightarrow> string \<Rightarrow> parse_error" where
  "node_error node message = \<lparr>pe_line = sx_line node, pe_message = message\<rparr>"

definition require_list :: "sexpr \<Rightarrow> string \<Rightarrow> sexpr list parsed" where
  "require_list node what = ok_or (sx_list node) (node_error node (what @ '' must be a list''))"

text \<open>The name a list starts with.\<close>

fun head_atom :: "sexpr list \<Rightarrow> string option" where
  "head_atom [] = None"
| "head_atom (v # vs) = sx_atom v"

text \<open>\<open>collect\<close> of a sequence of results: the first error ends it.\<close>

fun collect :: "('a \<Rightarrow> ('e, 'b) outcome) \<Rightarrow> 'a list \<Rightarrow> ('e, 'b list) outcome" where
  "collect f [] = Ok []"
| "collect f (x # xs) = obind (f x) (\<lambda>y. obind (collect f xs) (\<lambda>ys. Ok (y # ys)))"

text \<open>
  \<open>str::parse\<close> of an integer: an optional sign, which for an unsigned type is only \<open>+\<close>, then at
  least one digit; a number that does not fit the type is refused.
\<close>

definition digit_of :: "nat \<Rightarrow> char \<Rightarrow> nat option" where
  "digit_of radix c =
     (let b = of_char c :: nat;
          d = (if 48 \<le> b \<and> b \<le> 57 then Some (b - 48)
               else if 97 \<le> b \<and> b \<le> 122 then Some (b - 87)
               else if 65 \<le> b \<and> b \<le> 90 then Some (b - 55) else None)
      in case d of None \<Rightarrow> None | Some n \<Rightarrow> if n < radix then Some n else None)"

fun digits :: "nat \<Rightarrow> nat \<Rightarrow> string \<Rightarrow> nat option" where
  "digits radix n [] = Some n"
| "digits radix n (c # s) =
     (case digit_of radix c of None \<Rightarrow> None | Some d \<Rightarrow> digits radix (n * radix + d) s)"

definition parse_digits :: "nat \<Rightarrow> nat \<Rightarrow> string \<Rightarrow> nat option" where
  "parse_digits radix bound s =
     (if s = [] then None
      else case digits radix 0 s of None \<Rightarrow> None | Some n \<Rightarrow> if n < bound then Some n else None)"

definition parse_unsigned :: "nat \<Rightarrow> nat \<Rightarrow> string \<Rightarrow> nat option" where
  "parse_unsigned radix bound s =
     (case s of c # rest \<Rightarrow> if c = CHR ''+'' then parse_digits radix bound rest else parse_digits radix bound s
      | [] \<Rightarrow> None)"

definition parse_u64 :: "string \<Rightarrow> u64 option" where
  "parse_u64 s = map_option of_nat (parse_unsigned 10 (2 ^ 64) s)"

definition parse_number_u32 :: "string \<Rightarrow> u32 option" where
  "parse_number_u32 s = map_option of_nat (parse_unsigned 10 (2 ^ 32) s)"

definition parse_signed :: "string \<Rightarrow> int option" where
  "parse_signed s =
     (case s of
        [] \<Rightarrow> None
      | c # rest \<Rightarrow>
          if c = CHR ''-'' then map_option (\<lambda>n. - int n) (parse_digits 10 (2 ^ 31 + 1) rest)
          else if c = CHR ''+'' then map_option int (parse_digits 10 (2 ^ 31) rest)
          else map_option int (parse_digits 10 (2 ^ 31) s))"

text \<open>An atom, or the error on the node; and an atom that is a number.\<close>

definition need_atom :: "sexpr \<Rightarrow> string \<Rightarrow> string parsed" where
  "need_atom node message = ok_or (sx_atom node) (node_error node message)"

definition need_string :: "sexpr \<Rightarrow> string \<Rightarrow> string parsed" where
  "need_string node message = ok_or (sx_string node) (node_error node message)"

definition need_u64 :: "sexpr \<Rightarrow> string \<Rightarrow> string \<Rightarrow> u64 parsed" where
  "need_u64 node no_atom no_number =
     obind (need_atom node no_atom) (\<lambda>text. ok_or (parse_u64 text) (node_error node no_number))"

definition need_u32 :: "sexpr \<Rightarrow> string \<Rightarrow> string \<Rightarrow> u32 parsed" where
  "need_u32 node no_atom no_number =
     obind (need_atom node no_atom) (\<lambda>text. ok_or (parse_number_u32 text) (node_error node no_number))"

definition parse_i32 :: "sexpr \<Rightarrow> string \<Rightarrow> int parsed" where
  "parse_i32 node description =
     obind (need_atom node (description @ '' must be an integer''))
       (\<lambda>text. ok_or (parse_signed text) (node_error node (description @ '' must be an integer'')))"

definition parse_non_negative :: "sexpr \<Rightarrow> string \<Rightarrow> u64 parsed" where
  "parse_non_negative node name =
     need_u64 node (name @ '' requires a non-negative integer'') (name @ '' requires a non-negative integer'')"

definition counters :: "string \<Rightarrow> sexpr list \<Rightarrow> u64 list parsed" where
  "counters name nodes =
     collect (\<lambda>node. need_u64 node (name @ '' counters must be integers'')
                            (name @ '' counters must be non-negative integers'')) nodes"

definition optional_counters :: "string \<Rightarrow> sexpr list \<Rightarrow> u64 option list parsed" where
  "optional_counters name nodes =
     collect (\<lambda>node. obind (need_atom node (name @ '' counters must be integers or _'')) (\<lambda>text.
       if text = ''_'' then Ok None
       else obind (ok_or (parse_u64 text) (node_error node (name @ '' counters must be non-negative integers or _'')))
              (\<lambda>n. Ok (Some n)))) nodes"

text \<open>\<open>join\<close>, and \<open>split\<close> at a character.\<close>

fun join :: "string \<Rightarrow> string list \<Rightarrow> string" where
  "join sep [] = []"
| "join sep [s] = s"
| "join sep (s # t # rest) = s @ sep @ join sep (t # rest)"

fun split_at :: "char \<Rightarrow> string \<Rightarrow> string list" where
  "split_at c [] = [[]]"
| "split_at c (d # s) = (if d = c then [] # split_at c s
                         else case split_at c s of [] \<Rightarrow> [[d]] | part # parts \<Rightarrow> (d # part) # parts)"

section \<open>Chords and names\<close>

definition chord_modifiers :: "string list" where
  "chord_modifiers = [''ctrl'', ''alt'', ''shift'', ''cmd'', ''super'', ''fn'', ''secondary'']"

fun chord_parts :: "string list \<Rightarrow> bool \<Rightarrow> bool" where
  "chord_parts [] seen_modifier = seen_modifier"
| "chord_parts (part # parts) seen_modifier =
     (if part = [] then False
      else if parts = [] then part \<noteq> []
      else if part \<notin> set chord_modifiers then False
      else chord_parts parts True)"

definition valid_chord :: "string \<Rightarrow> bool" where
  "valid_chord chord = chord_parts (split_at (CHR ''-'') chord) False"

definition screenshot_char :: "char \<Rightarrow> bool" where
  "screenshot_char c \<longleftrightarrow>
     (let b = of_char c :: nat in 97 \<le> b \<and> b \<le> 122 \<or> 48 \<le> b \<and> b \<le> 57) \<or> c = CHR ''-''"

definition valid_screenshot_name :: "string \<Rightarrow> bool" where
  "valid_screenshot_name name \<longleftrightarrow> name \<noteq> [] \<and> length name \<le> 48 \<and> list_all screenshot_char name"

text \<open>
  \<open>relative_components\<close> of \<open>files.rs\<close>. \<open>Path::components\<close> drops empty segments and the segments
  \<open>.\<close> other than a leading one; a path that starts with a slash has a root component.
\<close>

definition normal_components :: "string \<Rightarrow> string list" where
  "normal_components path = filter (\<lambda>part. part \<noteq> [] \<and> part \<noteq> ''.'') (split_at (CHR ''/'') path)"

definition relative_components :: "string \<Rightarrow> string list option" where
  "relative_components path =
     (if path = [] \<or> CHR 0x00 \<in> set path then None
      else if hd path = CHR ''/'' \<or> hd (split_at (CHR ''/'') path) = ''.'' then None
      else if ''..'' \<in> set (normal_components path) then None
      else if normal_components path = [] then None
      else Some (normal_components path))"

definition valid_name :: "string \<Rightarrow> bool" where
  "valid_name name \<longleftrightarrow> (case relative_components name of None \<Rightarrow> False | Some parts \<Rightarrow> length parts = 1)"

section \<open>Locators\<close>

text \<open>The roles a locator names, with the error of a name that is not a string.\<close>

definition named_roles :: "(string \<times> string \<times> (string \<Rightarrow> locator)) list" where
  "named_roles =
     [(''canvas-item'', ''canvas item name must be a string'', LocCanvasItemName),
      (''canvas'', ''canvas name must be a string'', LocCanvasName),
      (''dialog'', ''dialog name must be a string'', LocDialogName),
      (''separator'', ''separator name must be a string'', LocSeparatorName),
      (''drop-target'', ''drop target name must be a string'', LocDropTargetName),
      (''tab'', ''tab name must be a string'', LocTabName),
      (''tooltip'', ''tooltip name must be a string'', LocTooltipName),
      (''textbox'', ''textbox name must be a string'', LocTextInputName),
      (''panel'', ''panel name must be a string'', LocPanelName),
      (''textarea'', ''textarea name must be a string'', LocTextareaName),
      (''image'', ''image name must be a string'', LocImageName),
      (''column'', ''column name must be a string'', LocColumnName),
      (''row'', ''row name must be a string'', LocRowName),
      (''button'', ''button name must be a string'', LocButtonName),
      (''checkbox'', ''checkbox name must be a string'', LocCheckboxName),
      (''scroll'', ''scroll name must be a string'', LocScrollName),
      (''virtual-list'', ''virtual-list name must be a string'', LocVirtualListName)]"

definition supported_roles :: string where
  "supported_roles =
     ''supported roles are button, canvas, canvas-item, checkbox, column, dialog, image, panel, row, scroll, separator, tab, textarea, textbox, tooltip, and virtual-list''"

definition parse_role :: "sexpr \<Rightarrow> sexpr list \<Rightarrow> locator parsed" where
  "parse_role node values =
     (case values of
        [_, role, key, name] \<Rightarrow>
          (case List.find (\<lambda>(r, _). sx_atom role = Some r) named_roles of
             None \<Rightarrow> Err (node_error node supported_roles)
           | Some (_, message, build) \<Rightarrow>
               if sx_atom key = Some '':name'' then
                 (case sx_string name of None \<Rightarrow> Err (node_error node message) | Some v \<Rightarrow> Ok (build v))
               else Err (node_error node supported_roles))
      | _ \<Rightarrow> Err (node_error node supported_roles))"

text \<open>The forms with one string.\<close>

definition string_locator :: "sexpr \<Rightarrow> string \<Rightarrow> (string \<Rightarrow> locator) \<Rightarrow> sexpr \<Rightarrow> locator parsed" where
  "string_locator node form build x =
     (case sx_string x of
        None \<Rightarrow> Err (node_error node (form @ '' locator requires a string''))
      | Some v \<Rightarrow> Ok (build v))"

definition chord_locator ::
  "sexpr \<Rightarrow> string \<Rightarrow> (string \<Rightarrow> (string, string) outcome) \<Rightarrow> (string \<Rightarrow> locator) \<Rightarrow> sexpr \<Rightarrow> locator parsed" where
  "chord_locator node form spelling build x =
     obind (ok_or (sx_string x) (node_error node (form @ '' locator requires a chord string''))) (\<lambda>written.
     case spelling written of
       Ok canonical \<Rightarrow> Ok (build canonical)
     | Err detail \<Rightarrow> Err (node_error node (form @ '' locator: '' @ detail))
     | Panic \<Rightarrow> Panic)"

definition parse_simple_locator :: "chord_rules \<Rightarrow> sexpr \<Rightarrow> string \<Rightarrow> sexpr list \<Rightarrow> locator parsed" where
  "parse_simple_locator rules node head values =
     (if head = ''text'' \<and> length values = 2 then string_locator node ''text'' LocText (values ! 1)
      else if head = ''text-prefix'' \<and> length values = 2
      then string_locator node ''text-prefix'' LocTextPrefix (values ! 1)
      else if head = ''checkbox-prefix'' \<and> length values = 2
      then string_locator node ''checkbox-prefix'' LocCheckboxPrefix (values ! 1)
      else if head = ''canvas-item-prefix'' \<and> length values = 2
      then string_locator node ''canvas-item-prefix'' LocCanvasItemPrefix (values ! 1)
      else if head = ''shortcut'' \<and> length values = 2
      then chord_locator node ''shortcut'' (cr_canonical rules) LocShortcut (values ! 1)
      else if head = ''chord'' \<and> length values = 2
      then chord_locator node ''chord'' (cr_displayed rules) LocChord (values ! 1)
      else if head = ''button-prefix'' \<and> length values = 2
      then string_locator node ''button-prefix'' LocButtonPrefix (values ! 1)
      else if head = ''role'' then parse_role node values
      else Err (node_error node (''unsupported locator '' @ head)))"

fun parse_locator :: "chord_rules \<Rightarrow> sexpr \<Rightarrow> locator parsed" where
  "parse_locator rules (Atom v l) = Err (node_error (Atom v l) ''locator must be a list'')"
| "parse_locator rules (Str v l) = Err (node_error (Str v l) ''locator must be a list'')"
| "parse_locator rules (Lst values l) =
     (case head_atom values of
        None \<Rightarrow> Err (node_error (Lst values l) ''locator requires a name'')
      | Some head \<Rightarrow>
          if head = ''within'' then
            (case values of
               [_, ancestor, target] \<Rightarrow>
                 obind (parse_locator rules ancestor) (\<lambda>a.
                 obind (parse_locator rules target) (\<lambda>t. Ok (LocWithin a t)))
             | _ \<Rightarrow> Err (node_error (Lst values l) ''within requires an ancestor and a target locator''))
          else parse_simple_locator rules (Lst values l) head values)"

definition parse_region :: "chord_rules \<Rightarrow> sexpr \<Rightarrow> region parsed" where
  "parse_region rules node =
     obind (require_list node ''region'') (\<lambda>values.
     if head_atom values = Some ''rect'' then
       (if length values \<noteq> 5 then Err (node_error node ''rect region requires x, y, width, and height'')
        else
          obind (collect (\<lambda>x. need_u32 x ''rect region requires non-negative integers''
                                ''rect region requires non-negative integers'') (tl values)) (\<lambda>numbers.
          if numbers ! 2 = 0 \<or> numbers ! 3 = 0
          then Err (node_error node ''rect region requires a non-zero width and height'')
          else Ok (RegionRect (numbers ! 0) (numbers ! 1) (numbers ! 2) (numbers ! 3))))
     else obind (parse_locator rules node) (\<lambda>l. Ok (RegionLocator l)))"

end
