(* ===== verification/SpecSteps.thy ===== *)
theory SpecSteps
  imports SpecGrammar
begin

text \<open>
  Decoding the grants, the benchmark policy and the steps of a specification, and the
  specification itself (\<open>parse_grant\<close>, \<open>parse_benchmark\<close>, \<open>parse_step\<close>, \<open>parse_spec\<close> and \<open>parse\<close>
  in \<open>spec.rs\<close>).
\<close>

section \<open>Keywords\<close>

fun parse_keywords ::
  "string \<Rightarrow> string list \<Rightarrow> sexpr list \<Rightarrow> (string \<times> sexpr) list \<Rightarrow> (string \<times> sexpr) list parsed" where
  "parse_keywords head allowed [] pairs = Ok pairs"
| "parse_keywords head allowed (k # rest) pairs =
     (case sx_atom k of
        None \<Rightarrow> Err (node_error k (head @ '' expects :key value pairs''))
      | Some key \<Rightarrow>
          (if key = [] \<or> hd key \<noteq> CHR '':'' then Err (node_error k (head @ '' expects :key value pairs''))
           else if key \<notin> set allowed
           then Err (node_error k (''unsupported key '' @ key @ '' for '' @ head @ ''; expected '' @ join '', '' allowed))
           else if map_of pairs key \<noteq> None then Err (node_error k (''duplicate key '' @ key @ '' for '' @ head))
           else (case rest of
                   [] \<Rightarrow> Err (node_error k (key @ '' requires a value''))
                 | x # rest \<Rightarrow> parse_keywords head allowed rest (pairs @ [(key, x)]))))"

definition keyword_u64 :: "(string \<times> sexpr) list \<Rightarrow> string \<Rightarrow> u64 option parsed" where
  "keyword_u64 pairs key =
     (case map_of pairs key of
        None \<Rightarrow> Ok None
      | Some x \<Rightarrow>
          obind (ok_or (Option.bind (sx_atom x) parse_u64) (node_error x (key @ '' requires a non-negative integer'')))
            (\<lambda>n. Ok (Some n)))"

definition keyword_u32_in :: "string \<Rightarrow> (string \<times> sexpr) list \<Rightarrow> string \<Rightarrow> nat \<Rightarrow> nat \<Rightarrow> u32 option parsed" where
  "keyword_u32_in head pairs key lowest highest =
     (case map_of pairs key of
        None \<Rightarrow> Ok None
      | Some x \<Rightarrow>
          obind (ok_or (Option.bind (sx_atom x) parse_number_u32) (node_error x (key @ '' requires an integer'')))
            (\<lambda>n. if lowest \<le> unat n \<and> unat n \<le> highest then Ok (Some n)
                 else Err (node_error x (key @ '' for '' @ head @ '' must be between '' @ decimal lowest @ '' and '' @ decimal highest))))"

definition or_default :: "'a \<Rightarrow> 'a option \<Rightarrow> 'a" where
  "or_default d x = (case x of None \<Rightarrow> d | Some a \<Rightarrow> a)"

section \<open>The benchmark policy\<close>

definition max_benchmark_lifecycles :: u64 where "max_benchmark_lifecycles = 100000"

definition parse_u32 :: "sexpr \<Rightarrow> string \<Rightarrow> bool \<Rightarrow> u32 parsed" where
  "parse_u32 node text zero_allowed =
     obind (ok_or (parse_number_u32 text) (node_error node ''benchmark count must be an integer'')) (\<lambda>n.
     if \<not> zero_allowed \<and> n = 0 then Err (node_error node ''benchmark count must be positive'') else Ok n)"

definition benchmark_field :: "sexpr \<Rightarrow> sexpr \<Rightarrow> string \<Rightarrow> string \<Rightarrow> benchmark \<Rightarrow> benchmark parsed" where
  "benchmark_field k x key text b =
     (if key = '':warmups'' then obind (parse_u32 x text True) (\<lambda>n. Ok (b\<lparr>bm_warmups := n\<rparr>))
      else if key = '':samples'' then obind (parse_u32 x text False) (\<lambda>n. Ok (b\<lparr>bm_samples := n\<rparr>))
      else if key = '':iterations'' then obind (parse_u32 x text False) (\<lambda>n. Ok (b\<lparr>bm_iterations := n\<rparr>))
      else if key = '':scale'' then
        obind (ok_or (parse_u64 text) (node_error x ''scale must be a positive integer'')) (\<lambda>n.
        if n = 0 then Err (node_error x ''scale must be a positive integer'') else Ok (b\<lparr>bm_scale := n\<rparr>))
      else if key = '':initial-size'' then
        obind (ok_or (parse_u64 text) (node_error x ''initial size must be a non-negative integer''))
          (\<lambda>n. Ok (b\<lparr>bm_initial_size := n\<rparr>))
      else if key = '':change-size'' then
        obind (ok_or (parse_u64 text) (node_error x ''change size must be a non-negative integer''))
          (\<lambda>n. Ok (b\<lparr>bm_change_size := n\<rparr>))
      else Err (node_error k (''unsupported benchmark key '' @ key)))"

fun benchmark_fields :: "sexpr list \<Rightarrow> string set \<Rightarrow> benchmark \<Rightarrow> benchmark parsed" where
  "benchmark_fields [] seen b = Ok b"
| "benchmark_fields (k # rest) seen b =
     obind (need_atom k ''benchmark key must be an atom'') (\<lambda>key.
     case rest of
       [] \<Rightarrow> Err (node_error k (key @ '' requires an integer''))
     | x # rest \<Rightarrow>
         obind (ok_or (sx_atom x) (node_error k (key @ '' requires an integer''))) (\<lambda>text.
         if key \<in> seen then Err (node_error k (''duplicate benchmark key '' @ key))
         else obind (benchmark_field k x key text b) (benchmark_fields rest (insert key seen))))"

definition parse_benchmark :: "sexpr \<Rightarrow> sexpr list \<Rightarrow> benchmark parsed" where
  "parse_benchmark node values =
     obind (benchmark_fields (tl values) {}
              \<lparr>bm_warmups = 0, bm_samples = 1, bm_iterations = 1, bm_scale = 0, bm_initial_size = 0, bm_change_size = 0\<rparr>)
       (\<lambda>b.
     if bm_scale b = 0 then Err (node_error node ''benchmark requires :scale'')
     else
       obind (ok_or (checked_add (ucast (bm_warmups b)) (ucast (bm_samples b) * ucast (bm_iterations b)))
                (node_error node ''benchmark lifecycle count overflows'')) (\<lambda>lifecycles.
       if lifecycles > max_benchmark_lifecycles
       then Err (node_error node ''benchmark exceeds the 100000-lifecycle limit'')
       else Ok b))"

section \<open>Grants\<close>

definition grant_string :: "sexpr \<Rightarrow> string \<Rightarrow> string parsed" where
  "grant_string node name =
     (case sx_string node of
        None \<Rightarrow> Err (node_error node (name @ '' grant requires a non-empty string''))
      | Some v \<Rightarrow> if v = [] then Err (node_error node (name @ '' grant requires a non-empty string'')) else Ok v)"

definition grant_path :: "sexpr \<Rightarrow> string \<Rightarrow> string parsed" where
  "grant_path node name =
     obind (grant_string node name) (\<lambda>v.
     if hd v = CHR ''/'' \<or> hd v = backslash \<or> CHR 0x00 \<in> set v
     then Err (node_error node (name @ '' grant path must be relative to the application directory''))
     else if list_ex (\<lambda>part. part = [] \<or> part = ''.'' \<or> part = ''..'') (split_at (CHR ''/'') v)
     then Err (node_error node (name @ '' grant path must stay inside the application directory''))
     else Ok v)"

definition parse_theme :: "sexpr \<Rightarrow> sexpr list \<Rightarrow> appearance_settings parsed" where
  "parse_theme node values =
     obind (case head_atom values of
              Some scheme \<Rightarrow>
                (if scheme = ''light'' then Ok False else if scheme = ''dark'' then Ok True
                 else Err (node_error node ''a theme is light or dark''))
            | None \<Rightarrow> Err (node_error node ''a theme is light or dark'')) (\<lambda>dark.
     obind (if length values < 2 then Ok False
            else if sx_atom (values ! 1) = Some ''reduced-motion'' then Ok True
            else Err (node_error node ''a theme takes only reduced-motion after its scheme'')) (\<lambda>reduced_motion.
     if length values > 2 then Err (node_error node ''a theme takes only reduced-motion after its scheme'')
     else Ok \<lparr>as_dark = dark, as_reduced_motion = reduced_motion\<rparr>))"

definition parse_recent :: "sexpr \<Rightarrow> recent_seed parsed" where
  "parse_recent item =
     (case sx_list item of
        None \<Rightarrow> obind (grant_path item ''recents'') (\<lambda>path. Ok (SeedPath path))
      | Some parts \<Rightarrow>
          (if length parts = 2 \<and> head_atom parts = Some ''each'' then
             obind (grant_path (parts ! 1) ''recents'') (\<lambda>path. Ok (SeedEach path None))
           else if length parts = 3 \<and> head_atom parts = Some ''each'' then
             obind (grant_string (parts ! 2) ''recents'') (\<lambda>extension.
             if \<not> valid_name extension \<or> CHR ''.'' \<in> set extension
             then Err (node_error item ''an extension is one name, without a dot'')
             else obind (grant_path (parts ! 1) ''recents'') (\<lambda>path. Ok (SeedEach path (Some extension))))
           else if length parts = 2 \<and> head_atom parts = Some ''copied'' then
             obind (grant_string (parts ! 1) ''recents'') (\<lambda>name.
             if \<not> valid_name name then Err (node_error item ''a copied recent names one direct child'')
             else Ok (SeedCopied name))
           else Err (node_error item
             (''a recent is a path, (each '' @ [quote] @ ''DIR'' @ [quote] @ '' ['' @ [quote] @ ''EXT'' @ [quote] @
              '']), or (copied '' @ [quote] @ ''NAME'' @ [quote] @ '')''))))"

definition grant_number :: "sexpr \<Rightarrow> sexpr \<Rightarrow> string \<Rightarrow> u32 parsed" where
  "grant_number node x message = ok_or (Option.bind (sx_atom x) parse_number_u32) (node_error node message)"

definition malformed_grants :: "string list" where
  "malformed_grants =
     [''directory'', ''app-data'', ''assets'', ''clipboard'', ''audio'', ''http-origin'', ''tcp'', ''server'',
      ''process'', ''device'', ''system-monitor'', ''theme'', ''recents'']"

text \<open>The arms of \<open>parse_grant\<close>: a name, its guard, and what it gives.\<close>

definition grant_arms :: "sexpr \<Rightarrow> sexpr list \<Rightarrow> (string \<times> bool \<times> spec_grant parsed) list" where
  "grant_arms node values =
     (let n = length values; v = (\<lambda>k. values ! k); word = (\<lambda>k. sx_atom (values ! k)) in
     [(''directory'', n = 2 \<and> word 1 = Some ''canceled'', Ok GrantDirectoryCanceled),
      (''directory'', n = 2, obind (grant_path (v 1) ''directory'') (\<lambda>path. Ok (GrantDirectory path))),
      (''directory'', n = 3 \<and> word 1 = Some ''copy'', obind (grant_path (v 2) ''directory'') (\<lambda>path. Ok (GrantDirectoryCopy path))),
      (''file'', n = 2 \<and> word 1 = Some ''canceled'', Ok GrantFileCanceled),
      (''file'', n = 2 \<and> word 1 = Some ''recording'', Ok GrantFileRecording),
      (''file'', n = 2, obind (grant_path (v 1) ''file'') (\<lambda>path. Ok (GrantFile path))),
      (''app-data'', n = 2, obind (grant_path (v 1) ''app-data'') (\<lambda>path. Ok (GrantAppData path))),
      (''assets'', n = 2, obind (grant_path (v 1) ''assets'') (\<lambda>path. Ok (GrantAssets path))),
      (''clipboard'', n = 2,
         (if word 1 = Some ''system'' then Ok (GrantClipboard True)
          else if word 1 = Some ''fixture'' then Ok (GrantClipboard False)
          else Err (node_error node ''clipboard grant must be system or fixture''))),
      (''audio'', n = 2 \<and> word 1 = Some ''null'', Ok GrantAudioNull),
      (''http-origin'', n = 2, obind (grant_string (v 1) ''http-origin'') (\<lambda>origin. Ok (GrantHttpOrigin origin))),
      (''tcp'', n = 2, obind (grant_string (v 1) ''tcp'') (\<lambda>address. Ok (GrantTcp address))),
      (''server'', n = 3,
         obind (grant_path (v 1) ''server'') (\<lambda>script.
         obind (grant_number node (v 2) ''server grant requires a readiness port 1..65535'') (\<lambda>port.
         if 1 \<le> port \<and> port \<le> 65535 then Ok (GrantServer script port)
         else Err (node_error node ''server grant requires a readiness port 1..65535'')))),
      (''process'', n = 2,
         (if word 1 = Some ''local-shell'' then Ok (GrantProcess ''local-shell'')
          else if word 1 = Some ''test-program'' then Ok (GrantProcess ''test-program'')
          else Err (node_error node ''process grant must be local-shell or test-program''))),
      (''device'', n = 2 \<or> n = 3,
         (if word 1 \<noteq> Some ''virtual'' then
            obind (grant_string (v 1) ''device'') (\<lambda>identifier.
            if n \<noteq> 2 then Err (node_error node ''a VID:PID device grant takes no control count'')
            else Ok (GrantDevice identifier))
          else if n = 2 then Ok (GrantDevice ''virtual'')
          else obind (grant_number node (v 2) ''virtual device control count must be an integer'')
                 (\<lambda>controls. Ok (GrantDevice (''virtual:'' @ decimal (unat controls)))))),
      (''system-monitor'', n = 2 \<or> n = 3,
         (if n = 2 \<and> word 1 = Some ''standard'' then Ok (GrantSystemMonitor ''standard'')
          else if n = 2 \<and> word 1 = Some ''unavailable'' then Ok (GrantSystemMonitor ''unavailable'')
          else if n = 3 \<and> word 1 = Some ''processes'' then
            obind (grant_number node (v 2) ''system-monitor process count must be an integer'')
              (\<lambda>processes. Ok (GrantSystemMonitor (''processes:'' @ decimal (unat processes))))
          else Err (node_error node ''system-monitor grant must be standard, unavailable, or (processes N)''))),
      (''theme'', n = 2 \<or> n = 3, obind (parse_theme node (tl values)) (\<lambda>settings. Ok (GrantTheme settings))),
      (''recents'', n \<ge> 2, obind (collect parse_recent (tl values)) (\<lambda>seeds. Ok (GrantRecents seeds)))])"

definition parse_grant :: "sexpr \<Rightarrow> sexpr list \<Rightarrow> spec_grant parsed" where
  "parse_grant node values =
     obind (ok_or (head_atom values) (node_error node ''grant requires a name'')) (\<lambda>name.
     case List.find (\<lambda>(form, guard, _). form = name \<and> guard) (grant_arms node values) of
       Some (_, _, result) \<Rightarrow> result
     | None \<Rightarrow>
         if name \<in> set malformed_grants then Err (node_error node (''malformed '' @ name @ '' grant''))
         else Err (node_error node (''unsupported grant '' @ name @
           ''; supported grants are app-data, audio, clipboard, device, directory, file, http-origin, process, recents, server, system-monitor, tcp, and theme'')))"

fun parse_grants :: "sexpr list \<Rightarrow> spec_grant list \<Rightarrow> spec_grant list parsed" where
  "parse_grants [] grants = Ok grants"
| "parse_grants (entry # rest) grants =
     obind (require_list entry ''grant'') (\<lambda>values.
     obind (parse_grant entry values) (\<lambda>grant.
     if list_ex (\<lambda>existing. grant_name existing = grant_name grant) grants
     then Err (node_error entry (''duplicate '' @ grant_name grant @ '' grant''))
     else parse_grants rest (grants @ [grant])))"

end
