(* ===== verification/SpecArms.thy ===== *)
theory SpecArms
  imports SpecSteps
begin

text \<open>
  The arms of \<open>parse_step\<close> and the whole specification. An arm is the name of a command, the
  guard on the number of values, and what it decodes; the guard is tested before the rest of the
  arm has a meaning. The fixed arrays of counters are lists.
\<close>

section \<open>Arms\<close>

type_synonym arm = "string \<times> bool \<times> command parsed"

abbreviation one_locator :: "chord_rules \<Rightarrow> string \<Rightarrow> sexpr list \<Rightarrow> (locator \<Rightarrow> command) \<Rightarrow> arm" where
  "one_locator rules name values build \<equiv>
     (name, length values = 2, obind (parse_locator rules (values ! 1)) (\<lambda>l. Ok (build l)))"

definition parse_color :: "string \<Rightarrow> u32 option" where
  "parse_color text =
     (if take 2 text = ''0x'' then
        (case parse_unsigned 16 (2 ^ 32) (drop 2 text) of
           None \<Rightarrow> None
         | Some n \<Rightarrow> if n \<le> 0xFFFFFF then Some (of_nat n) else None)
      else None)"

definition four_ints :: "sexpr list \<Rightarrow> string \<Rightarrow> string \<Rightarrow> (int \<Rightarrow> int \<Rightarrow> int \<Rightarrow> int \<Rightarrow> command) \<Rightarrow> command parsed" where
  "four_ints values first second build =
     obind (parse_i32 (values ! 2) first) (\<lambda>x.
     obind (parse_i32 (values ! 3) first) (\<lambda>y.
     obind (parse_i32 (values ! 4) second) (\<lambda>dx.
     obind (parse_i32 (values ! 5) second) (\<lambda>dy. Ok (build x y dx dy)))))"

text \<open>Commands that act on the application.\<close>

definition input_arms :: "chord_rules \<Rightarrow> sexpr list \<Rightarrow> arm list" where
  "input_arms rules values =
     (let n = length values; v = (\<lambda>k. values ! k); loc = (\<lambda>k. parse_locator rules (values ! k)) in
     [one_locator rules ''click'' values CmdClick,
      one_locator rules ''hover-enter'' values CmdHoverEnter,
      one_locator rules ''hover-exit'' values CmdHoverExit,
      (''expect-background'', n = 3,
         obind (ok_or (Option.bind (sx_atom (v 2)) parse_color)
                  (node_error (v 2) ''expect-background requires an RGB color as 0xRRGGBB'')) (\<lambda>color.
         obind (loc 1) (\<lambda>l. Ok (CmdExpectBackground l color)))),
      (''drag'', n = 6, obind (loc 1) (\<lambda>l. four_ints values ''drag coordinate'' ''drag coordinate'' (CmdDrag l))),
      (''pointer-move'', n = 4,
         obind (loc 1) (\<lambda>l.
         obind (parse_i32 (v 2) ''pointer coordinate'') (\<lambda>x.
         obind (parse_i32 (v 3) ''pointer coordinate'') (\<lambda>y. Ok (CmdPointerMove l x y))))),
      one_locator rules ''pointer-move'' values CmdPointerOver,
      one_locator rules ''pointer-leave'' values CmdPointerLeave,
      (''wheel'', n = 6, obind (loc 1) (\<lambda>l. four_ints values ''wheel coordinate'' ''wheel distance'' (CmdWheel l))),
      (''replace-text'', n = 3,
         obind (loc 1) (\<lambda>l. obind (need_string (v 2) ''replace-text requires a string'') (\<lambda>text. Ok (CmdReplaceText l text)))),
      one_locator rules ''focus'' values CmdFocus,
      (''press-key'', n = 2,
         obind (need_atom (v 1) ''press-key requires Enter, Escape, or Space'') (\<lambda>key.
         if key = ''Enter'' then Ok (CmdPressKey KeyEnter)
         else if key = ''Escape'' then Ok (CmdPressKey KeyEscape)
         else if key = ''Space'' then Ok (CmdPressKey KeySpace)
         else Err (node_error (v 1) ''press-key requires Enter, Escape, or Space''))),
      (''await-task'', n = 1, Ok CmdAwaitTask),
      (''await-count'', n = 3,
         obind (parse_non_negative (v 2) ''await-count'') (\<lambda>expected.
         obind (loc 1) (\<lambda>l. Ok (CmdAwaitCount l expected)))),
      (''type'', n = 2,
         obind (need_string (v 1) ''type requires a string'') (\<lambda>text.
         if text = [] then Err (node_error (v 1) ''type requires a non-empty string'') else Ok (CmdType text))),
      (''key'', n = 2,
         obind (need_string (v 1) ''key requires a chord string'') (\<lambda>chord.
         if \<not> valid_chord chord
         then Err (node_error (v 1) (''key requires a chord such as '' @ [quote] @ ''secondary-a'' @ [quote] @ '' or '' @
                [quote] @ ''ctrl-shift-k'' @ [quote]))
         else Ok (CmdKey chord)))])"

text \<open>Commands about the window.\<close>

definition parse_motion :: "chord_rules \<Rightarrow> sexpr \<Rightarrow> (string \<times> sexpr) list \<Rightarrow> scroll_motion parsed" where
  "parse_motion rules node pairs =
     (case (map_of pairs '':by'', map_of pairs '':to'') of
        (Some distance, None) \<Rightarrow>
          (case Option.bind (sx_atom distance) parse_signed of
             Some n \<Rightarrow> if 1 \<le> \<bar>n\<bar> \<and> \<bar>n\<bar> \<le> 100000 then Ok (ScrollBy n)
                       else Err (node_error distance ''scroll :by is a non-zero number of logical pixels, up to 100000'')
           | None \<Rightarrow> Err (node_error distance ''scroll :by is a non-zero number of logical pixels, up to 100000''))
      | (None, Some target) \<Rightarrow> obind (parse_locator rules target) (\<lambda>l. Ok (ScrollTo l))
      | _ \<Rightarrow> Err (node_error node ''scroll requires exactly one of :by and :to''))"

definition parse_dimension :: "sexpr \<Rightarrow> string \<Rightarrow> u32 parsed" where
  "parse_dimension node name =
     (case Option.bind (sx_atom node) parse_number_u32 of
        Some n \<Rightarrow> if 64 \<le> n \<and> n \<le> 8192 then Ok n
                  else Err (node_error node (''resize '' @ name @ '' is 64 to 8192 logical pixels''))
      | None \<Rightarrow> Err (node_error node (''resize '' @ name @ '' is 64 to 8192 logical pixels'')))"

definition parse_bounds :: "sexpr \<Rightarrow> (string \<times> sexpr) list \<Rightarrow> bounds_expectation parsed" where
  "parse_bounds node pairs =
     obind (keyword_u32_in ''expect-bounds'' pairs '':min-width'' 0 100000) (\<lambda>min_width.
     obind (keyword_u32_in ''expect-bounds'' pairs '':max-width'' 0 100000) (\<lambda>max_width.
     obind (keyword_u32_in ''expect-bounds'' pairs '':min-height'' 0 100000) (\<lambda>min_height.
     obind (keyword_u32_in ''expect-bounds'' pairs '':max-height'' 0 100000) (\<lambda>max_height.
     let b = \<lparr>be_min_width = min_width, be_max_width = max_width, be_min_height = min_height, be_max_height = max_height\<rparr> in
     if bounds_empty b
     then Err (node_error node ''expect-bounds requires at least one of :min-width, :max-width, :min-height, :max-height'')
     else Ok b))))"

definition parse_rows :: "sexpr \<Rightarrow> (string \<times> sexpr) list \<Rightarrow> rows_expectation parsed" where
  "parse_rows node pairs =
     obind (keyword_u64 pairs '':count'') (\<lambda>count.
     obind (keyword_u64 pairs '':first'') (\<lambda>first.
     obind (keyword_u64 pairs '':mounted'') (\<lambda>mounted.
     if count = None \<and> first = None \<and> mounted = None
     then Err (node_error node ''expect-rows requires at least one of :count, :first, :mounted'')
     else Ok \<lparr>re_count = count, re_first = first, re_mounted = mounted\<rparr>)))"

definition window_arms :: "chord_rules \<Rightarrow> sexpr \<Rightarrow> sexpr list \<Rightarrow> arm list" where
  "window_arms rules node values =
     (let n = length values; v = (\<lambda>k. values ! k); loc = (\<lambda>k. parse_locator rules (values ! k)) in
     [(''screenshot'', n \<ge> 2,
         obind (need_string (v 1) ''screenshot requires a name string'') (\<lambda>name.
         if \<not> valid_screenshot_name name
         then Err (node_error (v 1) ''screenshot names use lowercase letters, digits, and hyphens, up to 48 characters'')
         else
           obind (parse_keywords ''screenshot'' ['':region'', '':pad''] (drop 2 values) []) (\<lambda>pairs.
           obind (case map_of pairs '':region'' of None \<Rightarrow> Ok RegionWindow | Some x \<Rightarrow> parse_region rules x) (\<lambda>region.
           obind (keyword_u32_in ''screenshot'' pairs '':pad'' 0 256) (\<lambda>pad.
           Ok (CmdScreenshot \<lparr>sh_name = name, sh_region = region, sh_pad = or_default 0 pad\<rparr>)))))),
      one_locator rules ''expect-ink'' values CmdExpectInk,
      one_locator rules ''expect-on-screen'' values CmdExpectOnScreen,
      (''expect-rendered-count'', n = 3,
         obind (loc 1) (\<lambda>l.
         obind (parse_non_negative (v 2) ''expect-rendered-count'') (\<lambda>expected. Ok (CmdExpectRenderedCount l expected)))),
      (''expect-bounds'', n \<ge> 2,
         obind (loc 1) (\<lambda>l.
         obind (parse_keywords ''expect-bounds'' ['':min-width'', '':max-width'', '':min-height'', '':max-height''] (drop 2 values) [])
           (\<lambda>pairs. obind (parse_bounds node pairs) (\<lambda>b. Ok (CmdExpectBounds l b))))),
      (''expect-rows'', n \<ge> 2,
         obind (loc 1) (\<lambda>l.
         obind (parse_keywords ''expect-rows'' ['':count'', '':first'', '':mounted''] (drop 2 values) [])
           (\<lambda>pairs. obind (parse_rows node pairs) (\<lambda>r. Ok (CmdExpectRows l r))))),
      (''resize'', n = 3,
         obind (parse_dimension (v 1) ''width'') (\<lambda>width.
         obind (parse_dimension (v 2) ''height'') (\<lambda>height. Ok (CmdResize width height)))),
      (''scroll'', n \<ge> 2,
         obind (loc 1) (\<lambda>l.
         obind (parse_keywords ''scroll'' ['':by'', '':to''] (drop 2 values) []) (\<lambda>pairs.
         obind (parse_motion rules node pairs) (\<lambda>motion. Ok (CmdScroll l motion))))),
      (''settle'', True,
         obind (parse_keywords ''settle'' ['':frames'', '':timeout-ms''] (tl values) []) (\<lambda>pairs.
         obind (keyword_u32_in ''settle'' pairs '':frames'' 1 60) (\<lambda>frames.
         obind (keyword_u32_in ''settle'' pairs '':timeout-ms'' 1 60000) (\<lambda>timeout.
         Ok (CmdSettle (or_default 2 frames) (or_default 2000 timeout))))))])"

text \<open>The environment and its counters.\<close>

abbreviation one_count :: "string \<Rightarrow> sexpr list \<Rightarrow> (u64 \<Rightarrow> command) \<Rightarrow> arm" where
  "one_count name values build \<equiv>
     (name, length values = 2, obind (parse_non_negative (values ! 1) name) (\<lambda>n. Ok (build n)))"

abbreviation named_counters :: "string \<Rightarrow> nat \<Rightarrow> sexpr list \<Rightarrow> string \<Rightarrow> (u64 list \<Rightarrow> command) \<Rightarrow> arm" where
  "named_counters name count values what build \<equiv>
     (name, length values = count + 1, obind (counters what (tl values)) (\<lambda>ns. Ok (build ns)))"

abbreviation counts :: "string \<Rightarrow> nat \<Rightarrow> sexpr list \<Rightarrow> (u64 list \<Rightarrow> command) \<Rightarrow> arm" where
  "counts name count values build \<equiv>
     (name, length values = count + 1,
      obind (collect (\<lambda>x. parse_non_negative x name) (tl values)) (\<lambda>ns. Ok (build ns)))"

definition file_counter :: "sexpr list \<Rightarrow> (u64 \<Rightarrow> command) \<Rightarrow> command parsed" where
  "file_counter values build =
     obind (need_u64 (values ! 1) ''file counter must be an integer'' ''file counter must be a non-negative integer'')
       (\<lambda>n. Ok (build n))"

definition environment_arms :: "sexpr list \<Rightarrow> arm list" where
  "environment_arms values =
     (let n = length values; v = (\<lambda>k. values ! k) in
     [(''system-theme'', 2 \<le> n \<and> n \<le> 3, obind (parse_theme (v 0) (tl values)) (\<lambda>settings. Ok (CmdSystemTheme settings))),
      (''expect-theme'', n = 2,
         (if sx_atom (v 1) = Some ''light'' then Ok (CmdExpectTheme False)
          else if sx_atom (v 1) = Some ''dark'' then Ok (CmdExpectTheme True)
          else Err (node_error (v 1) ''expect-theme requires light or dark''))),
      (''clipboard-text'', n = 2,
         obind (need_string (v 1) ''clipboard-text requires a string'') (\<lambda>text. Ok (CmdClipboardText text))),
      one_count ''await-task-waits'' values CmdAwaitTaskWaits,
      (''await-ticks'', n = 2,
         obind (need_u32 (v 1) ''await-ticks requires a positive integer'' ''await-ticks requires a positive integer'')
           (\<lambda>ticks. Ok (CmdAwaitTicks ticks))),
      one_count ''expect-subscriptions'' values CmdExpectSubscriptions,
      one_count ''expect-tcp-streams'' values CmdExpectTcpStreams,
      one_count ''expect-processes'' values CmdExpectProcesses,
      (''expect-clipboard-counters'', n = 5,
         obind (optional_counters ''clipboard'' (tl values)) (\<lambda>ns. Ok (CmdExpectClipboardCounters ns))),
      named_counters ''expect-keyboard-counters'' 4 values ''keyboard'' CmdExpectKeyboardCounters,
      named_counters ''expect-popover-counters'' 3 values ''popover'' CmdExpectPopoverCounters,
      named_counters ''expect-sqlite-counters'' 3 values ''SQLite'' CmdExpectSqliteCounters,
      named_counters ''expect-http-counters'' 4 values ''HTTP'' CmdExpectHttpCounters,
      named_counters ''expect-tcp-counters'' 5 values ''TCP'' CmdExpectTcpCounters,
      one_count ''expect-device-connections'' values CmdExpectDeviceConnections,
      one_count ''expect-device-transactions'' values CmdExpectDeviceTransactions,
      one_count ''expect-system-samplers'' values CmdExpectSystemSamplers,
      one_count ''expect-system-samples'' values CmdExpectSystemSamples,
      named_counters ''expect-audio-counters'' 9 values ''audio'' CmdExpectAudioCounters,
      (''expect-file-picks'', n = 2, file_counter values CmdExpectFilePicks),
      (''expect-file-lists'', n = 2, file_counter values CmdExpectFileLists),
      (''expect-file-opens'', n = 2, file_counter values CmdExpectFileOpens),
      (''expect-file-reads'', n = 2, file_counter values CmdExpectFileReads),
      named_counters ''expect-image-owner-counters'' 4 values ''image owner'' CmdExpectImageOwnerCounters,
      (''expect-grants'', True,
         obind (collect (\<lambda>x. need_string x ''expect-grants takes quoted grant descriptions'') (tl values))
           (\<lambda>expected. Ok (CmdExpectGrants expected))),
      (''expect-app-access'', n = 2,
         (if sx_atom (v 1) = Some ''open'' then Ok (CmdExpectAppAccess True)
          else if sx_atom (v 1) = Some ''closed'' then Ok (CmdExpectAppAccess False)
          else Err (node_error (v 1) ''expect-app-access takes open or closed''))),
      counts ''expect-grant-counters'' 4 values CmdExpectGrantCounters,
      counts ''expect-asset-counters'' 6 values CmdExpectAssetCounters,
      counts ''expect-hash-counters'' 3 values CmdExpectHashCounters,
      named_counters ''expect-file-selection-counters'' 7 values ''file selection'' CmdExpectFileSelectionCounters,
      counts ''expect-file-lifecycle-counters'' 6 values CmdExpectFileLifecycleCounters,
      counts ''expect-file-access'' 3 values CmdExpectFileAccess])"

definition file_arms :: "chord_rules \<Rightarrow> sexpr list \<Rightarrow> arm list" where
  "file_arms rules values =
     (let n = length values; v = (\<lambda>k. values ! k); loc = (\<lambda>k. parse_locator rules (values ! k)) in
     [(''revoke-file-grants'', n = 1, Ok CmdRevokeFileGrants),
      (''replace-file'', n = 3,
         obind (case sx_string (v 1) of
                  Some name \<Rightarrow> if valid_name name then Ok name
                               else Err (node_error (v 1) ''replace-file names one direct child'')
                | None \<Rightarrow> Err (node_error (v 1) ''replace-file names one direct child'')) (\<lambda>name.
         obind (case sx_string (v 2) of
                  Some source \<Rightarrow> if source \<noteq> [] then Ok source
                                 else Err (node_error (v 2) ''replace-file requires a source path'')
                | None \<Rightarrow> Err (node_error (v 2) ''replace-file requires a source path'')) (\<lambda>source.
         Ok (CmdReplaceFile name source)))),
      (''remove-file'', n = 2,
         (case sx_string (v 1) of
            Some name \<Rightarrow> if valid_name name then Ok (CmdRemoveFile name)
                         else Err (node_error (v 1) ''remove-file names one direct child'')
          | None \<Rightarrow> Err (node_error (v 1) ''remove-file names one direct child''))),
      (''drop'', n \<ge> 3,
         obind (loc 1) (\<lambda>l. obind (collect (\<lambda>x. grant_path x ''drop'') (drop 2 values)) (\<lambda>paths. Ok (CmdDrop l paths)))),
      (''drag-files'', n \<ge> 3,
         obind (loc 1) (\<lambda>l. obind (collect (\<lambda>x. grant_path x ''drag-files'') (drop 2 values)) (\<lambda>paths. Ok (CmdDragFiles l paths)))),
      counts ''expect-drop-counters'' 3 values CmdExpectDropCounters,
      counts ''expect-recent-counters'' 5 values CmdExpectRecentCounters,
      (''expect-watch-counters'', n = 6,
         obind (optional_counters ''watch'' (tl values)) (\<lambda>ns. Ok (CmdExpectWatchCounters ns))),
      (''expect-task-counters'', n = 7,
         obind (optional_counters ''task'' (tl values)) (\<lambda>ns. Ok (CmdExpectTaskCounters ns))),
      counts ''expect-document-counters'' 6 values CmdExpectDocumentCounters])"

text \<open>Claims about the mounted graph.\<close>

definition component_work_names :: "string list" where
  "component_work_names =
     [''rendered'', ''compared'', ''skipped'', ''mounted'', ''retired'', ''registry_visits'',
      ''ancestor_invalidations'', ''projection_gets'', ''projection_sets'', ''keyed_order_visits'',
      ''keyed_snapshot_items'']"

definition dashed :: "string \<Rightarrow> string" where
  "dashed name = map (\<lambda>c. if c = CHR ''_'' then CHR ''-'' else c) name"

text \<open>The first position that satisfies a predicate.\<close>

fun first_position :: "('a \<Rightarrow> bool) \<Rightarrow> 'a list \<Rightarrow> nat option" where
  "first_position P [] = None"
| "first_position P (x # xs) = (if P x then Some 0 else map_option Suc (first_position P xs))"

fun component_work :: "sexpr list \<Rightarrow> u64 option list \<Rightarrow> u64 option list parsed" where
  "component_work (k # x # rest) expected =
     obind (case sx_atom k of
              Some text \<Rightarrow> if text \<noteq> [] \<and> hd text = CHR '':'' then Ok (tl text)
                           else Err (node_error k ''component work requires named :counter COUNT pairs'')
            | None \<Rightarrow> Err (node_error k ''component work requires named :counter COUNT pairs'')) (\<lambda>name.
     obind (ok_or (first_position (\<lambda>candidate. dashed candidate = name) component_work_names)
              (node_error k ''unknown component work counter'')) (\<lambda>index.
     if expected ! index \<noteq> None then Err (node_error k ''duplicate component work counter'')
     else
       obind (need_u64 x ''component work count must be a non-negative integer''
                ''component work count must be a non-negative integer'') (\<lambda>n.
       component_work rest (expected[index := Some n]))))"
| "component_work _ expected = Ok expected"

definition parse_patch_claim :: "sexpr \<Rightarrow> sexpr list \<Rightarrow> patch_expectation parsed" where
  "parse_patch_claim node values =
     (if sx_atom (values ! 1) \<noteq> Some '':kind'' \<or> sx_atom (values ! 3) \<noteq> Some '':staged'' \<or> sx_atom (values ! 5) \<noteq> Some '':removed''
      then Err (node_error node ''expect-patch syntax is :kind KIND :staged COUNT :removed COUNT'')
      else
        obind (need_atom (values ! 2) ''patch kind must be mount, replace, keyed, or no_change'') (\<lambda>kind.
        if kind \<notin> {''mount'', ''replace'', ''keyed'', ''no_change''}
        then Err (node_error (values ! 2) ''patch kind must be mount, replace, keyed, or no_change'')
        else
          obind (need_u64 (values ! 4) ''patch count must be a non-negative integer'' ''patch count must be a non-negative integer'') (\<lambda>staged.
          obind (need_u64 (values ! 6) ''patch count must be a non-negative integer'' ''patch count must be a non-negative integer'') (\<lambda>removed.
          Ok \<lparr>pe_kind = kind, pe_staged = staged, pe_removed = removed\<rparr>))))"

definition native_work_keys :: "string list" where
  "native_work_keys =
     ['':button-renders-max'', '':boundary-renders-max'', '':boundary-elements-max'',
      '':cached-prepaint-subtrees-min'', '':cached-paint-subtrees-min'', '':replayed-scene-operations-min'',
      '':fresh-hitboxes-max'', '':fresh-mouse-listeners-max'', '':element-states-moved-min'']"

definition parse_native_work :: "sexpr \<Rightarrow> (string \<times> sexpr) list \<Rightarrow> native_work parsed" where
  "parse_native_work node pairs =
     obind (collect (keyword_u64 pairs) native_work_keys) (\<lambda>bounds.
     if list_all (\<lambda>b. b = None) bounds
     then Err (node_error node ''expect-native-work requires at least one native work maximum'')
     else Ok \<lparr>nw_button_renders_max = bounds ! 0, nw_boundary_renders_max = bounds ! 1,
              nw_boundary_elements_max = bounds ! 2, nw_cached_prepaint_subtrees_min = bounds ! 3,
              nw_cached_paint_subtrees_min = bounds ! 4, nw_replayed_scene_operations_min = bounds ! 5,
              nw_fresh_hitboxes_max = bounds ! 6, nw_fresh_mouse_listeners_max = bounds ! 7,
              nw_element_states_moved_min = bounds ! 8\<rparr>)"

definition claim_arms :: "chord_rules \<Rightarrow> sexpr \<Rightarrow> sexpr list \<Rightarrow> arm list" where
  "claim_arms rules node values =
     (let n = length values; v = (\<lambda>k. values ! k); loc = (\<lambda>k. parse_locator rules (values ! k)) in
     [one_locator rules ''submit'' values CmdSubmit,
      one_locator rules ''expect-visible'' values CmdExpectVisible,
      one_locator rules ''expect-focused'' values CmdExpectFocused,
      one_locator rules ''expect-selected'' values (\<lambda>l. CmdExpectSelected l True),
      one_locator rules ''expect-not-selected'' values (\<lambda>l. CmdExpectSelected l False),
      one_locator rules ''expect-not-visible'' values CmdExpectNotVisible,
      (''expect-count'', n = 3,
         obind (parse_non_negative (v 2) ''expect-count'') (\<lambda>expected. obind (loc 1) (\<lambda>l. Ok (CmdExpectCount l expected)))),
      (''expect-canvas-primitives'', n = 3,
         obind (parse_non_negative (v 2) ''expect-canvas-primitives'') (\<lambda>expected.
         obind (loc 1) (\<lambda>l. Ok (CmdExpectCanvasPrimitives l expected)))),
      (''expect-canvas-size'', n = 4,
         obind (loc 1) (\<lambda>l.
         obind (need_u32 (v 2) ''expect-canvas-size requires a width and height in logical pixels''
                  ''expect-canvas-size requires a width and height in logical pixels'') (\<lambda>width.
         obind (need_u32 (v 3) ''expect-canvas-size requires a width and height in logical pixels''
                  ''expect-canvas-size requires a width and height in logical pixels'') (\<lambda>height.
         Ok (CmdExpectCanvasSize l width height))))),
      (''expect-value'', n = 3,
         obind (loc 1) (\<lambda>l. obind (need_string (v 2) ''expect-value requires a string'') (\<lambda>text. Ok (CmdExpectValue l text)))),
      (''expect-value-bytes'', n = 3,
         obind (loc 1) (\<lambda>l.
         obind (need_u64 (v 2) ''expect-value-bytes requires an integer'' ''expect-value-bytes requires an integer'')
           (\<lambda>count. Ok (CmdExpectValueBytes l count)))),
      (''expect-image-bytes'', n = 3,
         obind (loc 1) (\<lambda>l.
         obind (need_u64 (v 2) ''expect-image-bytes requires an integer'' ''expect-image-bytes requires an integer'')
           (\<lambda>count. Ok (CmdExpectImageBytes l count)))),
      (''expect-before'', n = 3, obind (loc 1) (\<lambda>l. obind (loc 2) (\<lambda>m. Ok (CmdExpectBefore l m)))),
      (''expect-component-work'', n \<ge> 3 \<and> odd n,
         obind (component_work (tl values) (replicate (length component_work_names) None))
           (\<lambda>expected. Ok (CmdExpectComponentWork expected))),
      (''expect-patch'', n = 7, obind (parse_patch_claim node values) (\<lambda>claim. Ok (CmdExpectPatch claim))),
      (''mark-native-work'', n = 1, Ok CmdMarkNativeWork),
      (''expect-native-work'', True,
         obind (parse_keywords ''expect-native-work'' native_work_keys (tl values) []) (\<lambda>pairs.
         obind (parse_native_work node pairs) (\<lambda>work. Ok (CmdExpectNativeWork work)))),
      (''mark-metrics'', n = 1, Ok CmdMarkMetrics)])"

definition step_arms :: "chord_rules \<Rightarrow> sexpr \<Rightarrow> sexpr list \<Rightarrow> arm list" where
  "step_arms rules node values =
     input_arms rules values @ window_arms rules node values @ environment_arms values @
     file_arms rules values @ claim_arms rules node values"

text \<open>The names whose wrong number of values is reported as such.\<close>

definition known_steps :: "string list" where
  "known_steps =
     [''click'', ''expect-selected'', ''expect-not-selected'', ''drag'', ''pointer-move'', ''pointer-leave'', ''wheel'',
      ''replace-text'', ''focus'', ''press-key'', ''await-task'', ''await-count'', ''clipboard-text'', ''await-ticks'',
      ''await-task-waits'', ''expect-subscriptions'', ''expect-tcp-streams'', ''expect-processes'',
      ''expect-clipboard-counters'', ''expect-popover-counters'', ''expect-keyboard-counters'',
      ''expect-sqlite-counters'', ''expect-http-counters'', ''expect-tcp-counters'', ''expect-device-connections'',
      ''expect-device-transactions'', ''expect-system-samplers'', ''expect-system-samples'', ''expect-audio-counters'',
      ''expect-file-picks'', ''expect-file-lists'', ''expect-file-opens'', ''expect-file-reads'',
      ''expect-file-selection-counters'', ''expect-file-lifecycle-counters'', ''expect-file-access'',
      ''revoke-file-grants'', ''replace-file'', ''remove-file'', ''drop'', ''drag-files'', ''expect-drop-counters'',
      ''expect-recent-counters'', ''expect-document-counters'', ''expect-task-counters'',
      ''expect-image-owner-counters'', ''expect-asset-counters'', ''expect-hash-counters'', ''expect-grant-counters'',
      ''expect-app-access'', ''expect-component-work'', ''expect-visible'', ''expect-not-visible'', ''expect-count'',
      ''expect-canvas-primitives'', ''expect-canvas-size'', ''expect-before'', ''expect-patch'', ''expect-value'',
      ''expect-value-bytes'', ''expect-image-bytes'', ''submit'', ''mark-metrics'', ''mark-native-work'',
      ''expect-on-screen'', ''expect-rendered-count'', ''expect-bounds'', ''screenshot'', ''type'', ''key'', ''scroll'']"

definition parse_command :: "chord_rules \<Rightarrow> sexpr \<Rightarrow> string \<Rightarrow> sexpr list \<Rightarrow> command parsed" where
  "parse_command rules node head values =
     (case List.find (\<lambda>(name, guard, _). name = head \<and> guard) (step_arms rules node values) of
        Some (_, _, result) \<Rightarrow> result
      | None \<Rightarrow>
          if head \<in> set known_steps then Err (node_error node (''invalid arguments for '' @ head))
          else Err (node_error node (''unsupported step '' @ head)))"

definition parse_step :: "chord_rules \<Rightarrow> sexpr \<Rightarrow> step parsed" where
  "parse_step rules node =
     obind (require_list node ''step'') (\<lambda>values.
     obind (ok_or (head_atom values) (node_error node ''step requires a command name'')) (\<lambda>head.
     obind (parse_command rules node head values) (\<lambda>command.
     Ok \<lparr>st_line = sx_line node, st_command = command\<rparr>)))"

section \<open>Specifications\<close>

definition max_steps :: nat where "max_steps = 100000"

record sections =
  sc_benchmark :: "benchmark option"
  sc_grants :: "spec_grant list option"
  sc_steps :: "step list option"

fun parse_sections :: "chord_rules \<Rightarrow> sexpr list \<Rightarrow> sections \<Rightarrow> sections parsed" where
  "parse_sections rules [] s = Ok s"
| "parse_sections rules (x # rest) s =
     obind (require_list x ''test section'') (\<lambda>values.
     obind (case head_atom values of
         None \<Rightarrow> Err (node_error x ''test section needs a name'')
       | Some name \<Rightarrow>
           if name = ''grants'' then
             (if sc_grants s \<noteq> None then Err (node_error x ''duplicate grants clause'')
              else obind (parse_grants (tl values) []) (\<lambda>grants. Ok (s\<lparr>sc_grants := Some grants\<rparr>)))
           else if name = ''benchmark'' then
             (if sc_benchmark s \<noteq> None then Err (node_error x ''duplicate benchmark clause'')
              else obind (parse_benchmark x values) (\<lambda>policy. Ok (s\<lparr>sc_benchmark := Some policy\<rparr>)))
           else if name = ''steps'' then
             (if sc_steps s \<noteq> None then Err (node_error x ''duplicate steps clause'')
              else obind (collect (parse_step rules) (tl values)) (\<lambda>steps. Ok (s\<lparr>sc_steps := Some steps\<rparr>)))
           else Err (node_error x (''unsupported test section '' @ name)))
       (parse_sections rules rest))"

text \<open>Whether a step verifies the scale of the benchmark.\<close>

definition verifies_scale :: "u64 \<Rightarrow> command \<Rightarrow> bool" where
  "verifies_scale scale c \<longleftrightarrow>
     (case c of
        CmdExpectCount _ expected \<Rightarrow> expected = scale
      | CmdExpectCanvasPrimitives _ expected \<Rightarrow> expected = scale
      | CmdExpectValueBytes _ expected \<Rightarrow> expected = scale
      | CmdExpectImageBytes _ expected \<Rightarrow> expected = scale
      | CmdExpectRows _ rows \<Rightarrow> re_count rows = Some scale
      | CmdExpectTaskCounters ns \<Rightarrow> ns ! 3 = Some scale
      | _ \<Rightarrow> False)"

definition check_benchmark :: "sexpr \<Rightarrow> benchmark option \<Rightarrow> step list \<Rightarrow> unit parsed" where
  "check_benchmark root policy steps =
     (case policy of
        None \<Rightarrow> Ok ()
      | Some b \<Rightarrow>
          (let marks = length (filter (\<lambda>s. st_command s = CmdMarkMetrics) steps) in
           if marks \<noteq> 1
           then Err (node_error root (''benchmark requires exactly one mark-metrics step; found '' @ decimal marks))
           else if \<not> list_ex (\<lambda>s. verifies_scale (bm_scale b) (st_command s)) steps
           then Err (node_error root (''benchmark :scale '' @ decimal (unat (bm_scale b)) @
                                     '' requires an expect-count assertion with the same count''))
           else Ok ()))"

definition is_copy :: "spec_grant \<Rightarrow> bool" where
  "is_copy g \<longleftrightarrow> (case g of GrantDirectoryCopy _ \<Rightarrow> True | _ \<Rightarrow> False)"

definition changes_files :: "command \<Rightarrow> bool" where
  "changes_files c \<longleftrightarrow> (case c of CmdReplaceFile _ _ \<Rightarrow> True | CmdRemoveFile _ \<Rightarrow> True | _ \<Rightarrow> False)"

definition recents_copied :: "spec_grant \<Rightarrow> bool" where
  "recents_copied g \<longleftrightarrow>
     (case g of
        GrantRecents seeds \<Rightarrow> list_ex (\<lambda>seed. case seed of SeedCopied _ \<Rightarrow> True | _ \<Rightarrow> False) seeds
      | _ \<Rightarrow> False)"

text \<open>A step that changes files needs a private copy to change.\<close>

definition check_copied :: "sexpr \<Rightarrow> spec_grant list \<Rightarrow> step list \<Rightarrow> unit parsed" where
  "check_copied root grants steps =
     (let copied = list_ex is_copy grants in
      case List.find (\<lambda>s. changes_files (st_command s)) steps of
        Some s \<Rightarrow>
          if \<not> copied
          then Err \<lparr>pe_line = st_line s, pe_message = command_kind (st_command s) @ '' requires a (directory copy '' @
                      [quote] @ ''PATH'' @ [quote] @ '') grant''\<rparr>
          else Ok ()
      | None \<Rightarrow>
          if list_ex recents_copied grants \<and> \<not> copied
          then Err (node_error root (''a (copied '' @ [quote] @ ''NAME'' @ [quote] @ '') recent requires a (directory copy '' @
                      [quote] @ ''PATH'' @ [quote] @ '') grant''))
          else Ok ())"

definition parse_spec :: "chord_rules \<Rightarrow> sexpr \<Rightarrow> spec parsed" where
  "parse_spec rules root =
     obind (require_list root ''test form'') (\<lambda>values.
     if head_atom values \<noteq> Some ''test'' then Err (node_error root ''supported specs must start with (test ...)'')
     else
       obind (ok_or (if length values < 2 then None else sx_string (values ! 1))
                (node_error root ''test requires a string name'')) (\<lambda>name.
       obind (parse_sections rules (drop 2 values) \<lparr>sc_benchmark = None, sc_grants = None, sc_steps = None\<rparr>) (\<lambda>s.
       obind (ok_or (sc_steps s) (node_error root ''test requires a steps clause'')) (\<lambda>steps.
       if length steps > max_steps then Err (node_error root ''spec exceeds the 100000-step limit'')
       else
         obind (check_benchmark root (sc_benchmark s) steps) (\<lambda>_.
         let grants = or_default [] (sc_grants s) in
         obind (check_copied root grants steps) (\<lambda>_.
         Ok \<lparr>sp_name = name, sp_benchmark = sc_benchmark s, sp_grants = grants, sp_steps = steps\<rparr>))))))"

definition parse :: "chord_rules \<Rightarrow> string \<Rightarrow> spec parsed option" where
  "parse rules source = map_option (\<lambda>r. obind r (parse_spec rules)) (read_source source)"

end
