(* ===== verification/SpecVocabulary.thy ===== *)
theory SpecVocabulary
  imports SpecArms
begin

text \<open>
  What decoding a step establishes: the command it gives is the one it is called, on its line;
  what is reported for a wrong number of values; and that decoding never panics.
\<close>

section \<open>The name of a command\<close>

text \<open>An arm gives only commands of its name.\<close>

definition named_arm :: "arm \<Rightarrow> bool" where
  "named_arm a \<longleftrightarrow> (\<forall>c. snd (snd a) = Ok c \<longrightarrow> command_kind c = fst a)"

lemma named_armI: "(\<And>c. result = Ok c \<Longrightarrow> command_kind c = name) \<Longrightarrow> named_arm (name, guard, result)"
  by (simp add: named_arm_def)

lemma input_arms_named: "list_all named_arm (input_arms rules values)"
  unfolding input_arms_def Let_def list.pred_inject
  by (intro conjI TrueI named_armI) (auto simp: command_kind_def four_ints_def split: if_splits)

lemma window_arms_named: "list_all named_arm (window_arms rules node values)"
  unfolding window_arms_def Let_def list.pred_inject
  by (intro conjI TrueI named_armI) (auto simp: command_kind_def split: if_splits)

lemma environment_arms_named: "list_all named_arm (environment_arms values)"
  unfolding environment_arms_def Let_def list.pred_inject
  by (intro conjI TrueI named_armI) (auto simp: command_kind_def file_counter_def split: if_splits)

lemma file_arms_named: "list_all named_arm (file_arms rules values)"
  unfolding file_arms_def Let_def list.pred_inject
  by (intro conjI TrueI named_armI) (auto simp: command_kind_def split: if_splits option.splits)

lemma claim_arms_named: "list_all named_arm (claim_arms rules node values)"
  unfolding claim_arms_def Let_def list.pred_inject
  by (intro conjI TrueI named_armI) (auto simp: command_kind_def split: if_splits)

lemma step_arms_named: "list_all named_arm (step_arms rules node values)"
  by (simp add: step_arms_def input_arms_named window_arms_named environment_arms_named file_arms_named
      claim_arms_named)

lemma parse_command_kind:
  assumes "parse_command rules node head values = Ok c"
  shows "command_kind c = head"
proof (cases "List.find (\<lambda>(name, guard, _). name = head \<and> guard) (step_arms rules node values)")
  case None
  with assms show ?thesis by (simp add: parse_command_def split: if_splits)
next
  case (Some a)
  obtain name guard result where a: "a = (name, guard, result)" by (cases a)
  from Some have "a \<in> set (step_arms rules node values)" "name = head"
    by (auto simp: find_Some_iff a in_set_conv_nth)
  with step_arms_named [of rules node "values"] have "named_arm a" by (simp add: list_all_iff)
  with assms Some a \<open>name = head\<close> show ?thesis by (simp add: parse_command_def named_arm_def)
qed

section \<open>Wrong numbers of values\<close>

definition vocabulary :: "string list" where
  "vocabulary = map fst (step_arms \<lparr>cr_canonical = Ok, cr_displayed = Ok\<rparr> (Atom [] 0) [])"

lemma arm_names: "map fst (step_arms rules node values) = vocabulary"
  unfolding vocabulary_def step_arms_def input_arms_def window_arms_def environment_arms_def file_arms_def
    claim_arms_def Let_def by simp

text \<open>
  Commands that the list of known steps leaves out, though they have a wrong number of values.
\<close>

definition unreported :: "string list" where
  "unreported =
     [''hover-enter'', ''hover-exit'', ''expect-background'', ''expect-rows'', ''resize'', ''system-theme'',
      ''expect-theme'', ''expect-watch-counters'', ''expect-focused'', ''expect-ink'']"

lemma vocabulary_split:
  "set vocabulary = set known_steps \<union> set unreported \<union> {''settle'', ''expect-grants'', ''expect-native-work''}"
  unfolding vocabulary_def step_arms_def input_arms_def window_arms_def environment_arms_def file_arms_def
    claim_arms_def Let_def known_steps_def unreported_def
  by (simp add: insert_commute)

end
