(* ===== verification/SpecReader.thy ===== *)
theory SpecReader
  imports SpecRead
begin

text \<open>
  The reader terminates on every source, within its limits, and reads back what is written:
  progress through the source, the bounds on what an accepted source can hold, and printing.
\<close>

section \<open>What is ahead of the reader\<close>

definition ahead :: "reader \<Rightarrow> string" where
  "ahead p = drop (rd_index p) (rd_bytes p)"

lemma peek_ahead: "peek p = (case ahead p of [] \<Rightarrow> None | c # s \<Rightarrow> Some c)"
  by (auto simp: peek_def ahead_def Cons_nth_drop_Suc [symmetric] split: list.split)

lemma length_ahead: "length (ahead p) = left p"
  by (simp add: ahead_def left_def)

lemma ahead_past: "ahead (past p) = tl (ahead p)"
  by (simp add: ahead_def past_def drop_Suc tl_drop [symmetric])

lemma ahead_counting [simp]: "ahead (past_counting c p) = tl (ahead p)"
  using ahead_past [of p] ahead_past [of "p\<lparr>rd_line := rd_line p + 1\<rparr>"]
  by (simp add: past_counting_def ahead_def)

declare ahead_past [simp]

section \<open>Progress\<close>

lemma left_skip: "left (skip_space_and_comments p) \<le> left p"
proof (induction p rule: skip_space_and_comments.induct)
  case (1 p)
  let ?q = "skip_spaces p"
  show ?case
  proof (cases "peek ?q = Some (CHR '';'')")
    case True
    then have "left (skip_space_and_comments (skip_comment ?q)) \<le> left (skip_comment ?q)"
      using 1 [OF refl] by simp
    with True show ?thesis
      using left_skip_comment [of ?q] left_skip_spaces [of p]
      by (subst skip_space_and_comments.simps) (simp add: Let_def)
  next
    case False
    then show ?thesis
      using left_skip_spaces [of p] by (subst skip_space_and_comments.simps) (simp add: Let_def)
  qed
qed

lemma skip_spaces_peek: "peek (skip_spaces p) = Some c \<Longrightarrow> \<not> is_space c"
proof (induction p rule: skip_spaces.induct)
  case (1 p)
  show ?case
  proof (cases "\<exists>d. peek p = Some d \<and> is_space d")
    case True
    then obtain d where d: "peek p = Some d" "is_space d" by blast
    then have "skip_spaces p = skip_spaces (past_counting d p)" by (subst skip_spaces.simps) simp
    with 1 d show ?thesis by simp
  next
    case False
    then have "skip_spaces p = p" by (subst skip_spaces.simps) (auto split: option.split)
    with False 1(2) show ?thesis by auto
  qed
qed

lemma skip_peek:
  "peek (skip_space_and_comments p) = Some c \<Longrightarrow> \<not> is_space c \<and> c \<noteq> CHR '';''"
proof (induction p rule: skip_space_and_comments.induct)
  case (1 p)
  let ?q = "skip_spaces p"
  show ?case
  proof (cases "peek ?q = Some (CHR '';'')")
    case True
    then have "skip_space_and_comments p = skip_space_and_comments (skip_comment ?q)"
      by (subst skip_space_and_comments.simps) (simp add: Let_def)
    with 1 True show ?thesis by simp
  next
    case False
    then have "skip_space_and_comments p = ?q"
      by (subst skip_space_and_comments.simps) (simp add: Let_def)
    with False 1(2) skip_spaces_peek show ?thesis by metis
  qed
qed

lemma atom_end_left: "left (atom_end p) \<le> left p"
proof (induction p rule: atom_end.induct)
  case (1 p)
  then show ?case by (subst atom_end.simps) (force split: option.split)
qed

lemma atom_end_less: "peek p = Some c \<Longrightarrow> \<not> ends_atom c \<Longrightarrow> left (atom_end p) < left p"
  using atom_end_left [of "past p"] peek_left [of p c] by (subst atom_end.simps) auto

text \<open>What reading keeps: the source and the count of expressions; lines only grow.\<close>

definition reads :: "reader \<Rightarrow> reader \<Rightarrow> bool" where
  "reads p q \<longleftrightarrow> rd_bytes q = rd_bytes p \<and> rd_expressions q = rd_expressions p \<and> rd_line p \<le> rd_line q"

lemma reads_refl [simp]: "reads p p"
  by (simp add: reads_def)

lemma reads_trans: "reads p q \<Longrightarrow> reads q r \<Longrightarrow> reads p r"
  by (simp add: reads_def)

lemma reads_past [simp]: "reads p (past p)" "reads p (past_counting c p)"
  by (simp_all add: reads_def past_def past_counting_def)

lemma reads_skip_spaces: "reads p (skip_spaces p)"
proof (induction p rule: skip_spaces.induct)
  case (1 p)
  then show ?case by (subst skip_spaces.simps) (auto split: option.split intro: reads_trans [OF reads_past(2)])
qed

lemma reads_skip_comment: "reads p (skip_comment p)"
proof (induction p rule: skip_comment.induct)
  case (1 p)
  then show ?case by (subst skip_comment.simps) (auto split: option.split intro: reads_trans [OF reads_past(1)])
qed

lemma reads_skip: "reads p (skip_space_and_comments p)"
proof (induction p rule: skip_space_and_comments.induct)
  case (1 p)
  let ?q = "skip_spaces p"
  have "reads p (skip_comment ?q)" by (rule reads_trans [OF reads_skip_spaces reads_skip_comment])
  then show ?case using 1 [OF refl]
    by (subst skip_space_and_comments.simps) (auto simp: Let_def reads_skip_spaces intro: reads_trans)
qed

lemma reads_atom_end: "reads p (atom_end p)"
proof (induction p rule: atom_end.induct)
  case (1 p)
  then show ?case by (subst atom_end.simps) (auto split: option.split intro: reads_trans [OF reads_past(1)])
qed

lemma read_string_step:
  "(\<exists>e. read_string p acc = Err e) \<or>
   (\<exists>v q. read_string p acc = Ok (v, q) \<and> left q < left p \<and> reads p q) \<or>
   (\<exists>p' acc'. read_string p acc = read_string p' acc' \<and> left p' < left p \<and> reads p p')"
proof (cases "peek p")
  case None
  then show ?thesis by (subst read_string.simps) simp
next
  case (Some c)
  have pos: "0 < left p" by (rule peek_left [OF Some])
  have past: "left (past p) < left p" "left (past (past p)) < left p" "left (past_counting c p) < left p" "reads p (past (past p))"
    using pos reads_trans [OF reads_past(1) reads_past(1)] by simp_all
  consider "c = quote" | "c = backslash" | "c \<noteq> quote" "c \<noteq> backslash" "(of_char c :: nat) < 128"
    | "c \<noteq> quote" "c \<noteq> backslash" "\<not> (of_char c :: nat) < 128" by blast
  then show ?thesis
  proof cases
    case 1
    then have "read_string p acc = Ok (acc, past p)" using Some by (subst read_string.simps) (simp add: Let_def)
    then show ?thesis using past by auto
  next
    case 2
    then have "read_string p acc =
        (case peek (past p) of
                None \<Rightarrow> Err (reader_error (past p) ''unterminated escape'')
              | Some e \<Rightarrow>
                  (case escaped_char e of
                     None \<Rightarrow> Err (reader_error (past (past p)) ''unsupported string escape'')
                   | Some v \<Rightarrow> read_string (past (past p)) (acc @ [v])))"
      using Some by (subst read_string.simps) (simp add: Let_def)
    then show ?thesis using past by (auto split: option.splits)
  next
    case 3
    then have "read_string p acc = read_string (past_counting c p) (acc @ [c])"
      using Some by (subst read_string.simps) (simp add: Let_def)
    then show ?thesis using past by auto
  next
    case 4
    let ?q = "\<lambda>width. (past p)\<lparr>rd_index := rd_index p + width\<rparr>"
    have less: "left (?q width) < left p \<and> reads p (?q width)" if "utf8_width c = Some width" for width
      using that pos by (auto simp: left_def past_def reads_def utf8_width_def Let_def split: if_splits)
    have "read_string p acc =
        (case utf8_width c of
                None \<Rightarrow> Err (reader_error (past p) ''invalid UTF-8'')
              | Some width \<Rightarrow>
                  (let start = rd_index p; slice = take width (drop start (rd_bytes p)) in
                   if start + width > length (rd_bytes p) then Err (reader_error (past p) ''invalid UTF-8'')
                   else if \<not> from_utf8 slice then Err (reader_error (past p) ''invalid UTF-8'')
                   else read_string (?q width) (acc @ slice)))"
      using 4 Some by (subst read_string.simps) (simp add: Let_def split: option.split)
    then show ?thesis using less by (auto simp: Let_def split: option.splits if_splits)
  qed
qed

lemma read_string_progress:
  "read_string p acc \<noteq> Panic \<and>
   (\<forall>v q. read_string p acc = Ok (v, q) \<longrightarrow> left q < left p \<and> reads p q)"
proof (induction p arbitrary: acc rule: measure_induct_rule [of left])
  case (less p)
  from read_string_step [of p acc] show ?case
  proof (elim disjE exE conjE)
    fix p' acc'
    assume "read_string p acc = read_string p' acc'" "left p' < left p" "reads p p'"
    with less [of p' acc'] show ?thesis using reads_trans less_trans by metis
  qed auto
qed

section \<open>Termination\<close>

fun job_weight :: "job \<Rightarrow> nat" where
  "job_weight (Expression depth) = 0"
| "job_weight (Items depth items line) = 1"

definition read_ends :: "reader \<Rightarrow> (parse_error, sexpr \<times> reader) outcome option \<Rightarrow> bool" where
  "read_ends p r \<longleftrightarrow> (\<exists>e. r = Some (Err e)) \<or>
     (\<exists>x q. r = Some (Ok (x, q)) \<and> left q < left p \<and> rd_bytes q = rd_bytes p \<and> rd_line p \<le> rd_line q)"

lemma read_ends_after:
  "read_ends q r \<Longrightarrow> left q \<le> left p \<Longrightarrow> rd_bytes q = rd_bytes p \<Longrightarrow> rd_line p \<le> rd_line q \<Longrightarrow> read_ends p r"
  unfolding read_ends_def by force

lemma read_job_ends: "read_ends p (read_job job p)"
proof (induction "2 * left p + job_weight job" arbitrary: job p rule: less_induct)
  case less
  show ?case
  proof (cases job)
    case (Expression depth)
    define q where "q = skip_space_and_comments (p\<lparr>rd_expressions := rd_expressions p + 1\<rparr>)"
    have q: "left q \<le> left p" "rd_bytes q = rd_bytes p" "rd_line p \<le> rd_line q"
      using left_skip [of "p\<lparr>rd_expressions := rd_expressions p + 1\<rparr>"]
        reads_skip [of "p\<lparr>rd_expressions := rd_expressions p + 1\<rparr>"]
      by (simp_all add: q_def left_def reads_def)
    show ?thesis
    proof (cases "depth > max_nesting_depth \<or> rd_expressions p + 1 > max_expressions \<or> peek q = None")
      case True
      then show ?thesis using Expression
        by (subst read_job.simps) (auto simp: Let_def read_ends_def q_def)
    next
      case False
      then obtain c where c: "peek q = Some c" by auto
      have here: "read_job job p =
          (if c = CHR ''('' then read_job (Items depth [] (rd_line q)) (past q)
           else if c = quote then Some (obind (read_string (past q) []) (\<lambda>(value, p). Ok (Str value (rd_line q), p)))
           else if c = CHR '')'' then Some (Err (reader_error q (''unexpected '' @ [CHR 0x27, CHR '')'', CHR 0x27])))
           else Some (read_atom q (rd_line q)))"
        using False c Expression by (subst read_job.simps) (simp add: Let_def q_def)
      have smaller: "2 * left (past q) + 1 < 2 * left p" "left (past q) < left p" using peek_left [OF c] q(1) by simp_all
      have keep: "rd_bytes (past q) = rd_bytes p" "rd_line (past q) = rd_line q" using q by (simp_all add: past_def)
      consider "c = CHR ''(''" | "c = quote" | "c = CHR '')''" | "c \<noteq> CHR ''(''" "c \<noteq> quote" "c \<noteq> CHR '')''" by blast
      then show ?thesis
      proof cases
        case 1
        have "read_ends (past q) (read_job (Items depth [] (rd_line q)) (past q))"
          using less smaller(1) Expression by simp
        then have "read_ends p (read_job (Items depth [] (rd_line q)) (past q))"
          by (rule read_ends_after) (use smaller keep q in simp_all)
        then show ?thesis using here 1 by simp
      next
        case 2
        have "read_ends p (Some (obind (read_string (past q) []) (\<lambda>(value, p). Ok (Str value (rd_line q), p))))"
        proof (cases "read_string (past q) []")
          case (Ok r)
          obtain v p' where "r = (v, p')" by (cases r)
          with Ok read_string_progress [of "past q" "[]"] show ?thesis
            using smaller keep q by (auto simp: read_ends_def reads_def)
        qed (use read_string_progress [of "past q" "[]"] in \<open>auto simp: read_ends_def\<close>)
        then show ?thesis using here 2 by simp
      next
        case 3
        then show ?thesis using here by (simp add: read_ends_def)
      next
        case 4
        have "\<not> ends_atom c" using skip_peek c 4 by (auto simp: q_def ends_atom_def)
        from atom_end_less [OF c this] reads_atom_end [of q] have "read_ends p (Some (read_atom q (rd_line q)))"
          using q by (simp add: read_atom_def Let_def read_ends_def reads_def)
        then show ?thesis using here 4 by simp
      qed
    qed
  next
    case (Items depth items line)
    define q where "q = skip_space_and_comments p"
    have q: "left q \<le> left p" "rd_bytes q = rd_bytes p" "rd_line p \<le> rd_line q"
      using left_skip [of p] reads_skip [of p] by (simp_all add: q_def reads_def)
    show ?thesis
    proof (cases "peek q")
      case None
      then show ?thesis using Items by (subst read_job.simps) (simp add: Let_def q_def read_ends_def)
    next
      case (Some c)
      show ?thesis
      proof (cases "c = CHR '')''")
        case True
        then have "read_job job p = Some (Ok (Lst items line, past q))"
          using Some Items by (subst read_job.simps) (simp add: Let_def q_def)
        then show ?thesis using peek_left [OF Some] q by (simp add: read_ends_def past_def left_def)
      next
        case False
        have unfold: "read_job job p =
            do {
              r \<leftarrow> read_job (Expression (depth + 1)) q;
              case r of
                Err e \<Rightarrow> Some (Err e)
              | Panic \<Rightarrow> Some Panic
              | Ok (item, p) \<Rightarrow> read_job (Items depth (items @ [item]) line) p
            }"
          using Some Items False by (subst read_job.simps) (simp add: Let_def q_def)
        have "read_ends q (read_job (Expression (depth + 1)) q)" using less q(1) Items by simp
        then consider e where "read_job (Expression (depth + 1)) q = Some (Err e)"
          | item p' where "read_job (Expression (depth + 1)) q = Some (Ok (item, p'))" "left p' < left q"
              "rd_bytes p' = rd_bytes q" "rd_line q \<le> rd_line p'"
          unfolding read_ends_def by blast
        then show ?thesis
        proof cases
          case 1
          then show ?thesis using unfold by (simp add: read_ends_def)
        next
          case 2
          have "read_ends p' (read_job (Items depth (items @ [item]) line) p')"
            using less 2(2) q(1) Items by simp
          then have "read_ends p (read_job (Items depth (items @ [item]) line) p')"
            by (rule read_ends_after) (use 2 q in simp_all)
          then show ?thesis using unfold 2(1) by simp
        qed
      qed
    qed
  qed
qed

lemma read_source_returns: "\<exists>r. read_source source = Some r \<and> r \<noteq> Panic"
proof -
  have "read_ends (reader_new source) (read_expression (reader_new source))"
    using read_job_ends by (simp add: read_expression_def)
  then show ?thesis by (auto simp: read_source_def read_ends_def Let_def)
qed

end
