(* ===== verification/SpecLimits.thy ===== *)
theory SpecLimits
  imports SpecReader
begin

section \<open>Limits\<close>

text \<open>The number of expressions, and the depth of the nesting of lists.\<close>

fun sx_count :: "sexpr \<Rightarrow> nat" where
  "sx_count (Atom v l) = 1"
| "sx_count (Str v l) = 1"
| "sx_count (Lst vs l) = 1 + sum_list (map sx_count vs)"

fun sx_depth :: "sexpr \<Rightarrow> nat" where
  "sx_depth (Atom v l) = 0"
| "sx_depth (Str v l) = 0"
| "sx_depth (Lst vs l) = Max (insert 0 (set (map (\<lambda>v. Suc (sx_depth v)) vs)))"

lemma sx_depth_list: "sx_depth (Lst vs l) \<le> n \<longleftrightarrow> (\<forall>v \<in> set vs. Suc (sx_depth v) \<le> n)"
  by simp

text \<open>What a job that succeeds has read.\<close>

fun limited :: "job \<Rightarrow> reader \<Rightarrow> (parse_error, sexpr \<times> reader) outcome \<Rightarrow> bool" where
  "limited (Expression depth) p (Ok (x, q)) \<longleftrightarrow>
     rd_expressions q = rd_expressions p + sx_count x \<and> rd_expressions q \<le> max_expressions \<and>
     depth + sx_depth x \<le> max_nesting_depth"
| "limited (Items depth items line) p (Ok (x, q)) \<longleftrightarrow>
     (\<exists>new. x = Lst (items @ new) line \<and> rd_expressions q = rd_expressions p + sum_list (map sx_count new) \<and>
        (new = [] \<or> rd_expressions q \<le> max_expressions) \<and>
        (\<forall>y \<in> set new. depth + Suc (sx_depth y) \<le> max_nesting_depth))"
| "limited job p _ \<longleftrightarrow> True"

lemma reads_read_string: "read_string p acc = Ok (v, q) \<Longrightarrow> reads p q"
  using read_string_progress [of p acc] by blast

lemma expressions_kept:
  "rd_expressions (past p) = rd_expressions p" "rd_expressions (skip_space_and_comments p) = rd_expressions p"
  "rd_expressions (atom_end p) = rd_expressions p"
  using reads_skip [of p] reads_atom_end [of p] by (simp_all add: past_def reads_def)

lemma deeper:
  assumes "depth \<le> n" and "\<forall>y \<in> set vs. depth + Suc (sx_depth y) \<le> n"
  shows "depth + sx_depth (Lst vs l) \<le> n"
proof -
  have "sx_depth (Lst vs l) \<le> n - depth" unfolding sx_depth_list using assms(2) by fastforce
  with assms(1) show ?thesis by linarith
qed

lemma limited_first:
  "limited (Items depth [] line) p r \<Longrightarrow> rd_expressions p = rd_expressions p0 + 1 \<Longrightarrow>
   rd_expressions p \<le> max_expressions \<Longrightarrow> depth \<le> max_nesting_depth \<Longrightarrow> limited (Expression depth) p0 r"
  using deeper [of depth max_nesting_depth] by (cases r) (auto simp del: sx_depth.simps)

lemma limited_next:
  assumes "limited (Expression (depth + 1)) q (Ok (item, p'))" and "limited (Items depth (items @ [item]) line) p' r"
    and "rd_expressions q = rd_expressions p"
  shows "limited (Items depth items line) p r"
proof (cases r)
  case (Ok a)
  obtain x s where a: "a = (x, s)" by (cases a)
  with Ok assms(2) obtain new where new: "x = Lst (items @ item # new) line"
    "rd_expressions s = rd_expressions p' + sum_list (map sx_count new)" "new = [] \<or> rd_expressions s \<le> max_expressions"
    "\<forall>y \<in> set new. depth + Suc (sx_depth y) \<le> max_nesting_depth" by auto
  with assms(1,3) show ?thesis unfolding Ok a by (auto intro!: exI [of _ "item # new"])
qed simp_all

lemma read_job_limited:
  assumes "read_job job p = Some r"
  shows "limited job p r"
proof (rule read_job.raw_induct [of limited, OF _ assms], goal_cases body)
  case (body walk job p r)
  show ?case
  proof (cases job)
    case (Expression depth)
    define q where "q = skip_space_and_comments (p\<lparr>rd_expressions := rd_expressions p + 1\<rparr>)"
    have q: "rd_expressions q = rd_expressions p + 1" by (simp add: q_def expressions_kept)
    show ?thesis
    proof (cases "depth > max_nesting_depth \<or> rd_expressions p + 1 > max_expressions \<or> peek q = None")
      case True
      then show ?thesis using body(2) Expression by (auto simp: Let_def q_def split: if_splits)
    next
      case False
      then obtain c where c: "peek q = Some c" and within: "depth \<le> max_nesting_depth" "rd_expressions q \<le> max_expressions"
        using q by auto
      have r: "(if c = CHR ''('' then walk (Items depth [] (rd_line q)) (past q)
           else if c = quote then Some (obind (read_string (past q) []) (\<lambda>(v, p). Ok (Str v (rd_line q), p)))
           else if c = CHR '')'' then Some (Err (reader_error q (''unexpected '' @ [CHR 0x27, CHR '')'', CHR 0x27])))
           else Some (read_atom q (rd_line q))) = Some r"
        using body(2) False c Expression by (auto simp: Let_def q_def split: if_splits)
      consider "c = CHR ''(''" | "c = quote" | "c = CHR '')''" | "c \<noteq> CHR ''(''" "c \<noteq> quote" "c \<noteq> CHR '')''" by blast
      then show ?thesis
      proof cases
        case 1
        with r have "walk (Items depth [] (rd_line q)) (past q) = Some r" by simp
        then have "limited (Items depth [] (rd_line q)) (past q) r" by (rule body(1))
        then show ?thesis unfolding Expression
          by (rule limited_first) (use q within in \<open>simp_all add: expressions_kept\<close>)
      next
        case 2
        with r have r2: "r = obind (read_string (past q) []) (\<lambda>(v, p). Ok (Str v (rd_line q), p))" by simp
        show ?thesis
        proof (cases "read_string (past q) []")
          case (Ok a)
          obtain v p' where a: "a = (v, p')" by (cases a)
          have "rd_expressions p' = rd_expressions q"
            using reads_read_string [OF Ok [unfolded a]] by (simp add: reads_def expressions_kept)
          moreover have "r = Ok (Str v (rd_line q), p')" using r2 Ok a by simp
          ultimately show ?thesis using q within Expression by simp
        qed (use r2 in simp_all)
      next
        case 3
        with r show ?thesis by auto
      next
        case 4
        with r have "r = read_atom q (rd_line q)" by simp
        then show ?thesis using q within Expression by (auto simp: read_atom_def Let_def expressions_kept)
      qed
    qed
  next
    case (Items depth items line)
    define q where "q = skip_space_and_comments p"
    have q: "rd_expressions q = rd_expressions p" by (simp add: q_def expressions_kept)
    show ?thesis
    proof (cases "peek q")
      case None
      then show ?thesis using body(2) Items by (auto simp: Let_def q_def)
    next
      case (Some c)
      show ?thesis
      proof (cases "c = CHR '')''")
        case True
        then have "r = Ok (Lst items line, past q)" using body(2) Some Items by (simp add: Let_def q_def)
        then show ?thesis using q Items by (auto simp: expressions_kept)
      next
        case False
        then have "do {
              r \<leftarrow> walk (Expression (depth + 1)) q;
              case r of
                Err e \<Rightarrow> Some (Err e)
              | Panic \<Rightarrow> Some Panic
              | Ok (item, p) \<Rightarrow> walk (Items depth (items @ [item]) line) p
            } = Some r"
          using body(2) Some Items by (simp add: Let_def q_def)
        then obtain r1 where r1: "walk (Expression (depth + 1)) q = Some r1"
          and r: "(case r1 of Err e \<Rightarrow> Some (Err e) | Panic \<Rightarrow> Some Panic
              | Ok (item, p) \<Rightarrow> walk (Items depth (items @ [item]) line) p) = Some r"
          by (auto simp: bind_eq_Some_conv)
        note l1 = body(1) [OF r1]
        show ?thesis
        proof (cases r1)
          case (Ok a)
          obtain item p' where a: "a = (item, p')" by (cases a)
          with r Ok have "walk (Items depth (items @ [item]) line) p' = Some r" by simp
          from limited_next [OF l1 [unfolded Ok a] body(1) [OF this] q] show ?thesis by (simp add: Items)
        qed (use r in auto)
      qed
    qed
  qed
qed

text \<open>
  Reading a source always comes to an end, with an expression or an error that says
  where; an expression it accepts has at most 100000 parts and at most 128 levels of lists.
\<close>

theorem reading_ends_within_limits:
  "\<exists>r. read_source source = Some r \<and> r \<noteq> Panic \<and>
     (\<forall>x. r = Ok x \<longrightarrow> sx_count x \<le> max_expressions \<and> sx_depth x \<le> max_nesting_depth \<and>
        length source \<le> max_source_bytes)"
proof -
  obtain r where r: "read_source source = Some r" "r \<noteq> Panic" using read_source_returns by blast
  have "sx_count x \<le> max_expressions \<and> sx_depth x \<le> max_nesting_depth \<and> length source \<le> max_source_bytes" if "r = Ok x" for x
  proof -
    from r(1) that obtain p where p: "read_job (Expression 0) (reader_new source) = Some (Ok (x, p))"
      and small: "length source \<le> max_source_bytes"
      by (auto simp: read_source_def read_expression_def Let_def split: if_splits)
    from read_job_limited [OF p] show ?thesis using small by (simp add: reader_new_def)
  qed
  with r show ?thesis by blast
qed

theorem reading_ends_within_limits_witness:
  "\<exists>r. read_source ''(a)'' = Some r \<and> r \<noteq> Panic \<and>
     (\<forall>x. r = Ok x \<longrightarrow> sx_count x \<le> max_expressions \<and> sx_depth x \<le> max_nesting_depth \<and>
        length ''(a)'' \<le> max_source_bytes)"
  by (rule reading_ends_within_limits)

end
