(* ===== verification/SpecTotal.thy ===== *)
theory SpecTotal
  imports SpecVocabulary SpecLimits
begin

text \<open>Decoding never panics, given that the spelling of chords does not.\<close>

section \<open>No panics\<close>

definition fine :: "('e, 'a) outcome \<Rightarrow> bool" where
  "fine r \<longleftrightarrow> r \<noteq> Panic"

definition rules_fine :: "chord_rules \<Rightarrow> bool" where
  "rules_fine rules \<longleftrightarrow> (\<forall>s. fine (cr_canonical rules s) \<and> fine (cr_displayed rules s))"

named_theorems fine_intro \<open>operations that do not panic\<close>

lemma fine_basic [fine_intro]:
  "fine (Ok a)" "fine (Err e)" "fine (ok_or x e)"
  "fine m \<Longrightarrow> (\<And>a. m = Ok a \<Longrightarrow> fine (f a)) \<Longrightarrow> fine (obind m f)"
  "(b \<Longrightarrow> fine r) \<Longrightarrow> (\<not> b \<Longrightarrow> fine s) \<Longrightarrow> fine (if b then r else s)"
  by (auto simp: fine_def ok_or_def obind_eq_Panic split: option.splits)

lemma fine_option [fine_intro]: "fine r \<Longrightarrow> (\<And>a. fine (f a)) \<Longrightarrow> fine (case x of None \<Rightarrow> r | Some a \<Rightarrow> f a)"
  by (cases x) auto

lemma fine_collect [fine_intro]: "(\<And>x. x \<in> set xs \<Longrightarrow> fine (f x)) \<Longrightarrow> fine (collect f xs)"
  by (induction xs) (auto intro!: fine_intro)

lemma fine_needs [fine_intro]:
  "fine (require_list node what)" "fine (need_atom node m)" "fine (need_string node m)" "fine (need_u64 node m m')"
  "fine (need_u32 node m m')" "fine (parse_i32 node m)" "fine (parse_non_negative node m)"
  "fine (counters what nodes)" "fine (optional_counters what nodes)"
  unfolding require_list_def need_atom_def need_string_def need_u64_def need_u32_def parse_i32_def
    parse_non_negative_def counters_def optional_counters_def
  by (auto intro!: fine_intro)

lemma fine_role [fine_intro]: "fine (parse_role node vs)"
  unfolding parse_role_def by (auto intro!: fine_intro split: list.split option.split)

lemma fine_simple_locator [fine_intro]:
  assumes "rules_fine rules"
  shows "fine (parse_simple_locator rules node head vs)"
proof -
  have spelled: "fine (chord_locator node form spelling build x)" if "\<And>s. fine (spelling s)" for form spelling build x
  proof -
    have "fine (case spelling w of Ok c \<Rightarrow> Ok (build c) | Err d \<Rightarrow> Err (node_error node (form @ '' locator: '' @ d)) | Panic \<Rightarrow> Panic)" for w
      using that [of w] by (cases "spelling w") (auto simp: fine_def)
    then show ?thesis unfolding chord_locator_def by (auto intro!: fine_intro)
  qed
  have "fine (string_locator node form build x)" for form build x
    unfolding string_locator_def by (auto intro!: fine_intro)
  then show ?thesis using assms spelled unfolding parse_simple_locator_def rules_fine_def
    by (auto intro!: fine_intro)
qed

lemma fine_locator [fine_intro]: "rules_fine rules \<Longrightarrow> fine (parse_locator rules node)"
proof (induction rules node rule: parse_locator.induct)
  case (3 rules vs l)
  show ?case
  proof (cases "\<exists>h a t. vs = [h, a, t] \<and> sx_atom h = Some ''within''")
    case True
    then obtain h a t where vs: "vs = [h, a, t]" "sx_atom h = Some ''within''" by blast
    have "fine (parse_locator rules a)" "fine (parse_locator rules t)" using 3 vs by simp_all
    then show ?thesis using vs by (auto intro!: fine_intro)
  next
    case False
    have "fine (case vs of
               [_, ancestor, target] \<Rightarrow>
                 obind (parse_locator rules ancestor) (\<lambda>a.
                 obind (parse_locator rules target) (\<lambda>t. Ok (LocWithin a t)))
             | _ \<Rightarrow> Err (node_error (Lst vs l) ''within requires an ancestor and a target locator''))"
      if "head_atom vs = Some ''within''"
      using False that by (auto intro!: fine_intro split: list.split)
    then show ?thesis using 3(3) by (auto intro!: fine_intro split: option.split)
  qed
qed (auto intro!: fine_intro)

lemma fine_region [fine_intro]: "rules_fine rules \<Longrightarrow> fine (parse_region rules node)"
  unfolding parse_region_def by (auto intro!: fine_intro)

lemma fine_keywords [fine_intro]: "fine (parse_keywords head allowed vs pairs)"
  by (induction head allowed vs pairs rule: parse_keywords.induct) (auto intro!: fine_intro split: option.split list.split)

lemma fine_keyword [fine_intro]: "fine (keyword_u64 pairs key)" "fine (keyword_u32_in head pairs key lo hi)"
  unfolding keyword_u64_def keyword_u32_in_def by (auto intro!: fine_intro)

section \<open>Steps\<close>

definition fine_arm :: "arm \<Rightarrow> bool" where
  "fine_arm a \<longleftrightarrow> fine (snd (snd a))"

lemma fine_armI: "fine result \<Longrightarrow> fine_arm (name, guard, result)"
  by (simp add: fine_arm_def)

lemma fine_parts [fine_intro]:
  "fine (four_ints vs m m' build)" "fine (parse_dimension node m)" "fine (parse_bounds node pairs)"
  "fine (parse_rows node pairs)" "fine (file_counter vs build')" "fine (parse_patch_claim node vs)"
  "fine (parse_native_work node pairs)"
  unfolding four_ints_def parse_dimension_def parse_bounds_def parse_rows_def file_counter_def
    parse_patch_claim_def parse_native_work_def Let_def
  by (auto intro!: fine_intro)

lemma fine_motion [fine_intro]: "rules_fine rules \<Longrightarrow> fine (parse_motion rules node pairs)"
  unfolding parse_motion_def by (auto intro!: fine_intro split: option.split)

lemma fine_grant_text [fine_intro]: "fine (grant_string node name)" "fine (grant_path node name)"
  unfolding grant_path_def grant_string_def by (auto intro!: fine_intro)

lemma fine_theme [fine_intro]: "fine (parse_theme node vs)"
  unfolding parse_theme_def by (auto intro!: fine_intro)

lemma fine_work [fine_intro]: "fine (component_work vs expected)"
  by (induction vs expected rule: component_work.induct) (auto intro!: fine_intro)

lemma fine_arms:
  assumes "rules_fine rules"
  shows "list_all fine_arm (step_arms rules node vs)"
proof -
  have "list_all fine_arm (input_arms rules vs)"
    unfolding input_arms_def Let_def list.pred_inject by (intro conjI list.pred_inject(1) fine_armI fine_intro assms)
  moreover have "list_all fine_arm (window_arms rules node vs)"
    unfolding window_arms_def Let_def list.pred_inject by (intro conjI list.pred_inject(1) fine_armI fine_intro assms)
  moreover have "list_all fine_arm (environment_arms vs)"
    unfolding environment_arms_def Let_def list.pred_inject by (intro conjI list.pred_inject(1) fine_armI fine_intro)
  moreover have "list_all fine_arm (file_arms rules vs)"
    unfolding file_arms_def Let_def list.pred_inject by (intro conjI list.pred_inject(1) fine_armI fine_intro assms)
  moreover have "list_all fine_arm (claim_arms rules node vs)"
    unfolding claim_arms_def Let_def list.pred_inject by (intro conjI list.pred_inject(1) fine_armI fine_intro assms)
  ultimately show ?thesis by (simp add: step_arms_def)
qed

lemma fine_found:
  assumes "list_all fine_arm arms" and "List.find P arms = Some (name, guard, result)"
  shows "fine result"
proof -
  have "(name, guard, result) \<in> set arms" using assms(2) by (auto simp: find_Some_iff in_set_conv_nth)
  then show ?thesis using assms(1) by (auto simp: list_all_iff fine_arm_def)
qed

lemma fine_step [fine_intro]: "rules_fine rules \<Longrightarrow> fine (parse_step rules node)"
proof -
  assume "rules_fine rules"
  from fine_found [OF fine_arms [OF this]] have "fine (parse_command rules node head vs)" for head vs
    unfolding parse_command_def by (auto intro!: fine_intro split: option.split)
  then show ?thesis unfolding parse_step_def by (auto intro!: fine_intro)
qed

section \<open>Specifications\<close>

lemma fine_recent [fine_intro]: "fine (parse_recent item)"
  unfolding parse_recent_def by (auto intro!: fine_intro)

lemma fine_number [fine_intro]: "fine (grant_number node x m)"
  unfolding grant_number_def by (rule fine_intro)

lemma fine_first:
  assumes "list_all (\<lambda>a. fine (snd (snd a))) arms" and "fine r"
  shows "fine (case List.find P arms of None \<Rightarrow> r | Some (_, _, result) \<Rightarrow> result)"
proof (cases "List.find P arms")
  case (Some a)
  with assms(1) have "fine (snd (snd a))" by (auto simp: find_Some_iff list_all_length)
  then show ?thesis using Some by (cases a) simp
qed (simp add: assms(2))

lemma fine_grant [fine_intro]: "fine (parse_grant node vs)"
proof -
  have "list_all (\<lambda>a. fine (snd (snd a))) (grant_arms node vs)"
    unfolding grant_arms_def Let_def list.pred_inject snd_conv by (intro conjI list.pred_inject(1) fine_intro)
  from fine_first [OF this] show ?thesis unfolding parse_grant_def by (auto intro!: fine_basic)
qed

lemma fine_grants [fine_intro]: "fine (parse_grants entries grants)"
  by (induction entries grants rule: parse_grants.induct) (auto intro!: fine_intro)

lemma fine_fields [fine_intro]: "fine (benchmark_fields vs seen b)"
proof (induction vs seen b rule: benchmark_fields.induct)
  case (2 k rest seen b)
  have field: "fine (benchmark_field k x key w b)" for x key w
    unfolding benchmark_field_def parse_u32_def by (auto intro!: fine_intro)
  show ?case
  proof (cases rest)
    case (Cons x us)
    then show ?thesis using 2 field by (auto intro!: fine_intro)
  qed (auto intro!: fine_intro)
qed (auto intro!: fine_intro)

lemma fine_benchmark [fine_intro]: "fine (parse_benchmark node vs)"
  unfolding parse_benchmark_def by (intro fine_intro)

lemma fine_sections [fine_intro]: "rules_fine rules \<Longrightarrow> fine (parse_sections rules vs s)"
  by (induction rules vs s rule: parse_sections.induct) (auto intro!: fine_intro split: option.split)

lemma fine_checks [fine_intro]: "fine (check_benchmark root policy steps)" "fine (check_copied root grants steps)"
  unfolding check_benchmark_def check_copied_def Let_def by (auto intro!: fine_intro)

lemma fine_spec: "rules_fine rules \<Longrightarrow> fine (parse_spec rules root)"
  unfolding parse_spec_def Let_def by (intro fine_intro)

lemma parse_spec_steps: "parse_spec rules root = Ok s \<Longrightarrow> length (sp_steps s) \<le> max_steps"
  by (auto simp: parse_spec_def Let_def split: if_splits)

end
