(* ===== verification/SpecPrint.thy ===== *)
theory SpecPrint
  imports SpecLimits
begin

text \<open>
  Printing an expression and reading it back. A string is printed as \<open>Debug\<close> prints it, with the
  escapes the reader knows; the other control characters have no spelling that it reads.
\<close>

section \<open>Printing\<close>

definition escape_char :: "char \<Rightarrow> string" where
  "escape_char c =
     (if c = quote then [backslash, quote]
      else if c = backslash then [backslash, backslash]
      else if c = newline then [backslash, CHR ''n'']
      else if c = CHR 0x0D then [backslash, CHR ''r'']
      else if c = CHR 0x09 then [backslash, CHR ''t'']
      else [c])"

definition print_string :: "string \<Rightarrow> string" where
  "print_string s = quote # concat (map escape_char s) @ [quote]"

fun print_sexpr :: "sexpr \<Rightarrow> string" where
  "print_sexpr (Atom v l) = v"
| "print_sexpr (Str v l) = print_string v"
| "print_sexpr (Lst [] l) = ''()''"
| "print_sexpr (Lst (v # vs) l) = ''('' @ print_sexpr v @ concat (map (\<lambda>v. '' '' @ print_sexpr v) vs) @ '')''"

text \<open>The expressions that can be printed so that they are read back.\<close>

definition plain_atom :: "string \<Rightarrow> bool" where
  "plain_atom v \<longleftrightarrow> v \<noteq> [] \<and> hd v \<noteq> quote \<and> (\<forall>c \<in> set v. \<not> ends_atom c \<and> (of_char c :: nat) < 128)"

definition plain_string :: "string \<Rightarrow> bool" where
  "plain_string v \<longleftrightarrow> (\<forall>c \<in> set v. (of_char c :: nat) < 128)"

fun plain :: "sexpr \<Rightarrow> bool" where
  "plain (Atom v l) \<longleftrightarrow> plain_atom v"
| "plain (Str v l) \<longleftrightarrow> plain_string v"
| "plain (Lst vs l) \<longleftrightarrow> (\<forall>v \<in> set vs. plain v)"

text \<open>The same expression on one line.\<close>

fun on_line :: "nat \<Rightarrow> sexpr \<Rightarrow> sexpr" where
  "on_line n (Atom v l) = Atom v n"
| "on_line n (Str v l) = Str v n"
| "on_line n (Lst vs l) = Lst (map (on_line n) vs) n"

section \<open>Reading strings and atoms back\<close>

text \<open>The reader stands before \<open>s\<close>; line and count are as given.\<close>

definition stands :: "reader \<Rightarrow> reader \<Rightarrow> string \<Rightarrow> bool" where
  "stands p q s \<longleftrightarrow> ahead q = s \<and> rd_line q = rd_line p \<and> rd_expressions q = rd_expressions p"

lemma stands_past: "stands p q (c # s) \<Longrightarrow> stands p (past q) s"
  unfolding stands_def ahead_past by (simp add: past_def)

lemma stands_counting: "c \<noteq> newline \<Longrightarrow> stands p q (c # s) \<Longrightarrow> stands p (past_counting c q) s"
  using stands_past by (simp add: past_counting_def)

lemma stands_peek: "stands p q (c # s) \<Longrightarrow> peek q = Some c" "stands p q [] \<Longrightarrow> peek q = None"
  by (simp_all add: stands_def peek_ahead)

lemma read_string_back:
  "stands p q (concat (map escape_char s) @ quote # rest) \<Longrightarrow> plain_string s \<Longrightarrow>
   \<exists>q'. read_string q acc = Ok (acc @ s, q') \<and> stands p q' rest"
proof (induction s arbitrary: q acc)
  case Nil
  then have "stands p q (quote # rest)" by simp
  have "read_string q acc = Ok (acc, past q)" using stands_peek(1) [OF \<open>stands p q (quote # rest)\<close>]
    by (subst read_string.simps) (simp add: Let_def)
  moreover have "stands p (past q) rest" by (rule stands_past [OF \<open>stands p q (quote # rest)\<close>])
  ultimately show ?case by simp
next
  case (Cons c s)
  let ?rest = "concat (map escape_char s) @ quote # rest"
  have small: "(of_char c :: nat) < 128" "plain_string s" using Cons.prems(2) by (simp_all add: plain_string_def)
  have "\<exists>q1. read_string q acc = read_string q1 (acc @ [c]) \<and> stands p q1 ?rest"
  proof (cases "\<exists>e. escape_char c = [backslash, e]")
    case True
    then obtain e where e: "escape_char c = [backslash, e]" by blast
    then have "escaped_char e = Some c"
      by (auto simp: escape_char_def escaped_char_def split: if_splits)
    moreover have at: "stands p q (backslash # e # ?rest)" using Cons.prems(1) e by simp
    note at1 = stands_past [OF at] and at2 = stands_past [OF stands_past [OF at]]
    ultimately have "read_string q acc = read_string (past (past q)) (acc @ [c])"
      using stands_peek(1) [OF at] stands_peek(1) [OF at1]
      by (subst read_string.simps) (simp add: Let_def)
    with at2 show ?thesis by blast
  next
    case False
    then have e: "escape_char c = [c]" "c \<noteq> quote" "c \<noteq> backslash" "c \<noteq> newline"
      by (auto simp: escape_char_def split: if_splits)
    have at: "stands p q (c # ?rest)" using Cons.prems(1) e(1) by simp
    have "read_string q acc = read_string (past_counting c q) (acc @ [c])"
      using stands_peek(1) [OF at] e(2,3) small(1) by (subst read_string.simps) (simp add: Let_def)
    with stands_counting [OF e(4) at] show ?thesis by blast
  qed
  then obtain q1 where q1: "read_string q acc = read_string q1 (acc @ [c])" "stands p q1 ?rest" by blast
  from Cons.IH [OF q1(2) small(2), of "acc @ [c]"] q1(1) show ?case by simp
qed

lemma ascii_utf8: "\<forall>c \<in> set v. (of_char c :: nat) < 128 \<Longrightarrow> from_utf8 v"
  unfolding from_utf8_def by (induction v) auto

lemma atom_end_back:
  "ahead q = v @ rest \<Longrightarrow> \<forall>c \<in> set v. \<not> ends_atom c \<Longrightarrow> rest = [] \<or> ends_atom (hd rest) \<Longrightarrow>
   atom_end q = q\<lparr>rd_index := rd_index q + length v\<rparr>"
proof (induction v arbitrary: q)
  case Nil
  then show ?case by (subst atom_end.simps) (auto simp: peek_ahead split: list.split)
next
  case (Cons c v)
  have "ahead (past q) = v @ rest" using Cons.prems(1) by simp
  from Cons.IH [OF this] Cons.prems have "atom_end (past q) = (past q)\<lparr>rd_index := rd_index (past q) + length v\<rparr>" by simp
  moreover have "atom_end q = atom_end (past q)"
    using Cons.prems by (subst atom_end.simps) (simp add: peek_ahead)
  ultimately show ?case by (simp add: past_def)
qed

lemma read_atom_back:
  assumes at: "stands p q (v @ rest)" and v: "plain_atom v" and delim: "rest = [] \<or> ends_atom (hd rest)"
  shows "\<exists>q'. read_atom q l = Ok (Atom v l, q') \<and> stands p q' rest"
proof -
  let ?q = "q\<lparr>rd_index := rd_index q + length v\<rparr>"
  have ahead: "ahead q = v @ rest" using at by (simp add: stands_def)
  have e: "atom_end q = ?q" using atom_end_back [OF ahead _ delim] v by (simp add: plain_atom_def)
  have "take (length v) (drop (rd_index q) (rd_bytes q)) = v" using ahead by (simp add: ahead_def)
  moreover have "from_utf8 v" using v ascii_utf8 by (simp add: plain_atom_def)
  ultimately have "read_atom q l = Ok (Atom v l, ?q)" by (simp add: read_atom_def e)
  moreover have "ahead ?q = drop (length v) (ahead q)" by (simp add: ahead_def add.commute)
  then have "stands p ?q rest" using at ahead by (simp add: stands_def)
  ultimately show ?thesis by blast
qed

lemma skip_here:
  assumes "stands p q (c # s)" and "\<not> is_space c" and "c \<noteq> CHR '';''"
  shows "skip_space_and_comments q = q"
proof -
  have "skip_spaces q = q" using stands_peek(1) [OF assms(1)] assms(2) by (subst skip_spaces.simps) simp
  then show ?thesis using stands_peek(1) [OF assms(1)] assms(3)
    by (subst skip_space_and_comments.simps) (simp add: Let_def)
qed

lemma skip_blank:
  assumes "stands p q (CHR '' '' # c # s)" and "\<not> is_space c" and "c \<noteq> CHR '';''"
  shows "skip_space_and_comments q = past q"
proof -
  have at: "stands p (past q) (c # s)" by (rule stands_past [OF assms(1)])
  have "skip_spaces (past q) = past q" using stands_peek(1) [OF at] assms(2) by (subst skip_spaces.simps) simp
  moreover have "skip_spaces q = skip_spaces (past q)"
    using stands_peek(1) [OF assms(1)] by (subst skip_spaces.simps) (simp add: is_space_def past_counting_def)
  ultimately show ?thesis using stands_peek(1) [OF at] assms(3)
    by (subst skip_space_and_comments.simps) (simp add: Let_def)
qed

lemma print_first: "plain x \<Longrightarrow> \<exists>c s. print_sexpr x = c # s \<and> \<not> is_space c \<and> c \<noteq> CHR '';''"
proof (cases x)
  case (Atom v l)
  assume "plain x"
  with Atom have "plain_atom v" by simp
  with Atom show ?thesis by (cases v) (auto simp: plain_atom_def ends_atom_def)
next
  case (Lst vs l)
  then show ?thesis by (cases vs) (auto simp: is_space_def)
qed (auto simp: print_string_def is_space_def)


section \<open>Reading expressions back\<close>

lemma delimited: "vs = [] \<Longrightarrow> hd (concat (map (\<lambda>v. '' '' @ f v) vs) @ '')'' @ rest) = CHR '')''"
  "vs \<noteq> [] \<Longrightarrow> hd (concat (map (\<lambda>v. '' '' @ f v) vs) @ '')'' @ rest) = CHR '' ''"
  by (cases vs; simp)+

lemma ends_atom_simps [simp]: "ends_atom (CHR '')'')" "ends_atom (CHR '' '')"
  by (simp_all add: ends_atom_def is_space_def)

definition read_back :: "nat \<Rightarrow> sexpr \<Rightarrow> bool" where
  "read_back depth x \<longleftrightarrow>
     (\<forall>p rest. ahead p = print_sexpr x @ rest \<longrightarrow> rest = [] \<or> ends_atom (hd rest) \<longrightarrow>
        rd_expressions p + sx_count x \<le> max_expressions \<longrightarrow>
        (\<exists>q. read_job (Expression depth) p = Some (Ok (on_line (rd_line p) x, q)) \<and>
             ahead q = rest \<and> rd_line q = rd_line p \<and> rd_expressions q = rd_expressions p + sx_count x))"

lemma items_back:
  "\<forall>v \<in> set vs. plain v \<and> read_back (Suc depth) v \<Longrightarrow>
   ahead p = concat (map (\<lambda>v. '' '' @ print_sexpr v) vs) @ '')'' @ rest \<Longrightarrow>
   rd_expressions p + sum_list (map sx_count vs) \<le> max_expressions \<Longrightarrow>
   \<exists>q. read_job (Items depth items l) p = Some (Ok (Lst (items @ map (on_line (rd_line p)) vs) l, q)) \<and>
       ahead q = rest \<and> rd_line q = rd_line p \<and> rd_expressions q = rd_expressions p + sum_list (map sx_count vs)"
proof (induction vs arbitrary: p items)
  case Nil
  then have at: "stands p p (CHR '')'' # rest)" by (simp add: stands_def)
  have "skip_space_and_comments p = p" by (rule skip_here [OF at]) (simp_all add: is_space_def)
  moreover have "peek p = Some (CHR '')'')" using stands_peek(1) [OF at] .
  ultimately have "read_job (Items depth items l) p = Some (Ok (Lst items l, past p))"
    by (subst read_job.simps) simp
  moreover have "stands p (past p) rest" by (rule stands_past [OF at])
  ultimately show ?case by (simp add: stands_def)
next
  case (Cons v vs)
  let ?tail = "concat (map (\<lambda>v. '' '' @ print_sexpr v) vs) @ '')'' @ rest"
  have v: "plain v" "read_back (Suc depth) v" using Cons.prems(1) by simp_all
  obtain c s where c: "print_sexpr v = c # s" "\<not> is_space c" "c \<noteq> CHR '';''" using print_first [OF v(1)] by blast
  have blank: "stands p p (CHR '' '' # c # s @ ?tail)" using Cons.prems(2) c(1) by (simp add: stands_def)
  note skip = skip_blank [OF blank c(2,3)]
  have at: "stands p (past p) (print_sexpr v @ ?tail)" using stands_past [OF blank] c(1) by simp
  have "c \<noteq> CHR '')''"
  proof
    assume "c = CHR '')''"
    then show False using c(1) v(1) by (cases v; cases "sx_list v")
      (auto simp: plain_atom_def print_string_def elim!: print_sexpr.elims)
  qed
  then have unfold: "read_job (Items depth items l) p =
      do {
        r \<leftarrow> read_job (Expression (depth + 1)) (past p);
        case r of
          Err e \<Rightarrow> Some (Err e)
        | Panic \<Rightarrow> Some Panic
        | Ok (item, p) \<Rightarrow> read_job (Items depth (items @ [item]) l) p
      }"
    using stands_peek(1) [OF stands_past [OF blank]] skip by (subst read_job.simps) simp
  have tail: "?tail = [] \<or> ends_atom (hd ?tail)" by (cases vs) simp_all
  obtain q where q: "read_job (Expression (depth + 1)) (past p) = Some (Ok (on_line (rd_line p) v, q))"
    "ahead q = ?tail" "rd_line q = rd_line p" "rd_expressions q = rd_expressions p + sx_count v"
    using v(2) at tail Cons.prems(3) unfolding read_back_def stands_def by fastforce
  have "\<forall>v \<in> set vs. plain v \<and> read_back (Suc depth) v" "rd_expressions q + sum_list (map sx_count vs) \<le> max_expressions"
    using Cons.prems(1,3) q(4) by simp_all
  from Cons.IH [OF this(1) q(2) this(2), of "items @ [on_line (rd_line p) v]"] q show ?case
    by (auto simp: unfold)
qed

lemma expression_opens:
  assumes "ahead p = c # s" and "\<not> is_space c" "c \<noteq> CHR '';''" and "depth \<le> max_nesting_depth" "rd_expressions p < max_expressions"
  shows "read_job (Expression depth) p =
    (let q = p\<lparr>rd_expressions := rd_expressions p + 1\<rparr> in
     if c = CHR ''('' then read_job (Items depth [] (rd_line p)) (past q)
     else if c = quote then Some (obind (read_string (past q) []) (\<lambda>(v, p'). Ok (Str v (rd_line p), p')))
     else if c = CHR '')'' then Some (Err (reader_error q (''unexpected '' @ [CHR 0x27, CHR '')'', CHR 0x27])))
     else Some (read_atom q (rd_line p)))"
proof -
  let ?q = "p\<lparr>rd_expressions := rd_expressions p + 1\<rparr>"
  have at: "stands ?q ?q (c # s)" using assms(1) by (simp add: stands_def ahead_def)
  have "skip_space_and_comments ?q = ?q" by (rule skip_here [OF at assms(2,3)])
  then show ?thesis using stands_peek(1) [OF at] assms(4,5)
    by (subst read_job.simps) (simp add: Let_def)
qed

lemma expression_back: "plain x \<Longrightarrow> depth + sx_depth x \<le> max_nesting_depth \<Longrightarrow> read_back depth x"
proof (induction x arbitrary: depth)
  case (Atom v l)
  show ?case unfolding read_back_def
  proof (intro allI impI)
    fix p rest
    assume a: "ahead p = print_sexpr (Atom v l) @ rest" "rest = [] \<or> ends_atom (hd rest)"
      "rd_expressions p + sx_count (Atom v l) \<le> max_expressions"
    let ?q = "p\<lparr>rd_expressions := rd_expressions p + 1\<rparr>"
    have v: "plain_atom v" using Atom.prems by simp
    then obtain c s where c: "v = c # s" "\<not> ends_atom c" "c \<noteq> quote" by (cases v) (auto simp: plain_atom_def)
    have "read_job (Expression depth) p = Some (read_atom ?q (rd_line p))"
      by (subst expression_opens) (use a c Atom.prems in \<open>auto simp: ends_atom_def Let_def\<close>)
    moreover have "stands ?q ?q (v @ rest)" using a(1) by (simp add: stands_def ahead_def)
    from read_atom_back [OF this v a(2)] obtain q' where
      "read_atom ?q (rd_line p) = Ok (Atom v (rd_line p), q')" "stands ?q q' rest" by blast
    ultimately show "\<exists>q. read_job (Expression depth) p = Some (Ok (on_line (rd_line p) (Atom v l), q)) \<and>
             ahead q = rest \<and> rd_line q = rd_line p \<and> rd_expressions q = rd_expressions p + sx_count (Atom v l)"
      by (simp add: stands_def)
  qed
next
  case (Str v l)
  show ?case unfolding read_back_def
  proof (intro allI impI)
    fix p rest
    assume a: "ahead p = print_sexpr (Str v l) @ rest" "rest = [] \<or> ends_atom (hd rest)"
      "rd_expressions p + sx_count (Str v l) \<le> max_expressions"
    let ?q = "p\<lparr>rd_expressions := rd_expressions p + 1\<rparr>"
    have v: "plain_string v" using Str.prems by simp
    have opens: "read_job (Expression depth) p = Some (obind (read_string (past ?q) []) (\<lambda>(v, p'). Ok (Str v (rd_line p), p')))"
      by (subst expression_opens) (use a Str.prems in \<open>auto simp: print_string_def is_space_def Let_def\<close>)
    have "stands ?q ?q (quote # concat (map escape_char v) @ quote # rest)"
      using a(1) by (simp add: stands_def ahead_def print_string_def)
    from read_string_back [OF stands_past [OF this] v, of "[]"] obtain q' where
      "read_string (past ?q) [] = Ok (v, q')" "stands ?q q' rest" by auto
    with opens show "\<exists>q. read_job (Expression depth) p = Some (Ok (on_line (rd_line p) (Str v l), q)) \<and>
             ahead q = rest \<and> rd_line q = rd_line p \<and> rd_expressions q = rd_expressions p + sx_count (Str v l)"
      by (simp add: stands_def)
  qed
next
  case (Lst vs l)
  have inner: "\<forall>v \<in> set vs. plain v \<and> read_back (Suc depth) v"
  proof
    fix v assume v: "v \<in> set vs"
    have "sx_depth (Lst vs l) \<le> max_nesting_depth - depth" using Lst.prems(2) by linarith
    then have "Suc (sx_depth v) \<le> max_nesting_depth - depth" unfolding sx_depth_list using v by blast
    then have "Suc depth + sx_depth v \<le> max_nesting_depth" using Lst.prems(2) by linarith
    then show "plain v \<and> read_back (Suc depth) v" using Lst.IH [OF v] Lst.prems(1) v by simp
  qed
  show ?case unfolding read_back_def
  proof (intro allI impI)
    fix p rest
    assume a: "ahead p = print_sexpr (Lst vs l) @ rest" "rest = [] \<or> ends_atom (hd rest)"
      "rd_expressions p + sx_count (Lst vs l) \<le> max_expressions"
    let ?q = "p\<lparr>rd_expressions := rd_expressions p + 1\<rparr>"
    obtain s where s: "ahead p = CHR ''('' # s" using a(1) by (cases vs) auto
    have opens: "read_job (Expression depth) p = read_job (Items depth [] (rd_line p)) (past ?q)"
      by (subst expression_opens [OF s]) (use a Lst.prems in \<open>auto simp: is_space_def Let_def\<close>)
    have "stands ?q ?q (CHR ''('' # s)" using s by (simp add: stands_def ahead_def)
    note at = stands_past [OF this]
    have "\<exists>q. read_job (Items depth [] (rd_line p)) (past ?q) = Some (Ok (Lst (map (on_line (rd_line p)) vs) (rd_line p), q)) \<and>
       ahead q = rest \<and> rd_line q = rd_line p \<and> rd_expressions q = rd_expressions p + 1 + sum_list (map sx_count vs)"
    proof (cases vs)
      case Nil
      with s a(1) at have "ahead (past ?q) = concat (map (\<lambda>v. '' '' @ print_sexpr v) []) @ '')'' @ rest"
        by (simp add: stands_def)
      from items_back [OF _ this, of depth "[]" "rd_line p"] at a(3) Nil show ?thesis
        by (auto simp: stands_def)
    next
      case (Cons v us)
      let ?tail = "concat (map (\<lambda>v. '' '' @ print_sexpr v) us) @ '')'' @ rest"
      have v: "plain v" "read_back (Suc depth) v" using inner Cons by simp_all
      have here: "stands ?q (past ?q) (print_sexpr v @ ?tail)" using s a(1) at Cons by (simp add: stands_def)
      obtain c r where c: "print_sexpr v = c # r" "\<not> is_space c" "c \<noteq> CHR '';''" using print_first [OF v(1)] by blast
      have here': "stands ?q (past ?q) (c # r @ ?tail)" using here c(1) by simp
      have "c \<noteq> CHR '')''"
      proof
        assume "c = CHR '')''"
        then show False using c(1) v(1) by (cases v; cases "sx_list v")
          (auto simp: plain_atom_def print_string_def elim!: print_sexpr.elims)
      qed
      then have unfold: "read_job (Items depth [] (rd_line p)) (past ?q) =
          do {
            r \<leftarrow> read_job (Expression (depth + 1)) (past ?q);
            case r of
              Err e \<Rightarrow> Some (Err e)
            | Panic \<Rightarrow> Some Panic
            | Ok (item, p') \<Rightarrow> read_job (Items depth [item] (rd_line p)) p'
          }"
        using stands_peek(1) [OF here'] skip_here [OF here' c(2,3)] by (subst read_job.simps) simp
      have tail: "?tail = [] \<or> ends_atom (hd ?tail)" by (cases us) simp_all
      obtain q where q: "read_job (Expression (depth + 1)) (past ?q) = Some (Ok (on_line (rd_line p) v, q))"
        "ahead q = ?tail" "rd_line q = rd_line p" "rd_expressions q = rd_expressions p + 1 + sx_count v"
        using v(2) here tail a(3) Cons unfolding read_back_def stands_def by fastforce
      have "\<forall>v \<in> set us. plain v \<and> read_back (Suc depth) v" "rd_expressions q + sum_list (map sx_count us) \<le> max_expressions"
        using inner a(3) q(4) Cons by simp_all
      from items_back [OF this(1) q(2) this(2), of "[on_line (rd_line p) v]" "rd_line p"] obtain q' where
        q': "read_job (Items depth [on_line (rd_line p) v] (rd_line p)) q =
            Some (Ok (Lst ([on_line (rd_line p) v] @ map (on_line (rd_line q)) us) (rd_line p), q'))"
          "ahead q' = rest" "rd_line q' = rd_line q"
          "rd_expressions q' = rd_expressions q + sum_list (map sx_count us)" by blast
      have "read_job (Items depth [] (rd_line p)) (past ?q) =
          Some (Ok (Lst (map (on_line (rd_line p)) vs) (rd_line p), q'))"
        using q'(1) q(1,3) Cons by (subst unfold) simp
      with q' q Cons show ?thesis by auto
    qed
    then show "\<exists>q. read_job (Expression depth) p = Some (Ok (on_line (rd_line p) (Lst vs l), q)) \<and>
             ahead q = rest \<and> rd_line q = rd_line p \<and> rd_expressions q = rd_expressions p + sx_count (Lst vs l)"
      by (simp add: opens)
  qed
qed

lemma print_read_back:
  assumes "plain x" "sx_count x \<le> max_expressions" "sx_depth x \<le> max_nesting_depth"
    and "length (print_sexpr x) \<le> max_source_bytes"
  shows "read_source (print_sexpr x) = Some (Ok (on_line 1 x))"
proof -
  let ?p = "reader_new (print_sexpr x)"
  have p: "ahead ?p = print_sexpr x @ []" "rd_line ?p = 1" "rd_expressions ?p = 0"
    by (simp_all add: reader_new_def ahead_def)
  have "read_back 0 x" using expression_back assms by simp
  then obtain q where q: "read_expression ?p = Some (Ok (on_line 1 x, q))" "ahead q = []"
    using p assms(2) unfolding read_back_def read_expression_def by fastforce
  have none: "peek q = None" using q(2) by (simp add: peek_ahead)
  then have "skip_spaces q = q" by (subst skip_spaces.simps) simp
  then have "skip_space_and_comments q = q" using none by (subst skip_space_and_comments.simps) simp
  with q none assms(4) show ?thesis by (simp add: read_source_def Let_def)
qed

end
