(* ===== verification/SpecPaths.thy ===== *)
theory SpecPaths
  imports SpecTotal SpecPrint
begin

text \<open>
  What an accepted specification may name in the file system: its paths stay below the
  application's directory, the files it changes are direct children of the granted copy, and no
  two grants are of one name.
\<close>

section \<open>Resolving a path\<close>

text \<open>The directory a path leads to, as its components are walked from a directory.\<close>

definition visit :: "string list \<Rightarrow> string \<Rightarrow> string list" where
  "visit dir part =
     (if part = ''..'' then butlast dir else if part = [] \<or> part = ''.'' then dir else dir @ [part])"

definition resolve_path :: "string list \<Rightarrow> string \<Rightarrow> string list" where
  "resolve_path dir path =
     foldl visit (if path \<noteq> [] \<and> hd path = CHR ''/'' then [] else dir) (split_at (CHR ''/'') path)"

text \<open>A path below every directory it is resolved in, component by component.\<close>

definition stays_inside :: "string \<Rightarrow> bool" where
  "stays_inside path \<longleftrightarrow> (\<forall>dir. resolve_path dir path = dir @ split_at (CHR ''/'') path)"

definition names_child :: "string \<Rightarrow> bool" where
  "names_child name \<longleftrightarrow> (\<exists>part. \<forall>dir. resolve_path dir name = dir @ [part])"

lemma visit_all: "list_all (\<lambda>part. part \<notin> {[], ''.'', ''..''}) parts \<Longrightarrow> foldl visit dir parts = dir @ parts"
  by (induction parts arbitrary: dir) (simp_all add: visit_def)

lemma grant_path_inside:
  assumes "grant_path node name = Ok path"
  shows "stays_inside path"
proof -
  from assms have "path \<noteq> []" "hd path \<noteq> CHR ''/''"
    "\<not> list_ex (\<lambda>part. part = [] \<or> part = ''.'' \<or> part = ''..'') (split_at (CHR ''/'') path)"
    by (auto simp: grant_path_def grant_string_def split: if_splits option.splits)
  moreover from this(3) have "list_all (\<lambda>part. part \<notin> {[], ''.'', ''..''}) (split_at (CHR ''/'') path)"
    by (auto simp: list_all_iff list_ex_iff)
  ultimately show ?thesis by (simp add: stays_inside_def resolve_path_def visit_all)
qed

lemma visit_normal:
  "''..'' \<notin> set parts \<Longrightarrow> foldl visit dir parts = dir @ filter (\<lambda>part. part \<noteq> [] \<and> part \<noteq> ''.'') parts"
  by (induction parts arbitrary: dir) (auto simp: visit_def)

lemma valid_name_child:
  assumes "valid_name name"
  shows "names_child name"
proof -
  from assms obtain part where parts: "normal_components name = [part]" "name \<noteq> []" "hd name \<noteq> CHR ''/''"
      "''..'' \<notin> set (normal_components name)"
    by (auto simp: valid_name_def relative_components_def length_Suc_conv split: if_splits option.splits)
  from parts(4) have "''..'' \<notin> set (split_at (CHR ''/'') name)" unfolding normal_components_def by simp
  from visit_normal [OF this] parts show ?thesis
    by (auto simp: names_child_def resolve_path_def normal_components_def)
qed

section \<open>What a specification names\<close>

fun recent_paths :: "recent_seed \<Rightarrow> string list" where
  "recent_paths (SeedPath path) = [path]"
| "recent_paths (SeedEach path extension) = [path]"
| "recent_paths (SeedCopied name) = []"

fun seed_names :: "recent_seed \<Rightarrow> string list" where
  "seed_names (SeedCopied name) = [name]"
| "seed_names _ = []"

definition grant_paths :: "spec_grant \<Rightarrow> string list" where
  "grant_paths g =
     (case grant_path_of g of Some path \<Rightarrow> [path] | None \<Rightarrow> []) @
     (case g of GrantRecents seeds \<Rightarrow> concat (map recent_paths seeds) | _ \<Rightarrow> [])"

definition grant_children :: "spec_grant \<Rightarrow> string list" where
  "grant_children g = (case g of GrantRecents seeds \<Rightarrow> concat (map seed_names seeds) | _ \<Rightarrow> [])"

definition command_paths :: "command \<Rightarrow> string list" where
  "command_paths c = (case c of CmdDrop l paths \<Rightarrow> paths | CmdDragFiles l paths \<Rightarrow> paths | _ \<Rightarrow> [])"

definition command_children :: "command \<Rightarrow> string list" where
  "command_children c = (case c of CmdReplaceFile name source \<Rightarrow> [name] | CmdRemoveFile name \<Rightarrow> [name] | _ \<Rightarrow> [])"

definition spec_paths :: "spec \<Rightarrow> string list" where
  "spec_paths s = concat (map grant_paths (sp_grants s)) @ concat (map (command_paths \<circ> st_command) (sp_steps s))"

definition spec_children :: "spec \<Rightarrow> string list" where
  "spec_children s =
     concat (map grant_children (sp_grants s)) @ concat (map (command_children \<circ> st_command) (sp_steps s))"

section \<open>Grants\<close>

lemma collect_all: "collect f xs = Ok ys \<Longrightarrow> (\<And>x y. f x = Ok y \<Longrightarrow> Q y) \<Longrightarrow> \<forall>y \<in> set ys. Q y"
  by (induction xs arbitrary: ys) auto

definition seed_confined :: "recent_seed \<Rightarrow> bool" where
  "seed_confined seed \<longleftrightarrow> (\<forall>path \<in> set (recent_paths seed). stays_inside path) \<and>
                         (\<forall>name \<in> set (seed_names seed). names_child name)"

definition grant_confined :: "spec_grant \<Rightarrow> bool" where
  "grant_confined g \<longleftrightarrow> (\<forall>path \<in> set (grant_paths g). stays_inside path) \<and>
                       (\<forall>name \<in> set (grant_children g). names_child name)"

definition command_confined :: "command \<Rightarrow> bool" where
  "command_confined c \<longleftrightarrow> (\<forall>path \<in> set (command_paths c). stays_inside path) \<and>
                         (\<forall>name \<in> set (command_children c). names_child name)"

lemma recent_confined: "parse_recent item = Ok seed \<Longrightarrow> seed_confined seed"
  unfolding parse_recent_def seed_confined_def
  by (auto dest: grant_path_inside valid_name_child split: option.splits if_splits)

lemma grant_confined_intros:
  "stays_inside path \<Longrightarrow> grant_confined (GrantDirectory path)"
  "stays_inside path \<Longrightarrow> grant_confined (GrantDirectoryCopy path)"
  "stays_inside path \<Longrightarrow> grant_confined (GrantFile path)"
  "stays_inside path \<Longrightarrow> grant_confined (GrantAppData path)"
  "stays_inside path \<Longrightarrow> grant_confined (GrantAssets path)"
  "stays_inside path \<Longrightarrow> grant_confined (GrantServer path port)"
  "\<forall>seed \<in> set seeds. seed_confined seed \<Longrightarrow> grant_confined (GrantRecents seeds)"
  by (auto simp: grant_confined_def grant_paths_def grant_children_def seed_confined_def)

lemma grant_confined_other:
  "grant_path_of g = None \<Longrightarrow> \<forall>seeds. g \<noteq> GrantRecents seeds \<Longrightarrow> grant_confined g"
  by (cases g) (simp_all add: grant_confined_def grant_paths_def grant_children_def)

definition confined_grant_arm :: "string \<times> bool \<times> spec_grant parsed \<Rightarrow> bool" where
  "confined_grant_arm a \<longleftrightarrow> (\<forall>g. snd (snd a) = Ok g \<longrightarrow> grant_confined g)"

lemma confined_grant_armI:
  "(\<And>g. result = Ok g \<Longrightarrow> grant_confined g) \<Longrightarrow> confined_grant_arm (name, guard, result)"
  by (simp add: confined_grant_arm_def)

lemma grant_arms_confined: "list_all confined_grant_arm (grant_arms node vs)"
  unfolding grant_arms_def Let_def list.pred_inject
  by (intro conjI TrueI confined_grant_armI)
    (auto intro!: grant_confined_intros grant_confined_other
       dest: grant_path_inside collect_all [OF _ recent_confined] split: if_splits)

lemma find_arm: "List.find P arms = Some a \<Longrightarrow> list_all Q arms \<Longrightarrow> Q a"
  by (auto simp: find_Some_iff list_all_length)

lemma parse_grant_confined: "parse_grant node vs = Ok g \<Longrightarrow> grant_confined g"
  using find_arm [OF _ grant_arms_confined]
  by (fastforce simp: parse_grant_def confined_grant_arm_def split: option.splits if_splits)

lemma parse_grants_confined:
  "parse_grants entries grants = Ok gs \<Longrightarrow> distinct (map grant_name grants) \<Longrightarrow> \<forall>g \<in> set grants. grant_confined g \<Longrightarrow>
   distinct (map grant_name gs) \<and> (\<forall>g \<in> set gs. grant_confined g)"
proof (induction entries grants rule: parse_grants.induct)
  case (2 entry rest grants)
  from 2(2) obtain vs grant where g: "require_list entry ''grant'' = Ok vs" "parse_grant entry vs = Ok grant"
      "\<not> list_ex (\<lambda>existing. grant_name existing = grant_name grant) grants"
      "parse_grants rest (grants @ [grant]) = Ok gs"
    by (auto split: if_splits)
  have "distinct (map grant_name (grants @ [grant]))" using 2(3) g(3) by (auto simp: list_ex_iff)
  moreover have "\<forall>g \<in> set (grants @ [grant]). grant_confined g" using 2(4) parse_grant_confined [OF g(2)] by simp
  ultimately show ?case using 2(1) [OF g(3,4)] by blast
qed simp

section \<open>Steps\<close>

definition confined_arm :: "arm \<Rightarrow> bool" where
  "confined_arm a \<longleftrightarrow> (\<forall>c. snd (snd a) = Ok c \<longrightarrow> command_confined c)"

lemma confined_armI: "(\<And>c. result = Ok c \<Longrightarrow> command_confined c) \<Longrightarrow> confined_arm (name, guard, result)"
  by (simp add: confined_arm_def)

lemma command_confined_intros:
  "\<forall>path \<in> set paths. stays_inside path \<Longrightarrow> command_confined (CmdDrop l paths)"
  "\<forall>path \<in> set paths. stays_inside path \<Longrightarrow> command_confined (CmdDragFiles l paths)"
  "names_child name \<Longrightarrow> command_confined (CmdReplaceFile name source)"
  "names_child name \<Longrightarrow> command_confined (CmdRemoveFile name)"
  by (auto simp: command_confined_def command_paths_def command_children_def)

lemma input_arms_confined: "list_all confined_arm (input_arms rules vs)"
  unfolding input_arms_def Let_def list.pred_inject
  by (intro conjI TrueI confined_armI)
    (auto simp: command_confined_def command_paths_def command_children_def four_ints_def split: if_splits)

lemma window_arms_confined: "list_all confined_arm (window_arms rules node vs)"
  unfolding window_arms_def Let_def list.pred_inject
  by (intro conjI TrueI confined_armI)
    (auto simp: command_confined_def command_paths_def command_children_def split: if_splits)

lemma environment_arms_confined: "list_all confined_arm (environment_arms vs)"
  unfolding environment_arms_def Let_def list.pred_inject
  by (intro conjI TrueI confined_armI)
    (auto simp: command_confined_def command_paths_def command_children_def file_counter_def split: if_splits)

lemma claim_arms_confined: "list_all confined_arm (claim_arms rules node vs)"
  unfolding claim_arms_def Let_def list.pred_inject
  by (intro conjI TrueI confined_armI)
    (auto simp: command_confined_def command_paths_def command_children_def split: if_splits)

lemma file_arms_confined: "list_all confined_arm (file_arms rules vs)"
proof -
  have counter: "command_confined (CmdExpectDropCounters ns)" "command_confined (CmdExpectRecentCounters ns)"
    "command_confined (CmdExpectWatchCounters ms)" "command_confined (CmdExpectTaskCounters ms)"
    "command_confined (CmdExpectDocumentCounters ns)" "command_confined CmdRevokeFileGrants" for ns ms
    by (simp_all add: command_confined_def command_paths_def command_children_def)
  show ?thesis
    unfolding file_arms_def Let_def list.pred_inject
    by (intro conjI TrueI confined_armI)
      (auto intro!: command_confined_intros counter valid_name_child dest: collect_all [OF _ grant_path_inside]
        split: if_splits option.splits)
qed

lemma step_arms_confined: "list_all confined_arm (step_arms rules node vs)"
  by (simp add: step_arms_def input_arms_confined window_arms_confined environment_arms_confined
      file_arms_confined claim_arms_confined)

lemma parse_step_confined: "parse_step rules node = Ok st \<Longrightarrow> command_confined (st_command st)"
  using find_arm [OF _ step_arms_confined]
  by (fastforce simp: parse_step_def parse_command_def confined_arm_def split: option.splits if_splits)

end
