(* ===== verification/SpecAccept.thy ===== *)
theory SpecAccept
  imports SpecPaths
begin

text \<open>
  What holds of a specification that is accepted: reading it returned, its paths are confined, its
  benchmark is bounded, and its steps are named by the forms they were decoded from.
\<close>

section \<open>The benchmark policy\<close>

definition benchmark_counts :: "benchmark \<Rightarrow> bool" where
  "benchmark_counts b \<longleftrightarrow> 0 < bm_samples b \<and> 0 < bm_iterations b"

definition benchmark_bounded :: "benchmark \<Rightarrow> bool" where
  "benchmark_bounded b \<longleftrightarrow>
     0 < bm_scale b \<and> 0 < bm_samples b \<and> 0 < bm_iterations b \<and>
     unat (bm_warmups b) + unat (bm_samples b) * unat (bm_iterations b) \<le> 100000"

lemma benchmark_field_counts:
  "benchmark_field k x key w b = Ok b' \<Longrightarrow> benchmark_counts b \<Longrightarrow> benchmark_counts b'"
  by (auto simp: benchmark_field_def benchmark_counts_def parse_u32_def word_gt_0 split: if_splits)

lemma benchmark_fields_counts:
  "benchmark_fields vs seen b = Ok b' \<Longrightarrow> benchmark_counts b \<Longrightarrow> benchmark_counts b'"
proof (induction vs seen b rule: benchmark_fields.induct)
  case (2 k rest seen b)
  then show ?case using benchmark_field_counts
    by (cases rest) (force split: if_splits)+
qed simp

text \<open>The product and the sum of 32-bit counts fit 64 bits: the overflow is not reached.\<close>

lemma lifecycles_fit:
  fixes w s i :: u32
  shows "unat (ucast s * ucast i :: u64) = unat s * unat i"
    and "checked_add (ucast w) (ucast s * ucast i :: u64) = Some (ucast w + ucast s * ucast i)"
    and "unat (ucast w + ucast s * ucast i :: u64) = unat w + unat s * unat i"
proof -
  have small: "unat w \<le> 2 ^ 32 - 1" "unat s \<le> 2 ^ 32 - 1" "unat i \<le> 2 ^ 32 - 1"
    using unsigned_less [of w, where ?'a = nat] unsigned_less [of s, where ?'a = nat] unsigned_less [of i, where ?'a = nat] by simp_all
  have "unat s * unat i \<le> (2 ^ 32 - 1) * (2 ^ 32 - 1)" using small by (intro mult_le_mono)
  then have sum: "unat w + unat s * unat i < 2 ^ 64" using small(1) by simp
  have cast: "unat (ucast a :: u64) = unat a" for a :: u32
    using unsigned_less [of a, where ?'a = nat] by (simp add: unsigned_ucast_eq take_bit_nat_eq_self)
  show product: "unat (ucast s * ucast i :: u64) = unat s * unat i"
    using sum by (simp add: unat_word_ariths cast)
  show "checked_add (ucast w) (ucast s * ucast i :: u64) = Some (ucast w + ucast s * ucast i)"
    using sum by (simp add: checked_add_def product cast)
  show "unat (ucast w + ucast s * ucast i :: u64) = unat w + unat s * unat i"
    using sum by (simp add: unat_word_ariths(1) product cast)
qed

lemma parse_benchmark_bounded:
  assumes "parse_benchmark node vs = Ok b"
  shows "benchmark_bounded b"
proof -
  let ?start = "\<lparr>bm_warmups = 0, bm_samples = 1, bm_iterations = 1, bm_scale = 0, bm_initial_size = 0, bm_change_size = 0\<rparr>"
  from assms have fields: "benchmark_fields (tl vs) {} ?start = Ok b" and scale: "bm_scale b \<noteq> 0"
    and limit: "\<not> ucast (bm_warmups b) + ucast (bm_samples b) * ucast (bm_iterations b) > max_benchmark_lifecycles"
    by (auto simp: parse_benchmark_def lifecycles_fit(2) split: if_splits)
  have "benchmark_counts ?start" by (simp add: benchmark_counts_def word_gt_0)
  from benchmark_fields_counts [OF fields this] have "benchmark_counts b" .
  moreover from limit have "unat (bm_warmups b) + unat (bm_samples b) * unat (bm_iterations b) \<le> 100000"
    by (simp add: word_less_nat_alt lifecycles_fit(3) max_benchmark_lifecycles_def)
  ultimately show ?thesis using scale by (simp add: benchmark_bounded_def benchmark_counts_def word_gt_0)
qed

section \<open>The sections\<close>

definition grants_confined :: "spec_grant list \<Rightarrow> bool" where
  "grants_confined gs \<longleftrightarrow> distinct (map grant_name gs) \<and> (\<forall>g \<in> set gs. grant_confined g)"

definition steps_confined :: "step list \<Rightarrow> bool" where
  "steps_confined steps \<longleftrightarrow> (\<forall>st \<in> set steps. command_confined (st_command st))"

definition sections_sound :: "sections \<Rightarrow> bool" where
  "sections_sound s \<longleftrightarrow>
     pred_option benchmark_bounded (sc_benchmark s) \<and> pred_option grants_confined (sc_grants s) \<and>
     pred_option steps_confined (sc_steps s)"

lemma parse_sections_sound:
  "parse_sections rules vs s = Ok s' \<Longrightarrow> sections_sound s \<Longrightarrow> sections_sound s'"
proof (induction rules vs s rule: parse_sections.induct)
  case (2 rules x rest s)
  have "grants_confined gs" if "parse_grants entries [] = Ok gs" for entries gs
    using parse_grants_confined [OF that] by (simp add: grants_confined_def)
  moreover have "steps_confined steps" if "collect (parse_step rules) xs = Ok steps" for xs steps
    unfolding steps_confined_def by (rule collect_all [OF that parse_step_confined])
  ultimately have "sections_sound s1" if "(case head_atom vs of
         None \<Rightarrow> Err (node_error x ''test section needs a name'')
       | Some name \<Rightarrow>
           if name = ''grants'' then
             (if sc_grants s \<noteq> None then Err (node_error x ''duplicate grants clause'')
              else obind (parse_grants (tl vs) []) (\<lambda>grants. Ok (s\<lparr>sc_grants := Some grants\<rparr>)))
           else if name = ''benchmark'' then
             (if sc_benchmark s \<noteq> None then Err (node_error x ''duplicate benchmark clause'')
              else obind (parse_benchmark x vs) (\<lambda>policy. Ok (s\<lparr>sc_benchmark := Some policy\<rparr>)))
           else if name = ''steps'' then
             (if sc_steps s \<noteq> None then Err (node_error x ''duplicate steps clause'')
              else obind (collect (parse_step rules) (tl vs)) (\<lambda>steps. Ok (s\<lparr>sc_steps := Some steps\<rparr>)))
           else Err (node_error x (''unsupported test section '' @ name))) = Ok s1" for vs s1
    using that 2(3) parse_benchmark_bounded
    by (auto simp: sections_sound_def split: option.splits if_splits)
  then show ?case using 2 by auto
qed simp

lemma parse_spec_sound:
  assumes "parse_spec rules root = Ok s"
  shows "pred_option benchmark_bounded (sp_benchmark s)" "grants_confined (sp_grants s)" "steps_confined (sp_steps s)"
    "check_benchmark root (sp_benchmark s) (sp_steps s) = Ok ()" "length (sp_steps s) \<le> max_steps"
proof -
  from assms obtain sections vs where s: "parse_sections rules vs \<lparr>sc_benchmark = None, sc_grants = None, sc_steps = None\<rparr> = Ok sections"
    "sc_steps sections = Some (sp_steps s)" "sp_benchmark s = sc_benchmark sections"
    "sp_grants s = or_default [] (sc_grants sections)" "length (sp_steps s) \<le> max_steps"
    "check_benchmark root (sp_benchmark s) (sp_steps s) = Ok ()"
    by (auto simp: parse_spec_def Let_def split: if_splits)
  from parse_sections_sound [OF s(1)] have "sections_sound sections" by (simp add: sections_sound_def)
  then show "pred_option benchmark_bounded (sp_benchmark s)" "grants_confined (sp_grants s)" "steps_confined (sp_steps s)"
    "check_benchmark root (sp_benchmark s) (sp_steps s) = Ok ()" "length (sp_steps s) \<le> max_steps"
    using s(2-6) by (auto simp: sections_sound_def or_default_def grants_confined_def split: option.splits)
qed

lemma parse_Ok: "parse rules source = Some (Ok s) \<Longrightarrow> \<exists>root. read_source source = Some (Ok root) \<and> parse_spec rules root = Ok s"
  by (auto simp: parse_def)

lemma paths_confined:
  assumes "grants_confined (sp_grants s)" "steps_confined (sp_steps s)"
  shows "\<forall>path \<in> set (spec_paths s). stays_inside path" "\<forall>name \<in> set (spec_children s). names_child name"
  using assms unfolding spec_paths_def spec_children_def grants_confined_def steps_confined_def grant_confined_def
    command_confined_def by auto

end
