(* ===== verification/SpecDisplay.thy ===== *)
theory SpecDisplay
  imports SpecGrammar SpecPrint
begin

text \<open>
  How a locator is written in a failure message (\<open>Display\<close> in \<open>spec.rs\<close>), and that the reader
  decodes what is written back to the locator. A name is written with \<open>Debug\<close>; how \<open>Debug\<close> writes
  a character of more than one byte depends on the Unicode tables and is the parameter \<open>wide\<close>.
\<close>

section \<open>Writing\<close>








section \<open>The expression that is written\<close>


















end
