(* ===== verification/SpecCorrect.thy ===== *)
theory SpecCorrect
  imports SpecAccept SpecDisplay
begin

text \<open>The properties of an accepted specification, and of every source.\<close>

section \<open>A sample\<close>

definition plain_rules :: chord_rules where
  "plain_rules = \<lparr>cr_canonical = Ok, cr_displayed = Ok\<rparr>"

definition sample_root :: sexpr where
  "sample_root =
     Lst [Atom ''test'' 1, Str ''rows'' 1,
       Lst [Atom ''grants'' 1,
         Lst [Atom ''directory'' 1, Atom ''copy'' 1, Str ''data'' 1] 1,
         Lst [Atom ''recents'' 1, Str ''a/b'' 1] 1] 1,
       Lst [Atom ''benchmark'' 1, Atom '':scale'' 1, Atom ''3'' 1] 1,
       Lst [Atom ''steps'' 1,
         Lst [Atom ''mark-metrics'' 1] 1,
         Lst [Atom ''expect-count'' 1, Lst [Atom ''text'' 1, Str ''row'' 1] 1, Atom ''3'' 1] 1,
         Lst [Atom ''remove-file'' 1, Str ''n'' 1] 1] 1] 1"

definition sample_spec :: spec where
  "sample_spec =
     \<lparr>sp_name = ''rows'',
      sp_benchmark = Some \<lparr>bm_warmups = 0, bm_samples = 1, bm_iterations = 1, bm_scale = 3, bm_initial_size = 0,
                          bm_change_size = 0\<rparr>,
      sp_grants = [GrantDirectoryCopy ''data'', GrantRecents [SeedPath ''a/b'']],
      sp_steps =
        [\<lparr>st_line = 1, st_command = CmdMarkMetrics\<rparr>,
         \<lparr>st_line = 1, st_command = CmdExpectCount (LocText ''row'') 3\<rparr>,
         \<lparr>st_line = 1, st_command = CmdRemoveFile ''n''\<rparr>]\<rparr>"

text \<open>The arm of a name that stands in the table once.\<close>

lemma find_only:
  assumes "filter (\<lambda>a. fst a = head) arms = [(head, guard, result)]" and guard
  shows "List.find (\<lambda>(name, guard, _). name = head \<and> guard) arms = Some (head, guard, result)"
  using assms(1)
proof (induction arms)
  case (Cons a arms)
  then show ?case
  proof (cases "fst a = head")
    case True
    with Cons.prems have "a = (head, guard, result)" by simp
    with assms(2) show ?thesis by simp
  next
    case False
    with Cons show ?thesis by (cases a) simp
  qed
qed simp

lemma filter_names:
  "filter (\<lambda>a. fst a = head) arms = [] \<longleftrightarrow> head \<notin> set (map fst arms)"
  by (induction arms) auto

lemma one_arm:
  assumes "a \<in> set arms" "fst a = head" "length (filter ((=) head) (map fst arms)) = 1"
  shows "filter (\<lambda>a. fst a = head) arms = [a]"
proof -
  have "length (filter (\<lambda>a. fst a = head) arms) = 1"
    using assms(3) by (simp add: filter_map comp_def eq_commute)
  then obtain b where b: "filter (\<lambda>a. fst a = head) arms = [b]" by (auto simp: length_Suc_conv)
  moreover from assms(1,2) have "a \<in> set (filter (\<lambda>a. fst a = head) arms)" by simp
  ultimately show ?thesis by simp
qed

lemma command_of_arm:
  assumes "(head, True, result) \<in> set (step_arms rules node vs)" and "length (filter ((=) head) vocabulary) = 1"
  shows "parse_command rules node head vs = result"
proof -
  have "filter (\<lambda>a. fst a = head) (step_arms rules node vs) = [(head, True, result)]"
    using one_arm [OF assms(1)] assms(2) by (simp only: arm_names fst_conv)
  from find_only [OF this] show ?thesis by (simp add: parse_command_def)
qed

lemma sample_names:
  "length (filter ((=) ''mark-metrics'') vocabulary) = 1" "length (filter ((=) ''expect-count'') vocabulary) = 1"
  "length (filter ((=) ''remove-file'') vocabulary) = 1"
  unfolding vocabulary_def step_arms_def input_arms_def window_arms_def environment_arms_def file_arms_def
    claim_arms_def Let_def map_append list.map fst_conv
  by simp_all

lemma sample_arms:
  "(''mark-metrics'', length vs = 1, Ok CmdMarkMetrics) \<in> set (claim_arms rules node vs)"
  "(''expect-count'', length vs = 3,
    obind (parse_non_negative (vs ! 2) ''expect-count'') (\<lambda>n. obind (parse_locator rules (vs ! 1)) (\<lambda>l. Ok (CmdExpectCount l n))))
   \<in> set (claim_arms rules node vs)"
  "(''remove-file'', length vs = 2,
    (case sx_string (vs ! 1) of
       Some name \<Rightarrow> if valid_name name then Ok (CmdRemoveFile name)
                    else Err (node_error (vs ! 1) ''remove-file names one direct child'')
     | None \<Rightarrow> Err (node_error (vs ! 1) ''remove-file names one direct child'')))
   \<in> set (file_arms rules vs)"
  unfolding claim_arms_def file_arms_def Let_def list.set by (rule insertI1 | rule insertI2)+

lemma sample_number: "parse_u64 ''3'' = Some 3"
  by (simp add: parse_u64_def parse_unsigned_def parse_digits_def digit_of_def)

lemma sample_steps:
  "parse_command plain_rules node ''mark-metrics'' [h] = Ok CmdMarkMetrics"
  "parse_command plain_rules node ''expect-count'' [h, Lst [Atom ''text'' 1, Str ''row'' 1] 1, Atom ''3'' 1] =
     Ok (CmdExpectCount (LocText ''row'') 3)"
  "parse_command plain_rules node ''remove-file'' [h, Str ''n'' 1] = Ok (CmdRemoveFile ''n'')"
proof -
  note arms = command_of_arm [of _ _ plain_rules node, unfolded step_arms_def set_append]
  show "parse_command plain_rules node ''mark-metrics'' [h] = Ok CmdMarkMetrics"
    using sample_arms(1) [of "[h]" plain_rules node] by (intro arms sample_names UnI2) simp
  have "valid_name ''n''" by code_simp
  then show "parse_command plain_rules node ''remove-file'' [h, Str ''n'' 1] = Ok (CmdRemoveFile ''n'')"
    using sample_arms(3) [of "[h, Str ''n'' 1]" plain_rules] by (intro arms sample_names UnI2 UnI1 [of _ "set (file_arms _ _)"]) simp
  show "parse_command plain_rules node ''expect-count'' [h, Lst [Atom ''text'' 1, Str ''row'' 1] 1, Atom ''3'' 1] =
     Ok (CmdExpectCount (LocText ''row'') 3)"
    using sample_arms(2) [of "[h, Lst [Atom ''text'' 1, Str ''row'' 1] 1, Atom ''3'' 1]" plain_rules node]
    by (intro arms sample_names UnI2) (simp add: parse_non_negative_def need_u64_def need_atom_def
        sample_number parse_simple_locator_def string_locator_def)
qed

lemma sample_grants:
  "parse_grants [Lst [Atom ''directory'' 1, Atom ''copy'' 1, Str ''data'' 1] 1, Lst [Atom ''recents'' 1, Str ''a/b'' 1] 1] [] =
     Ok [GrantDirectoryCopy ''data'', GrantRecents [SeedPath ''a/b'']]"
proof -
  have data: "grant_path (Str ''data'' l) ''directory'' = Ok ''data''" "grant_path (Str ''a/b'' l) ''recents'' = Ok ''a/b''" for l
    by (simp_all add: grant_path_def grant_string_def )
  have "parse_grant node [Atom ''directory'' 1, Atom ''copy'' 1, Str ''data'' 1] = Ok (GrantDirectoryCopy ''data'')" for node
    unfolding parse_grant_def grant_arms_def Let_def by (simp add: data)
  moreover have "parse_grant node [Atom ''recents'' 1, Str ''a/b'' 1] = Ok (GrantRecents [SeedPath ''a/b''])" for node
    unfolding parse_grant_def grant_arms_def Let_def by (simp add: data parse_recent_def)
  ultimately show ?thesis by (simp add: require_list_def)
qed

lemma sample_benchmark:
  "parse_benchmark node [h, Atom '':scale'' 1, Atom ''3'' 1] =
     Ok \<lparr>bm_warmups = 0, bm_samples = 1, bm_iterations = 1, bm_scale = 3, bm_initial_size = 0, bm_change_size = 0\<rparr>"
  by (simp add: parse_benchmark_def need_atom_def benchmark_field_def sample_number checked_add_def max_benchmark_lifecycles_def)

lemma sample_collected:
  "collect (parse_step plain_rules)
     [Lst [Atom ''mark-metrics'' 1] 1,
      Lst [Atom ''expect-count'' 1, Lst [Atom ''text'' 1, Str ''row'' 1] 1, Atom ''3'' 1] 1,
      Lst [Atom ''remove-file'' 1, Str ''n'' 1] 1] = Ok (sp_steps sample_spec)"
  by (simp add: parse_step_def require_list_def sample_steps [unfolded One_nat_def] sample_spec_def)

lemma sample_decodes: "parse_spec plain_rules sample_root = Ok sample_spec"
  by (simp add: parse_spec_def sample_root_def require_list_def sample_grants [unfolded One_nat_def] sample_benchmark [unfolded One_nat_def] sample_collected [unfolded One_nat_def]
      max_steps_def check_benchmark_def check_copied_def Let_def or_default_def
      verifies_scale_def is_copy_def changes_files_def sample_spec_def
      del: obind_eq_Ok parse_grants.simps collect.simps)

lemma sample_printed:
  "plain sample_root" "sx_count sample_root \<le> max_expressions" "sx_depth sample_root \<le> max_nesting_depth"
  "length (print_sexpr sample_root) \<le> max_source_bytes" "on_line 1 sample_root = sample_root"
  unfolding sample_root_def
  by (simp_all add: plain_atom_def plain_string_def ends_atom_def is_space_def max_expressions_def max_nesting_depth_def
      max_source_bytes_def print_string_def escape_char_def)

lemma sample_parses: "parse plain_rules (print_sexpr sample_root) = Some (Ok sample_spec)"
  using print_read_back [OF sample_printed(1-4)] sample_decodes unfolding sample_printed(5) by (simp add: parse_def)

section \<open>Every source\<close>



section \<open>Accepted specifications\<close>



text \<open>
  The benchmark of an accepted specification runs at least one and at most 100000
  lifecycles, the counts taken as exact numbers; its scale is positive; exactly one step marks the
  start of the measurement, and a step of the specification claims the scale.
\<close>

theorem accepted_benchmark_bounded:
  assumes "parse rules source = Some (Ok s)" and "sp_benchmark s = Some b"
  shows "unat (bm_warmups b) + unat (bm_samples b) * unat (bm_iterations b) \<in> {1..100000} \<and> 0 < bm_scale b \<and>
    length (filter (\<lambda>st. st_command st = CmdMarkMetrics) (sp_steps s)) = 1 \<and>
    (\<exists>st \<in> set (sp_steps s). verifies_scale (bm_scale b) (st_command st))"
proof -
  from parse_Ok [OF assms(1)] obtain root where "parse_spec rules root = Ok s" by blast
  note sound = parse_spec_sound [OF this]
  have b: "benchmark_bounded b" using sound(1) assms(2) by simp
  then have "0 < unat (bm_samples b) * unat (bm_iterations b)"
    by (simp add: benchmark_bounded_def word_gt_0 unat_gt_0)
  then have "1 \<le> unat (bm_warmups b) + unat (bm_samples b) * unat (bm_iterations b)" by linarith
  moreover have "length (filter (\<lambda>st. st_command st = CmdMarkMetrics) (sp_steps s)) = 1 \<and>
      list_ex (\<lambda>st. verifies_scale (bm_scale b) (st_command st)) (sp_steps s)"
    using sound(4) assms(2) by (auto simp: check_benchmark_def Let_def split: if_splits)
  ultimately show ?thesis using b unfolding benchmark_bounded_def list_ex_iff atLeastAtMost_iff by blast
qed

theorem accepted_benchmark_bounded_witness:
  "verifies_scale 3 (CmdExpectCount (LocText ''row'') 3) \<and>
   length (filter (\<lambda>st. st_command st = CmdMarkMetrics) (sp_steps sample_spec)) = 1 \<and>
   (\<exists>st \<in> set (sp_steps sample_spec). verifies_scale 3 (st_command st))"
  using accepted_benchmark_bounded [OF sample_parses, of
      "\<lparr>bm_warmups = 0, bm_samples = 1, bm_iterations = 1, bm_scale = 3, bm_initial_size = 0, bm_change_size = 0\<rparr>"]
  by (simp add: sample_spec_def verifies_scale_def)

text \<open>
  A step is decoded into the command it names: the command's name in the vocabulary is
  the word its form starts with, and the step stands on the form's line.
\<close>

theorem step_keeps_name_and_line:
  assumes "parse_step rules node = Ok st"
  shows "\<exists>vs. sx_list node = Some vs \<and> head_atom vs = Some (command_kind (st_command st)) \<and> st_line st = sx_line node"
  using assms parse_command_kind by (fastforce simp: parse_step_def require_list_def)

theorem step_keeps_name_and_line_witness:
  "\<exists>vs. sx_list (Lst [Atom ''remove-file'' 7, Str ''n'' 1] 7) = Some vs \<and>
     head_atom vs = Some (command_kind (CmdRemoveFile ''n'')) \<and> 7 = sx_line (Lst [Atom ''remove-file'' 7, Str ''n'' 1] 7)"
proof -
  have "parse_step plain_rules (Lst [Atom ''remove-file'' 7, Str ''n'' 1] 7) = Ok \<lparr>st_line = 7, st_command = CmdRemoveFile ''n''\<rparr>"
    by (simp add: parse_step_def require_list_def sample_steps [unfolded One_nat_def])
  from step_keeps_name_and_line [OF this] show ?thesis by simp
qed

end
