(* ===== verification/SpecLines.thy ===== *)
theory SpecLines
  imports SpecReader
begin

text \<open>
  Every line the reader gives out, on an expression or in an error, is a line of the source: the
  line count never passes the line breaks that have been read.
\<close>

section \<open>Lines\<close>

definition breaks :: "string \<Rightarrow> nat" where
  "breaks s = length (filter (\<lambda>c. c = newline) s)"

text \<open>The lines of a source, from 1.\<close>

definition source_lines :: "string \<Rightarrow> nat set" where
  "source_lines source = {1..Suc (breaks source)}"

fun placed :: "nat set \<Rightarrow> sexpr \<Rightarrow> bool" where
  "placed L (Atom v l) \<longleftrightarrow> l \<in> L"
| "placed L (Str v l) \<longleftrightarrow> l \<in> L"
| "placed L (Lst vs l) \<longleftrightarrow> l \<in> L \<and> (\<forall>v \<in> set vs. placed L v)"

lemma placed_line: "placed L x \<Longrightarrow> sx_line x \<in> L"
  by (cases x) auto

definition within_lines :: "nat \<Rightarrow> reader \<Rightarrow> bool" where
  "within_lines n p \<longleftrightarrow> 1 \<le> rd_line p \<and> rd_line p + breaks (ahead p) \<le> n"

definition located :: "nat set \<Rightarrow> (parse_error, 'a) outcome \<Rightarrow> bool" where
  "located L r \<longleftrightarrow> (\<forall>e. r = Err e \<longrightarrow> pe_line e \<in> L)"

lemma breaks_drop: "breaks (drop k s) \<le> breaks s"
proof -
  have "breaks (take k s @ drop k s) = breaks (take k s) + breaks (drop k s)"
    by (simp only: breaks_def filter_append length_append)
  then show ?thesis by simp
qed

lemma breaks_tl: "breaks (tl s) \<le> breaks s"
  using breaks_drop [of 1 s] by (simp add: drop_Suc)

lemma within_past: "within_lines n p \<Longrightarrow> within_lines n (past p)"
  using breaks_tl [of "ahead p"] unfolding within_lines_def ahead_past by (simp add: past_def)

lemma within_counting: "within_lines n p \<Longrightarrow> peek p = Some c \<Longrightarrow> within_lines n (past_counting c p)"
  using within_past [of n p]
  by (auto simp: within_lines_def peek_ahead past_counting_def past_def ahead_def breaks_def drop_Suc
      tl_drop [symmetric] split: list.splits)

lemma within_error: "within_lines n p \<Longrightarrow> pe_line (reader_error p m) \<in> {1..n}"
  by (simp add: within_lines_def reader_error_def)

lemma within_line: "within_lines n p \<Longrightarrow> rd_line p \<in> {1..n}"
  by (simp add: within_lines_def)

lemma within_further:
  "within_lines n p \<Longrightarrow> rd_line q = rd_line p \<Longrightarrow> rd_bytes q = rd_bytes p \<Longrightarrow> rd_index p \<le> rd_index q \<Longrightarrow> within_lines n q"
  using breaks_drop [of "rd_index q - rd_index p" "ahead p"] by (simp add: within_lines_def ahead_def)

lemma within_spaces: "within_lines n p \<Longrightarrow> within_lines n (skip_spaces p)"
proof (induction p rule: skip_spaces.induct)
  case (1 p)
  then show ?case using within_counting [of n p] by (subst skip_spaces.simps) (auto split: option.split)
qed

lemma within_comment: "within_lines n p \<Longrightarrow> within_lines n (skip_comment p)"
proof (induction p rule: skip_comment.induct)
  case (1 p)
  then show ?case using within_counting [of n p] within_past [of n p]
    by (subst skip_comment.simps) (auto split: option.split)
qed

lemma within_skip: "within_lines n p \<Longrightarrow> within_lines n (skip_space_and_comments p)"
proof (induction p rule: skip_space_and_comments.induct)
  case (1 p)
  note spaces = within_spaces [OF 1(2)]
  show ?case using 1(1) [OF refl _ within_comment [OF spaces]] spaces
    by (subst skip_space_and_comments.simps) (simp add: Let_def)
qed

lemma within_atom_end: "within_lines n p \<Longrightarrow> within_lines n (atom_end p)"
proof (induction p rule: atom_end.induct)
  case (1 p)
  then show ?case using within_past [of n p] by (subst atom_end.simps) (auto split: option.split)
qed

section \<open>Strings\<close>

lemma within_string_step:
  assumes "within_lines n p"
  shows "(\<exists>e. read_string p acc = Err e \<and> pe_line e \<in> {1..n}) \<or> (\<exists>v q. read_string p acc = Ok (v, q) \<and> within_lines n q) \<or>
    (\<exists>p' acc'. read_string p acc = read_string p' acc' \<and> left p' < left p \<and> within_lines n p')"
proof (cases "peek p")
  case None
  then show ?thesis using within_error [OF assms] by (subst read_string.simps) simp
next
  case (Some c)
  note past = within_past [OF assms] and past2 = within_past [OF within_past [OF assms]]
    and counting = within_counting [OF assms Some]
  have less: "left (past p) < left p" "left (past (past p)) < left p" "left (past_counting c p) < left p"
    using peek_left [OF Some] by simp_all
  consider "c = quote" | "c = backslash" | "c \<noteq> quote" "c \<noteq> backslash" "(of_char c :: nat) < 128"
    | "c \<noteq> quote" "c \<noteq> backslash" "\<not> (of_char c :: nat) < 128" by blast
  then show ?thesis
  proof cases
    case 1
    then have "read_string p acc = Ok (acc, past p)" using Some by (subst read_string.simps) (simp add: Let_def)
    then show ?thesis using past by auto
  next
    case 2
    then have "read_string p acc =
        (case peek (past p) of
                None \<Rightarrow> Err (reader_error (past p) ''unterminated escape'')
              | Some e \<Rightarrow>
                  (case escaped_char e of
                     None \<Rightarrow> Err (reader_error (past (past p)) ''unsupported string escape'')
                   | Some v \<Rightarrow> read_string (past (past p)) (acc @ [v])))"
      using Some by (subst read_string.simps) (simp add: Let_def)
    then show ?thesis using less past2 within_error [OF past] within_error [OF past2]
      by (auto split: option.splits)
  next
    case 3
    then have "read_string p acc = read_string (past_counting c p) (acc @ [c])"
      using Some by (subst read_string.simps) (simp add: Let_def)
    then show ?thesis using less counting by blast
  next
    case 4
    let ?q = "\<lambda>width. (past p)\<lparr>rd_index := rd_index p + width\<rparr>"
    have step: "left (?q width) < left p \<and> within_lines n (?q width)" if "utf8_width c = Some width" for width
      using that peek_left [OF Some] within_further [OF assms, of "?q width"]
      by (auto simp: left_def past_def utf8_width_def Let_def split: if_splits)
    have "read_string p acc =
        (case utf8_width c of
                None \<Rightarrow> Err (reader_error (past p) ''invalid UTF-8'')
              | Some width \<Rightarrow>
                  (let start = rd_index p; slice = take width (drop start (rd_bytes p)) in
                   if start + width > length (rd_bytes p) then Err (reader_error (past p) ''invalid UTF-8'')
                   else if \<not> from_utf8 slice then Err (reader_error (past p) ''invalid UTF-8'')
                   else read_string (?q width) (acc @ slice)))"
      using 4 Some by (subst read_string.simps) (simp add: Let_def split: option.split)
    then show ?thesis using step within_error [OF past] by (auto simp: Let_def split: option.splits if_splits)
  qed
qed

lemma within_string:
  "within_lines n p \<Longrightarrow> located {1..n} (read_string p acc) \<and> (\<forall>v q. read_string p acc = Ok (v, q) \<longrightarrow> within_lines n q)"
proof (induction p arbitrary: acc rule: measure_induct_rule [of left])
  case (less p)
  from within_string_step [OF less(2), of acc] show ?case
  proof (elim disjE exE conjE)
    fix p' acc'
    assume "read_string p acc = read_string p' acc'" "left p' < left p" "within_lines n p'"
    with less(1) [of p' acc'] show ?thesis by simp
  qed (auto simp: located_def)
qed

section \<open>Expressions\<close>

fun job_placed :: "nat set \<Rightarrow> job \<Rightarrow> bool" where
  "job_placed L (Expression depth) \<longleftrightarrow> True"
| "job_placed L (Items depth items line) \<longleftrightarrow> line \<in> L \<and> (\<forall>x \<in> set items. placed L x)"

definition read_placed :: "nat \<Rightarrow> (parse_error, sexpr \<times> reader) outcome \<Rightarrow> bool" where
  "read_placed n r \<longleftrightarrow> located {1..n} r \<and> (\<forall>x q. r = Ok (x, q) \<longrightarrow> placed {1..n} x \<and> within_lines n q)"

lemma read_placed_intros:
  "within_lines n p \<Longrightarrow> read_placed n (Err (reader_error p m))"
  "placed {1..n} x \<Longrightarrow> within_lines n q \<Longrightarrow> read_placed n (Ok (x, q))"
  using within_error [of n p m] by (simp_all add: read_placed_def located_def)

lemma read_placed_string:
  assumes "within_lines n p" and "line \<in> {1..n}"
  shows "read_placed n (obind (read_string p acc) (\<lambda>(v, p). Ok (Str v line, p)))"
  using within_string [OF assms(1), of acc] assms(2)
  by (cases "read_string p acc") (auto simp: read_placed_def located_def)

lemma read_placed_atom: "within_lines n p \<Longrightarrow> line \<in> {1..n} \<Longrightarrow> read_placed n (read_atom p line)"
  using within_atom_end [of n p] unfolding read_atom_def Let_def by (auto intro!: read_placed_intros)

definition lines_kept :: "nat \<Rightarrow> job \<Rightarrow> reader \<Rightarrow> (parse_error, sexpr \<times> reader) outcome \<Rightarrow> bool" where
  "lines_kept n job p r \<longleftrightarrow> (job_placed {1..n} job \<longrightarrow> within_lines n p \<longrightarrow> read_placed n r)"

lemma read_job_lines:
  assumes "read_job job p = Some r"
  shows "lines_kept n job p r"
proof (rule read_job.raw_induct [of "lines_kept n", OF _ assms], goal_cases body)
  case (body walk job p r)
  have walked: "read_placed n r'" if "walk job' p' = Some r'" "job_placed {1..n} job'" "within_lines n p'" for job' p' r'
    using body(1) [OF that(1)] that(2,3) by (simp add: lines_kept_def)
  show ?case unfolding lines_kept_def
  proof (intro impI)
    assume job: "job_placed {1..n} job" and p: "within_lines n p"
    define p1 where "p1 = p\<lparr>rd_expressions := rd_expressions p + 1\<rparr>"
    have p1: "within_lines n p1" using p by (simp add: p1_def within_lines_def ahead_def)
    show "read_placed n r"
    proof (cases job)
      case (Expression depth)
      define q where "q = skip_space_and_comments p1"
      have q: "within_lines n q" unfolding q_def by (rule within_skip [OF p1])
      note line = within_line [OF q] and past = within_past [OF q]
      show ?thesis
      proof (cases "depth > max_nesting_depth \<or> rd_expressions p1 > max_expressions \<or> peek q = None")
        case True
        then have "\<exists>s m. r = Err (reader_error s m) \<and> (s = p \<or> s = p1 \<or> s = q)"
          using body(2) unfolding Expression p1_def q_def by (auto simp: Let_def split: if_splits)
        then show ?thesis using p p1 q read_placed_intros(1) by metis
      next
        case False
        then obtain c where c: "peek q = Some c" by auto
        have r: "(if c = CHR ''('' then walk (Items depth [] (rd_line q)) (past q)
             else if c = quote then Some (obind (read_string (past q) []) (\<lambda>(v, p). Ok (Str v (rd_line q), p)))
             else if c = CHR '')'' then Some (Err (reader_error q (''unexpected '' @ [CHR 0x27, CHR '')'', CHR 0x27])))
             else Some (read_atom q (rd_line q))) = Some r"
          using body(2) False c Expression by (auto simp: Let_def q_def p1_def split: if_splits)
        show ?thesis
        proof (cases "c = CHR ''(''")
          case True
          with r have "walk (Items depth [] (rd_line q)) (past q) = Some r" by simp
          then show ?thesis by (rule walked) (use line past in simp_all)
        next
          case False
          then show ?thesis using r read_placed_string [OF past line, of "[]"] read_placed_atom [OF q line] read_placed_intros(1) [OF q]
            by (auto split: if_splits)
        qed
      qed
    next
      case (Items depth items line)
      define q where "q = skip_space_and_comments p"
      have q: "within_lines n q" unfolding q_def by (rule within_skip [OF p])
      show ?thesis
      proof (cases "peek q = None \<or> peek q = Some (CHR '')'')")
        case True
        then have "(\<exists>m. r = Err (reader_error q m)) \<or> r = Ok (Lst items line, past q)"
          using body(2) unfolding Items q_def by (auto simp: Let_def)
        then show ?thesis using read_placed_intros(1) [OF q] read_placed_intros(2) [OF _ within_past [OF q], of "Lst items line"] job
          unfolding Items by auto
      next
        case False
        then have "do {
              r \<leftarrow> walk (Expression (depth + 1)) q;
              case r of
                Err e \<Rightarrow> Some (Err e)
              | Panic \<Rightarrow> Some Panic
              | Ok (item, p) \<Rightarrow> walk (Items depth (items @ [item]) line) p
            } = Some r"
          using body(2) unfolding Items q_def by (auto simp: Let_def)
        then obtain r1 where r1: "walk (Expression (depth + 1)) q = Some r1"
          and r: "(case r1 of Err e \<Rightarrow> Some (Err e) | Panic \<Rightarrow> Some Panic
              | Ok (item, p) \<Rightarrow> walk (Items depth (items @ [item]) line) p) = Some r"
          by (auto simp: bind_eq_Some_conv)
        have first: "read_placed n r1" by (rule walked [OF r1]) (use q in simp_all)
        show ?thesis
        proof (cases r1)
          case (Ok a)
          obtain item p' where a: "a = (item, p')" by (cases a)
          with r Ok have "walk (Items depth (items @ [item]) line) p' = Some r" by simp
          then show ?thesis by (rule walked) (use first job in \<open>auto simp: Ok a Items read_placed_def\<close>)
        qed (use r first in \<open>auto simp: read_placed_def located_def\<close>)
      qed
    qed
  qed
qed

lemma read_source_lines:
  assumes "read_source source = Some r"
  shows "located (source_lines source) r \<and> (\<forall>x. r = Ok x \<longrightarrow> placed (source_lines source) x)"
proof -
  let ?n = "Suc (breaks source)"
  have start: "within_lines ?n (reader_new source)" by (simp add: within_lines_def reader_new_def ahead_def)
  have read: "read_placed ?n r'" if "read_expression (reader_new source) = Some r'" for r'
    using read_job_lines [of "Expression 0" "reader_new source" r' ?n] that start
    by (simp add: lines_kept_def read_expression_def)
  show ?thesis
  proof (cases "length source > max_source_bytes")
    case True
    then show ?thesis using assms by (auto simp: read_source_def located_def source_lines_def)
  next
    case False
    with assms obtain r' where r': "read_expression (reader_new source) = Some r'"
      and r: "r = obind r' (\<lambda>(root, p).
          let p = skip_space_and_comments p in
          if peek p \<noteq> None then Err (reader_error p ''expected exactly one top-level form'') else Ok root)"
      by (auto simp: read_source_def)
    from read [OF r'] r show ?thesis
    proof (cases r')
      case (Ok a)
      obtain x p where a: "a = (x, p)" by (cases a)
      have x: "placed {1..?n} x" "within_lines ?n (skip_space_and_comments p)"
        using read [OF r'] within_skip by (auto simp: Ok a read_placed_def)
      show ?thesis using x within_error [OF x(2)]
        unfolding r Ok a located_def source_lines_def by (auto simp: Let_def split: if_splits)
    qed (auto simp: read_placed_def located_def source_lines_def)
  qed
qed

end
