(* ===== verification/SpecErrors.thy ===== *)
theory SpecErrors
  imports SpecLines SpecPrint SpecArms
begin

text \<open>Every error of decoding is on a line of the source.\<close>

section \<open>Nodes\<close>

definition all_placed :: "nat set \<Rightarrow> sexpr list \<Rightarrow> bool" where
  "all_placed L vs \<longleftrightarrow> (\<forall>v \<in> set vs. placed L v)"

definition pairs_placed :: "nat set \<Rightarrow> (string \<times> sexpr) list \<Rightarrow> bool" where
  "pairs_placed L pairs \<longleftrightarrow> all_placed L (map snd pairs)"

named_theorems located_intro \<open>operations whose errors are on the lines of their nodes\<close>

lemma placed_parts [located_intro]:
  "all_placed L vs \<Longrightarrow> all_placed L (tl vs)" "all_placed L vs \<Longrightarrow> all_placed L (drop k vs)"
  "all_placed L vs \<Longrightarrow> k < length vs \<Longrightarrow> placed L (vs ! k)"
  by (auto simp: all_placed_def dest: in_set_dropD list.set_sel(2) [rotated]) (cases vs; auto)

lemma placed_pair: "pairs_placed L pairs \<Longrightarrow> map_of pairs key = Some x \<Longrightarrow> placed L x"
  by (auto simp: pairs_placed_def all_placed_def dest!: map_of_SomeD)

lemma placed_list: "placed L x \<Longrightarrow> require_list x what = Ok vs \<Longrightarrow> all_placed L vs"
  "placed L x \<Longrightarrow> sx_list x = Some vs \<Longrightarrow> all_placed L vs"
  by (cases x; auto simp: require_list_def all_placed_def)+

lemma located_basic [located_intro]:
  "located L (Ok a)" "placed L x \<Longrightarrow> located L (Err (node_error x msg))" "placed L x \<Longrightarrow> located L (ok_or v (node_error x msg))"
  "located L m \<Longrightarrow> (\<And>a. m = Ok a \<Longrightarrow> located L (f a)) \<Longrightarrow> located L (obind m f)"
  "(b \<Longrightarrow> located L r) \<Longrightarrow> (\<not> b \<Longrightarrow> located L s) \<Longrightarrow> located L (if b then r else s)"
  using placed_line [of L x]
  by (auto simp: located_def node_error_def ok_or_def obind_eq_Err split: option.splits)

lemma located_option [located_intro]:
  "(x = None \<Longrightarrow> located L r) \<Longrightarrow> (\<And>a. x = Some a \<Longrightarrow> located L (f a)) \<Longrightarrow> located L (case x of None \<Rightarrow> r | Some a \<Rightarrow> f a)"
  by (cases x) auto

lemma located_collect: "(\<And>x. x \<in> set xs \<Longrightarrow> located L (f x)) \<Longrightarrow> located L (collect f xs)"
  by (induction xs) (auto intro!: located_intro)

lemma located_collected [located_intro]:
  "all_placed L xs \<Longrightarrow> (\<And>x. placed L x \<Longrightarrow> located L (f x)) \<Longrightarrow> located L (collect f xs)"
  by (rule located_collect) (simp add: all_placed_def)

lemma located_needs [located_intro]:
  assumes "placed L node"
  shows "located L (require_list node what)" "located L (need_atom node m)" "located L (need_string node m)"
    "located L (need_u64 node m m')" "located L (need_u32 node m m')" "located L (parse_i32 node m)"
    "located L (parse_non_negative node m)"
  using assms unfolding require_list_def need_atom_def need_string_def need_u64_def need_u32_def parse_i32_def
    parse_non_negative_def
  by (auto intro!: located_intro)

lemma located_counters [located_intro]:
  "all_placed L nodes \<Longrightarrow> located L (counters what nodes)" "all_placed L nodes \<Longrightarrow> located L (optional_counters what nodes)"
  unfolding counters_def optional_counters_def by (rule located_collected; auto intro!: located_intro)+

section \<open>Locators\<close>

lemma located_role [located_intro]: "placed L node \<Longrightarrow> located L (parse_role node vs)"
  unfolding parse_role_def by (auto intro!: located_intro split: list.split option.split)

lemma located_chord [located_intro]: "placed L node \<Longrightarrow> located L (chord_locator node form spelling build x)"
proof -
  assume "placed L node"
  then have "located L (case spelling w of Ok c \<Rightarrow> Ok (build c) | Err d \<Rightarrow> Err (node_error node (form @ '' locator: '' @ d)) | Panic \<Rightarrow> Panic)" for w
    by (cases "spelling w") (auto intro: located_intro simp: located_def [of L Panic])
  with \<open>placed L node\<close> show ?thesis unfolding chord_locator_def by (auto intro!: located_intro)
qed

lemma located_simple [located_intro]: "placed L node \<Longrightarrow> located L (parse_simple_locator rules node head vs)"
  unfolding parse_simple_locator_def string_locator_def by (auto intro!: located_intro)

lemma located_locator [located_intro]: "placed L node \<Longrightarrow> located L (parse_locator rules node)"
proof (induction rules node rule: parse_locator.induct)
  case (3 rules vs l)
  show ?case
  proof (cases "\<exists>h a t. vs = [h, a, t] \<and> sx_atom h = Some ''within''")
    case True
    then obtain h a t where vs: "vs = [h, a, t]" "sx_atom h = Some ''within''" by blast
    have "located L (parse_locator rules a)" "located L (parse_locator rules t)" using 3 vs by simp_all
    then show ?thesis using vs by (auto intro!: located_intro)
  next
    case False
    have "located L (case vs of
               [_, ancestor, target] \<Rightarrow>
                 obind (parse_locator rules ancestor) (\<lambda>a.
                 obind (parse_locator rules target) (\<lambda>t. Ok (LocWithin a t)))
             | _ \<Rightarrow> Err (node_error (Lst vs l) ''within requires an ancestor and a target locator''))"
      if "head_atom vs = Some ''within''"
      using False that 3(3) by (auto intro!: located_intro split: list.split)
    then show ?thesis using 3(3) by (auto intro!: located_intro split: option.split)
  qed
qed (auto intro!: located_intro)

lemma located_region [located_intro]: "placed L node \<Longrightarrow> located L (parse_region rules node)"
  using placed_list [of L node] unfolding parse_region_def by (auto intro!: located_intro)

section \<open>Keywords\<close>

lemma located_keywords [located_intro]: "all_placed L vs \<Longrightarrow> located L (parse_keywords head allowed vs pairs)"
proof (induction head allowed vs pairs rule: parse_keywords.induct)
  case (2 head allowed k rest pairs)
  then show ?case
    by (cases rest) (auto simp: all_placed_def intro!: located_intro split: option.split)
qed (auto intro: located_intro)

lemma keywords_placed:
  "parse_keywords head allowed vs pairs = Ok pairs' \<Longrightarrow> all_placed L vs \<Longrightarrow> pairs_placed L pairs \<Longrightarrow> pairs_placed L pairs'"
proof (induction head allowed vs pairs rule: parse_keywords.induct)
  case (2 head allowed k rest pairs)
  then show ?case
    by (cases rest) (auto simp: all_placed_def pairs_placed_def split: option.splits if_splits)
qed simp

lemma located_keyword [located_intro]:
  assumes "pairs_placed L pairs"
  shows "located L (keyword_u64 pairs key)" "located L (keyword_u32_in head pairs key lo hi)"
  using placed_pair [OF assms] unfolding keyword_u64_def keyword_u32_in_def by (auto intro!: located_intro)

section \<open>Steps\<close>

lemma located_parts [located_intro]:
  assumes "placed L node"
  shows "located L (parse_dimension node m)"
    "pairs_placed L pairs \<Longrightarrow> located L (parse_bounds node pairs)"
    "pairs_placed L pairs \<Longrightarrow> located L (parse_rows node pairs)"
    "pairs_placed L pairs \<Longrightarrow> located L (parse_native_work node pairs)"
    "pairs_placed L pairs \<Longrightarrow> located L (parse_motion rules node pairs)"
  using assms placed_pair [of L pairs]
  unfolding parse_dimension_def parse_bounds_def parse_rows_def parse_native_work_def parse_motion_def Let_def
  by (auto intro!: located_intro located_collect split: option.split)

lemma located_ints [located_intro]:
  "all_placed L vs \<Longrightarrow> length vs = 6 \<Longrightarrow> located L (four_ints vs m m' build)"
  "all_placed L vs \<Longrightarrow> length vs = 2 \<Longrightarrow> located L (file_counter vs build')"
  "placed L node \<Longrightarrow> all_placed L vs \<Longrightarrow> length vs = 7 \<Longrightarrow> located L (parse_patch_claim node vs)"
  unfolding four_ints_def file_counter_def parse_patch_claim_def by (auto intro!: located_intro)

lemma located_grant_text [located_intro]:
  "placed L node \<Longrightarrow> located L (grant_string node name)" "placed L node \<Longrightarrow> located L (grant_path node name)"
  unfolding grant_path_def grant_string_def by (auto intro!: located_intro)

lemma located_theme [located_intro]: "placed L node \<Longrightarrow> located L (parse_theme node vs)"
  unfolding parse_theme_def by (auto intro!: located_intro)

lemma located_work [located_intro]: "all_placed L vs \<Longrightarrow> located L (component_work vs expected)"
  by (induction vs expected rule: component_work.induct) (auto simp: all_placed_def intro!: located_intro)

lemma pairs_placed_Nil [located_intro]: "pairs_placed L []"
  by (simp add: pairs_placed_def all_placed_def)

definition located_arm :: "nat set \<Rightarrow> arm \<Rightarrow> bool" where
  "located_arm L a \<longleftrightarrow> (fst (snd a) \<longrightarrow> located L (snd (snd a)))"

lemma located_armI: "(guard \<Longrightarrow> located L result) \<Longrightarrow> located_arm L (name, guard, result)"
  by (simp add: located_arm_def)

lemma located_arms:
  assumes node: "placed L node" and vs: "all_placed L vs" "vs \<noteq> []"
  shows "list_all (located_arm L) (step_arms rules node vs)"
proof -
  note k = keywords_placed [OF _ _ pairs_placed_Nil]
  have "list_all (located_arm L) (input_arms rules vs)"
    unfolding input_arms_def Let_def list.pred_inject
    by (intro conjI list.pred_inject(1) located_armI located_intro vs; simp add: vs(2))
  moreover have "list_all (located_arm L) (window_arms rules node vs)"
    unfolding window_arms_def Let_def list.pred_inject
    by (intro conjI list.pred_inject(1) located_armI located_intro vs node; (erule k; intro located_intro vs)?;
      (drule k [OF _ placed_parts(2) [OF vs(1)]], erule (1) placed_pair)?; simp?)
  moreover have "list_all (located_arm L) (environment_arms vs)"
    unfolding environment_arms_def Let_def list.pred_inject
    by (intro conjI list.pred_inject(1) located_armI located_intro vs; simp add: vs(2))
  moreover have "list_all (located_arm L) (file_arms rules vs)"
    unfolding file_arms_def Let_def list.pred_inject
    by (intro conjI list.pred_inject(1) located_armI located_intro vs; simp add: vs(2))
  moreover have "list_all (located_arm L) (claim_arms rules node vs)"
    unfolding claim_arms_def Let_def list.pred_inject
    by (intro conjI list.pred_inject(1) located_armI located_intro vs node; (erule k; intro located_intro vs)?; simp?)
  ultimately show ?thesis by (simp add: step_arms_def)
qed

lemma located_command:
  assumes "placed L node" "all_placed L vs" "vs \<noteq> []"
  shows "located L (parse_command rules node head vs)"
proof (cases "List.find (\<lambda>(name, guard, _). name = head \<and> guard) (step_arms rules node vs)")
  case None
  then show ?thesis using assms(1) unfolding parse_command_def by (auto intro!: located_intro)
next
  case (Some a)
  obtain name guard result where a: "a = (name, guard, result)" by (cases a)
  with Some have "guard" "(name, guard, result) \<in> set (step_arms rules node vs)"
    by (auto simp: find_Some_iff in_set_conv_nth)
  with located_arms [OF assms, of rules] have "located L result" by (auto simp: list_all_iff located_arm_def)
  then show ?thesis using Some a by (simp add: parse_command_def)
qed

lemma located_step [located_intro]: "placed L node \<Longrightarrow> located L (parse_step rules node)"
proof -
  assume node: "placed L node"
  have "located L (parse_command rules node head vs)" if "require_list node ''step'' = Ok vs" "head_atom vs = Some head" for head vs
    by (rule located_command [OF node placed_list(1) [OF node that(1)]]) (use that(2) in auto)
  then show ?thesis using node unfolding parse_step_def by (auto intro!: located_intro)
qed

section \<open>Specifications\<close>

lemma located_recent [located_intro]: "placed L item \<Longrightarrow> located L (parse_recent item)"
  using placed_list(2) [of L item] unfolding parse_recent_def by (auto intro!: located_intro)

lemma located_number [located_intro]: "placed L node \<Longrightarrow> located L (grant_number node x m)"
  unfolding grant_number_def by (rule located_intro)

lemma located_grant_arms:
  assumes "placed L node" "all_placed L vs" "vs \<noteq> []"
  shows "list_all (\<lambda>a. fst (snd a) \<longrightarrow> located L (snd (snd a))) (grant_arms node vs)"
  using assms unfolding grant_arms_def Let_def list.pred_inject
  by (intro conjI list.pred_inject(1)) (auto intro!: located_intro)

lemma located_first:
  assumes "list_all (\<lambda>a. fst (snd a) \<longrightarrow> located L (snd (snd a))) arms" and "located L r"
  shows "located L (case List.find (\<lambda>(name, guard, _). name = head \<and> guard) arms of
      None \<Rightarrow> r | Some (_, _, result) \<Rightarrow> result)"
  using assms(1)
proof (induction arms)
  case (Cons a arms)
  then show ?case by (cases a) auto
qed (simp add: assms(2))

lemma located_grant [located_intro]:
  assumes node: "placed L node" and vs: "all_placed L vs"
  shows "located L (parse_grant node vs)"
proof -
  have "located L (case List.find (\<lambda>(form, guard, _). form = name \<and> guard) (grant_arms node vs) of
       Some (_, _, result) \<Rightarrow> result | None \<Rightarrow> Err (node_error node msg))" if "head_atom vs = Some name" for name msg
    by (rule located_first [OF located_grant_arms [OF node vs]]) (use that node in \<open>auto intro!: located_intro\<close>)
  note found = this
  show ?thesis unfolding parse_grant_def
    by (rule located_basic(4), rule located_basic(3) [OF node]) (use found in \<open>auto split: option.split\<close>)
qed

lemma located_grants [located_intro]: "all_placed L entries \<Longrightarrow> located L (parse_grants entries grants)"
proof (induction entries grants rule: parse_grants.induct)
  case (2 entry rest grants)
  then have entry: "placed L entry" "all_placed L rest" by (simp_all add: all_placed_def)
  then show ?case using 2(1) placed_list(1) [OF entry(1)] by (auto intro!: located_intro)
qed (auto intro: located_intro)

lemma located_fields [located_intro]: "all_placed L vs \<Longrightarrow> located L (benchmark_fields vs seen b)"
proof (induction vs seen b rule: benchmark_fields.induct)
  case (2 k rest seen b)
  have field: "located L (benchmark_field k x key w b)" if "placed L k" "placed L x" for x key w
    unfolding benchmark_field_def parse_u32_def using that by (auto intro!: located_intro)
  show ?case
  proof (cases rest)
    case (Cons x us)
    then show ?thesis using 2 field by (auto simp: all_placed_def intro!: located_intro)
  qed (use 2 in \<open>auto simp: all_placed_def intro!: located_intro\<close>)
qed (auto intro!: located_intro)

lemma located_benchmark [located_intro]: "placed L node \<Longrightarrow> all_placed L vs \<Longrightarrow> located L (parse_benchmark node vs)"
  unfolding parse_benchmark_def by (intro located_intro)

lemma located_sections [located_intro]: "all_placed L vs \<Longrightarrow> located L (parse_sections rules vs s)"
proof (induction rules vs s rule: parse_sections.induct)
  case (2 rules x rest s)
  then have x: "placed L x" "all_placed L rest" by (simp_all add: all_placed_def)
  then show ?case using 2(1) placed_list(1) [OF x(1)] by (auto intro!: located_intro)
qed (auto intro: located_intro)

definition steps_placed :: "nat set \<Rightarrow> step list \<Rightarrow> bool" where
  "steps_placed L steps \<longleftrightarrow> (\<forall>st \<in> set steps. st_line st \<in> L)"



lemma located_checks [located_intro]:
  "placed L root \<Longrightarrow> located L (check_benchmark root policy steps)"
  "placed L root \<Longrightarrow> steps_placed L steps \<Longrightarrow> located L (check_copied root grants steps)"
  unfolding check_benchmark_def check_copied_def Let_def
  by (auto intro!: located_intro simp: find_Some_iff steps_placed_def located_def [of L "Err \<lparr>pe_line = _, pe_message = _\<rparr>"])




end
