(* ===== verification/Grants.thy ===== *)
theory Grants
  imports Prelude SpecGrammar "HOL-Library.AList" "HOL-Library.Product_Lexorder"
begin

text \<open>
  The registry of grants (\<open>grant.rs\<close>): what each handle of a resource may do, how the authority
  arrived, what it was derived from, and which roots have been revoked. Every operation runs under
  the registry's lock, so it is a function on the registry. The hash map is an association list
  with distinct keys; where the code iterates over it, the list's order stands for the table's.
  The counters are 64-bit words and wrap, as the release profile has them.
\<close>

section \<open>Kinds, origins, rights\<close>

datatype grant_kind =
    KindAppData | KindAssets | KindAudio | KindClipboard | KindDevice | KindDirectory | KindDocument
  | KindHttp | KindProcess | KindSqlite | KindSystemMonitor | KindTcp | KindWatch

fun kind_name :: "grant_kind \<Rightarrow> string" where
  "kind_name KindAppData = ''app-data''"
| "kind_name KindAssets = ''assets''"
| "kind_name KindAudio = ''audio''"
| "kind_name KindClipboard = ''clipboard''"
| "kind_name KindDevice = ''device''"
| "kind_name KindDirectory = ''directory''"
| "kind_name KindDocument = ''document''"
| "kind_name KindHttp = ''http''"
| "kind_name KindProcess = ''process''"
| "kind_name KindSqlite = ''sqlite''"
| "kind_name KindSystemMonitor = ''system-monitor''"
| "kind_name KindTcp = ''tcp''"
| "kind_name KindWatch = ''watch''"

text \<open>The derived order of the enumeration, by the order of its variants.\<close>

fun kind_rank :: "grant_kind \<Rightarrow> nat" where
  "kind_rank KindAppData = 0"
| "kind_rank KindAssets = 1"
| "kind_rank KindAudio = 2"
| "kind_rank KindClipboard = 3"
| "kind_rank KindDevice = 4"
| "kind_rank KindDirectory = 5"
| "kind_rank KindDocument = 6"
| "kind_rank KindHttp = 7"
| "kind_rank KindProcess = 8"
| "kind_rank KindSqlite = 9"
| "kind_rank KindSystemMonitor = 10"
| "kind_rank KindTcp = 11"
| "kind_rank KindWatch = 12"

datatype grant_id = GrantId (gid_kind: grant_kind) (gid_number: u64)

lemma kind_rank_inject [simp]: "kind_rank a = kind_rank b \<longleftrightarrow> a = b"
  by (cases a; cases b) simp_all

instantiation grant_id :: linorder
begin

definition less_eq_grant_id :: "grant_id \<Rightarrow> grant_id \<Rightarrow> bool" where
  "a \<le> b \<longleftrightarrow> (kind_rank (gid_kind a), gid_number a) \<le> (kind_rank (gid_kind b), gid_number b)"

definition less_grant_id :: "grant_id \<Rightarrow> grant_id \<Rightarrow> bool" where
  "a < b \<longleftrightarrow> (kind_rank (gid_kind a), gid_number a) < (kind_rank (gid_kind b), gid_number b)"

instance
proof
  fix a b c :: grant_id
  show "a < b \<longleftrightarrow> a \<le> b \<and> \<not> b \<le> a" unfolding less_eq_grant_id_def less_grant_id_def by (rule less_le_not_le)
  show "a \<le> a" by (simp add: less_eq_grant_id_def)
  show "a \<le> b \<Longrightarrow> b \<le> c \<Longrightarrow> a \<le> c" unfolding less_eq_grant_id_def by (rule order_trans)
  show "a \<le> b \<or> b \<le> a" unfolding less_eq_grant_id_def by (rule linear)
  assume "a \<le> b" "b \<le> a"
  then have "(kind_rank (gid_kind a), gid_number a) = (kind_rank (gid_kind b), gid_number b)"
    unfolding less_eq_grant_id_def by (rule antisym)
  then show "a = b" by (simp add: grant_id.expand)
qed

end

datatype enforcement = Brokered | ConsentOnly

fun enforcement_name :: "enforcement \<Rightarrow> string" where
  "enforcement_name Brokered = ''brokered''"
| "enforcement_name ConsentOnly = ''consent-only''"

datatype origin = TrustedSelection enforcement | Dropped enforcement | Provisioned | Automatic

fun origin_label :: "origin \<Rightarrow> string" where
  "origin_label (TrustedSelection _) = ''trusted-selection''"
| "origin_label (Dropped _) = ''drop''"
| "origin_label Provisioned = ''provisioned''"
| "origin_label Automatic = ''automatic''"

fun origin_enforcement :: "origin \<Rightarrow> enforcement" where
  "origin_enforcement (TrustedSelection e) = e"
| "origin_enforcement (Dropped e) = e"
| "origin_enforcement Provisioned = ConsentOnly"
| "origin_enforcement Automatic = ConsentOnly"

datatype lifetime = Session | Remembered

type_synonym rights = u32

definition right_read :: rights where "right_read = push_bit 0 1"
definition right_write :: rights where "right_write = push_bit 1 1"
definition right_list :: rights where "right_list = push_bit 2 1"
definition right_derive :: rights where "right_derive = push_bit 3 1"
definition right_connect :: rights where "right_connect = push_bit 4 1"
definition right_capture :: rights where "right_capture = push_bit 5 1"

unbundle bit_operations_syntax

definition rights_union :: "rights \<Rightarrow> rights \<Rightarrow> rights" where
  "rights_union a b = a OR b"

definition rights_contains :: "rights \<Rightarrow> rights \<Rightarrow> bool" where
  "rights_contains a b \<longleftrightarrow> a AND b = b"

definition rights_names :: "rights \<Rightarrow> string list" where
  "rights_names r =
     map snd (filter (\<lambda>(right, name). rights_contains r right)
       [(right_read, ''read''), (right_write, ''write''), (right_list, ''list''), (right_derive, ''derive''),
        (right_connect, ''connect''), (right_capture, ''capture'')])"

section \<open>Grants\<close>

record grant =
  gr_id :: grant_id
  gr_rights :: rights
  gr_origin :: origin
  gr_lifetime :: lifetime
  gr_parent :: "grant_id option"
  gr_root :: grant_id
  gr_revoked :: bool

definition is_live :: "grant \<Rightarrow> bool" where
  "is_live g \<longleftrightarrow> \<not> gr_revoked g"

definition describe :: "grant \<Rightarrow> string" where
  "describe g =
     kind_name (gid_kind (gr_id g)) @ '' '' @ origin_label (gr_origin g) @ ''/'' @
     enforcement_name (origin_enforcement (gr_origin g)) @ '' '' @
     (if gr_parent g = None then ''root'' else ''derived'') @ '' '' @ join '','' (rights_names (gr_rights g)) @
     (if gr_lifetime g = Remembered then '' remembered'' else []) @
     (if gr_revoked g then '' revoked'' else [])"

record grant_registry =
  gg_grants :: "(grant_id \<times> grant) list"
  gg_revoked_roots :: "grant_id set"
  gg_recorded :: u64
  gg_released :: u64
  gg_revoked :: u64
  gg_denied :: u64
  gg_withdrawn :: "grant_id list"

definition grants_start :: grant_registry where
  "grants_start =
     \<lparr>gg_grants = [], gg_revoked_roots = {}, gg_recorded = 0, gg_released = 0, gg_revoked = 0, gg_denied = 0,
      gg_withdrawn = []\<rparr>"

abbreviation grant_at :: "grant_registry \<Rightarrow> grant_id \<Rightarrow> grant option" where
  "grant_at r \<equiv> map_of (gg_grants r)"

section \<open>Recording\<close>

definition record_root :: "grant_id \<Rightarrow> rights \<Rightarrow> origin \<Rightarrow> lifetime \<Rightarrow> grant_registry \<Rightarrow> grant_registry" where
  "record_root i rs from_where how_long r =
     r\<lparr>gg_recorded := gg_recorded r + 1,
       gg_grants := AList.update i
         \<lparr>gr_id = i, gr_rights = rs, gr_origin = from_where, gr_lifetime = how_long, gr_parent = None, gr_root = i,
          gr_revoked = False\<rparr> (gg_grants r)\<rparr>"

definition record_descendant :: "grant_id \<Rightarrow> rights \<Rightarrow> grant \<Rightarrow> grant_registry \<Rightarrow> bool \<times> grant_registry" where
  "record_descendant i rs p r =
     (if \<not> rights_contains (gr_rights p) right_derive then (False, r)
      else if gr_root p \<in> gg_revoked_roots r then (False, r)
      else (True, r\<lparr>gg_recorded := gg_recorded r + 1,
        gg_grants := AList.update i
          \<lparr>gr_id = i, gr_rights = rs, gr_origin = gr_origin p, gr_lifetime = gr_lifetime p, gr_parent = Some (gr_id p),
           gr_root = gr_root p, gr_revoked = False\<rparr> (gg_grants r)\<rparr>))"

section \<open>Accepting\<close>

datatype refusal = RefusalUnknown | RefusalRevoked | RefusalRights

text \<open>Whether a grant may act: neither it nor its root has been revoked.\<close>

definition withdrawn :: "grant_registry \<Rightarrow> grant \<Rightarrow> bool" where
  "withdrawn r g \<longleftrightarrow> \<not> is_live g \<or> gr_root g \<in> gg_revoked_roots r"

definition accept :: "grant_id \<Rightarrow> rights \<Rightarrow> grant_registry \<Rightarrow> (refusal, grant) outcome \<times> grant_registry" where
  "accept i needs r =
     (let outcome =
        (case grant_at r i of
           None \<Rightarrow> Err RefusalUnknown
         | Some g \<Rightarrow>
             if withdrawn r g then Err RefusalRevoked
             else if \<not> rights_contains (gr_rights g) needs then Err RefusalRights
             else Ok g)
      in (outcome, case outcome of Err e \<Rightarrow> r\<lparr>gg_denied := gg_denied r + 1\<rparr> | _ \<Rightarrow> r))"

definition is_revoked :: "grant_id \<Rightarrow> grant_registry \<Rightarrow> bool" where
  "is_revoked i r = (case grant_at r i of Some g \<Rightarrow> withdrawn r g | None \<Rightarrow> False)"

definition is_held :: "grant_id \<Rightarrow> grant_registry \<Rightarrow> bool" where
  "is_held i r \<longleftrightarrow> grant_at r i \<noteq> None"

section \<open>Revoking\<close>

text \<open>Marking the grants of a predicate, and how many were not marked before.\<close>

definition mark_revoked :: "(grant \<Rightarrow> bool) \<Rightarrow> (grant_id \<times> grant) list \<Rightarrow> (grant_id \<times> grant) list" where
  "mark_revoked P = AList.map_ran (\<lambda>_ g. if P g \<and> \<not> gr_revoked g then g\<lparr>gr_revoked := True\<rparr> else g)"

definition newly_revoked :: "(grant \<Rightarrow> bool) \<Rightarrow> (grant_id \<times> grant) list \<Rightarrow> u64" where
  "newly_revoked P gs = of_nat (length (filter (\<lambda>(_, g). P g \<and> \<not> gr_revoked g) gs))"

definition revoke_in :: "grant_id \<Rightarrow> grant_registry \<Rightarrow> u64 \<times> grant_registry" where
  "revoke_in i r =
     (case grant_at r i of
        None \<Rightarrow> (0, r)
      | Some target \<Rightarrow>
          (let root = gr_root target; count = newly_revoked (\<lambda>g. gr_root g = root) (gg_grants r) in
           (count, r\<lparr>gg_revoked_roots := insert root (gg_revoked_roots r),
                     gg_withdrawn := gg_withdrawn r @ (if gr_lifetime target = Remembered then [root] else []),
                     gg_grants := mark_revoked (\<lambda>g. gr_root g = root) (gg_grants r),
                     gg_revoked := gg_revoked r + count\<rparr>)))"

definition revoke_kind_in :: "grant_kind \<Rightarrow> grant_registry \<Rightarrow> u64 \<times> grant_registry" where
  "revoke_kind_in k r =
     (let gs = map snd (gg_grants r);
          roots = map gr_root (filter (\<lambda>g. gid_kind (gr_root g) = k) gs);
          remembered = map gr_id (filter (\<lambda>g. gid_kind (gr_root g) = k \<and> gr_parent g = None \<and>
                                              gr_lifetime g = Remembered \<and> \<not> gr_revoked g) gs);
          count = newly_revoked (\<lambda>g. gid_kind (gr_root g) = k) (gg_grants r)
      in (count, r\<lparr>gg_withdrawn := gg_withdrawn r @ remembered,
                   gg_revoked_roots := gg_revoked_roots r \<union> set roots,
                   gg_grants := mark_revoked (\<lambda>g. gid_kind (gr_root g) = k) (gg_grants r),
                   gg_revoked := gg_revoked r + count\<rparr>))"

definition take_withdrawn_remembered :: "grant_registry \<Rightarrow> grant_id list \<times> grant_registry" where
  "take_withdrawn_remembered r = (gg_withdrawn r, r\<lparr>gg_withdrawn := []\<rparr>)"

text \<open>
  Revoking answers with the count and with the remembered roots, which it hands to the recent
  list to forget (\<open>recents::forget_withdrawn\<close>); what it does to watches is
  in \<open>Watches\<close>.
\<close>

definition revoke :: "grant_id \<Rightarrow> grant_registry \<Rightarrow> (u64 \<times> grant_id list) \<times> grant_registry" where
  "revoke i r =
     (let (count, r) = revoke_in i r; (roots, r) = take_withdrawn_remembered r in ((count, roots), r))"

definition revoke_kind :: "grant_kind \<Rightarrow> grant_registry \<Rightarrow> (u64 \<times> grant_id list) \<times> grant_registry" where
  "revoke_kind k r =
     (let (count, r) = revoke_kind_in k r; (roots, r) = take_withdrawn_remembered r in ((count, roots), r))"

section \<open>Releasing, remembering, listing\<close>

definition release :: "grant_id \<Rightarrow> grant_registry \<Rightarrow> grant_registry" where
  "release i r =
     (if grant_at r i \<noteq> None
      then r\<lparr>gg_grants := AList.delete i (gg_grants r), gg_released := gg_released r + 1\<rparr> else r)"

definition remember :: "grant_id \<Rightarrow> grant_registry \<Rightarrow> (refusal, grant) outcome \<times> grant_registry" where
  "remember i r =
     (case grant_at r i of
        None \<Rightarrow> (Err RefusalUnknown, r)
      | Some g \<Rightarrow>
          if withdrawn r g then (Err RefusalRevoked, r)
          else if gr_parent g \<noteq> None \<or> gr_origin g = Automatic then (Err RefusalRights, r)
          else
            (Ok (g\<lparr>gr_lifetime := Remembered\<rparr>),
             r\<lparr>gg_grants := AList.map_ran (\<lambda>_ held. if gr_root held = gr_root g then held\<lparr>gr_lifetime := Remembered\<rparr>
                                                  else held) (gg_grants r)\<rparr>))"

definition enumerate_grants :: "grant_registry \<Rightarrow> grant list" where
  "enumerate_grants r = sort_key gr_id (map snd (gg_grants r))"

definition grant_counters :: "grant_registry \<Rightarrow> u64 list" where
  "grant_counters r = [gg_recorded r, gg_released r, gg_revoked r, gg_denied r]"

definition forget_kind :: "grant_kind \<Rightarrow> grant_registry \<Rightarrow> grant_registry" where
  "forget_kind k r =
     r\<lparr>gg_grants := filter (\<lambda>(held, g). gid_kind held \<noteq> k \<and> gid_kind (gr_root g) \<noteq> k) (gg_grants r),
       gg_revoked_roots := {held \<in> gg_revoked_roots r. gid_kind held \<noteq> k}\<rparr>"

end
