(* ===== verification/Recents.thy ===== *)
theory Recents
  imports Grants
begin

text \<open>
  The list of recent files and folders (\<open>recents.rs\<close>): entries the person remembered, most recent
  first, the place and the identity of what each one names, and the text that keeps them between
  runs. The file system is a parameter: what it answers at the instant it is asked. A path is the
  list of its bytes; \<open>u64\<close> keys wrap, as the release profile has them.
\<close>

section \<open>Entries\<close>

definition max_entries :: nat where "max_entries = 128"

definition recents_header :: string where "recents_header = ''roc-gui recent 1''"

datatype entry_kind = EntryFile | EntryDirectory

datatype unavailable =
    AccessDenied | Forgotten | Missing | Replaced | UnavailableRevoked | Unreadable | UnavailableUnsupported

record file_identity =
  fi_device :: u64
  fi_inode :: u64

record recent_entry =
  en_key :: u64
  en_kind :: entry_kind
  en_path :: string
  en_identity :: file_identity
  en_origin :: origin

text \<open>What the file system answers.\<close>

datatype io_error = NotFound | PermissionDenied | OtherError

record file_metadata =
  md_file :: bool
  md_directory :: bool
  md_identity :: file_identity

record file_system =
  fs_symlink_metadata :: "string \<Rightarrow> (io_error, file_metadata) outcome"
  fs_metadata :: "string \<Rightarrow> (io_error, file_metadata) outcome"
  fs_open :: "string \<Rightarrow> (io_error, unit) outcome"
  fs_read_dir :: "string \<Rightarrow> (io_error, unit) outcome"
  fs_canonicalize :: "string \<Rightarrow> (io_error, string) outcome"
  fs_read_to_string :: "string \<Rightarrow> string option"
  fs_error_text :: "io_error \<Rightarrow> string"
  fs_display :: "string \<Rightarrow> string"

text \<open>
  Equality of paths compares their components; the last normal component is the file name.
\<close>

definition same_place :: "string \<Rightarrow> string \<Rightarrow> bool" where
  "same_place p q \<longleftrightarrow>
     (let rooted = (\<lambda>s. s \<noteq> [] \<and> hd s = CHR ''/''); dotted = (\<lambda>s. hd (split_at (CHR ''/'') s) = ''.'')
      in rooted p = rooted q \<and> dotted p = dotted q \<and> normal_components p = normal_components q)"

definition file_name :: "string \<Rightarrow> string option" where
  "file_name path =
     (let parts = normal_components path in if parts = [] \<or> last parts = ''..'' then None else Some (last parts))"

definition entry_name :: "file_system \<Rightarrow> recent_entry \<Rightarrow> string" where
  "entry_name fs e =
     (case file_name (en_path e) of Some name \<Rightarrow> fs_display fs name | None \<Rightarrow> fs_display fs (en_path e))"

section \<open>The text of the list\<close>

fun origin_name :: "origin \<Rightarrow> string" where
  "origin_name (TrustedSelection Brokered) = ''trusted-selection:brokered''"
| "origin_name (TrustedSelection ConsentOnly) = ''trusted-selection:consent-only''"
| "origin_name (Dropped Brokered) = ''drop:brokered''"
| "origin_name (Dropped ConsentOnly) = ''drop:consent-only''"
| "origin_name Provisioned = ''provisioned''"
| "origin_name Automatic = ''automatic''"

definition origin_from :: "string \<Rightarrow> origin option" where
  "origin_from name =
     (if name = ''trusted-selection:brokered'' then Some (TrustedSelection Brokered)
      else if name = ''trusted-selection:consent-only'' then Some (TrustedSelection ConsentOnly)
      else if name = ''drop:brokered'' then Some (Dropped Brokered)
      else if name = ''drop:consent-only'' then Some (Dropped ConsentOnly)
      else if name = ''provisioned'' then Some Provisioned
      else None)"

definition hex_nibble :: "nat \<Rightarrow> char" where
  "hex_nibble d = char_of (if d < 10 then 48 + d else 87 + d)"

definition hex_bytes :: "string \<Rightarrow> string" where
  "hex_bytes bytes = concat (map (\<lambda>c. let b = of_char c in [hex_nibble (b div 16), hex_nibble (b mod 16)]) bytes)"

fun unhex_pairs :: "string \<Rightarrow> string option" where
  "unhex_pairs (a # b # rest) =
     (case parse_unsigned 16 (2 ^ 8) [a, b] of
        None \<Rightarrow> None
      | Some n \<Rightarrow> map_option (Cons (char_of n)) (unhex_pairs rest))"
| "unhex_pairs _ = Some []"

definition unhex :: "string \<Rightarrow> string option" where
  "unhex s = (if odd (length s) then None else unhex_pairs s)"

abbreviation tab :: char where "tab \<equiv> CHR 0x09"

definition kind_text :: "entry_kind \<Rightarrow> string" where
  "kind_text k = (case k of EntryFile \<Rightarrow> ''file'' | EntryDirectory \<Rightarrow> ''directory'')"

definition entry_line :: "recent_entry \<Rightarrow> string" where
  "entry_line e =
     decimal (unat (en_key e)) @ [tab] @ kind_text (en_kind e) @ [tab] @
     decimal (unat (fi_device (en_identity e))) @ [tab] @ decimal (unat (fi_inode (en_identity e))) @ [tab] @
     origin_name (en_origin e) @ [tab] @ hex_bytes (en_path e) @ [newline]"

definition encode_entries :: "recent_entry list \<Rightarrow> string" where
  "encode_entries entries = recents_header @ [newline] @ concat (map entry_line entries)"

text \<open>\<open>str::lines\<close>: a line ends at a line feed, with a carriage return before it dropped.\<close>

definition strip_return :: "string \<Rightarrow> string" where
  "strip_return line = (if line \<noteq> [] \<and> last line = CHR 0x0D then butlast line else line)"

function text_lines :: "string \<Rightarrow> string list" where
  "text_lines s =
     (if s = [] then []
      else
        let line = takeWhile (\<lambda>c. c \<noteq> newline) s; rest = dropWhile (\<lambda>c. c \<noteq> newline) s in
        if rest = [] then [line] else strip_return line # text_lines (tl rest))"
  by pat_completeness auto
termination
proof (relation "measure length")
  fix s line rest :: string
  assume "s \<noteq> []" "rest = dropWhile (\<lambda>c. c \<noteq> newline) s"
  then have "length rest \<le> length s" "0 < length s" by (simp_all add: length_dropWhile_le)
  then have "length rest - 1 < length s" by linarith
  then show "(tl rest, s) \<in> measure length" by simp
qed simp

declare text_lines.simps [simp del]

definition parse_kind :: "string \<Rightarrow> entry_kind option" where
  "parse_kind s = (if s = ''file'' then Some EntryFile else if s = ''directory'' then Some EntryDirectory else None)"

definition parse_entry :: "string \<Rightarrow> recent_entry option" where
  "parse_entry line =
     (case split_at tab line of
        [key, kind, device, inode, from_where, path] \<Rightarrow>
          Option.bind (parse_u64 key) (\<lambda>key.
          Option.bind (parse_kind kind) (\<lambda>kind.
          Option.bind (parse_u64 device) (\<lambda>device.
          Option.bind (parse_u64 inode) (\<lambda>inode.
          Option.bind (origin_from from_where) (\<lambda>from_where.
          Option.bind (unhex path) (\<lambda>path.
          Some \<lparr>en_key = key, en_kind = kind, en_path = path,
                en_identity = \<lparr>fi_device = device, fi_inode = inode\<rparr>, en_origin = from_where\<rparr>))))))
      | _ \<Rightarrow> None)"

definition decode_line :: "recent_entry list \<Rightarrow> string \<Rightarrow> recent_entry list" where
  "decode_line entries line =
     (case parse_entry line of
        Some e \<Rightarrow>
          if list_all (\<lambda>held. en_key held \<noteq> en_key e \<and> \<not> same_place (en_path held) (en_path e)) entries
          then entries @ [e] else entries
      | None \<Rightarrow> entries)"

definition decode_entries :: "string \<Rightarrow> recent_entry list" where
  "decode_entries s =
     (case text_lines s of
        [] \<Rightarrow> []
      | header # rest \<Rightarrow>
          if header \<noteq> recents_header then [] else take max_entries (foldl decode_line [] rest))"

definition load_entries :: "file_system \<Rightarrow> string \<Rightarrow> recent_entry list" where
  "load_entries fs path = (case fs_read_to_string fs path of Some s \<Rightarrow> decode_entries s | None \<Rightarrow> [])"

section \<open>The list\<close>

record recent_store =
  rc_entries :: "recent_entry list"
  rc_next_key :: u64
  rc_backing :: "string option"
  rc_sources :: "grant_id \<rightharpoonup> entry_kind \<times> string"
  rc_held :: "grant_id \<rightharpoonup> u64"
  rc_remembered :: u64
  rc_reopened :: u64
  rc_refused :: u64
  rc_forgotten :: u64
  rc_initial :: "recent_entry list"

definition newest_key :: "recent_entry list \<Rightarrow> u64" where
  "newest_key entries = fold (\<lambda>e. max (en_key e)) entries 0"

definition seed_error :: "file_system \<Rightarrow> string \<Rightarrow> io_error \<Rightarrow> string" where
  "seed_error fs seed e = ''cannot remember '' @ fs_display fs seed @ '': '' @ fs_error_text fs e"

fun map_error :: "('e \<Rightarrow> 'f) \<Rightarrow> ('e, 'a) outcome \<Rightarrow> ('f, 'a) outcome" where
  "map_error f (Ok a) = Ok a"
| "map_error f (Err e) = Err (f e)"
| "map_error f Panic = Panic"

fun seed_recents :: "file_system \<Rightarrow> nat \<Rightarrow> string list \<Rightarrow> recent_entry list \<Rightarrow> (string, recent_entry list) outcome" where
  "seed_recents fs index [] entries = Ok entries"
| "seed_recents fs index (seed # seeds) entries =
     obind (map_error (seed_error fs seed) (fs_canonicalize fs seed)) (\<lambda>path.
     obind (map_error (seed_error fs seed) (fs_metadata fs path)) (\<lambda>metadata.
     obind (if md_directory metadata then Ok EntryDirectory else if md_file metadata then Ok EntryFile
            else Err (''cannot remember '' @ fs_display fs seed @ '': not a file or folder'')) (\<lambda>kind.
     seed_recents fs (index + 1) seeds
       (if list_ex (\<lambda>e. same_place (en_path e) path) entries then entries
        else entries @ [\<lparr>en_key = of_nat index + 1, en_kind = kind, en_path = path, en_identity = md_identity metadata,
                         en_origin = Provisioned\<rparr>]))))"

text \<open>Configuring replaces the list; the counters start again.\<close>

definition configured :: "recent_entry list \<Rightarrow> string option \<Rightarrow> recent_store" where
  "configured entries backing =
     \<lparr>rc_entries = entries, rc_next_key = newest_key entries + 1, rc_backing = backing, rc_sources = Map.empty,
      rc_held = Map.empty, rc_remembered = 0, rc_reopened = 0, rc_refused = 0, rc_forgotten = 0,
      rc_initial = (if backing = None then entries else [])\<rparr>"

definition configure :: "file_system \<Rightarrow> string option \<Rightarrow> string list \<Rightarrow> (string, recent_store) outcome" where
  "configure fs backing seeds =
     (if seeds = []
      then Ok (configured (case backing of Some path \<Rightarrow> load_entries fs path | None \<Rightarrow> []) backing)
      else obind (seed_recents fs 0 seeds []) (\<lambda>entries. Ok (configured (take max_entries entries) None)))"

definition begin_lifecycle :: "recent_store \<Rightarrow> recent_store" where
  "begin_lifecycle s =
     (if rc_backing s = None
      then s\<lparr>rc_entries := rc_initial s, rc_next_key := max (rc_next_key s) (newest_key (rc_initial s) + 1),
             rc_held := Map.empty\<rparr>
      else s)"

definition recent_counters :: "recent_store \<Rightarrow> u64 list" where
  "recent_counters s = [rc_remembered s, rc_reopened s, rc_refused s, rc_forgotten s, of_nat (length (rc_entries s))]"

definition note_source :: "grant_id \<Rightarrow> entry_kind \<Rightarrow> string \<Rightarrow> recent_store \<Rightarrow> recent_store" where
  "note_source i kind path s = s\<lparr>rc_sources := (rc_sources s)(i \<mapsto> (kind, path))\<rparr>"

definition release_source :: "grant_id \<Rightarrow> recent_store \<Rightarrow> recent_store" where
  "release_source i s = s\<lparr>rc_sources := (rc_sources s)(i := None), rc_held := (rc_held s)(i := None)\<rparr>"

section \<open>Checking, remembering, reopening, forgetting\<close>

text \<open>A failure of the file system, as the application hears of it.\<close>

fun io_unavailable :: "io_error \<Rightarrow> unavailable" where
  "io_unavailable NotFound = Missing"
| "io_unavailable PermissionDenied = AccessDenied"
| "io_unavailable OtherError = Unreadable"

definition check_entry :: "file_system \<Rightarrow> recent_entry \<Rightarrow> (unavailable, unit) outcome" where
  "check_entry fs e =
     obind (map_error io_unavailable (fs_symlink_metadata fs (en_path e))) (\<lambda>metadata.
     let kind_matches = (case en_kind e of EntryFile \<Rightarrow> md_file metadata | EntryDirectory \<Rightarrow> md_directory metadata) in
     if \<not> kind_matches \<or> md_identity metadata \<noteq> en_identity e then Err Replaced
     else map_error io_unavailable
       (case en_kind e of EntryFile \<Rightarrow> fs_open fs (en_path e) | EntryDirectory \<Rightarrow> fs_read_dir fs (en_path e)))"

definition list_entries :: "file_system \<Rightarrow> recent_store \<Rightarrow> (u64 \<times> string \<times> entry_kind \<times> (unavailable, unit) outcome) list" where
  "list_entries fs s = map (\<lambda>e. (en_key e, entry_name fs e, en_kind e, check_entry fs e)) (rc_entries s)"

text \<open>The text a change writes to the backing store, when there is one.\<close>

definition written :: "recent_store \<Rightarrow> (string \<times> string) option" where
  "written s = map_option (\<lambda>backing. (backing, encode_entries (rc_entries s))) (rc_backing s)"

text \<open>The entry of a place moves to the front, or a new one is put there.\<close>

definition put_first :: "entry_kind \<Rightarrow> string \<Rightarrow> file_identity \<Rightarrow> origin \<Rightarrow> recent_store \<Rightarrow> u64 \<times> recent_store" where
  "put_first kind path identity from_where s =
     (case List.find (\<lambda>e. same_place (en_path e) path) (rc_entries s) of
        Some e \<Rightarrow>
          (en_key e, s\<lparr>rc_entries := e\<lparr>en_identity := identity, en_kind := kind, en_origin := from_where\<rparr>
                                      # remove1 e (rc_entries s)\<rparr>)
      | None \<Rightarrow>
          (rc_next_key s,
           s\<lparr>rc_entries := \<lparr>en_key = rc_next_key s, en_kind = kind, en_path = path, en_identity = identity,
                            en_origin = from_where\<rparr> # rc_entries s,
             rc_next_key := rc_next_key s + 1\<rparr>))"

definition remember_place :: "grant \<Rightarrow> entry_kind \<Rightarrow> string \<Rightarrow> file_identity \<Rightarrow> recent_store \<Rightarrow> recent_store" where
  "remember_place held kind path identity s =
     (let (key, s) = put_first kind path identity (gr_origin held) s in
      s\<lparr>rc_entries := take max_entries (rc_entries s),
        rc_forgotten := rc_forgotten s + of_nat (length (rc_entries s) - max_entries),
        rc_held := (rc_held s)(gr_id held \<mapsto> key)\<rparr>)"

fun refusal_unavailable :: "refusal \<Rightarrow> unavailable" where
  "refusal_unavailable RefusalRevoked = UnavailableRevoked"
| "refusal_unavailable RefusalUnknown = UnavailableRevoked"
| "refusal_unavailable RefusalRights = UnavailableUnsupported"

definition remember_inner ::
  "file_system \<Rightarrow> grant_id \<Rightarrow> grant_registry \<Rightarrow> recent_store \<Rightarrow>
   (unavailable, (string \<times> string) option) outcome \<times> grant_registry \<times> recent_store" where
  "remember_inner fs i r s =
     (let (held, r) = remember i r in
      case map_error refusal_unavailable held of
        Err e \<Rightarrow> (Err e, r, s)
      | Panic \<Rightarrow> (Panic, r, s)
      | Ok held \<Rightarrow>
          (case rc_sources s (gr_id held) of
             None \<Rightarrow> (Err UnavailableUnsupported, r, s)
           | Some (kind, path) \<Rightarrow>
               (case map_error io_unavailable (fs_metadata fs path) of
                  Err e \<Rightarrow> (Err e, r, s)
                | Panic \<Rightarrow> (Panic, r, s)
                | Ok metadata \<Rightarrow>
                    (let s = remember_place held kind path (md_identity metadata) s in (Ok (written s), r, s)))))"

definition remember_recent ::
  "file_system \<Rightarrow> grant_id \<Rightarrow> grant_registry \<Rightarrow> recent_store \<Rightarrow>
   (unavailable, (string \<times> string) option) outcome \<times> grant_registry \<times> recent_store" where
  "remember_recent fs i r s =
     (let (outcome, r, s) = remember_inner fs i r s in
      (outcome, r,
       case outcome of Ok _ \<Rightarrow> s\<lparr>rc_remembered := rc_remembered s + 1\<rparr> | _ \<Rightarrow> s\<lparr>rc_refused := rc_refused s + 1\<rparr>))"

definition reopen ::
  "file_system \<Rightarrow> u64 \<Rightarrow> entry_kind \<Rightarrow> recent_store \<Rightarrow> (unavailable, string \<times> origin) outcome \<times> recent_store" where
  "reopen fs key kind s =
     (let outcome =
        obind (ok_or (List.find (\<lambda>e. en_key e = key) (rc_entries s)) Forgotten) (\<lambda>e.
        if en_kind e \<noteq> kind then Err UnavailableUnsupported
        else obind (check_entry fs e) (\<lambda>_. Ok (en_path e, en_origin e)))
      in (outcome, case outcome of Err e \<Rightarrow> s\<lparr>rc_refused := rc_refused s + 1\<rparr> | _ \<Rightarrow> s))"

definition reopened :: "u64 \<Rightarrow> grant_id \<Rightarrow> entry_kind \<Rightarrow> string \<Rightarrow> recent_store \<Rightarrow> recent_store" where
  "reopened key i kind path s =
     s\<lparr>rc_reopened := rc_reopened s + 1, rc_sources := (rc_sources s)(i \<mapsto> (kind, path)), rc_held := (rc_held s)(i \<mapsto> key)\<rparr>"

definition forget_entry :: "u64 \<Rightarrow> recent_store \<Rightarrow> (bool \<times> (string \<times> string) option) \<times> recent_store" where
  "forget_entry key s =
     (let kept = filter (\<lambda>e. en_key e \<noteq> key) (rc_entries s) in
      if length kept = length (rc_entries s) then ((False, None), s\<lparr>rc_entries := kept\<rparr>)
      else
        (let s = s\<lparr>rc_entries := kept, rc_forgotten := rc_forgotten s + 1,
                   rc_held := (\<lambda>i. if rc_held s i = Some key then None else rc_held s i)\<rparr>
         in ((True, written s), s)))"

text \<open>The writes of the entries that are forgotten one after the other.\<close>

fun forget_keys :: "u64 list \<Rightarrow> recent_store \<Rightarrow> (string \<times> string) list \<times> recent_store" where
  "forget_keys [] s = ([], s)"
| "forget_keys (key # keys) s =
     (let ((changed, write), s) = forget_entry key s; (writes, s) = forget_keys keys s in
      ((case write of Some w \<Rightarrow> [w] | None \<Rightarrow> []) @ writes, s))"

definition forget_withdrawn :: "grant_id list \<Rightarrow> recent_store \<Rightarrow> (string \<times> string) list \<times> recent_store" where
  "forget_withdrawn roots s =
     (if roots = [] then ([], s) else forget_keys (List.map_filter (rc_held s) roots) s)"

definition entries_for_access :: "file_system \<Rightarrow> recent_store \<Rightarrow> (u64 \<times> string \<times> entry_kind) list" where
  "entries_for_access fs s = map (\<lambda>e. (en_key e, entry_name fs e, en_kind e)) (rc_entries s)"

end
