(* ===== verification/RecentsText.thy ===== *)
theory RecentsText
  imports Recents
begin

text \<open>The text of the list of recent files is read back as the list it was written from.\<close>

section \<open>Numbers\<close>

lemma digits_append:
  "digits radix m (s @ [c]) =
     (case digits radix m s of None \<Rightarrow> None
      | Some n \<Rightarrow> (case digit_of radix c of None \<Rightarrow> None | Some d \<Rightarrow> Some (n * radix + d)))"
  by (induction s arbitrary: m) (auto split: option.splits)

lemma digit_char: "d < 10 \<Longrightarrow> digit_of 10 (char_of (48 + d)) = Some d"
  by (simp add: digit_of_def of_char_of)

definition is_digit :: "char \<Rightarrow> bool" where
  "is_digit c \<longleftrightarrow> (let b = of_char c :: nat in 48 \<le> b \<and> b \<le> 57 \<or> 97 \<le> b \<and> b \<le> 122)"

lemma decimal_digits: "digits 10 0 (decimal n) = Some n \<and> decimal n \<noteq> [] \<and> list_all is_digit (decimal n)"
proof (induction n rule: decimal.induct)
  case (1 n)
  have small: "is_digit (char_of (48 + d))" if "d < 10" for d :: nat
    using that by (simp add: is_digit_def of_char_of)
  show ?case
  proof (cases "n < 10")
    case True
    then show ?thesis using digit_char [of n] small [of n] by (subst (1 2 3) decimal.simps) simp
  next
    case False
    then show ?thesis using 1 digit_char [of "n mod 10"] small [of "n mod 10"]
      by (subst (1 2 3) decimal.simps) (simp add: digits_append)
  qed
qed

lemma digit_plain: "is_digit c \<Longrightarrow> c \<noteq> CHR ''+'' \<and> c \<noteq> tab \<and> c \<noteq> newline \<and> c \<noteq> CHR 0x0D"
  by (auto simp: is_digit_def)

lemma parse_u64_decimal: "parse_u64 (decimal (unat k)) = Some k"
proof -
  note d = decimal_digits [of "unat k"]
  obtain c s where c: "decimal (unat k) = c # s" using d by (cases "decimal (unat k)") auto
  then have "c \<noteq> CHR ''+''" using d digit_plain [of c] by simp
  then have "parse_unsigned 10 (2 ^ 64) (decimal (unat k)) = Some (unat k)"
    using d unsigned_less [of k, where ?'a = nat] by (simp add: parse_unsigned_def parse_digits_def c)
  then show ?thesis by (simp add: parse_u64_def)
qed

section \<open>Bytes\<close>

lemma nibble:
  assumes "d < 16"
  shows "digit_of 16 (hex_nibble d) = Some d" "is_digit (hex_nibble d)" "hex_nibble d \<noteq> CHR ''+''"
  using assms digit_plain [of "hex_nibble d"]
  by (auto simp: digit_of_def hex_nibble_def of_char_of is_digit_def Let_def)

lemma byte_nibbles: "(of_char c :: nat) div 16 < 16" "(of_char c :: nat) mod 16 < 16"
proof -
  have "(of_char c :: nat) < 16 * 16" by simp
  then show "(of_char c :: nat) div 16 < 16" by (rule less_mult_imp_div_less)
qed simp

lemma byte_back: "parse_unsigned 16 256 [hex_nibble (of_char c div 16), hex_nibble (of_char c mod 16)] = Some (of_char c)"
  using nibble [OF byte_nibbles(1) [of c]] nibble [OF byte_nibbles(2) [of c]]
  by (simp add: parse_unsigned_def parse_digits_def)

lemma unhex_hex: "unhex (hex_bytes p) = Some p"
proof -
  have "unhex_pairs (hex_bytes p) = Some p"
    by (induction p) (simp_all add: hex_bytes_def Let_def byte_back)
  moreover have "even (length (hex_bytes p))" by (induction p) (simp_all add: hex_bytes_def Let_def)
  ultimately show ?thesis by (simp add: unhex_def)
qed

lemma hex_plain: "list_all is_digit (hex_bytes p)"
  by (induction p) (simp_all add: hex_bytes_def Let_def nibble byte_nibbles)

section \<open>Lines and fields\<close>

lemma split_at_field: "c \<notin> set s \<Longrightarrow> split_at c (s @ c # t) = s # split_at c t"
proof (induction s)
  case (Cons a s)
  then show ?case by auto
qed simp

lemma split_at_last: "c \<notin> set s \<Longrightarrow> split_at c s = [s]"
  by (induction s) auto

lemma text_lines_line:
  "newline \<notin> set line \<Longrightarrow> text_lines (line @ newline # rest) = strip_return line # text_lines rest"
proof -
  assume "newline \<notin> set line"
  then have "takeWhile (\<lambda>c. c \<noteq> newline) (line @ newline # rest) = line"
    "dropWhile (\<lambda>c. c \<noteq> newline) (line @ newline # rest) = newline # rest"
    by (induction line) auto
  then show ?thesis by (subst text_lines.simps) (simp add: Let_def)
qed

definition no_break :: "string \<Rightarrow> bool" where
  "no_break s \<longleftrightarrow> tab \<notin> set s \<and> newline \<notin> set s \<and> CHR 0x0D \<notin> set s"

lemma digits_no_break: "list_all is_digit s \<Longrightarrow> no_break s"
  using digit_plain by (fastforce simp: no_break_def list_all_iff)

lemma names_no_break: "no_break (kind_text k)" "no_break (origin_name w)"
proof -
  show "no_break (kind_text k)" by (cases k) (simp_all add: kind_text_def no_break_def)
  show "no_break (origin_name w)" by (cases w rule: origin_name.cases) (simp_all add: no_break_def)
qed

definition entry_text :: "recent_entry \<Rightarrow> string" where
  "entry_text e = butlast (entry_line e)"

lemma entry_line_text: "entry_line e = entry_text e @ [newline]"
  by (simp add: entry_text_def entry_line_def butlast_append)

lemma entry_text_fields:
  "entry_text e =
     decimal (unat (en_key e)) @ tab # kind_text (en_kind e) @ tab #
     decimal (unat (fi_device (en_identity e))) @ tab # decimal (unat (fi_inode (en_identity e))) @ tab #
     origin_name (en_origin e) @ tab # hex_bytes (en_path e)"
  by (simp add: entry_text_def entry_line_def butlast_append)

lemma entry_text_plain: "newline \<notin> set (entry_text e)" "CHR 0x0D \<notin> set (entry_text e)"
  using digits_no_break [OF hex_plain, of "en_path e"] names_no_break(1) [of "en_kind e"] names_no_break(2) [of "en_origin e"]
    digits_no_break decimal_digits
  by (auto simp: entry_text_fields no_break_def)

lemma parse_entry_back:
  assumes "en_origin e \<noteq> Automatic"
  shows "parse_entry (entry_text e) = Some e"
proof -
  have plain: "tab \<notin> set (decimal n)" "tab \<notin> set (kind_text k)" "tab \<notin> set (origin_name w)" "tab \<notin> set (hex_bytes p)" for n k w p
    using digits_no_break [of "decimal n"] decimal_digits [of n] names_no_break digits_no_break [OF hex_plain]
    by (auto simp: no_break_def)
  have fields: "split_at tab (entry_text e) =
      [decimal (unat (en_key e)), kind_text (en_kind e), decimal (unat (fi_device (en_identity e))),
       decimal (unat (fi_inode (en_identity e))), origin_name (en_origin e), hex_bytes (en_path e)]"
    unfolding entry_text_fields by (simp add: split_at_field split_at_last plain)
  moreover have "parse_kind (kind_text k) = Some k" for k by (cases k) (simp_all add: parse_kind_def kind_text_def)
  moreover have "origin_from (origin_name (en_origin e)) = Some (en_origin e)"
    using assms by (cases "en_origin e" rule: origin_name.cases) (simp_all add: origin_from_def)
  ultimately show ?thesis by (simp add: parse_entry_def parse_u64_decimal unhex_hex)
qed

section \<open>The list\<close>

text \<open>A list as the host keeps it: few enough, every key and every place once, no automatic grants.\<close>

definition apart :: "recent_entry \<Rightarrow> recent_entry \<Rightarrow> bool" where
  "apart d e \<longleftrightarrow> en_key d \<noteq> en_key e \<and> \<not> same_place (en_path d) (en_path e)"

definition entries_ok :: "recent_entry list \<Rightarrow> bool" where
  "entries_ok es \<longleftrightarrow> length es \<le> max_entries \<and> sorted_wrt apart es \<and> (\<forall>e \<in> set es. en_origin e \<noteq> Automatic)"

lemma same_place_sym: "same_place p q \<Longrightarrow> same_place q p"
  by (simp add: same_place_def Let_def)

lemma same_place_trans: "same_place p q \<Longrightarrow> same_place q r \<Longrightarrow> same_place p r"
  by (simp add: same_place_def Let_def)

lemma same_place_refl [simp]: "same_place p p"
  by (simp add: same_place_def Let_def)

lemma apart_sym: "apart d e \<Longrightarrow> apart e d"
  using same_place_sym by (auto simp: apart_def)

lemma decode_lines_back:
  "sorted_wrt apart (held @ es) \<Longrightarrow> \<forall>e \<in> set es. en_origin e \<noteq> Automatic \<Longrightarrow>
   foldl decode_line held (map entry_text es) = held @ es"
proof (induction es arbitrary: held)
  case (Cons e es)
  have "decode_line held (entry_text e) = held @ [e]"
    using Cons.prems by (auto simp: decode_line_def parse_entry_back sorted_wrt_append list_all_iff apart_def)
  then show ?case using Cons.IH [of "held @ [e]"] Cons.prems by simp
qed simp

lemma text_lines_entries: "text_lines (concat (map entry_line es)) = map entry_text es"
proof (induction es)
  case Nil
  show ?case by (subst text_lines.simps) simp
next
  case (Cons e es)
  have "last (entry_text e) \<noteq> CHR 0x0D" if "entry_text e \<noteq> []"
    using last_in_set [OF that] entry_text_plain(2) [of e] by metis
  then have "strip_return (entry_text e) = entry_text e" unfolding strip_return_def by metis
  then show ?case using Cons text_lines_line [OF entry_text_plain(1)] by (simp add: entry_line_text)
qed

lemma decode_encode: "entries_ok es \<Longrightarrow> decode_entries (encode_entries es) = es"
proof -
  assume ok: "entries_ok es"
  have header: "newline \<notin> set recents_header" "strip_return recents_header = recents_header"
    by (simp_all add: recents_header_def strip_return_def)
  have "text_lines (encode_entries es) = recents_header # map entry_text es"
    unfolding encode_entries_def using text_lines_line [OF header(1)] header(2) text_lines_entries by simp
  moreover have "foldl decode_line [] (map entry_text es) = es"
    using decode_lines_back [of "[]" es] ok unfolding entries_ok_def by simp
  ultimately show ?thesis using ok unfolding decode_entries_def entries_ok_def by simp
qed

text \<open>What is read is always such a list, whatever the text.\<close>

lemma origin_from_kept: "origin_from name = Some w \<Longrightarrow> w \<noteq> Automatic"
  by (auto simp: origin_from_def split: if_splits)

lemma parse_entry_origin: "parse_entry line = Some e \<Longrightarrow> en_origin e \<noteq> Automatic"
  by (auto simp: parse_entry_def origin_from_kept bind_eq_Some_conv split: list.splits)

lemma decode_line_kept:
  assumes "sorted_wrt apart es \<and> (\<forall>e \<in> set es. en_origin e \<noteq> Automatic)"
  shows "sorted_wrt apart (decode_line es line) \<and> (\<forall>e \<in> set (decode_line es line). en_origin e \<noteq> Automatic)"
  using assms parse_entry_origin [of line]
  by (auto simp: decode_line_def sorted_wrt_append list_all_iff apart_def split: option.split)

lemma decode_entries_ok: "entries_ok (decode_entries s)"
proof -
  have kept: "sorted_wrt apart (foldl decode_line es ls) \<and> (\<forall>e \<in> set (foldl decode_line es ls). en_origin e \<noteq> Automatic)"
    if "sorted_wrt apart es \<and> (\<forall>e \<in> set es. en_origin e \<noteq> Automatic)" for es ls
    using that
  proof (induction ls arbitrary: es)
    case (Cons l ls)
    show ?case unfolding foldl_Cons by (rule Cons.IH [OF decode_line_kept [OF Cons.prems]])
  qed simp
  have "entries_ok (take max_entries (foldl decode_line [] ls))" for ls
    using kept [of "[]" ls] unfolding entries_ok_def by (auto simp: sorted_wrt_take dest: in_set_takeD)
  then show ?thesis by (auto simp: decode_entries_def entries_ok_def split: list.split)
qed

end
