(* ===== verification/GrantsCorrect.thy ===== *)
theory GrantsCorrect
  imports Grants
begin

text \<open>
  What holds of the registry of grants however the resources, the application and the person use
  it: authority keeps the origin of the root it descends from, revocation is final and reaches
  what is derived later, and revoking says exactly what it changed.
\<close>

section \<open>The grants and their holders\<close>

text \<open>
  The registry with the copies of grants that its callers hold, from which alone they can derive,
  and the history of the recorded roots.
\<close>

record grant_system =
  gs_registry :: grant_registry
  gs_copies :: "grant set"
  gs_roots :: "(grant_id \<times> origin) set"

definition system_start :: grant_system where
  "system_start = \<lparr>gs_registry = grants_start, gs_copies = {}, gs_roots = {}\<rparr>"

datatype grant_event =
    RecordRoot grant_id rights origin lifetime
  | RecordDescendant grant_id rights grant
  | Accept grant_id rights
  | Revoke grant_id
  | RevokeKind grant_kind
  | Release grant_id
  | Remember grant_id
  | Enumerate
  | ForgetKind grant_kind

definition copies_of :: "(refusal, grant) outcome \<Rightarrow> grant set" where
  "copies_of r = (case r of Ok g \<Rightarrow> {g} | _ \<Rightarrow> {})"

inductive grant_step :: "grant_system \<Rightarrow> grant_event \<Rightarrow> grant_system \<Rightarrow> bool" where
  root: "grant_step s (RecordRoot i rs from_where how_long)
     (s\<lparr>gs_registry := record_root i rs from_where how_long (gs_registry s), gs_roots := insert (i, from_where) (gs_roots s)\<rparr>)"
| descendant: "p \<in> gs_copies s \<Longrightarrow> grant_step s (RecordDescendant i rs p)
     (s\<lparr>gs_registry := snd (record_descendant i rs p (gs_registry s))\<rparr>)"
| accepted: "grant_step s (Accept i needs)
     (s\<lparr>gs_registry := snd (accept i needs (gs_registry s)),
        gs_copies := gs_copies s \<union> copies_of (fst (accept i needs (gs_registry s)))\<rparr>)"
| revoked: "grant_step s (Revoke i) (s\<lparr>gs_registry := snd (revoke i (gs_registry s))\<rparr>)"
| revoked_kind: "grant_step s (RevokeKind k) (s\<lparr>gs_registry := snd (revoke_kind k (gs_registry s))\<rparr>)"
| released: "grant_step s (Release i) (s\<lparr>gs_registry := release i (gs_registry s)\<rparr>)"
| remembered: "grant_step s (Remember i)
     (s\<lparr>gs_registry := snd (remember i (gs_registry s)),
        gs_copies := gs_copies s \<union> copies_of (fst (remember i (gs_registry s)))\<rparr>)"
| enumerated: "grant_step s Enumerate (s\<lparr>gs_copies := gs_copies s \<union> set (enumerate_grants (gs_registry s))\<rparr>)"
| forgot_kind: "grant_step s (ForgetKind k) (s\<lparr>gs_registry := forget_kind k (gs_registry s)\<rparr>)"

inductive grant_run :: "grant_system \<Rightarrow> grant_event list \<Rightarrow> grant_system \<Rightarrow> bool" where
  none: "grant_run s [] s"
| step: "grant_run s es t \<Longrightarrow> grant_step t e u \<Longrightarrow> grant_run s (es @ [e]) u"

section \<open>The table\<close>

lemma grant_at_root:
  "grant_at (record_root i rs from_where how_long r) =
     (grant_at r)(i \<mapsto> \<lparr>gr_id = i, gr_rights = rs, gr_origin = from_where, gr_lifetime = how_long, gr_parent = None, gr_root = i,
          gr_revoked = False\<rparr>)"
  by (simp add: record_root_def AList.update_conv')

lemma grant_at_mark:
  "map_of (mark_revoked P gs) i =
     map_option (\<lambda>g. if P g \<and> \<not> gr_revoked g then g\<lparr>gr_revoked := True\<rparr> else g) (map_of gs i)"
  by (simp add: mark_revoked_def AList.map_ran_conv)

lemma registry_parts [simp]:
  "gg_revoked_roots (record_root i rs from_where how_long r) = gg_revoked_roots r"
  "gg_revoked_roots (snd (record_descendant i rs p r)) = gg_revoked_roots r"
  "gg_revoked_roots (snd (accept i needs r)) = gg_revoked_roots r"
  "gg_grants (snd (accept i needs r)) = gg_grants r"
  "gg_revoked_roots (release i r) = gg_revoked_roots r"
  "gg_revoked_roots (snd (remember i r)) = gg_revoked_roots r"
  by (auto simp: record_root_def record_descendant_def accept_def Let_def release_def remember_def
      split: option.splits outcome.splits)

text \<open>What the registry becomes when it is revoked.\<close>

lemma revoke_parts:
  "grant_at r i = Some g \<Longrightarrow> gg_grants (snd (revoke i r)) = mark_revoked (\<lambda>h. gr_root h = gr_root g) (gg_grants r)"
  "grant_at r i = Some g \<Longrightarrow> gg_revoked_roots (snd (revoke i r)) = insert (gr_root g) (gg_revoked_roots r)"
  "grant_at r i = None \<Longrightarrow> gg_grants (snd (revoke i r)) = gg_grants r"
  "grant_at r i = None \<Longrightarrow> gg_revoked_roots (snd (revoke i r)) = gg_revoked_roots r"
  "gg_grants (snd (revoke_kind k r)) = mark_revoked (\<lambda>g. gid_kind (gr_root g) = k) (gg_grants r)"
  "gg_revoked_roots (snd (revoke_kind k r)) =
     gg_revoked_roots r \<union> {gr_root g |g. g \<in> snd ` set (gg_grants r) \<and> gid_kind (gr_root g) = k}"
  by (auto simp: revoke_def revoke_kind_def revoke_in_def revoke_kind_in_def take_withdrawn_remembered_def Let_def
      split: option.splits)

section \<open>Revocation\<close>

text \<open>A root stays revoked until its kind is configured anew.\<close>

lemma revoked_stays:
  assumes "grant_step s e t" and "e \<noteq> ForgetKind (gid_kind root)" and "root \<in> gg_revoked_roots (gs_registry s)"
  shows "root \<in> gg_revoked_roots (gs_registry t)"
  using assms
proof (cases rule: grant_step.cases)
  case (revoked i)
  then show ?thesis using assms(3) revoke_parts(2,4) [of "gs_registry s" i] by (cases "grant_at (gs_registry s) i") auto
qed (auto simp: revoke_parts forget_kind_def)

lemma revoked_stays_run:
  "grant_run s es t \<Longrightarrow> ForgetKind (gid_kind root) \<notin> set es \<Longrightarrow> root \<in> gg_revoked_roots (gs_registry s) \<Longrightarrow>
   root \<in> gg_revoked_roots (gs_registry t)"
  by (induction rule: grant_run.induct) (use revoked_stays in auto)

lemma accept_root: "fst (accept i needs r) = Ok g \<Longrightarrow> gr_root g \<notin> gg_revoked_roots r \<and> \<not> gr_revoked g"
  by (auto simp: accept_def Let_def withdrawn_def is_live_def split: option.splits if_splits)

text \<open>
  Claim C21: revocation is final: once a grant has been revoked, no operation is accepted against any
  grant that descends from its root, whatever kind it is, and nothing can be derived from a copy
  of such a grant, also one that was handed out before; until the root's kind is configured anew.
\<close>

theorem revocation_is_final:
  assumes "grant_at (gs_registry s) i = Some g"
    and "grant_run (s\<lparr>gs_registry := snd (revoke i (gs_registry s))\<rparr>) es t"
    and "ForgetKind (gid_kind (gr_root g)) \<notin> set es"
  shows "(\<forall>j needs h. fst (accept j needs (gs_registry t)) = Ok h \<longrightarrow> gr_root h \<noteq> gr_root g) \<and>
    (\<forall>j rs p. gr_root p = gr_root g \<longrightarrow> record_descendant j rs p (gs_registry t) = (False, gs_registry t))"
proof -
  have "gr_root g \<in> gg_revoked_roots (gs_registry t)"
    by (rule revoked_stays_run [OF assms(2,3)]) (simp add: revoke_parts assms(1))
  then show ?thesis using accept_root by (fastforce simp: record_descendant_def)
qed

section \<open>Consistency\<close>

definition lineage_ok :: "(grant_id \<times> origin) set \<Rightarrow> grant \<Rightarrow> bool" where
  "lineage_ok roots g \<longleftrightarrow> (gr_root g, gr_origin g) \<in> roots \<and> (gr_parent g = None \<longrightarrow> gr_root g = gr_id g)"

definition grant_ok :: "(grant_id \<times> origin) set \<Rightarrow> grant_id set \<Rightarrow> grant_id \<Rightarrow> grant \<Rightarrow> bool" where
  "grant_ok roots withdrawn_roots i g \<longleftrightarrow>
     gr_id g = i \<and> lineage_ok roots g \<and> (gr_revoked g \<longrightarrow> gr_root g \<in> withdrawn_roots) \<and>
     (gr_root g \<in> withdrawn_roots \<longrightarrow> gr_revoked g \<or> gr_parent g = None)"

definition table_ok :: "(grant_id \<times> origin) set \<Rightarrow> grant_registry \<Rightarrow> bool" where
  "table_ok roots r \<longleftrightarrow>
     (\<forall>i g. grant_at r i = Some g \<longrightarrow> grant_ok roots (gg_revoked_roots r) i g) \<and> distinct (map fst (gg_grants r))"

definition grants_ok :: "grant_system \<Rightarrow> bool" where
  "grants_ok s \<longleftrightarrow> table_ok (gs_roots s) (gs_registry s) \<and> (\<forall>g \<in> gs_copies s. lineage_ok (gs_roots s) g)"

lemma lineage_mono: "lineage_ok roots g \<Longrightarrow> roots \<subseteq> roots' \<Longrightarrow> lineage_ok roots' g"
  by (auto simp: lineage_ok_def)

lemma table_ok_root:
  "table_ok roots r \<Longrightarrow> table_ok (insert (i, from_where) roots) (record_root i rs from_where how_long r)"
  unfolding table_ok_def grant_at_root
  by (auto simp: grant_ok_def lineage_ok_def record_root_def AList.distinct_update split: if_splits simp del: map_of_eq_Some_iff)

lemma table_ok_descendant:
  assumes "table_ok roots r" and "lineage_ok roots p"
  shows "table_ok roots (snd (record_descendant i rs p r))"
  using assms unfolding table_ok_def
  by (auto simp: record_descendant_def AList.update_conv' grant_ok_def lineage_ok_def AList.distinct_update
      split: if_splits simp del: map_of_eq_Some_iff)

lemma table_ok_mark:
  assumes "table_ok roots r" and "gg_grants r' = mark_revoked P (gg_grants r)"
    and "gg_revoked_roots r \<subseteq> gg_revoked_roots r'"
    and "\<And>i g. grant_at r i = Some g \<Longrightarrow> P g \<longleftrightarrow> gr_root g \<in> gg_revoked_roots r' - gg_revoked_roots r \<or> gr_root g \<in> gg_revoked_roots r' \<and> P g"
  shows "table_ok roots r'"
proof -
  have "grant_ok roots (gg_revoked_roots r') i g'" if "grant_at r' i = Some g'" for i g'
  proof -
    from that obtain g where g: "grant_at r i = Some g" "g' = (if P g \<and> \<not> gr_revoked g then g\<lparr>gr_revoked := True\<rparr> else g)"
      unfolding assms(2) grant_at_mark by auto
    have "grant_ok roots (gg_revoked_roots r) i g" using assms(1) g(1) by (simp add: table_ok_def)
    then show ?thesis using g(2) assms(3) assms(4) [OF g(1)] by (auto simp: grant_ok_def lineage_ok_def)
  qed
  moreover have "distinct (map fst (gg_grants r'))"
    using assms(1) by (simp add: table_ok_def assms(2) mark_revoked_def)
  ultimately show ?thesis by (simp add: table_ok_def)
qed

lemma table_ok_revoke: "table_ok roots r \<Longrightarrow> table_ok roots (snd (revoke i r))"
proof (cases "grant_at r i")
  case None
  then show "table_ok roots r \<Longrightarrow> ?thesis" using revoke_parts(3,4) [OF None] by (simp add: table_ok_def)
next
  case (Some g)
  then show "table_ok roots r \<Longrightarrow> ?thesis"
    by (rule_tac table_ok_mark [OF _ revoke_parts(1) [OF Some]]) (auto simp: revoke_parts(2) [OF Some])
qed

lemma table_ok_revoke_kind: "table_ok roots r \<Longrightarrow> table_ok roots (snd (revoke_kind k r))"
proof (rule table_ok_mark [OF _ revoke_parts(5)])
  fix i g
  assume "grant_at r i = Some g"
  then have "g \<in> snd ` set (gg_grants r)" by (auto dest!: map_of_SomeD intro: rev_image_eqI)
  then show "(gid_kind (gr_root g) = k) \<longleftrightarrow>
      gr_root g \<in> gg_revoked_roots (snd (revoke_kind k r)) - gg_revoked_roots r \<or>
      gr_root g \<in> gg_revoked_roots (snd (revoke_kind k r)) \<and> gid_kind (gr_root g) = k"
    by (auto simp: revoke_parts(6))
qed (auto simp: revoke_parts(6))

lemma table_okI:
  assumes "table_ok roots r" and "distinct (map fst (gg_grants r'))"
    and "\<And>i g'. grant_at r' i = Some g' \<Longrightarrow> \<exists>g. grant_at r i = Some g \<and>
        (grant_ok roots (gg_revoked_roots r) i g \<longrightarrow> grant_ok roots (gg_revoked_roots r') i g')"
  shows "table_ok roots r'"
  using assms unfolding table_ok_def by blast

lemma table_ok_release: "table_ok roots r \<Longrightarrow> table_ok roots (release i r)"
  by (rule table_okI)
    (auto simp: release_def AList.delete_conv' AList.distinct_delete table_ok_def split: if_splits simp del: map_of_eq_Some_iff)

lemma remember_table:
  "snd (remember i r) = r \<or>
   (\<exists>root. snd (remember i r) = r\<lparr>gg_grants := AList.map_ran (\<lambda>_ held. if gr_root held = root
      then held\<lparr>gr_lifetime := Remembered\<rparr> else held) (gg_grants r)\<rparr>)"
  by (auto simp: remember_def split: option.split)

lemma table_ok_remember:
  assumes "table_ok roots r"
  shows "table_ok roots (snd (remember i r))"
  using remember_table [of i r]
proof (elim disjE exE)
  fix root
  let ?f = "\<lambda>held. if gr_root held = root then held\<lparr>gr_lifetime := Remembered\<rparr> else held"
  let ?t = "r\<lparr>gg_grants := AList.map_ran (\<lambda>_. ?f) (gg_grants r)\<rparr>"
  assume t: "snd (remember i r) = ?t"
  have "table_ok roots ?t"
  proof (rule table_okI [OF assms])
    show "distinct (map fst (gg_grants ?t))" using assms by (simp add: table_ok_def)
    fix j g'
    assume "grant_at ?t j = Some g'"
    then obtain g where "grant_at r j = Some g" "g' = ?f g" by (auto simp: AList.map_ran_conv)
    then show "\<exists>g. grant_at r j = Some g \<and>
        (grant_ok roots (gg_revoked_roots r) j g \<longrightarrow> grant_ok roots (gg_revoked_roots ?t) j g')"
      by (intro exI [of _ g]) (simp add: grant_ok_def lineage_ok_def)
  qed
  then show ?thesis unfolding t .
qed (simp add: assms)

lemma table_ok_forget: "table_ok roots r \<Longrightarrow> table_ok roots (forget_kind k r)"
proof (rule table_okI)
  fix i g'
  assume ok: "table_ok roots r" and at: "grant_at (forget_kind k r) i = Some g'"
  have "grant_at r i = Some g' \<and> gid_kind (gr_root g') \<noteq> k"
    using map_of_SomeD [OF at] ok by (auto simp: forget_kind_def table_ok_def)
  then show "\<exists>g. grant_at r i = Some g \<and>
      (grant_ok roots (gg_revoked_roots r) i g \<longrightarrow> grant_ok roots (gg_revoked_roots (forget_kind k r)) i g')"
    by (auto simp: forget_kind_def grant_ok_def)
qed (simp_all add: table_ok_def forget_kind_def distinct_map_filter)

lemma copies_lineage:
  assumes "table_ok roots r"
  shows "g \<in> copies_of (fst (accept i needs r)) \<Longrightarrow> lineage_ok roots g"
    and "g \<in> copies_of (fst (remember i r)) \<Longrightarrow> lineage_ok roots g"
    and "g \<in> set (enumerate_grants r) \<Longrightarrow> lineage_ok roots g"
proof -
  have ok: "lineage_ok roots h" if "grant_at r j = Some h" for j h
    using assms that by (auto simp: table_ok_def grant_ok_def)
  show "g \<in> copies_of (fst (accept i needs r)) \<Longrightarrow> lineage_ok roots g"
    using ok [of i] by (auto simp: accept_def copies_of_def Let_def split: option.splits if_splits)
  show "g \<in> copies_of (fst (remember i r)) \<Longrightarrow> lineage_ok roots g"
    using ok [of i] by (auto simp: remember_def copies_of_def lineage_ok_def split: option.splits if_splits)
  assume "g \<in> set (enumerate_grants r)"
  then obtain j where "(j, g) \<in> set (gg_grants r)" by (auto simp: enumerate_grants_def)
  moreover have "distinct (map fst (gg_grants r))" using assms by (simp add: table_ok_def)
  ultimately have "grant_at r j = Some g" by simp
  then show "lineage_ok roots g" by (rule ok)
qed

lemma grants_ok_step: "grant_step s e t \<Longrightarrow> grants_ok s \<Longrightarrow> grants_ok t"
proof (induction rule: grant_step.induct)
  case (root s i rs from_where how_long)
  then have "table_ok (insert (i, from_where) (gs_roots s)) (record_root i rs from_where how_long (gs_registry s))"
    by (intro table_ok_root) (simp add: grants_ok_def)
  moreover have "\<forall>g \<in> gs_copies s. lineage_ok (insert (i, from_where) (gs_roots s)) g"
    using root by (auto simp: grants_ok_def intro: lineage_mono)
  ultimately show ?case by (simp add: grants_ok_def)
next
  case (descendant p s i rs)
  then show ?case using table_ok_descendant by (simp add: grants_ok_def)
next
  case (accepted s i needs)
  then show ?case using copies_lineage(1) [of "gs_roots s" "gs_registry s"]
    by (auto simp: grants_ok_def table_ok_def)
next
  case (remembered s i)
  then show ?case using copies_lineage(2) [of "gs_roots s" "gs_registry s"] table_ok_remember
    by (auto simp: grants_ok_def)
next
  case (enumerated s)
  then show ?case using copies_lineage(3) [of "gs_roots s" "gs_registry s"] by (auto simp: grants_ok_def)
qed (simp_all add: grants_ok_def table_ok_revoke table_ok_revoke_kind table_ok_release table_ok_forget)

lemma grants_ok_run: "grant_run s es t \<Longrightarrow> grants_ok s \<Longrightarrow> grants_ok t"
  by (induction rule: grant_run.induct) (auto intro: grants_ok_step)

lemma grants_ok_start: "grants_ok system_start"
  by (simp add: grants_ok_def table_ok_def system_start_def grants_start_def)

text \<open>
  In every reachable state of the registry the table is consistent: a grant is filed
  under its own id, authority keeps the origin with which its root was recorded, a grant marked as
  revoked has a revoked root, and of a revoked root only a grant recorded anew as that root is not
  marked; and an operation is accepted exactly for a grant that is held, whose root is not revoked,
  and which has the right.
\<close>

theorem grants_consistent:
  assumes "grant_run system_start es s"
  shows "(\<forall>i g. grant_at (gs_registry s) i = Some g \<longrightarrow>
            gr_id g = i \<and> (gr_root g, gr_origin g) \<in> gs_roots s \<and> (gr_parent g = None \<longrightarrow> gr_root g = i) \<and>
            (gr_revoked g \<longrightarrow> gr_root g \<in> gg_revoked_roots (gs_registry s)) \<and>
            (gr_root g \<in> gg_revoked_roots (gs_registry s) \<longrightarrow> gr_revoked g \<or> gr_parent g = None)) \<and>
    (\<forall>i needs g. fst (accept i needs (gs_registry s)) = Ok g \<longleftrightarrow>
       grant_at (gs_registry s) i = Some g \<and> gr_root g \<notin> gg_revoked_roots (gs_registry s) \<and>
       rights_contains (gr_rights g) needs)"
proof -
  have "grants_ok s" by (rule grants_ok_run [OF assms grants_ok_start])
  then have ok: "grant_ok (gs_roots s) (gg_revoked_roots (gs_registry s)) i g" if "grant_at (gs_registry s) i = Some g" for i g
    using that by (simp add: grants_ok_def table_ok_def)
  have "fst (accept i needs (gs_registry s)) = Ok g \<longleftrightarrow>
       grant_at (gs_registry s) i = Some g \<and> gr_root g \<notin> gg_revoked_roots (gs_registry s) \<and>
       rights_contains (gr_rights g) needs" for i needs g
    using ok [of i g] by (auto simp: accept_def Let_def withdrawn_def is_live_def grant_ok_def split: option.split if_splits)
  with ok show ?thesis by (auto simp: grant_ok_def lineage_ok_def)
qed

section \<open>What revoking changes\<close>

text \<open>
  Revoking answers with the number of grants that lost their authority by it: those of
  its root that were not yet marked; it marks all of them and changes no other grant, and it leaves
  no remembered root behind that the recent list has not been told of.
\<close>

theorem revoke_is_exact:
  assumes "grant_at r i = Some g" and "distinct (map fst (gg_grants r))"
  shows "fst (fst (revoke i r)) = of_nat (card {j. \<exists>h. grant_at r j = Some h \<and> gr_root h = gr_root g \<and> \<not> gr_revoked h}) \<and>
    (\<forall>j. grant_at (snd (revoke i r)) j =
       map_option (\<lambda>h. if gr_root h = gr_root g then h\<lparr>gr_revoked := True\<rparr> else h) (grant_at r j)) \<and>
    gg_withdrawn (snd (revoke i r)) = [] \<and>
    (gr_lifetime g = Remembered \<longrightarrow> gr_root g \<in> set (snd (fst (revoke i r))))"
proof -
  let ?P = "\<lambda>h. gr_root h = gr_root g \<and> \<not> gr_revoked h"
  have "card {j. \<exists>h. grant_at r j = Some h \<and> ?P h} = card (fst ` set (filter (\<lambda>(_, h). ?P h) (gg_grants r)))"
    using assms(2) by (intro arg_cong [of _ _ card]) (force simp: image_iff)
  also have "\<dots> = length (filter (\<lambda>(_, h). ?P h) (gg_grants r))"
    using distinct_card [of "map fst (filter (\<lambda>(_, h). ?P h) (gg_grants r))"] assms(2)
    by (simp add: distinct_map_filter)
  finally have count: "fst (fst (revoke i r)) = of_nat (card {j. \<exists>h. grant_at r j = Some h \<and> ?P h})"
    using assms(1) by (simp add: revoke_def revoke_in_def newly_revoked_def take_withdrawn_remembered_def Let_def)
  have marks: "(if gr_root h = gr_root g \<and> \<not> gr_revoked h then h\<lparr>gr_revoked := True\<rparr> else h) =
      (if gr_root h = gr_root g then h\<lparr>gr_revoked := True\<rparr> else h)" for h :: grant
    by (cases h) simp
  have "grant_at (snd (revoke i r)) j =
       map_option (\<lambda>h. if gr_root h = gr_root g then h\<lparr>gr_revoked := True\<rparr> else h) (grant_at r j)" for j
    unfolding revoke_parts(1) [OF assms(1)] grant_at_mark marks ..
  then show ?thesis using count assms(1)
    by (simp add: revoke_def revoke_in_def take_withdrawn_remembered_def Let_def)
qed

section \<open>An example\<close>

text \<open>A directory granted to the session, and the registry after a run of the interface.\<close>

definition sample_directory :: grant_id where "sample_directory = GrantId KindDirectory 7"

definition sample_root :: grant where
  "sample_root =
     \<lparr>gr_id = sample_directory, gr_rights = rights_union right_read right_derive, gr_origin = Provisioned, gr_lifetime = Session,
      gr_parent = None, gr_root = sample_directory, gr_revoked = False\<rparr>"

definition sample_system :: grant_system where
  "sample_system =
     system_start\<lparr>gs_registry := record_root sample_directory (rights_union right_read right_derive) Provisioned Session grants_start,
                  gs_roots := {(sample_directory, Provisioned)}\<rparr>"

lemma sample_system_at: "grant_at (gs_registry sample_system) sample_directory = Some sample_root"
  by (simp add: sample_system_def record_root_def sample_root_def grants_start_def)

lemma sample_system_run: "grant_run system_start [RecordRoot sample_directory (rights_union right_read right_derive) Provisioned Session] sample_system"
  using grant_run.step [OF grant_run.none [of system_start] grant_step.root] by (simp add: sample_system_def system_start_def)

lemma grants_consistent_witness:
  "fst (accept sample_directory right_derive (gs_registry sample_system)) = Ok sample_root \<and>
   (sample_directory, Provisioned) \<in> gs_roots sample_system"
proof -
  have "right_derive = rights_union right_read right_derive AND right_derive" by code_simp
  then have "rights_contains (gr_rights sample_root) right_derive"
    by (simp add: rights_contains_def sample_root_def)
  then show ?thesis using grants_consistent [OF sample_system_run] sample_system_at
    by (simp add: sample_system_def record_root_def grants_start_def sample_root_def)
qed

lemma revocation_is_final_witness:
  "\<exists>t. grant_run (sample_system\<lparr>gs_registry := snd (revoke sample_directory (gs_registry sample_system))\<rparr>) [RevokeKind KindWatch] t \<and>
     record_descendant (GrantId KindDocument 1) 0 sample_root (gs_registry t) = (False, gs_registry t)"
proof -
  let ?s = "sample_system\<lparr>gs_registry := snd (revoke sample_directory (gs_registry sample_system))\<rparr>"
  obtain t where run: "grant_run ?s [RevokeKind KindWatch] t"
    using grant_run.step [OF grant_run.none [of ?s] grant_step.revoked_kind [of _ KindWatch]] by auto
  from revocation_is_final [OF sample_system_at run] run show ?thesis by auto
qed

lemma revoke_is_exact_witness:
  "fst (fst (revoke sample_directory (gs_registry sample_system))) = 1 \<and>
   grant_at (snd (revoke sample_directory (gs_registry sample_system))) sample_directory = Some (sample_root\<lparr>gr_revoked := True\<rparr>)"
proof -
  have "distinct (map fst (gg_grants (gs_registry sample_system)))"
    by (simp add: sample_system_def record_root_def grants_start_def)
  moreover have "{j. \<exists>h. grant_at (gs_registry sample_system) j = Some h \<and> gr_root h = gr_root sample_root \<and> \<not> gr_revoked h} =
      {sample_directory}"
    by (auto simp: sample_system_def record_root_def grants_start_def sample_root_def split: if_splits)
  ultimately show ?thesis using revoke_is_exact [OF sample_system_at] sample_system_at by simp
qed

end
