(* ===== verification/RecentsCorrect.thy ===== *)
theory RecentsCorrect
  imports RecentsText GrantsCorrect
begin

text \<open>
  The list of recent files in use: what it keeps however it is changed, that the next run reads
  back what this run wrote, that remembering puts a place first, and what withdrawing a grant
  forgets.
\<close>

section \<open>The list in use\<close>

text \<open>
  The registry, the list, the text in the backing store, and whether the last attempt to write the
  list succeeded.
\<close>

record recents_system =
  rs_registry :: grant_registry
  rs_store :: recent_store
  rs_file :: "string option"
  rs_synced :: bool

text \<open>A write replaces the whole text, or fails and leaves what was there.\<close>

definition put_write :: "bool \<Rightarrow> string \<times> string \<Rightarrow> recents_system \<Rightarrow> recents_system" where
  "put_write succeeds w s =
     (if succeeds then s\<lparr>rs_file := Some (snd w), rs_synced := True\<rparr> else s\<lparr>rs_synced := False\<rparr>)"

definition put_writes :: "bool list \<Rightarrow> (string \<times> string) list \<Rightarrow> recents_system \<Rightarrow> recents_system" where
  "put_writes results writes = fold (\<lambda>(succeeds, w). put_write succeeds w) (zip results writes)"

fun optional_write :: "'a option \<Rightarrow> 'a list" where
  "optional_write None = []"
| "optional_write (Some w) = [w]"

text \<open>What revoking a grant does to the registry and to the list.\<close>

definition withdraw_grant ::
  "grant_id \<Rightarrow> grant_registry \<Rightarrow> recent_store \<Rightarrow> (string \<times> string) list \<times> grant_registry \<times> recent_store" where
  "withdraw_grant i r st =
     (let ((count, roots), r) = revoke i r; (writes, st) = forget_withdrawn roots st in (writes, r, st))"

definition withdraw_kind ::
  "grant_kind \<Rightarrow> grant_registry \<Rightarrow> recent_store \<Rightarrow> (string \<times> string) list \<times> grant_registry \<times> recent_store" where
  "withdraw_kind k r st =
     (let ((count, roots), r) = revoke_kind k r; (writes, st) = forget_withdrawn roots st in (writes, r, st))"

text \<open>
  The steps of the list. What the resources do with their grants is any change of the registry.
  Keys are issued below \<open>2 ^ 64\<close>: a step that would wrap the next key is out of range.
\<close>

inductive recent_change :: "recents_system \<Rightarrow> recents_system \<Rightarrow> bool" where
  configured: "configure fs backing seeds = Ok st \<Longrightarrow> length seeds < 2 ^ 64 \<Longrightarrow>
     recent_change s (s\<lparr>rs_store := st, rs_file := Option.bind backing (fs_read_to_string fs), rs_synced := True\<rparr>)"
| lifecycle: "recent_change s (s\<lparr>rs_store := begin_lifecycle (rs_store s)\<rparr>)"
| noted: "recent_change s (s\<lparr>rs_store := note_source i kind path (rs_store s)\<rparr>)"
| released: "recent_change s (s\<lparr>rs_store := release_source i (rs_store s)\<rparr>)"
| remembered: "remember_recent fs i (rs_registry s) (rs_store s) = (Ok w, r, st) \<Longrightarrow> length results = length (optional_write w) \<Longrightarrow>
     recent_change s (put_writes results (optional_write w) (s\<lparr>rs_registry := r, rs_store := st\<rparr>))"
| refused: "remember_recent fs i (rs_registry s) (rs_store s) = (Err e, r, st) \<Longrightarrow>
     recent_change s (s\<lparr>rs_registry := r, rs_store := st\<rparr>)"
| opened: "recent_change s (s\<lparr>rs_store := snd (reopen fs key kind (rs_store s))\<rparr>)"
| reopened: "recent_change s (s\<lparr>rs_store := reopened key i kind path (rs_store s)\<rparr>)"
| forgot: "forget_entry key (rs_store s) = ((changed, w), st) \<Longrightarrow> length results = length (optional_write w) \<Longrightarrow>
     recent_change s (put_writes results (optional_write w) (s\<lparr>rs_store := st\<rparr>))"
| withdrew: "withdraw_grant i (rs_registry s) (rs_store s) = (writes, r, st) \<Longrightarrow> length results = length writes \<Longrightarrow>
     recent_change s (put_writes results writes (s\<lparr>rs_registry := r, rs_store := st\<rparr>))"
| withdrew_kind: "withdraw_kind k (rs_registry s) (rs_store s) = (writes, r, st) \<Longrightarrow> length results = length writes \<Longrightarrow>
     recent_change s (put_writes results writes (s\<lparr>rs_registry := r, rs_store := st\<rparr>))"
| granted: "recent_change s (s\<lparr>rs_registry := r\<rparr>)"

definition recents_start :: recents_system where
  "recents_start = \<lparr>rs_registry = grants_start, rs_store = configured [] None, rs_file = None, rs_synced = True\<rparr>"

inductive recents_reachable :: "recents_system \<Rightarrow> bool" where
  start: "recents_reachable recents_start"
| change: "recents_reachable s \<Longrightarrow> recent_change s t \<Longrightarrow> rc_next_key (rs_store t) \<noteq> 0 \<Longrightarrow> recents_reachable t"

section \<open>What is kept\<close>

definition keys_below :: "u64 \<Rightarrow> recent_entry list \<Rightarrow> bool" where
  "keys_below n es \<longleftrightarrow> (\<forall>e \<in> set es. en_key e < n)"

definition store_ok :: "recent_store \<Rightarrow> bool" where
  "store_ok st \<longleftrightarrow> entries_ok (rc_entries st) \<and> entries_ok (rc_initial st) \<and>
     keys_below (rc_next_key st) (rc_entries st) \<and> keys_below (rc_next_key st) (rc_initial st)"

definition file_entries :: "string option \<Rightarrow> recent_entry list" where
  "file_entries f = (case f of Some t \<Rightarrow> decode_entries t | None \<Rightarrow> [])"

definition recents_ok :: "recents_system \<Rightarrow> bool" where
  "recents_ok s \<longleftrightarrow> store_ok (rs_store s) \<and>
     (rc_backing (rs_store s) \<noteq> None \<longrightarrow> rs_synced s \<longrightarrow> file_entries (rs_file s) = rc_entries (rs_store s))"

lemma newest_key_above: "e \<in> set es \<Longrightarrow> en_key e \<le> newest_key es"
proof -
  have grows: "n \<le> fold (\<lambda>e. max (en_key e)) es n" for n and es :: "recent_entry list"
  proof (induction es arbitrary: n)
    case (Cons d es)
    show ?case using order_trans [OF max.cobounded2 Cons.IH [of "max (en_key d) n"]] by simp
  qed simp
  have "en_key e \<le> fold (\<lambda>e. max (en_key e)) es n" if "e \<in> set es" for n
    using that
  proof (induction es arbitrary: n)
    case (Cons d es)
    then show ?case using order_trans [OF max.cobounded1 grows [of "max (en_key d) n" es]] by (cases "e = d") simp_all
  qed simp
  then show "e \<in> set es \<Longrightarrow> en_key e \<le> newest_key es" by (simp add: newest_key_def)
qed

lemma next_key_above: "n + 1 \<noteq> (0 :: u64) \<Longrightarrow> n < n + 1"
  by (simp add: word_less_nat_alt unatSuc add.commute)

lemma keys_below_mono: "keys_below m es \<Longrightarrow> m \<le> n \<Longrightarrow> keys_below n es"
  by (auto simp: keys_below_def)

lemma keys_below_take: "keys_below n es \<Longrightarrow> keys_below n (take m es)"
  by (auto simp: keys_below_def dest: in_set_takeD)

lemma keys_below_next: "newest_key es + 1 \<noteq> 0 \<Longrightarrow> keys_below (newest_key es + 1) es"
  unfolding keys_below_def using newest_key_above next_key_above by (blast intro: le_less_trans)



lemma store_ok_configured: "entries_ok es \<Longrightarrow> newest_key es + 1 \<noteq> 0 \<Longrightarrow> store_ok (configured es backing)"
  using keys_below_next [of es] by (auto simp: store_ok_def configured_def entries_ok_def keys_below_def)

lemma entries_ok_take: "sorted_wrt apart es \<Longrightarrow> \<forall>e \<in> set es. en_origin e \<noteq> Automatic \<Longrightarrow> entries_ok (take max_entries es)"
  by (auto simp: entries_ok_def sorted_wrt_take dest: in_set_takeD)

lemma seed_recents_ok:
  "seed_recents fs index seeds es = Ok es' \<Longrightarrow> sorted_wrt apart es \<Longrightarrow> \<forall>e \<in> set es. en_origin e \<noteq> Automatic \<Longrightarrow>
   \<forall>e \<in> set es. unat (en_key e) \<le> index \<Longrightarrow> index + length seeds < 2 ^ 64 \<Longrightarrow>
   sorted_wrt apart es' \<and> (\<forall>e \<in> set es'. en_origin e \<noteq> Automatic)"
proof (induction seeds arbitrary: index es)
  case (Cons seed seeds)
  from Cons.prems(1) obtain path and metadata :: file_metadata and kind where
    rest: "seed_recents fs (index + 1) seeds
       (if list_ex (\<lambda>e. same_place (en_path e) path) es then es
        else es @ [\<lparr>en_key = of_nat index + 1, en_kind = kind, en_path = path, en_identity = md_identity metadata,
                    en_origin = Provisioned\<rparr>]) = Ok es'"
    unfolding seed_recents.simps obind_eq_Ok by (elim exE conjE) (rule that)
  have "unat (of_nat index + 1 :: u64) = index + 1"
  proof -
    have "index + 1 < 2 ^ LENGTH(64)" using Cons.prems(5) by simp
    then have "unat (of_nat (index + 1) :: u64) = index + 1"
      using take_bit_nat_eq_self [of "index + 1" "LENGTH(64)"] unfolding unsigned_of_nat by simp
    then show ?thesis by (simp add: add.commute)
  qed
  then have fresh: "en_key e \<noteq> of_nat index + 1" if "e \<in> set es" for e
    using Cons.prems(4) that by fastforce
  show ?case
  proof (rule Cons.IH [OF rest])
  qed (use Cons.prems fresh \<open>unat (of_nat index + 1 :: u64) = index + 1\<close> in
      \<open>auto simp: sorted_wrt_append apart_def list_ex_iff le_SucI\<close>)
qed simp

lemma configure_ok:
  assumes "configure fs backing seeds = Ok st" and "length seeds < 2 ^ 64" and "rc_next_key st \<noteq> 0"
  shows "store_ok st \<and> (rc_backing st \<noteq> None \<longrightarrow>
    file_entries (Option.bind backing (fs_read_to_string fs)) = rc_entries st)"
proof (cases "seeds = []")
  case True
  have "entries_ok (case backing of Some path \<Rightarrow> load_entries fs path | None \<Rightarrow> [])"
    using decode_entries_ok by (auto simp: load_entries_def entries_ok_def split: option.split)
  moreover from assms(1) True
  have st: "st = configured (case backing of Some path \<Rightarrow> load_entries fs path | None \<Rightarrow> []) backing"
    by (simp add: configure_def)
  moreover have "newest_key (case backing of Some path \<Rightarrow> load_entries fs path | None \<Rightarrow> []) + 1 \<noteq> 0"
    using assms(3) st by (simp add: configured_def)
  ultimately show ?thesis using store_ok_configured
    by (auto simp: configured_def file_entries_def load_entries_def split: option.split)
next
  case False
  with assms(1) obtain es where es: "seed_recents fs 0 seeds [] = Ok es" "st = configured (take max_entries es) None"
    by (auto simp: configure_def)
  from seed_recents_ok [OF es(1)] assms(2) have "entries_ok (take max_entries es)" by (intro entries_ok_take) simp_all
  moreover have "newest_key (take max_entries es) + 1 \<noteq> 0" using assms(3) es(2) by (simp add: configured_def)
  ultimately show ?thesis using store_ok_configured [of "take max_entries es" None] es(2) by (simp add: configured_def)
qed

lemma lifecycle_ok:
  assumes "store_ok st" and "rc_next_key (begin_lifecycle st) \<noteq> 0"
  shows "store_ok (begin_lifecycle st)"
proof (cases "rc_backing st = None")
  case True
  let ?n = "max (rc_next_key st) (newest_key (rc_initial st) + 1)"
  have "keys_below ?n (rc_initial st)" using assms(1) keys_below_mono [of "rc_next_key st" _ ?n] by (simp add: store_ok_def)
  then show ?thesis using assms(1) True by (simp add: store_ok_def begin_lifecycle_def)
next
  case False
  then have "begin_lifecycle st = st" by (simp only: begin_lifecycle_def if_False)
  then show ?thesis using assms(1) by simp
qed

section \<open>Remembering\<close>

lemma find_place:
  "List.find (\<lambda>e. same_place (en_path e) path) es = Some d \<Longrightarrow> d \<in> set es \<and> same_place (en_path d) path"
  by (auto simp: find_Some_iff)

lemma apart_place: "apart d e \<Longrightarrow> same_place (en_path d) path \<Longrightarrow> \<not> same_place (en_path e) path"
  unfolding apart_def using same_place_trans [OF _ same_place_sym] by blast

lemma remove1_others:
  assumes "sorted_wrt apart es" and "d \<in> set es" and "same_place (en_path d) path"
  shows "remove1 d es = filter (\<lambda>e. \<not> same_place (en_path e) path) es"
  using assms(1,2)
proof (induction es)
  case (Cons e es)
  show ?case
  proof (cases "e = d")
    case True
    then have "\<forall>x \<in> set es. \<not> same_place (en_path x) path"
      using Cons.prems(1) apart_place [OF _ assms(3)] by simp
    then show ?thesis using True assms(3) by (simp add: filter_id_conv)
  next
    case False
    then have "apart e d" "d \<in> set es" using Cons.prems by auto
    then have "\<not> same_place (en_path e) path" using apart_place [OF apart_sym assms(3)] by blast
    then show ?thesis using Cons.IH Cons.prems(1) False \<open>d \<in> set es\<close> by simp
  qed
qed simp

text \<open>The entries after a place was put first.\<close>

lemma put_first_entries:
  assumes "sorted_wrt apart (rc_entries st)"
  shows "\<exists>e. rc_entries (snd (put_first kind path identity from_where st)) =
      e # filter (\<lambda>e. \<not> same_place (en_path e) path) (rc_entries st) \<and>
    same_place (en_path e) path \<and> en_kind e = kind \<and> en_identity e = identity \<and> en_origin e = from_where \<and>
    fst (put_first kind path identity from_where st) = en_key e \<and>
    (en_key e \<in> en_key ` set (rc_entries st) \<and> rc_next_key (snd (put_first kind path identity from_where st)) = rc_next_key st \<and>
       (\<exists>d \<in> set (rc_entries st). en_key d = en_key e \<and> same_place (en_path d) path) \<or>
     en_key e = rc_next_key st \<and> rc_next_key (snd (put_first kind path identity from_where st)) = rc_next_key st + 1 \<and>
       (\<forall>d \<in> set (rc_entries st). \<not> same_place (en_path d) path))"
proof (cases "List.find (\<lambda>e. same_place (en_path e) path) (rc_entries st)")
  case None
  then have "\<forall>d \<in> set (rc_entries st). \<not> same_place (en_path d) path" by (simp add: find_None_iff)
  then show ?thesis using None by (simp add: put_first_def filter_id_conv)
next
  case (Some d)
  note d = find_place [OF Some]
  from remove1_others [OF assms] d show ?thesis using Some by (auto simp: put_first_def)
qed

lemma put_first_parts:
  "rc_initial (snd (put_first kind path identity from_where st)) = rc_initial st"
  "rc_backing (snd (put_first kind path identity from_where st)) = rc_backing st"
  by (auto simp: put_first_def split: option.split)

lemma remember_place_parts:
  "rc_entries (remember_place held kind path identity st) =
     take max_entries (rc_entries (snd (put_first kind path identity (gr_origin held) st)))"
  "rc_next_key (remember_place held kind path identity st) = rc_next_key (snd (put_first kind path identity (gr_origin held) st))"
  "rc_initial (remember_place held kind path identity st) = rc_initial st"
  "rc_backing (remember_place held kind path identity st) = rc_backing st"
  using put_first_parts [of kind path identity "gr_origin held" st]
  by (simp_all add: remember_place_def Let_def split_beta)

lemma put_first_sorted:
  assumes "sorted_wrt apart es" and "same_place (en_path e) path"
    and "en_key e \<notin> en_key ` set (filter (\<lambda>e. \<not> same_place (en_path e) path) es)"
  shows "sorted_wrt apart (e # filter (\<lambda>e. \<not> same_place (en_path e) path) es)"
proof -
  have "apart e d" if "d \<in> set (filter (\<lambda>e. \<not> same_place (en_path e) path) es)" for d
  proof -
    from that have "\<not> same_place (en_path e) (en_path d)"
      using same_place_trans [OF same_place_sym assms(2)] by auto
    then show ?thesis using that assms(3) by (auto simp: apart_def)
  qed
  then show ?thesis using sorted_wrt_filter [OF assms(1)] by simp
qed

lemma keys_distinct: "sorted_wrt apart es \<Longrightarrow> d \<in> set es \<Longrightarrow> e \<in> set es \<Longrightarrow> en_key d = en_key e \<Longrightarrow> d = e"
  by (induction es) (auto simp: apart_def)

lemma places_distinct:
  "sorted_wrt apart es \<Longrightarrow> d \<in> set es \<Longrightarrow> e \<in> set es \<Longrightarrow> same_place (en_path d) path \<Longrightarrow> same_place (en_path e) path \<Longrightarrow> d = e"
proof (induction es)
  case (Cons x es)
  then have "\<forall>y \<in> set es. \<not> (same_place (en_path x) path \<and> same_place (en_path y) path)"
    using apart_place by auto
  then show ?case using Cons by auto
qed simp

lemma put_first_keys:
  assumes "store_ok st"
  shows "\<exists>e. rc_entries (snd (put_first kind path identity from_where st)) =
      e # filter (\<lambda>e. \<not> same_place (en_path e) path) (rc_entries st) \<and>
    same_place (en_path e) path \<and> en_kind e = kind \<and> en_identity e = identity \<and> en_origin e = from_where \<and>
    fst (put_first kind path identity from_where st) = en_key e \<and>
    (\<forall>d \<in> set (rc_entries st). en_key d = en_key e \<longleftrightarrow> same_place (en_path d) path)"
proof -
  have sorted: "sorted_wrt apart (rc_entries st)" and below: "keys_below (rc_next_key st) (rc_entries st)"
    using assms by (simp_all add: store_ok_def entries_ok_def)
  from put_first_entries [OF sorted, of kind path identity from_where] obtain e where
    e: "rc_entries (snd (put_first kind path identity from_where st)) =
      e # filter (\<lambda>e. \<not> same_place (en_path e) path) (rc_entries st)"
    "same_place (en_path e) path" "en_kind e = kind" "en_identity e = identity" "en_origin e = from_where"
    "fst (put_first kind path identity from_where st) = en_key e"
    and key: "(\<exists>d \<in> set (rc_entries st). en_key d = en_key e \<and> same_place (en_path d) path) \<or>
       en_key e = rc_next_key st \<and> (\<forall>d \<in> set (rc_entries st). \<not> same_place (en_path d) path)"
    by blast
  have "en_key d = en_key e \<longleftrightarrow> same_place (en_path d) path" if d: "d \<in> set (rc_entries st)" for d
    using key
  proof (elim disjE bexE conjE)
    fix d'
    assume d': "d' \<in> set (rc_entries st)" "en_key d' = en_key e" "same_place (en_path d') path"
    show ?thesis
    proof
      assume "en_key d = en_key e"
      then have "d = d'" using d' by (intro keys_distinct [OF sorted d]) simp_all
      then show "same_place (en_path d) path" using d'(3) by simp
    next
      assume "same_place (en_path d) path"
      from places_distinct [OF sorted d d'(1) this d'(3)] show "en_key d = en_key e" using d'(2) by simp
    qed
  next
    assume fresh: "en_key e = rc_next_key st" "\<forall>d \<in> set (rc_entries st). \<not> same_place (en_path d) path"
    have "en_key d < rc_next_key st" using below d by (simp add: keys_below_def)
    then show ?thesis using fresh d by auto
  qed
  then show ?thesis using e by blast
qed

lemma remember_place_ok:
  assumes ok: "store_ok st" and manual: "gr_origin held \<noteq> Automatic"
    and room: "rc_next_key (remember_place held kind path identity st) \<noteq> 0"
  shows "store_ok (remember_place held kind path identity st)"
proof -
  let ?others = "filter (\<lambda>e. \<not> same_place (en_path e) path) (rc_entries st)"
  let ?st = "snd (put_first kind path identity (gr_origin held) st)"
  have sorted: "sorted_wrt apart (rc_entries st)" and below: "keys_below (rc_next_key st) (rc_entries st)"
    using ok by (simp_all add: store_ok_def entries_ok_def)
  from put_first_entries [OF sorted, of kind path identity "gr_origin held"] obtain e where
    e: "rc_entries ?st = e # ?others" "same_place (en_path e) path" "en_origin e = gr_origin held"
    and key: "rc_next_key ?st = rc_next_key st \<and> (\<exists>d \<in> set (rc_entries st). en_key d = en_key e \<and> same_place (en_path d) path) \<or>
       en_key e = rc_next_key st \<and> rc_next_key ?st = rc_next_key st + 1"
    by blast
  have next_key: "rc_next_key st \<le> rc_next_key ?st" "en_key e < rc_next_key ?st"
    using key below next_key_above [of "rc_next_key st"] room
    by (auto simp: remember_place_parts keys_below_def)
  have "en_key e \<notin> en_key ` set ?others"
  proof
    assume "en_key e \<in> en_key ` set ?others"
    then obtain x where x: "x \<in> set (rc_entries st)" "en_key x = en_key e" "\<not> same_place (en_path x) path" by auto
    from x(1) below have "en_key e < rc_next_key st" unfolding x(2) [symmetric] by (simp add: keys_below_def)
    with key obtain d where d: "d \<in> set (rc_entries st)" "en_key d = en_key e" "same_place (en_path d) path" by auto
    have "d = x" by (rule keys_distinct [OF sorted d(1) x(1)]) (simp add: d(2) x(2))
    with d(3) x(3) show False by simp
  qed
  from put_first_sorted [OF sorted e(2) this] have "entries_ok (take max_entries (e # ?others))"
    using e(3) manual ok by (intro entries_ok_take) (auto simp: store_ok_def entries_ok_def)
  moreover have "keys_below (rc_next_key ?st) (e # ?others)"
    using below next_key by (auto simp: keys_below_def intro: less_le_trans)
  ultimately show ?thesis using ok keys_below_mono [OF _ next_key(1), of "rc_initial st"]
    unfolding store_ok_def remember_place_parts e(1) by (simp add: keys_below_take)
qed

text \<open>What remembering answers, and what it did.\<close>

lemma map_error_Ok [simp]: "map_error f x = Ok a \<longleftrightarrow> x = Ok a"
  by (cases x) simp_all

lemma remember_recent_Ok:
  assumes "remember_recent fs i r st = (Ok w, r', st')"
  shows "\<exists>held kind path metadata. remember i r = (Ok held, r') \<and> rc_sources st (gr_id held) = Some (kind, path) \<and>
    fs_metadata fs path = Ok metadata \<and>
    st' = (remember_place held kind path (md_identity metadata) st)\<lparr>rc_remembered := rc_remembered st' \<rparr> \<and> w = written st'"
proof -
  obtain outcome r1 st1 where inner: "remember_inner fs i r st = (outcome, r1, st1)" by (metis prod_cases3)
  from assms inner have outcome: "outcome = Ok w" "r1 = r'" "st' = st1\<lparr>rc_remembered := rc_remembered st1 + 1\<rparr>"
    by (auto simp: remember_recent_def split: outcome.splits)
  obtain held r2 where held: "remember i r = (held, r2)" by (cases "remember i r")
  from inner outcome(1,2) held obtain g kind path metadata where
    "held = Ok g" "r2 = r'" "rc_sources st (gr_id g) = Some (kind, path)" "fs_metadata fs path = Ok metadata"
    "st1 = remember_place g kind path (md_identity metadata) st" "w = written st1"
    by (cases held; cases "rc_sources st (gr_id (case held of Ok g \<Rightarrow> g))")
      (auto simp: remember_inner_def Let_def split: option.splits outcome.splits)
  then show ?thesis using held outcome(3) by (auto simp: written_def)
qed

lemma remember_recent_Err:
  assumes "remember_recent fs i r st = (Err e, r', st')"
  shows "\<exists>n. st' = st\<lparr>rc_refused := n\<rparr>"
proof -
  obtain outcome r1 st1 where inner: "remember_inner fs i r st = (outcome, r1, st1)" by (metis prod_cases3)
  from assms inner have outcome: "outcome = Err e" "st' = st1\<lparr>rc_refused := rc_refused st1 + 1\<rparr>"
    by (auto simp: remember_recent_def)
  with inner have "st1 = st"
    by (auto simp: remember_inner_def Let_def split: prod.splits option.splits outcome.splits)
  then show ?thesis using outcome(2) by blast
qed

lemma remember_manual: "remember i r = (Ok held, r') \<Longrightarrow> gr_origin held \<noteq> Automatic"
  by (auto simp: remember_def split: option.splits if_splits)

section \<open>Every change keeps the list\<close>

lemma put_writes_store [simp]: "rs_store (put_writes results writes s) = rs_store s"
proof -
  have "rs_store (fold (\<lambda>(succeeds, w). put_write succeeds w) ws s) = rs_store s" for ws
    by (induction ws arbitrary: s) (auto simp: put_write_def)
  then show ?thesis by (simp add: put_writes_def)
qed

lemma put_writes_update: "put_writes results writes (s\<lparr>rs_store := st\<rparr>) = (put_writes results writes s)\<lparr>rs_store := st\<rparr>"
proof -
  have one: "put_write b w (s\<lparr>rs_store := st\<rparr>) = (put_write b w s)\<lparr>rs_store := st\<rparr>" for b w and s :: recents_system
    by (cases s) (simp add: put_write_def)
  have "fold (\<lambda>(succeeds, w). put_write succeeds w) ws (s\<lparr>rs_store := st\<rparr>) =
      (fold (\<lambda>(succeeds, w). put_write succeeds w) ws s)\<lparr>rs_store := st\<rparr>" for ws
    by (induction ws arbitrary: s) (auto simp: one)
  then show ?thesis by (simp add: put_writes_def)
qed

lemma put_writes_none [simp]: "put_writes [] [] s = s"
  by (simp add: put_writes_def)

lemma put_writes_append:
  "length results = length ws \<Longrightarrow>
   put_writes (results @ results') (ws @ ws') s = put_writes results' ws' (put_writes results ws s)"
  by (simp add: put_writes_def)

lemma recents_ok_cong:
  "recents_ok s \<Longrightarrow> rs_file t = rs_file s \<Longrightarrow> rs_synced t = rs_synced s \<Longrightarrow>
   rc_entries (rs_store t) = rc_entries (rs_store s) \<Longrightarrow> rc_next_key (rs_store t) = rc_next_key (rs_store s) \<Longrightarrow>
   rc_initial (rs_store t) = rc_initial (rs_store s) \<Longrightarrow> rc_backing (rs_store t) = rc_backing (rs_store s) \<Longrightarrow> recents_ok t"
  by (simp add: recents_ok_def store_ok_def)

lemma recents_ok_written:
  assumes "store_ok (rs_store s)" and "length results = length (optional_write (written (rs_store s)))"
  shows "recents_ok (put_writes results (optional_write (written (rs_store s))) s)"
proof (cases "rc_backing (rs_store s)")
  case None
  then show ?thesis using assms by (simp add: recents_ok_def written_def)
next
  case (Some path)
  have "decode_entries (encode_entries (rc_entries (rs_store s))) = rc_entries (rs_store s)"
    using assms(1) decode_encode by (simp add: store_ok_def)
  moreover obtain b where "results = [b]" using assms(2) Some by (auto simp: written_def length_Suc_conv)
  ultimately show ?thesis using assms(1) Some
    by (simp add: recents_ok_def written_def put_writes_def put_write_def file_entries_def)
qed

lemma entries_ok_filter: "entries_ok es \<Longrightarrow> entries_ok (filter P es)"
  using order_trans [OF length_filter_le [of P es]] by (auto simp: entries_ok_def sorted_wrt_filter)

lemma keys_below_filter: "keys_below n es \<Longrightarrow> keys_below n (filter P es)"
  by (simp add: keys_below_def)

lemma forget_entry_ok:
  assumes "recents_ok s" and "forget_entry key (rs_store s) = ((changed, w), st)"
    and "length results = length (optional_write w)"
  shows "recents_ok (put_writes results (optional_write w) (s\<lparr>rs_store := st\<rparr>))"
proof (cases "length (filter (\<lambda>e. en_key e \<noteq> key) (rc_entries (rs_store s))) = length (rc_entries (rs_store s))")
  case True
  then have "filter (\<lambda>e. en_key e \<noteq> key) (rc_entries (rs_store s)) = rc_entries (rs_store s)"
    by (metis filter_id_conv filter_cong length_filter_less less_irrefl)
  then have "w = None" "st = rs_store s" using assms(2) by (auto simp: forget_entry_def)
  then show ?thesis using assms(1,3) by simp
next
  case False
  then have st: "w = written st" "rc_entries st = filter (\<lambda>e. en_key e \<noteq> key) (rc_entries (rs_store s))"
    "rc_next_key st = rc_next_key (rs_store s)" "rc_initial st = rc_initial (rs_store s)"
    using assms(2) by (auto simp: forget_entry_def Let_def written_def)
  then have "store_ok st" using assms(1) by (simp add: recents_ok_def store_ok_def entries_ok_filter keys_below_filter)
  then show ?thesis using recents_ok_written [of "s\<lparr>rs_store := st\<rparr>" results] assms(3) st(1) by simp
qed

lemma forget_keys_ok:
  "recents_ok s \<Longrightarrow> forget_keys keys (rs_store s) = (writes, st) \<Longrightarrow> length results = length writes \<Longrightarrow>
   recents_ok (put_writes results writes (s\<lparr>rs_store := st\<rparr>))"
proof (induction keys arbitrary: s writes results)
  case Nil
  then have "writes = []" "st = rs_store s" "results = []" by simp_all
  then show ?case using Nil.prems(1) by simp
next
  case (Cons key keys)
  obtain changed w st1 where first: "forget_entry key (rs_store s) = ((changed, w), st1)" by (metis prod_cases3 surj_pair)
  obtain ws st2 where rest: "forget_keys keys st1 = (ws, st2)" by (metis surj_pair)
  have writes: "writes = optional_write w @ ws" "st = st2"
    using Cons.prems(2) first rest by (auto split: option.splits)
  define now where "now = take (length (optional_write w)) results"
  define later where "later = drop (length (optional_write w)) results"
  have lengths: "length now = length (optional_write w)" "length later = length ws" "results = now @ later"
    using Cons.prems(3) writes by (auto simp: now_def later_def)
  let ?s = "put_writes now (optional_write w) (s\<lparr>rs_store := st1\<rparr>)"
  have "recents_ok ?s" by (rule forget_entry_ok [OF Cons.prems(1) first lengths(1)])
  have "forget_keys keys (rs_store ?s) = (ws, st)" using rest writes(2) by simp
  from Cons.IH [OF \<open>recents_ok ?s\<close> this lengths(2)] have "recents_ok (put_writes later ws (?s\<lparr>rs_store := st\<rparr>))" .
  then show ?case unfolding writes(1) lengths(3) put_writes_append [OF lengths(1)] put_writes_update by simp
qed

lemma forget_withdrawn_ok:
  assumes "recents_ok s" and "forget_withdrawn roots (rs_store s) = (writes, st)" and "length results = length writes"
  shows "recents_ok (put_writes results writes (s\<lparr>rs_store := st\<rparr>))"
proof (cases "roots = []")
  case True
  then have "writes = []" "st = rs_store s" "results = []" using assms(2,3) by (simp_all add: forget_withdrawn_def)
  then show ?thesis using assms(1) by simp
next
  case False
  then have "forget_keys (List.map_filter (rc_held (rs_store s)) roots) (rs_store s) = (writes, st)"
    using assms(2) by (simp add: forget_withdrawn_def)
  then show ?thesis by (rule forget_keys_ok [OF assms(1) _ assms(3)])
qed

lemma withdrawn_ok:
  assumes "recents_ok s" and "forget_withdrawn roots (rs_store s) = (writes, st)" and "length results = length writes"
  shows "recents_ok (put_writes results writes (s\<lparr>rs_registry := r, rs_store := st\<rparr>))"
  using forget_withdrawn_ok [of "s\<lparr>rs_registry := r\<rparr>" roots writes st results] assms by (simp add: recents_ok_def)

lemma recent_change_ok:
  assumes "recent_change s t" and "rc_next_key (rs_store t) \<noteq> 0" and "recents_ok s"
  shows "recents_ok t"
  using assms
proof (cases rule: recent_change.cases)
  case (configured fs backing seeds st)
  have "rc_backing st = None \<or> rc_backing st = backing"
    using configured(2) by (auto simp: configure_def configured_def split: if_splits)
  then show ?thesis using configure_ok [OF configured(2,3)] assms(2) configured(1) by (auto simp: recents_ok_def)
next
  case lifecycle
  then show ?thesis using assms lifecycle_ok [of "rs_store s"] by (auto simp: recents_ok_def begin_lifecycle_def)
next
  case (remembered fs i w r st results)
  from remember_recent_Ok [OF remembered(2)] obtain held kind path and metadata :: file_metadata where
    held: "remember i (rs_registry s) = (Ok held, r)" and
    st: "st = (remember_place held kind path (md_identity metadata) (rs_store s))\<lparr>rc_remembered := rc_remembered st\<rparr>" and
    w: "w = written st" by blast
  let ?st = "remember_place held kind path (md_identity metadata) (rs_store s)"
  have parts: "rc_entries st = rc_entries ?st" "rc_next_key st = rc_next_key ?st" "rc_initial st = rc_initial ?st"
    by (subst st, simp)+
  have "store_ok ?st"
    using assms(2,3) remembered(1) remember_manual [OF held] parts by (intro remember_place_ok) (simp_all add: recents_ok_def)
  then have "store_ok st" using parts by (simp add: store_ok_def)
  then show ?thesis
    using recents_ok_written [of "s\<lparr>rs_registry := r, rs_store := st\<rparr>" results] remembered(1,3) w by simp
next
  case (refused fs i e r st)
  then show ?thesis using remember_recent_Err [OF refused(2)] recents_ok_cong [OF assms(3), of t] by auto
next
  case (opened fs key kind)
  then show ?thesis using recents_ok_cong [OF assms(3), of t] by (auto simp: reopen_def Let_def split: outcome.split)
next
  case (forgot key changed w st results)
  then show ?thesis using forget_entry_ok [OF assms(3)] by simp
next
  case (withdrew i writes r st results)
  then show ?thesis using withdrawn_ok [OF assms(3)] by (auto simp: withdraw_grant_def split: prod.splits)
next
  case (withdrew_kind k writes r st results)
  then show ?thesis using withdrawn_ok [OF assms(3)] by (auto simp: withdraw_kind_def split: prod.splits)
next
  case (noted i kind path)
  then show ?thesis using recents_ok_cong [OF assms(3), of t] by (simp add: note_source_def)
next
  case (released i)
  then show ?thesis using recents_ok_cong [OF assms(3), of t] by (simp add: release_source_def)
next
  case (reopened key i kind path)
  then show ?thesis using recents_ok_cong [OF assms(3), of t] by (simp add: reopened_def)
next
  case (granted r)
  then show ?thesis using recents_ok_cong [OF assms(3), of t] by simp
qed

lemma recents_reachable_ok: "recents_reachable s \<Longrightarrow> recents_ok s"
proof (induction rule: recents_reachable.induct)
  case start
  show ?case
    by (simp add: recents_ok_def store_ok_def recents_start_def configured_def entries_ok_def keys_below_def newest_key_def)
next
  case (change s t)
  show ?case by (rule recent_change_ok [OF change.hyps(2,3) change.IH])
qed


section \<open>Between runs\<close>


section \<open>Remembering puts a place first\<close>

text \<open>
  Remembering a grant that succeeds puts the place of its resource first, once, under the
  key it had before or under a key no entry has, with the identity the file system gave; the other
  entries keep their order, the oldest are dropped beyond the bound, and the text that is written
  to the backing store reads back as the new list.
\<close>

theorem remember_puts_first:
  assumes "recents_reachable s"
    and "remember_recent fs i (rs_registry s) (rs_store s) = (Ok w, r, st)" and "rc_next_key st \<noteq> 0"
  shows "\<exists>held kind path metadata e. remember i (rs_registry s) = (Ok held, r) \<and>
    rc_sources (rs_store s) (gr_id held) = Some (kind, path) \<and> fs_metadata fs path = Ok metadata \<and>
    rc_entries st = take max_entries (e # filter (\<lambda>d. \<not> same_place (en_path d) path) (rc_entries (rs_store s))) \<and>
    same_place (en_path e) path \<and> en_kind e = kind \<and> en_identity e = md_identity metadata \<and> en_origin e = gr_origin held \<and>
    (\<forall>d \<in> set (rc_entries (rs_store s)). en_key d = en_key e \<longleftrightarrow> same_place (en_path d) path) \<and>
    rc_held st (gr_id held) = Some (en_key e) \<and>
    (\<forall>b t. w = Some (b, t) \<longrightarrow> decode_entries t = rc_entries st)"
proof -
  from remember_recent_Ok [OF assms(2)] obtain held kind path and metadata :: file_metadata where
    held: "remember i (rs_registry s) = (Ok held, r)" "rc_sources (rs_store s) (gr_id held) = Some (kind, path)"
      "fs_metadata fs path = Ok metadata" and
    st: "st = (remember_place held kind path (md_identity metadata) (rs_store s))\<lparr>rc_remembered := rc_remembered st\<rparr>" and
    w: "w = written st" by blast
  let ?st = "remember_place held kind path (md_identity metadata) (rs_store s)"
  have parts: "rc_entries st = rc_entries ?st" "rc_next_key st = rc_next_key ?st" "rc_held st = rc_held ?st" by (subst st, simp)+
  have ok: "store_ok (rs_store s)" using recents_reachable_ok [OF assms(1)] by (simp add: recents_ok_def)
  have "store_ok ?st" using assms(3) parts(2) by (intro remember_place_ok [OF ok remember_manual [OF held(1)]]) simp
  then have "entries_ok (rc_entries st)" using parts(1) by (simp add: store_ok_def)
  then have read: "\<forall>b t. w = Some (b, t) \<longrightarrow> decode_entries t = rc_entries st"
    using decode_encode w by (auto simp: written_def)
  have sorted: "sorted_wrt apart (rc_entries (rs_store s))" using ok by (simp add: store_ok_def entries_ok_def)
  from put_first_keys [OF ok, of kind path "md_identity metadata" "gr_origin held"] obtain e where e:
    "rc_entries (snd (put_first kind path (md_identity metadata) (gr_origin held) (rs_store s))) =
      e # filter (\<lambda>d. \<not> same_place (en_path d) path) (rc_entries (rs_store s))"
    "same_place (en_path e) path" "en_kind e = kind" "en_identity e = md_identity metadata" "en_origin e = gr_origin held"
    "fst (put_first kind path (md_identity metadata) (gr_origin held) (rs_store s)) = en_key e"
    "\<forall>d \<in> set (rc_entries (rs_store s)). en_key d = en_key e \<longleftrightarrow> same_place (en_path d) path" by (elim exE conjE) (rule that)
  have "rc_held st (gr_id held) = Some (en_key e)"
    using e(6) unfolding parts(3) by (simp add: remember_place_def Let_def split_beta)
  moreover have "rc_entries st = take max_entries (e # filter (\<lambda>d. \<not> same_place (en_path d) path) (rc_entries (rs_store s)))"
    unfolding parts(1) remember_place_parts(1) e(1) ..
  ultimately show ?thesis using held e(2-5,7) read
    by (intro exI [of _ held] exI [of _ kind] exI [of _ path] exI [of _ metadata] exI [of _ e] conjI)
qed

section \<open>Withdrawing a grant forgets its entry\<close>

lemma forget_entry_entries: "rc_entries (snd (forget_entry key st)) = filter (\<lambda>e. en_key e \<noteq> key) (rc_entries st)"
  by (simp add: forget_entry_def Let_def)

lemma forget_keys_entries: "rc_entries (snd (forget_keys keys st)) = filter (\<lambda>e. en_key e \<notin> set keys) (rc_entries st)"
proof (induction keys arbitrary: st)
  case (Cons key keys)
  obtain changed w st1 where first: "forget_entry key st = ((changed, w), st1)" by (metis prod_cases3 surj_pair)
  then have "rc_entries st1 = filter (\<lambda>e. en_key e \<noteq> key) (rc_entries st)" using forget_entry_entries [of key st] by simp
  then show ?case using Cons.IH [of st1] first by (simp add: split_beta conj_commute)
qed simp

lemma forget_keys_backing: "rc_backing (snd (forget_keys keys st)) = rc_backing st"
  by (induction keys arbitrary: st) (simp_all add: forget_entry_def Let_def split_beta)

lemma put_writes_synced: "rs_synced s \<Longrightarrow> rs_synced (put_writes (replicate (length writes) True) writes s)"
proof -
  have "rs_synced s \<Longrightarrow> rs_synced (fold (\<lambda>(succeeds, w). put_write succeeds w) (zip (replicate (length ws) True) ws) s)" for ws
    by (induction ws arbitrary: s) (simp_all add: put_write_def)
  then show "rs_synced s \<Longrightarrow> ?thesis" by (simp add: put_writes_def)
qed

lemma revoke_roots:
  "grant_at r i = Some g \<Longrightarrow> gr_lifetime g = Remembered \<Longrightarrow> snd (fst (revoke i r)) = gg_withdrawn r @ [gr_root g]"
  by (simp add: revoke_def revoke_in_def take_withdrawn_remembered_def Let_def)

lemma withdraw_grant_entries:
  assumes "grant_at r i = Some g" and "gr_lifetime g = Remembered" and "rc_held st (gr_root g) = Some key"
    and "withdraw_grant i r st = (writes, r', st')"
  shows "(\<exists>keys. key \<in> set keys \<and> rc_entries st' = filter (\<lambda>e. en_key e \<notin> set keys) (rc_entries st)) \<and>
    rc_backing st' = rc_backing st"
proof -
  let ?keys = "List.map_filter (rc_held st) (gg_withdrawn r @ [gr_root g])"
  have "key \<in> set ?keys" using assms(3) by (auto simp: List.map_filter_def)
  moreover have "st' = snd (forget_keys ?keys st)"
    using assms(4) revoke_roots [OF assms(1,2)] by (auto simp: withdraw_grant_def forget_withdrawn_def split: prod.splits)
  ultimately show ?thesis using forget_keys_entries forget_keys_backing by blast
qed

text \<open>
  Withdrawing a grant that was remembered withdraws what was remembered: the entry its root
  is held under leaves the list, reopening its key answers that it was forgotten, and, with the
  writes made, the text the next run reads does not have it either.
\<close>

theorem withdrawn_is_forgotten:
  assumes "recents_reachable s" and "grant_at (rs_registry s) i = Some g" and "gr_lifetime g = Remembered"
    and "rc_held (rs_store s) (gr_root g) = Some key"
    and "withdraw_grant i (rs_registry s) (rs_store s) = (writes, r, st)"
    and "t = put_writes (replicate (length writes) True) writes (s\<lparr>rs_registry := r, rs_store := st\<rparr>)"
  shows "key \<notin> en_key ` set (rc_entries (rs_store t)) \<and>
    fst (reopen fs key kind (rs_store t)) = Err Forgotten \<and>
    (rs_synced s \<and> rc_backing (rs_store s) \<noteq> None \<longrightarrow> key \<notin> en_key ` set (file_entries (rs_file t)))"
proof -
  obtain roots where "forget_withdrawn roots (rs_store s) = (writes, st)"
    using assms(5) by (auto simp: withdraw_grant_def split: prod.splits)
  from withdrawn_ok [OF recents_reachable_ok [OF assms(1)] this] have "recents_ok t" unfolding assms(6) by simp
  moreover have gone: "key \<notin> en_key ` set (rc_entries (rs_store t))"
    using withdraw_grant_entries [OF assms(2-5)] assms(6) by auto
  moreover from gone have "List.find (\<lambda>e. en_key e = key) (rc_entries (rs_store t)) = None"
    by (auto simp: find_None_iff)
  moreover have "rs_synced s \<longrightarrow> rs_synced t" using put_writes_synced assms(6) by simp
  moreover have "rc_backing (rs_store t) = rc_backing (rs_store s)"
    using withdraw_grant_entries [OF assms(2-5)] assms(6) by auto
  ultimately show ?thesis by (auto simp: recents_ok_def reopen_def)
qed

section \<open>An example\<close>

text \<open>A document the person selected, remembered in a list with a backing store.\<close>

definition sample_grant :: grant_id where "sample_grant = GrantId KindDocument 1"

definition sample_files :: file_system where
  "sample_files =
     \<lparr>fs_symlink_metadata = \<lambda>_. Ok \<lparr>md_file = True, md_directory = False, md_identity = \<lparr>fi_device = 1, fi_inode = 2\<rparr>\<rparr>,
      fs_metadata = \<lambda>_. Ok \<lparr>md_file = True, md_directory = False, md_identity = \<lparr>fi_device = 1, fi_inode = 2\<rparr>\<rparr>,
      fs_open = \<lambda>_. Ok (), fs_read_dir = \<lambda>_. Err OtherError, fs_canonicalize = Ok, fs_read_to_string = \<lambda>_. None,
      fs_error_text = \<lambda>_. [], fs_display = \<lambda>p. p\<rparr>"

definition sample_chosen :: recents_system where
  "sample_chosen =
     \<lparr>rs_registry = record_root sample_grant right_read (TrustedSelection Brokered) Session grants_start,
      rs_store = note_source sample_grant EntryFile ''/a'' (configured [] (Some ''list'')), rs_file = None, rs_synced = True\<rparr>"

definition sample_entry :: recent_entry where
  "sample_entry =
     \<lparr>en_key = 1, en_kind = EntryFile, en_path = ''/a'', en_identity = \<lparr>fi_device = 1, fi_inode = 2\<rparr>,
      en_origin = TrustedSelection Brokered\<rparr>"

definition sample_kept :: recents_system where
  "sample_kept =
     (let (w, r, st) = remember_recent sample_files sample_grant (rs_registry sample_chosen) (rs_store sample_chosen) in
      put_writes [True] [(''list'', encode_entries [sample_entry])] (sample_chosen\<lparr>rs_registry := r, rs_store := st\<rparr>))"

lemma sample_chosen_reachable: "recents_reachable sample_chosen"
proof -
  let ?a = "recents_start\<lparr>rs_store := configured [] (Some ''list'')\<rparr>"
  let ?b = "?a\<lparr>rs_registry := rs_registry sample_chosen\<rparr>"
  have "recent_change recents_start ?a"
    using recent_change.configured [of sample_files "Some ''list''" "[]" "configured [] (Some ''list'')" recents_start]
    by (simp add: configure_def load_entries_def sample_files_def recents_start_def)
  then have "recents_reachable ?a"
    by (rule recents_reachable.change [OF recents_reachable.start]) (simp add: configured_def newest_key_def)
  then have "recents_reachable ?b"
    by (rule recents_reachable.change [OF _ recent_change.granted]) (simp add: configured_def newest_key_def)
  then have "recents_reachable (?b\<lparr>rs_store := note_source sample_grant EntryFile ''/a'' (rs_store ?b)\<rparr>)"
    by (rule recents_reachable.change [OF _ recent_change.noted]) (simp add: note_source_def configured_def newest_key_def)
  then show ?thesis by (simp add: sample_chosen_def recents_start_def)
qed

lemma sample_remembered:
  "\<exists>r st. remember_recent sample_files sample_grant (rs_registry sample_chosen) (rs_store sample_chosen) =
       (Ok (Some (''list'', encode_entries [sample_entry])), r, st) \<and>
     rc_next_key st = 2 \<and> rc_entries st = [sample_entry] \<and> rc_backing st = Some ''list'' \<and> rc_held st sample_grant = Some 1 \<and>
     grant_at r sample_grant = Some \<lparr>gr_id = sample_grant, gr_rights = right_read, gr_origin = TrustedSelection Brokered,
       gr_lifetime = Remembered, gr_parent = None, gr_root = sample_grant, gr_revoked = False\<rparr>"
  by (simp add: remember_recent_def remember_inner_def remember_def sample_chosen_def record_root_def grants_start_def
      withdrawn_def is_live_def note_source_def configured_def sample_files_def remember_place_def put_first_def newest_key_def
      written_def sample_entry_def max_entries_def Let_def)

lemma sample_kept_parts:
  "rs_synced sample_kept" "rs_file sample_kept = Some (encode_entries [sample_entry])"
  "rc_entries (rs_store sample_kept) = [sample_entry]" "rc_next_key (rs_store sample_kept) = 2"
  "rc_backing (rs_store sample_kept) = Some ''list''" "rc_held (rs_store sample_kept) sample_grant = Some 1"
  "grant_at (rs_registry sample_kept) sample_grant = Some \<lparr>gr_id = sample_grant, gr_rights = right_read,
     gr_origin = TrustedSelection Brokered, gr_lifetime = Remembered, gr_parent = None, gr_root = sample_grant, gr_revoked = False\<rparr>"
  using sample_remembered by (auto simp: sample_kept_def put_writes_def put_write_def)

lemma sample_kept_reachable: "recents_reachable sample_kept"
proof -
  from sample_remembered obtain r st where
    remembered: "remember_recent sample_files sample_grant (rs_registry sample_chosen) (rs_store sample_chosen) =
       (Ok (Some (''list'', encode_entries [sample_entry])), r, st)"
    by blast
  then have kept: "sample_kept = put_writes [True] (optional_write (Some (''list'', encode_entries [sample_entry])))
      (sample_chosen\<lparr>rs_registry := r, rs_store := st\<rparr>)" by (simp add: sample_kept_def)
  have "recent_change sample_chosen sample_kept"
    unfolding kept by (rule recent_change.remembered [OF remembered]) simp
  then show ?thesis by (rule recents_reachable.change [OF sample_chosen_reachable]) (simp add: sample_kept_parts)
qed


lemma remember_puts_first_witness:
  "\<exists>w r st e. remember_recent sample_files sample_grant (rs_registry sample_chosen) (rs_store sample_chosen) = (Ok w, r, st) \<and>
     rc_entries st = [e] \<and> same_place (en_path e) ''/a'' \<and> en_key e = 1"
proof -
  from sample_remembered obtain r st where
    remembered: "remember_recent sample_files sample_grant (rs_registry sample_chosen) (rs_store sample_chosen) =
       (Ok (Some (''list'', encode_entries [sample_entry])), r, st)" "rc_next_key st = 2" "rc_entries st = [sample_entry]"
    by blast
  from remember_puts_first [OF sample_chosen_reachable remembered(1)] remembered(2) obtain e where
    "rc_entries st = take max_entries [e]" by (auto simp: sample_chosen_def note_source_def configured_def)
  with remembered have "e = sample_entry" by (simp add: max_entries_def)
  then show ?thesis using remembered by (auto simp: sample_entry_def)
qed

lemma withdrawn_is_forgotten_witness:
  "\<exists>t :: recents_system. fst (reopen sample_files 1 EntryFile (rs_store t)) = Err Forgotten \<and>
     1 \<notin> en_key ` set (file_entries (rs_file t)) \<and> file_entries (rs_file sample_kept) = [sample_entry]"
proof -
  obtain writes r st where w: "withdraw_grant sample_grant (rs_registry sample_kept) (rs_store sample_kept) = (writes, r, st)"
    by (metis prod_cases3)
  let ?t = "put_writes (replicate (length writes) True) writes (sample_kept\<lparr>rs_registry := r, rs_store := st\<rparr>)"
  have "file_entries (rs_file sample_kept) = [sample_entry]"
    using recents_reachable_ok [OF sample_kept_reachable] by (simp add: recents_ok_def sample_kept_parts)
  moreover have "fst (reopen sample_files 1 EntryFile (rs_store ?t)) = Err Forgotten \<and>
      1 \<notin> en_key ` set (file_entries (rs_file ?t))"
    using withdrawn_is_forgotten [OF sample_kept_reachable sample_kept_parts(7) _ _ w refl, of 1 sample_files EntryFile]
    by (simp add: sample_kept_parts)
  ultimately show ?thesis by blast
qed

end
