(* ===== verification/Timers.thy ===== *)
theory Timers
  imports Prelude
begin

text \<open>
  Repeating timers (\<open>timers.rs\<close>): the store of timers, the wait of \<open>next\<close>, cancelling, and what
  happens when the last handle of a timer is freed. A timer is shared between the store and the
  calls that wait on it, so it lives in a table of its own by its id, which is never reused; what
  the store holds is the set of ids. Instants are nanoseconds. A failed assertion ends the
  process: the entry points are \<open>extern "C"\<close>.
\<close>

section \<open>The store\<close>

definition max_active :: nat where "max_active = 256"

record timer =
  tm_canceled :: bool
  tm_waiting :: bool
  tm_next :: nat
  tm_interval :: nat

record timer_store =
  tr_next :: u64
  tr_timers :: "u64 \<rightharpoonup> timer"
  tr_ids :: "u64 list"
  tr_allocations :: "nat \<rightharpoonup> u64"
  tr_fired :: u64

definition timers_start :: timer_store where
  "timers_start = \<lparr>tr_next = 1, tr_timers = Map.empty, tr_ids = [], tr_allocations = Map.empty, tr_fired = 0\<rparr>"

text \<open>The entry the handle names, when the store still has it.\<close>

definition lookup_timer :: "u64 \<Rightarrow> timer_store \<Rightarrow> u64 option" where
  "lookup_timer i r = (if i \<in> set (tr_ids r) then Some i else None)"

text \<open>
  Starting a timer at an instant; the allocator answers with the allocation of the handle's box.
\<close>

definition start_timer :: "nat \<Rightarrow> nat \<Rightarrow> u64 \<Rightarrow> timer_store \<Rightarrow> (unit, u64 \<times> timer_store) outcome" where
  "start_timer now allocation ms r =
     (if \<not> (1 \<le> ms \<and> ms \<le> 60000) then Panic
      else if \<not> length (tr_ids r) < max_active then Panic
      else
        case checked_add (tr_next r) 1 of
          None \<Rightarrow> Panic
        | Some after \<Rightarrow>
            (let i = tr_next r; interval = unat ms * 1000000 in
             Ok (i, r\<lparr>tr_next := after,
               tr_timers := (tr_timers r)(i \<mapsto> \<lparr>tm_canceled = False, tm_waiting = False, tm_next = now + interval,
                                                tm_interval = interval\<rparr>),
               tr_ids := List.insert i (tr_ids r),
               tr_allocations := (tr_allocations r)(allocation \<mapsto> i)\<rparr>)))"

text \<open>Writing the timer back, under its lock.\<close>

definition put_timer :: "u64 \<Rightarrow> timer \<Rightarrow> timer_store \<Rightarrow> timer_store" where
  "put_timer i t r = r\<lparr>tr_timers := (tr_timers r)(i \<mapsto> t)\<rparr>"

section \<open>Waiting\<close>

text \<open>
  The loop of \<open>next\<close> from where it holds the lock: \<open>None\<close> goes to sleep until the deadline, giving
  the lock up; otherwise the call returns. The clock is read once more, later, when it fires.
\<close>

definition loop_check :: "nat \<Rightarrow> nat \<Rightarrow> bool \<Rightarrow> timer \<Rightarrow> (bool \<times> timer) option" where
  "loop_check now after requested t =
     (if \<not> tm_canceled t \<and> \<not> requested \<and> \<not> tm_next t \<le> now then None
      else Some
        (let t = t\<lparr>tm_waiting := False\<rparr> in
         if tm_canceled t then (False, t)
         else if requested then (False, t)
         else (True, t\<lparr>tm_next := after + tm_interval t\<rparr>)))"

text \<open>Taking the lock for the first time: one call waits on a timer at a time.\<close>

definition enter_wait :: "nat \<Rightarrow> nat \<Rightarrow> bool \<Rightarrow> timer \<Rightarrow> (bool \<times> timer) option \<times> timer" where
  "enter_wait now after requested t =
     (if tm_canceled t \<or> tm_waiting t then (Some (False, t), t)
      else (let t = t\<lparr>tm_waiting := True\<rparr> in (loop_check now after requested t, t)))"

text \<open>What a call that returns leaves behind: the timer, and one more firing when it fired.\<close>

definition settle :: "u64 \<Rightarrow> bool \<times> timer \<Rightarrow> timer_store \<Rightarrow> timer_store" where
  "settle i result r =
     (let r = put_timer i (snd result) r in if fst result then r\<lparr>tr_fired := tr_fired r + 1\<rparr> else r)"

section \<open>Cancelling and freeing\<close>

definition close_timer :: "u64 \<Rightarrow> timer_store \<Rightarrow> bool \<times> timer_store" where
  "close_timer i r =
     (case tr_timers r i of
        None \<Rightarrow> (False, r)
      | Some t \<Rightarrow> (\<not> tm_canceled t, put_timer i (t\<lparr>tm_canceled := True\<rparr>) r))"

definition cancel_timer :: "u64 \<Rightarrow> timer_store \<Rightarrow> bool \<times> timer_store" where
  "cancel_timer i r = (case lookup_timer i r of None \<Rightarrow> (False, r) | Some i \<Rightarrow> close_timer i r)"

text \<open>Freeing an allocation removes the timer of its handle from the store; then it is closed.\<close>

definition unroute :: "nat \<Rightarrow> timer_store \<Rightarrow> u64 option \<times> timer_store" where
  "unroute base r =
     (case tr_allocations r base of
        None \<Rightarrow> (None, r)
      | Some i \<Rightarrow>
          (if i \<in> set (tr_ids r) then Some i else None,
           r\<lparr>tr_allocations := (tr_allocations r)(base := None), tr_ids := remove1 i (tr_ids r)\<rparr>))"

definition timer_dealloc :: "nat \<Rightarrow> timer_store \<Rightarrow> timer_store" where
  "timer_dealloc base r =
     (let (removed, r) = unroute base r in case removed of None \<Rightarrow> r | Some i \<Rightarrow> snd (close_timer i r))"

definition active_timers :: "timer_store \<Rightarrow> nat" where
  "active_timers r =
     length (filter (\<lambda>i. case tr_timers r i of Some t \<Rightarrow> \<not> tm_canceled t | None \<Rightarrow> False) (tr_ids r))"

definition fired_count :: "timer_store \<Rightarrow> u64" where
  "fired_count r = tr_fired r"

end
