(* ===== verification/TimerWaits.thy ===== *)
theory TimerWaits
  imports Timers
begin

text \<open>
  The timers under interleaving: calls of \<open>next\<close> on any threads, cancelling, freeing handles, tasks
  that end, and the clock. Between the locks anything may happen. No wake-up is lost, and in a
  fair run every call returns.
\<close>

section \<open>The machine\<close>

text \<open>
  A call of \<open>next\<close>: not made yet, past its lookup, asleep on the condition variable, returned.
\<close>

datatype call_at = Uncalled | Looked u64 | Asleep u64 | Returned bool

text \<open>
  The clock, the store, the calls; the calls whose task has ended; the hooks of ended tasks that
  have yet to run; the calls that have been notified; the timers removed and yet to be closed.
\<close>

record timer_machine =
  mt_now :: nat
  mt_store :: timer_store
  mt_call :: "nat \<Rightarrow> call_at"
  mt_ended :: "nat set"
  mt_hooks :: "nat set"
  mt_notified :: "nat set"
  mt_closing :: "u64 set"

definition timer_machine_start :: timer_machine where
  "timer_machine_start =
     \<lparr>mt_now = 0, mt_store = timers_start, mt_call = \<lambda>_. Uncalled, mt_ended = {}, mt_hooks = {}, mt_notified = {},
      mt_closing = {}\<rparr>"

datatype timer_event =
    Tick nat | StartTimer nat u64 | Lookup nat u64 | Enter nat nat | WakeUp nat nat | CancelTimer u64
  | Dealloc nat | Close u64 | TaskEnds nat | RunHook nat

definition sleepers :: "u64 \<Rightarrow> timer_machine \<Rightarrow> nat set" where
  "sleepers i m = {c. mt_call m c = Asleep i}"

text \<open>A call goes to sleep, or returns and leaves the lock.\<close>

definition after_check :: "nat \<Rightarrow> u64 \<Rightarrow> timer \<Rightarrow> (bool \<times> timer) option \<Rightarrow> timer_machine \<Rightarrow> timer_machine" where
  "after_check c i t result m =
     (case result of
        None \<Rightarrow> m\<lparr>mt_store := put_timer i t (mt_store m), mt_call := (mt_call m)(c := Asleep i),
                  mt_notified := mt_notified m - {c}\<rparr>
      | Some r \<Rightarrow> m\<lparr>mt_store := settle i r (mt_store m), mt_call := (mt_call m)(c := Returned (fst r)),
                   mt_notified := mt_notified m - {c}\<rparr>)"

inductive timer_step :: "timer_machine \<Rightarrow> timer_event \<Rightarrow> timer_machine \<Rightarrow> bool" where
  tick: "mt_now m \<le> t \<Longrightarrow> timer_step m (Tick t) (m\<lparr>mt_now := t\<rparr>)"
| starts: "start_timer (mt_now m) allocation ms (mt_store m) = Ok (i, r) \<Longrightarrow>
     timer_step m (StartTimer allocation ms) (m\<lparr>mt_store := r\<rparr>)"
| looks: "mt_call m c = Uncalled \<Longrightarrow>
     timer_step m (Lookup c i)
       (m\<lparr>mt_call := (mt_call m)(c := case lookup_timer i (mt_store m) of Some i \<Rightarrow> Looked i | None \<Rightarrow> Returned False)\<rparr>)"
| enters: "mt_call m c = Looked i \<Longrightarrow> tr_timers (mt_store m) i = Some t \<Longrightarrow> mt_now m \<le> after \<Longrightarrow>
     enter_wait (mt_now m) after (c \<in> mt_ended m) t = (result, t') \<Longrightarrow>
     timer_step m (Enter c after) (after_check c i t' result (m\<lparr>mt_now := after\<rparr>))"
| wakes: "mt_call m c = Asleep i \<Longrightarrow> tr_timers (mt_store m) i = Some t \<Longrightarrow> mt_now m \<le> after \<Longrightarrow>
     timer_step m (WakeUp c after)
       (after_check c i t (loop_check (mt_now m) after (c \<in> mt_ended m) t) (m\<lparr>mt_now := after\<rparr>))"
| cancels: "lookup_timer i (mt_store m) \<noteq> None \<Longrightarrow>
     timer_step m (CancelTimer i)
       (m\<lparr>mt_store := snd (cancel_timer i (mt_store m)), mt_notified := mt_notified m \<union> sleepers i m\<rparr>)"
| frees: "unroute base (mt_store m) = (removed, r) \<Longrightarrow>
     timer_step m (Dealloc base) (m\<lparr>mt_store := r, mt_closing := mt_closing m \<union> set_option removed\<rparr>)"
| closes: "i \<in> mt_closing m \<Longrightarrow>
     timer_step m (Close i)
       (m\<lparr>mt_store := snd (close_timer i (mt_store m)), mt_closing := mt_closing m - {i},
          mt_notified := mt_notified m \<union> sleepers i m\<rparr>)"
| ends: "timer_step m (TaskEnds c) (m\<lparr>mt_ended := insert c (mt_ended m), mt_hooks := insert c (mt_hooks m)\<rparr>)"
| hook: "c \<in> mt_hooks m \<Longrightarrow>
     timer_step m (RunHook c)
       (m\<lparr>mt_hooks := mt_hooks m - {c},
          mt_notified := mt_notified m \<union> (case mt_call m c of Asleep i \<Rightarrow> sleepers i m | _ \<Rightarrow> {})\<rparr>)"

inductive timers_reachable :: "timer_machine \<Rightarrow> bool" where
  start: "timers_reachable timer_machine_start"
| step: "timers_reachable m \<Longrightarrow> timer_step m e n \<Longrightarrow> timers_reachable n"

section \<open>What is kept\<close>

text \<open>
  The ids are issued in order; one call sleeps on a timer exactly while it is marked; a sleeping call
  that has a reason to return has been notified, or the hook that does is still to run.
\<close>

definition call_ok :: "(nat \<Rightarrow> call_at) \<Rightarrow> (u64 \<rightharpoonup> timer) \<Rightarrow> bool" where
  "call_ok call ts \<longleftrightarrow>
     (\<forall>c i. call c = Looked i \<or> call c = Asleep i \<longrightarrow> ts i \<noteq> None) \<and>
     (\<forall>i t. ts i = Some t \<longrightarrow> (tm_waiting t \<longleftrightarrow> (\<exists>c. call c = Asleep i))) \<and>
     (\<forall>c d i. call c = Asleep i \<longrightarrow> call d = Asleep i \<longrightarrow> c = d)"

abbreviation calls_ok :: "timer_machine \<Rightarrow> bool" where
  "calls_ok m \<equiv> call_ok (mt_call m) (tr_timers (mt_store m))"

definition wakes_ok :: "timer_machine \<Rightarrow> bool" where
  "wakes_ok m \<longleftrightarrow>
     (\<forall>c i t. mt_call m c = Asleep i \<longrightarrow> tr_timers (mt_store m) i = Some t \<longrightarrow> tm_canceled t \<longrightarrow> c \<in> mt_notified m) \<and>
     (\<forall>c i. mt_call m c = Asleep i \<longrightarrow> c \<in> mt_ended m \<longrightarrow> c \<in> mt_notified m \<or> c \<in> mt_hooks m)"

lemma sleepers_iff [simp]: "c \<in> sleepers i m \<longleftrightarrow> mt_call m c = Asleep i"
  by (simp add: sleepers_def)

lemma loop_check_None: "loop_check now after requested t = None \<longleftrightarrow> \<not> tm_canceled t \<and> \<not> requested \<and> now < tm_next t"
  by (simp add: loop_check_def not_le)

lemma loop_check_Some:
  "loop_check now after requested t = Some (b, t') \<Longrightarrow> \<not> tm_waiting t' \<and> tm_canceled t' = tm_canceled t"
  by (auto simp: loop_check_def Let_def split: if_splits)

lemma enter_wait_cases:
  assumes "enter_wait now after requested t = (result, t')"
  obtains (refused) "result = Some (False, t)" "t' = t" "tm_canceled t \<or> tm_waiting t"
    | (waits) "\<not> tm_canceled t" "\<not> tm_waiting t" "t' = t\<lparr>tm_waiting := True\<rparr>"
        "result = loop_check now after requested t'"
proof (cases "tm_canceled t \<or> tm_waiting t")
  case True
  then have "(Some (False, t), t) = (result, t')" using assms by (simp only: enter_wait_def if_True)
  then have "result = Some (False, t)" "t' = t" by auto
  then show ?thesis by (rule refused) (rule True)
next
  case False
  then have "\<not> tm_canceled t" "\<not> tm_waiting t" "t' = t\<lparr>tm_waiting := True\<rparr>" "result = loop_check now after requested t'"
    using assms by (auto simp: enter_wait_def Let_def)
  then show ?thesis by (rule waits)
qed

text \<open>How a step leaves the parts of the machine.\<close>

lemma after_check_None [simp]:
  "after_check c i t None m =
     m\<lparr>mt_store := put_timer i t (mt_store m), mt_call := (mt_call m)(c := Asleep i), mt_notified := mt_notified m - {c}\<rparr>"
  by (simp add: after_check_def)

lemma after_check_Some [simp]:
  "after_check c i t (Some (b, t')) m =
     m\<lparr>mt_store := settle i (b, t') (mt_store m), mt_call := (mt_call m)(c := Returned b), mt_notified := mt_notified m - {c}\<rparr>"
  by (simp add: after_check_def)

lemma settle_parts [simp]:
  "tr_timers (settle i (b, t) r) = (tr_timers r)(i \<mapsto> t)" "tr_ids (settle i (b, t) r) = tr_ids r"
  "tr_next (settle i (b, t) r) = tr_next r"
  by (simp_all add: settle_def put_timer_def Let_def)

lemma put_timer_parts [simp]:
  "tr_timers (put_timer i t r) = (tr_timers r)(i \<mapsto> t)" "tr_ids (put_timer i t r) = tr_ids r"
  "tr_next (put_timer i t r) = tr_next r"
  by (simp_all add: put_timer_def)

lemma start_timer_Ok:
  assumes "start_timer now allocation ms r = Ok (i, r')"
  shows "i = tr_next r \<and> unat (tr_next r') = unat (tr_next r) + 1 \<and> length (tr_ids r) < max_active \<and>
    tr_ids r' = List.insert i (tr_ids r) \<and>
    (\<exists>t. tr_timers r' = (tr_timers r)(i \<mapsto> t) \<and> \<not> tm_waiting t \<and> \<not> tm_canceled t)"
  using assms checked_add_SomeD [of "tr_next r" 1]
  by (auto simp: start_timer_def Let_def split: if_splits option.splits)

text \<open>Closing changes at most the mark of one timer.\<close>

lemma close_timer_parts:
  "tr_timers (snd (close_timer i r)) j =
     (if j = i then map_option (\<lambda>t. t\<lparr>tm_canceled := True\<rparr>) (tr_timers r j) else tr_timers r j)"
  "tr_ids (snd (close_timer i r)) = tr_ids r" "tr_next (snd (close_timer i r)) = tr_next r"
  by (auto simp: close_timer_def split: option.split)

lemma unroute_parts:
  "unroute base r = (removed, r') \<Longrightarrow> tr_timers r' = tr_timers r \<and> tr_next r' = tr_next r \<and>
     (tr_ids r' = tr_ids r \<or> (\<exists>i. tr_ids r' = remove1 i (tr_ids r)))"
  by (auto simp: unroute_def split: option.splits)

lemma cancel_timer_close: "lookup_timer i r \<noteq> None \<Longrightarrow> cancel_timer i r = close_timer i r"
  by (auto simp: cancel_timer_def lookup_timer_def split: if_splits)

section \<open>The store stays consistent\<close>

definition store_fine :: "timer_store \<Rightarrow> bool" where
  "store_fine r \<longleftrightarrow>
     (\<forall>i. tr_timers r i \<noteq> None \<longrightarrow> i < tr_next r) \<and> set (tr_ids r) \<subseteq> dom (tr_timers r) \<and>
     distinct (tr_ids r) \<and> length (tr_ids r) \<le> max_active"

lemma store_fine_update: "store_fine r \<Longrightarrow> tr_timers r i \<noteq> None \<Longrightarrow> tr_timers r' = (tr_timers r)(i \<mapsto> t) \<Longrightarrow>
    tr_ids r' = tr_ids r \<Longrightarrow> tr_next r' = tr_next r \<Longrightarrow> store_fine r'"
  by (auto simp: store_fine_def)

lemma store_fine_start:
  assumes "store_fine r" and "start_timer now allocation ms r = Ok (i, r')"
  shows "store_fine r'"
proof -
  from start_timer_Ok [OF assms(2)] obtain t where
    parts: "i = tr_next r" "unat (tr_next r') = unat (tr_next r) + 1" "length (tr_ids r) < max_active"
      "tr_ids r' = List.insert i (tr_ids r)" "tr_timers r' = (tr_timers r)(i \<mapsto> t)" by blast
  have less: "tr_next r < tr_next r'" using parts(2) by (simp add: word_less_nat_alt)
  have "j < tr_next r'" if "tr_timers r' j \<noteq> None" for j
    using that parts(1,5) less assms(1) less_trans [OF _ less, of j] by (auto simp: store_fine_def split: if_splits)
  moreover have "i \<notin> set (tr_ids r)"
    using assms(1) unfolding parts(1) store_fine_def by (metis domD option.distinct(1) order_less_irrefl subsetD)
  ultimately show ?thesis using assms(1) parts(3-5) by (auto simp: store_fine_def)
qed

lemma store_fine_close: "store_fine r \<Longrightarrow> store_fine (snd (close_timer i r))"
  by (auto simp: store_fine_def close_timer_parts split: if_splits)

lemma store_fine_unroute: "store_fine r \<Longrightarrow> unroute base r = (removed, r') \<Longrightarrow> store_fine r'"
  using unroute_parts [of base r removed r'] set_remove1_subset [of _ "tr_ids r"] length_remove1 [of _ "tr_ids r"]
  by (auto simp: store_fine_def distinct_remove1 split: if_splits)

lemma store_fine_check:
  "store_fine (mt_store m) \<Longrightarrow> tr_timers (mt_store m) i \<noteq> None \<Longrightarrow> store_fine (mt_store (after_check c i t result m))"
  by (cases result) (auto intro: store_fine_update)

lemma store_fine_step: "timer_step m e n \<Longrightarrow> store_fine (mt_store m) \<Longrightarrow> store_fine (mt_store n)"
proof (induction rule: timer_step.induct)
  case (starts m allocation ms i r)
  then show ?case using store_fine_start by simp
next
  case (enters m c i t after result t')
  then show ?case using store_fine_check [of "m\<lparr>mt_now := after\<rparr>"] by simp
next
  case (wakes m c i t after)
  then show ?case using store_fine_check [of "m\<lparr>mt_now := after\<rparr>"] by simp
next
  case (frees base m removed r)
  then show ?case using store_fine_unroute by simp
qed (simp_all add: cancel_timer_close store_fine_close)

section \<open>One call sleeps on a timer, and it is told\<close>

lemma call_okD:
  assumes "call_ok call ts"
  shows "call c = Looked i \<Longrightarrow> ts i \<noteq> None" "call c = Asleep i \<Longrightarrow> ts i \<noteq> None"
    "ts i = Some t \<Longrightarrow> tm_waiting t \<longleftrightarrow> (\<exists>c. call c = Asleep i)"
    "call c = Asleep i \<Longrightarrow> call d = Asleep i \<Longrightarrow> c = d"
  using assms unfolding call_ok_def by blast+

text \<open>A call moves on, at the timer it had looked up or slept on.\<close>

lemma call_ok_move:
  assumes ok: "call_ok call ts" and at: "call c = Looked i \<or> call c = Asleep i" and "ts i \<noteq> None"
    and new: "x = Asleep i \<and> (\<forall>d. call d = Asleep i \<longrightarrow> d = c) \<or> x = Returned b"
    and waiting: "tm_waiting t \<longleftrightarrow> x = Asleep i \<or> (\<exists>d. d \<noteq> c \<and> call d = Asleep i)"
  shows "call_ok (call(c := x)) (ts(i \<mapsto> t))"
proof -
  have kind: "x = Asleep i \<or> x = Returned b" using new by blast
  have other: "(call(c := x)) d = Asleep j \<longleftrightarrow> call d = Asleep j" if "j \<noteq> i" for d j
    using at kind that by auto
  have here: "(\<exists>d. (call(c := x)) d = Asleep i) \<longleftrightarrow> x = Asleep i \<or> (\<exists>d. d \<noteq> c \<and> call d = Asleep i)"
    by auto
  show ?thesis
    unfolding call_ok_def
  proof (intro conjI allI impI)
    fix d j
    assume "(call(c := x)) d = Looked j \<or> (call(c := x)) d = Asleep j"
    then show "(ts(i \<mapsto> t)) j \<noteq> None" using kind call_okD(1,2) [OF ok, of d j] by (auto split: if_splits)
  next
    fix j s
    assume s: "(ts(i \<mapsto> t)) j = Some s"
    show "tm_waiting s \<longleftrightarrow> (\<exists>d. (call(c := x)) d = Asleep j)"
    proof (cases "j = i")
      case True
      then show ?thesis using s here waiting by simp
    next
      case False
      then show ?thesis using s other [OF False] call_okD(3) [OF ok, of j s] by simp
    qed
  next
    fix d e j
    assume d: "(call(c := x)) d = Asleep j" and e: "(call(c := x)) e = Asleep j"
    show "d = e"
    proof (cases "j = i")
      case True
      have "call d = Asleep i \<or> d = c \<and> x = Asleep i" "call e = Asleep i \<or> e = c \<and> x = Asleep i"
        using d e True by (auto split: if_splits)
      then show ?thesis using new call_okD(4) [OF ok, of d i e] by blast
    next
      case False
      show ?thesis using d e unfolding other [OF False] by (rule call_okD(4) [OF ok])
    qed
  qed
qed

lemma call_ok_enter:
  assumes ok: "call_ok (mt_call m) (tr_timers (mt_store m))" and call: "mt_call m c = Looked i"
    and t: "tr_timers (mt_store m) i = Some t" and enter: "enter_wait now after requested t = (result, t')"
  shows "calls_ok (after_check c i t' result m)"
proof -
  note waiting = call_okD(3) [OF ok t]
  from enter show ?thesis
  proof (cases rule: enter_wait_cases)
    case refused
    have "mt_call m d = Asleep i \<Longrightarrow> d \<noteq> c" for d using call by auto
    then have "tm_waiting t \<longleftrightarrow> (\<exists>d. d \<noteq> c \<and> mt_call m d = Asleep i)" using waiting by blast
    then show ?thesis using call_ok_move [OF ok, of c i "Returned False" False t] call t refused(1,2) by simp
  next
    case waits
    show ?thesis
    proof (cases result)
      case None
      have "\<not> (\<exists>d. mt_call m d = Asleep i)" using waiting waits(2) by simp
      then show ?thesis using call_ok_move [OF ok, of c i "Asleep i" False t'] call t waits(3) None by simp
    next
      case (Some r)
      then obtain b t2 where r: "r = (b, t2)" "loop_check now after requested t' = Some (b, t2)" using waits(4) by (cases r) auto
      have "\<not> (\<exists>d. mt_call m d = Asleep i)" using waiting waits(2) by simp
      then show ?thesis
        using call_ok_move [OF ok, of c i "Returned b" b t2] loop_check_Some [OF r(2)] Some r(1) call t by simp
    qed
  qed
qed

lemma call_ok_wake:
  assumes ok: "call_ok (mt_call m) (tr_timers (mt_store m))" and call: "mt_call m c = Asleep i"
    and t: "tr_timers (mt_store m) i = Some t"
  shows "calls_ok (after_check c i t (loop_check now after requested t) m)"
proof -
  have waiting: "tm_waiting t" using call_okD(3) [OF ok t] call by blast
  have alone: "\<forall>d. mt_call m d = Asleep i \<longrightarrow> d = c" using call_okD(4) [OF ok _ call] by blast
  show ?thesis
  proof (cases "loop_check now after requested t")
    case None
    have "call_ok ((mt_call m)(c := Asleep i)) ((tr_timers (mt_store m))(i \<mapsto> t))"
    proof (rule call_ok_move [OF ok, where b = False])
      show "Asleep i = Asleep i \<and> (\<forall>d. mt_call m d = Asleep i \<longrightarrow> d = c) \<or> Asleep i = Returned False"
        using alone by blast
    qed (simp_all add: call t waiting)
    then show ?thesis using None by simp
  next
    case (Some r)
    then obtain b t2 where r: "r = (b, t2)" "loop_check now after requested t = Some (b, t2)" by (cases r) auto
    have "\<not> (\<exists>d. d \<noteq> c \<and> mt_call m d = Asleep i)" using alone by blast
    then show ?thesis
      using call_ok_move [OF ok, of c i "Returned b" b t2] loop_check_Some [OF r(2)] Some r(1) call t by simp
  qed
qed

text \<open>The calls are as before, and the timers differ at most in their cancellation.\<close>

lemma call_ok_frame:
  assumes ok: "call_ok call ts" and "\<And>i t. ts' i = Some t \<Longrightarrow> \<exists>s. ts i = Some s \<and> tm_waiting s = tm_waiting t"
    and "\<And>i. ts i \<noteq> None \<Longrightarrow> ts' i \<noteq> None"
  shows "call_ok call ts'"
  unfolding call_ok_def
proof (intro conjI allI impI)
  fix i t
  assume "ts' i = Some t"
  from assms(2) [OF this] show "tm_waiting t \<longleftrightarrow> (\<exists>c. call c = Asleep i)" using call_okD(3) [OF ok] by auto
qed (use call_okD [OF ok] assms(3) in blast)+

lemma call_ok_new:
  assumes ok: "call_ok call ts" and "ts i = None" and "\<not> tm_waiting t"
  shows "call_ok call (ts(i \<mapsto> t))"
proof -
  have "\<not> (\<exists>c. call c = Asleep i)" using call_okD(2) [OF ok] assms(2) by blast
  then show ?thesis using ok assms(3) unfolding call_ok_def by auto
qed

lemma call_ok_close:
  assumes "call_ok call (tr_timers r)"
  shows "call_ok call (tr_timers (snd (close_timer i r)))"
proof (rule call_ok_frame [OF assms])
  fix j t
  assume "tr_timers (snd (close_timer i r)) j = Some t"
  then show "\<exists>s. tr_timers r j = Some s \<and> tm_waiting s = tm_waiting t"
    unfolding close_timer_parts by (auto split: if_splits)
next
  fix j
  assume "tr_timers r j \<noteq> None"
  then show "tr_timers (snd (close_timer i r)) j \<noteq> None" by (auto simp: close_timer_parts)
qed

lemma call_ok_looks:
  assumes ok: "call_ok call ts" and "call c = Uncalled" and "x = Looked i \<and> ts i \<noteq> None \<or> x = Returned b"
  shows "call_ok (call(c := x)) ts"
proof -
  have same: "(call(c := x)) d = Asleep j \<longleftrightarrow> call d = Asleep j" for d j using assms(2,3) by auto
  show ?thesis
    unfolding call_ok_def same using ok assms(3) unfolding call_ok_def by auto
qed

lemma calls_ok_step: "timer_step m e n \<Longrightarrow> store_fine (mt_store m) \<Longrightarrow> calls_ok m \<Longrightarrow> calls_ok n"
proof (induction rule: timer_step.induct)
  case (starts m allocation ms i r)
  from start_timer_Ok [OF starts(1)] obtain t where
    t: "i = tr_next (mt_store m)" "tr_timers r = (tr_timers (mt_store m))(i \<mapsto> t)" "\<not> tm_waiting t" by blast
  have "tr_timers (mt_store m) i = None"
    using starts(2) unfolding t(1) store_fine_def by (metis order_less_irrefl)
  from call_ok_new [OF starts(3) this t(3)] have "call_ok (mt_call m) (tr_timers r)" unfolding t(2) .
  then show ?case by simp
next
  case (looks m c i)
  have "i \<in> set (tr_ids (mt_store m)) \<Longrightarrow> tr_timers (mt_store m) i \<noteq> None"
    using looks(2) by (auto simp: store_fine_def)
  then have "(case lookup_timer i (mt_store m) of Some i \<Rightarrow> Looked i | None \<Rightarrow> Returned False) = Looked i \<and>
        tr_timers (mt_store m) i \<noteq> None \<or>
      (case lookup_timer i (mt_store m) of Some i \<Rightarrow> Looked i | None \<Rightarrow> Returned False) = Returned False"
    by (simp add: lookup_timer_def)
  from call_ok_looks [OF looks(3,1) this] show ?case by (simp add: fun_upd_def)
next
  case (enters m c i t after result t')
  then show ?case using call_ok_enter [of "m\<lparr>mt_now := after\<rparr>" c i t] by simp
next
  case (wakes m c i t after)
  then show ?case using call_ok_wake [of "m\<lparr>mt_now := after\<rparr>" c i t] by simp
next
  case (frees base m removed r)
  then show ?case using unroute_parts [OF frees(1)] by simp
next
  case (cancels i m)
  then show ?case unfolding cancel_timer_close [OF cancels(1)] using call_ok_close [OF cancels(3)] by simp
next
  case (closes i m)
  then show ?case using call_ok_close [OF closes(3)] by simp
qed simp_all

lemma wakes_okI:
  assumes "\<And>c i t. mt_call m c = Asleep i \<Longrightarrow> tr_timers (mt_store m) i = Some t \<Longrightarrow> tm_canceled t \<Longrightarrow> c \<in> mt_notified m"
    and "\<And>c i. mt_call m c = Asleep i \<Longrightarrow> c \<in> mt_ended m \<Longrightarrow> c \<in> mt_notified m \<or> c \<in> mt_hooks m"
  shows "wakes_ok m"
  using assms unfolding wakes_ok_def by blast

lemma wakes_okD:
  assumes "wakes_ok m"
  shows "mt_call m c = Asleep i \<Longrightarrow> tr_timers (mt_store m) i = Some t \<Longrightarrow> tm_canceled t \<Longrightarrow> c \<in> mt_notified m"
    and "mt_call m c = Asleep i \<Longrightarrow> c \<in> mt_ended m \<Longrightarrow> c \<in> mt_notified m \<or> c \<in> mt_hooks m"
  using assms unfolding wakes_ok_def by blast+

lemma wakes_ok_check:
  assumes ok: "wakes_ok m" and t: "tr_timers (mt_store m) i = Some t"
    and sleeps: "result = None \<Longrightarrow> \<not> tm_canceled t \<and> \<not> tm_canceled t' \<and> c \<notin> mt_ended m"
    and returns: "\<And>b t2. result = Some (b, t2) \<Longrightarrow> tm_canceled t2 = tm_canceled t"
  shows "wakes_ok (after_check c i t' result m)"
proof (cases result)
  case None
  show ?thesis
    unfolding None after_check_None
    by (rule wakes_okI) (use sleeps [OF None] t wakes_okD [OF ok] in \<open>auto split: if_splits\<close>)
next
  case (Some r)
  then obtain b t2 where r: "result = Some (b, t2)" by (cases r) simp
  show ?thesis
    unfolding r after_check_Some
    by (rule wakes_okI) (use returns [OF r] t wakes_okD [OF ok] in \<open>auto split: if_splits\<close>)
qed

lemma wakes_ok_frame:
  "wakes_ok m \<Longrightarrow> mt_call n = mt_call m \<Longrightarrow> tr_timers (mt_store n) = tr_timers (mt_store m) \<Longrightarrow>
   mt_notified m \<subseteq> mt_notified n \<Longrightarrow> mt_ended n \<subseteq> mt_ended m \<union> mt_hooks n \<Longrightarrow>
   mt_hooks m \<subseteq> mt_hooks n \<union> mt_notified n \<Longrightarrow> wakes_ok n"
  by (rule wakes_okI) (use wakes_okD [of m] in \<open>force simp del: not_None_eq\<close>)+

lemma wakes_ok_close:
  assumes "wakes_ok m"
  shows "wakes_ok (m\<lparr>mt_store := snd (close_timer i (mt_store m)), mt_notified := mt_notified m \<union> sleepers i m\<rparr>)"
proof (rule wakes_okI)
  let ?n = "m\<lparr>mt_store := snd (close_timer i (mt_store m)), mt_notified := mt_notified m \<union> sleepers i m\<rparr>"
  fix c j t
  assume c: "mt_call ?n c = Asleep j" "tr_timers (mt_store ?n) j = Some t" "tm_canceled t"
  show "c \<in> mt_notified ?n"
  proof (cases "j = i")
    case False
    then show ?thesis using c wakes_okD(1) [OF assms, of c j t] by (simp add: close_timer_parts)
  qed (use c in simp)
next
  let ?n = "m\<lparr>mt_store := snd (close_timer i (mt_store m)), mt_notified := mt_notified m \<union> sleepers i m\<rparr>"
  fix c j
  assume "mt_call ?n c = Asleep j" "c \<in> mt_ended ?n"
  then show "c \<in> mt_notified ?n \<or> c \<in> mt_hooks ?n" using wakes_okD(2) [OF assms, of c j] by auto
qed

lemma wakes_ok_step: "timer_step m e n \<Longrightarrow> store_fine (mt_store m) \<Longrightarrow> calls_ok m \<Longrightarrow> wakes_ok m \<Longrightarrow> wakes_ok n"
proof (induction rule: timer_step.induct)
  case (tick m t)
  from tick(4) show ?case by (rule wakes_ok_frame) simp_all
next
  case (starts m allocation ms i r)
  from start_timer_Ok [OF starts(1)] obtain t where
    t: "i = tr_next (mt_store m)" "tr_timers r = (tr_timers (mt_store m))(i \<mapsto> t)" "\<not> tm_canceled t" by blast
  show ?case
  proof (rule wakes_okI)
    fix c j s
    assume c: "mt_call (m\<lparr>mt_store := r\<rparr>) c = Asleep j" "tr_timers (mt_store (m\<lparr>mt_store := r\<rparr>)) j = Some s" "tm_canceled s"
    then have "((tr_timers (mt_store m))(i \<mapsto> t)) j = Some s" unfolding t(2) [symmetric] by simp
    then have "tr_timers (mt_store m) j = Some s" using c(3) t(3) by (cases "j = i") simp_all
    then show "c \<in> mt_notified (m\<lparr>mt_store := r\<rparr>)" using c wakes_okD(1) [OF starts(4)] by simp
  qed (use wakes_okD(2) [OF starts(4)] in simp)
next
  case (looks m c i)
  show ?case
    by (rule wakes_okI) (use wakes_okD [OF looks(4)] in \<open>auto split: if_splits option.splits\<close>)
next
  case (enters m c i t after result t')
  have now: "wakes_ok (m\<lparr>mt_now := after\<rparr>)" using enters(7) by (rule wakes_ok_frame) simp_all
  from enters(4) show ?case
  proof (cases rule: enter_wait_cases)
    case refused
    then show ?thesis by (intro wakes_ok_check [OF now, of i t]) (simp_all add: enters(2))
  next
    case waits
    show ?thesis
    proof (rule wakes_ok_check [OF now, of i t])
      show "result = None \<Longrightarrow> \<not> tm_canceled t \<and> \<not> tm_canceled t' \<and> c \<notin> mt_ended (m\<lparr>mt_now := after\<rparr>)"
        using waits(1,3,4) loop_check_None by simp
      show "result = Some (b, t2) \<Longrightarrow> tm_canceled t2 = tm_canceled t" for b t2
        using waits(3,4) loop_check_Some [of "mt_now m" after "c \<in> mt_ended m" t' b t2] by simp
    qed (simp add: enters(2))
  qed
next
  case (wakes m c i t after)
  have now: "wakes_ok (m\<lparr>mt_now := after\<rparr>)" using wakes(6) by (rule wakes_ok_frame) simp_all
  show ?case
  proof (rule wakes_ok_check [OF now, of i t])
    show "loop_check (mt_now m) after (c \<in> mt_ended m) t = None \<Longrightarrow>
        \<not> tm_canceled t \<and> \<not> tm_canceled t \<and> c \<notin> mt_ended (m\<lparr>mt_now := after\<rparr>)"
      using loop_check_None by simp
    show "loop_check (mt_now m) after (c \<in> mt_ended m) t = Some (b, t2) \<Longrightarrow> tm_canceled t2 = tm_canceled t" for b t2
      using loop_check_Some by blast
  qed (simp add: wakes(2))
next
  case (cancels i m)
  then show ?case unfolding cancel_timer_close [OF cancels(1)] using wakes_ok_close by simp
next
  case (frees base m removed r)
  show ?case using frees(4) by (rule wakes_ok_frame) (use unroute_parts [OF frees(1)] in simp_all)
next
  case (closes i m)
  from wakes_ok_close [OF closes(4), of i] show ?case by (rule wakes_ok_frame) simp_all
next
  case (ends m c)
  show ?case using ends(3) by (rule wakes_ok_frame) auto
next
  case (hook c m)
  show ?case
  proof (rule wakes_okI)
    fix d j
    assume d: "mt_call (m\<lparr>mt_hooks := mt_hooks m - {c},
        mt_notified := mt_notified m \<union> (case mt_call m c of Asleep i \<Rightarrow> sleepers i m | _ \<Rightarrow> {})\<rparr>) d = Asleep j"
      "d \<in> mt_ended (m\<lparr>mt_hooks := mt_hooks m - {c},
        mt_notified := mt_notified m \<union> (case mt_call m c of Asleep i \<Rightarrow> sleepers i m | _ \<Rightarrow> {})\<rparr>)"
    then show "d \<in> mt_notified (m\<lparr>mt_hooks := mt_hooks m - {c},
          mt_notified := mt_notified m \<union> (case mt_call m c of Asleep i \<Rightarrow> sleepers i m | _ \<Rightarrow> {})\<rparr>) \<or>
        d \<in> mt_hooks (m\<lparr>mt_hooks := mt_hooks m - {c},
          mt_notified := mt_notified m \<union> (case mt_call m c of Asleep i \<Rightarrow> sleepers i m | _ \<Rightarrow> {})\<rparr>)"
      using wakes_okD(2) [OF hook(4), of d j] by (cases "d = c") auto
  qed (use wakes_okD(1) [OF hook(4)] in auto)
qed

lemma timers_start_ok:
  "store_fine (mt_store timer_machine_start)" "calls_ok timer_machine_start" "wakes_ok timer_machine_start"
  by (simp_all add: timer_machine_start_def timers_start_def store_fine_def call_ok_def wakes_ok_def)

lemma timers_reachable_ok: "timers_reachable m \<Longrightarrow> store_fine (mt_store m) \<and> calls_ok m \<and> wakes_ok m"
proof (induction rule: timers_reachable.induct)
  case start
  show ?case using timers_start_ok by blast
next
  case (step m e n)
  then show ?case using store_fine_step [OF step(2)] calls_ok_step [OF step(2)] wakes_ok_step [OF step(2)] by blast
qed

text \<open>
  Claim C32: in every reachable state of the timers, however calls, cancellations, freed handles, ended
  tasks and the clock interleave: a timer is marked as waited on exactly while one call sleeps on
  it, and never two; a call that sleeps on a cancelled timer has been notified; a call that
  sleeps although its task has ended has been notified, or the hook that will notify it is still
  to run; and the store holds at most 256 timers.
\<close>

theorem timer_wakeups_kept:
  assumes "timers_reachable m"
  shows "(\<forall>i t. tr_timers (mt_store m) i = Some t \<longrightarrow> (tm_waiting t \<longleftrightarrow> (\<exists>!c. mt_call m c = Asleep i))) \<and>
    (\<forall>c i t. mt_call m c = Asleep i \<longrightarrow> tr_timers (mt_store m) i = Some t \<longrightarrow> tm_canceled t \<longrightarrow> c \<in> mt_notified m) \<and>
    (\<forall>c i. mt_call m c = Asleep i \<longrightarrow> c \<in> mt_ended m \<longrightarrow> c \<in> mt_notified m \<or> c \<in> mt_hooks m) \<and>
    length (tr_ids (mt_store m)) \<le> max_active"
proof -
  from timers_reachable_ok [OF assms] have ok: "store_fine (mt_store m)" "calls_ok m" "wakes_ok m" by blast+
  have "tm_waiting t \<longleftrightarrow> (\<exists>!c. mt_call m c = Asleep i)" if "tr_timers (mt_store m) i = Some t" for i t
    using call_okD(3) [OF ok(2) that] call_okD(4) [OF ok(2)] by blast
  then show ?thesis using wakes_okD [OF ok(3)] ok(1) unfolding store_fine_def by blast
qed

section \<open>Every call returns\<close>

text \<open>A call can go on: it is past its lookup, or it was notified, or its deadline has come.\<close>

definition call_ready :: "timer_machine \<Rightarrow> nat \<Rightarrow> bool" where
  "call_ready m c \<longleftrightarrow>
     (case mt_call m c of
        Looked i \<Rightarrow> True
      | Asleep i \<Rightarrow>
          c \<in> mt_notified m \<or> (case tr_timers (mt_store m) i of Some t \<Rightarrow> tm_next t \<le> mt_now m | None \<Rightarrow> False)
      | _ \<Rightarrow> False)"

fun call_moves :: "timer_event \<Rightarrow> nat \<Rightarrow> bool" where
  "call_moves (Enter d after) c = (d = c)"
| "call_moves (WakeUp d after) c = (d = c)"
| "call_moves _ c = False"

definition timer_run :: "(nat \<Rightarrow> timer_machine) \<Rightarrow> (nat \<Rightarrow> timer_event) \<Rightarrow> bool" where
  "timer_run run event \<longleftrightarrow> timers_reachable (run 0) \<and> (\<forall>n. timer_step (run n) (event n) (run (Suc n)))"

text \<open>The clock does not stop, and a call that stays ready is scheduled.\<close>

definition timer_fair :: "(nat \<Rightarrow> timer_machine) \<Rightarrow> (nat \<Rightarrow> timer_event) \<Rightarrow> bool" where
  "timer_fair run event \<longleftrightarrow>
     (\<forall>instant. \<exists>n. instant \<le> mt_now (run n)) \<and>
     (\<forall>c n. (\<forall>k \<ge> n. call_ready (run k) c) \<longrightarrow> (\<exists>k \<ge> n. call_moves (event k) c))"

lemma after_check_now [simp]: "mt_now (after_check c i t result m) = mt_now m"
  by (simp add: after_check_def split: option.split)

lemma step_now: "timer_step m e n \<Longrightarrow> mt_now m \<le> mt_now n"
  by (induction rule: timer_step.induct) simp_all

lemma after_check_call:
  "mt_call (after_check c i t result m) d =
     (if d = c then case result of None \<Rightarrow> Asleep i | Some r \<Rightarrow> Returned (fst r) else mt_call m d)"
  by (simp add: after_check_def split: option.split)

lemma step_looked:
  "timer_step m e n \<Longrightarrow> mt_call m c = Looked i \<Longrightarrow>
   mt_call n c = Looked i \<and> \<not> call_moves e c \<or> mt_call n c = Asleep i \<or> (\<exists>b. mt_call n c = Returned b)"
  by (induction rule: timer_step.induct) (auto simp: after_check_call split: option.split)

text \<open>While a call sleeps, nothing but the call moves the deadline.\<close>

definition sleeps_until :: "timer_machine \<Rightarrow> nat \<Rightarrow> u64 \<Rightarrow> nat \<Rightarrow> bool" where
  "sleeps_until m c i deadline \<longleftrightarrow>
     mt_call m c = Asleep i \<and> (\<exists>t. tr_timers (mt_store m) i = Some t \<and> tm_next t = deadline)"

lemma loop_check_next: "loop_check now after requested t = Some (b, t') \<Longrightarrow> tm_canceled t' = tm_canceled t"
  by (auto simp: loop_check_def Let_def split: if_splits)

lemma step_sleeps:
  assumes "timer_step m e n" and "store_fine (mt_store m)" and "calls_ok m" and "sleeps_until m c i deadline"
  shows "sleeps_until n c i deadline \<and> (call_moves e c \<longrightarrow> mt_now m < deadline) \<or> (\<exists>b. mt_call n c = Returned b)"
proof -
  from assms(4) obtain t where c: "mt_call m c = Asleep i" and t: "tr_timers (mt_store m) i = Some t" "tm_next t = deadline"
    by (auto simp: sleeps_until_def)
  have waiting: "tm_waiting t" using call_okD(3) [OF assms(3) t(1)] c by blast
  from assms(1) show ?thesis
  proof (cases rule: timer_step.cases)
    case (starts allocation ms j r)
    from start_timer_Ok [OF starts(3)] obtain s where
      s: "j = tr_next (mt_store m)" "tr_timers r = (tr_timers (mt_store m))(j \<mapsto> s)" by blast
    have "j \<noteq> i" using t(1) assms(2) unfolding s(1) store_fine_def by (metis option.distinct(1) order_less_irrefl)
    then show ?thesis using starts(1,2) c t s(2) by (simp add: sleeps_until_def)
  next
    case (enters d j s after result s')
    have "d \<noteq> c" using enters(3) c by auto
    moreover have "tr_timers (mt_store n) i = Some t"
    proof (cases "j = i")
      case True
      then have "s = t" using enters(4) t(1) by simp
      then have "result = Some (False, t)" using enters(6) waiting by (auto simp: enter_wait_def)
      then show ?thesis using enters(2) True by simp
    next
      case False
      then show ?thesis using enters(2) t(1) by (cases result) auto
    qed
    ultimately show ?thesis using enters(1,2) c t(2) by (simp add: sleeps_until_def after_check_call)
  next
    case (wakes d j s after)
    show ?thesis
    proof (cases "d = c")
      case True
      then have j: "j = i" "s = t" using wakes(3,4) c t(1) by simp_all
      then show ?thesis
        using wakes(1,2) t(2) True loop_check_None [of "mt_now m" after "c \<in> mt_ended m" t]
        by (cases "loop_check (mt_now m) after (c \<in> mt_ended m) t") (auto simp: sleeps_until_def)
    next
      case False
      then have "j \<noteq> i" using call_okD(4) [OF assms(3) wakes(3)] c by blast
      then show ?thesis using False wakes(1,2) c t
        by (cases "loop_check (mt_now m) after (d \<in> mt_ended m) s") (auto simp: sleeps_until_def)
    qed
  next
    case (cancels j)
    then show ?thesis using c t by (auto simp: sleeps_until_def cancel_timer_close close_timer_parts)
  next
    case (frees base removed r)
    then show ?thesis using c t unroute_parts [OF frees(3)] by (auto simp: sleeps_until_def)
  next
    case (closes j)
    then show ?thesis using c t by (auto simp: sleeps_until_def close_timer_parts)
  qed (use c t in \<open>auto simp: sleeps_until_def\<close>)
qed

lemma run_ok:
  assumes "timer_run run event"
  shows "store_fine (mt_store (run n)) \<and> calls_ok (run n)"
proof -
  have "timers_reachable (run n)"
    using assms by (induction n) (auto simp: timer_run_def intro: timers_reachable.step)
  then show ?thesis using timers_reachable_ok by blast
qed

lemma run_now:
  assumes "timer_run run event" and "n \<le> k"
  shows "mt_now (run n) \<le> mt_now (run k)"
  using assms(2)
proof (induction k rule: dec_induct)
  case (step k)
  have "mt_now (run k) \<le> mt_now (run (Suc k))" using assms(1) step_now unfolding timer_run_def by blast
  then show ?case using step.IH by simp
qed simp

lemma sleeping_returns:
  assumes run: "timer_run run event" and fair: "timer_fair run event" and sleeps: "sleeps_until (run n) c i deadline"
  shows "\<exists>k \<ge> n. \<exists>b. mt_call (run k) c = Returned b"
proof (rule ccontr)
  assume never: "\<not> (\<exists>k \<ge> n. \<exists>b. mt_call (run k) c = Returned b)"
  have asleep: "sleeps_until (run k) c i deadline \<and> (call_moves (event k) c \<longrightarrow> mt_now (run k) < deadline)" if "n \<le> k" for k
  proof -
    have step: "timer_step (run k) (event k) (run (Suc k))" for k using run by (simp add: timer_run_def)
    have "sleeps_until (run k) c i deadline"
      using that
    proof (induction k rule: dec_induct)
      case base
      show ?case by (rule sleeps)
    next
      case (step k)
      have "\<not> (\<exists>b. mt_call (run (Suc k)) c = Returned b)" using never step.hyps(1) by (meson le_SucI)
      then show ?case
        using step_sleeps [OF \<open>timer_step (run k) (event k) (run (Suc k))\<close> _ _ step.IH] run_ok [OF run] by blast
    qed
    moreover have "\<not> (\<exists>b. mt_call (run (Suc k)) c = Returned b)" using never that by (meson le_SucI)
    ultimately show ?thesis using step_sleeps [OF step] run_ok [OF run] by blast
  qed
  obtain n' where "deadline \<le> mt_now (run n')" using fair unfolding timer_fair_def by blast
  then have due: "deadline \<le> mt_now (run k)" if "max n n' \<le> k" for k
    using run_now [OF run, of n' k] that by simp
  have "call_ready (run k) c" if "max n n' \<le> k" for k
  proof -
    have "sleeps_until (run k) c i deadline" using asleep [of k] that by simp
    then show ?thesis using due [OF that] by (auto simp: call_ready_def sleeps_until_def)
  qed
  then obtain k where "max n n' \<le> k" "call_moves (event k) c" using fair unfolding timer_fair_def by blast
  then show False using asleep [of k] due [of k] by simp
qed

text \<open>
  Claim C33: every call of \<open>next\<close> returns: in a run in which the clock does not stop and a call that
  stays ready is scheduled, a call that was made has returned at some later time, whatever the
  other calls, cancellations and freed handles do.
\<close>

theorem timer_calls_return:
  assumes "timer_run run event" and "timer_fair run event" and "mt_call (run n) c \<noteq> Uncalled"
  shows "\<exists>k \<ge> n. \<exists>b. mt_call (run k) c = Returned b"
proof -
  have step: "timer_step (run k) (event k) (run (Suc k))" for k using assms(1) by (simp add: timer_run_def)
  have asleep: "\<exists>k \<ge> j. \<exists>b. mt_call (run k) c = Returned b" if call: "mt_call (run j) c = Asleep i" for i j
  proof -
    have "calls_ok (run j)" using run_ok [OF assms(1)] by blast
    then obtain t where "tr_timers (mt_store (run j)) i = Some t" using call_okD(2) call by blast
    then have "sleeps_until (run j) c i (tm_next t)" using call by (simp add: sleeps_until_def)
    then show ?thesis by (rule sleeping_returns [OF assms(1,2)])
  qed
  show ?thesis
  proof (cases "mt_call (run n) c")
    case (Looked i)
    show ?thesis
    proof (rule ccontr)
      assume never: "\<not> ?thesis"
      have "mt_call (run k) c = Looked i" if "n \<le> k" for k
        using that
      proof (induction k rule: dec_induct)
        case base
        show ?case by (rule Looked)
      next
        case (step k)
        have "\<not> (\<exists>b. mt_call (run (Suc k)) c = Returned b)" "mt_call (run (Suc k)) c \<noteq> Asleep i"
          using never step.hyps(1) asleep [of "Suc k" i] by (meson le_SucI le_trans)+
        then show ?case using step_looked [OF \<open>timer_step (run k) (event k) (run (Suc k))\<close> step.IH] by blast
      qed
      note looked = this
      have "\<not> call_moves (event k) c" if "n \<le> k" for k
        using step_looked [OF step looked [OF that]] looked [of "Suc k"] that by auto
      moreover have "\<forall>k \<ge> n. call_ready (run k) c" using looked by (simp add: call_ready_def)
      ultimately show False using assms(2) unfolding timer_fair_def by blast
    qed
  next
    case (Returned b)
    then show ?thesis by blast
  qed (use assms(3) asleep in blast)+
qed

section \<open>An example\<close>

text \<open>A timer of a millisecond, a call that sleeps on it, the clock, and the call that fires.\<close>

definition sample_timer :: timer where
  "sample_timer = \<lparr>tm_canceled = False, tm_waiting = True, tm_next = 1000000, tm_interval = 1000000\<rparr>"

definition sample_asleep :: timer_machine where
  "sample_asleep =
     timer_machine_start\<lparr>mt_store := \<lparr>tr_next = 2, tr_timers = [1 \<mapsto> sample_timer], tr_ids = [1], tr_allocations = [0 \<mapsto> 1],
       tr_fired = 0\<rparr>, mt_call := (\<lambda>_. Uncalled)(0 := Asleep 1)\<rparr>"

definition sample_fired :: "nat \<Rightarrow> timer_machine" where
  "sample_fired now =
     (after_check 0 1 sample_timer (Some (True, sample_timer\<lparr>tm_waiting := False, tm_next := 2000000\<rparr>)) sample_asleep)
       \<lparr>mt_now := now\<rparr>"

definition sample_run :: "nat \<Rightarrow> timer_machine" where
  "sample_run n = (if n = 0 then sample_asleep else if n = 1 then sample_asleep\<lparr>mt_now := 1000000\<rparr>
     else sample_fired (999998 + n))"

definition sample_event :: "nat \<Rightarrow> timer_event" where
  "sample_event n = (if n = 0 then Tick 1000000 else if n = 1 then WakeUp 0 1000000 else Tick (999998 + Suc n))"

lemma sample_asleep_reachable: "timers_reachable sample_asleep"
proof -
  let ?t = "sample_timer\<lparr>tm_waiting := False\<rparr>"
  let ?r = "\<lparr>tr_next = 2, tr_timers = [1 \<mapsto> ?t], tr_ids = [1], tr_allocations = [0 \<mapsto> 1], tr_fired = 0\<rparr> :: timer_store"
  let ?a = "timer_machine_start\<lparr>mt_store := ?r\<rparr>"
  let ?b = "?a\<lparr>mt_call := (mt_call ?a)(0 := Looked 1)\<rparr>"
  have "start_timer 0 0 1 timers_start = Ok (1, ?r)"
    by (simp add: start_timer_def timers_start_def max_active_def checked_add_def sample_timer_def Let_def)
  then have "timer_step timer_machine_start (StartTimer 0 1) ?a"
    by (intro timer_step.starts) (simp add: timer_machine_start_def)
  then have a: "timers_reachable ?a" by (rule timers_reachable.step [OF timers_reachable.start])
  have "timer_step ?a (Lookup 0 1) ?b"
    using timer_step.looks [of ?a 0 1] by (simp add: timer_machine_start_def lookup_timer_def)
  then have b: "timers_reachable ?b" by (rule timers_reachable.step [OF a])
  have "timer_step ?b (Enter 0 0) (after_check 0 1 sample_timer None (?b\<lparr>mt_now := 0\<rparr>))"
    by (rule timer_step.enters [where t = ?t])
      (simp_all add: timer_machine_start_def sample_timer_def enter_wait_def loop_check_def Let_def)
  then have "timers_reachable (after_check 0 1 sample_timer None (?b\<lparr>mt_now := 0\<rparr>))"
    by (rule timers_reachable.step [OF b])
  then show ?thesis by (simp add: sample_asleep_def timer_machine_start_def put_timer_def)
qed

lemma timer_wakeups_kept_witness:
  "tm_waiting sample_timer \<and> (\<exists>!c. mt_call sample_asleep c = Asleep 1) \<and> length (tr_ids (mt_store sample_asleep)) \<le> max_active"
  using timer_wakeups_kept [OF sample_asleep_reachable] by (simp add: sample_asleep_def sample_timer_def)

lemma sample_run_run: "timer_run sample_run sample_event"
proof -
  have "timer_step (sample_run n) (sample_event n) (sample_run (Suc n))" for n
  proof -
    consider "n = 0" | "n = 1" | "2 \<le> n" by linarith
    then show ?thesis
    proof cases
      case 1
      then show ?thesis
        using timer_step.tick [of sample_asleep 1000000]
        by (simp add: sample_run_def sample_event_def sample_asleep_def timer_machine_start_def)
    next
      case 2
      have "loop_check 1000000 1000000 False sample_timer =
          Some (True, sample_timer\<lparr>tm_waiting := False, tm_next := 2000000\<rparr>)"
        by (simp add: loop_check_def sample_timer_def Let_def)
      then show ?thesis
        using 2 timer_step.wakes [of "sample_asleep\<lparr>mt_now := 1000000\<rparr>" 0 1 sample_timer 1000000]
        by (simp add: sample_run_def sample_event_def sample_fired_def sample_asleep_def timer_machine_start_def)
    next
      case 3
      then show ?thesis
        using timer_step.tick [of "sample_fired (999998 + n)" "999998 + Suc n"]
        by (simp add: sample_run_def sample_event_def sample_fired_def)
    qed
  qed
  then show ?thesis using sample_asleep_reachable by (simp add: timer_run_def sample_run_def)
qed

lemma sample_run_fair: "timer_fair sample_run sample_event"
proof -
  have "\<exists>n. instant \<le> mt_now (sample_run n)" for instant
    by (rule exI [of _ "instant + 2"]) (simp add: sample_run_def sample_fired_def)
  moreover have "\<not> call_ready (sample_run k) c" if "2 \<le> k" for k c
    using that by (simp add: call_ready_def sample_run_def sample_fired_def sample_asleep_def timer_machine_start_def)
  then have "\<not> (\<forall>k \<ge> n. call_ready (sample_run k) c)" for n c by (meson nat_le_linear le_trans)
  ultimately show ?thesis unfolding timer_fair_def by blast
qed

lemma timer_calls_return_witness: "\<exists>k b. mt_call (sample_run k) 0 = Returned b"
  using timer_calls_return [OF sample_run_run sample_run_fair, of 0 0] by (auto simp: sample_run_def sample_asleep_def)

end
