(* ===== verification/Locating.thy ===== *)
theory Locating
  imports SpecTerms Popovers "HOL-Library.Signed_Division"
begin

text \<open>
  Resolving a locator against the mounted graph, and the claims of a specification that the graph
  alone decides (\<open>matches\<close>, \<open>canvas_item\<close>, \<open>canvas_press\<close>, \<open>graph_claim\<close> and the claims on counters
  in \<open>runner.rs\<close>; \<open>canvas_target\<close> in \<open>lib.rs\<close>). Both runners call these. A function that walks the
  graph returns an \<open>option\<close>, \<open>None\<close> when it does not return. Messages are constructors with what
  they interpolate. The hit test of an ellipse and of a line computes in floating point and is the
  parameter \<open>float_hit\<close>; whether the effective scheme is dark is the parameter \<open>dark\<close>.
\<close>

section \<open>Locators\<close>

text \<open>Whether the target of a locator is a canvas primitive.\<close>

definition names_primitive :: "locator \<Rightarrow> bool" where
  "names_primitive l = (case loc_target l of LocCanvasItemName _ \<Rightarrow> True | LocCanvasItemPrefix _ \<Rightarrow> True | _ \<Rightarrow> False)"

definition starts_with :: "string \<Rightarrow> string \<Rightarrow> bool" where
  "starts_with whole start \<longleftrightarrow> take (length start) whole = start"

text \<open>Whether one presented node is what a locator names; a scope or a prefix of primitives is not.\<close>

definition node_matches :: "mounted_graph \<Rightarrow> locator \<Rightarrow> node \<Rightarrow> bool" where
  "node_matches g l n =
     (case l of
        LocText e \<Rightarrow> (case nd_kind n of Text a \<Rightarrow> e = a | StyledText a _ _ _ _ _ _ \<Rightarrow> e = a | _ \<Rightarrow> False)
      | LocTextPrefix e \<Rightarrow>
          (case nd_kind n of Text a \<Rightarrow> starts_with a e | StyledText a _ _ _ _ _ _ \<Rightarrow> starts_with a e | _ \<Rightarrow> False)
      | LocButtonName e \<Rightarrow> (case nd_kind n of Button _ label RoleButton _ _ _ _ \<Rightarrow> e = label | _ \<Rightarrow> False)
      | LocButtonPrefix e \<Rightarrow> (case nd_kind n of Button _ label RoleButton _ _ _ _ \<Rightarrow> starts_with label e | _ \<Rightarrow> False)
      | LocTabName e \<Rightarrow> (case nd_kind n of Button _ label (RoleTab _) _ _ _ _ \<Rightarrow> e = label | _ \<Rightarrow> False)
      | LocSeparatorName e \<Rightarrow> (case nd_kind n of Split label _ _ _ _ _ _ _ _ _ _ \<Rightarrow> e = label | _ \<Rightarrow> False)
      | LocDropTargetName e \<Rightarrow> (case nd_kind n of DropTarget label _ _ _ _ \<Rightarrow> e = label | _ \<Rightarrow> False)
      | LocCheckboxName e \<Rightarrow> (case nd_kind n of Checkbox label _ _ _ _ \<Rightarrow> e = label | _ \<Rightarrow> False)
      | LocCheckboxPrefix e \<Rightarrow> (case nd_kind n of Checkbox label _ _ _ _ \<Rightarrow> starts_with label e | _ \<Rightarrow> False)
      | LocColumnName e \<Rightarrow>
          (case nd_kind n of
             Column label _ \<Rightarrow> label \<noteq> [] \<and> e = label
           | KeyedColumn label _ _ _ \<Rightarrow> label \<noteq> [] \<and> e = label
           | _ \<Rightarrow> False)
      | LocDialogName e \<Rightarrow> (case nd_kind n of Dialog label _ \<Rightarrow> e = label | _ \<Rightarrow> False)
      | LocChord e \<Rightarrow> (case nd_kind n of StyledText _ _ _ _ _ _ chord \<Rightarrow> chord = Some e | _ \<Rightarrow> False)
      | LocShortcut e \<Rightarrow>
          (case nd_kind n of Popover _ _ _ _ _ shortcuts _ _ \<Rightarrow> list_ex (\<lambda>s. sc_keys s = e) shortcuts | _ \<Rightarrow> False)
      | LocTooltipName e \<Rightarrow>
          (case nd_kind n of Popover label _ _ _ _ _ _ _ \<Rightarrow> e = label \<and> popover_open g (nd_id n) | _ \<Rightarrow> False)
      | LocPanelName e \<Rightarrow> (case nd_kind n of Panel label _ \<Rightarrow> label \<noteq> [] \<and> e = label | _ \<Rightarrow> False)
      | LocRowName e \<Rightarrow> (case nd_kind n of Row label _ \<Rightarrow> label \<noteq> [] \<and> e = label | _ \<Rightarrow> False)
      | LocScrollName e \<Rightarrow> (case nd_kind n of Scroll name _ _ \<Rightarrow> e = name | _ \<Rightarrow> False)
      | LocTextInputName e \<Rightarrow> (case nd_kind n of TextInput label _ _ _ _ \<Rightarrow> e = label | _ \<Rightarrow> False)
      | LocVirtualListName e \<Rightarrow> (case nd_kind n of VirtualList name _ _ _ _ \<Rightarrow> e = name | _ \<Rightarrow> False)
      | LocTextareaName e \<Rightarrow> (case nd_kind n of Textarea label _ _ _ _ _ \<Rightarrow> e = label | _ \<Rightarrow> False)
      | LocImageName e \<Rightarrow> (case nd_kind n of Image label _ _ _ _ _ \<Rightarrow> e = label | _ \<Rightarrow> False)
      | LocCanvasName e \<Rightarrow> (case nd_kind n of Canvas label _ _ _ _ _ \<Rightarrow> e = label | _ \<Rightarrow> False)
      | LocCanvasItemName e \<Rightarrow>
          (case nd_kind n of Canvas _ primitives _ _ _ _ \<Rightarrow> list_ex (\<lambda>p. cp_label p = e) primitives | _ \<Rightarrow> False)
      | LocCanvasItemPrefix _ \<Rightarrow> False
      | LocWithin _ _ \<Rightarrow> False)"

text \<open>The climb that looks for a scope, along the parents that have an index.\<close>

partial_function (option) climb_to_scope :: "mounted_graph \<Rightarrow> u64 set \<Rightarrow> u64 option \<Rightarrow> bool option" where
  [code]: "climb_to_scope g scopes upward =
     (case upward of
        None \<Rightarrow> Some False
      | Some p \<Rightarrow> if p \<in> scopes then Some True else climb_to_scope g scopes (map_option fst (parent g p)))"

fun filter_option :: "('a \<Rightarrow> bool option) \<Rightarrow> 'a list \<Rightarrow> 'a list option" where
  "filter_option f [] = Some []"
| "filter_option f (x # xs) =
     do { keep \<leftarrow> f x; rest \<leftarrow> filter_option f xs; Some (if keep then x # rest else rest) }"

definition canvas_primitives :: "node_kind \<Rightarrow> canvas_primitive list" where
  "canvas_primitives kind = (case kind of Canvas _ primitives _ _ _ _ \<Rightarrow> primitives | _ \<Rightarrow> [])"

text \<open>A canvas is named once for each of its primitives that has the prefix.\<close>

definition prefix_hits :: "string \<Rightarrow> node \<Rightarrow> u64 list" where
  "prefix_hits start n =
     map (\<lambda>_. nd_id n) (filter (\<lambda>p. starts_with (cp_label p) start) (canvas_primitives (nd_kind n)))"

definition locate_plain :: "mounted_graph \<Rightarrow> locator \<Rightarrow> u64 list option" where
  "locate_plain g l =
     map_option
       (case l of
          LocCanvasItemPrefix start \<Rightarrow> (\<lambda>ns. concat (map (prefix_hits start) ns))
        | _ \<Rightarrow> (\<lambda>ns. map nd_id (filter (node_matches g l) ns)))
       (presented_preorder g)"

fun locate :: "mounted_graph \<Rightarrow> locator \<Rightarrow> u64 list option" where
  "locate g (LocWithin ancestor target) =
     (if names_primitive ancestor then Some []
      else do {
        scopes \<leftarrow> locate g ancestor;
        found \<leftarrow> locate g target;
        filter_option
          (\<lambda>i. climb_to_scope g (set scopes) (if names_primitive target then Some i else map_option fst (parent g i)))
          found
      })"
| "locate g l = locate_plain g l"

section \<open>Canvas primitives\<close>

definition primitive_matches :: "locator \<Rightarrow> canvas_primitive \<Rightarrow> bool" where
  "primitive_matches l p =
     (case loc_target l of
        LocCanvasItemName name \<Rightarrow> cp_label p = name
      | LocCanvasItemPrefix start \<Rightarrow> starts_with (cp_label p) start
      | _ \<Rightarrow> False)"

text \<open>The one primitive a locator names, with its canvas.\<close>

definition canvas_item :: "mounted_graph \<Rightarrow> locator \<Rightarrow> (u64 \<times> canvas_primitive) option option" where
  "canvas_item g l =
     do {
       candidates \<leftarrow> locate g l;
       ns \<leftarrow> nodes_preorder g;
       Some
         (case concat (map (\<lambda>n. map (Pair (nd_id n)) (filter (primitive_matches l) (canvas_primitives (nd_kind n))))
                (filter (\<lambda>n. nd_id n \<in> set candidates) ns)) of
            [found] \<Rightarrow> Some found
          | _ \<Rightarrow> None)
     }"

text \<open>The primitive on top at a point; a text is never a target.\<close>

type_synonym float_hit = "canvas_primitive \<Rightarrow> i32 \<Rightarrow> i32 \<Rightarrow> bool"

definition primitive_hit :: "float_hit \<Rightarrow> canvas_primitive \<Rightarrow> i32 \<Rightarrow> i32 \<Rightarrow> bool" where
  "primitive_hit float_hit p x y =
     (case cp_kind p of
        CanvasText \<Rightarrow> False
      | CanvasRectangle \<Rightarrow>
          sint (cp_x p) \<le> sint x \<and> sint (cp_y p) \<le> sint y \<and>
          sint x \<le> sint (cp_x p) + uint (cp_width p) \<and> sint y \<le> sint (cp_y p) + uint (cp_height p)
      | _ \<Rightarrow> float_hit p x y)"

definition canvas_target :: "float_hit \<Rightarrow> canvas_primitive list \<Rightarrow> i32 \<Rightarrow> i32 \<Rightarrow> u64 option" where
  "canvas_target float_hit primitives x y =
     map_option cp_key (List.find (\<lambda>p. primitive_hit float_hit p x y) (rev primitives))"

text \<open>\<open>i32::saturating_add\<close>.\<close>

definition saturating_add_signed :: "i32 \<Rightarrow> i32 \<Rightarrow> i32" where
  "saturating_add_signed a b = word_of_int (max (- (2 ^ 31)) (min (2 ^ 31 - 1) (sint a + sint b)))"

text \<open>Division of an \<open>i32\<close> by two rounds towards zero; the sum of two wraps.\<close>

definition halved :: "i32 \<Rightarrow> i32" where
  "halved a = word_of_int (sint a sdiv 2)"

definition primitive_centre :: "canvas_primitive \<Rightarrow> i32 \<times> i32" where
  "primitive_centre p =
     (case cp_kind p of
        CanvasLine \<Rightarrow> (halved (cp_x p + cp_x2 p), halved (cp_y p + cp_y2 p))
      | _ \<Rightarrow> (saturating_add_signed (cp_x p) (cp_width p div 2), saturating_add_signed (cp_y p) (cp_height p div 2)))"

datatype press_error = MatchesNoPrimitive | CanvasNotMounted | NotReached string i32 i32

definition canvas_press_point ::
  "float_hit \<Rightarrow> mounted_graph \<Rightarrow> locator \<Rightarrow> (press_error, i32 \<times> i32) outcome option" where
  "canvas_press_point float_hit g l =
     map_option
       (\<lambda>found. case found of
          None \<Rightarrow> Err MatchesNoPrimitive
        | Some (canvas, p) \<Rightarrow>
            (let (x, y) = primitive_centre p in
             case mounted_kind g canvas of
               Some (Canvas _ primitives _ _ _ _) \<Rightarrow>
                 if canvas_target float_hit primitives x y = Some (cp_key p) then Ok (x, y)
                 else Err (NotReached (cp_label p) x y)
             | _ \<Rightarrow> Err CanvasNotMounted))
       (canvas_item g l)"

text \<open>The pointer step that stands for a press of a primitive; \<open>None\<close> inside for any other step.\<close>

definition canvas_press ::
  "float_hit \<Rightarrow> mounted_graph \<Rightarrow> command \<Rightarrow> (press_error, command) outcome option option" where
  "canvas_press float_hit g c =
     (case c of
        CmdClick l \<Rightarrow>
          if names_primitive l
          then map_option (\<lambda>r. Some (obind r (\<lambda>(x, y). Ok (CmdDrag l (sint x) (sint y) (sint x) (sint y)))))
                 (canvas_press_point float_hit g l)
          else Some None
      | CmdPointerOver l \<Rightarrow>
          map_option (\<lambda>r. Some (obind r (\<lambda>(x, y). Ok (CmdPointerMove l (sint x) (sint y)))))
            (canvas_press_point float_hit g l)
      | _ \<Rightarrow> Some None)"

end
