(* ===== verification/GraphClaims.thy ===== *)
theory GraphClaims
  imports Locating
begin

text \<open>
  The claims of a specification that the mounted graph decides (\<open>graph_claim\<close> in \<open>runner.rs\<close>), with
  the counts they give as evidence, and the claims on patterns of counters.
\<close>

section \<open>Results\<close>

text \<open>The messages, with what they interpolate.\<close>

datatype claim_error =
    MatchedNodes string nat
  | NoExplicitBackground
  | NoApplicationBackground
  | BackgroundDiffers u32 u32
  | KeyboardCountersDiffer "u64 list" "u64 list"
  | PopoverCountersDiffer "u64 list" "u64 list"
  | PrimitivesDiffer u64 u64
  | NoSizeHandler
  | CanvasSizeDiffers "u32 \<times> u32" "u32 \<times> u32"
  | NoSizeReported
  | NotACanvas
  | NotOnePrimitive
  | NotCanvasText
  | CanvasTextDiffers
  | NotADivider
  | DividerDiffers string string
  | TabNotSelected
  | TabSelected
  | NotATab string
  | ValueDiffers
  | ValueBytesDiffer u64 u64
  | NotAnInput
  | ImageBytesDiffer u64 u64
  | NotAVirtualList
  | RowsDiffer "(string \<times> u64 \<times> u64) list"
  | NotBefore
  | MatchedPair nat nat

type_synonym claim_result = "(claim_error, unit) outcome \<times> (u64 \<times> u64) option"

text \<open>A claim holds or differs.\<close>

definition holds :: "bool \<Rightarrow> claim_error \<Rightarrow> (claim_error, unit) outcome" where
  "holds b e = (if b then Ok () else Err e)"

text \<open>The single node a locator names, or how many it named instead.\<close>

definition only :: "mounted_graph \<Rightarrow> locator \<Rightarrow> (nat, u64) outcome option" where
  "only g l = map_option (\<lambda>found. case found of [i] \<Rightarrow> Ok i | _ \<Rightarrow> Err (length found)) (locate g l)"

section \<open>What a claim reads of a node\<close>

text \<open>The style of the kinds that carry an application background.\<close>

definition background_style :: "node_kind \<Rightarrow> style option" where
  "background_style kind =
     (case kind of
        Button _ _ _ _ _ _ s \<Rightarrow> Some s
      | Checkbox _ _ _ _ s \<Rightarrow> Some s
      | Textarea _ _ _ _ _ s \<Rightarrow> Some s
      | TextInput _ _ _ _ s \<Rightarrow> Some s
      | Canvas _ _ _ _ _ s \<Rightarrow> Some s
      | Image _ _ _ _ _ s \<Rightarrow> Some s
      | Column _ s \<Rightarrow> Some s
      | KeyedColumn _ s _ _ \<Rightarrow> Some s
      | Dialog _ s \<Rightarrow> Some s
      | Popover _ _ _ _ _ _ _ s \<Rightarrow> Some s
      | Panel _ s \<Rightarrow> Some s
      | Row _ s \<Rightarrow> Some s
      | Scroll _ _ s \<Rightarrow> Some s
      | VirtualList _ _ _ s _ \<Rightarrow> Some s
      | _ \<Rightarrow> None)"

definition resolve_paint :: "bool \<Rightarrow> paint \<Rightarrow> u32" where
  "resolve_paint dark p = (case p of Rgb c \<Rightarrow> c | Adaptive l d \<Rightarrow> if dark then d else l)"

definition background_of :: "bool \<Rightarrow> node_kind option \<Rightarrow> (claim_error, u32) outcome" where
  "background_of dark kind =
     (case Option.bind kind background_style of
        Some s \<Rightarrow> ok_or (map_option (resolve_paint dark) (st_bg s)) NoExplicitBackground
      | None \<Rightarrow> Err NoApplicationBackground)"

definition input_value :: "node_kind \<Rightarrow> string option" where
  "input_value kind =
     (case kind of Textarea _ v _ _ _ _ \<Rightarrow> Some v | TextInput _ v _ _ _ \<Rightarrow> Some v | _ \<Rightarrow> None)"

definition image_bytes :: "node_kind option \<Rightarrow> nat" where
  "image_bytes kind = (case kind of Some (Image _ bytes _ _ _ _) \<Rightarrow> length bytes | _ \<Rightarrow> 0)"

text \<open>A divider's value is its size, or that it is collapsed.\<close>

definition divider_text :: "resize \<Rightarrow> string" where
  "divider_text v = (if rs_collapsed v then ''collapsed'' else decimal (unat (rs_size v)))"

text \<open>The rows of a list: how many there are, the first that is mounted, and how many are.\<close>

definition rows_of :: "node \<Rightarrow> (claim_error, u64 \<times> u64 \<times> u64) outcome" where
  "rows_of n =
     (let mounted_rows = of_nat (length (nd_children n)) in
      case nd_kind n of
        VirtualList _ _ _ _ (Some rows) \<Rightarrow> Ok (pr_count rows, pr_first rows, mounted_rows)
      | VirtualList _ _ _ _ None \<Rightarrow> Ok (mounted_rows, 0, mounted_rows)
      | _ \<Rightarrow> Err NotAVirtualList)"

definition rows_differences :: "rows_expectation \<Rightarrow> u64 \<times> u64 \<times> u64 \<Rightarrow> (string \<times> u64 \<times> u64) list" where
  "rows_differences e observed =
     (case observed of (count, first_row, mounted_rows) \<Rightarrow>
        List.map_filter
          (\<lambda>(name, wanted, actual). case wanted of Some w \<Rightarrow> if w \<noteq> actual then Some (name, w, actual) else None | None \<Rightarrow> None)
          [(''rows'', re_count e, count), (''first mounted row'', re_first e, first_row),
           (''mounted rows'', re_mounted e, mounted_rows)])"

fun before_index :: "nat option \<Rightarrow> nat option \<Rightarrow> bool" where
  "before_index None (Some _) = True"
| "before_index (Some a) (Some b) = (a < b)"
| "before_index _ None = False"

definition matched_count :: "(nat, u64) outcome \<Rightarrow> nat" where
  "matched_count r = (case r of Err n \<Rightarrow> n | _ \<Rightarrow> 1)"

section \<open>The claims\<close>

definition claim_background :: "bool \<Rightarrow> mounted_graph \<Rightarrow> u32 \<Rightarrow> (nat, u64) outcome \<Rightarrow> claim_result" where
  "claim_background dark g expected found =
     (obind (case found of
               Ok i \<Rightarrow> background_of dark (mounted_kind g i)
             | Err n \<Rightarrow> Err (MatchedNodes ''expect-background'' n)
             | Panic \<Rightarrow> Panic)
        (\<lambda>actual. holds (actual = expected) (BackgroundDiffers expected actual)), None)"

definition claim_primitives :: "mounted_graph \<Rightarrow> u64 \<Rightarrow> (nat, u64) outcome \<Rightarrow> claim_result" where
  "claim_primitives g expected found =
     (let actual = (case found of
                      Ok i \<Rightarrow> (case mounted_kind g i of
                                 Some kind \<Rightarrow> of_nat (length (canvas_primitives kind)) | None \<Rightarrow> 0)
                    | _ \<Rightarrow> 0)
      in (holds (actual = expected) (PrimitivesDiffer expected actual), Some (expected, actual)))"

definition claim_canvas_size :: "mounted_graph \<Rightarrow> u32 \<times> u32 \<Rightarrow> (nat, u64) outcome \<Rightarrow> claim_result" where
  "claim_canvas_size g expected found =
     (case found of
        Err n \<Rightarrow> Err (MatchedNodes ''expect-canvas-size'' n)
      | Panic \<Rightarrow> Panic
      | Ok i \<Rightarrow>
          (case mounted_kind g i of
             Some (Canvas _ _ _ _ False _) \<Rightarrow> Err NoSizeHandler
           | Some (Canvas _ _ _ _ True _) \<Rightarrow>
               (case reported_canvas_size g i of
                  Some observed \<Rightarrow> holds (observed = expected) (CanvasSizeDiffers expected observed)
                | None \<Rightarrow> Err NoSizeReported)
           | _ \<Rightarrow> Err NotACanvas), None)"

definition claim_item_text :: "string \<Rightarrow> (u64 \<times> canvas_primitive) option \<Rightarrow> claim_result" where
  "claim_item_text expected found =
     (case found of
        None \<Rightarrow> Err NotOnePrimitive
      | Some (_, p) \<Rightarrow>
          if cp_kind p \<noteq> CanvasText then Err NotCanvasText
          else holds (cp_text p = expected) CanvasTextDiffers, None)"

definition claim_divider :: "mounted_graph \<Rightarrow> string \<Rightarrow> (nat, u64) outcome \<Rightarrow> claim_result" where
  "claim_divider g expected found =
     (case found of
        Err n \<Rightarrow> Err (MatchedNodes ''expect-value'' n)
      | Panic \<Rightarrow> Panic
      | Ok i \<Rightarrow>
          (case Option.bind (mounted_kind g i) splitter_value of
             None \<Rightarrow> Err NotADivider
           | Some v \<Rightarrow> holds (divider_text v = expected) (DividerDiffers expected (divider_text v))), None)"

definition claim_selected :: "mounted_graph \<Rightarrow> string \<Rightarrow> bool \<Rightarrow> (nat, u64) outcome \<Rightarrow> claim_result" where
  "claim_selected g name wanted found =
     (case found of
        Err n \<Rightarrow> Err (MatchedNodes name n)
      | Panic \<Rightarrow> Panic
      | Ok i \<Rightarrow>
          (case mounted_kind g i of
             Some (Button _ _ (RoleTab selected) _ _ _ _) \<Rightarrow>
               if selected = wanted then Ok () else Err (if wanted then TabNotSelected else TabSelected)
           | _ \<Rightarrow> Err (NotATab name)), None)"

definition claim_value :: "mounted_graph \<Rightarrow> string \<Rightarrow> (nat, u64) outcome \<Rightarrow> claim_result" where
  "claim_value g expected found =
     (case found of
        Err n \<Rightarrow> Err (MatchedNodes ''expect-value'' n)
      | Panic \<Rightarrow> Panic
      | Ok i \<Rightarrow> holds (Option.bind (mounted_kind g i) input_value = Some expected) ValueDiffers, None)"

definition claim_value_bytes :: "mounted_graph \<Rightarrow> u64 \<Rightarrow> (nat, u64) outcome \<Rightarrow> claim_result" where
  "claim_value_bytes g expected found =
     (case found of
        Err n \<Rightarrow> (Err (MatchedNodes ''expect-value-bytes'' n), None)
      | Panic \<Rightarrow> (Panic, None)
      | Ok i \<Rightarrow>
          (case Option.bind (mounted_kind g i) input_value of
             None \<Rightarrow> (Err NotAnInput, None)
           | Some v \<Rightarrow>
               (let actual = of_nat (length v) in
                (holds (actual = expected) (ValueBytesDiffer expected actual), Some (expected, actual)))))"

definition claim_image_bytes :: "mounted_graph \<Rightarrow> u64 \<Rightarrow> (nat, u64) outcome \<Rightarrow> claim_result" where
  "claim_image_bytes g expected found =
     (let actual = (case found of Ok i \<Rightarrow> of_nat (image_bytes (mounted_kind g i)) | _ \<Rightarrow> 0);
          one = (case found of Ok _ \<Rightarrow> True | _ \<Rightarrow> False)
      in (holds (one \<and> actual = expected) (ImageBytesDiffer expected actual), Some (expected, actual)))"

definition claim_rows :: "mounted_graph \<Rightarrow> rows_expectation \<Rightarrow> (nat, u64) outcome \<Rightarrow> claim_result" where
  "claim_rows g expected found =
     (case (case found of
              Err n \<Rightarrow> Err (MatchedNodes ''expect-rows'' n)
            | Panic \<Rightarrow> Panic
            | Ok i \<Rightarrow> (case mounted g i of None \<Rightarrow> Panic | Some n \<Rightarrow> rows_of n)) of
        Err e \<Rightarrow> (Err e, None)
      | Panic \<Rightarrow> (Panic, None)
      | Ok observed \<Rightarrow>
          (holds (rows_differences expected observed = []) (RowsDiffer (rows_differences expected observed)),
           map_option (\<lambda>wanted. (wanted, fst observed)) (re_count expected)))"

definition claim_before :: "node list \<Rightarrow> (nat, u64) outcome \<Rightarrow> (nat, u64) outcome \<Rightarrow> claim_result" where
  "claim_before ordered earlier later =
     (let position = (\<lambda>i. position_of i (map nd_id ordered)) in
      case (earlier, later) of
        (Ok i, Ok j) \<Rightarrow> holds (before_index (position i) (position j)) NotBefore
      | _ \<Rightarrow> Err (MatchedPair (matched_count earlier) (matched_count later)), None)"

definition keyboard_array :: "keyboard_counters \<Rightarrow> u64 list" where
  "keyboard_array c = [kn_offered c, kn_matched c, kn_compared c, kn_focused c]"

definition popover_array :: "popover_counters \<Rightarrow> u64 list" where
  "popover_array c = [pn_opened c, pn_closed c, pn_dismissed c]"

definition claim_on :: "mounted_graph \<Rightarrow> locator \<Rightarrow> ((nat, u64) outcome \<Rightarrow> claim_result) \<Rightarrow> claim_result option option" where
  "claim_on g l claim = map_option (\<lambda>found. Some (claim found)) (only g l)"

text \<open>A claim of the graph, or \<open>None\<close> inside for any other step.\<close>

definition graph_claim :: "bool \<Rightarrow> mounted_graph \<Rightarrow> command \<Rightarrow> claim_result option option" where
  "graph_claim dark g c =
     (case c of
        CmdExpectBackground l expected \<Rightarrow> claim_on g l (claim_background dark g expected)
      | CmdExpectKeyboardCounters expected \<Rightarrow>
          (let observed = keyboard_array (kb_counters (mg_keyboard g)) in
           Some (Some (holds (observed = expected) (KeyboardCountersDiffer expected observed), None)))
      | CmdExpectPopoverCounters expected \<Rightarrow>
          (let observed = popover_array (po_counters (mg_popovers g)) in
           Some (Some (holds (observed = expected) (PopoverCountersDiffer expected observed), None)))
      | CmdExpectCanvasPrimitives l expected \<Rightarrow> claim_on g l (claim_primitives g expected)
      | CmdExpectCanvasSize l w h \<Rightarrow> claim_on g l (claim_canvas_size g (w, h))
      | CmdExpectValue l expected \<Rightarrow>
          if names_primitive l then map_option (\<lambda>found. Some (claim_item_text expected found)) (canvas_item g l)
          else if (case loc_target l of LocSeparatorName _ \<Rightarrow> True | _ \<Rightarrow> False)
          then claim_on g l (claim_divider g expected)
          else claim_on g l (claim_value g expected)
      | CmdExpectSelected l wanted \<Rightarrow> claim_on g l (claim_selected g (command_kind c) wanted)
      | CmdExpectValueBytes l expected \<Rightarrow> claim_on g l (claim_value_bytes g expected)
      | CmdExpectImageBytes l expected \<Rightarrow> claim_on g l (claim_image_bytes g expected)
      | CmdExpectRows l expected \<Rightarrow> claim_on g l (claim_rows g expected)
      | CmdExpectBefore a b \<Rightarrow>
          do {
            ordered \<leftarrow> nodes_preorder g;
            earlier \<leftarrow> only g a;
            later \<leftarrow> only g b;
            Some (Some (claim_before ordered earlier later))
          }
      | _ \<Rightarrow> Some None)"

section \<open>Patterns of counters\<close>

text \<open>The named counts of a pattern are compared, and totalled for the evidence.\<close>

definition counter_pattern :: "u64 option list \<Rightarrow> u64 list \<Rightarrow> bool \<times> u64 \<times> u64" where
  "counter_pattern expected observed =
     foldl (\<lambda>(same, wanted, seen) (e, now). case e of None \<Rightarrow> (same, wanted, seen) | Some e \<Rightarrow> (same \<and> e = now, wanted + e, seen + now))
       (True, 0, 0) (zip expected observed)"

datatype work_error = WorkUnavailable | WorkDiffers "(nat \<times> u64 \<times> u64) list"

definition work_differences :: "u64 option list \<Rightarrow> u64 list \<Rightarrow> (nat \<times> u64 \<times> u64) list" where
  "work_differences expected work =
     List.map_filter
       (\<lambda>(index, e). case e of Some e \<Rightarrow> if e \<noteq> work ! index then Some (index, e, work ! index) else None | None \<Rightarrow> None)
       (enumerate 0 expected)"

definition component_work_claim :: "u64 option list \<Rightarrow> u64 list option \<Rightarrow> (work_error, unit) outcome \<times> u64 list option" where
  "component_work_claim expected observed =
     (case observed of
        None \<Rightarrow> (Err WorkUnavailable, None)
      | Some work \<Rightarrow>
          (if work_differences expected work = [] then Ok () else Err (WorkDiffers (work_differences expected work)),
           observed))"

end
