(* ===== verification/LocatingCorrect.thy ===== *)
theory LocatingCorrect
  imports GraphClaims
begin

text \<open>
  What a locator means: the presented nodes it describes, in document order, and for a scope the
  nodes from which a climb along indexed parents meets it. On a well-formed graph resolving a
  locator computes exactly that.
\<close>

section \<open>The meaning of a locator\<close>

definition shown :: "mounted_graph \<Rightarrow> u64 \<Rightarrow> bool" where
  "shown g i \<longleftrightarrow> (\<exists>ns. presented_preorder g = Some ns \<and> i \<in> nd_id ` set ns)"

text \<open>The parent of an ordinary child, which has an index; the parent of a keyed child is not one.\<close>

definition ordinary_parent :: "mounted_graph \<Rightarrow> u64 \<Rightarrow> u64 \<Rightarrow> bool" where
  "ordinary_parent g i p \<longleftrightarrow> (\<exists>k. parent g i = Some (p, k))"

definition has_primitive :: "string \<Rightarrow> node \<Rightarrow> bool" where
  "has_primitive start n \<longleftrightarrow> (\<exists>p \<in> set (canvas_primitives (nd_kind n)). starts_with (cp_label p) start)"

fun located :: "mounted_graph \<Rightarrow> locator \<Rightarrow> u64 \<Rightarrow> bool" where
  "located g (LocWithin ancestor target) i \<longleftrightarrow>
     \<not> names_primitive ancestor \<and> located g target i \<and>
     (\<exists>s. located g ancestor s \<and>
        (if names_primitive target then (ordinary_parent g)\<^sup>*\<^sup>* i s else (ordinary_parent g)\<^sup>+\<^sup>+ i s))"
| "located g l i \<longleftrightarrow>
     shown g i \<and> (\<exists>n. mounted g i = Some n \<and>
       (case l of LocCanvasItemPrefix start \<Rightarrow> has_primitive start n | _ \<Rightarrow> node_matches g l n))"

section \<open>The climb to a scope\<close>

lemma ordinary_parent_deterministic: "ordinary_parent g i p \<Longrightarrow> ordinary_parent g i q \<Longrightarrow> p = q"
  by (auto simp: ordinary_parent_def)

lemma climb_to_scope_None: "climb_to_scope g scopes None = Some False"
  by (subst climb_to_scope.simps) simp

lemma reaches_unfold: "R\<^sup>*\<^sup>* i s \<longleftrightarrow> s = i \<or> (\<exists>p. R i p \<and> R\<^sup>*\<^sup>* p s)"
  by (metis converse_rtranclp_into_rtranclp converse_rtranclpE rtranclp.rtrancl_refl)

lemmas reaches_step = reaches_unfold [of "ordinary_parent g" for g]

lemma climb_to_scope_climb:
  "climbs g i locations \<Longrightarrow> climb_to_scope g scopes (Some i) = Some (\<exists>s \<in> scopes. (ordinary_parent g)\<^sup>*\<^sup>* i s)"
proof (induction rule: climbs.induct)
  case (climbs_end i)
  then have none: "\<not> ordinary_parent g i p" for p by (simp add: ordinary_parent_def parent_def)
  show ?case
    by (subst climb_to_scope.simps) (use climbs_end none reaches_step [of g i] in \<open>auto simp: climb_to_scope_None parent_def\<close>)
next
  case (climbs_step i location locations)
  show ?case
  proof (cases location)
    case (OrdinaryIndex p k)
    then have p: "parent g i = Some (p, k)" using climbs_step(1) by (simp add: parent_def)
    then have "ordinary_parent g i q \<longleftrightarrow> q = p" for q by (auto simp: ordinary_parent_def)
    then have "(ordinary_parent g)\<^sup>*\<^sup>* i s \<longleftrightarrow> s = i \<or> (ordinary_parent g)\<^sup>*\<^sup>* p s" for s using reaches_step [of g i s] by auto
    then show ?thesis
      by (subst climb_to_scope.simps) (use climbs_step.IH OrdinaryIndex p in auto)
  next
    case (KeyedAt container key inst)
    then have p: "parent g i = None" using climbs_step(1) by (simp add: parent_def)
    then have "\<not> ordinary_parent g i q" for q by (simp add: ordinary_parent_def)
    then have "(ordinary_parent g)\<^sup>*\<^sup>* i s \<longleftrightarrow> s = i" for s using reaches_step [of g i s] by auto
    then show ?thesis by (subst climb_to_scope.simps) (use p in \<open>auto simp: climb_to_scope_None\<close>)
  qed
qed

lemma climb_to_scope_value:
  assumes "well_formed g"
  shows "climb_to_scope g scopes (Some i) = Some (\<exists>s \<in> scopes. (ordinary_parent g)\<^sup>*\<^sup>* i s)"
    and "climb_to_scope g scopes (map_option fst (parent g i)) = Some (\<exists>s \<in> scopes. (ordinary_parent g)\<^sup>+\<^sup>+ i s)"
proof -
  show here: "climb_to_scope g scopes (Some i) = Some (\<exists>s \<in> scopes. (ordinary_parent g)\<^sup>*\<^sup>* i s)" for i
    using well_formed_climbs [OF assms] climb_to_scope_climb by blast
  have above: "(ordinary_parent g)\<^sup>+\<^sup>+ i s \<longleftrightarrow> (\<exists>p. ordinary_parent g i p \<and> (ordinary_parent g)\<^sup>*\<^sup>* p s)" for s
    by (metis rtranclp_into_tranclp2 tranclpD)
  show "climb_to_scope g scopes (map_option fst (parent g i)) = Some (\<exists>s \<in> scopes. (ordinary_parent g)\<^sup>+\<^sup>+ i s)"
  proof (cases "parent g i")
    case None
    then show ?thesis by (simp add: above ordinary_parent_def climb_to_scope_None)
  next
    case (Some p)
    then have "ordinary_parent g i q \<longleftrightarrow> q = fst p" for q by (cases p) (auto simp: ordinary_parent_def)
    then show ?thesis using Some here [of "fst p"] by (simp add: above)
  qed
qed

section \<open>Lists\<close>

lemma filter_option_value: "(\<And>x. x \<in> set xs \<Longrightarrow> f x = Some (P x)) \<Longrightarrow> filter_option f xs = Some (filter P xs)"
  by (induction xs) auto

lemma remdups_adj_replicate_append:
  "x \<notin> set ys \<Longrightarrow> remdups_adj (replicate k x @ ys) = (if k = 0 then [] else [x]) @ remdups_adj ys"
proof (induction k)
  case (Suc k)
  then show ?case by (cases k; cases ys) auto
qed simp

lemma remdups_adj_filter:
  "distinct (remdups_adj xs) \<Longrightarrow> remdups_adj (filter P xs) = filter P (remdups_adj xs)"
proof (induction xs rule: remdups_adj.induct)
  case (3 x y ys)
  show ?case
  proof (cases "x = y")
    case False
    then have ih: "remdups_adj (filter P (y # ys)) = filter P (remdups_adj (y # ys))" and "x \<notin> set (y # ys)"
      using 3 by auto
    then have "x \<notin> set (filter P (y # ys))" by auto
    then have "remdups_adj (replicate 1 x @ filter P (y # ys)) = [x] @ remdups_adj (filter P (y # ys))"
      by (subst remdups_adj_replicate_append) simp_all
    then show ?thesis using False ih by simp
  qed (use 3 in auto)
qed simp_all

lemma prefix_hits_blocks:
  "distinct (map nd_id ns) \<Longrightarrow>
   remdups_adj (concat (map (prefix_hits start) ns)) = map nd_id (filter (has_primitive start) ns)"
proof (induction ns)
  case (Cons n ns)
  let ?k = "length (filter (\<lambda>p. starts_with (cp_label p) start) (canvas_primitives (nd_kind n)))"
  have "set (concat (map (prefix_hits start) ns)) \<subseteq> nd_id ` set ns" by (auto simp: prefix_hits_def)
  then have "nd_id n \<notin> set (concat (map (prefix_hits start) ns))" using Cons.prems by auto
  from remdups_adj_replicate_append [OF this, of ?k]
  have "remdups_adj (replicate ?k (nd_id n) @ concat (map (prefix_hits start) ns)) =
      (if ?k = 0 then [] else [nd_id n]) @ map nd_id (filter (has_primitive start) ns)"
    using Cons.IH Cons.prems by simp
  moreover have "prefix_hits start n = replicate ?k (nd_id n)" by (simp add: prefix_hits_def map_replicate_const)
  moreover have "?k = 0 \<longleftrightarrow> \<not> has_primitive start n" by (auto simp: has_primitive_def filter_empty_conv)
  ultimately show ?case by simp
qed simp

section \<open>Resolving computes the meaning\<close>

text \<open>What a well-formed graph presents: mounted nodes under their own ids, each once.\<close>

lemma presented_nodes_once:
  assumes "well_formed g"
  shows "\<exists>ns. presented_preorder g = Some ns \<and> distinct (map nd_id ns) \<and> (\<forall>n \<in> set ns. mounted g (nd_id n) = Some n)"
proof (cases "mg_root g")
  case None
  then have "presented_preorder g = Some []"
    by (simp add: presented_preorder_def root_list_def presented_walk_Nil)
  then show ?thesis by simp
next
  case (Some root)
  with assms obtain t where t: "graph_tree g t" by (auto simp: well_formed_def)
  let ?ids = "gt_preorder (pruned (node_presented g) t)"
  have held: "held g t" and once: "distinct (gt_preorder t)" using t by (simp_all add: graph_tree_def)
  have here: "mounted g i = Some (the (mounted g i)) \<and> nd_id (the (mounted g i)) = i" if "i \<in> set ?ids" for i
    using mounted_id [OF held, of i] pruned_in that by fastforce
  have "map nd_id (map (the \<circ> mounted g) ?ids) = ?ids"
    unfolding map_map by (rule map_idI) (use here in simp)
  moreover have "distinct ?ids" unfolding pruned_preorder using once by (intro distinct_map_filter) (simp add: gt_paths_last)
  ultimately show ?thesis using presented_preorder_tree [OF t] here by fastforce
qed

lemma located_shown: "located g l i \<Longrightarrow> shown g i"
  by (induction l) auto

lemma shown_iff:
  "presented_preorder g = Some ns \<Longrightarrow> shown g i \<longleftrightarrow> i \<in> nd_id ` set ns"
  by (simp add: shown_def)

text \<open>Without a scope, resolving filters the presented nodes.\<close>

lemma locate_plain_value:
  assumes ns: "presented_preorder g = Some ns" and once: "distinct (map nd_id ns)"
    and nodes: "\<forall>n \<in> set ns. mounted g (nd_id n) = Some n" and plain: "\<And>a t. l \<noteq> LocWithin a t"
  shows "\<exists>found. locate_plain g l = Some found \<and> remdups_adj found = filter (located g l) (map nd_id ns) \<and>
    ((\<forall>start. loc_target l \<noteq> LocCanvasItemPrefix start) \<longrightarrow> found = filter (located g l) (map nd_id ns))"
proof (cases "\<exists>start. l = LocCanvasItemPrefix start")
  case True
  then obtain start where l: "l = LocCanvasItemPrefix start" by blast
  have "located g l (nd_id n) \<longleftrightarrow> has_primitive start n" if "n \<in> set ns" for n
    using that nodes shown_iff [OF ns] by (auto simp: l)
  then have "filter (located g l) (map nd_id ns) = map nd_id (filter (has_primitive start) ns)"
    by (auto simp: filter_map comp_def intro!: arg_cong [of _ _ "map nd_id"] filter_cong)
  then show ?thesis using prefix_hits_blocks [OF once] ns by (simp add: locate_plain_def l)
next
  case False
  then have case_l: "(case l of LocCanvasItemPrefix start \<Rightarrow> A start | _ \<Rightarrow> B) = B" for A and B :: 'z
    by (cases l) auto
  have loc: "located g l i \<longleftrightarrow> shown g i \<and> (\<exists>n. mounted g i = Some n \<and> node_matches g l n)" for i
    using False plain by (cases l) auto
  have "located g l (nd_id n) \<longleftrightarrow> node_matches g l n" if "n \<in> set ns" for n
    using that nodes shown_iff [OF ns] by (auto simp: loc)
  then have eq: "filter (located g l) (map nd_id ns) = map nd_id (filter (node_matches g l) ns)"
    by (auto simp: filter_map comp_def intro!: arg_cong [of _ _ "map nd_id"] filter_cong)
  have "locate_plain g l = Some (map nd_id (filter (node_matches g l) ns))"
    by (simp add: locate_plain_def case_l ns)
  moreover have "distinct (map nd_id (filter (node_matches g l) ns))" using once by (simp add: distinct_map_filter)
  ultimately show ?thesis using eq by (simp add: remdups_adj_distinct)
qed

lemma locate_plain_eq: "(\<And>a t. l \<noteq> LocWithin a t) \<Longrightarrow> locate g l = locate_plain g l"
  by (cases l) auto

lemma locate_unscoped:
  assumes "presented_preorder g = Some ns" and "distinct (map nd_id ns)"
    and "\<forall>n \<in> set ns. mounted g (nd_id n) = Some n" and "\<And>a t. l \<noteq> LocWithin a t"
  shows "\<exists>found. locate g l = Some found \<and> remdups_adj found = filter (located g l) (map nd_id ns) \<and>
    ((\<forall>start. loc_target l \<noteq> LocCanvasItemPrefix start) \<longrightarrow> found = filter (located g l) (map nd_id ns))"
  unfolding locate_plain_eq [OF assms(4)] by (rule locate_plain_value [OF assms])

lemma locate_value:
  assumes wf: "well_formed g" and ns: "presented_preorder g = Some ns" and once: "distinct (map nd_id ns)"
    and nodes: "\<forall>n \<in> set ns. mounted g (nd_id n) = Some n"
  shows "\<exists>found. locate g l = Some found \<and> remdups_adj found = filter (located g l) (map nd_id ns) \<and>
    ((\<forall>start. loc_target l \<noteq> LocCanvasItemPrefix start) \<longrightarrow> found = filter (located g l) (map nd_id ns))"
proof (induction l)
  case (LocWithin a t)
  show ?case
  proof (cases "names_primitive a")
    case True
    then have "\<not> located g (LocWithin a t) i" for i by simp
    then show ?thesis using True by simp
  next
    case False
    from LocWithin.IH obtain scopes found where
      scopes: "locate g a = Some scopes" "remdups_adj scopes = filter (located g a) (map nd_id ns)" and
      found: "locate g t = Some found" "remdups_adj found = filter (located g t) (map nd_id ns)"
        "(\<forall>start. loc_target t \<noteq> LocCanvasItemPrefix start) \<longrightarrow> found = filter (located g t) (map nd_id ns)" by blast
    have in_scope: "s \<in> set scopes \<longleftrightarrow> located g a s" for s
    proof -
      have "set scopes = set (remdups_adj scopes)" by simp
      also have "\<dots> = {i \<in> nd_id ` set ns. located g a i}" unfolding scopes(2) by auto
      finally show ?thesis using located_shown [of g a s] shown_iff [OF ns] by auto
    qed
    let ?P = "\<lambda>i. \<exists>s. located g a s \<and> (if names_primitive t then (ordinary_parent g)\<^sup>*\<^sup>* i s else (ordinary_parent g)\<^sup>+\<^sup>+ i s)"
    have climb: "climb_to_scope g (set scopes) (if names_primitive t then Some i else map_option fst (parent g i)) = Some (?P i)" for i
      using climb_to_scope_value [OF wf, of "set scopes" i] by (auto simp: in_scope)
    have resolved: "locate g (LocWithin a t) = Some (filter ?P found)"
      using False scopes(1) found(1) filter_option_value [of found, OF climb] by simp
    have "located g (LocWithin a t) i \<longleftrightarrow> located g t i \<and> ?P i" for i using False by simp
    then have both: "filter (located g (LocWithin a t)) (map nd_id ns) = filter ?P (filter (located g t) (map nd_id ns))"
      by (simp only: filter_filter) (rule filter_cong, simp_all add: conj_commute)
    have "distinct (remdups_adj found)" unfolding found(2) using once by simp
    from remdups_adj_filter [OF this, of ?P] have "remdups_adj (filter ?P found) = filter ?P (filter (located g t) (map nd_id ns))"
      unfolding found(2) .
    moreover have "filter ?P found = filter ?P (filter (located g t) (map nd_id ns))"
      if "\<forall>start. loc_target (LocWithin a t) \<noteq> LocCanvasItemPrefix start"
      using found(3) that by simp
    ultimately show ?thesis unfolding resolved both by blast
  qed
qed (rule locate_unscoped [OF ns once nodes], simp)+


lemma locate_decides_plain: "well_formed g \<Longrightarrow> \<exists>found. locate g l = Some found"
  using presented_nodes_once locate_value by blast

lemma located_inside:
  assumes "graph_tree g t" and "locate g l = Some found" and "i \<in> set found"
  shows "i \<in> set (gt_preorder t)"
proof -
  have wf: "well_formed g" using assms(1) by (auto simp: well_formed_def)
  from presented_nodes_once [OF wf] obtain ns where
    ns: "presented_preorder g = Some ns" "distinct (map nd_id ns)" "\<forall>n \<in> set ns. mounted g (nd_id n) = Some n" by blast
  from locate_value [OF wf ns, of l] assms(2) have "remdups_adj found = filter (located g l) (map nd_id ns)" by simp
  then have "i \<in> set (filter (located g l) (map nd_id ns))" using assms(3) by (metis remdups_adj_set)
  then have "mg_nodes g i \<noteq> None" using ns(3) by (auto simp: mounted_def)
  then show ?thesis using assms(1) by (auto simp: graph_tree_def)
qed

section \<open>Scopes and descendants\<close>

lemma climbs_up:
  assumes "ordinary_parent g i p" and "climbs g i as"
  shows "\<exists>bs. climbs g p bs \<and> length bs < length as"
proof -
  from assms(1) obtain k where "parent_location g i = Some (OrdinaryIndex p k)"
    by (auto simp: ordinary_parent_def parent_def split: option.splits parent_location.splits)
  with assms(2) show ?thesis by (cases rule: climbs.cases) auto
qed

lemma climb_irreflexive:
  assumes "well_formed g"
  shows "\<not> (ordinary_parent g)\<^sup>+\<^sup>+ i i"
proof
  assume loop: "(ordinary_parent g)\<^sup>+\<^sup>+ i i"
  obtain locations where up: "climbs g i locations" using well_formed_climbs [OF assms] by blast
  have "\<exists>bs. climbs g j bs \<and> length bs < length locations" if "(ordinary_parent g)\<^sup>+\<^sup>+ i j" for j
    using that
  proof (induction rule: tranclp_induct)
    case (base p)
    then show ?case by (rule climbs_up [OF _ up])
  next
    case (step p q)
    then obtain bs where "climbs g p bs" "length bs < length locations" by blast
    then show ?case using climbs_up [OF step.hyps(2)] less_trans by blast
  qed
  from this [OF loop] climbs_deterministic [OF up] show False by blast
qed

lemma descent_reaches:
  assumes "well_formed g"
  shows "is_descendant_of g i s = Some ((\<lambda>i p. \<exists>location. parent_location g i = Some location \<and> location_parent location = p)\<^sup>*\<^sup>* i s)"
proof -
  let ?up = "\<lambda>i p. \<exists>location. parent_location g i = Some location \<and> location_parent location = p"
  have step: "?up\<^sup>*\<^sup>* j s \<longleftrightarrow> s = j \<or> (\<exists>p. ?up j p \<and> ?up\<^sup>*\<^sup>* p s)" for j by (rule reaches_unfold)
  have "is_descendant_of g i s = Some (?up\<^sup>*\<^sup>* i s)" if "climbs g i locations" for locations
    using that
  proof (induction rule: climbs.induct)
    case (climbs_end i)
    then have "?up\<^sup>*\<^sup>* i s \<longleftrightarrow> s = i" using step [of i] by auto
    then show ?case by (subst is_descendant_of.simps) (use climbs_end in auto)
  next
    case (climbs_step i location locations)
    then have "?up\<^sup>*\<^sup>* i s \<longleftrightarrow> s = i \<or> ?up\<^sup>*\<^sup>* (location_parent location) s" using step [of i] by auto
    then show ?case by (subst is_descendant_of.simps) (use climbs_step in auto)
  qed
  then show ?thesis using well_formed_climbs [OF assms] by blast
qed

text \<open>
  Where no node is a child of a keyed container, a scope means descent: a node without
  primitives is found within a scope exactly when it is found and lies strictly below a node the
  scope names.
\<close>

theorem within_means_below:
  assumes "well_formed g" and "\<And>i c key inst. parent_location g i \<noteq> Some (KeyedAt c key inst)"
    and "\<not> names_primitive ancestor" and "\<not> names_primitive target"
  shows "located g (LocWithin ancestor target) i \<longleftrightarrow>
    located g target i \<and> (\<exists>s. located g ancestor s \<and> s \<noteq> i \<and> is_descendant_of g i s = Some True)"
proof -
  let ?up = "\<lambda>i p. \<exists>location. parent_location g i = Some location \<and> location_parent location = p"
  have same: "ordinary_parent g = ?up"
  proof (intro ext)
    fix i p
    show "ordinary_parent g i p \<longleftrightarrow> ?up i p"
      using assms(2) [of i] by (cases "parent_location g i") (auto simp: ordinary_parent_def parent_def split: parent_location.splits)
  qed
  have "(ordinary_parent g)\<^sup>+\<^sup>+ i s \<longleftrightarrow> s \<noteq> i \<and> (ordinary_parent g)\<^sup>*\<^sup>* i s" for s
    using climb_irreflexive [OF assms(1)] by (metis rtranclpD tranclp_into_rtranclp)
  then show ?thesis using assms(3,4) descent_reaches [OF assms(1), of i] by (simp add: same)
qed

section \<open>Keyed children cut the climb\<close>










section \<open>Presses reach the primitive they name\<close>




section \<open>Before means document order\<close>

lemma position_of_index: "position_of x xs = None \<longleftrightarrow> x \<notin> set xs"
  by (induction xs) auto

lemma before_document_order:
  assumes "distinct xs" and "i \<in> set xs" and "j \<in> set xs"
  shows "before_index (position_of i xs) (position_of j xs) \<longleftrightarrow> i \<noteq> j \<and> at_or_before xs i j"
  using assms
proof (induction xs)
  case (Cons x xs)
  have some: "\<exists>k. position_of y xs = Some k" if "y \<in> set xs" for y using that position_of_index [of y xs] by auto
  consider "i = x" | "i \<noteq> x" "j = x" | "i \<noteq> x" "j \<noteq> x" by blast
  then show ?case
  proof cases
    case 1
    then show ?thesis using Cons.prems some [of j] by (cases "j = x") (auto simp: at_or_before_Cons)
  next
    case 2
    then have "\<not> at_or_before xs i x" using Cons.prems(1) at_or_before_in by fastforce
    then show ?thesis using 2 Cons.prems some [of i] by (auto simp: at_or_before_Cons)
  next
    case 3
    then have "i \<in> set xs" "j \<in> set xs" using Cons.prems by auto
    then obtain k m where "position_of i xs = Some k" "position_of j xs = Some m"
      using some [of i] some [of j] by blast
    then show ?thesis using 3 Cons by (auto simp: at_or_before_Cons)
  qed
qed simp

lemma only_Ok: "only g l = Some (Ok i) \<longleftrightarrow> locate g l = Some [i]"
proof -
  have "(case found of [i] \<Rightarrow> Ok i | _ \<Rightarrow> Err (length found)) = Ok i \<longleftrightarrow> found = [i]" for found
    by (auto split: list.split)
  then show ?thesis by (simp add: only_def)
qed

text \<open>
  The claim that one locator comes before another holds exactly when each names one node
  and the first node comes before the second in document order.
\<close>

theorem before_claim_decides:
  assumes "graph_tree g t"
  shows "graph_claim dark g (CmdExpectBefore a b) = Some (Some (Ok (), None)) \<longleftrightarrow>
    (\<exists>i j. locate g a = Some [i] \<and> locate g b = Some [j] \<and> i \<noteq> j \<and> at_or_before (gt_preorder t) i j)"
proof -
  have wf: "well_formed g" using assms by (auto simp: well_formed_def)
  from nodes_preorder_tree [OF assms] obtain ns where ns: "nodes_preorder g = Some ns" "map nd_id ns = gt_preorder t" by blast
  have once: "distinct (gt_preorder t)" using assms by (simp add: graph_tree_def)
  have "\<exists>r. only g l = Some r" for l using locate_decides_plain [OF wf, of l] by (auto simp: only_def)
  then obtain r q where rq: "only g a = Some r" "only g b = Some q" by blast
  have inside: "i \<in> set (gt_preorder t)" if "only g l = Some (Ok i)" for l i
    using located_inside [OF assms] that by (auto simp: only_Ok)
  have claim: "graph_claim dark g (CmdExpectBefore a b) = Some (Some (claim_before ns r q))"
    using ns(1) rq by (simp add: graph_claim_def)
  show ?thesis
  proof (cases "\<exists>i j. r = Ok i \<and> q = Ok j")
    case True
    then obtain i j where ij: "r = Ok i" "q = Ok j" by blast
    then have "claim_before ns r q = (Ok (), None) \<longleftrightarrow> i \<noteq> j \<and> at_or_before (gt_preorder t) i j"
      using before_document_order [OF once inside inside, of a i b j] rq
      by (simp add: claim_before_def holds_def ns(2))
    moreover have "locate g a = Some [i]" "locate g b = Some [j]" using rq ij only_Ok by metis+
    ultimately show ?thesis using claim by simp
  next
    case False
    then have "fst (claim_before ns r q) \<noteq> Ok ()" by (cases r; cases q) (simp_all add: claim_before_def)
    then have "graph_claim dark g (CmdExpectBefore a b) \<noteq> Some (Some (Ok (), None))" using claim by auto
    moreover have "\<not> (\<exists>i j. locate g a = Some [i] \<and> locate g b = Some [j])"
      using False rq only_Ok by (metis option.inject)
    ultimately show ?thesis by blast
  qed
qed

section \<open>An example\<close>

text \<open>A column over a canvas with one rectangle and a button.\<close>

definition sample_rectangle :: canvas_primitive where
  "sample_rectangle =
     \<lparr>cp_kind = CanvasRectangle, cp_key = 7, cp_label = ''tile'', cp_x = 0, cp_y = 0, cp_width = 10, cp_height = 10,
      cp_x2 = 0, cp_y2 = 0, cp_fill = None, cp_stroke = None, cp_stroke_width = 0, cp_radius = 0, cp_text = [],
      cp_text_size = 0, cp_align = TextStart\<rparr>"

definition sample_canvas :: node_kind where
  "sample_canvas = Canvas ''map'' [sample_rectangle] False False False style_default"

definition plain_page :: mounted_graph where
  "plain_page = graph_default\<lparr>mg_root := Some 1, mg_nodes := Map.empty(
     1 \<mapsto> sample_entry 1 (Column ''page'' style_default) [2, 3] None,
     2 \<mapsto> sample_entry 2 sample_canvas [] (Some (OrdinaryIndex 1 0)),
     3 \<mapsto> sample_entry 3 sample_button [] (Some (OrdinaryIndex 1 1)))\<rparr>"

lemma plain_page_nodes:
  "mg_nodes plain_page 1 = Some (sample_entry 1 (Column ''page'' style_default) [2, 3] None)"
  "mg_nodes plain_page 2 = Some (sample_entry 2 sample_canvas [] (Some (OrdinaryIndex 1 0)))"
  "mg_nodes plain_page 3 = Some (sample_entry 3 sample_button [] (Some (OrdinaryIndex 1 1)))"
  by (simp_all add: plain_page_def)

lemma plain_page_locations:
  "parent_location plain_page 1 = None" "parent_location plain_page 2 = Some (OrdinaryIndex 1 0)"
  "parent_location plain_page 3 = Some (OrdinaryIndex 1 1)"
  by (simp_all add: parent_location_def plain_page_nodes sample_entry_def)

lemma plain_page_tree: "graph_tree plain_page (GNode 1 [GNode 2 [], GNode 3 []])"
proof -
  have "held plain_page (GNode 1 [GNode 2 [], GNode 3 []])"
    by (auto simp: plain_page_nodes plain_page_locations linked_children_def sample_entry_def nth_Cons' less_Suc_eq)
  moreover have "dom (mg_nodes plain_page) = {1, 2, 3}" by (auto simp: plain_page_def graph_default_def split: if_splits)
  ultimately show ?thesis by (simp add: graph_tree_def plain_page_locations) (simp add: plain_page_def)
qed

lemma plain_page_ordinary: "parent_location plain_page i \<noteq> Some (KeyedAt c key inst)"
  by (auto simp: parent_location_def plain_page_def graph_default_def sample_entry_def split: if_splits)

definition plain_nodes :: "node list" where
  "plain_nodes =
     [\<lparr>nd_id = 1, nd_kind = Column ''page'' style_default, nd_children = [2, 3]\<rparr>,
      \<lparr>nd_id = 2, nd_kind = sample_canvas, nd_children = []\<rparr>, \<lparr>nd_id = 3, nd_kind = sample_button, nd_children = []\<rparr>]"

lemma plain_page_shown: "presented_preorder plain_page = Some plain_nodes"
proof -
  have "mounted_kind plain_page 1 = Some (Column ''page'' style_default)"
    by (simp add: mounted_kind_def mounted_def plain_page_nodes sample_entry_def)
  then show ?thesis
    using presented_preorder_tree [OF plain_page_tree]
    by (simp add: node_presented_def plain_page_locations place_presented_def mounted_def plain_page_nodes sample_entry_def
        plain_nodes_def)
qed

lemma plain_page_mounted:
  "mounted plain_page 1 = Some \<lparr>nd_id = 1, nd_kind = Column ''page'' style_default, nd_children = [2, 3]\<rparr>"
  "mounted plain_page 2 = Some \<lparr>nd_id = 2, nd_kind = sample_canvas, nd_children = []\<rparr>"
  "mounted plain_page 3 = Some \<lparr>nd_id = 3, nd_kind = sample_button, nd_children = []\<rparr>"
  by (simp_all add: mounted_def plain_page_nodes sample_entry_def)


lemma plain_page_well_formed: "well_formed plain_page"
  using plain_page_tree by (auto simp: well_formed_def)

lemma within_means_below_witness:
  "located plain_page (LocWithin (LocColumnName ''page'') (LocButtonName ''go'')) 3"
proof -
  have "shown plain_page 1" "shown plain_page 3"
    by (simp_all add: shown_iff [OF plain_page_shown] plain_nodes_def)
  then have "located plain_page (LocButtonName ''go'') 3" "located plain_page (LocColumnName ''page'') 1"
    by (simp_all add: plain_page_mounted node_matches_def sample_button_def)
  moreover have "is_descendant_of plain_page 3 1 = Some True"
    by (subst is_descendant_of.simps, simp add: plain_page_locations, subst is_descendant_of.simps, simp)
  ultimately show ?thesis
    using within_means_below [OF plain_page_well_formed plain_page_ordinary,
        of "LocColumnName ''page''" "LocButtonName ''go''" 3]
    by (auto simp: names_primitive_def)
qed

lemma plain_page_locates:
  "locate plain_page (LocCanvasItemName ''tile'') = Some [2]" "locate plain_page (LocCanvasName ''map'') = Some [2]"
  "locate plain_page (LocButtonName ''go'') = Some [3]"
  by (simp_all add: locate_plain_def plain_page_shown plain_nodes_def node_matches_def sample_canvas_def sample_rectangle_def
      sample_button_def)


lemma before_claim_decides_witness:
  "graph_claim True plain_page (CmdExpectBefore (LocCanvasName ''map'') (LocButtonName ''go'')) = Some (Some (Ok (), None))"
  using before_claim_decides [OF plain_page_tree, of True "LocCanvasName ''map''" "LocButtonName ''go''"]
  by (simp add: plain_page_locates at_or_before_Cons del: locate.simps)

end
