(* ===== verification/Watches.thy ===== *)
theory Watches
  imports Grants "HOL-Library.Char_ord" "HOL-Library.List_Lexorder"
begin

text \<open>
  Change notification for granted directories and databases (\<open>watch.rs\<close>): what an event means for
  a watch, the state of one watch and the wait of \<open>next\<close>, the store, and how withdrawing a grant
  ends the watches derived from it. As the code shares a watch between the store, the watcher's
  thread and the calls that wait, the watches live in a table of their own by their ids, which are
  never reused; what the store holds is the list of ids. Instants are nanoseconds. The system's
  notifier is a parameter: the bits of its masks, and what opening and adding answer.
\<close>

section \<open>Events\<close>

unbundle bit_operations_syntax

definition max_watches :: nat where "max_watches = 64"
definition max_names :: nat where "max_names = 256"
definition settle_pause :: nat where "settle_pause = 10 * 1000000"
definition settle_limit :: nat where "settle_limit = 100 * 1000000"

definition code_changed :: u8 where "code_changed = 0"
definition code_canceled :: u8 where "code_canceled = 2"
definition code_revoked :: u8 where "code_revoked = 3"
definition code_gone :: u8 where "code_gone = 4"

datatype watch_refusal = WatchIo | WatchResourceLimit | WatchRevoked | WatchUnsupported

datatype watch_target = DirectoryTarget | DatabaseTarget string

datatype watch_effect = NothingEffect | NamedEffect string bool

text \<open>The notifier's bits, which each platform names for itself.\<close>

record event_masks =
  em_name_changed :: u32
  em_written :: u32
  em_gone :: u32

fun held_open :: "watch_target \<Rightarrow> string list" where
  "held_open DirectoryTarget = []"
| "held_open (DatabaseTarget name) = [name, name @ ''-wal'']"

fun target_effect :: "event_masks \<Rightarrow> watch_target \<Rightarrow> string \<Rightarrow> u32 \<Rightarrow> watch_effect" where
  "target_effect ms DirectoryTarget child bits =
     (let rebound = bits AND em_name_changed ms \<noteq> 0; written = bits AND em_written ms \<noteq> 0 in
      if rebound \<or> written then NamedEffect child rebound else NothingEffect)"
| "target_effect ms (DatabaseTarget name) child bits =
     (let rebound = bits AND em_name_changed ms \<noteq> 0; written = bits AND em_written ms \<noteq> 0 in
      if child = name \<and> (rebound \<or> written) then NamedEffect name rebound
      else if written \<and> child = name @ ''-wal'' then NamedEffect name False
      else NothingEffect)"

section \<open>The state of one watch\<close>

datatype watch_end = EndCanceled | EndRevoked | EndGone

fun end_code :: "watch_end \<Rightarrow> u8" where
  "end_code EndCanceled = code_canceled"
| "end_code EndRevoked = code_revoked"
| "end_code EndGone = code_gone"

record watch_state =
  ws_names :: "string set"
  ws_rebound :: bool
  ws_overflowed :: bool
  ws_first :: "nat option"
  ws_last :: "nat option"
  ws_waiting :: bool
  ws_ended :: "watch_end option"

definition watch_state_start :: watch_state where
  "watch_state_start =
     \<lparr>ws_names = {}, ws_rebound = False, ws_overflowed = False, ws_first = None, ws_last = None, ws_waiting = False,
      ws_ended = None\<rparr>"

definition pending :: "watch_state \<Rightarrow> bool" where
  "pending s \<longleftrightarrow> ws_names s \<noteq> {} \<or> ws_overflowed s"

record watch_report =
  rp_code :: u8
  rp_names :: "string list"
  rp_replaced :: bool
  rp_overflowed :: bool

definition ended_report :: "u8 \<Rightarrow> watch_report" where
  "ended_report c = \<lparr>rp_code = c, rp_names = [], rp_replaced = False, rp_overflowed = False\<rparr>"

text \<open>The first end is the one kept.\<close>

definition end_state :: "watch_end \<Rightarrow> watch_state \<Rightarrow> bool \<times> watch_state" where
  "end_state why s = (if ws_ended s \<noteq> None then (False, s) else (True, s\<lparr>ws_ended := Some why\<rparr>))"

text \<open>Noting an instant at which something changed.\<close>

definition touch :: "nat \<Rightarrow> watch_state \<Rightarrow> watch_state" where
  "touch now s =
     s\<lparr>ws_first := Some (case ws_first s of None \<Rightarrow> now | Some t \<Rightarrow> t), ws_last := Some now\<rparr>"

definition note_lost :: "watch_target \<Rightarrow> nat \<Rightarrow> watch_state \<Rightarrow> watch_state" where
  "note_lost target now s =
     touch now (s\<lparr>ws_overflowed := True,
                  ws_rebound := ws_rebound s \<or> (case target of DatabaseTarget _ \<Rightarrow> True | _ \<Rightarrow> False)\<rparr>)"

definition note_named :: "string \<Rightarrow> bool \<Rightarrow> nat \<Rightarrow> watch_state \<Rightarrow> watch_state" where
  "note_named name rebound now s =
     (let s = s\<lparr>ws_rebound := ws_rebound s \<or> rebound\<rparr> in
      touch now
        (if card (ws_names s) < max_names \<or> name \<in> ws_names s then s\<lparr>ws_names := insert name (ws_names s)\<rparr>
         else s\<lparr>ws_overflowed := True\<rparr>))"

section \<open>Waiting\<close>

text \<open>
  One turn of the loop in \<open>next\<close>, under the watch's lock: it returns, or goes to sleep, for a time
  at most when something is pending. Leaving the loop marks the watch as not waited for.
\<close>

datatype waited = Answers watch_report | SleepsFor nat | Sleeps

definition wait_once :: "nat \<Rightarrow> bool \<Rightarrow> watch_state \<Rightarrow> waited \<times> watch_state" where
  "wait_once now requested s =
     (case ws_ended s of
        Some why \<Rightarrow> (Answers (ended_report (end_code why)), s\<lparr>ws_waiting := False\<rparr>)
      | None \<Rightarrow>
          if requested then (Answers (ended_report code_canceled), s\<lparr>ws_waiting := False\<rparr>)
          else if pending s then
            (let quiet = (case ws_last s of Some t \<Rightarrow> t + settle_pause \<le> now | None \<Rightarrow> False);
                 limit = (case ws_first s of Some t \<Rightarrow> t + settle_limit \<le> now | None \<Rightarrow> False)
             in if quiet \<or> limit
                then (Answers \<lparr>rp_code = code_changed, rp_names = sorted_list_of_set (ws_names s),
                               rp_replaced = ws_rebound s, rp_overflowed = ws_overflowed s\<rparr>,
                      s\<lparr>ws_names := {}, ws_rebound := False, ws_overflowed := False, ws_first := None, ws_last := None,
                        ws_waiting := False\<rparr>)
                else
                  (let deadline = min ((case ws_last s of Some t \<Rightarrow> t | None \<Rightarrow> now) + settle_pause)
                                      ((case ws_first s of Some t \<Rightarrow> t | None \<Rightarrow> now) + settle_limit)
                   in (SleepsFor (deadline - now), s)))
          else (Sleeps, s))"

text \<open>Taking the lock for the first time: one call waits on a watch at a time.\<close>

definition enter_next :: "nat \<Rightarrow> bool \<Rightarrow> watch_state \<Rightarrow> waited \<times> watch_state" where
  "enter_next now requested s =
     (case ws_ended s of
        Some why \<Rightarrow> (Answers (ended_report (end_code why)), s)
      | None \<Rightarrow>
          if ws_waiting s then (Answers (ended_report code_canceled), s)
          else wait_once now requested (s\<lparr>ws_waiting := True\<rparr>))"

section \<open>The store\<close>

record watch =
  wt_target :: watch_target
  wt_descriptor :: "32 word"
  wt_parent :: grant_id
  wt_state :: watch_state

record watch_store =
  wr_next :: u64
  wr_watches :: "u64 \<rightharpoonup> watch"
  wr_ids :: "u64 list"
  wr_allocations :: "nat \<rightharpoonup> u64"
  wr_by_descriptor :: "32 word \<rightharpoonup> u64 list"
  wr_notifier :: "32 word option"
  wr_started :: u64
  wr_changes :: u64
  wr_cancels :: u64
  wr_revocations :: u64

definition watches_start :: watch_store where
  "watches_start =
     \<lparr>wr_next = 1, wr_watches = Map.empty, wr_ids = [], wr_allocations = Map.empty, wr_by_descriptor = Map.empty,
      wr_notifier = None, wr_started = 0, wr_changes = 0, wr_cancels = 0, wr_revocations = 0\<rparr>"

definition configure_watches :: "watch_store \<Rightarrow> grant_registry \<Rightarrow> watch_store \<times> grant_registry" where
  "configure_watches r g =
     (r\<lparr>wr_started := 0, wr_changes := 0, wr_cancels := 0, wr_revocations := 0\<rparr>, forget_kind KindWatch g)"

definition watch_counters :: "watch_store \<Rightarrow> u64 list" where
  "watch_counters r = [wr_started r, wr_changes r, wr_cancels r, wr_revocations r, of_nat (length (wr_ids r))]"

definition lookup_watch :: "u64 \<Rightarrow> watch_store \<Rightarrow> watch option" where
  "lookup_watch i r = (if i \<in> set (wr_ids r) then wr_watches r i else None)"

text \<open>Writing a watch's state back, under its lock.\<close>

definition put_state :: "u64 \<Rightarrow> watch_state \<Rightarrow> watch_store \<Rightarrow> watch_store" where
  "put_state i s r =
     r\<lparr>wr_watches := (wr_watches r)(i := map_option (wt_state_update (\<lambda>_. s)) (wr_watches r i))\<rparr>"

definition end_watch :: "u64 \<Rightarrow> watch_end \<Rightarrow> watch_store \<Rightarrow> bool \<times> watch_store" where
  "end_watch i why r =
     (case wr_watches r i of
        None \<Rightarrow> (False, r)
      | Some w \<Rightarrow> (let (changed, s) = end_state why (wt_state w) in (changed, put_state i s r)))"

text \<open>
  Starting, under the store's lock. The notifier opens with the first watch, and stays open when
  adding the directory is refused.
\<close>

definition start_store ::
  "watch_target \<Rightarrow> grant_id \<Rightarrow> (watch_refusal, 32 word) outcome \<Rightarrow>
   (32 word \<Rightarrow> string list \<Rightarrow> (watch_refusal, 32 word) outcome) \<Rightarrow> nat \<Rightarrow> watch_store \<Rightarrow>
   (watch_refusal, u64) outcome \<times> watch_store" where
  "start_store target parent opened added allocation r =
     (if max_watches \<le> length (wr_ids r) then (Err WatchResourceLimit, r)
      else case (case wr_notifier r of Some fd \<Rightarrow> Ok fd | None \<Rightarrow> opened) of
        Err e \<Rightarrow> (Err e, r)
      | Panic \<Rightarrow> (Panic, r)
      | Ok fd \<Rightarrow>
          (let r = r\<lparr>wr_notifier := Some fd\<rparr> in
           case added fd (held_open target) of
             Err e \<Rightarrow> (Err e, r)
           | Panic \<Rightarrow> (Panic, r)
           | Ok d \<Rightarrow>
               (let i = wr_next r in
                case checked_add i 1 of
                  None \<Rightarrow> (Panic, r)
                | Some after \<Rightarrow>
                    (Ok i,
                     r\<lparr>wr_next := after,
                       wr_watches := (wr_watches r)(i \<mapsto>
                         \<lparr>wt_target = target, wt_descriptor = d, wt_parent = parent, wt_state = watch_state_start\<rparr>),
                       wr_ids := List.insert i (wr_ids r),
                       wr_by_descriptor := (wr_by_descriptor r)(d \<mapsto>
                         (case wr_by_descriptor r d of Some is \<Rightarrow> is | None \<Rightarrow> []) @ [i]),
                       wr_started := wr_started r + 1,
                       wr_allocations := (wr_allocations r)(allocation \<mapsto> i)\<rparr>))))"

definition watch_rights :: rights where "watch_rights = right_read"

definition count_revoked :: "bool \<times> watch_store \<Rightarrow> watch_store" where
  "count_revoked result =
     (let (changed, r) = result in if changed then r\<lparr>wr_revocations := wr_revocations r + 1\<rparr> else r)"

text \<open>
  The grant of the new watch is recorded after the store's lock is released; where its parent was
  revoked in between, the watch ends as revoked.
\<close>

definition record_watch :: "u64 \<Rightarrow> grant \<Rightarrow> watch_store \<Rightarrow> grant_registry \<Rightarrow> watch_store \<times> grant_registry" where
  "record_watch i parent r g =
     (let (recorded, g) = record_descendant (GrantId KindWatch i) watch_rights parent g in
      (if recorded then r
       else case lookup_watch i r of None \<Rightarrow> r | Some _ \<Rightarrow> count_revoked (end_watch i EndRevoked r), g))"

definition start_watch ::
  "watch_target \<Rightarrow> grant \<Rightarrow> (watch_refusal, 32 word) outcome \<Rightarrow>
   (32 word \<Rightarrow> string list \<Rightarrow> (watch_refusal, 32 word) outcome) \<Rightarrow> nat \<Rightarrow> watch_store \<Rightarrow> grant_registry \<Rightarrow>
   (watch_refusal, u64) outcome \<times> watch_store \<times> grant_registry" where
  "start_watch target parent opened added allocation r g =
     (if is_revoked (gr_id parent) g then (Err WatchRevoked, r, g)
      else
        (let (result, r) = start_store target (gr_id parent) opened added allocation r in
         case result of Ok i \<Rightarrow> (Ok i, record_watch i parent r g) | _ \<Rightarrow> (result, r, g)))"

section \<open>Ending\<close>

definition cancel_watch :: "u64 \<Rightarrow> watch_store \<Rightarrow> bool \<times> watch_store" where
  "cancel_watch i r =
     (case lookup_watch i r of
        None \<Rightarrow> (False, r)
      | Some _ \<Rightarrow>
          (let (changed, r) = end_watch i EndCanceled r in
           (changed, if changed then r\<lparr>wr_cancels := wr_cancels r + 1\<rparr> else r)))"

text \<open>
  Freeing a handle's allocation, under the store's lock: the watch leaves the store, and the
  directory is given up with the last watch of it. The answer is the watch and, where the
  notifier is told, what it is told.
\<close>

definition unroute_watch :: "nat \<Rightarrow> watch_store \<Rightarrow> (u64 \<times> (32 word \<times> 32 word) option) option \<times> watch_store" where
  "unroute_watch base r =
     (case wr_allocations r base of
        None \<Rightarrow> (None, r)
      | Some i \<Rightarrow>
          (let r = r\<lparr>wr_allocations := (wr_allocations r)(base := None)\<rparr> in
           case lookup_watch i r of
             None \<Rightarrow> (None, r)
           | Some w \<Rightarrow>
               (let r = r\<lparr>wr_ids := remove1 i (wr_ids r)\<rparr>; d = wt_descriptor w in
                case wr_by_descriptor r d of
                  None \<Rightarrow> (Some (i, None), r)
                | Some is \<Rightarrow>
                    (let rest = filter (\<lambda>held. held \<noteq> i) is in
                     if rest = []
                     then (Some (i, map_option (\<lambda>fd. (fd, d)) (wr_notifier r)),
                           r\<lparr>wr_by_descriptor := (wr_by_descriptor r)(d := None)\<rparr>)
                     else (Some (i, None), r\<lparr>wr_by_descriptor := (wr_by_descriptor r)(d \<mapsto> rest)\<rparr>)))))"

definition watch_dealloc :: "nat \<Rightarrow> watch_store \<Rightarrow> grant_registry \<Rightarrow> watch_store \<times> grant_registry" where
  "watch_dealloc base r g =
     (let (released, r) = unroute_watch base r in
      case released of
        None \<Rightarrow> (r, g)
      | Some (i, _) \<Rightarrow> (snd (end_watch i EndCanceled r), release (GrantId KindWatch i) g))"

text \<open>A watch whose grant was withdrawn, or whose parent was released.\<close>

definition end_if_withdrawn :: "grant_registry \<Rightarrow> u64 \<Rightarrow> watch_store \<Rightarrow> watch_store" where
  "end_if_withdrawn g i r =
     (if is_revoked (GrantId KindWatch i) g then count_revoked (end_watch i EndRevoked r)
      else case wr_watches r i of
        None \<Rightarrow> r
      | Some w \<Rightarrow> if \<not> is_held (wt_parent w) g then snd (end_watch i EndCanceled r) else r)"

definition end_withdrawn :: "grant_registry \<Rightarrow> watch_store \<Rightarrow> watch_store" where
  "end_withdrawn g r = fold (end_if_withdrawn g) (wr_ids r) r"

text \<open>
  Revoking a grant, as \<open>grant.rs\<close> does it: it ends the watches between marking the grants and
  handing the remembered roots to the recent list.
\<close>

definition revoke_ending ::
  "grant_id \<Rightarrow> watch_store \<Rightarrow> grant_registry \<Rightarrow> (u64 \<times> grant_id list) \<times> watch_store \<times> grant_registry" where
  "revoke_ending i r g =
     (let (count, g) = revoke_in i g; r = end_withdrawn g r; (roots, g) = take_withdrawn_remembered g
      in ((count, roots), r, g))"

definition revoke_kind_ending ::
  "grant_kind \<Rightarrow> watch_store \<Rightarrow> grant_registry \<Rightarrow> (u64 \<times> grant_id list) \<times> watch_store \<times> grant_registry" where
  "revoke_kind_ending k r g =
     (let (count, g) = revoke_kind_in k g; r = end_withdrawn g r; (roots, g) = take_withdrawn_remembered g
      in ((count, roots), r, g))"

section \<open>Delivering\<close>

definition directory_gone :: "event_masks \<Rightarrow> 32 word option \<Rightarrow> u32 \<Rightarrow> bool" where
  "directory_gone ms descriptor bits \<longleftrightarrow> descriptor \<noteq> None \<and> bits AND em_gone ms \<noteq> 0"

text \<open>What one event does to one watch; no descriptor is a lost event.\<close>

definition deliver_state ::
  "event_masks \<Rightarrow> nat \<Rightarrow> 32 word option \<Rightarrow> string option \<Rightarrow> u32 \<Rightarrow> watch_target \<Rightarrow> watch_state \<Rightarrow> watch_state" where
  "deliver_state ms now descriptor child bits target s =
     (if directory_gone ms descriptor bits then snd (end_state EndGone s)
      else if ws_ended s \<noteq> None then s
      else case (descriptor, child) of
        (None, _) \<Rightarrow> note_lost target now s
      | (Some _, Some child) \<Rightarrow>
          (case target_effect ms target child bits of
             NothingEffect \<Rightarrow> s
           | NamedEffect name rebound \<Rightarrow> note_named name rebound now s)
      | (Some _, None) \<Rightarrow> s)"

definition deliver_to ::
  "event_masks \<Rightarrow> nat \<Rightarrow> 32 word option \<Rightarrow> string option \<Rightarrow> u32 \<Rightarrow> u64 \<Rightarrow> watch_store \<Rightarrow> watch_store" where
  "deliver_to ms now descriptor child bits i r =
     (case wr_watches r i of
        None \<Rightarrow> r
      | Some w \<Rightarrow> put_state i (deliver_state ms now descriptor child bits (wt_target w) (wt_state w)) r)"

text \<open>The watches an event is for, as the store has them.\<close>

definition watched_by :: "32 word option \<Rightarrow> watch_store \<Rightarrow> u64 list" where
  "watched_by descriptor r =
     filter (\<lambda>i. lookup_watch i r \<noteq> None)
       (case descriptor of
          Some d \<Rightarrow> (case wr_by_descriptor r d of Some is \<Rightarrow> is | None \<Rightarrow> [])
        | None \<Rightarrow> wr_ids r)"

definition forget_descriptor :: "32 word \<Rightarrow> watch_store \<Rightarrow> watch_store" where
  "forget_descriptor d r = r\<lparr>wr_by_descriptor := (wr_by_descriptor r)(d := None)\<rparr>"

definition deliver_event ::
  "event_masks \<Rightarrow> nat \<Rightarrow> 32 word option \<Rightarrow> string option \<Rightarrow> u32 \<Rightarrow> watch_store \<Rightarrow> watch_store" where
  "deliver_event ms now descriptor child bits r =
     (let r = fold (deliver_to ms now descriptor child bits) (watched_by descriptor r) r in
      if directory_gone ms descriptor bits
      then (case descriptor of Some d \<Rightarrow> forget_descriptor d r | None \<Rightarrow> r) else r)"

record file_event =
  fe_descriptor :: "32 word option"
  fe_name :: "string option"
  fe_mask :: u32

text \<open>One turn of the watcher's thread with the events it read, each at its instant.\<close>

definition watch_turn :: "event_masks \<Rightarrow> (nat \<times> file_event) list \<Rightarrow> grant_registry \<Rightarrow> watch_store \<Rightarrow> watch_store" where
  "watch_turn ms events g r =
     end_withdrawn g
       (fold (\<lambda>(now, e). deliver_event ms now (fe_descriptor e) (fe_name e) (fe_mask e)) events r)"

section \<open>A whole wait\<close>

text \<open>What a call leaves behind: the state of the watch, and one more change when it reports one.\<close>

definition leave_next :: "u64 \<Rightarrow> waited \<times> watch_state \<Rightarrow> watch_store \<Rightarrow> watch_store" where
  "leave_next i result r =
     (let r = put_state i (snd result) r in
      case fst result of
        Answers report \<Rightarrow> if rp_code report = code_changed then r\<lparr>wr_changes := wr_changes r + 1\<rparr> else r
      | _ \<Rightarrow> r)"

text \<open>
  The call up to where it first sleeps or returns. Dropping the call's reference may free the
  handle's allocation.
\<close>

definition next_change ::
  "nat \<Rightarrow> bool \<Rightarrow> nat option \<Rightarrow> u64 \<Rightarrow> watch_store \<Rightarrow> grant_registry \<Rightarrow> waited \<times> watch_store \<times> grant_registry" where
  "next_change now requested freed i r g =
     (let found = lookup_watch i r;
          (r, g) = (case freed of Some base \<Rightarrow> watch_dealloc base r g | None \<Rightarrow> (r, g))
      in case found of
           None \<Rightarrow> (Answers (ended_report code_canceled), r, g)
         | Some _ \<Rightarrow>
             (let r = end_if_withdrawn g i r in
              case wr_watches r i of
                None \<Rightarrow> (Answers (ended_report code_canceled), r, g)
              | Some w \<Rightarrow>
                  (let result = enter_next now requested (wt_state w) in (fst result, leave_next i result r, g))))"

end
