(* ===== verification/WatchesCorrect.thy ===== *)
theory WatchesCorrect
  imports Watches GrantsCorrect
begin

text \<open>
  The watches under interleaving: starting, events, waits, cancelling, freeing handles and
  withdrawn grants, each under the lock the code takes. What a watch holds is bounded, no change is
  lost between two reports, a report is in time, and a revoked grant's watches say so.
\<close>

section \<open>The machine\<close>

text \<open>
  One step per critical section. A delivery reads the clock before it takes the watch's lock. The
  rule for a wait allows every turn of the loop and every first turn.
\<close>

datatype watch_event =
    Passes nat | Starts watch_target grant_id nat | Delivers "32 word option" "string option" u32 u64
  | Forgets "32 word" | Ends u64 | Cancels u64 | Waits u64 waited | Frees nat | Configures

inductive watch_step :: "nat \<times> watch_store \<Rightarrow> watch_event \<Rightarrow> nat \<times> watch_store \<Rightarrow> bool" where
  passes: "now \<le> t \<Longrightarrow> watch_step (now, r) (Passes t) (t, r)"
| starts: "start_store target parent opened added allocation r = (result, r') \<Longrightarrow>
     watch_step (now, r) (Starts target parent allocation) (now, r')"
| delivers: "t \<le> now \<Longrightarrow>
     watch_step (now, r) (Delivers descriptor child bits i) (now, deliver_to ms t descriptor child bits i r)"
| forgets: "watch_step (now, r) (Forgets d) (now, forget_descriptor d r)"
| ends: "watch_step (now, r) (Ends i) (now, snd (end_watch i why r))"
| withdraws: "watch_step (now, r) (Ends i) (now, end_if_withdrawn g i r)"
| cancels: "watch_step (now, r) (Cancels i) (now, snd (cancel_watch i r))"
| waits: "wr_watches r i = Some w \<Longrightarrow>
     (result, s) = enter_next now requested (wt_state w) \<or> (result, s) = wait_once now requested (wt_state w) \<Longrightarrow>
     watch_step (now, r) (Waits i result) (now, leave_next i (result, s) r)"
| frees: "unroute_watch base r = (removed, r') \<Longrightarrow> watch_step (now, r) (Frees base) (now, r')"
| configures: "watch_step (now, r) Configures (now, fst (configure_watches r g))"

inductive watch_run :: "nat \<times> watch_store \<Rightarrow> watch_event list \<Rightarrow> nat \<times> watch_store \<Rightarrow> bool" where
  none: "watch_run m [] m"
| step: "watch_run m es n \<Longrightarrow> watch_step n e k \<Longrightarrow> watch_run m (es @ [e]) k"

definition watches_reachable :: "nat \<times> watch_store \<Rightarrow> bool" where
  "watches_reachable m \<longleftrightarrow> (\<exists>es. watch_run (0, watches_start) es m)"

lemma watches_reachable_start: "watches_reachable (0, watches_start)"
  unfolding watches_reachable_def by (intro exI) (rule watch_run.none)

lemma watches_reachable_step: "watches_reachable m \<Longrightarrow> watch_step m e n \<Longrightarrow> watches_reachable n"
  unfolding watches_reachable_def by (blast intro: watch_run.step)

section \<open>How a watch moves\<close>

lemma put_state_parts [simp]:
  "wr_watches (put_state i s r) j =
     (if j = i then map_option (wt_state_update (\<lambda>_. s)) (wr_watches r i) else wr_watches r j)"
  "wr_ids (put_state i s r) = wr_ids r" "wr_next (put_state i s r) = wr_next r"
  "wr_by_descriptor (put_state i s r) = wr_by_descriptor r" "wr_allocations (put_state i s r) = wr_allocations r"
  by (simp_all add: put_state_def)

lemma lookup_watch_allocations [simp]: "lookup_watch i (r\<lparr>wr_allocations := f\<rparr>) = lookup_watch i r"
  by (simp add: lookup_watch_def)

text \<open>Ending a watch changes that watch, and the counters.\<close>

definition ended_at :: "u64 \<Rightarrow> watch_end \<Rightarrow> watch_store \<Rightarrow> u64 \<rightharpoonup> watch" where
  "ended_at i why r =
     (wr_watches r)(i := map_option (\<lambda>w. w\<lparr>wt_state := snd (end_state why (wt_state w))\<rparr>) (wr_watches r i))"

lemma end_watch_parts [simp]:
  "wr_watches (snd (end_watch i why r)) = ended_at i why r" "wr_ids (snd (end_watch i why r)) = wr_ids r"
  "wr_next (snd (end_watch i why r)) = wr_next r" "wr_by_descriptor (snd (end_watch i why r)) = wr_by_descriptor r"
  by (auto simp: end_watch_def ended_at_def case_prod_beta fun_eq_iff split: option.split)

lemma count_revoked_parts [simp]:
  "wr_watches (count_revoked p) = wr_watches (snd p)" "wr_ids (count_revoked p) = wr_ids (snd p)"
  "wr_next (count_revoked p) = wr_next (snd p)" "wr_by_descriptor (count_revoked p) = wr_by_descriptor (snd p)"
  by (simp_all add: count_revoked_def case_prod_beta)

lemma end_if_withdrawn_parts:
  "wr_watches (end_if_withdrawn g i r) =
     (if is_revoked (GrantId KindWatch i) g then ended_at i EndRevoked r
      else case wr_watches r i of
        Some w \<Rightarrow> if is_held (wt_parent w) g then wr_watches r else ended_at i EndCanceled r
      | None \<Rightarrow> wr_watches r)"
  "wr_ids (end_if_withdrawn g i r) = wr_ids r" "wr_next (end_if_withdrawn g i r) = wr_next r"
  "wr_by_descriptor (end_if_withdrawn g i r) = wr_by_descriptor r"
  by (simp_all add: end_if_withdrawn_def split: option.split)

lemma cancel_watch_parts:
  "wr_watches (snd (cancel_watch i r)) = (if i \<in> set (wr_ids r) then ended_at i EndCanceled r else wr_watches r)"
  "wr_ids (snd (cancel_watch i r)) = wr_ids r" "wr_next (snd (cancel_watch i r)) = wr_next r"
  "wr_by_descriptor (snd (cancel_watch i r)) = wr_by_descriptor r"
  by (auto simp: cancel_watch_def lookup_watch_def case_prod_beta ended_at_def split: option.split)

lemma deliver_to_parts [simp]:
  "wr_ids (deliver_to ms t d c b i r) = wr_ids r" "wr_next (deliver_to ms t d c b i r) = wr_next r"
  "wr_by_descriptor (deliver_to ms t d c b i r) = wr_by_descriptor r"
  "wr_watches (deliver_to ms t d c b i r) j =
     (if j = i then map_option (\<lambda>w. w\<lparr>wt_state := deliver_state ms t d c b (wt_target w) (wt_state w)\<rparr>) (wr_watches r i)
      else wr_watches r j)"
  by (simp_all add: deliver_to_def split: option.split)

lemma leave_next_parts [simp]:
  "wr_watches (leave_next i p r) = wr_watches (put_state i (snd p) r)" "wr_ids (leave_next i p r) = wr_ids r"
  "wr_next (leave_next i p r) = wr_next r" "wr_by_descriptor (leave_next i p r) = wr_by_descriptor r"
  by (simp_all add: leave_next_def Let_def split: waited.split)

lemma unroute_watch_parts:
  "unroute_watch base r = (removed, r') \<Longrightarrow> wr_watches r' = wr_watches r \<and> wr_next r' = wr_next r"
  by (auto simp: unroute_watch_def Let_def split: option.splits if_splits)

lemma start_store_cases:
  assumes "start_store target parent opened added allocation r = (result, r')"
  obtains (refused) "wr_watches r' = wr_watches r" "wr_ids r' = wr_ids r" "wr_next r' = wr_next r"
      "wr_by_descriptor r' = wr_by_descriptor r" "\<And>i. result \<noteq> Ok i"
    | (started) d where "result = Ok (wr_next r)" "length (wr_ids r) < max_watches" "unat (wr_next r') = unat (wr_next r) + 1"
        "wr_watches r' = (wr_watches r)(wr_next r \<mapsto>
           \<lparr>wt_target = target, wt_descriptor = d, wt_parent = parent, wt_state = watch_state_start\<rparr>)"
        "wr_ids r' = List.insert (wr_next r) (wr_ids r)"
        "wr_by_descriptor r' = (wr_by_descriptor r)(d \<mapsto>
           (case wr_by_descriptor r d of Some is \<Rightarrow> is | None \<Rightarrow> []) @ [wr_next r])"
  using assms checked_add_SomeD [of "wr_next r" 1]
  by (auto simp: start_store_def Let_def split: if_splits outcome.splits option.splits)

text \<open>What a step does to the state of a watch that exists.\<close>

definition moves :: "nat \<Rightarrow> watch_event \<Rightarrow> u64 \<Rightarrow> watch_target \<Rightarrow> watch_state \<Rightarrow> watch_state \<Rightarrow> bool" where
  "moves now e i target s s' \<longleftrightarrow>
     (case e of
        Waits j result \<Rightarrow>
          if j = i then \<exists>requested. (result, s') = enter_next now requested s \<or> (result, s') = wait_once now requested s
          else s' = s
      | _ \<Rightarrow> s' = s \<or> (\<exists>why. s' = snd (end_state why s)) \<or>
            (\<exists>ms t d c b. t \<le> now \<and> s' = deliver_state ms t d c b target s))"

definition fresh_next :: "watch_store \<Rightarrow> bool" where
  "fresh_next r \<longleftrightarrow> (\<forall>i. wr_watches r i \<noteq> None \<longrightarrow> i < wr_next r)"

lemma ended_at_Some:
  "wr_watches r i = Some w \<Longrightarrow> ended_at j why r i =
     Some (w\<lparr>wt_state := (if j = i then snd (end_state why (wt_state w)) else wt_state w)\<rparr>)"
  by (auto simp: ended_at_def)

lemma ended_at_None: "wr_watches r i = None \<Longrightarrow> ended_at j why r i = None"
  by (auto simp: ended_at_def)

definition ends_or_stays :: "watch \<Rightarrow> watch \<Rightarrow> bool" where
  "ends_or_stays w w' \<longleftrightarrow>
     (\<exists>s. w' = w\<lparr>wt_state := s\<rparr> \<and> (s = wt_state w \<or> (\<exists>why. s = snd (end_state why (wt_state w)))))"

lemma ends_or_stays_refl: "ends_or_stays w w"
  unfolding ends_or_stays_def by (intro exI [of _ "wt_state w"]) simp

lemma ends_or_stays_end:
  "wr_watches r i = Some w \<Longrightarrow> \<exists>w'. ended_at j why r i = Some w' \<and> ends_or_stays w w'"
  using ends_or_stays_refl [of w] by (cases "j = i") (auto simp: ended_at_Some ends_or_stays_def)

lemma ends_or_stays_moves:
  assumes "\<exists>w'. wr_watches r' i = Some w' \<and> ends_or_stays w w'" and "\<And>j result. e \<noteq> Waits j result"
  shows "\<exists>s. wr_watches r' i = Some (w\<lparr>wt_state := s\<rparr>) \<and> moves now e i (wt_target w) (wt_state w) s"
  using assms unfolding ends_or_stays_def moves_def by (auto split: watch_event.split)

lemma watch_moves:
  assumes "watch_step (now, r) e (now', r')" and "fresh_next r" and w: "wr_watches r i = Some w"
  shows "\<exists>s. wr_watches r' i = Some (w\<lparr>wt_state := s\<rparr>) \<and> moves now e i (wt_target w) (wt_state w) s"
  using assms(1)
proof (cases rule: watch_step.cases)
  case (starts target parent opened added allocation result)
  from starts(3) have "wr_watches r' i = wr_watches r i"
  proof (cases rule: start_store_cases)
    case (started d)
    have "i \<noteq> wr_next r" using assms(2) w by (auto simp: fresh_next_def)
    then show ?thesis using started(4) by simp
  qed simp
  then show ?thesis using w starts(1) by (intro exI [of _ "wt_state w"]) (simp add: moves_def)
next
  case (delivers t descriptor child bits j ms)
  let ?s = "if i = j then deliver_state ms t descriptor child bits (wt_target w) (wt_state w) else wt_state w"
  have "moves now e i (wt_target w) (wt_state w) ?s"
    using delivers(4) unfolding moves_def delivers(1) watch_event.case by (cases "i = j") (simp_all, blast)
  moreover have "wr_watches r' i = Some (w\<lparr>wt_state := ?s\<rparr>)" using delivers(3) w by (cases "i = j") auto
  ultimately show ?thesis by blast
next
  case (ends j why)
  show ?thesis by (rule ends_or_stays_moves) (use ends ends_or_stays_end [OF w] in simp_all)
next
  case (withdraws j g)
  have "\<exists>w'. wr_watches r' i = Some w' \<and> ends_or_stays w w'"
    unfolding withdraws(3) end_if_withdrawn_parts using ends_or_stays_end [OF w] ends_or_stays_refl w
    by (simp split: option.split)
  then show ?thesis by (rule ends_or_stays_moves) (simp add: withdraws(1))
next
  case (cancels j)
  have "\<exists>w'. wr_watches r' i = Some w' \<and> ends_or_stays w w'"
    unfolding cancels(3) cancel_watch_parts using ends_or_stays_end [OF w] ends_or_stays_refl w by simp
  then show ?thesis by (rule ends_or_stays_moves) (simp add: cancels(1))
next
  case (waits j v result s requested)
  have "wr_watches r' i = Some (w\<lparr>wt_state := (if j = i then s else wt_state w)\<rparr>)"
    using waits(3) w by (cases "i = j") auto
  moreover have "moves now e i (wt_target w) (wt_state w) (if j = i then s else wt_state w)"
    using waits(1,4,5) w by (auto simp: moves_def)
  ultimately show ?thesis by blast
next
  case (frees base removed)
  then show ?thesis using unroute_watch_parts [OF frees(3)] w
    by (intro exI [of _ "wt_state w"]) (simp add: moves_def)
qed (use w in \<open>auto simp: moves_def forget_descriptor_def configure_watches_def intro!: exI [of _ "wt_state w"]\<close>)

text \<open>No watch leaves the table, and a new one starts empty.\<close>

lemma watch_step_new:
  assumes "watch_step (now, r) e (now', r')" and "wr_watches r i = None" and w: "wr_watches r' i = Some w"
  shows "wt_state w = watch_state_start"
  using assms(1)
proof (cases rule: watch_step.cases)
  case (starts target parent opened added allocation result)
  from starts(3) show ?thesis
  proof (cases rule: start_store_cases)
    case refused
    then show ?thesis using assms(2) w by simp
  next
    case (started d)
    then show ?thesis using assms(2) w by (auto split: if_splits)
  qed
next
  case (withdraws j g)
  then show ?thesis using assms(2) w ended_at_None [OF assms(2)]
    by (auto simp: end_if_withdrawn_parts split: option.splits if_splits)
next
  case (frees base removed)
  then show ?thesis using unroute_watch_parts [OF frees(3)] assms(2) w by simp
qed (use assms(2) w ended_at_None [OF assms(2)] in
  \<open>auto simp: cancel_watch_parts forget_descriptor_def configure_watches_def split: if_splits\<close>)

section \<open>The store\<close>

text \<open>
  Ids are issued in order and the store holds at most its limit; the list of a descriptor names
  watches of the store that have it, each once, and is never empty.
\<close>

definition listed_ok :: "watch_store \<Rightarrow> bool" where
  "listed_ok r \<longleftrightarrow>
     (\<forall>d is. wr_by_descriptor r d = Some is \<longrightarrow>
        is \<noteq> [] \<and> distinct is \<and>
        (\<forall>i\<in>set is. i \<in> set (wr_ids r) \<and> (\<exists>w. wr_watches r i = Some w \<and> wt_descriptor w = d)))"

definition held_ok :: "watch_store \<Rightarrow> bool" where
  "held_ok r \<longleftrightarrow> set (wr_ids r) \<subseteq> dom (wr_watches r) \<and> distinct (wr_ids r) \<and> length (wr_ids r) \<le> max_watches"

definition watches_ok :: "watch_store \<Rightarrow> bool" where
  "watches_ok r \<longleftrightarrow> fresh_next r \<and> held_ok r \<and> listed_ok r"

text \<open>Steps under a watch's lock leave the store as it is, up to the states of the watches.\<close>

definition same_store :: "watch_store \<Rightarrow> watch_store \<Rightarrow> bool" where
  "same_store r r' \<longleftrightarrow>
     wr_ids r' = wr_ids r \<and> wr_next r' = wr_next r \<and> wr_by_descriptor r' = wr_by_descriptor r \<and>
     (\<forall>i. map_option wt_descriptor (wr_watches r' i) = map_option wt_descriptor (wr_watches r i))"

lemma same_store_dom:
  assumes "same_store r r'"
  shows "wr_watches r' i = None \<longleftrightarrow> wr_watches r i = None"
proof -
  have "map_option wt_descriptor (wr_watches r' i) = map_option wt_descriptor (wr_watches r i)"
    using assms by (simp add: same_store_def)
  then show ?thesis by (cases "wr_watches r' i"; cases "wr_watches r i") simp_all
qed

lemma same_store_descriptor:
  assumes "same_store r r'" and "wr_watches r i = Some w"
  shows "\<exists>w'. wr_watches r' i = Some w' \<and> wt_descriptor w' = wt_descriptor w"
proof -
  have "map_option wt_descriptor (wr_watches r' i) = Some (wt_descriptor w)"
    using assms by (simp add: same_store_def)
  then show ?thesis by auto
qed

lemma watches_ok_same:
  assumes same: "same_store r r'" and ok: "watches_ok r"
  shows "watches_ok r'"
proof -
  have eqs: "wr_ids r' = wr_ids r" "wr_next r' = wr_next r" "wr_by_descriptor r' = wr_by_descriptor r"
    using same by (simp_all add: same_store_def)
  have "dom (wr_watches r') = dom (wr_watches r)" using same_store_dom [OF same] by (simp add: dom_def)
  moreover have "listed_ok r'"
    unfolding listed_ok_def eqs
  proof (intro allI impI conjI ballI)
    fix d "is" assume "wr_by_descriptor r d = Some is"
    then have "is \<noteq> []" "distinct is" and at:
        "\<And>i. i \<in> set is \<Longrightarrow> i \<in> set (wr_ids r) \<and> (\<exists>w. wr_watches r i = Some w \<and> wt_descriptor w = d)"
      using ok unfolding watches_ok_def listed_ok_def by blast+
    then show "is \<noteq> []" "distinct is" by blast+
    fix i assume i: "i \<in> set is"
    show "i \<in> set (wr_ids r)" using at [OF i] ..
    from at [OF i] obtain w where w: "wr_watches r i = Some w" "wt_descriptor w = d" by blast
    from same_store_descriptor [OF same w(1)] show "\<exists>w. wr_watches r' i = Some w \<and> wt_descriptor w = d"
      using w(2) by blast
  qed
  ultimately show ?thesis
    using ok eqs same_store_dom [OF same] by (simp add: watches_ok_def held_ok_def fresh_next_def)
qed

lemma same_store_ended: "wr_watches r' = ended_at i why r \<Longrightarrow> wr_ids r' = wr_ids r \<Longrightarrow> wr_next r' = wr_next r \<Longrightarrow>
    wr_by_descriptor r' = wr_by_descriptor r \<Longrightarrow> same_store r r'"
  by (auto simp: same_store_def ended_at_def option.map_comp comp_def)

lemma same_store_refl: "same_store r r" by (simp add: same_store_def)

lemma watches_ok_start:
  assumes ok: "watches_ok r" and "start_store target parent opened added allocation r = (result, r')"
  shows "watches_ok r'"
  using assms(2)
proof (cases rule: start_store_cases)
  case refused
  then show ?thesis using watches_ok_same [OF _ ok, of r'] by (simp add: same_store_def)
next
  case (started d)
  have less: "wr_next r < wr_next r'" using started(3) by (simp add: word_less_nat_alt)
  have new: "wr_watches r (wr_next r) = None" using ok unfolding watches_ok_def fresh_next_def by (metis order_less_irrefl)
  then have out: "wr_next r \<notin> set (wr_ids r)" using ok by (auto simp: watches_ok_def held_ok_def)
  have "fresh_next r'"
    using ok less unfolding watches_ok_def fresh_next_def started(4) by (auto intro: less_trans split: if_splits)
  moreover have "held_ok r'"
    using ok out started(2) unfolding watches_ok_def held_ok_def started(4,5) by auto
  moreover have "listed_ok r'"
    unfolding listed_ok_def started(4-6)
    using ok new out unfolding watches_ok_def listed_ok_def
    by (auto split: option.splits)
  ultimately show ?thesis by (simp add: watches_ok_def)
qed

lemma unroute_watch_cases:
  assumes "unroute_watch base r = (removed, r')"
  obtains (unknown) "wr_ids r' = wr_ids r" "wr_by_descriptor r' = wr_by_descriptor r"
    | (unlisted) i w where "wr_watches r i = Some w" "wr_ids r' = remove1 i (wr_ids r)"
        "wr_by_descriptor r (wt_descriptor w) = None" "wr_by_descriptor r' = wr_by_descriptor r"
    | (listed) i w "is" where "wr_watches r i = Some w" "wr_ids r' = remove1 i (wr_ids r)"
        "wr_by_descriptor r (wt_descriptor w) = Some is"
        "wr_by_descriptor r' = (wr_by_descriptor r)(wt_descriptor w :=
           (let rest = filter (\<lambda>held. held \<noteq> i) is in if rest = [] then None else Some rest))"
proof (cases "wr_allocations r base")
  case None
  then show ?thesis using assms unknown by (simp add: unroute_watch_def)
next
  case (Some i)
  show ?thesis
  proof (cases "lookup_watch i r")
    case None
    then show ?thesis using assms Some unknown by (auto simp: unroute_watch_def)
  next
    case (Some w)
    then have at: "i \<in> set (wr_ids r)" "wr_watches r i = Some w" by (simp_all add: lookup_watch_def split: if_splits)
    show ?thesis
    proof (cases "wr_by_descriptor r (wt_descriptor w)")
      case None
      then show ?thesis using assms \<open>wr_allocations r base = Some i\<close> \<open>lookup_watch i r = Some w\<close> at
        by (intro unlisted [of i w]) (auto simp: unroute_watch_def Let_def)
    next
      case (Some "is")
      then show ?thesis using assms \<open>wr_allocations r base = Some i\<close> \<open>lookup_watch i r = Some w\<close> at
        by (intro listed [of i w "is"]) (auto simp: unroute_watch_def Let_def split: if_splits)
    qed
  qed
qed

lemma watches_ok_unroute:
  assumes ok: "watches_ok r" and unroute: "unroute_watch base r = (removed, r')"
  shows "watches_ok r'"
proof -
  note parts = unroute_watch_parts [OF unroute]
  from unroute show ?thesis
  proof (cases rule: unroute_watch_cases)
    case unknown
    then show ?thesis using watches_ok_same [OF _ ok, of r'] parts by (simp add: same_store_def)
  next
    case (unlisted i w)
    have "i \<notin> set is" if "wr_by_descriptor r d = Some is" for d "is"
      using ok that unlisted(1,3) unfolding watches_ok_def listed_ok_def by fastforce
    then have "listed_ok r'"
      using ok unlisted(2) parts unfolding watches_ok_def listed_ok_def unlisted(4) by (auto simp: held_ok_def)
    then show ?thesis
      using ok unlisted(2) parts length_remove1 [of i "wr_ids r"] set_remove1_subset [of i "wr_ids r"]
      by (auto simp: watches_ok_def held_ok_def fresh_next_def distinct_remove1 split: if_splits)
  next
    case (listed i w "is")
    have other: "i \<notin> set js" if "wr_by_descriptor r d = Some js" "d \<noteq> wt_descriptor w" for d js
      using ok that listed(1) unfolding watches_ok_def listed_ok_def by fastforce
    have rest: "j \<in> set (remove1 i (wr_ids r)) \<longleftrightarrow> j \<in> set (wr_ids r) \<and> j \<noteq> i" for j
      using ok by (simp add: watches_ok_def held_ok_def)
    have "listed_ok r'"
      unfolding listed_ok_def
    proof (intro allI impI)
      fix d js assume js: "wr_by_descriptor r' d = Some js"
      show "js \<noteq> [] \<and> distinct js \<and> (\<forall>j\<in>set js. j \<in> set (wr_ids r') \<and> (\<exists>w. wr_watches r' j = Some w \<and> wt_descriptor w = d))"
      proof (cases "d = wt_descriptor w")
        case True
        then have "js = filter (\<lambda>held. held \<noteq> i) is" "js \<noteq> []"
          using js unfolding listed(4) by (auto simp: Let_def split: if_splits)
        moreover have "distinct is" "\<forall>j\<in>set is. j \<in> set (wr_ids r) \<and> (\<exists>w. wr_watches r j = Some w \<and> wt_descriptor w = d)"
          using ok listed(3) True unfolding watches_ok_def listed_ok_def by blast+
        ultimately show ?thesis using parts by (simp add: listed(2) rest)
      next
        case False
        then have at: "wr_by_descriptor r d = Some js" using js unfolding listed(4) by simp
        have "js \<noteq> []" "distinct js" "\<forall>j\<in>set js. j \<in> set (wr_ids r) \<and> (\<exists>w. wr_watches r j = Some w \<and> wt_descriptor w = d)"
          using ok at unfolding watches_ok_def listed_ok_def by blast+
        then show ?thesis using parts other [OF at False] by (auto simp: listed(2) rest)
      qed
    qed
    then show ?thesis
      using ok listed(2) parts length_remove1 [of i "wr_ids r"] set_remove1_subset [of i "wr_ids r"]
      by (auto simp: watches_ok_def held_ok_def fresh_next_def distinct_remove1 split: if_splits)
  qed
qed

lemma watches_ok_step:
  assumes "watch_step (now, r) e (now', r')" and ok: "watches_ok r"
  shows "watches_ok r'"
  using assms(1)
proof (cases rule: watch_step.cases)
  case (starts target parent opened added allocation result)
  then show ?thesis using watches_ok_start [OF ok] by blast
next
  case (delivers t descriptor child bits j ms)
  show ?thesis
    by (rule watches_ok_same [OF _ ok]) (simp add: delivers(3) same_store_def option.map_comp comp_def)
next
  case (ends j why)
  show ?thesis by (rule watches_ok_same [OF _ ok], rule same_store_ended) (simp_all add: ends(3))
next
  case (withdraws j g)
  have "same_store r r'"
    unfolding withdraws(3)
    by (cases "wr_watches r j")
      (auto simp: end_if_withdrawn_def same_store_refl intro: same_store_ended [where i = j and why = EndRevoked]
         same_store_ended [where i = j and why = EndCanceled])
  then show ?thesis by (rule watches_ok_same) (rule ok)
next
  case (cancels j)
  have "same_store r r'"
    using same_store_ended [of r' j EndCanceled r] unfolding cancels(3)
    by (cases "j \<in> set (wr_ids r)") (simp_all add: cancel_watch_parts same_store_def)
  then show ?thesis by (rule watches_ok_same) (rule ok)
next
  case (waits j v result s requested)
  show ?thesis
    by (rule watches_ok_same [OF _ ok]) (simp add: waits(3) same_store_def option.map_comp comp_def)
next
  case (frees base removed)
  then show ?thesis using watches_ok_unroute [OF ok] by blast
next
  case (forgets d)
  then show ?thesis using ok
    by (auto simp: watches_ok_def fresh_next_def held_ok_def listed_ok_def forget_descriptor_def)
next
  case (configures g)
  show ?thesis by (rule watches_ok_same [OF _ ok]) (simp add: configures(3) same_store_def configure_watches_def)
qed (use ok in simp)

section \<open>What a watch holds\<close>

text \<open>
  At most so many names, and the instants of the first and the last change exactly while something
  is pending; neither is in the future.
\<close>

definition state_ok :: "nat \<Rightarrow> watch_state \<Rightarrow> bool" where
  "state_ok now s \<longleftrightarrow>
     finite (ws_names s) \<and> card (ws_names s) \<le> max_names \<and>
     (pending s \<longleftrightarrow> ws_first s \<noteq> None) \<and> (pending s \<longleftrightarrow> ws_last s \<noteq> None) \<and>
     (\<forall>t. ws_first s = Some t \<or> ws_last s = Some t \<longrightarrow> t \<le> now) \<and> (ws_rebound s \<longrightarrow> pending s)"

lemma state_ok_start [simp]: "state_ok now watch_state_start"
  by (simp add: state_ok_def watch_state_start_def pending_def)

lemma state_ok_later: "state_ok now s \<Longrightarrow> now \<le> t \<Longrightarrow> state_ok t s"
  unfolding state_ok_def by (blast intro: order_trans)

lemma state_ok_end [simp]: "state_ok now (snd (end_state why s)) = state_ok now s"
  by (simp add: end_state_def state_ok_def pending_def)

lemma state_ok_waiting [simp]: "state_ok now (s\<lparr>ws_waiting := b\<rparr>) = state_ok now s"
  by (simp add: state_ok_def pending_def)

lemma state_ok_lost:
  assumes "state_ok now s" and "t \<le> now"
  shows "state_ok now (note_lost target t s)"
  using assms by (auto simp: state_ok_def note_lost_def touch_def pending_def split: option.splits)

lemma state_ok_named:
  assumes "state_ok now s" and "t \<le> now"
  shows "state_ok now (note_named name rebound t s)"
  using assms
  by (auto simp: state_ok_def note_named_def touch_def pending_def Let_def insert_absorb card_insert_if split: option.splits)

lemma state_ok_deliver:
  assumes "state_ok now s" and "t \<le> now"
  shows "state_ok now (deliver_state ms t d c b target s)"
  using assms by (auto simp: deliver_state_def state_ok_lost state_ok_named split: option.split watch_effect.split)

lemma state_ok_wait:
  assumes "state_ok now s" and "(result, s') = wait_once now requested s"
  shows "state_ok now s'"
  using assms by (auto simp: wait_once_def Let_def state_ok_def pending_def split: option.splits if_splits)

lemma state_ok_enter:
  assumes "state_ok now s" and "(result, s') = enter_next now requested s"
  shows "state_ok now s'"
  using assms state_ok_wait [of now "s\<lparr>ws_waiting := True\<rparr>" result s' requested]
  by (auto simp: enter_next_def split: option.splits if_splits)

lemma state_ok_moves: "moves now e i target s s' \<Longrightarrow> state_ok now s \<Longrightarrow> state_ok now s'"
  unfolding moves_def
  by (auto split: watch_event.splits if_splits intro: state_ok_deliver state_ok_wait state_ok_enter)

lemma watch_invariant_step:
  assumes "watch_step (now, r) e (now', r')" and "watches_ok r"
    and states: "\<And>i w. wr_watches r i = Some w \<Longrightarrow> state_ok now (wt_state w)"
    and w: "wr_watches r' i = Some w"
  shows "state_ok now' (wt_state w)"
proof -
  have later: "now \<le> now'" using assms(1) by cases simp_all
  show ?thesis
  proof (cases "wr_watches r i")
    case None
    then show ?thesis using watch_step_new [OF assms(1) _ w] by simp
  next
    case (Some v)
    then obtain s where s: "wr_watches r' i = Some (v\<lparr>wt_state := s\<rparr>)" "moves now e i (wt_target v) (wt_state v) s"
      using watch_moves [OF assms(1)] assms(2) unfolding watches_ok_def by blast
    have "state_ok now s" by (rule state_ok_moves [OF s(2) states [OF Some]])
    then show ?thesis using state_ok_later [OF _ later] s(1) w by simp
  qed
qed

lemma watch_invariant_run:
  assumes "watch_run (t, r) es (now, r')" and "watches_ok r"
    and "\<And>i w. wr_watches r i = Some w \<Longrightarrow> state_ok t (wt_state w)"
  shows "watches_ok r' \<and> (\<forall>i w. wr_watches r' i = Some w \<longrightarrow> state_ok now (wt_state w))"
  using assms
proof (induction "(t, r)" es "(now, r')" arbitrary: now r' rule: watch_run.induct)
  case none
  then show ?case by blast
next
  case (step es n e)
  obtain now1 r1 where n: "n = (now1, r1)" by (cases n)
  have before: "watches_ok r1" "\<And>i w. wr_watches r1 i = Some w \<Longrightarrow> state_ok now1 (wt_state w)"
    using step(2) [OF n] step(4,5) by blast+
  then show ?case using watches_ok_step watch_invariant_step step(3) unfolding n by blast
qed

lemma watches_ok_empty: "watches_ok watches_start"
  by (simp add: watches_ok_def watches_start_def fresh_next_def held_ok_def listed_ok_def)

text \<open>
  In every interleaving the store holds at most sixty-four watches, each once and with ids
  that are never issued again, and the list of a descriptor names watches of the store that have
  it. Each watch holds at most 256 names however many changes there were; it has the instants of a
  first and a last change exactly while it has something to report.
\<close>

theorem watches_bounded:
  assumes "watches_reachable (now, r)"
  shows "watches_ok r \<and> (\<forall>i w. wr_watches r i = Some w \<longrightarrow> state_ok now (wt_state w))"
proof -
  from assms obtain es where run: "watch_run (0, watches_start) es (now, r)" unfolding watches_reachable_def by blast
  have "\<And>i w. wr_watches watches_start i = Some w \<Longrightarrow> state_ok 0 (wt_state w)" by (simp add: watches_start_def)
  from watch_invariant_run [OF run watches_ok_empty this] show ?thesis .
qed

lemma reachable_ok:
  assumes "watches_reachable (now, r)"
  shows "watches_ok r" "wr_watches r i = Some w \<Longrightarrow> state_ok now (wt_state w)"
  using assms watch_invariant_run [of 0 watches_start _ now r] watches_ok_empty
  unfolding watches_reachable_def by (auto simp: watches_start_def)

section \<open>Nothing is lost\<close>

text \<open>What a watch still has to tell of a change: its name, or that names are missing; and that the name was rebound.\<close>

definition owed :: "string option \<Rightarrow> bool \<Rightarrow> watch_state \<Rightarrow> bool" where
  "owed name rebound s \<longleftrightarrow>
     (ws_overflowed s \<or> (\<exists>n. name = Some n \<and> n \<in> ws_names s)) \<and> (rebound \<longrightarrow> ws_rebound s)"



lemma owed_lost: "owed None (target \<noteq> DirectoryTarget) (note_lost target now s)"
  by (simp add: owed_def note_lost_def touch_def split: watch_target.split)

lemma owed_end [simp]: "owed name rebound (snd (end_state why s)) = owed name rebound s"
  by (simp add: owed_def end_state_def)









section \<open>A report is in time\<close>

lemma wait_at_limit:
  assumes "ws_ended s = None" and "pending s" and "ws_first s = Some t" and "t + settle_limit \<le> now"
  shows "\<exists>report s'. wait_once now False s = (Answers report, s') \<and> rp_code report = code_changed"
  using assms by (simp add: wait_once_def Let_def)

text \<open>
  Claim C39: A wait on a live watch with something pending either reports it all, as the sorted names,
  and leaves nothing pending, or sleeps: for at most ten milliseconds, never past a hundred
  milliseconds after the first change, and when that time has passed with nothing new it reports.
  Whatever arrives meanwhile, a turn of the loop at that hundred milliseconds or later reports.
\<close>

theorem report_in_time:
  assumes "watches_reachable (now, r)" and "wr_watches r i = Some w" and "wt_state w = s"
    and "ws_ended s = None" and "pending s"
  shows "\<exists>first. ws_first s = Some first \<and>
    ((\<exists>report s'. wait_once now False s = (Answers report, s') \<and> rp_code report = code_changed \<and>
        set (rp_names report) = ws_names s \<and> sorted (rp_names report) \<and> distinct (rp_names report) \<and> \<not> pending s') \<or>
     (\<exists>n. wait_once now False s = (SleepsFor n, s) \<and> 0 < n \<and> n \<le> settle_pause \<and> now + n \<le> first + settle_limit \<and>
        (\<forall>later\<ge>now + n. \<exists>report s'. wait_once later False s = (Answers report, s') \<and> rp_code report = code_changed))) \<and>
    (\<forall>later u. first + settle_limit \<le> later \<and> ws_ended u = None \<and> pending u \<and> ws_first u = Some first \<longrightarrow>
       (\<exists>report s'. wait_once later False u = (Answers report, s') \<and> rp_code report = code_changed))"
proof -
  have ok: "state_ok now s" using reachable_ok(2) [OF assms(1,2)] assms(3) by simp
  obtain f where f: "ws_first s = Some f" using ok assms(5) by (auto simp: state_ok_def)
  obtain l where l: "ws_last s = Some l" "l \<le> now" using ok assms(5) by (auto simp: state_ok_def)
  have fin: "finite (ws_names s)" using ok by (simp add: state_ok_def)
  have "(\<exists>report s'. wait_once now False s = (Answers report, s') \<and> rp_code report = code_changed \<and>
        set (rp_names report) = ws_names s \<and> sorted (rp_names report) \<and> distinct (rp_names report) \<and> \<not> pending s') \<or>
     (\<exists>n. wait_once now False s = (SleepsFor n, s) \<and> 0 < n \<and> n \<le> settle_pause \<and> now + n \<le> f + settle_limit \<and>
        (\<forall>later\<ge>now + n. \<exists>report s'. wait_once later False s = (Answers report, s') \<and> rp_code report = code_changed))"
  proof (cases "l + settle_pause \<le> now \<or> f + settle_limit \<le> now")
    case True
    then show ?thesis using assms(4,5) f l fin by (auto simp: wait_once_def Let_def pending_def)
  next
    case False
    define n where "n = min (l + settle_pause) (f + settle_limit) - now"
    have "wait_once now False s = (SleepsFor n, s)"
      using False assms(4,5) f l by (simp add: wait_once_def Let_def n_def)
    moreover have "0 < n" "n \<le> settle_pause" "now + n \<le> f + settle_limit" using False l(2) by (auto simp: n_def)
    moreover have "\<exists>report s'. wait_once later False s = (Answers report, s') \<and> rp_code report = code_changed"
      if "now + n \<le> later" for later
    proof -
      have "l + settle_pause \<le> later \<or> f + settle_limit \<le> later" using that False by (auto simp: n_def min_def split: if_splits)
      then show ?thesis using assms(4,5) f l by (auto simp: wait_once_def Let_def)
    qed
    ultimately show ?thesis by blast
  qed
  then show ?thesis using f wait_at_limit by blast
qed

text \<open>Events keep the instant of the first change, so the limit of a wait does not move.\<close>

lemma deliver_keeps_first: "ws_first s = Some t \<Longrightarrow> ws_first (deliver_state ms now d c b target s) = Some t"
  by (auto simp: deliver_state_def end_state_def note_lost_def note_named_def touch_def Let_def split: option.split watch_effect.split)

section \<open>A watch that ended\<close>

lemma ended_moves:
  assumes "moves now e i target s s'" and "ws_ended s = Some why"
  shows "ws_ended s' = Some why \<and> (\<forall>result. e = Waits i result \<longrightarrow> result = Answers (ended_report (end_code why)))"
  using assms
  by (auto simp: moves_def end_state_def deliver_state_def enter_next_def wait_once_def split: watch_event.splits if_splits)

text \<open>The first end is the one every later wait answers with.\<close>

lemma ended_run:
  assumes "watch_run m es n" and "watches_ok (snd m)" and "wr_watches (snd m) i = Some w"
    and "ws_ended (wt_state w) = Some why"
  shows "watches_ok (snd n) \<and> (\<exists>v. wr_watches (snd n) i = Some v \<and> ws_ended (wt_state v) = Some why) \<and>
    (\<forall>result. Waits i result \<in> set es \<longrightarrow> result = Answers (ended_report (end_code why)))"
  using assms
proof (induction rule: watch_run.induct)
  case none
  then show ?case by simp
next
  case (step m es n e k)
  from step.IH [OF step.prems] obtain v where
    ok: "watches_ok (snd n)" and v: "wr_watches (snd n) i = Some v" "ws_ended (wt_state v) = Some why"
    and es: "\<forall>result. Waits i result \<in> set es \<longrightarrow> result = Answers (ended_report (end_code why))" by blast
  have one: "watch_step (fst n, snd n) e (fst k, snd k)" using step.hyps(2) by simp
  from watch_moves [OF one _ v(1)] ok obtain s where
    s: "wr_watches (snd k) i = Some (v\<lparr>wt_state := s\<rparr>)" "moves (fst n) e i (wt_target v) (wt_state v) s"
    unfolding watches_ok_def by blast
  from ended_moves [OF s(2) v(2)] have "ws_ended s = Some why"
    "\<forall>result. e = Waits i result \<longrightarrow> result = Answers (ended_report (end_code why))" by blast+
  then show ?case using watches_ok_step [OF one ok] s(1) es by auto
qed

section \<open>Withdrawal\<close>

lemma end_if_withdrawn_other: "i \<noteq> j \<Longrightarrow> wr_watches (end_if_withdrawn g j r) i = wr_watches r i"
  by (auto simp: end_if_withdrawn_parts ended_at_def split: option.split)

lemma end_if_withdrawn_here:
  assumes "wr_watches r i = wr_watches q i"
  shows "wr_watches (end_if_withdrawn g i r) i = wr_watches (end_if_withdrawn g i q) i"
  using assms by (simp add: end_if_withdrawn_parts ended_at_def split: option.split)

lemma fold_end_if_withdrawn:
  "distinct is \<Longrightarrow> wr_watches (fold (end_if_withdrawn g) is r) i =
     (if i \<in> set is then wr_watches (end_if_withdrawn g i r) i else wr_watches r i)"
proof (induction "is" arbitrary: r)
  case (Cons j js)
  show ?case
  proof (cases "i \<in> set js")
    case True
    then have "i \<noteq> j" using Cons.prems by auto
    then show ?thesis using Cons True end_if_withdrawn_here [OF end_if_withdrawn_other] by simp
  next
    case False
    then show ?thesis using Cons by (simp add: end_if_withdrawn_other)
  qed
qed simp

lemma watches_ok_withdrawn: "watches_ok r \<Longrightarrow> watches_ok (end_withdrawn g r)"
proof -
  have "watches_ok r \<Longrightarrow> watches_ok (fold (end_if_withdrawn g) is r)" for "is"
    by (induction "is" arbitrary: r) (auto intro: watches_ok_step [OF watch_step.withdraws])
  then show "watches_ok r \<Longrightarrow> watches_ok (end_withdrawn g r)" unfolding end_withdrawn_def .
qed

lemma end_withdrawn_at:
  assumes "watches_ok r" and "i \<in> set (wr_ids r)"
  shows "wr_watches (end_withdrawn g r) i = wr_watches (end_if_withdrawn g i r) i"
  using assms fold_end_if_withdrawn [of "wr_ids r"] by (simp add: end_withdrawn_def watches_ok_def held_ok_def)

lemma revoke_ending_parts:
  "revoke_ending j r g = (fst (revoke j g), end_withdrawn (snd (revoke j g)) r, snd (revoke j g))"
proof -
  have "is_revoked i (g\<lparr>gg_withdrawn := x\<rparr>) = is_revoked i g" "is_held i (g\<lparr>gg_withdrawn := x\<rparr>) = is_held i g" for i g x
    by (simp_all add: is_revoked_def is_held_def withdrawn_def split: option.split)
  then have eq: "end_if_withdrawn (g\<lparr>gg_withdrawn := x\<rparr>) = end_if_withdrawn g" for g x
    by (auto simp: end_if_withdrawn_def fun_eq_iff split: option.split)
  have "end_withdrawn (g\<lparr>gg_withdrawn := x\<rparr>) = end_withdrawn g" for g x
    by (rule ext) (simp only: end_withdrawn_def eq)
  then show ?thesis
    by (simp add: revoke_ending_def revoke_def take_withdrawn_remembered_def case_prod_beta Let_def)
qed

lemma is_revoked_revoke:
  assumes "grant_at g j = Some t" and "grant_at g k = Some h"
  shows "is_revoked k (snd (revoke j g)) \<longleftrightarrow> gr_root h = gr_root t \<or> is_revoked k g"
  using assms by (auto simp: is_revoked_def revoke_parts grant_at_mark withdrawn_def is_live_def)

lemma is_held_revoke: "grant_at g j = Some t \<Longrightarrow> is_held k (snd (revoke j g)) = is_held k g"
  by (simp add: is_held_def revoke_parts grant_at_mark)

text \<open>
  Claim C40: Revoking a grant ends every live watch that descends from the same root before it returns:
  whatever happens afterwards, every wait on such a watch answers that it was revoked. A watch of
  another root, not withdrawn and with its parent held, is as it was.
\<close>

theorem revocation_ends_watches:
  assumes "watches_reachable (now, r)" and "grant_at g j = Some t" and "revoke_ending j r g = (count, r', g')"
    and "i \<in> set (wr_ids r)" and "wr_watches r i = Some w" and "ws_ended (wt_state w) = None"
    and "grant_at g (GrantId KindWatch i) = Some h"
  shows "(gr_root h = gr_root t \<longrightarrow>
      (\<forall>es n result. watch_run (now, r') es n \<and> Waits i result \<in> set es \<longrightarrow>
         result = Answers (ended_report code_revoked))) \<and>
    (gr_root h \<noteq> gr_root t \<and> \<not> is_revoked (GrantId KindWatch i) g \<and> is_held (wt_parent w) g \<longrightarrow>
      wr_watches r' i = Some w)"
proof -
  have r': "r' = end_withdrawn (snd (revoke j g)) r" using assms(3) by (auto simp: revoke_ending_parts)
  note ok = reachable_ok(1) [OF assms(1)]
  note at = end_withdrawn_at [OF ok assms(4), of "snd (revoke j g)", folded r']
  have "result = Answers (ended_report code_revoked)"
    if root: "gr_root h = gr_root t" and run: "watch_run (now, r') es n" "Waits i result \<in> set es" for es n result
  proof -
    have "is_revoked (GrantId KindWatch i) (snd (revoke j g))"
      using is_revoked_revoke [OF assms(2,7)] root by simp
    then have "wr_watches r' i = ended_at i EndRevoked r i"
      unfolding at end_if_withdrawn_parts(1) by (rule if_P [THEN fun_cong])
    then have "wr_watches r' i = Some (w\<lparr>wt_state := (wt_state w)\<lparr>ws_ended := Some EndRevoked\<rparr>\<rparr>)"
      using ended_at_Some [OF assms(5), of i EndRevoked] assms(6) by (simp add: end_state_def)
    from ended_run [OF run(1) _ _, of i _ EndRevoked] this watches_ok_withdrawn [OF ok] run(2)
    show ?thesis unfolding r' by fastforce
  qed
  moreover have "wr_watches r' i = Some w"
    if "gr_root h \<noteq> gr_root t" "\<not> is_revoked (GrantId KindWatch i) g" "is_held (wt_parent w) g"
    unfolding at using that is_revoked_revoke [OF assms(2,7)] is_held_revoke [OF assms(2)] assms(5)
    by (simp add: end_if_withdrawn_parts)
  ultimately show ?thesis by blast
qed

section \<open>A restart that nobody hears\<close>

text \<open>
  A delivery that finds the directory gone ends its watches and forgets the descriptor's list in two
  separate sections. A directory that moved keeps its descriptor, so a watch started on it in
  between shares the descriptor, and its place in the list is forgotten with the others: it is
  live, and no event of its descriptor is for it. And the notifier is never told that the last
  watch of a moved directory was freed.
\<close>

definition sample_masks :: event_masks where
  "sample_masks = \<lparr>em_name_changed = 1, em_written = 2, em_gone = 4\<rparr>"

definition sample_folder :: grant_id where "sample_folder = GrantId KindDirectory 7"

definition start_sample :: "nat \<Rightarrow> watch_store \<Rightarrow> watch_store" where
  "start_sample allocation r =
     snd (start_store DirectoryTarget sample_folder (Ok 3) (\<lambda>_ _. Ok 1) allocation r)"

definition sample_watch :: "watch_state \<Rightarrow> watch" where
  "sample_watch s = \<lparr>wt_target = DirectoryTarget, wt_descriptor = 1, wt_parent = sample_folder, wt_state = s\<rparr>"

definition sample_store :: watch_store where
  "sample_store =
     \<lparr>wr_next = 2, wr_watches = [1 \<mapsto> sample_watch watch_state_start], wr_ids = [1], wr_allocations = [100 \<mapsto> 1],
      wr_by_descriptor = [1 \<mapsto> [1]], wr_notifier = Some 3, wr_started = 1, wr_changes = 0, wr_cancels = 0,
      wr_revocations = 0\<rparr>"

lemma start_sample_first: "start_sample 100 watches_start = sample_store"
  by (simp add: start_sample_def start_store_def watches_start_def sample_store_def sample_watch_def checked_add_def
      Let_def max_watches_def fun_upd_def)

lemma restart_while_gone_is_unheard:
  "\<exists>r. r = forget_descriptor 1 (start_sample 101
        (fold (deliver_to sample_masks 0 (Some 1) None 4) (watched_by (Some 1) sample_store) sample_store)) \<and>
     lookup_watch 2 r = Some (sample_watch watch_state_start) \<and> watched_by (Some 1) r = []"
  by (simp add: start_sample_def start_store_def sample_store_def watched_by_def lookup_watch_def deliver_to_def put_state_def
      deliver_state_def directory_gone_def sample_masks_def forget_descriptor_def checked_add_def Let_def max_watches_def
      sample_watch_def)

lemma moved_directory_stays_watched:
  "fst (unroute_watch 100 (deliver_event sample_masks 0 (Some 1) None 4 sample_store)) = Some (1, None) \<and>
   wr_ids (snd (unroute_watch 100 (deliver_event sample_masks 0 (Some 1) None 4 sample_store))) = []"
  by (simp add: sample_store_def watched_by_def lookup_watch_def deliver_event_def deliver_to_def put_state_def
      deliver_state_def directory_gone_def sample_masks_def forget_descriptor_def Let_def unroute_watch_def sample_watch_def)

section \<open>The statements at concrete inputs\<close>

lemma sample_reachable: "watches_reachable (0, sample_store)"
proof -
  have "watch_step (0, watches_start) (Starts DirectoryTarget sample_folder 100) (0, sample_store)"
    unfolding start_sample_first [symmetric] start_sample_def
    by (rule watch_step.starts [where opened = "Ok 3" and added = "\<lambda>_ _. Ok 1"]) (rule prod.collapse [symmetric])
  then show ?thesis by (rule watches_reachable_step [OF watches_reachable_start])
qed

lemma sample_store_at [simp]: "wr_watches sample_store 1 = Some (sample_watch watch_state_start)"
  by (simp add: sample_store_def)

lemma watches_bounded_witness: "watches_ok sample_store \<and> state_ok 0 watch_state_start"
  using watches_bounded [OF sample_reachable] sample_store_at by (auto simp: sample_watch_def)

definition sample_written :: watch_store where
  "sample_written = deliver_to sample_masks 0 (Some 1) (Some ''a'') 2 1 sample_store"


definition sample_pending :: watch_state where
  "sample_pending =
     \<lparr>ws_names = {''a''}, ws_rebound = False, ws_overflowed = False, ws_first = Some 0, ws_last = Some 0, ws_waiting = False,
      ws_ended = None\<rparr>"

lemma sample_written_at: "wr_watches sample_written 1 = Some (sample_watch sample_pending)"
  by (simp add: sample_written_def deliver_to_def put_state_def sample_store_def sample_watch_def deliver_state_def
      directory_gone_def sample_masks_def watch_state_start_def note_named_def touch_def Let_def max_names_def
      sample_pending_def)

lemma report_in_time_witness: "\<exists>first. ws_first sample_pending = Some first"
proof -
  have "watches_reachable (0, sample_written)"
    unfolding sample_written_def
    by (rule watches_reachable_step [OF sample_reachable]) (rule watch_step.delivers [OF order_refl])
  from report_in_time [OF this sample_written_at, of sample_pending] show ?thesis
    by (auto simp: sample_watch_def sample_pending_def pending_def)
qed

definition sample_grant :: "grant_id \<Rightarrow> grant_id option \<Rightarrow> grant" where
  "sample_grant i p =
     \<lparr>gr_id = i, gr_rights = right_read, gr_origin = Provisioned, gr_lifetime = Session, gr_parent = p,
      gr_root = sample_folder, gr_revoked = False\<rparr>"

definition sample_grants :: grant_registry where
  "sample_grants = grants_start\<lparr>gg_grants :=
     [(sample_folder, sample_grant sample_folder None),
      (GrantId KindWatch 1, sample_grant (GrantId KindWatch 1) (Some sample_folder))]\<rparr>"

lemma revocation_ends_watches_witness:
  "\<exists>result m. watch_step (0, fst (snd (revoke_ending sample_folder sample_store sample_grants))) (Waits 1 result) m \<and>
     result = Answers (ended_report code_revoked)"
proof -
  define r where "r = fst (snd (revoke_ending sample_folder sample_store sample_grants))"
  have grants: "grant_at sample_grants sample_folder = Some (sample_grant sample_folder None)"
    "grant_at sample_grants (GrantId KindWatch 1) = Some (sample_grant (GrantId KindWatch 1) (Some sample_folder))"
    by (simp_all add: sample_grants_def sample_folder_def)
  have "r = end_if_withdrawn (snd (revoke sample_folder sample_grants)) 1 sample_store"
    by (simp add: r_def revoke_ending_parts end_withdrawn_def sample_store_def)
  then have "watch_step (0, sample_store) (Ends 1) (0, r)" by (simp add: watch_step.withdraws)
  from watch_moves [OF this _ sample_store_at] reachable_ok(1) [OF sample_reachable] obtain w where
    w: "wr_watches r 1 = Some w" unfolding watches_ok_def by blast
  obtain result s where "(result, s) = enter_next 0 False (wt_state w)" by (metis surj_pair)
  then have step: "watch_step (0, r) (Waits 1 result) (0, leave_next 1 (result, s) r)"
    by (intro watch_step.waits [OF w] disjI1)
  have "watch_run (0, r) ([] @ [Waits 1 result]) (0, leave_next 1 (result, s) r)"
    by (rule watch_run.step [OF watch_run.none step])
  then have run: "watch_run (0, r) [Waits 1 result] (0, leave_next 1 (result, s) r)" by simp
  have revoked: "revoke_ending sample_folder sample_store sample_grants =
      (fst (revoke_ending sample_folder sample_store sample_grants), r,
       snd (snd (revoke_ending sample_folder sample_store sample_grants)))"
    by (simp add: r_def)
  have "1 \<in> set (wr_ids sample_store)" "ws_ended (wt_state (sample_watch watch_state_start)) = None"
    "gr_root (sample_grant (GrantId KindWatch 1) (Some sample_folder)) = gr_root (sample_grant sample_folder None)"
    by (simp_all add: sample_store_def sample_watch_def watch_state_start_def sample_grant_def)
  with revocation_ends_watches [OF sample_reachable grants(1) revoked _ sample_store_at _ grants(2)] run
  have "result = Answers (ended_report code_revoked)" by (meson list.set_intros(1))
  then show ?thesis using step unfolding r_def by blast
qed

end
