(* ===== verification/TextEditing.thy ===== *)
theory TextEditing
  imports Prelude
begin

text \<open>
  The editor behind a text input (\<open>input.rs\<close>): its text, caret, selection and preedit, the offsets it
  exchanges with the platform, and how an edit is settled with the application's value. Here a text
  is the list of its Unicode scalar values, so that both its UTF-8 and its UTF-16 lengths can be
  counted; offsets into it are bytes, as the code has them. A slice of a string off a character's
  boundary panics. The segmentation into graphemes and the shaped line are a library's: which byte
  offsets start a grapheme, and which offset of the painted text is closest to a point, are
  parameters. What an operation tells the application, once it has returned, is a list of effects.
\<close>

section \<open>Texts and offsets\<close>

type_synonym scalars = "nat list"

definition max_text_bytes :: nat where "max_text_bytes = 1024 * 1024"

definition len_utf8 :: "nat \<Rightarrow> nat" where
  "len_utf8 c = (if c < 0x80 then 1 else if c < 0x800 then 2 else if c < 0x10000 then 3 else 4)"

definition len_utf16 :: "nat \<Rightarrow> nat" where
  "len_utf16 c = (if c < 0x10000 then 1 else 2)"

definition byte_len :: "scalars \<Rightarrow> nat" where
  "byte_len t = sum_list (map len_utf8 t)"

definition unit_len :: "scalars \<Rightarrow> nat" where
  "unit_len t = sum_list (map len_utf16 t)"

text \<open>Cutting a text at a byte offset, where a character starts or the text ends.\<close>

fun cut_at :: "nat \<Rightarrow> scalars \<Rightarrow> (scalars \<times> scalars) option" where
  "cut_at n [] = (if n = 0 then Some ([], []) else None)"
| "cut_at n (c # t) =
     (if n = 0 then Some ([], c # t)
      else if n < len_utf8 c then None
      else map_option (\<lambda>(a, b). (c # a, b)) (cut_at (n - len_utf8 c) t))"

definition slice_to :: "nat \<Rightarrow> scalars \<Rightarrow> (unit, scalars) outcome" where
  "slice_to n t = (case cut_at n t of Some (a, _) \<Rightarrow> Ok a | None \<Rightarrow> Panic)"

definition slice_from :: "nat \<Rightarrow> scalars \<Rightarrow> (unit, scalars) outcome" where
  "slice_from n t = (case cut_at n t of Some (_, b) \<Rightarrow> Ok b | None \<Rightarrow> Panic)"

definition slice_range :: "nat \<times> nat \<Rightarrow> scalars \<Rightarrow> (unit, scalars) outcome" where
  "slice_range r t =
     (if fst r \<le> snd r then obind (slice_to (snd r) t) (slice_from (fst r)) else Panic)"

text \<open>Walking the characters until so many UTF-16 units have been passed.\<close>

fun walk_units :: "nat \<Rightarrow> nat \<Rightarrow> nat \<Rightarrow> scalars \<Rightarrow> nat" where
  "walk_units offset units count [] = count"
| "walk_units offset units count (c # t) =
     (if offset \<le> units then count else walk_units offset (units + len_utf16 c) (count + len_utf8 c) t)"

definition utf16_offset :: "scalars \<Rightarrow> nat \<Rightarrow> nat" where
  "utf16_offset t offset = walk_units offset 0 0 t"

section \<open>The editor\<close>

record text_editor =
  te_content :: scalars
  te_controlled :: scalars
  te_in_flight :: "scalars option"
  te_placeholder :: scalars
  te_selection :: "nat \<times> nat"
  te_reversed :: bool
  te_marked :: "(nat \<times> nat) option"
  te_enabled :: bool
  te_selecting :: bool
  te_layout :: "scalars option"

datatype editor_effect = Changes scalars | Submits scalars

type_synonym edited = "(unit, text_editor \<times> editor_effect list) outcome"

definition new_editor :: "scalars \<Rightarrow> scalars \<Rightarrow> bool \<Rightarrow> (unit, text_editor) outcome" where
  "new_editor value placeholder enabled =
     (if byte_len value \<le> max_text_bytes
      then Ok \<lparr>te_content = value, te_controlled = value, te_in_flight = None, te_placeholder = placeholder,
               te_selection = (0, 0), te_reversed = False, te_marked = None, te_enabled = enabled,
               te_selecting = False, te_layout = None\<rparr>
      else Panic)"

definition set_enabled :: "bool \<Rightarrow> text_editor \<Rightarrow> text_editor" where
  "set_enabled enabled e =
     (if te_enabled e \<noteq> enabled then e\<lparr>te_enabled := enabled, te_selecting := False\<rparr> else e)"

text \<open>Showing a value of the application's, with the caret behind it.\<close>

definition show_value :: "scalars \<Rightarrow> text_editor \<Rightarrow> text_editor" where
  "show_value value e =
     e\<lparr>te_content := value, te_selection := (byte_len value, byte_len value), te_reversed := False\<rparr>"

definition configure_editor :: "scalars \<Rightarrow> scalars \<Rightarrow> bool \<Rightarrow> text_editor \<Rightarrow> (unit, text_editor) outcome" where
  "configure_editor value placeholder enabled e =
     (if \<not> byte_len value \<le> max_text_bytes then Panic
      else
        (let e = e\<lparr>te_placeholder := placeholder\<rparr>;
             newer_edit = (case te_in_flight e of Some submitted \<Rightarrow> te_content e \<noteq> submitted | None \<Rightarrow> False);
             e = (if te_controlled e \<noteq> value
                  then (let e = e\<lparr>te_controlled := value\<rparr> in
                        if te_content e \<noteq> value \<and> \<not> newer_edit then (show_value value e)\<lparr>te_marked := None\<rparr> else e)
                  else e)
         in Ok (set_enabled enabled e)))"

definition acknowledge :: "scalars \<Rightarrow> text_editor \<Rightarrow> text_editor" where
  "acknowledge submitted e =
     (let e = e\<lparr>te_in_flight := None\<rparr> in
      if te_marked e \<noteq> None \<or> te_content e \<noteq> submitted then e
      else if te_content e \<noteq> te_controlled e then (show_value (te_controlled e) e)\<lparr>te_layout := None\<rparr>
      else e)"

definition begin_acknowledgement :: "scalars \<Rightarrow> text_editor \<Rightarrow> text_editor" where
  "begin_acknowledgement submitted e = e\<lparr>te_in_flight := Some submitted\<rparr>"

section \<open>Moving\<close>

definition selection_empty :: "text_editor \<Rightarrow> bool" where
  "selection_empty e \<longleftrightarrow> \<not> fst (te_selection e) < snd (te_selection e)"

definition caret :: "text_editor \<Rightarrow> nat" where
  "caret e = (if te_reversed e then fst (te_selection e) else snd (te_selection e))"

definition move_to :: "nat \<Rightarrow> text_editor \<Rightarrow> text_editor" where
  "move_to offset e = e\<lparr>te_selection := (offset, offset), te_reversed := False\<rparr>"

definition select_to :: "nat \<Rightarrow> text_editor \<Rightarrow> text_editor" where
  "select_to offset e =
     (let anchor = (if te_reversed e then snd (te_selection e) else fst (te_selection e)) in
      e\<lparr>te_selection := (min anchor offset, max anchor offset), te_reversed := offset < anchor\<rparr>)"

text \<open>The starts of the graphemes of a text, in order, are a parameter.\<close>

definition previous_start :: "(scalars \<Rightarrow> nat list) \<Rightarrow> nat \<Rightarrow> text_editor \<Rightarrow> nat" where
  "previous_start starts offset e =
     (case find (\<lambda>i. i < offset) (rev (starts (te_content e))) of Some i \<Rightarrow> i | None \<Rightarrow> 0)"

definition next_start :: "(scalars \<Rightarrow> nat list) \<Rightarrow> nat \<Rightarrow> text_editor \<Rightarrow> nat" where
  "next_start starts offset e =
     (case find (\<lambda>i. offset < i) (starts (te_content e)) of Some i \<Rightarrow> i | None \<Rightarrow> byte_len (te_content e))"

definition go_left :: "(scalars \<Rightarrow> nat list) \<Rightarrow> text_editor \<Rightarrow> text_editor" where
  "go_left starts e =
     (if selection_empty e then move_to (previous_start starts (caret e) e) e else move_to (fst (te_selection e)) e)"

definition go_right :: "(scalars \<Rightarrow> nat list) \<Rightarrow> text_editor \<Rightarrow> text_editor" where
  "go_right starts e =
     (if selection_empty e then move_to (next_start starts (caret e) e) e else move_to (snd (te_selection e)) e)"

definition select_left :: "(scalars \<Rightarrow> nat list) \<Rightarrow> text_editor \<Rightarrow> text_editor" where
  "select_left starts e = select_to (previous_start starts (caret e) e) e"

definition select_right :: "(scalars \<Rightarrow> nat list) \<Rightarrow> text_editor \<Rightarrow> text_editor" where
  "select_right starts e = select_to (next_start starts (caret e) e) e"

definition select_all :: "text_editor \<Rightarrow> text_editor" where
  "select_all e = e\<lparr>te_selection := (0, byte_len (te_content e)), te_reversed := False\<rparr>"

definition go_home :: "text_editor \<Rightarrow> text_editor" where
  "go_home e = move_to 0 e"

definition go_end :: "text_editor \<Rightarrow> text_editor" where
  "go_end e = move_to (byte_len (te_content e)) e"

section \<open>Offsets of the platform\<close>

definition byte_offset_from_utf16 :: "nat \<Rightarrow> text_editor \<Rightarrow> nat" where
  "byte_offset_from_utf16 offset e = walk_units offset 0 0 (te_content e)"

definition to_utf16 :: "nat \<Rightarrow> text_editor \<Rightarrow> (unit, nat) outcome" where
  "to_utf16 offset e = obind (slice_to offset (te_content e)) (\<lambda>t. Ok (unit_len t))"

definition range_to_utf16 :: "nat \<times> nat \<Rightarrow> text_editor \<Rightarrow> (unit, nat \<times> nat) outcome" where
  "range_to_utf16 r e = obind (to_utf16 (fst r) e) (\<lambda>a. obind (to_utf16 (snd r) e) (\<lambda>b. Ok (a, b)))"

definition range_from_utf16 :: "nat \<times> nat \<Rightarrow> text_editor \<Rightarrow> nat \<times> nat" where
  "range_from_utf16 r e = (byte_offset_from_utf16 (fst r) e, byte_offset_from_utf16 (snd r) e)"

definition text_for_range :: "nat \<times> nat \<Rightarrow> text_editor \<Rightarrow> (unit, (nat \<times> nat) \<times> scalars) outcome" where
  "text_for_range r e =
     (let r = range_from_utf16 r e in
      obind (range_to_utf16 r e) (\<lambda>actual. obind (slice_range r (te_content e)) (\<lambda>t. Ok (actual, t))))"

definition selected_text_range ::
  "bool \<Rightarrow> text_editor \<Rightarrow> (unit, ((nat \<times> nat) \<times> bool) option) outcome" where
  "selected_text_range ignore_disabled e =
     (if \<not> te_enabled e \<and> \<not> ignore_disabled then Ok None
      else obind (range_to_utf16 (te_selection e) e) (\<lambda>r. Ok (Some (r, te_reversed e))))"

definition marked_text_range :: "text_editor \<Rightarrow> (unit, (nat \<times> nat) option) outcome" where
  "marked_text_range e =
     (case te_marked e of None \<Rightarrow> Ok None | Some r \<Rightarrow> obind (range_to_utf16 r e) (\<lambda>r. Ok (Some r)))"

text \<open>The offset of the painted line closest to a point, from what the line answers for its text.\<close>

definition index_at :: "(scalars \<Rightarrow> nat) \<Rightarrow> text_editor \<Rightarrow> nat" where
  "index_at closest e = (case te_layout e of Some line \<Rightarrow> closest line | None \<Rightarrow> 0)"

definition character_index_for_point :: "(scalars \<Rightarrow> nat) \<Rightarrow> text_editor \<Rightarrow> (unit, nat) outcome" where
  "character_index_for_point closest e = to_utf16 (index_at closest e) e"

section \<open>Editing\<close>

definition newline_free :: "scalars \<Rightarrow> bool" where
  "newline_free t \<longleftrightarrow> 10 \<notin> set t \<and> 13 \<notin> set t"

definition unmark_text :: "text_editor \<Rightarrow> text_editor \<times> editor_effect list" where
  "unmark_text e =
     (if te_enabled e \<and> te_marked e \<noteq> None then (e\<lparr>te_marked := None\<rparr>, [Changes (te_content e)]) else (e, []))"

text \<open>The range an edit is for: the one given, else the preedit, else the selection.\<close>

definition edit_range :: "(nat \<times> nat) option \<Rightarrow> text_editor \<Rightarrow> nat \<times> nat" where
  "edit_range rg e =
     (case rg of
        Some r \<Rightarrow> range_from_utf16 r e
      | None \<Rightarrow> (case te_marked e of Some r \<Rightarrow> r | None \<Rightarrow> te_selection e))"

text \<open>An edit is left out when it has a line break or is too long; the lengths are machine words.\<close>

definition edit_refused :: "nat \<times> nat \<Rightarrow> scalars \<Rightarrow> text_editor \<Rightarrow> bool" where
  "edit_refused r t e \<longleftrightarrow>
     \<not> newline_free t \<or>
     (of_nat max_text_bytes - (of_nat (byte_len (te_content e)) - of_nat (snd r - fst r)) :: u64) < of_nat (byte_len t)"

definition spliced :: "nat \<times> nat \<Rightarrow> scalars \<Rightarrow> scalars \<Rightarrow> (unit, scalars) outcome" where
  "spliced r t content =
     obind (slice_to (fst r) content) (\<lambda>before. obind (slice_from (snd r) content) (\<lambda>after. Ok (before @ t @ after)))"

definition replace_text_in_range :: "(nat \<times> nat) option \<Rightarrow> scalars \<Rightarrow> text_editor \<Rightarrow> edited" where
  "replace_text_in_range rg t e =
     (if \<not> te_enabled e then Ok (e, [])
      else
        (let r = edit_range rg e in
         if edit_refused r t e then Ok (e, [])
         else obind (spliced r t (te_content e)) (\<lambda>content.
           (let past = fst r + byte_len t in
            Ok (e\<lparr>te_content := content, te_selection := (past, past), te_reversed := False, te_marked := None\<rparr>,
                [Changes content])))))"

definition replace_and_mark_text_in_range ::
  "(nat \<times> nat) option \<Rightarrow> scalars \<Rightarrow> (nat \<times> nat) option \<Rightarrow> text_editor \<Rightarrow> edited" where
  "replace_and_mark_text_in_range rg t selected e =
     (if \<not> te_enabled e then Ok (e, [])
      else
        (let r = edit_range rg e in
         if edit_refused r t e then Ok (e, [])
         else obind (spliced r t (te_content e)) (\<lambda>content.
           (let past = fst r + byte_len t in
            Ok (e\<lparr>te_content := content,
                  te_marked := (if t \<noteq> [] then Some (fst r, past) else None),
                  te_selection :=
                    (case selected of
                       Some s \<Rightarrow> (fst r + utf16_offset t (fst s), fst r + utf16_offset t (snd s))
                     | None \<Rightarrow> (past, past)),
                  te_reversed := False\<rparr>,
                [])))))"

definition backspace :: "(scalars \<Rightarrow> nat list) \<Rightarrow> text_editor \<Rightarrow> edited" where
  "backspace starts e =
     (if \<not> te_enabled e then Ok (e, [])
      else replace_text_in_range None []
        (if selection_empty e then select_to (previous_start starts (caret e) e) e else e))"

definition delete_next :: "(scalars \<Rightarrow> nat list) \<Rightarrow> text_editor \<Rightarrow> edited" where
  "delete_next starts e =
     (if \<not> te_enabled e then Ok (e, [])
      else replace_text_in_range None []
        (if selection_empty e then select_to (next_start starts (caret e) e) e else e))"

definition submit_text :: "text_editor \<Rightarrow> text_editor \<times> editor_effect list" where
  "submit_text e = (e, if \<not> te_enabled e \<or> te_marked e \<noteq> None then [] else [Submits (te_content e)])"

section \<open>The pointer and the screen\<close>

definition editor_mouse_down :: "bool \<Rightarrow> (scalars \<Rightarrow> nat) \<Rightarrow> text_editor \<Rightarrow> text_editor" where
  "editor_mouse_down shift closest e =
     (if \<not> te_enabled e then e
      else
        (let e = e\<lparr>te_selecting := True\<rparr>; index = index_at closest e in
         if shift then select_to index e else move_to index e))"

definition editor_mouse_move :: "(scalars \<Rightarrow> nat) \<Rightarrow> text_editor \<Rightarrow> text_editor" where
  "editor_mouse_move closest e = (if te_selecting e then select_to (index_at closest e) e else e)"

definition editor_mouse_up :: "text_editor \<Rightarrow> text_editor" where
  "editor_mouse_up e = e\<lparr>te_selecting := False\<rparr>"

text \<open>The line shaped and painted is of the placeholder when there is no text; the editor keeps it.\<close>

definition laid_out :: "text_editor \<Rightarrow> scalars" where
  "laid_out e = (if te_content e = [] then te_placeholder e else te_content e)"

definition painted :: "text_editor \<Rightarrow> text_editor" where
  "painted e = e\<lparr>te_layout := Some (laid_out e)\<rparr>"

section \<open>Delivering a text event\<close>

text \<open>
  How the window handles the deferred event of a text input (\<open>text_event_if_live\<close>). The graph
  refuses the event of a node that a dialog hides or that is not an enabled text input; otherwise
  the application's answer may give the input a new configuration.
\<close>

definition text_event ::
  "bool \<Rightarrow> (scalars \<times> scalars \<times> bool) option \<Rightarrow> scalars \<Rightarrow> text_editor \<Rightarrow> (unit, text_editor) outcome" where
  "text_event live answer submitted e =
     (if \<not> live then Ok (acknowledge submitted e)
      else
        (let e = begin_acknowledgement submitted e in
         obind (case answer of Some (value, placeholder, enabled) \<Rightarrow> configure_editor value placeholder enabled e | None \<Rightarrow> Ok e)
           (\<lambda>e. Ok (acknowledge submitted e))))"

end
