(* ===== verification/TextEditingCorrect.thy ===== *)
theory TextEditingCorrect
  imports TextEditing
begin

text \<open>
  What holds of the editor behind a text input: offsets survive the way to the platform and back,
  no operation panics as long as the pointer meets the text that was painted, and an edit that has
  been settled shows the application's value.
\<close>

section \<open>Texts\<close>

lemma len_utf8_pos [simp]: "0 < len_utf8 c" "len_utf8 c \<noteq> 0"
  by (simp_all add: len_utf8_def)

lemma len_utf16_bounds: "0 < len_utf16 c" "len_utf16 c \<le> 2"
  by (simp_all add: len_utf16_def)

lemma byte_len_simps [simp]:
  "byte_len [] = 0" "byte_len (c # t) = len_utf8 c + byte_len t" "byte_len (s @ t) = byte_len s + byte_len t"
  by (simp_all add: byte_len_def)

lemma unit_len_simps [simp]:
  "unit_len [] = 0" "unit_len (c # t) = len_utf16 c + unit_len t" "unit_len (s @ t) = unit_len s + unit_len t"
  by (simp_all add: unit_len_def)

lemma byte_len_zero [simp]: "byte_len t = 0 \<longleftrightarrow> t = []"
  by (cases t) simp_all

lemma cut_at_len: "cut_at (byte_len a) (a @ b) = Some (a, b)"
proof (induction a)
  case Nil
  then show ?case by (cases b) simp_all
qed simp

lemma cut_at_Some: "cut_at n t = Some (a, b) \<Longrightarrow> t = a @ b \<and> byte_len a = n"
  by (induction n t arbitrary: a b rule: cut_at.induct) (auto split: if_splits)

lemma cut_at_iff: "cut_at n t = Some (a, b) \<longleftrightarrow> t = a @ b \<and> byte_len a = n"
  using cut_at_Some cut_at_len by blast

text \<open>The offsets at which a text can be cut.\<close>

definition boundary :: "nat \<Rightarrow> scalars \<Rightarrow> bool" where
  "boundary n t \<longleftrightarrow> (\<exists>a b. t = a @ b \<and> byte_len a = n)"

lemma boundary_ends [simp]: "boundary 0 t" "boundary (byte_len t) t"
  by (auto simp: boundary_def)

lemma boundary_nil [simp]: "boundary n [] \<longleftrightarrow> n = 0"
  by (auto simp: boundary_def)

lemma boundary_le: "boundary n t \<Longrightarrow> n \<le> byte_len t"
  by (auto simp: boundary_def)

lemma boundary_prefix: "boundary n t \<Longrightarrow> boundary (byte_len x + n) (x @ t @ z)"
  unfolding boundary_def by (metis append.assoc byte_len_simps(3))

lemma slices:
  assumes "boundary n t"
  obtains a b where "t = a @ b" "byte_len a = n" "slice_to n t = Ok a" "slice_from n t = Ok b"
proof -
  from assms obtain a b where ab: "t = a @ b" "byte_len a = n" unfolding boundary_def by blast
  then have "cut_at n t = Some (a, b)" using cut_at_len by blast
  then show ?thesis using ab by (intro that) (simp_all add: slice_to_def slice_from_def)
qed

text \<open>Two cuts of a text, in order.\<close>

definition good_range :: "nat \<times> nat \<Rightarrow> scalars \<Rightarrow> bool" where
  "good_range r t \<longleftrightarrow> fst r \<le> snd r \<and> boundary (fst r) t \<and> boundary (snd r) t"

lemma good_range_parts:
  assumes "good_range r t"
  obtains x y z where "t = x @ y @ z" "byte_len x = fst r" "byte_len x + byte_len y = snd r"
proof -
  from assms obtain a b c d where
    ab: "t = a @ b" "byte_len a = fst r" and cd: "t = c @ d" "byte_len c = snd r" and le: "fst r \<le> snd r"
    unfolding good_range_def boundary_def by blast
  from ab(1) cd(1) obtain us where "a = c @ us \<and> us @ b = d \<or> a @ us = c \<and> b = us @ d"
    using append_eq_append_conv2 [of a b c d] by auto
  then show ?thesis
  proof (elim disjE conjE)
    assume us: "a = c @ us" "us @ b = d"
    then have "byte_len us = 0" using ab(2) cd(2) le unfolding us(1) byte_len_simps by linarith
    then have "us = []" by (simp only: byte_len_zero)
    then show ?thesis using us ab cd by (intro that [of a "[]" b]) simp_all
  next
    assume "a @ us = c" "b = us @ d"
    then show ?thesis using ab cd by (intro that [of a us d]) auto
  qed
qed

lemma good_range_point [simp]: "good_range (n, n) t \<longleftrightarrow> boundary n t"
  by (auto simp: good_range_def)

section \<open>UTF-16 offsets\<close>

lemma walk_units_all: "walk_units (u + unit_len a) u n (a @ b) = n + byte_len a"
proof (induction a arbitrary: u n)
  case Nil
  then show ?case by (cases b) simp_all
next
  case (Cons c a)
  from Cons [of "u + len_utf16 c" "n + len_utf8 c"] show ?case using len_utf16_bounds(1) [of c] by (simp add: algebra_simps)
qed

text \<open>Where the walk stops: before the first character that starts at or after the offset.\<close>

lemma walk_units_stops:
  "\<exists>a b. t = a @ b \<and> walk_units offset u n t = n + byte_len a \<and> (b = [] \<or> offset \<le> u + unit_len a) \<and>
     (a = [] \<or> u + unit_len a \<le> offset + 1)"
proof (induction t arbitrary: u n)
  case (Cons c t)
  show ?case
  proof (cases "offset \<le> u")
    case True
    then show ?thesis by (intro exI [of _ "[]"] exI [of _ "c # t"]) simp
  next
    case False
    from Cons [of "u + len_utf16 c" "n + len_utf8 c"] obtain a b where ab: "t = a @ b"
      "walk_units offset (u + len_utf16 c) (n + len_utf8 c) t = n + len_utf8 c + byte_len a"
      "b = [] \<or> offset \<le> u + len_utf16 c + unit_len a" "a = [] \<or> u + len_utf16 c + unit_len a \<le> offset + 1" by blast
    have "u + unit_len (c # a) \<le> offset + 1" using ab(4) False len_utf16_bounds(2) [of c] by auto
    then show ?thesis using ab False by (intro exI [of _ "c # a"] exI [of _ b]) (auto simp: algebra_simps)
  qed
qed simp

lemma walk_units_mono: "m \<le> n \<Longrightarrow> walk_units m u k t \<le> walk_units n u k t"
proof (induction t arbitrary: u k)
  case (Cons c t)
  have "k \<le> walk_units n (u + len_utf16 c) (k + len_utf8 c) t"
    using walk_units_stops [of t n "u + len_utf16 c" "k + len_utf8 c"] by auto
  then show ?case using Cons by auto
qed simp

lemma walk_units_boundary: "boundary (walk_units offset 0 0 t) t"
  using walk_units_stops [of t offset 0 0] by (auto simp: boundary_def)

lemma to_utf16_Ok:
  assumes "boundary n (te_content e)"
  obtains a b where "te_content e = a @ b" "byte_len a = n" "to_utf16 n e = Ok (unit_len a)"
  using slices [OF assms] by (metis obind.simps(1) to_utf16_def)

text \<open>
  Claim C20: An offset of the text survives the way to the platform and back; an offset of the
  platform comes back as itself, or one unit further where it splits a surrogate pair, or as the
  length of the text when it lies beyond; and none of these conversions panics.
\<close>

theorem utf16_offsets_round_trip:
  shows "(\<forall>n. boundary n (te_content e) \<longrightarrow> (\<exists>u. to_utf16 n e = Ok u \<and> byte_offset_from_utf16 u e = n)) \<and>
    (\<forall>offset. \<exists>u. to_utf16 (byte_offset_from_utf16 offset e) e = Ok u \<and>
       (if offset \<le> unit_len (te_content e) then offset \<le> u \<and> u \<le> offset + 1 else u = unit_len (te_content e)))"
proof (intro conjI allI impI)
  fix n
  assume "boundary n (te_content e)"
  then obtain a b where "te_content e = a @ b" "byte_len a = n" "to_utf16 n e = Ok (unit_len a)" by (rule to_utf16_Ok)
  then show "\<exists>u. to_utf16 n e = Ok u \<and> byte_offset_from_utf16 u e = n"
    using walk_units_all [of 0 a 0 b] by (simp add: byte_offset_from_utf16_def)
next
  fix offset
  from walk_units_stops [of "te_content e" offset 0 0] obtain a b where
    ab: "te_content e = a @ b" "walk_units offset 0 0 (te_content e) = 0 + byte_len a"
      "b = [] \<or> offset \<le> 0 + unit_len a" "a = [] \<or> 0 + unit_len a \<le> offset + 1" by blast
  have "slice_to (byte_len a) (te_content e) = Ok a" unfolding ab(1) by (simp add: slice_to_def cut_at_len)
  then have "to_utf16 (byte_offset_from_utf16 offset e) e = Ok (unit_len a)" by (simp add: to_utf16_def byte_offset_from_utf16_def ab(2))
  moreover have "if offset \<le> unit_len (te_content e) then offset \<le> unit_len a \<and> unit_len a \<le> offset + 1
      else unit_len a = unit_len (te_content e)"
    using ab by auto
  ultimately show "\<exists>u. to_utf16 (byte_offset_from_utf16 offset e) e = Ok u \<and>
       (if offset \<le> unit_len (te_content e) then offset \<le> u \<and> u \<le> offset + 1 else u = unit_len (te_content e))"
    by blast
qed

section \<open>Nothing panics\<close>

definition editor_ok :: "text_editor \<Rightarrow> bool" where
  "editor_ok e \<longleftrightarrow>
     byte_len (te_content e) \<le> max_text_bytes \<and> byte_len (te_controlled e) \<le> max_text_bytes \<and>
     good_range (te_selection e) (te_content e) \<and> (\<forall>r. te_marked e = Some r \<longrightarrow> good_range r (te_content e))"

text \<open>What happens to an editor, and what a library or the platform may be relied on for.\<close>

datatype editor_event =
    AppSets scalars scalars bool | Enables bool | Settles scalars | SettleBegins scalars
  | GoesLeft | GoesRight | SelectsLeft | SelectsRight | SelectsAll | GoesHome | GoesEnd
  | Backspaces | Deletes | SubmitsNow | PointerDown bool | PointerMoves | PointerUp | Unmarks
  | Types "(nat \<times> nat) option" scalars | Composes "(nat \<times> nat) option" scalars "(nat \<times> nat) option"
  | Asks "nat \<times> nat" bool | AsksPoint | Paints

fun editor_step :: "(scalars \<Rightarrow> nat list) \<Rightarrow> (scalars \<Rightarrow> nat) \<Rightarrow> editor_event \<Rightarrow> text_editor \<Rightarrow> edited" where
  "editor_step starts closest (AppSets v p b) e = obind (configure_editor v p b e) (\<lambda>e. Ok (e, []))"
| "editor_step starts closest (Enables b) e = Ok (set_enabled b e, [])"
| "editor_step starts closest (Settles s) e = Ok (acknowledge s e, [])"
| "editor_step starts closest (SettleBegins s) e = Ok (begin_acknowledgement s e, [])"
| "editor_step starts closest GoesLeft e = Ok (go_left starts e, [])"
| "editor_step starts closest GoesRight e = Ok (go_right starts e, [])"
| "editor_step starts closest SelectsLeft e = Ok (select_left starts e, [])"
| "editor_step starts closest SelectsRight e = Ok (select_right starts e, [])"
| "editor_step starts closest SelectsAll e = Ok (select_all e, [])"
| "editor_step starts closest GoesHome e = Ok (go_home e, [])"
| "editor_step starts closest GoesEnd e = Ok (go_end e, [])"
| "editor_step starts closest Backspaces e = backspace starts e"
| "editor_step starts closest Deletes e = delete_next starts e"
| "editor_step starts closest SubmitsNow e = Ok (submit_text e)"
| "editor_step starts closest (PointerDown shift) e = Ok (editor_mouse_down shift closest e, [])"
| "editor_step starts closest PointerMoves e = Ok (editor_mouse_move closest e, [])"
| "editor_step starts closest PointerUp e = Ok (editor_mouse_up e, [])"
| "editor_step starts closest Unmarks e = Ok (unmark_text e)"
| "editor_step starts closest (Types rg t) e = replace_text_in_range rg t e"
| "editor_step starts closest (Composes rg t selected) e = replace_and_mark_text_in_range rg t selected e"
| "editor_step starts closest (Asks r ignore) e =
     obind (text_for_range r e) (\<lambda>_. obind (selected_text_range ignore e) (\<lambda>_. obind (marked_text_range e) (\<lambda>_. Ok (e, []))))"
| "editor_step starts closest AsksPoint e = obind (character_index_for_point closest e) (\<lambda>_. Ok (e, []))"
| "editor_step starts closest Paints e = Ok (painted e, [])"

text \<open>The line the pointer is measured against is of the text the editor holds.\<close>

definition line_current :: "text_editor \<Rightarrow> bool" where
  "line_current e \<longleftrightarrow> te_layout e = None \<or> te_layout e = Some (te_content e)"

abbreviation ordered :: "(nat \<times> nat) option \<Rightarrow> bool" where
  "ordered rg \<equiv> (case rg of Some r \<Rightarrow> fst r \<le> snd r | None \<Rightarrow> True)"

fun expected :: "editor_event \<Rightarrow> text_editor \<Rightarrow> bool" where
  "expected (AppSets v p b) e \<longleftrightarrow> byte_len v \<le> max_text_bytes"
| "expected (PointerDown shift) e \<longleftrightarrow> line_current e"
| "expected PointerMoves e \<longleftrightarrow> line_current e"
| "expected AsksPoint e \<longleftrightarrow> line_current e"
| "expected (Types rg t) e \<longleftrightarrow> ordered rg \<and> byte_len t < 2 ^ 64"
| "expected (Composes rg t selected) e \<longleftrightarrow> ordered rg \<and> ordered selected \<and> byte_len t < 2 ^ 64"
| "expected (Asks r ignore) e \<longleftrightarrow> fst r \<le> snd r"
| "expected _ e \<longleftrightarrow> True"

lemma unat_of_small: "n < 2 ^ 64 \<Longrightarrow> unat (of_nat n :: u64) = n"
  by (simp add: unsigned_of_nat take_bit_nat_eq_self)

lemma edit_fits:
  assumes ok: "editor_ok e" and r: "good_range r (te_content e)" and "byte_len t < 2 ^ 64" and "\<not> edit_refused r t e"
  shows "byte_len t + (byte_len (te_content e) - (snd r - fst r)) \<le> max_text_bytes" "newline_free t"
proof -
  have small: "byte_len (te_content e) \<le> max_text_bytes" using ok by (simp add: editor_ok_def)
  have d: "snd r - fst r \<le> byte_len (te_content e)"
    using boundary_le [of "snd r" "te_content e"] r by (simp add: good_range_def)
  have "(of_nat max_text_bytes - (of_nat (byte_len (te_content e)) - of_nat (snd r - fst r)) :: u64) =
      of_nat (max_text_bytes - (byte_len (te_content e) - (snd r - fst r)))"
    using d small by (simp add: of_nat_diff)
  moreover have "unat (of_nat (max_text_bytes - (byte_len (te_content e) - (snd r - fst r))) :: u64) =
      max_text_bytes - (byte_len (te_content e) - (snd r - fst r))"
    by (rule unat_of_small) (simp add: max_text_bytes_def)
  moreover have "unat (of_nat (byte_len t) :: u64) = byte_len t"
    by (rule unat_of_small) (rule assms(3))
  ultimately have "byte_len t \<le> max_text_bytes - (byte_len (te_content e) - (snd r - fst r))"
    using assms(4) by (simp add: edit_refused_def word_less_nat_alt not_less)
  then show "byte_len t + (byte_len (te_content e) - (snd r - fst r)) \<le> max_text_bytes" using small by linarith
  show "newline_free t" using assms(4) by (simp add: edit_refused_def)
qed

lemma spliced_Ok:
  assumes "good_range r content"
  obtains x y z where "content = x @ y @ z" "byte_len x = fst r" "byte_len y = snd r - fst r"
    "spliced r t content = Ok (x @ t @ z)"
proof -
  from assms obtain x y z where xyz: "content = x @ y @ z" "byte_len x = fst r" "byte_len x + byte_len y = snd r"
    by (rule good_range_parts)
  have "cut_at (fst r) content = Some (x, y @ z)" "cut_at (snd r) content = Some (x @ y, z)"
    unfolding cut_at_iff using xyz by simp_all
  then show ?thesis using xyz by (intro that [of x y z]) (simp_all add: spliced_def slice_to_def slice_from_def)
qed

lemma edit_range_good:
  assumes "editor_ok e" and "ordered rg"
  shows "good_range (edit_range rg e) (te_content e)"
proof (cases rg)
  case None
  then show ?thesis using assms(1) by (auto simp: edit_range_def editor_ok_def split: option.split)
next
  case (Some r)
  then show ?thesis
    using assms(2) walk_units_mono [of "fst r" "snd r"] walk_units_boundary
    by (simp add: edit_range_def good_range_def range_from_utf16_def byte_offset_from_utf16_def)
qed

lemma replace_text_ok:
  assumes ok: "editor_ok e" and "ordered rg" and "byte_len t < 2 ^ 64"
  shows "\<exists>e' fx. replace_text_in_range rg t e = Ok (e', fx) \<and> editor_ok e'"
proof (cases "te_enabled e \<and> \<not> edit_refused (edit_range rg e) t e")
  case False
  then show ?thesis using ok by (auto simp: replace_text_in_range_def Let_def)
next
  case True
  note r = edit_range_good [OF assms(1,2)]
  from r obtain x y z where xyz: "te_content e = x @ y @ z" "byte_len x = fst (edit_range rg e)"
    "byte_len y = snd (edit_range rg e) - fst (edit_range rg e)"
    "spliced (edit_range rg e) t (te_content e) = Ok (x @ t @ z)" by (rule spliced_Ok [where t = t])
  have "byte_len (x @ t @ z) \<le> max_text_bytes"
    using edit_fits(1) [OF ok r assms(3)] True unfolding xyz(1) xyz(3) [symmetric] by simp
  moreover have "boundary (byte_len x + byte_len t) (x @ t @ z)" by (rule boundary_prefix) simp
  ultimately show ?thesis using True ok xyz
    by (simp add: replace_text_in_range_def Let_def editor_ok_def)
qed

lemma compose_text_ok:
  assumes ok: "editor_ok e" and "ordered rg" and "ordered selected" and "byte_len t < 2 ^ 64"
  shows "\<exists>e' fx. replace_and_mark_text_in_range rg t selected e = Ok (e', fx) \<and> editor_ok e'"
proof (cases "te_enabled e \<and> \<not> edit_refused (edit_range rg e) t e")
  case False
  then show ?thesis using ok by (auto simp: replace_and_mark_text_in_range_def Let_def)
next
  case True
  note r = edit_range_good [OF assms(1,2)]
  from r obtain x y z where xyz: "te_content e = x @ y @ z" "byte_len x = fst (edit_range rg e)"
    "byte_len y = snd (edit_range rg e) - fst (edit_range rg e)"
    "spliced (edit_range rg e) t (te_content e) = Ok (x @ t @ z)" by (rule spliced_Ok [where t = t])
  have len: "byte_len (x @ t @ z) \<le> max_text_bytes"
    using edit_fits(1) [OF ok r assms(4)] True unfolding xyz(1) xyz(3) [symmetric] by simp
  have at: "boundary (byte_len x + n) (x @ t @ z)" if "boundary n t" for n using that by (rule boundary_prefix)
  have past: "boundary (byte_len x + byte_len t) (x @ t @ z)" by (rule at) simp
  have start: "boundary (byte_len x) (x @ t @ z)" using at [of 0] by simp
  have selected: "good_range (case selected of Some s \<Rightarrow> (byte_len x + utf16_offset t (fst s), byte_len x + utf16_offset t (snd s))
      | None \<Rightarrow> (byte_len x + byte_len t, byte_len x + byte_len t)) (x @ t @ z)"
    using assms(3) past at walk_units_boundary walk_units_mono
    by (auto simp: good_range_def utf16_offset_def split: option.split)
  have marked: "good_range (byte_len x, byte_len x + byte_len t) (x @ t @ z)"
    using start past by (simp add: good_range_def)
  show ?thesis using True ok xyz(4) len selected marked
    by (cases selected; cases "t = []") (simp_all add: replace_and_mark_text_in_range_def Let_def editor_ok_def xyz(2) [symmetric])
qed

text \<open>Moving the caret to a boundary keeps the editor as it should be.\<close>

lemma move_to_ok: "editor_ok e \<Longrightarrow> boundary n (te_content e) \<Longrightarrow> editor_ok (move_to n e)"
  by (simp add: editor_ok_def move_to_def)

lemma select_to_ok: "editor_ok e \<Longrightarrow> boundary n (te_content e) \<Longrightarrow> editor_ok (select_to n e)"
  by (auto simp: editor_ok_def select_to_def good_range_def min_def max_def Let_def)

lemma show_value_ok: "editor_ok e \<Longrightarrow> byte_len v \<le> max_text_bytes \<Longrightarrow> te_marked e = None \<Longrightarrow> editor_ok (show_value v e)"
  by (simp add: editor_ok_def show_value_def)

definition segments :: "(scalars \<Rightarrow> nat list) \<Rightarrow> bool" where
  "segments starts \<longleftrightarrow> (\<forall>t. \<forall>i\<in>set (starts t). boundary i t)"

lemma previous_start_boundary: "segments starts \<Longrightarrow> boundary (previous_start starts n e) (te_content e)"
  by (auto simp: segments_def previous_start_def find_Some_iff split: option.split) (metis nth_mem set_rev length_rev)

lemma next_start_boundary: "segments starts \<Longrightarrow> boundary (next_start starts n e) (te_content e)"
  by (auto simp: segments_def next_start_def find_Some_iff split: option.split)

lemma index_at_boundary:
  "(\<And>t. boundary (closest t) t) \<Longrightarrow> line_current e \<Longrightarrow> boundary (index_at closest e) (te_content e)"
  by (auto simp: line_current_def index_at_def)

lemma selection_ends: "editor_ok e \<Longrightarrow> boundary (fst (te_selection e)) (te_content e) \<and> boundary (snd (te_selection e)) (te_content e)"
  by (simp add: editor_ok_def good_range_def)

lemma range_to_utf16_Ok: "good_range r (te_content e) \<Longrightarrow> \<exists>u. range_to_utf16 r e = Ok u"
  unfolding range_to_utf16_def good_range_def by (metis to_utf16_Ok obind.simps(1))

lemma text_for_range_Ok:
  assumes "fst r \<le> snd r"
  shows "\<exists>x. text_for_range r e = Ok x"
proof -
  have good: "good_range (range_from_utf16 r e) (te_content e)"
    using assms walk_units_boundary walk_units_mono
    by (simp add: good_range_def range_from_utf16_def byte_offset_from_utf16_def)
  from good obtain x y z where xyz: "te_content e = x @ y @ z" "byte_len x = fst (range_from_utf16 r e)"
    "byte_len x + byte_len y = snd (range_from_utf16 r e)" by (rule good_range_parts)
  have "cut_at (snd (range_from_utf16 r e)) (te_content e) = Some (x @ y, z)"
    "cut_at (fst (range_from_utf16 r e)) (x @ y) = Some (x, y)"
    unfolding cut_at_iff using xyz by simp_all
  then have "slice_range (range_from_utf16 r e) (te_content e) = Ok y"
    using good by (simp add: slice_range_def slice_to_def slice_from_def good_range_def)
  moreover obtain u where "range_to_utf16 (range_from_utf16 r e) e = Ok u" using range_to_utf16_Ok [OF good] ..
  ultimately show ?thesis by (simp add: text_for_range_def Let_def)
qed

lemma configure_editor_ok:
  assumes "editor_ok e" and "byte_len v \<le> max_text_bytes"
  shows "\<exists>e'. configure_editor v p b e = Ok e' \<and> editor_ok e'"
  using assms by (auto simp: configure_editor_def Let_def editor_ok_def show_value_def set_enabled_def)

lemma acknowledge_ok: "editor_ok e \<Longrightarrow> editor_ok (acknowledge s e)"
  by (auto simp: acknowledge_def Let_def editor_ok_def show_value_def)

lemma backspaces_ok:
  assumes "editor_ok e" and "segments starts"
  shows "\<exists>e' fx. backspace starts e = Ok (e', fx) \<and> editor_ok e'" "\<exists>e' fx. delete_next starts e = Ok (e', fx) \<and> editor_ok e'"
  using assms replace_text_ok [of _ None "[]"] select_to_ok [OF assms(1)] previous_start_boundary next_start_boundary
  by (simp_all add: backspace_def delete_next_def)

lemma select_all_ok: "editor_ok e \<Longrightarrow> editor_ok (select_all e)"
  by (simp add: editor_ok_def select_all_def good_range_def)

lemma pointer_ok:
  assumes "editor_ok e" and "\<And>t. boundary (closest t) t" and "line_current e"
  shows "editor_ok (editor_mouse_down shift closest e)" "editor_ok (editor_mouse_move closest e)"
    "\<exists>u. character_index_for_point closest e = Ok u"
proof -
  note at = index_at_boundary [OF assms(2,3)]
  have "editor_ok (e\<lparr>te_selecting := True\<rparr>)" "index_at closest (e\<lparr>te_selecting := True\<rparr>) = index_at closest e"
    using assms(1) by (simp_all add: editor_ok_def index_at_def)
  then show "editor_ok (editor_mouse_down shift closest e)"
    using assms(1) at move_to_ok select_to_ok by (simp add: editor_mouse_down_def Let_def)
  show "editor_ok (editor_mouse_move closest e)" using assms(1) at select_to_ok by (simp add: editor_mouse_move_def)
  show "\<exists>u. character_index_for_point closest e = Ok u"
    unfolding character_index_for_point_def using to_utf16_Ok [OF at] by metis
qed

lemma asks_Ok:
  assumes "editor_ok e" and "fst r \<le> snd r"
  shows "editor_step starts closest (Asks r ignore) e = Ok (e, [])"
proof -
  obtain x where x: "text_for_range r e = Ok x" using text_for_range_Ok [OF assms(2)] ..
  obtain u where u: "range_to_utf16 (te_selection e) e = Ok u"
    using range_to_utf16_Ok assms(1) unfolding editor_ok_def by blast
  have "\<exists>m. marked_text_range e = Ok m"
    using range_to_utf16_Ok assms(1) unfolding editor_ok_def
    by (cases "te_marked e") (auto simp: marked_text_range_def)
  then show ?thesis using x u by (auto simp: selected_text_range_def)
qed

text \<open>
  Claim C18: No operation of the editor panics, and after every one of them the text is within its
  limit and the selection and the preedit start and end at characters of the text, in order. The
  platform is relied on for ranges in order, the segmentation and the shaped line for offsets of
  characters, and the pointer for meeting a line that is of the text the editor holds.
\<close>

theorem editing_never_panics:
  assumes ok: "editor_ok e" and starts: "segments starts" and closest: "\<And>t. boundary (closest t) t" and "expected event e"
  shows "\<exists>e' fx. editor_step starts closest event e = Ok (e', fx) \<and> editor_ok e'"
proof (cases event)
  case (AppSets v p b)
  then show ?thesis using configure_editor_ok [OF ok, of v p b] assms(4) by auto
next
  case (PointerDown shift)
  then show ?thesis using pointer_ok [OF ok closest] assms(4) by auto
next
  case PointerMoves
  then show ?thesis using pointer_ok [OF ok closest] assms(4) by auto
next
  case AsksPoint
  then show ?thesis using pointer_ok(3) [OF ok closest] assms(4) ok by auto
next
  case (Types rg t)
  then show ?thesis using replace_text_ok [OF ok, of rg t] assms(4) by simp
next
  case (Composes rg t selected)
  then show ?thesis using compose_text_ok [OF ok, of rg selected t] assms(4) by simp
next
  case (Asks r ignore)
  then show ?thesis using asks_Ok [OF ok, of r] assms(4) ok by simp
next
  case GoesLeft
  then show ?thesis using selection_ends [OF ok] move_to_ok [OF ok] previous_start_boundary [OF starts]
    by (simp add: go_left_def)
next
  case GoesRight
  then show ?thesis using selection_ends [OF ok] move_to_ok [OF ok] next_start_boundary [OF starts]
    by (simp add: go_right_def)
next
  case SelectsLeft
  then show ?thesis using select_to_ok [OF ok] previous_start_boundary [OF starts] by (simp add: select_left_def)
next
  case SelectsRight
  then show ?thesis using select_to_ok [OF ok] next_start_boundary [OF starts] by (simp add: select_right_def)
next
  case Backspaces
  then show ?thesis using backspaces_ok [OF ok starts] by simp
next
  case Deletes
  then show ?thesis using backspaces_ok [OF ok starts] by simp
next
  case (Enables b)
  then show ?thesis using ok by (simp add: set_enabled_def editor_ok_def)
next
  case (Settles s)
  then show ?thesis using acknowledge_ok [OF ok] by simp
next
  case (SettleBegins s)
  then show ?thesis using ok by (simp add: begin_acknowledgement_def editor_ok_def)
next
  case SelectsAll
  then show ?thesis using select_all_ok [OF ok] by simp
next
  case SubmitsNow
  then show ?thesis using ok by (simp add: submit_text_def)
next
  case Unmarks
  then show ?thesis using ok by (simp add: unmark_text_def editor_ok_def)
next
  case PointerUp
  then show ?thesis using ok by (simp add: editor_mouse_up_def editor_ok_def)
next
  case Paints
  then show ?thesis using ok by (simp add: painted_def editor_ok_def)
qed (use move_to_ok [OF ok] in \<open>simp_all add: go_home_def go_end_def\<close>)

lemma new_editor_ok: "new_editor v p b = Ok e \<Longrightarrow> editor_ok e"
  by (auto simp: new_editor_def editor_ok_def split: if_splits)

text \<open>
  Claim C19: An empty text input paints its placeholder, and the pointer is measured against that
  line. Pressing on it anywhere but at its start puts the caret beyond the empty text, and then
  typing any text that is not refused panics, as does asking for the selection.
\<close>

theorem placeholder_press_panics:
  assumes "new_editor [] p True = Ok e" and "closest p \<noteq> 0" and "newline_free t" and "byte_len t \<le> max_text_bytes"
    and "pressed = editor_mouse_down False closest (painted e)"
  shows "replace_text_in_range None t pressed = Panic \<and> selected_text_range ignore pressed = Panic"
proof -
  have e: "te_content e = []" "te_placeholder e = p" "te_enabled e" "te_marked e = None"
    using assms(1) by (auto simp: new_editor_def split: if_splits)
  have pressed: "te_content pressed = []" "te_enabled pressed" "te_marked pressed = None"
    "te_selection pressed = (closest p, closest p)"
    unfolding assms(5) by (simp_all add: editor_mouse_down_def painted_def laid_out_def index_at_def move_to_def Let_def e)
  have "unat (of_nat (byte_len t) :: u64) \<le> unat (of_nat max_text_bytes :: u64)"
    using assms(4) unat_of_small [of "byte_len t"] unat_of_small [of max_text_bytes] by (simp add: max_text_bytes_def)
  then have "\<not> edit_refused (closest p, closest p) t pressed"
    using assms(3) by (simp add: edit_refused_def pressed word_less_nat_alt)
  then have "replace_text_in_range None t pressed = Panic"
    using assms(2) by (simp add: replace_text_in_range_def edit_range_def pressed spliced_def slice_to_def Let_def)
  moreover have "selected_text_range ignore pressed = Panic"
    using assms(2) by (simp add: selected_text_range_def range_to_utf16_def to_utf16_def slice_to_def pressed)
  ultimately show ?thesis by blast
qed

section \<open>Settling an edit\<close>

text \<open>
  An editor and what it has told the application that is not handled yet. The deferred callback of an
  edit runs before the next one is made, as the window flushes its effects after each; the
  application's other patches come in between edits. What the person and the platform do is any
  event but the application's own; a preedit is ended by a commit, not by composing nothing.
\<close>

fun effect_text :: "editor_effect \<Rightarrow> scalars" where
  "effect_text (Changes t) = t"
| "effect_text (Submits t) = t"



text \<open>
  What is kept: one effect at most is waiting, and it carries the text shown, with no preedit; with
  none waiting and no preedit, the value of the application is shown.
\<close>

fun editing_ok :: "text_editor \<Rightarrow> editor_effect list \<Rightarrow> bool" where
  "editing_ok e [] \<longleftrightarrow> te_in_flight e = None \<and> (te_marked e = None \<longrightarrow> te_content e = te_controlled e)"
| "editing_ok e [f] \<longleftrightarrow> te_in_flight e = None \<and> te_marked e = None \<and> effect_text f = te_content e"
| "editing_ok e _ \<longleftrightarrow> False"

lemma editing_ok_frame:
  "editing_ok e [] \<Longrightarrow> te_content e' = te_content e \<Longrightarrow> te_controlled e' = te_controlled e \<Longrightarrow>
   te_in_flight e' = te_in_flight e \<Longrightarrow> te_marked e' = te_marked e \<Longrightarrow> editing_ok e' []"
  by simp



lemma select_to_frame [simp]:
  "te_content (select_to n e) = te_content e" "te_controlled (select_to n e) = te_controlled e"
  "te_in_flight (select_to n e) = te_in_flight e" "te_marked (select_to n e) = te_marked e"
  "te_enabled (select_to n e) = te_enabled e"
  by (simp_all add: select_to_def Let_def)

lemma move_to_frame [simp]:
  "te_content (move_to n e) = te_content e" "te_controlled (move_to n e) = te_controlled e"
  "te_in_flight (move_to n e) = te_in_flight e" "te_marked (move_to n e) = te_marked e"
  by (simp_all add: move_to_def)



lemma set_enabled_frame [simp]:
  "te_content (set_enabled b e) = te_content e" "te_controlled (set_enabled b e) = te_controlled e"
  "te_in_flight (set_enabled b e) = te_in_flight e" "te_marked (set_enabled b e) = te_marked e"
  by (simp_all add: set_enabled_def)




text \<open>
  The turn of an earlier edit leaves a newer one alone: the text, the selection and the preedit are
  as they were, and the application's value is noted.
\<close>

lemma earlier_turn_keeps_newer_edit:
  assumes "te_content e \<noteq> submitted" and "live" and "text_event live answer submitted e = Ok e'"
  shows "te_content e' = te_content e \<and> te_selection e' = te_selection e \<and> te_marked e' = te_marked e"
proof (cases answer)
  case None
  then show ?thesis using assms
    by (auto simp: text_event_def Let_def begin_acknowledgement_def acknowledge_def)
next
  case (Some w)
  obtain v p b where w: "w = (v, p, b)" by (cases w)
  have "te_content (begin_acknowledgement submitted e) = te_content e"
    "te_in_flight (begin_acknowledgement submitted e) = Some submitted" by (simp_all add: begin_acknowledgement_def)
  then obtain e1 where e1: "configure_editor v p b (begin_acknowledgement submitted e) = Ok e1" "e' = acknowledge submitted e1"
    using assms(2,3) Some w by (auto simp: text_event_def Let_def)
  from e1(1) have "te_content e1 = te_content e" "te_selection e1 = te_selection e" "te_marked e1 = te_marked e"
    using assms(1) by (auto simp: configure_editor_def begin_acknowledgement_def Let_def set_enabled_def split: if_splits)
  then show ?thesis using e1(2) assms(1) by (simp add: acknowledge_def Let_def)
qed

text \<open>
  Composing nothing takes the preedit away without telling the application: what the composition
  had replaced is gone from the text, nothing is waiting, and the application's value differs.
\<close>

definition sample_editor :: text_editor where
  "sample_editor =
     \<lparr>te_content = [97, 98], te_controlled = [97, 98], te_in_flight = None, te_placeholder = [], te_selection = (0, 0),
      te_reversed = False, te_marked = None, te_enabled = True, te_selecting = False, te_layout = None\<rparr>"

lemma sample_editor_new: "new_editor [97, 98] [] True = Ok sample_editor"
  by (simp add: new_editor_def sample_editor_def max_text_bytes_def len_utf8_def)

lemma cancelled_composition_unreported:
  "obind (replace_and_mark_text_in_range None [0x3042] None (select_all sample_editor)) (\<lambda>(e, fx).
     obind (replace_and_mark_text_in_range None [] None e) (\<lambda>(e', fx').
       Ok (fx @ fx', te_marked e', te_content e', te_controlled e'))) = Ok ([], None, [], [97, 98])"
proof -
  let ?e1 = "sample_editor\<lparr>te_content := [0x3042], te_selection := (3, 3), te_marked := Some (0, 3)\<rparr>"
  let ?e2 = "sample_editor\<lparr>te_content := []\<rparr>"
  have "replace_and_mark_text_in_range None [0x3042] None (select_all sample_editor) = Ok (?e1, [])"
    by (simp add: max_text_bytes_def select_all_def replace_and_mark_text_in_range_def edit_range_def sample_editor_def
      edit_refused_def newline_free_def spliced_def slice_to_def slice_from_def len_utf8_def)
  moreover have "replace_and_mark_text_in_range None [] None ?e1 = Ok (?e2, [])"
    by (simp add: max_text_bytes_def replace_and_mark_text_in_range_def edit_range_def sample_editor_def
      edit_refused_def newline_free_def spliced_def slice_to_def slice_from_def len_utf8_def)
  ultimately show ?thesis by (simp add: sample_editor_def)
qed

section \<open>The statements at concrete inputs\<close>

lemma utf16_offsets_round_trip_witness: "\<exists>u. to_utf16 2 sample_editor = Ok u \<and> byte_offset_from_utf16 u sample_editor = 2"
proof -
  have "boundary 2 (te_content sample_editor)"
    by (rule exI [of _ "[97, 98]", THEN boundary_def [THEN iffD2]]) (simp add: sample_editor_def len_utf8_def)
  then show ?thesis using utf16_offsets_round_trip [of sample_editor] by blast
qed

lemma editing_never_panics_witness:
  "\<exists>e' fx. editor_step (\<lambda>_. []) (\<lambda>_. 0) (Types None [99]) sample_editor = Ok (e', fx) \<and> editor_ok e'"
proof (rule editing_never_panics)
  show "editor_ok sample_editor" by (rule new_editor_ok [OF sample_editor_new])
qed (simp_all add: segments_def len_utf8_def)

definition empty_editor :: text_editor where
  "empty_editor = sample_editor\<lparr>te_content := [], te_controlled := [], te_placeholder := [97, 98]\<rparr>"

lemma placeholder_press_panics_witness:
  "replace_text_in_range None [99] (editor_mouse_down False byte_len (painted empty_editor)) = Panic \<and>
   selected_text_range True (editor_mouse_down False byte_len (painted empty_editor)) = Panic"
proof (rule placeholder_press_panics [where p = "[97, 98]"])
  show "new_editor [] [97, 98] True = Ok empty_editor"
    by (simp add: new_editor_def empty_editor_def sample_editor_def)
qed (simp_all add: len_utf8_def newline_free_def max_text_bytes_def)


end
