(* ===== verification/Spec2Isabelle.thy ===== *)
theory Spec2Isabelle
  imports NodeKinds StagingTree TaskLifetimes Rows RegistryCommit Routing ApplyAtomic
    ApplyCorrect SpecCorrect SpecErrors RecentsCorrect TimerWaits LocatingCorrect
    WatchesCorrect TextEditingCorrect
begin

text \<open>
  \<^bold>\<open>A verification library for the roc-gui host\<close> (\<open>src/crates/host/src\<close>).

  The host runs an application written in Roc. The application renders an element tree; the host
  stages the tree as a patch of nodes, checks the patch, applies it to the graph of mounted nodes,
  and routes input back to the application by the ids it issued. Tasks, timers and handles of
  resources run beside it, under locks. Specifications, S-expressions in a file, drive the same
  host in tests. The library models the parts of the host that decide something, and proves what
  they promise to each other.

  \<^bold>\<open>Conventions.\<close> A Rust function that can fail is an \<open>outcome\<close> (\<open>Prelude\<close>): \<open>Ok\<close>, \<open>Err\<close> with the
  error as a value of the model, or \<open>Panic\<close> where the code would fail an \<open>expect\<close>, an assertion or an
  index. An operation on a component takes and returns the component's record. Integers that can
  wrap or saturate are words of their width. Strings are lists of bytes. A hash map is a map, or an
  association list where the code iterates over it; where the result could depend on the order of
  a hash map or set, the order is a parameter and the theorems hold for every order. A loop that
  follows links need not end: it is a \<open>partial_function (option)\<close>, \<open>None\<close> meaning that it does not
  return or that it panics, and that it returns on the states that arise is a theorem of its own.
  No recursion runs on fuel.

  \<^bold>\<open>The rendering pipeline\<close> (\<open>bridge.rs\<close>).

  \<^item> \<open>NodeKinds\<close>: nodes, their kinds, and what a kind decides alone.
  \<^item> \<open>KeyedOrder\<close>: the doubly linked order of a keyed container, its iterator and its rollback
    journal (\<open>KeyedChildOrder\<close>). \<open>KeyedSequence\<close> states the abstract sequence and the relation
    \<open>represents\<close>; \<open>KeyedAtomic\<close> has the interface \<open>keyed_sequence\<close> as a locale with its two providers,
    the journalled and the direct edits, and shows that a keyed transaction has the effect of its
    operations on the list, or no effect, with a bounded number of saved children.
  \<^item> \<open>Fragment\<close>: \<open>validate_fragment\<close>. \<open>FragmentTree\<close> relates its work-stack walk to the tree the nodes
    spell, \<open>FragmentAccept\<close> shows that it decides the declarative predicate \<open>acceptable\<close>.
  \<^item> \<open>Registry\<close>: \<open>ComponentRegistry\<close>, the identity of components across renders; its invariant and
    what a commit computes are in \<open>RegistryCommit\<close>.
  \<^item> \<open>Staging\<close>: \<open>BridgeState\<close>, the builders, both commits and \<open>take_patch\<close>. \<open>StagingOrder\<close> has the
    invariant of every reachable bridge, \<open>StagingTree\<close> the round trip from an element tree through the
    builders to a patch that spells it.
  \<^item> \<open>Graph\<close>: \<open>MountedGraph\<close> and its traversals; \<open>GraphTree\<close> defines when a graph is well formed (it
    holds one tree by its child links and parent locations) and what each traversal computes there,
    through the locales \<open>walk_up\<close> and \<open>walk_down\<close>, interpreted for every traversal.
  \<^item> \<open>GraphApply\<close> and \<open>KeyedApply\<close>: \<open>apply\<close> on mounts, replacements and keyed transactions.
    \<open>ApplyAtomic\<close>: a refused patch leaves the graph as it was. \<open>TreeSurgery\<close>, \<open>ApplyLinks\<close>, \<open>ApplyIndex\<close>,
    \<open>ApplyInsert\<close>, \<open>ApplyFrames\<close>, \<open>ApplyPlan\<close>, \<open>ApplyScope\<close>, \<open>ApplyTree\<close>, \<open>ApplyKeeps\<close> and \<open>ApplyCorrect\<close>:
    on a consistent graph a mount or a replacement never panics, refines the replacement of a
    subtree of the tree, and leaves a consistent graph.
  \<^item> \<open>Interaction\<close>: hover, popovers, the modal policy, canvas sizes; \<open>Popovers\<close>: what these keep.
  \<^item> \<open>Shortcuts\<close>: \<open>resolve_shortcut\<close> and \<open>take_focus_request\<close>; \<open>Routing\<close>: that the two ways of asking
    what is presented agree, and that neither a shortcut nor a focus request reaches behind a dialog.

  \<^bold>\<open>Beside the pipeline.\<close>

  \<^item> \<open>Rows\<close> (\<open>rows.rs\<close>): the viewport of a list whose rows are produced on demand.
  \<^item> \<open>Tasks\<close>, \<open>TaskRaces\<close>, \<open>TaskLifetimes\<close> (\<open>tasks.rs\<close>): the registry of tasks, as sequential operations
    and as the atomic accesses that the UI thread and the workers interleave; every claim about it
    holds in every reachable state of the interleaving, and the sequential operations are runs of it.
  \<^item> \<open>Timers\<close>, \<open>TimerWaits\<close> (\<open>timers.rs\<close>): the store, and calls that wait, under interleaving with
    cancellation, freed handles, ended tasks and the clock: no wake-up is lost, and in a fair run
    every call returns.
  \<^item> \<open>Grants\<close>, \<open>GrantsCorrect\<close> (\<open>grant.rs\<close>): the registry of authority; \<open>Recents\<close>, \<open>RecentsText\<close>,
    \<open>RecentsCorrect\<close> (\<open>recents.rs\<close>): the remembered places and the text that keeps them between runs,
    and how withdrawing a grant forgets its entry.
  \<^item> \<open>Watches\<close>, \<open>WatchesCorrect\<close> (\<open>watch.rs\<close>): change notification for granted directories and
    databases, under interleaving: what a watch holds is bounded, no change is lost between reports,
    a report is in time, and revoking a grant ends the watches derived from its root.
  \<^item> \<open>TextEditing\<close>, \<open>TextEditingCorrect\<close> (\<open>input.rs\<close>): the editor behind a text input. Texts are lists of
    scalar values here, since the editor counts both bytes and UTF-16 units. Offsets survive the way to
    the platform and back, editing does not panic while the pointer meets the text that is held (and
    does when it meets a placeholder), and a settled edit shows the application's value.

  \<^bold>\<open>Specifications\<close> (\<open>spec.rs\<close>).

  \<^item> \<open>SpecRead\<close>: the reader of expressions, a partial function on jobs; \<open>SpecReader\<close> and \<open>SpecLimits\<close>:
    it ends on every source and respects its limits; \<open>SpecPrint\<close>: it reads back what is printed;
    \<open>SpecLines\<close>: the lines it reports are lines of the source.
  \<^item> \<open>SpecTerms\<close>, \<open>SpecGrammar\<close>, \<open>SpecSteps\<close>, \<open>SpecArms\<close>: the vocabulary and the decoding of every form,
    one arm of the code's match per entry of a table; \<open>SpecDisplay\<close>: locators as text.
  \<^item> \<open>SpecVocabulary\<close>, \<open>SpecTotal\<close>, \<open>SpecPaths\<close>, \<open>SpecAccept\<close>, \<open>SpecErrors\<close>, \<open>SpecCorrect\<close>: what is
    accepted, what is refused and where, and that parsing always returns.

  \<^bold>\<open>Asking about the screen\<close> (\<open>runner.rs\<close>).

  \<^item> \<open>Locating\<close>: how both runners resolve a locator against the mounted graph, and which point a press
    of a canvas primitive stands for; \<open>GraphClaims\<close>: the claims the graph alone decides;
    \<open>LocatingCorrect\<close>: a locator names exactly the presented nodes it describes, in document order,
    a scope means descent as long as no keyed container is crossed, and a press lands on the
    primitive it names.

  \<^bold>\<open>Parameters and assumptions.\<close> What the code takes from outside is an argument: the comparison and
  the spelling of key chords (GPUI), how \<open>Debug\<close> writes characters of several bytes, the answers of
  the file system and of its notifier, hit tests in floating point, graphemes and shaped lines, addresses of the Roc allocator, orders of hash tables. Where a theorem needs
  something of one of them, it says so as a hypothesis, and its witness gives a concrete value.
  Bounds such as the room below \<open>2 ^ 61\<close> for node ids, or keys of recent entries below \<open>2 ^ 64\<close>, are
  hypotheses where the code relies on them without a check. Time is a number of nanoseconds that
  does not run backwards.

  \<^bold>\<open>Not modelled.\<close> The GPUI views and the window runtime (\<open>lib.rs\<close>, \<open>access_panel.rs\<close>,
  \<open>window_runner.rs\<close>), which are calls into a library; the generated ABI (\<open>roc_platform_abi.rs\<close>); the
  lifecycle of a specification run (the rest of \<open>runner.rs\<close>), which drives the Roc dispatcher; measurements and their database
  (\<open>observatory.rs\<close>); and the resources whose operations are system calls or bindings (files,
  documents, processes, SQLite, networking, audio, devices, the clipboard). In the modelled
  files: timings, test-only queries, tracing, floating-point layout (\<open>SplitterGrip::resize\<close>), and the
  memory management of handles. That a keyed transaction keeps the graph consistent as a whole is
  proved for its order and for its refusal only.
\<close>

end
